(* ===== verification/Prelude.thy ===== *)
theory Prelude
  imports Main "HOL-Library.Word" "HOL-Library.List_Lexorder" "HOL-Library.Char_ord"
begin

text \<open>
  The vocabulary every component shares: the C++ exceptions as a datatype, computations that
  may throw as sums, computations that change an object and may throw while the change
  persists, the checked unsigned arithmetic behind the typedefs of
  \<^verbatim>\<open>src/src/utils/utils.h\<close>, and big-endian byte strings.
\<close>

unbundle bit_operations_syntax

section \<open>Exceptions and results\<close>

text \<open>
  One constructor for each kind of exception the sources throw. \<open>BoostError\<close> stands for what
  the checked number types of the sources throw when a result does not fit the type
  (\<^verbatim>\<open>std::range_error\<close> or \<^verbatim>\<open>std::overflow_error\<close>) or when they divide by zero.
  \<open>UndefinedBehaviour\<close> is not an exception: it marks an execution the C++ standard says
  nothing about, such as an out-of-range \<^verbatim>\<open>operator[]\<close>.
\<close>

datatype cpp_error =
    OverflowError
  | UnderflowError
  | DomainError
  | InvalidArgument
  | OutOfRange
  | LengthError
  | BoostError
  | DynamicException string
  | UndefinedBehaviour

type_synonym 'a res = "cpp_error + 'a"

definition bind_r :: "'a res \<Rightarrow> ('a \<Rightarrow> 'b res) \<Rightarrow> 'b res" where
  "bind_r m f = (case m of Inl e \<Rightarrow> Inl e | Inr x \<Rightarrow> f x)"

named_theorems res_simps \<open>equations of the result combinators\<close>

lemma bind_r_Inl [simp, res_simps]: "bind_r (Inl e) f = Inl e"
  by (simp add: bind_r_def)

lemma bind_r_Inr [simp, res_simps]: "bind_r (Inr x) f = f x"
  by (simp add: bind_r_def)

lemma bind_r_eq_Inr [res_simps]: "bind_r m f = Inr y \<longleftrightarrow> (\<exists>x. m = Inr x \<and> f x = Inr y)"
  by (cases m) simp_all

lemma bind_r_eq_Inl:
  "bind_r m f = Inl e \<longleftrightarrow> m = Inl e \<or> (\<exists>x. m = Inr x \<and> f x = Inl e)"
  by (cases m) simp_all

lemma bind_r_assoc: "bind_r (bind_r m f) g = bind_r m (\<lambda>x. bind_r (f x) g)"
  by (cases m) simp_all

text \<open>A guard that throws, as \<^verbatim>\<open>if (c) throw e;\<close> does.\<close>

definition throw_if :: "bool \<Rightarrow> cpp_error \<Rightarrow> unit res" where
  "throw_if c e = (if c then Inl e else Inr ())"

lemma throw_if_simps [simp, res_simps]:
  "throw_if True e = Inl e" "throw_if False e = Inr ()"
  by (simp_all add: throw_if_def)

lemma throw_if_eq_Inr [simp, res_simps]: "throw_if c e = Inr u \<longleftrightarrow> \<not> c"
  by (simp add: throw_if_def)

lemma throw_if_eq_Inl: "throw_if c e = Inl e' \<longleftrightarrow> c \<and> e' = e"
  by (auto simp: throw_if_def)

section \<open>Methods: state that survives a throw\<close>

text \<open>
  A member function runs on an object. When it throws, the writes it has made so far stay
  in the object, and it is the caller that reverts them. So a method returns its result or
  error together with the object as it then is.
\<close>

type_synonym ('s, 'a) meth = "'s \<Rightarrow> 'a res \<times> 's"

definition ret_m :: "'a \<Rightarrow> ('s, 'a) meth" where
  "ret_m x = (\<lambda>s. (Inr x, s))"

definition throw_m :: "cpp_error \<Rightarrow> ('s, 'a) meth" where
  "throw_m e = (\<lambda>s. (Inl e, s))"

definition bind_m :: "('s, 'a) meth \<Rightarrow> ('a \<Rightarrow> ('s, 'b) meth) \<Rightarrow> ('s, 'b) meth" where
  "bind_m m f = (\<lambda>s. case m s of (Inl e, s') \<Rightarrow> (Inl e, s') | (Inr x, s') \<Rightarrow> f x s')"

definition get_m :: "('s \<Rightarrow> 'a) \<Rightarrow> ('s, 'a) meth" where
  "get_m f = (\<lambda>s. (Inr (f s), s))"

definition mod_m :: "('s \<Rightarrow> 's) \<Rightarrow> ('s, unit) meth" where
  "mod_m f = (\<lambda>s. (Inr (), f s))"

definition lift_m :: "'a res \<Rightarrow> ('s, 'a) meth" where
  "lift_m r = (\<lambda>s. (r, s))"

named_theorems meth_simps \<open>equations of the method combinators\<close>

lemma meth_basic [simp, meth_simps]:
  "ret_m x s = (Inr x, s)"
  "throw_m e s = (Inl e, s)"
  "get_m f s = (Inr (f s), s)"
  "mod_m g s = (Inr (), g s)"
  "lift_m r s = (r, s)"
  by (simp_all add: ret_m_def throw_m_def get_m_def mod_m_def lift_m_def)

lemma bind_m_apply [meth_simps]:
  "bind_m m f s = (case fst (m s) of Inl e \<Rightarrow> (Inl e, snd (m s)) | Inr x \<Rightarrow> f x (snd (m s)))"
  by (simp add: bind_m_def split: prod.split sum.split)

lemma bind_m_Inr: "m s = (Inr x, s') \<Longrightarrow> bind_m m f s = f x s'"
  by (simp add: bind_m_def)

lemma bind_m_Inl: "m s = (Inl e, s') \<Longrightarrow> bind_m m f s = (Inl e, s')"
  by (simp add: bind_m_def)

lemma bind_m_eq_Inr:
  "bind_m m f s = (Inr y, t) \<longleftrightarrow> (\<exists>x s'. m s = (Inr x, s') \<and> f x s' = (Inr y, t))"
  by (auto simp: bind_m_def split: prod.splits sum.splits)

section \<open>Checked unsigned integers\<close>

text \<open>
  \<^verbatim>\<open>utils.h\<close> names the number types \<^verbatim>\<open>uint24_t\<close> \<dots> \<^verbatim>\<open>uint256_t\<close>
  (\<^verbatim>\<open>cpp_int_backend<N, N, unsigned_magnitude, checked>\<close>): a value of \<^verbatim>\<open>uintN_t\<close> is a natural
  number below \<open>2 ^ N\<close> and an operation whose result is not such a number throws. The width
  is an argument.
\<close>

definition u_add :: "nat \<Rightarrow> nat \<Rightarrow> nat \<Rightarrow> nat res" where
  "u_add n a b = (if a + b < 2 ^ n then Inr (a + b) else Inl BoostError)"

definition u_sub :: "nat \<Rightarrow> nat \<Rightarrow> nat res" where
  "u_sub a b = (if b \<le> a then Inr (a - b) else Inl BoostError)"

definition u_mul :: "nat \<Rightarrow> nat \<Rightarrow> nat \<Rightarrow> nat res" where
  "u_mul n a b = (if a * b < 2 ^ n then Inr (a * b) else Inl BoostError)"

definition u_div :: "nat \<Rightarrow> nat \<Rightarrow> nat res" where
  "u_div a b = (if b = 0 then Inl BoostError else Inr (a div b))"

text \<open>A conversion to a narrower checked type.\<close>

definition u_cast :: "nat \<Rightarrow> nat \<Rightarrow> nat res" where
  "u_cast n a = (if a < 2 ^ n then Inr a else Inl BoostError)"

lemma u_add_eq_Inr [simp]: "u_add n a b = Inr c \<longleftrightarrow> a + b < 2 ^ n \<and> c = a + b"
  by (auto simp: u_add_def)

lemma u_sub_eq_Inr [simp]: "u_sub a b = Inr c \<longleftrightarrow> b \<le> a \<and> c = a - b"
  by (auto simp: u_sub_def)

lemma u_mul_eq_Inr [simp]: "u_mul n a b = Inr c \<longleftrightarrow> a * b < 2 ^ n \<and> c = a * b"
  by (auto simp: u_mul_def)

lemma u_div_eq_Inr [simp]: "u_div a b = Inr c \<longleftrightarrow> b \<noteq> 0 \<and> c = a div b"
  by (auto simp: u_div_def)

lemma u_cast_eq_Inr [simp]: "u_cast n a = Inr c \<longleftrightarrow> a < 2 ^ n \<and> c = a"
  by (auto simp: u_cast_def)

section \<open>Byte strings\<close>

type_synonym byte = "8 word"
type_synonym bytes = "byte list"

text \<open>The number a big-endian byte string denotes.\<close>

definition be_val :: "bytes \<Rightarrow> nat" where
  "be_val bs = foldl (\<lambda>a b. a * 256 + unat b) 0 bs"

lemma be_foldl: "foldl (\<lambda>a b. a * 256 + unat (b :: byte)) x bs = x * 256 ^ length bs + be_val bs"
proof (induction bs arbitrary: x)
  case Nil
  then show ?case by (simp add: be_val_def)
next
  case (Cons b bs)
  show ?case
    using Cons.IH[of "x * 256 + unat b"] Cons.IH[of "unat b"]
    by (simp add: be_val_def algebra_simps)
qed

lemma be_val_Nil [simp]: "be_val [] = 0"
  by (simp add: be_val_def)

lemma be_val_Cons: "be_val (b # bs) = unat b * 256 ^ length bs + be_val bs"
  using be_foldl[of "unat b" bs] by (simp add: be_val_def)

lemma be_val_append: "be_val (xs @ ys) = be_val xs * 256 ^ length ys + be_val ys"
proof -
  have "be_val (xs @ ys) = foldl (\<lambda>a b. a * 256 + unat b) (be_val xs) ys"
    by (simp add: be_val_def)
  then show ?thesis by (simp add: be_foldl)
qed

lemma be_val_singleton [simp]: "be_val [b] = unat b"
  by (simp add: be_val_Cons)

lemma be_val_replicate_0 [simp]: "be_val (replicate n 0) = 0"
  by (induction n) (simp_all add: be_val_Cons)

lemma unat_byte_less [simp]: "unat (b :: byte) < 256"
  using unsigned_less[of b, where ?'a = nat] by simp

lemma unat_byte_le [simp]: "unat (b :: byte) \<le> 255"
  using unat_byte_less[of b] by linarith

lemma be_val_less: "be_val bs < 256 ^ length bs"
proof (induction bs)
  case Nil
  then show ?case by simp
next
  case (Cons b bs)
  have "unat b * 256 ^ length bs + be_val bs < (unat b + 1) * 256 ^ length bs"
    using Cons.IH by simp
  also have "\<dots> \<le> 256 * 256 ^ length bs"
    using unat_byte_less[of b] by (intro mult_right_mono) simp_all
  finally show ?case by (simp add: be_val_Cons)
qed

lemma byte_of_nat_mod [simp]: "unat (word_of_nat (n mod 256) :: byte) = n mod 256"
  by (simp add: unat_of_nat)

lemma be_val_inj: "length xs = length ys \<Longrightarrow> be_val xs = be_val ys \<Longrightarrow> xs = ys"
proof (induction xs ys rule: list_induct2)
  case Nil
  then show ?case by simp
next
  case (Cons x xs y ys)
  let ?p = "256 ^ length xs :: nat"
  have eq: "unat x * ?p + be_val xs = unat y * ?p + be_val ys"
    using Cons.prems Cons.hyps by (simp add: be_val_Cons)
  have bx: "be_val xs < ?p" and by': "be_val ys < ?p"
    using be_val_less[of xs] be_val_less[of ys] Cons.hyps by simp_all
  have "(unat x * ?p + be_val xs) div ?p = (unat y * ?p + be_val ys) div ?p"
    using eq by simp
  then have xy: "unat x = unat y" using bx by' by simp
  then have "be_val xs = be_val ys" using eq by simp
  with Cons.IH xy show ?case by (simp add: word_unat_eq_iff)
qed

text \<open>A fixed-size address; \<^verbatim>\<open>Address()\<close> is all zeroes.\<close>

type_synonym address = bytes

definition zero_address :: address where
  "zero_address = replicate 20 0"

text \<open>The explicit \<^verbatim>\<open>operator bool\<close> of \<^verbatim>\<open>FixedBytes\<close>: whether some byte is not zero.\<close>

definition nonzero_bytes :: "bytes \<Rightarrow> bool" where
  "nonzero_bytes bs = list_ex (\<lambda>b. b \<noteq> 0) bs"

lemma nonzero_bytes_zero_address [simp]: "\<not> nonzero_bytes zero_address"
  by (simp add: nonzero_bytes_def zero_address_def list_ex_iff)

lemma nonzero_bytes_iff: "length a = 20 \<Longrightarrow> nonzero_bytes a \<longleftrightarrow> a \<noteq> zero_address"
  using replicate_length_same[of a 0]
  by (auto simp: nonzero_bytes_def zero_address_def list_ex_iff)

section \<open>Finite sums over maps\<close>

text \<open>The sum of the values of a finite map, used for token supplies.\<close>

definition map_total :: "('k \<Rightarrow> nat option) \<Rightarrow> nat" where
  "map_total m = (\<Sum>k\<in>dom m. the (m k))"

definition map_default :: "('k \<Rightarrow> nat option) \<Rightarrow> 'k \<Rightarrow> nat" where
  "map_default m k = (case m k of None \<Rightarrow> 0 | Some v \<Rightarrow> v)"

lemma map_total_upd:
  assumes "finite (dom m)"
  shows "map_total (m(k \<mapsto> v)) + map_default m k = map_total m + v"
proof (cases "k \<in> dom m")
  case True
  have "map_total (m(k \<mapsto> v)) = v + (\<Sum>j\<in>dom m - {k}. the ((m(k \<mapsto> v)) j))"
    using assms True by (simp add: map_total_def sum.remove insert_absorb)
  also have "(\<Sum>j\<in>dom m - {k}. the ((m(k \<mapsto> v)) j)) = (\<Sum>j\<in>dom m - {k}. the (m j))"
    by (rule sum.cong) simp_all
  finally have 1: "map_total (m(k \<mapsto> v)) = v + (\<Sum>j\<in>dom m - {k}. the (m j))" .
  have "map_total m = the (m k) + (\<Sum>j\<in>dom m - {k}. the (m j))"
    using assms True by (simp add: map_total_def sum.remove)
  moreover have "map_default m k = the (m k)" using True by (auto simp: map_default_def)
  ultimately show ?thesis using 1 by simp
next
  case False
  have "(\<Sum>j\<in>dom m. the ((m(k \<mapsto> v)) j)) = (\<Sum>j\<in>dom m. the (m j))"
    using False by (intro sum.cong) auto
  then have "map_total (m(k \<mapsto> v)) = v + map_total m"
    using assms False by (simp add: map_total_def)
  moreover have "map_default m k = 0" using False by (auto simp: map_default_def split: option.split)
  ultimately show ?thesis by simp
qed

lemma map_default_le_total:
  assumes "finite (dom m)"
  shows "map_default m k \<le> map_total m"
proof (cases "m k")
  case None
  then show ?thesis by (simp add: map_default_def)
next
  case (Some v)
  have "the (m k) \<le> (\<Sum>k\<in>dom m. the (m k))"
    using assms Some by (intro member_le_sum) auto
  with Some show ?thesis by (simp add: map_default_def map_total_def)
qed

end
