(* ===== verification/Byte_Codec.thy ===== *)
theory Byte_Codec
  imports Prelude
begin

text \<open>
  The integer and byte-string conversions of \<^verbatim>\<open>src/src/utils/utils.cpp\<close> and
  \<^verbatim>\<open>utils.h\<close>. The functions \<^verbatim>\<open>export_bits\<close> and \<^verbatim>\<open>import_bits\<close> come from the number
  library and are arguments of the definitions; the locale \<open>boost_bits\<close> states what their
  documentation promises.
\<close>

section \<open>Loops over native integers\<close>

text \<open>\<^verbatim>\<open>Utils::bytesRequired\<close>: count the shifts by 8 until the value is 0.\<close>

fun bytesRequired :: "nat \<Rightarrow> nat" where
  "bytesRequired i = (if i = 0 then 0 else Suc (bytesRequired (i div 256)))"

declare bytesRequired.simps [simp del]

text \<open>
  \<^verbatim>\<open>Utils::uintToBytes\<close>: a vector of \<^verbatim>\<open>bytesRequired(i)\<close> zeroes, filled from its end; \<open>b\<close> is
  the position of the iterator, and the loop stops when the value is 0 or the iterator
  is at the beginning.
\<close>

fun uintToBytes_loop :: "nat \<Rightarrow> nat \<Rightarrow> bytes \<Rightarrow> bytes" where
  "uintToBytes_loop i b ret =
     (if i = 0 then ret
      else if b = 0 then ret
      else uintToBytes_loop (i div 256) (b - 1) (ret[b - 1 := word_of_nat (i mod 256)]))"

declare uintToBytes_loop.simps [simp del]

definition uintToBytes :: "nat \<Rightarrow> bytes" where
  "uintToBytes i = uintToBytes_loop i (bytesRequired i) (replicate (bytesRequired i) 0)"

text \<open>
  \<^verbatim>\<open>Utils::fromBigEndian<T>\<close>: shift the accumulator by 8 and put the byte in. For the native
  \<^verbatim>\<open>uint64_t\<close> and \<^verbatim>\<open>uint8_t\<close> the shift drops the bits that leave the type; for a checked
  type it throws when a bit would be lost.
\<close>

fun fromBigEndian_loop :: "nat \<Rightarrow> nat \<Rightarrow> bytes \<Rightarrow> nat" where
  "fromBigEndian_loop w acc [] = acc"
| "fromBigEndian_loop w acc (b # bs) =
     fromBigEndian_loop w ((acc * 256 + unat b) mod 2 ^ w) bs"

definition fromBigEndian_native :: "nat \<Rightarrow> bytes \<Rightarrow> nat" where
  "fromBigEndian_native w bs = fromBigEndian_loop w 0 bs"

fun fromBigEndian_ck_loop :: "nat \<Rightarrow> nat \<Rightarrow> bytes \<Rightarrow> nat res" where
  "fromBigEndian_ck_loop w acc [] = Inr acc"
| "fromBigEndian_ck_loop w acc (b # bs) =
     (if acc * 256 < 2 ^ w then fromBigEndian_ck_loop w (acc * 256 + unat b) bs
      else Inl BoostError)"

definition fromBigEndian_ck :: "nat \<Rightarrow> bytes \<Rightarrow> nat res" where
  "fromBigEndian_ck w bs = fromBigEndian_ck_loop w 0 bs"

section \<open>Fixed-size arrays of wide integers\<close>

text \<open>
  The body the \<^verbatim>\<open>uintNToBytes\<close> functions share: the loop
  \<^verbatim>\<open>for (ii = 0; ii < tmp.size(); ii++) ret[N-1-ii] = tmp[tmp.size()-ii-1]\<close>
  that writes the exported bytes over the tail of the array. The array is a local
  \<^verbatim>\<open>std::array\<close>; where it is not filled first, its previous contents (\<open>junk\<close>) remain.
\<close>

function copy_tail :: "nat \<Rightarrow> nat \<Rightarrow> bytes \<Rightarrow> bytes \<Rightarrow> bytes" where
  "copy_tail n ii tmp ret =
     (if ii < length tmp
      then copy_tail n (Suc ii) tmp (ret[n - 1 - ii := tmp ! (length tmp - ii - 1)])
      else ret)"
  by pat_completeness auto
termination
  by (relation "measure (\<lambda>(n, ii, tmp, ret). length tmp - ii)") auto

declare copy_tail.simps [simp del]

definition wideToBytes :: "(nat \<Rightarrow> bytes) \<Rightarrow> nat \<Rightarrow> bytes \<Rightarrow> nat \<Rightarrow> bytes" where
  "wideToBytes ex n junk i = copy_tail n 0 (ex i) junk"

text \<open>The body the \<^verbatim>\<open>bytesToUintN\<close> functions share: a size check, then \<^verbatim>\<open>import_bits\<close>.\<close>

definition invalid_size :: cpp_error where
  "invalid_size = DynamicException ''Invalid bytes size''"

definition bytesToWide :: "(bytes \<Rightarrow> nat) \<Rightarrow> nat \<Rightarrow> bytes \<Rightarrow> nat res" where
  "bytesToWide im n b = (if length b \<noteq> n then Inl invalid_size else Inr (im b))"

text \<open>\<^verbatim>\<open>uint256ToBytes\<close> is the only one that fills the array before the copy.\<close>

definition uint256ToBytes :: "(nat \<Rightarrow> bytes) \<Rightarrow> nat \<Rightarrow> bytes" where
  "uint256ToBytes ex i = wideToBytes ex 32 (replicate 32 0) i"

definition uint248ToBytes where "uint248ToBytes ex junk i = wideToBytes ex 31 junk i"
definition uint240ToBytes where "uint240ToBytes ex junk i = wideToBytes ex 30 junk i"
definition uint232ToBytes where "uint232ToBytes ex junk i = wideToBytes ex 29 junk i"
definition uint224ToBytes where "uint224ToBytes ex junk i = wideToBytes ex 28 junk i"
definition uint216ToBytes where "uint216ToBytes ex junk i = wideToBytes ex 27 junk i"
definition uint208ToBytes where "uint208ToBytes ex junk i = wideToBytes ex 26 junk i"
definition uint200ToBytes where "uint200ToBytes ex junk i = wideToBytes ex 25 junk i"
definition uint192ToBytes where "uint192ToBytes ex junk i = wideToBytes ex 24 junk i"
definition uint184ToBytes where "uint184ToBytes ex junk i = wideToBytes ex 23 junk i"
definition uint176ToBytes where "uint176ToBytes ex junk i = wideToBytes ex 22 junk i"
definition uint168ToBytes where "uint168ToBytes ex junk i = wideToBytes ex 21 junk i"
definition uint160ToBytes where "uint160ToBytes ex junk i = wideToBytes ex 20 junk i"
definition uint152ToBytes where "uint152ToBytes ex junk i = wideToBytes ex 19 junk i"
definition uint144ToBytes where "uint144ToBytes ex junk i = wideToBytes ex 18 junk i"
definition uint136ToBytes where "uint136ToBytes ex junk i = wideToBytes ex 17 junk i"
definition uint128ToBytes where "uint128ToBytes ex junk i = wideToBytes ex 16 junk i"
definition uint120ToBytes where "uint120ToBytes ex junk i = wideToBytes ex 15 junk i"
definition uint112ToBytes where "uint112ToBytes ex junk i = wideToBytes ex 14 junk i"
definition uint104ToBytes where "uint104ToBytes ex junk i = wideToBytes ex 13 junk i"
definition uint96ToBytes where "uint96ToBytes ex junk i = wideToBytes ex 12 junk i"
definition uint88ToBytes where "uint88ToBytes ex junk i = wideToBytes ex 11 junk i"
definition uint80ToBytes where "uint80ToBytes ex junk i = wideToBytes ex 10 junk i"
definition uint72ToBytes where "uint72ToBytes ex junk i = wideToBytes ex 9 junk i"
definition uint56ToBytes where "uint56ToBytes ex junk i = wideToBytes ex 7 junk i"
definition uint48ToBytes where "uint48ToBytes ex junk i = wideToBytes ex 6 junk i"
definition uint40ToBytes where "uint40ToBytes ex junk i = wideToBytes ex 5 junk i"
definition uint24ToBytes where "uint24ToBytes ex junk i = wideToBytes ex 3 junk i"

definition bytesToUint256 where "bytesToUint256 im b = bytesToWide im 32 b"
definition bytesToUint248 where "bytesToUint248 im b = bytesToWide im 31 b"
definition bytesToUint240 where "bytesToUint240 im b = bytesToWide im 30 b"
definition bytesToUint232 where "bytesToUint232 im b = bytesToWide im 29 b"
definition bytesToUint224 where "bytesToUint224 im b = bytesToWide im 28 b"
definition bytesToUint216 where "bytesToUint216 im b = bytesToWide im 27 b"
definition bytesToUint208 where "bytesToUint208 im b = bytesToWide im 26 b"
definition bytesToUint200 where "bytesToUint200 im b = bytesToWide im 25 b"
definition bytesToUint192 where "bytesToUint192 im b = bytesToWide im 24 b"
definition bytesToUint184 where "bytesToUint184 im b = bytesToWide im 23 b"
definition bytesToUint176 where "bytesToUint176 im b = bytesToWide im 22 b"
definition bytesToUint168 where "bytesToUint168 im b = bytesToWide im 21 b"
definition bytesToUint160 where "bytesToUint160 im b = bytesToWide im 20 b"
definition bytesToUint152 where "bytesToUint152 im b = bytesToWide im 19 b"
definition bytesToUint144 where "bytesToUint144 im b = bytesToWide im 18 b"
definition bytesToUint136 where "bytesToUint136 im b = bytesToWide im 17 b"
definition bytesToUint128 where "bytesToUint128 im b = bytesToWide im 16 b"
definition bytesToUint120 where "bytesToUint120 im b = bytesToWide im 15 b"
definition bytesToUint112 where "bytesToUint112 im b = bytesToWide im 14 b"
definition bytesToUint104 where "bytesToUint104 im b = bytesToWide im 13 b"
definition bytesToUint96 where "bytesToUint96 im b = bytesToWide im 12 b"
definition bytesToUint88 where "bytesToUint88 im b = bytesToWide im 11 b"
definition bytesToUint80 where "bytesToUint80 im b = bytesToWide im 10 b"
definition bytesToUint72 where "bytesToUint72 im b = bytesToWide im 9 b"
definition bytesToUint56 where "bytesToUint56 im b = bytesToWide im 7 b"
definition bytesToUint48 where "bytesToUint48 im b = bytesToWide im 6 b"
definition bytesToUint40 where "bytesToUint40 im b = bytesToWide im 5 b"
definition bytesToUint24 where "bytesToUint24 im b = bytesToWide im 3 b"

section \<open>Native widths: the memory image and a byte swap\<close>

text \<open>
  The native conversions go through memory. On the little-endian hosts the build supports,
  \<^verbatim>\<open>memcpy\<close> of an integer gives its bytes from the least significant one.
\<close>

fun le_image :: "nat \<Rightarrow> nat \<Rightarrow> bytes" where
  "le_image 0 v = []"
| "le_image (Suc k) v = word_of_nat (v mod 256) # le_image k (v div 256)"

fun le_load :: "bytes \<Rightarrow> nat" where
  "le_load [] = 0"
| "le_load (b # bs) = unat b + 256 * le_load bs"

text \<open>\<^verbatim>\<open>__builtin_bswapN\<close>.\<close>

definition bswap :: "nat \<Rightarrow> nat \<Rightarrow> nat" where
  "bswap k v = le_load (rev (le_image k v))"

definition uint64ToBytes :: "nat \<Rightarrow> bytes" where
  "uint64ToBytes i = rev (le_image 8 i)"

definition bytesToUint64 :: "bytes \<Rightarrow> nat res" where
  "bytesToUint64 b = (if length b \<noteq> 8 then Inl invalid_size else Inr (bswap 8 (le_load b)))"

definition uint32ToBytes :: "nat \<Rightarrow> bytes" where
  "uint32ToBytes i = rev (le_image 4 i)"

definition bytesToUint32 :: "bytes \<Rightarrow> nat res" where
  "bytesToUint32 b = (if length b \<noteq> 4 then Inl invalid_size else Inr (bswap 4 (le_load b)))"

definition uint16ToBytes :: "nat \<Rightarrow> bytes" where
  "uint16ToBytes i = rev (le_image 2 i)"

definition bytesToUint16 :: "bytes \<Rightarrow> nat res" where
  "bytesToUint16 b = (if length b \<noteq> 2 then Inl invalid_size else Inr (bswap 2 (le_load b)))"

definition uint8ToBytes :: "nat \<Rightarrow> bytes" where
  "uint8ToBytes i = le_image 1 i"

definition bytesToUint8 :: "bytes \<Rightarrow> nat res" where
  "bytesToUint8 b = (if length b \<noteq> 1 then Inl invalid_size else Inr (unat (b ! 0)))"

section \<open>Signed 256-bit integers\<close>

text \<open>
  \<^verbatim>\<open>Utils::int256ToBytes\<close>. For a negative value: the complement of the exported magnitude,
  padded with 0xFF, then a loop that adds one from the last byte. For a value that is not
  negative the exported bytes are copied over the tail of an array that is not filled.
\<close>

definition complement_fill :: "bytes \<Rightarrow> bytes" where
  "complement_fill tmp =
     map (\<lambda>p. let j = 31 - p in
       if j < length tmp then NOT (tmp ! (length tmp - j - 1)) else 255) [0..<32]"

fun add_one_loop :: "nat \<Rightarrow> bytes \<Rightarrow> bytes" where
  "add_one_loop j ret =
     (if ret ! j \<noteq> 255 then ret[j := ret ! j + 1]
      else if j = 0 then ret[j := 0]
      else add_one_loop (j - 1) (ret[j := 0]))"

declare add_one_loop.simps [simp del]

definition int256ToBytes :: "(nat \<Rightarrow> bytes) \<Rightarrow> bytes \<Rightarrow> int \<Rightarrow> bytes" where
  "int256ToBytes ex junk i =
     (if i < 0 then add_one_loop 31 (complement_fill (ex (nat (- i))))
      else wideToBytes ex 32 junk (nat i))"

text \<open>
  \<^verbatim>\<open>Utils::bytesToInt256\<close>. When the top bit is set, a loop from the last byte subtracts
  \<open>256 ^ (31 - i)\<close> and goes on while the byte it looked at is zero, then the complement
  is negated. The subtractions are those of \<^verbatim>\<open>uint256_t\<close>, so they could throw.
\<close>

fun borrow_loop :: "bytes \<Rightarrow> nat \<Rightarrow> nat \<Rightarrow> nat res" where
  "borrow_loop b i acc =
     bind_r (u_sub acc (256 ^ (31 - i))) (\<lambda>acc'.
       if b ! i = 0 \<and> i \<noteq> 0 then borrow_loop b (i - 1) acc' else Inr acc')"

declare borrow_loop.simps [simp del]

definition bytesToInt256 :: "(bytes \<Rightarrow> nat) \<Rightarrow> bytes \<Rightarrow> int res" where
  "bytesToInt256 im b =
     (if length b \<noteq> 32 then Inl invalid_size
      else if b ! 0 AND 128 \<noteq> 0
      then bind_r (borrow_loop b 31 (im b)) (\<lambda>r. Inr (- int (2 ^ 256 - 1 - r)))
      else Inr (int (im b)))"

section \<open>Padding and views\<close>

definition padLeftBytes :: "bytes \<Rightarrow> nat \<Rightarrow> byte \<Rightarrow> bytes" where
  "padLeftBytes bs charAmount sign =
     (let padding = (if charAmount > length bs then charAmount - length bs else 0)
      in replicate padding sign @ bs)"

definition padRightBytes :: "bytes \<Rightarrow> nat \<Rightarrow> byte \<Rightarrow> bytes" where
  "padRightBytes bs charAmount sign =
     (let padding = (if charAmount > length bs then charAmount - length bs else 0)
      in bs @ replicate padding sign)"

text \<open>The string overloads keep a \<^verbatim>\<open>0x\<close> prefix in front and count only what follows it.\<close>

definition has_0x :: "string \<Rightarrow> bool" where
  "has_0x s \<longleftrightarrow> take 2 s = ''0x'' \<or> take 2 s = ''0X''"

definition padLeft :: "string \<Rightarrow> nat \<Rightarrow> char \<Rightarrow> string" where
  "padLeft s charAmount sign =
     (let hasPrefix = has_0x s;
          s' = (if hasPrefix then drop 2 s else s);
          padding = (if charAmount > length s' then charAmount - length s' else 0)
      in (if hasPrefix then ''0x'' else '''') @ replicate padding sign @ s')"

definition padRight :: "string \<Rightarrow> nat \<Rightarrow> char \<Rightarrow> string" where
  "padRight s charAmount sign =
     (let hasPrefix = has_0x s;
          s' = (if hasPrefix then drop 2 s else s);
          padding = (if charAmount > length s' then charAmount - length s' else 0)
      in (if hasPrefix then ''0x'' else '''') @ s' @ replicate padding sign)"

text \<open>
  The checked sub-view \<^verbatim>\<open>create_view_span(vec, start, size)\<close>; the sum is of the 64-bit
  \<^verbatim>\<open>size_t\<close>, and a view that leaves the vector because the sum wrapped is undefined.
\<close>

definition create_view_span :: "bytes \<Rightarrow> nat \<Rightarrow> nat \<Rightarrow> bytes res" where
  "create_view_span vec start sz =
     (if (start + sz) mod 2 ^ 64 > length vec then Inl (DynamicException ''Invalid range for span'')
      else if start + sz > length vec then Inl UndefinedBehaviour
      else Inr (take sz (drop start vec)))"

text \<open>\<^verbatim>\<open>std::span::subspan(off, cnt)\<close> has no check: leaving the view is undefined.\<close>

definition subspan :: "bytes \<Rightarrow> nat \<Rightarrow> nat \<Rightarrow> bytes res" where
  "subspan bs off cnt =
     (if off + cnt \<le> length bs then Inr (take cnt (drop off bs)) else Inl UndefinedBehaviour)"

definition byte_at :: "bytes \<Rightarrow> nat \<Rightarrow> byte res" where
  "byte_at bs i = (if i < length bs then Inr (bs ! i) else Inl UndefinedBehaviour)"

text \<open>\<^verbatim>\<open>Hash(bytes)\<close>, which throws for another size.\<close>

definition Hash_of :: "bytes \<Rightarrow> bytes res" where
  "Hash_of bs = (if length bs \<noteq> 32 then Inl InvalidArgument else Inr bs)"

text \<open>\<^verbatim>\<open>Utils::stringToBytes\<close> and \<^verbatim>\<open>Utils::bytesToString\<close>.\<close>

definition stringToBytes :: "string \<Rightarrow> bytes" where
  "stringToBytes s = map (\<lambda>c. word_of_nat (of_char c)) s"

definition bytesToString :: "bytes \<Rightarrow> string" where
  "bytesToString b = map (\<lambda>x. char_of (unat x)) b"

section \<open>Lemmas: views and strings\<close>

lemma subspan_mid: "length pre = i \<Longrightarrow> length x = n \<Longrightarrow> subspan (pre @ x @ post) i n = Inr x"
  by (simp add: subspan_def)

lemma bytesToString_inverse: "bytesToString (stringToBytes s) = s"
proof -
  have "of_char c < (256 :: nat)" for c by (metis char_of_char of_char_of mod_less_divisor zero_less_numeral)
  then have "unat (word_of_nat (of_char c) :: byte) = of_char c" for c by (simp add: unat_of_nat)
  then show ?thesis by (auto simp: bytesToString_def stringToBytes_def intro: map_idI)
qed

section \<open>Lemmas: native loops\<close>

lemma bytesRequired_0 [simp]: "bytesRequired 0 = 0"
  by (simp add: bytesRequired.simps)

lemma bytesRequired_step: "i \<noteq> 0 \<Longrightarrow> bytesRequired i = Suc (bytesRequired (i div 256))"
  by (subst bytesRequired.simps) simp

lemma bytesRequired_eq_0 [simp]: "bytesRequired i = 0 \<longleftrightarrow> i = 0"
  using bytesRequired_step[of i] by (cases "i = 0") simp_all

lemma bytesRequired_bound: "i < 256 ^ bytesRequired i"
proof (induction i rule: bytesRequired.induct)
  case (1 i)
  show ?case
  proof (cases "i = 0")
    case False
    then have "i div 256 < 256 ^ bytesRequired (i div 256)" by (rule 1)
    then show ?thesis using False by (simp add: bytesRequired_step div_less_iff_less_mult mult.commute)
  qed simp
qed

lemma bytesRequired_le: "i < 256 ^ n \<Longrightarrow> bytesRequired i \<le> n"
proof (induction n arbitrary: i)
  case 0
  then show ?case by simp
next
  case (Suc n)
  show ?case
  proof (cases "i = 0")
    case False
    have "i div 256 < 256 ^ n"
      using Suc.prems by (simp add: div_less_iff_less_mult mult.commute)
    then show ?thesis using Suc.IH False by (simp add: bytesRequired_step)
  qed simp
qed

lemma uintToBytes_loop_eq:
  "b = bytesRequired i \<Longrightarrow> b \<le> length ret \<Longrightarrow>
   \<exists>out. uintToBytes_loop i b ret = out @ drop b ret \<and> length out = b \<and> be_val out = i
     \<and> (i \<noteq> 0 \<longrightarrow> out ! 0 \<noteq> 0)"
proof (induction i b ret rule: uintToBytes_loop.induct)
  case (1 i b ret)
  show ?case
  proof (cases "i = 0")
    case True
    then show ?thesis using "1.prems" by (simp add: uintToBytes_loop.simps)
  next
    case False
    let ?c = "word_of_nat (i mod 256) :: byte"
    from False "1.prems" have b: "b = Suc (bytesRequired (i div 256))"
      by (simp add: bytesRequired_step)
    then obtain out where out:
      "uintToBytes_loop (i div 256) (b - 1) (ret[b - 1 := ?c]) = out @ drop (b - 1) (ret[b - 1 := ?c])"
      "length out = b - 1" "be_val out = i div 256" "i div 256 \<noteq> 0 \<longrightarrow> out ! 0 \<noteq> 0"
      using "1.IH" False "1.prems" by fastforce
    have d: "drop (b - 1) (ret[b - 1 := ?c]) = ?c # drop b ret"
      using b "1.prems"(2) by (simp add: drop_update_swap flip: Cons_nth_drop_Suc)
    have v: "be_val (out @ [?c]) = i" by (simp add: be_val_append out(3))
    have c0: "?c \<noteq> 0" if "i div 256 = 0"
      using that False byte_of_nat_mod[of i] by (metis div_mult_mod_eq mult_zero_left add_0 unat_0)
    have "(out @ [?c]) ! 0 \<noteq> 0"
      using out(2,4) b c0 by (cases "i div 256 = 0") (auto simp: nth_append)
    then show ?thesis
      using False b out(1,2) d v
      by (intro exI[of _ "out @ [?c]"]) (subst uintToBytes_loop.simps, simp)
  qed
qed

lemma uintToBytes_facts:
  "be_val (uintToBytes i) = i" "length (uintToBytes i) = bytesRequired i"
  "i \<noteq> 0 \<Longrightarrow> uintToBytes i ! 0 \<noteq> 0"
  using uintToBytes_loop_eq[of "bytesRequired i" i "replicate (bytesRequired i) 0"]
  by (auto simp: uintToBytes_def)

lemmas be_val_uintToBytes [simp] = uintToBytes_facts(1)
lemmas length_uintToBytes [simp] = uintToBytes_facts(2)

lemma uintToBytes_0 [simp]: "uintToBytes 0 = []"
  by (simp flip: length_0_conv)

lemma fromBigEndian_loop_mod:
  "acc < 2 ^ w \<Longrightarrow>
   fromBigEndian_loop w acc bs = (acc * 256 ^ length bs + be_val bs) mod 2 ^ w"
proof (induction bs arbitrary: acc)
  case Nil
  then show ?case by simp
next
  case (Cons b bs)
  let ?a = "(acc * 256 + unat b) mod 2 ^ w"
  have "?a < 2 ^ w" by simp
  then have "fromBigEndian_loop w acc (b # bs) = (?a * 256 ^ length bs + be_val bs) mod 2 ^ w"
    using Cons.IH by simp
  also have "\<dots> = ((acc * 256 + unat b) * 256 ^ length bs + be_val bs) mod 2 ^ w"
    by (metis mod_add_left_eq mod_mult_left_eq)
  finally show ?case by (simp add: be_val_Cons algebra_simps)
qed

lemma fromBigEndian_native_mod: "fromBigEndian_native w bs = be_val bs mod 2 ^ w"
  by (simp add: fromBigEndian_native_def fromBigEndian_loop_mod)

lemma fromBigEndian_ck_loop_small:
  "acc * 256 ^ length bs + be_val bs < 2 ^ w \<Longrightarrow>
   fromBigEndian_ck_loop w acc bs = Inr (acc * 256 ^ length bs + be_val bs)"
proof (induction bs arbitrary: acc)
  case Nil
  then show ?case by simp
next
  case (Cons b bs)
  have sum: "(acc * 256 + unat b) * 256 ^ length bs + be_val bs =
    acc * 256 ^ length (b # bs) + be_val (b # bs)"
    by (simp add: be_val_Cons algebra_simps)
  have "acc * 256 \<le> (acc * 256 + unat b) * 256 ^ length bs + be_val bs"
  proof -
    have "(acc * 256) * 1 \<le> (acc * 256 + unat b) * 256 ^ length bs"
      by (intro mult_le_mono) simp_all
    then show ?thesis by simp
  qed
  then have "acc * 256 < 2 ^ w" using sum Cons.prems by linarith
  then show ?case using Cons.IH[of "acc * 256 + unat b"] Cons.prems sum by simp
qed

lemma fromBigEndian_ck_small:
  "be_val bs < 2 ^ w \<Longrightarrow> fromBigEndian_ck w bs = Inr (be_val bs)"
  using fromBigEndian_ck_loop_small[of 0 bs w] by (simp add: fromBigEndian_ck_def)

section \<open>Lemmas: wide integers\<close>

lemma copy_tail_eq:
  assumes "n \<le> length ret" "length tmp \<le> n" "ii \<le> length tmp"
  shows "copy_tail n ii tmp ret =
    take (n - length tmp) ret @ take (length tmp - ii) tmp @ drop (n - ii) ret"
  using assms
proof (induction n ii tmp ret rule: copy_tail.induct)
  case (1 n ii tmp ret)
  show ?case
  proof (cases "ii < length tmp")
    case False
    with "1.prems" have "ii = length tmp" by simp
    with "1.prems" show ?thesis by (simp add: copy_tail.simps)
  next
    case True
    let ?r = "ret[n - 1 - ii := tmp ! (length tmp - ii - 1)]"
    have "copy_tail n (Suc ii) tmp ?r =
      take (n - length tmp) ?r @ take (length tmp - Suc ii) tmp @ drop (n - Suc ii) ?r"
      using "1.IH" True "1.prems" by simp
    moreover have "take (n - length tmp) ?r = take (n - length tmp) ret"
      using True "1.prems" by simp
    moreover have "drop (n - Suc ii) ?r = tmp ! (length tmp - ii - 1) # drop (n - ii) ret"
      using True "1.prems" by (simp add: Suc_diff_Suc flip: Cons_nth_drop_Suc)
    moreover have "take (length tmp - ii) tmp = take (length tmp - Suc ii) tmp @ [tmp ! (length tmp - ii - 1)]"
      using True take_Suc_conv_app_nth[of "length tmp - Suc ii" tmp]
      by (simp add: Suc_diff_Suc)
    ultimately show ?thesis using True by (simp add: copy_tail.simps[of n ii])
  qed
qed

lemma wideToBytes_eq:
  "length junk = n \<Longrightarrow> length (ex i) \<le> n \<Longrightarrow>
   wideToBytes ex n junk i = take (n - length (ex i)) junk @ ex i"
  by (simp add: wideToBytes_def copy_tail_eq)

lemma be_val_eq_0_iff: "be_val bs = 0 \<longleftrightarrow> bs = replicate (length bs) 0"
proof
  assume "be_val bs = 0"
  then show "bs = replicate (length bs) 0" by (intro be_val_inj) simp_all
next
  assume "bs = replicate (length bs) 0"
  then show "be_val bs = 0" by (metis be_val_replicate_0)
qed

text \<open>What the documentation of \<^verbatim>\<open>export_bits\<close> and \<^verbatim>\<open>import_bits\<close> promises for 8-bit chunks.\<close>

locale boost_bits =
  fixes ex :: "nat \<Rightarrow> bytes" and im :: "bytes \<Rightarrow> nat"
  assumes export_val [simp]: "be_val (ex v) = v"
    and export_minimal: "v \<noteq> 0 \<Longrightarrow> ex v \<noteq> [] \<and> hd (ex v) \<noteq> 0"
    and export_zero: "ex 0 = [0]"
    and import_val: "im bs = be_val bs"
begin

lemma export_length:
  assumes "v < 256 ^ n" "0 < n"
  shows "length (ex v) \<le> n"
proof (cases "v = 0")
  case True
  with assms show ?thesis by (simp add: export_zero)
next
  case False
  then obtain b bs where ex: "ex v = b # bs" and b: "b \<noteq> 0"
    using export_minimal[OF False] by (cases "ex v") simp_all
  have "1 \<le> unat b" using b by (metis One_nat_def Suc_leI unat_eq_zero neq0_conv)
  then have "256 ^ length bs \<le> unat b * 256 ^ length bs" by simp
  also have "\<dots> \<le> v" using export_val[of v] by (simp add: ex be_val_Cons)
  also have "\<dots> < 256 ^ n" by (rule assms)
  finally have "length bs < n" by simp
  then show ?thesis by (simp add: ex)
qed

lemma wide_layout:
  assumes "length junk = n" "i < 256 ^ n" "0 < n"
  shows "wideToBytes ex n junk i = take (n - length (ex i)) junk @ ex i"
  using assms export_length by (simp add: wideToBytes_eq)

lemma wide_length:
  assumes "length junk = n" "i < 256 ^ n" "0 < n"
  shows "length (wideToBytes ex n junk i) = n"
  using assms export_length[of i n] by (simp add: wide_layout)

lemma wide_roundtrip_iff:
  assumes "length junk = n" "i < 256 ^ n" "0 < n"
  shows "bytesToWide im n (wideToBytes ex n junk i) = Inr i \<longleftrightarrow>
    (\<forall>p < n - length (ex i). junk ! p = 0)"
proof -
  let ?t = "take (n - length (ex i)) junk"
  have "bytesToWide im n (wideToBytes ex n junk i) = Inr (be_val ?t * 256 ^ length (ex i) + i)"
    using assms wide_length[of junk n i] by (simp add: bytesToWide_def wide_layout be_val_append import_val)
  then have "bytesToWide im n (wideToBytes ex n junk i) = Inr i \<longleftrightarrow> be_val ?t = 0" by simp
  also have "\<dots> \<longleftrightarrow> (\<forall>p < n - length (ex i). junk ! p = 0)"
    using assms(1) by (auto simp: be_val_eq_0_iff list_eq_iff_nth_eq)
  finally show ?thesis .
qed

lemma uint256_roundtrip: "i < 2 ^ 256 \<Longrightarrow> bytesToUint256 im (uint256ToBytes ex i) = Inr i"
  using wide_roundtrip_iff[of "replicate 32 0" 32 i]
  by (simp add: bytesToUint256_def uint256ToBytes_def)

lemma uint256_length: "i < 2 ^ 256 \<Longrightarrow> length (uint256ToBytes ex i) = 32"
  using wide_length[of "replicate 32 0" 32 i] by (simp add: uint256ToBytes_def)

lemma be_val_uint256: "i < 2 ^ 256 \<Longrightarrow> be_val (uint256ToBytes ex i) = i"
  using uint256_roundtrip[of i] uint256_length[of i]
  by (simp add: bytesToUint256_def bytesToWide_def import_val)

lemma uint256_roundtrip':
  assumes "length b = 32"
  shows "uint256ToBytes ex (be_val b) = b"
proof -
  have lt: "be_val b < 2 ^ 256" using be_val_less[of b] assms by simp
  show ?thesis
    using assms lt by (intro be_val_inj) (simp_all add: uint256_length be_val_uint256)
qed

end

text \<open>The interface holds for the program's own minimal encoder and the big-endian reading.\<close>

definition export_ref :: "nat \<Rightarrow> bytes" where
  "export_ref v = (if v = 0 then [0] else uintToBytes v)"

interpretation ref_bits: boost_bits export_ref be_val
proof unfold_locales
  fix v :: nat
  show "be_val (export_ref v) = v" by (simp add: export_ref_def)
  show "export_ref v \<noteq> [] \<and> hd (export_ref v) \<noteq> 0" if "v \<noteq> 0"
  proof -
    have "uintToBytes v \<noteq> []" using that by (simp flip: length_0_conv)
    then show ?thesis using that uintToBytes_facts(3)[of v] by (simp add: export_ref_def hd_conv_nth)
  qed
qed (simp_all add: export_ref_def)


section \<open>Lemmas: native widths\<close>

lemma length_le_image [simp]: "length (le_image k v) = k"
  by (induction k arbitrary: v) simp_all

lemma le_load_rev: "le_load bs = be_val (rev bs)"
  by (induction bs) (simp_all add: be_val_append)

lemma be_val_rev_le_image: "be_val (rev (le_image k v)) = v mod 256 ^ k"
proof (induction k arbitrary: v)
  case (Suc k)
  have "be_val (rev (le_image (Suc k) v)) =
      be_val (rev (le_image k (v div 256))) * 256 + v mod 256"
    by (simp only: le_image.simps rev.simps be_val_append be_val_singleton byte_of_nat_mod
        list.size One_nat_def add_0 add_Suc power_Suc power_0 mult_1_right)
  also have "\<dots> = v mod 256 ^ Suc k"
    unfolding Suc.IH power_Suc mod_mult2_eq
    by (rule arg_cong2[where f="(+)"]) (rule mult.commute, rule refl)
  finally show ?case .
qed simp

lemma rev_le_image_be_val: "length bs = k \<Longrightarrow> rev (le_image k (be_val bs)) = bs"
  using be_val_less[of bs]
  by (intro be_val_inj) (simp_all only: length_rev length_le_image be_val_rev_le_image mod_less)

lemma bswap_le_load: "length bs = k \<Longrightarrow> bswap k (le_load bs) = be_val bs"
  using rev_le_image_be_val[of "rev bs" k]
  by (simp only: bswap_def le_load_rev length_rev rev_rev_ident)

text \<open>The three swapped widths and the single byte are one codec at \<open>k\<close> bytes.\<close>

lemma native_roundtrip:
  "i < 256 ^ k \<Longrightarrow> bswap k (le_load (rev (le_image k i))) = i"
  by (simp only: bswap_le_load length_rev length_le_image be_val_rev_le_image mod_less)

lemma length_uint64ToBytes [simp]: "length (uint64ToBytes i) = 8"
  by (simp only: uint64ToBytes_def length_rev length_le_image)

lemma be_val_uint64ToBytes: "be_val (uint64ToBytes i) = i mod 256 ^ 8"
  by (simp only: uint64ToBytes_def be_val_rev_le_image)

lemma bytesToUint64_eq:
  "bytesToUint64 b = (if length b = 8 then Inr (be_val b) else Inl invalid_size)"
  by (simp add: bytesToUint64_def bswap_le_load)

lemma uint64_roundtrip: "i < 256 ^ 8 \<Longrightarrow> bytesToUint64 (uint64ToBytes i) = Inr i"
  by (simp add: bytesToUint64_eq be_val_uint64ToBytes)

lemma uint64ToBytes_inj: "n < 2 ^ 64 \<Longrightarrow> m < 2 ^ 64 \<Longrightarrow> uint64ToBytes n = uint64ToBytes m \<longleftrightarrow> n = m"
proof -
  have "(2 :: nat) ^ 64 = 256 ^ 8" by simp
  then show "n < 2 ^ 64 \<Longrightarrow> m < 2 ^ 64 \<Longrightarrow> ?thesis" by (metis uint64_roundtrip sum.inject(2))
qed

section \<open>Lemmas: signed integers\<close>

lemma unat_byte_not: "unat (NOT (b :: byte)) = 255 - unat b"
proof -
  have "NOT b = 255 - b" by (simp add: not_eq_complement)
  moreover have "b \<le> 255" by (simp add: word_le_nat_alt)
  ultimately show ?thesis by (simp add: unat_sub)
qed

lemma unat_byte_inc: "x \<noteq> (255 :: byte) \<Longrightarrow> unat (x + 1) = unat x + 1"
proof -
  assume "x \<noteq> 255"
  then have "unat x \<noteq> 255" by (simp add: word_unat_eq_iff)
  then have "unat x < 255" using unat_byte_le[of x] by linarith
  then show ?thesis by (simp add: unat_word_ariths)
qed

lemma be_val_map_not: "be_val (map NOT bs) + be_val bs + 1 = 256 ^ length bs"
proof (induction bs)
  case (Cons b bs)
  let ?p = "256 ^ length bs :: nat"
  have "unat (NOT b) + unat b = 255" by (simp add: unat_byte_not)
  then have "unat (NOT b) * ?p + unat b * ?p = 255 * ?p" by (simp flip: distrib_right)
  with Cons show ?case by (simp add: be_val_Cons)
qed simp

lemma be_val_replicate_255: "be_val (replicate k 255) + 1 = 256 ^ k"
  by (induction k) (simp_all add: be_val_Cons)

lemma complement_fill_eq:
  "length tmp \<le> 32 \<Longrightarrow> complement_fill tmp = replicate (32 - length tmp) 255 @ map NOT tmp"
  by (auto simp: complement_fill_def Let_def list_eq_iff_nth_eq nth_append add.commute)

lemma be_val_complement_fill:
  assumes "length tmp \<le> 32"
  shows "be_val (complement_fill tmp) + be_val tmp + 1 = 2 ^ 256"
proof -
  let ?L = "length tmp" and ?r = "be_val (replicate (32 - length tmp) 255)"
  have "be_val (complement_fill tmp) + be_val tmp + 1 = ?r * 256 ^ ?L + 256 ^ ?L"
    using be_val_map_not[of tmp] by (simp add: complement_fill_eq[OF assms] be_val_append)
  also have "\<dots> = (?r + 1) * 256 ^ ?L" by simp
  also have "\<dots> = 256 ^ (32 - ?L + ?L)" by (simp only: be_val_replicate_255 power_add)
  also have "\<dots> = 2 ^ 256" using assms by simp
  finally show ?thesis .
qed

lemma length_complement_fill [simp]: "length (complement_fill tmp) = 32"
  by (simp add: complement_fill_def)

lemma add_one_last:
  assumes "length us = j"
  shows "add_one_loop j (us @ x # ys) =
    (if x \<noteq> 255 then us @ (x + 1) # ys else if j = 0 then us @ 0 # ys
     else add_one_loop (j - 1) (us @ 0 # ys))"
  using assms by (subst add_one_loop.simps) (simp add: nth_append list_update_append)

lemma add_one_loop_eq:
  "length xs = Suc j \<Longrightarrow> be_val xs + 1 < 256 ^ Suc j \<Longrightarrow>
   \<exists>zs. add_one_loop j (xs @ ys) = zs @ ys \<and> length zs = Suc j \<and> be_val zs = be_val xs + 1"
proof (induction j arbitrary: xs ys)
  case 0
  then obtain x where x: "xs = [x]" by (auto simp: length_Suc_conv)
  with 0 have "x \<noteq> 255" by auto
  then show ?case
    using x add_one_last[of "[]" 0 x ys] by (intro exI[of _ "[x + 1]"]) (simp add: unat_byte_inc)
next
  case (Suc j)
  from Suc.prems obtain us x where xs: "xs = us @ [x]" and us: "length us = Suc j"
    by (cases xs rule: rev_cases) auto
  show ?case
  proof (cases "x = 255")
    case True
    have "be_val us + 1 < 256 ^ Suc j"
      using Suc.prems(2) True by (simp add: xs be_val_append)
    from Suc.IH[OF us this, of "0 # ys"] obtain zs where zs:
      "add_one_loop j (us @ 0 # ys) = zs @ 0 # ys" "length zs = Suc j" "be_val zs = be_val us + 1"
      by blast
    then show ?thesis
      using True by (intro exI[of _ "zs @ [0]"]) (simp add: xs add_one_last[OF us] be_val_append)
  next
    case False
    then show ?thesis
      by (intro exI[of _ "us @ [x + 1]"])
        (simp add: xs us add_one_last[OF us] be_val_append unat_byte_inc)
  qed
qed

lemma byte_top_bit: "b AND 128 \<noteq> 0 \<longleftrightarrow> 128 \<le> unat (b :: byte)"
proof -
  have "b AND 128 \<noteq> 0 \<longleftrightarrow> bit b 7"
    using and_exp_eq_0_iff_not_bit[of b 7] by simp
  also have "\<dots> \<longleftrightarrow> odd (unat b div 2 ^ 7)"
    using bit_unsigned_iff[of b 7, where ?'a = nat] by (simp add: bit_iff_odd)
  also have "\<dots> \<longleftrightarrow> 128 \<le> unat b"
  proof -
    have "unat b div 128 < 2" using unat_byte_less[of b] by (simp add: div_less_iff_less_mult)
    then have "unat b div 128 = 0 \<or> unat b div 128 = 1" by linarith
    then show ?thesis by auto
  qed
  finally show ?thesis .
qed

lemma be_val_top_bit:
  assumes "length b = 32" "2 ^ 255 \<le> be_val b"
  shows "b ! 0 AND 128 \<noteq> 0"
proof -
  from assms(1) obtain x xs where b: "b = x # xs" and xs: "length xs = 31"
    by (cases b) auto
  have "be_val xs < 256 ^ 31" using be_val_less[of xs] xs by simp
  moreover have "128 * 256 ^ 31 \<le> unat x * 256 ^ 31 + be_val xs"
    using assms(2) xs by (simp add: b be_val_Cons)
  ultimately have "128 * 256 ^ 31 < (unat x + 1) * 256 ^ 31" by simp
  then have "128 \<le> unat x" by simp
  then show ?thesis by (simp add: b byte_top_bit)
qed

lemma borrow_loop_le: "borrow_loop b i acc = Inr r \<Longrightarrow> r + 256 ^ (31 - i) \<le> acc"
proof (induction b i acc rule: borrow_loop.induct)
  case (1 b i acc)
  let ?p = "256 ^ (31 - i) :: nat"
  from "1.prems" have le: "?p \<le> acc"
    and rest: "(if b ! i = 0 \<and> i \<noteq> 0 then borrow_loop b (i - 1) (acc - ?p) else Inr (acc - ?p)) = Inr r"
    by (subst (asm) borrow_loop.simps, simp add: bind_r_eq_Inr)+
  show ?case
  proof (cases "b ! i = 0 \<and> i \<noteq> 0")
    case True
    then have "r + 256 ^ (31 - (i - 1)) \<le> acc - ?p" using 1 le rest by simp
    then show ?thesis using le by linarith
  qed (use rest le in auto)
qed

lemma borrow_loop_last_zero:
  assumes "b ! 31 = 0" "borrow_loop b 31 acc = Inr r"
  shows "r + 257 \<le> acc"
proof -
  from assms have "1 \<le> acc" "borrow_loop b 30 (acc - 1) = Inr r"
    by (subst (asm) borrow_loop.simps, simp add: bind_r_eq_Inr)+
  then show ?thesis using borrow_loop_le[of b 30 "acc - 1" r] by simp
qed

lemma be_val_mod_256:
  assumes "bs \<noteq> []"
  shows "be_val bs mod 256 = unat (last bs)"
proof -
  have "be_val bs = be_val (butlast bs @ [last bs])" using assms by simp
  also have "\<dots> = be_val (butlast bs) * 256 + unat (last bs)" by (simp only: be_val_append be_val_singleton) simp
  finally show ?thesis by simp
qed

context boost_bits
begin

lemma int256_neg_image:
  assumes "i < 0" "- (2 ^ 255) \<le> i"
  shows "length (int256ToBytes ex junk i) = 32"
    and "be_val (int256ToBytes ex junk i) + nat (- i) = 2 ^ 256"
proof -
  let ?m = "nat (- i)"
  have m: "0 < ?m" "?m < 256 ^ 32" using assms by simp_all
  have len: "length (ex ?m) \<le> 32" using export_length[OF m(2)] by simp
  have c: "be_val (complement_fill (ex ?m)) + ?m + 1 = 2 ^ 256"
    using be_val_complement_fill[OF len] by simp
  have "be_val (complement_fill (ex ?m)) + 1 < 256 ^ Suc 31" using c m(1) by simp
  from add_one_loop_eq[OF _ this, of "[]"] obtain zs where zs:
    "add_one_loop 31 (complement_fill (ex ?m)) = zs" "length zs = 32"
    "be_val zs = be_val (complement_fill (ex ?m)) + 1" by auto
  then show "length (int256ToBytes ex junk i) = 32"
    and "be_val (int256ToBytes ex junk i) + ?m = 2 ^ 256"
    using assms(1) c by (simp_all add: int256ToBytes_def)
qed

lemma bytesToInt256_neg_iff:
  assumes "length b = 32" "2 ^ 255 \<le> be_val b"
  shows "bytesToInt256 im b = Inr (int (be_val b) - 2 ^ 256) \<longleftrightarrow> b ! 31 \<noteq> 0"
proof (cases "borrow_loop b 31 (be_val b)")
  case (Inl e)
  have "0 < be_val b" using assms(2) by (cases "be_val b") simp_all
  then have "b ! 31 = 0" using Inl by (subst (asm) borrow_loop.simps) (simp add: u_sub_def split: if_splits)
  then show ?thesis
    using Inl assms(1) be_val_top_bit[OF assms] by (simp add: bytesToInt256_def import_val)
next
  case (Inr r)
  have lt: "be_val b < 2 ^ 256" using be_val_less[of b] assms(1) by simp
  have r: "r + 1 \<le> be_val b" using borrow_loop_le[OF Inr] by simp
  have "bytesToInt256 im b = Inr (int r + 1 - 2 ^ 256)"
    using Inr assms(1) be_val_top_bit[OF assms] r lt
    by (simp add: bytesToInt256_def import_val of_nat_diff)
  moreover have "int r + 1 - 2 ^ 256 = int (be_val b) - 2 ^ 256 \<longleftrightarrow> r + 1 = be_val b" by auto
  ultimately have "bytesToInt256 im b = Inr (int (be_val b) - 2 ^ 256) \<longleftrightarrow> r + 1 = be_val b" by simp
  also have "\<dots> \<longleftrightarrow> b ! 31 \<noteq> 0"
  proof
    assume "b ! 31 \<noteq> 0"
    then show "r + 1 = be_val b"
      using Inr by (subst (asm) borrow_loop.simps) (auto simp: bind_r_eq_Inr)
  next
    assume "r + 1 = be_val b"
    then show "b ! 31 \<noteq> 0" using borrow_loop_last_zero[OF _ Inr] by linarith
  qed
  finally show ?thesis .
qed

lemma int256_neg_roundtrip_iff:
  assumes "i < 0" "- (2 ^ 255) \<le> i"
  shows "bytesToInt256 im (int256ToBytes ex junk i) = Inr i \<longleftrightarrow> i mod 256 \<noteq> 0"
proof -
  let ?b = "int256ToBytes ex junk i"
  note img = int256_neg_image[OF assms, of junk]
  have "int (be_val ?b + nat (- i)) = 2 ^ 256" unfolding img(2) by simp
  then have v: "int (be_val ?b) = i + 2 ^ 256" using assms(1) by simp
  have "2 ^ 255 \<le> int (be_val ?b)" using v assms(2) by simp
  then have "int (2 ^ 255) \<le> int (be_val ?b)" by simp
  then have ge: "2 ^ 255 \<le> be_val ?b" by (simp only: of_nat_le_iff)
  have ne: "?b \<noteq> []" using img(1) by auto
  have "int (be_val ?b mod 256) = (i + 2 ^ 256) mod 256" using v by (simp add: zmod_int)
  also have "(2 :: int) ^ 256 = 256 * 2 ^ 248" by simp
  also have "(i + 256 * 2 ^ 248) mod 256 = i mod 256" by (rule mod_mult_self2)
  finally have "i mod 256 = int (unat (?b ! 31))"
    using be_val_mod_256[OF ne] last_conv_nth[OF ne] img(1) by simp
  then have "i mod 256 \<noteq> 0 \<longleftrightarrow> ?b ! 31 \<noteq> 0" by (simp only: of_nat_eq_0_iff unat_eq_0 simp_thms)
  then show ?thesis using bytesToInt256_neg_iff[OF img(1) ge] v by simp
qed

end

section \<open>Properties\<close>

text \<open>The codecs of the widths that do not fill their array, with the size in bytes.\<close>

definition wide_codecs ::
  "(nat \<times> ((nat \<Rightarrow> bytes) \<Rightarrow> bytes \<Rightarrow> nat \<Rightarrow> bytes) \<times> ((bytes \<Rightarrow> nat) \<Rightarrow> bytes \<Rightarrow> nat res)) list" where
  "wide_codecs = [
     (31, uint248ToBytes, bytesToUint248),
     (30, uint240ToBytes, bytesToUint240),
     (29, uint232ToBytes, bytesToUint232),
     (28, uint224ToBytes, bytesToUint224),
     (27, uint216ToBytes, bytesToUint216),
     (26, uint208ToBytes, bytesToUint208),
     (25, uint200ToBytes, bytesToUint200),
     (24, uint192ToBytes, bytesToUint192),
     (23, uint184ToBytes, bytesToUint184),
     (22, uint176ToBytes, bytesToUint176),
     (21, uint168ToBytes, bytesToUint168),
     (20, uint160ToBytes, bytesToUint160),
     (19, uint152ToBytes, bytesToUint152),
     (18, uint144ToBytes, bytesToUint144),
     (17, uint136ToBytes, bytesToUint136),
     (16, uint128ToBytes, bytesToUint128),
     (15, uint120ToBytes, bytesToUint120),
     (14, uint112ToBytes, bytesToUint112),
     (13, uint104ToBytes, bytesToUint104),
     (12, uint96ToBytes, bytesToUint96),
     (11, uint88ToBytes, bytesToUint88),
     (10, uint80ToBytes, bytesToUint80),
     (9, uint72ToBytes, bytesToUint72),
     (7, uint56ToBytes, bytesToUint56),
     (6, uint48ToBytes, bytesToUint48),
     (5, uint40ToBytes, bytesToUint40),
     (3, uint24ToBytes, bytesToUint24)
   ]"

lemmas wide_defs =
  uint248ToBytes_def bytesToUint248_def uint240ToBytes_def bytesToUint240_def
  uint232ToBytes_def bytesToUint232_def uint224ToBytes_def bytesToUint224_def
  uint216ToBytes_def bytesToUint216_def uint208ToBytes_def bytesToUint208_def
  uint200ToBytes_def bytesToUint200_def uint192ToBytes_def bytesToUint192_def
  uint184ToBytes_def bytesToUint184_def uint176ToBytes_def bytesToUint176_def
  uint168ToBytes_def bytesToUint168_def uint160ToBytes_def bytesToUint160_def
  uint152ToBytes_def bytesToUint152_def uint144ToBytes_def bytesToUint144_def
  uint136ToBytes_def bytesToUint136_def uint128ToBytes_def bytesToUint128_def
  uint120ToBytes_def bytesToUint120_def uint112ToBytes_def bytesToUint112_def
  uint104ToBytes_def bytesToUint104_def uint96ToBytes_def bytesToUint96_def
  uint88ToBytes_def bytesToUint88_def uint80ToBytes_def bytesToUint80_def
  uint72ToBytes_def bytesToUint72_def uint56ToBytes_def bytesToUint56_def
  uint48ToBytes_def bytesToUint48_def uint40ToBytes_def bytesToUint40_def
  uint24ToBytes_def bytesToUint24_def

lemma wide_codecs_shape:
  "(n, enc, dec) \<in> set wide_codecs \<Longrightarrow> 0 < n \<and> enc = (\<lambda>ex. wideToBytes ex n) \<and> dec = (\<lambda>im. bytesToWide im n)"
  by (auto simp: wide_codecs_def wide_defs fun_eq_iff)

text \<open>
  Every \<^verbatim>\<open>uintNToBytes\<close> of the 27 wide types below 256 bits gives an array of N/8
  bytes; \<^verbatim>\<open>bytesToUintN\<close> reads the number back exactly when the bytes of the uninitialised
  array that the copy leaves untouched happen to be zero, and throws on any other size.
\<close>
theorem wide_codecs_roundtrip_iff:
  assumes "boost_bits ex im" "(n, enc, dec) \<in> set wide_codecs"
    and "length junk = n" "i < 256 ^ n"
  shows "length (enc ex junk i) = n
    \<and> (dec im (enc ex junk i) = Inr i \<longleftrightarrow> (\<forall>p < n - length (ex i). junk ! p = 0))
    \<and> (length b \<noteq> n \<longrightarrow> dec im b = Inl invalid_size)"
proof -
  note shape = wide_codecs_shape[OF assms(2)]
  have n: "0 < n" using shape by blast
  show ?thesis
    using shape boost_bits.wide_length[OF assms(1,3,4) n]
      boost_bits.wide_roundtrip_iff[OF assms(1,3,4) n]
    by (simp add: bytesToWide_def)
qed

theorem wide_codecs_roundtrip_iff_witness:
  "length (uint24ToBytes export_ref [170, 0, 0] 5) = 3
   \<and> bytesToUint24 be_val (uint24ToBytes export_ref [170, 0, 0] 5) \<noteq> Inr 5
   \<and> bytesToUint24 be_val [1, 2] = Inl invalid_size"
proof -
  have mem: "(3, uint24ToBytes, bytesToUint24) \<in> set wide_codecs" by (simp add: wide_codecs_def)
  have len: "length (export_ref 5) = 1"
    by (simp add: export_ref_def bytesRequired_step)
  show ?thesis
    using wide_codecs_roundtrip_iff[OF ref_bits.boost_bits_axioms mem, of "[170, 0, 0]" 5 "[1, 2]"]
    by (auto simp: len intro!: exI[of _ 0])
qed

text \<open>
  The 256-bit codec is a bijection between \<^verbatim>\<open>uint256_t\<close> and 32-byte strings:
  both round trips hold, because this encoder fills its array first.
\<close>
theorem uint256_codec_bijection:
  assumes "boost_bits ex im"
  shows "(\<forall>i < 2 ^ 256. length (uint256ToBytes ex i) = 32 \<and> bytesToUint256 im (uint256ToBytes ex i) = Inr i)
    \<and> (\<forall>b v. bytesToUint256 im b = Inr v \<longrightarrow> v < 2 ^ 256 \<and> uint256ToBytes ex v = b)"
proof (intro conjI allI impI)
  fix i :: nat assume "i < 2 ^ 256"
  then show "length (uint256ToBytes ex i) = 32" "bytesToUint256 im (uint256ToBytes ex i) = Inr i"
    using boost_bits.uint256_length[OF assms] boost_bits.uint256_roundtrip[OF assms] by blast+
next
  fix b v assume "bytesToUint256 im b = Inr v"
  then have b: "length b = 32" "v = be_val b"
    using boost_bits.import_val[OF assms]
    by (auto simp: bytesToUint256_def bytesToWide_def split: if_splits)
  then show "v < 2 ^ 256" using be_val_less[of b] by simp
  show "uint256ToBytes ex v = b" using boost_bits.uint256_roundtrip'[OF assms b(1)] b(2) by simp
qed

theorem uint256_codec_bijection_witness:
  "bytesToUint256 be_val (uint256ToBytes export_ref 1000) = Inr 1000"
proof -
  have "(1000 :: nat) < 2 ^ 256" by simp
  then show ?thesis
    using uint256_codec_bijection[OF ref_bits.boost_bits_axioms] by blast
qed

text \<open>
  The minimal encoder \<^verbatim>\<open>uintToBytes\<close> and \<^verbatim>\<open>fromBigEndian\<close> are inverse: the string has
  the least possible length and no leading zero, reading it at a native width reduces it
  modulo the width, and reading it at a checked width that holds the number is exact.
\<close>
theorem uintToBytes_roundtrip:
  "length (uintToBytes i) = bytesRequired i
   \<and> i < 256 ^ bytesRequired i \<and> (\<forall>n. i < 256 ^ n \<longrightarrow> bytesRequired i \<le> n)
   \<and> (i \<noteq> 0 \<longrightarrow> uintToBytes i ! 0 \<noteq> 0)
   \<and> fromBigEndian_native w (uintToBytes i) = i mod 2 ^ w
   \<and> (i < 2 ^ w \<longrightarrow> fromBigEndian_ck w (uintToBytes i) = Inr i)"
  using bytesRequired_bound bytesRequired_le uintToBytes_facts(3)
  by (auto simp: fromBigEndian_native_mod fromBigEndian_ck_small)

theorem uintToBytes_roundtrip_witness:
  "fromBigEndian_native 8 (uintToBytes 258) = 2 \<and> fromBigEndian_ck 16 (uintToBytes 258) = Inr 258"
  using uintToBytes_roundtrip[of 258 8] uintToBytes_roundtrip[of 258 16] by simp

text \<open>
  A negative 256-bit integer survives \<^verbatim>\<open>int256ToBytes\<close> and \<^verbatim>\<open>bytesToInt256\<close> exactly
  when it is not a multiple of 256: the encoder is two's complement, but the decoder, when
  the last byte is zero, subtracts at several positions instead of borrowing.
\<close>
theorem int256_negative_roundtrip_iff:
  assumes "boost_bits ex im" "i < 0" "- (2 ^ 255) \<le> i"
  shows "length (int256ToBytes ex junk i) = 32
    \<and> int (be_val (int256ToBytes ex junk i)) = 2 ^ 256 + i
    \<and> (bytesToInt256 im (int256ToBytes ex junk i) = Inr i \<longleftrightarrow> i mod 256 \<noteq> 0)"
proof -
  note img = boost_bits.int256_neg_image[OF assms, of junk]
  have "int (be_val (int256ToBytes ex junk i) + nat (- i)) = 2 ^ 256" unfolding img(2) by simp
  then show ?thesis
    using img(1) assms(2) boost_bits.int256_neg_roundtrip_iff[OF assms, of junk] by simp
qed

theorem int256_negative_roundtrip_iff_witness:
  "bytesToInt256 be_val (int256ToBytes export_ref [] (- 257)) = Inr (- 257)
   \<and> bytesToInt256 be_val (int256ToBytes export_ref [] (- 256)) \<noteq> Inr (- 256)"
  using int256_negative_roundtrip_iff[OF ref_bits.boost_bits_axioms, of "- 257" "[]"]
    int256_negative_roundtrip_iff[OF ref_bits.boost_bits_axioms, of "- 256" "[]"]
  by simp

end
