(* ===== verification/Hex_Codec.thy ===== *)
theory Hex_Codec
  imports Byte_Codec
begin

text \<open>
  Hexadecimal strings: the class \<^verbatim>\<open>Hex\<close> of \<^verbatim>\<open>src/src/utils/hex.cpp\<close> and \<^verbatim>\<open>hex.h\<close>, and the
  address syntax check of \<^verbatim>\<open>src/src/utils/strings.cpp\<close>. Reading a \<^verbatim>\<open>std::string\<close> at its size
  gives NUL and beyond it is undefined; reading a \<^verbatim>\<open>std::string_view\<close> at its size is already
  undefined. The lemmas give the numeric meaning of the digits, from which the round trips
  follow.
\<close>

section \<open>Reading characters\<close>

definition str_at :: "string \<Rightarrow> nat \<Rightarrow> char res" where
  "str_at s i = (if i < length s then Inr (s ! i)
     else if i = length s then Inr (CHR 0x00) else Inl UndefinedBehaviour)"

definition view_at :: "string \<Rightarrow> nat \<Rightarrow> char res" where
  "view_at s i = (if i < length s then Inr (s ! i) else Inl UndefinedBehaviour)"

text \<open>\<^verbatim>\<open>s[0] == '0' && (s[1] == 'x' || s[1] == 'X')\<close>, with the reader given.\<close>

definition prefix_0x :: "(string \<Rightarrow> nat \<Rightarrow> char res) \<Rightarrow> string \<Rightarrow> bool res" where
  "prefix_0x at s = bind_r (at s 0) (\<lambda>c0.
     if c0 = CHR ''0'' then bind_r (at s 1) (\<lambda>c1. Inr (c1 = CHR ''x'' \<or> c1 = CHR ''X''))
     else Inr False)"

definition hex_filter :: string where
  "hex_filter = ''0123456789abcdefABCDEF''"

text \<open>\<^verbatim>\<open>find_first_not_of(filter, off) == npos\<close>.\<close>

definition only_hex_from :: "nat \<Rightarrow> string \<Rightarrow> bool" where
  "only_hex_from off s = list_all (\<lambda>c. c \<in> set hex_filter) (drop off s)"

section \<open>The class Hex\<close>

record Hex =
  hex_str :: string
  hex_strict :: bool

definition Hex_isValid :: "string \<Rightarrow> bool \<Rightarrow> bool" where
  "Hex_isValid hex strict =
     (if strict then has_0x hex \<and> only_hex_from 2 hex else only_hex_from 0 hex)"

definition invalid_hex :: cpp_error where
  "invalid_hex = DynamicException ''Invalid Hex string at constructor''"

text \<open>
  The copy constructor. The strict branch reads \<^verbatim>\<open>ret[1]\<close> whenever \<^verbatim>\<open>ret[0]\<close> is not '0', and its
  test of that character, a disjunction of two inequalities, is always true.
\<close>

definition Hex_of_view :: "string \<Rightarrow> bool \<Rightarrow> Hex res" where
  "Hex_of_view value strict =
     bind_r
       (if strict
        then bind_r (str_at value 0) (\<lambda>c0.
          if c0 \<noteq> CHR ''0''
          then bind_r (str_at value 1) (\<lambda>c1.
            Inr (if c1 \<noteq> CHR ''x'' \<or> c1 \<noteq> CHR ''X'' then ''0x'' @ value else value))
          else Inr value)
        else bind_r (prefix_0x str_at value) (\<lambda>p. Inr (if p then drop 2 value else value)))
       (\<lambda>ret. if \<not> Hex_isValid ret strict then Inl invalid_hex
              else Inr \<lparr>hex_str = ret, hex_strict = strict\<rparr>)"

text \<open>The move constructor works on the member in place, with the same tests.\<close>

definition Hex_of_string :: "string \<Rightarrow> bool \<Rightarrow> Hex res" where
  "Hex_of_string value strict =
     (let this = \<lparr>hex_str = value, hex_strict = strict\<rparr> in
      bind_r
       (if strict
        then bind_r (str_at (hex_str this) 0) (\<lambda>c0.
          if c0 \<noteq> CHR ''0''
          then bind_r (str_at (hex_str this) 1) (\<lambda>c1.
            Inr (if c1 \<noteq> CHR ''x'' \<or> c1 \<noteq> CHR ''X'' then this\<lparr>hex_str := ''0x'' @ hex_str this\<rparr> else this))
          else Inr this)
        else bind_r (prefix_0x str_at (hex_str this)) (\<lambda>p.
          Inr (if p then this\<lparr>hex_str := drop 2 (hex_str this)\<rparr> else this)))
       (\<lambda>this. if \<not> Hex_isValid (hex_str this) strict then Inl invalid_hex else Inr this))"

definition hex_digits :: string where
  "hex_digits = ''0123456789abcdef''"

definition hex_pair :: "byte \<Rightarrow> string" where
  "hex_pair b = [hex_digits ! unat (drop_bit 4 b AND 15), hex_digits ! unat (b AND 15)]"

text \<open>
  \<^verbatim>\<open>Hex::fromBytes\<close>: a string of '0's, its first two characters replaced by \<^verbatim>\<open>0x\<close> (in both
  modes), then the digits written from \<open>off\<close> on.
\<close>

fun fromBytes_loop :: "bytes \<Rightarrow> nat \<Rightarrow> string \<Rightarrow> string" where
  "fromBytes_loop [] off hex = hex"
| "fromBytes_loop (b # bs) off hex =
     fromBytes_loop bs (off + 2) (hex[off := hex_pair b ! 0, off + 1 := hex_pair b ! 1])"

definition Hex_fromBytes :: "bytes \<Rightarrow> bool \<Rightarrow> Hex res" where
  "Hex_fromBytes bs strict =
     (let off = (if strict then 2 else 0);
          hex = replicate (length bs * 2 + off) (CHR ''0'');
          hex = ''0x'' @ drop 2 hex
      in Hex_of_string (fromBytes_loop bs off hex) strict)"

text \<open>\<^verbatim>\<open>Hex::fromUTF8\<close>: each character as two padded digits through a stream.\<close>

definition Hex_fromUTF8 :: "string \<Rightarrow> bool \<Rightarrow> Hex res" where
  "Hex_fromUTF8 str strict =
     Hex_of_string ((if strict then ''0x'' else '''')
       @ concat (map (\<lambda>c. hex_pair (word_of_nat (of_char c))) str)) strict"

definition Hex_toInt :: "char \<Rightarrow> int" where
  "Hex_toInt c =
     (let n = int (of_char c) in
      if 48 \<le> n \<and> n \<le> 57 then n - 48
      else if 97 \<le> n \<and> n \<le> 102 then n - 97 + 10
      else if 65 \<le> n \<and> n \<le> 70 then n - 65 + 10
      else - 1)"

text \<open>\<^verbatim>\<open>Hex::forRPC\<close>: a prefix when the first two characters differ from \<^verbatim>\<open>0x\<close>, then drop zeroes.\<close>

fun forRPC_loop :: "string \<Rightarrow> string" where
  "forRPC_loop (a # b # c # s) = (if c = CHR ''0'' then forRPC_loop (a # b # s) else a # b # c # s)"
| "forRPC_loop s = s"

definition Hex_forRPC :: "Hex \<Rightarrow> string res" where
  "Hex_forRPC this = bind_r (str_at (hex_str this) 0) (\<lambda>c0.
     bind_r (if c0 \<noteq> CHR ''0''
             then bind_r (str_at (hex_str this) 1) (\<lambda>c1.
               Inr (if c1 \<noteq> CHR ''x'' then ''0x'' @ hex_str this else hex_str this))
             else Inr (hex_str this)) (\<lambda>retHex.
     if retHex = ''0x'' then Inr ''0x0''
     else bind_r (str_at retHex 2) (\<lambda>_. Inr (forRPC_loop retHex))))"

text \<open>The loop \<^verbatim>\<open>toBytes\<close> and \<^verbatim>\<open>bytes\<close> share, two characters at a time.\<close>

fun hex_pairs :: "string \<Rightarrow> bytes" where
  "hex_pairs (h # l # s) = word_of_int (Hex_toInt h * 16 + Hex_toInt l) # hex_pairs s"
| "hex_pairs s = []"

definition hex_body :: "string \<Rightarrow> bytes" where
  "hex_body s = (if odd (length s) then word_of_int (Hex_toInt (hd s)) # hex_pairs (tl s)
                 else hex_pairs s)"

definition Hex_toBytes :: "string \<Rightarrow> bytes res" where
  "Hex_toBytes hex = bind_r (prefix_0x view_at hex) (\<lambda>p.
     let i = (if p then 2 else 0) in
     if \<not> only_hex_from i hex then Inl (DynamicException ''toBytes: Invalid hex string'')
     else Inr (hex_body (drop i hex)))"

definition Hex_bytes :: "Hex \<Rightarrow> bytes" where
  "Hex_bytes this = hex_body (drop (if hex_strict this then 2 else 0) (hex_str this))"

text \<open>\<^verbatim>\<open>std::hex << value\<close> for an unsigned integer: the digits without leading zeroes.\<close>

fun hex_of_nat :: "nat \<Rightarrow> string" where
  "hex_of_nat v = (if v < 16 then [hex_digits ! v]
                   else hex_of_nat (v div 16) @ [hex_digits ! (v mod 16)])"

declare hex_of_nat.simps [simp del]

definition Hex_fromUint :: "nat \<Rightarrow> bool \<Rightarrow> Hex res" where
  "Hex_fromUint value strict = Hex_of_string (hex_of_nat value) strict"

definition Hex_getUint :: "(bytes \<Rightarrow> nat) \<Rightarrow> Hex \<Rightarrow> nat res" where
  "Hex_getUint im this = bind_r (Hex_toBytes (hex_str this)) (\<lambda>b.
     if length b > 32 then Inl LengthError else Inr (im b))"

text \<open>The two concatenation operators.\<close>

definition Hex_append_string :: "Hex \<Rightarrow> string \<Rightarrow> Hex res" where
  "Hex_append_string this hex = bind_r (prefix_0x str_at hex) (\<lambda>p.
     if Hex_isValid hex p then Inr (this\<lparr>hex_str := hex_str this @ (if p then drop 2 hex else hex)\<rparr>)
     else Inl (DynamicException ''Invalid Hex concat operation''))"

definition Hex_append :: "Hex \<Rightarrow> Hex \<Rightarrow> Hex" where
  "Hex_append this other =
     this\<lparr>hex_str := hex_str this @ (if hex_strict other then drop 2 (hex_str other) else hex_str other)\<rparr>"

text \<open>\<^verbatim>\<open>Address::isValid\<close>.\<close>

definition Address_isValid :: "string \<Rightarrow> bool \<Rightarrow> bool res" where
  "Address_isValid add inBytes =
     (if inBytes then Inr (length add = 20)
      else bind_r (prefix_0x view_at add) (\<lambda>p.
        if p then Inr (length add = 42 \<and> only_hex_from 0 (drop 2 add))
        else Inr (length add = 40 \<and> only_hex_from 0 add)))"


section \<open>Digits\<close>

lemma hex_digit_cases:
  assumes "(n :: nat) < 16"
  obtains "n = 0" | "n = 1" | "n = 2" | "n = 3" | "n = 4" | "n = 5" | "n = 6" | "n = 7"
    | "n = 8" | "n = 9" | "n = 10" | "n = 11" | "n = 12" | "n = 13" | "n = 14" | "n = 15"
  using assms by atomize_elim presburger

lemma toInt_hex_digit: "n < 16 \<Longrightarrow> Hex_toInt (hex_digits ! n) = int n"
  by (erule hex_digit_cases) (simp_all add: hex_digits_def Hex_toInt_def)

lemma hex_digit_filter: "n < 16 \<Longrightarrow> hex_digits ! n \<in> set hex_filter"
  by (erule hex_digit_cases) (simp_all add: hex_digits_def hex_filter_def)

lemma hex_digit_eq_0: "n < 16 \<Longrightarrow> hex_digits ! n = CHR ''0'' \<longleftrightarrow> n = 0"
  by (erule hex_digit_cases) (simp_all add: hex_digits_def)

lemma toInt_range: "c \<in> set hex_filter \<Longrightarrow> 0 \<le> Hex_toInt c \<and> Hex_toInt c < 16"
  by (auto simp: hex_filter_def Hex_toInt_def)

lemma toInt_eq_0: "c \<in> set hex_filter \<Longrightarrow> Hex_toInt c = 0 \<longleftrightarrow> c = CHR ''0''"
  by (auto simp: hex_filter_def Hex_toInt_def)

lemma x_not_hex: "CHR ''x'' \<notin> set hex_filter" "CHR ''X'' \<notin> set hex_filter"
  by (simp_all add: hex_filter_def)

definition hex_val :: "string \<Rightarrow> nat" where
  "hex_val s = foldl (\<lambda>a c. a * 16 + nat (Hex_toInt c)) 0 s"

lemma hex_foldl:
  "foldl (\<lambda>a c. a * 16 + nat (Hex_toInt c)) x s = x * 16 ^ length s + hex_val s"
proof (induction s arbitrary: x)
  case (Cons c s)
  show ?case
    using Cons.IH[of "x * 16 + nat (Hex_toInt c)"] Cons.IH[of "nat (Hex_toInt c)"]
    by (simp add: hex_val_def algebra_simps)
qed (simp add: hex_val_def)

lemma hex_val_Nil [simp]: "hex_val [] = 0"
  by (simp add: hex_val_def)

lemma hex_val_Cons: "hex_val (c # s) = nat (Hex_toInt c) * 16 ^ length s + hex_val s"
  using hex_foldl[of "nat (Hex_toInt c)" s] by (simp add: hex_val_def)

lemma hex_val_snoc: "hex_val (s @ [c]) = hex_val s * 16 + nat (Hex_toInt c)"
  by (simp add: hex_val_def)

lemma only_hex_from_0 [simp]: "only_hex_from 0 s \<longleftrightarrow> set s \<subseteq> set hex_filter"
  by (auto simp: only_hex_from_def list_all_iff)

lemma only_hex_from_drop: "only_hex_from n s \<longleftrightarrow> set (drop n s) \<subseteq> set hex_filter"
  by (auto simp: only_hex_from_def list_all_iff)

section \<open>Bytes and digits\<close>

lemma unat_nibbles:
  "unat (drop_bit 4 (b :: byte) AND 15) = unat b div 16" "unat (b AND 15) = unat b mod 16"
proof -
  have m: "x AND 15 = take_bit 4 x" for x :: byte
    by (simp add: take_bit_eq_mask mask_eq_exp_minus_1)
  have "unat b div 16 < 16" using unat_byte_less[of b] by (simp add: div_less_iff_less_mult)
  then show "unat (drop_bit 4 b AND 15) = unat b div 16" "unat (b AND 15) = unat b mod 16"
    by (simp_all add: m unsigned_take_bit_eq unsigned_drop_bit_eq take_bit_nat_def drop_bit_nat_def
        del: drop_bit_eq_div take_bit_eq_mod)
qed

lemma word_nibbles: "word_of_int (int (unat b div 16) * 16 + int (unat b mod 16)) = (b :: byte)"
proof -
  have "int (unat b div 16) * 16 + int (unat b mod 16) = int (unat b)"
    by (metis div_mult_mod_eq of_nat_add of_nat_mult of_nat_numeral)
  then show ?thesis by simp
qed

lemma hex_pair_eq: "hex_pair b = [hex_digits ! (unat b div 16), hex_digits ! (unat b mod 16)]"
  by (simp only: hex_pair_def unat_nibbles(1)) (simp only: unat_nibbles(2))

lemma hex_pair_facts:
  "length (hex_pair b) = 2" "set (hex_pair b) \<subseteq> set hex_filter"
  "hex_pairs (hex_pair b @ s) = b # hex_pairs s"
proof -
  have d: "unat b div 16 < 16" using unat_byte_less[of b] by (simp add: div_less_iff_less_mult)
  show "length (hex_pair b) = 2" by (simp add: hex_pair_def)
  show "set (hex_pair b) \<subseteq> set hex_filter"
    using d by (simp add: hex_pair_eq hex_digit_filter)
  show "hex_pairs (hex_pair b @ s) = b # hex_pairs s"
    using d word_nibbles[of b] by (simp add: hex_pair_eq toInt_hex_digit)
qed

definition digits_of :: "bytes \<Rightarrow> string" where
  "digits_of bs = concat (map hex_pair bs)"

lemma digits_of_facts [simp]:
  "length (digits_of bs) = 2 * length bs" "set (digits_of bs) \<subseteq> set hex_filter"
  "hex_pairs (digits_of bs) = bs"
  by (induction bs) (use hex_pair_facts in \<open>auto simp: digits_of_def\<close>)

lemma hex_body_digits_of [simp]: "hex_body (digits_of bs) = bs"
  by (simp add: hex_body_def)

lemma fromBytes_loop_eq:
  "off + 2 * length bs = length hex \<Longrightarrow> fromBytes_loop bs off hex = take off hex @ digits_of bs"
proof (induction bs off hex rule: fromBytes_loop.induct)
  case (2 b bs off hex)
  obtain x y where p: "hex_pair b = [x, y]" by (simp add: hex_pair_def)
  have "take (off + 2) (hex[off := x, off + 1 := y]) = take off hex @ [x, y]"
    using "2.prems" by (simp add: take_Suc_conv_app_nth take_update_swap list_update_append)
  then show ?case using 2 by (simp add: digits_of_def p)
qed (simp add: digits_of_def)

lemma byte_of_hex:
  assumes "h \<in> set hex_filter" "l \<in> set hex_filter"
  shows "unat (word_of_int (Hex_toInt h * 16 + Hex_toInt l) :: byte) = nat (Hex_toInt h) * 16 + nat (Hex_toInt l)"
proof -
  define m n where "m = nat (Hex_toInt h)" and "n = nat (Hex_toInt l)"
  have mn: "Hex_toInt h = int m" "Hex_toInt l = int n" "m < 16" "n < 16"
    using toInt_range[OF assms(1)] toInt_range[OF assms(2)]
    by (simp_all add: m_def n_def nat_less_iff)
  have "(word_of_int (int m * 16 + int n) :: byte) = word_of_nat (m * 16 + n)"
    by simp
  also have "unat (word_of_nat (m * 16 + n) :: byte) = m * 16 + n"
    using mn(3,4) by (simp only: unat_of_nat) simp
  finally show ?thesis by (simp only: mn nat_int)
qed

lemma hex_pairs_val:
  "even (length s) \<Longrightarrow> set s \<subseteq> set hex_filter \<Longrightarrow>
   be_val (hex_pairs s) = hex_val s \<and> 2 * length (hex_pairs s) = length s"
proof (induction s rule: hex_pairs.induct)
  case (1 h l s)
  have "be_val (hex_pairs s) = hex_val s" and len: "2 * length (hex_pairs s) = length s"
    using 1 by simp_all
  moreover have "(256 :: nat) ^ length (hex_pairs s) = 16 ^ length s"
    by (simp flip: len add: power_mult)
  ultimately show ?case
    using 1 byte_of_hex[of h l] by (simp add: be_val_Cons hex_val_Cons add_mult_distrib)
qed simp_all

lemma hex_body_val:
  assumes "set s \<subseteq> set hex_filter"
  shows "be_val (hex_body s) = hex_val s" "length (hex_body s) = (length s + 1) div 2"
proof -
  have "be_val (hex_body s) = hex_val s \<and> length (hex_body s) = (length s + 1) div 2"
  proof (cases "odd (length s)")
    case False
    then show ?thesis using hex_pairs_val[of s] assms by (auto simp: hex_body_def)
  next
    case True
    then obtain c t where s: "s = c # t" by (cases s) auto
    have ih: "be_val (hex_pairs t) = hex_val t" "2 * length (hex_pairs t) = length t"
      using hex_pairs_val[of t] assms True by (simp_all add: s)
    have "unat (word_of_int (Hex_toInt c) :: byte) = nat (Hex_toInt c)"
      using byte_of_hex[of "CHR ''0''" c] assms by (simp add: s Hex_toInt_def hex_filter_def)
    moreover have "(256 :: nat) ^ length (hex_pairs t) = 16 ^ length t"
      by (simp flip: ih(2) add: power_mult)
    ultimately show ?thesis using ih True by (simp add: hex_body_def s be_val_Cons hex_val_Cons)
  qed
  then show "be_val (hex_body s) = hex_val s" "length (hex_body s) = (length s + 1) div 2" by simp_all
qed


section \<open>Constructors\<close>

lemma Hex_of_string_view: "Hex_of_string value strict = Hex_of_view value strict"
  by (cases "str_at value 0"; cases "str_at value 1"; cases "prefix_0x str_at value"; cases strict)
    (simp_all add: Hex_of_string_def Hex_of_view_def Let_def)

lemma prefix_0x_hex:
  assumes "set s \<subseteq> set hex_filter" "s = [] \<longrightarrow> at s 0 = Inr (CHR 0x00)"
    "\<And>i. i < length s \<Longrightarrow> at s i = Inr (s ! i)" "length s = 1 \<longrightarrow> at s 1 = Inr (CHR 0x00)"
  shows "prefix_0x at s = Inr False"
proof (cases "length s \<le> 1")
  case True
  then show ?thesis using assms by (cases s) (auto simp: prefix_0x_def)
next
  case False
  then have "s ! 1 \<in> set hex_filter" using assms(1) nth_mem[of 1 s] by auto
  then have "s ! 1 \<noteq> CHR ''x''" "s ! 1 \<noteq> CHR ''X''" using x_not_hex by metis+
  moreover have "at s 0 = Inr (s ! 0)" "at s 1 = Inr (s ! 1)"
    using False by (auto intro!: assms(3))
  ultimately show ?thesis by (simp add: prefix_0x_def)
qed

lemma ctor_digits:
  assumes "set s \<subseteq> set hex_filter"
  shows "Hex_of_string s False = Inr \<lparr>hex_str = s, hex_strict = False\<rparr>"
    and "Hex_of_string (''0x'' @ s) True = Inr \<lparr>hex_str = ''0x'' @ s, hex_strict = True\<rparr>"
proof -
  have "prefix_0x str_at s = Inr False"
    using assms by (intro prefix_0x_hex) (simp_all add: str_at_def)
  then show "Hex_of_string s False = Inr \<lparr>hex_str = s, hex_strict = False\<rparr>"
    using assms by (simp add: Hex_of_string_view Hex_of_view_def Hex_isValid_def)
  show "Hex_of_string (''0x'' @ s) True = Inr \<lparr>hex_str = ''0x'' @ s, hex_strict = True\<rparr>"
    using assms by (simp add: Hex_of_string_view Hex_of_view_def Hex_isValid_def has_0x_def
        only_hex_from_drop str_at_def)
qed

lemma ctor_adds_prefix:
  assumes "set s \<subseteq> set hex_filter" "s \<noteq> []" "hd s \<noteq> CHR ''0''"
  shows "Hex_of_string s True = Inr \<lparr>hex_str = ''0x'' @ s, hex_strict = True\<rparr>"
  using assms
  by (cases s) (auto simp: Hex_of_string_view Hex_of_view_def Hex_isValid_def has_0x_def
        only_hex_from_drop str_at_def)

lemma Hex_fromBytes_eq:
  "Hex_fromBytes bs strict =
    Inr \<lparr>hex_str = (if strict then ''0x'' else '''') @ digits_of bs, hex_strict = strict\<rparr>"
proof (cases strict)
  case True
  then show ?thesis
    by (simp add: Hex_fromBytes_def Let_def fromBytes_loop_eq ctor_digits(2)[simplified])
next
  case False
  show ?thesis
  proof (cases bs)
    case Nil
    with False show ?thesis
      by (simp add: Hex_fromBytes_def digits_of_def Hex_of_string_view Hex_of_view_def
          prefix_0x_def str_at_def Hex_isValid_def)
  next
    case (Cons b bs')
    with False show ?thesis
      by (simp add: Hex_fromBytes_def Let_def fromBytes_loop_eq ctor_digits(1) del: fromBytes_loop.simps)
  qed
qed

lemma Hex_toBytes_digits:
  assumes "set s \<subseteq> set hex_filter" "2 \<le> length s \<or> p"
  shows "Hex_toBytes ((if p then ''0x'' else '''') @ s) = Inr (hex_body s)"
proof (cases p)
  case True
  then show ?thesis
    using assms by (simp add: Hex_toBytes_def prefix_0x_def view_at_def only_hex_from_drop)
next
  case False
  then have "prefix_0x view_at s = Inr False"
    using assms by (intro prefix_0x_hex) (auto simp: view_at_def)
  then show ?thesis using False assms(1) by (simp add: Hex_toBytes_def)
qed

section \<open>Numbers\<close>

lemma hex_of_nat_facts:
  "hex_val (hex_of_nat v) = v \<and> set (hex_of_nat v) \<subseteq> set hex_filter \<and> hex_of_nat v \<noteq> []
   \<and> (hd (hex_of_nat v) = CHR ''0'' \<longleftrightarrow> v = 0)"
proof (induction v rule: hex_of_nat.induct)
  case (1 v)
  show ?case
  proof (cases "v < 16")
    case True
    then have "hex_of_nat v = [hex_digits ! v]" by (subst hex_of_nat.simps) simp
    with True show ?thesis
      by (simp add: hex_val_Cons toInt_hex_digit hex_digit_filter hex_digit_eq_0)
  next
    case False
    with 1 have ih: "hex_val (hex_of_nat (v div 16)) = v div 16"
      "set (hex_of_nat (v div 16)) \<subseteq> set hex_filter" "hex_of_nat (v div 16) \<noteq> []"
      "hd (hex_of_nat (v div 16)) \<noteq> CHR ''0''" by auto
    have "hex_of_nat v = hex_of_nat (v div 16) @ [hex_digits ! (v mod 16)]"
      using False by (subst hex_of_nat.simps) simp
    then show ?thesis
      using ih False by (auto simp: hex_val_snoc toInt_hex_digit hex_digit_filter)
  qed
qed

lemma length_hex_of_nat: "v < 16 ^ n \<Longrightarrow> 0 < n \<Longrightarrow> length (hex_of_nat v) \<le> n"
proof (induction n arbitrary: v)
  case (Suc n)
  show ?case
  proof (cases "v < 16")
    case True
    then show ?thesis by (subst hex_of_nat.simps) simp
  next
    case False
    then have "v div 16 < 16 ^ n" "0 < n"
      using Suc.prems by (cases n; simp add: div_less_iff_less_mult mult.commute)+
    then show ?thesis using Suc.IH False by (subst hex_of_nat.simps) simp
  qed
qed simp

lemma forRPC_loop_eq: "forRPC_loop (a # b # s) = a # b # dropWhile (\<lambda>c. c = CHR ''0'') s"
  by (induction s) simp_all

lemma hex_val_dropWhile:
  "hex_val (dropWhile (\<lambda>c. c = CHR ''0'') s) = hex_val s"
  by (induction s) (simp_all add: hex_val_Cons Hex_toInt_def)

section \<open>Properties\<close>

text \<open>
  Bytes survive the hexadecimal encoding: \<^verbatim>\<open>Hex::fromBytes\<close> never throws, its text is
  valid for its mode and two digits per byte, the member \<^verbatim>\<open>bytes()\<close> gives the bytes back, and
  so does \<^verbatim>\<open>Hex::toBytes\<close> on the text unless it is the empty view.
\<close>
theorem hex_bytes_roundtrip:
  "\<exists>h. Hex_fromBytes bs strict = Inr h \<and> hex_strict h = strict
     \<and> Hex_isValid (hex_str h) strict
     \<and> length (hex_str h) = 2 * length bs + (if strict then 2 else 0)
     \<and> Hex_bytes h = bs
     \<and> (strict \<or> bs \<noteq> [] \<longrightarrow> Hex_toBytes (hex_str h) = Inr bs)"
proof -
  let ?h = "\<lparr>hex_str = (if strict then ''0x'' else '''') @ digits_of bs, hex_strict = strict\<rparr>"
  have "Hex_toBytes (hex_str ?h) = Inr bs" if "strict \<or> bs \<noteq> []"
    using that Hex_toBytes_digits[of "digits_of bs" strict] by (cases bs) auto
  then show ?thesis
    by (intro exI[of _ ?h])
      (simp add: Hex_fromBytes_eq Hex_bytes_def Hex_isValid_def has_0x_def only_hex_from_drop)
qed

theorem hex_bytes_roundtrip_witness:
  "\<exists>h. Hex_fromBytes [0, 255] True = Inr h \<and> Hex_toBytes (hex_str h) = Inr [0, 255]"
  using hex_bytes_roundtrip[of "[0, 255]" True] by auto

text \<open>
  Numbers survive the hexadecimal encoding: for a 256-bit number of at least two
  digits \<^verbatim>\<open>Hex::fromUint\<close> and \<^verbatim>\<open>getUint\<close> are inverse in both modes, in strict mode also for a
  single non-zero digit; and the strict encoding of zero throws, because the constructor adds
  no prefix in front of a leading '0'.
\<close>
theorem hex_uint_roundtrip:
  assumes "boost_bits ex im"
  shows "(v < 2 ^ 256 \<and> (16 \<le> v \<or> strict \<and> v \<noteq> 0) \<longrightarrow>
      (\<exists>h. Hex_fromUint v strict = Inr h \<and> Hex_getUint im h = Inr v))
    \<and> Hex_fromUint 0 True = Inl invalid_hex"
proof (intro conjI impI)
  let ?s = "hex_of_nat v"
  assume v: "v < 2 ^ 256 \<and> (16 \<le> v \<or> strict \<and> v \<noteq> 0)"
  note facts = hex_of_nat_facts[of v]
  have "length ?s \<le> 64" using length_hex_of_nat[of v 64] v by simp
  then have len: "length (hex_body ?s) \<le> 32" using hex_body_val(2)[of ?s] facts by simp
  have two: "2 \<le> length ?s \<or> strict"
    using v hex_of_nat_facts[of "v div 16"] by (subst hex_of_nat.simps) (auto simp: Suc_le_eq)
  let ?h = "\<lparr>hex_str = (if strict then ''0x'' else '''') @ ?s, hex_strict = strict\<rparr>"
  have "Hex_fromUint v strict = Inr ?h"
    using facts v ctor_digits(1)[of ?s] ctor_adds_prefix[of ?s] by (cases strict) (auto simp: Hex_fromUint_def)
  moreover have "Hex_getUint im ?h = Inr v"
    using Hex_toBytes_digits[of ?s strict] facts two len hex_body_val(1)[of ?s]
      boost_bits.import_val[OF assms] by (simp add: Hex_getUint_def)
  ultimately show "\<exists>h. Hex_fromUint v strict = Inr h \<and> Hex_getUint im h = Inr v" by blast
next
  show "Hex_fromUint 0 True = Inl invalid_hex"
    by (simp add: Hex_fromUint_def hex_of_nat.simps[of 0] hex_digits_def Hex_of_string_view
        Hex_of_view_def str_at_def Hex_isValid_def has_0x_def)
qed

theorem hex_uint_roundtrip_witness:
  "(\<exists>h. Hex_fromUint 1024 False = Inr h \<and> Hex_getUint be_val h = Inr 1024)
   \<and> Hex_fromUint 0 True = Inl invalid_hex"
  using hex_uint_roundtrip[OF ref_bits.boost_bits_axioms, of 1024 False] by simp

text \<open>
  On a strict \<^verbatim>\<open>Hex\<close>, \<^verbatim>\<open>forRPC\<close> keeps the number and removes every leading zero. A
  number other than zero gets at least one digit; zero written with at least one digit gets
  none, so the result is the text \<^verbatim>\<open>0x\<close> that the documentation of the function excludes.
\<close>
theorem forRPC_canonical:
  assumes "set ds \<subseteq> set hex_filter" "ds \<noteq> []"
  shows "\<exists>r. Hex_forRPC \<lparr>hex_str = ''0x'' @ ds, hex_strict = True\<rparr> = Inr (''0x'' @ r)
    \<and> hex_val r = hex_val ds \<and> set r \<subseteq> set hex_filter
    \<and> (r \<noteq> [] \<longrightarrow> hd r \<noteq> CHR ''0'') \<and> (r = [] \<longleftrightarrow> hex_val ds = 0)"
proof -
  let ?r = "dropWhile (\<lambda>c. c = CHR ''0'') ds"
  have sub: "set ?r \<subseteq> set hex_filter" using assms(1) set_dropWhileD by fastforce
  have hd: "?r \<noteq> [] \<longrightarrow> hd ?r \<noteq> CHR ''0''" using hd_dropWhile[of "\<lambda>c. c = CHR ''0''" ds] by blast
  have "hex_val ?r \<noteq> 0" if ne: "?r \<noteq> []"
  proof -
    obtain c t where r: "?r = c # t" using ne by (meson list.exhaust)
    have "c \<noteq> CHR ''0''" using hd unfolding r by simp
    moreover have "c \<in> set hex_filter" using sub unfolding r by simp
    ultimately have "0 < nat (Hex_toInt c)" using toInt_eq_0[of c] toInt_range[of c] by simp
    then show ?thesis by (simp add: r hex_val_Cons)
  qed
  then have "?r = [] \<longleftrightarrow> hex_val ds = 0" using hex_val_dropWhile[of ds] by (metis hex_val_Nil)
  moreover have "Hex_forRPC \<lparr>hex_str = ''0x'' @ ds, hex_strict = True\<rparr> = Inr (''0x'' @ ?r)"
    using assms(2) by (simp add: Hex_forRPC_def str_at_def forRPC_loop_eq)
  ultimately show ?thesis using sub hd hex_val_dropWhile[of ds] by (intro exI[of _ ?r]) blast
qed

theorem forRPC_canonical_witness:
  "Hex_forRPC \<lparr>hex_str = ''0x00'', hex_strict = True\<rparr> = Inr ''0x''"
proof -
  have h: "set ''00'' \<subseteq> set hex_filter" "''00'' \<noteq> ([] :: string)" "hex_val ''00'' = 0"
    by (simp_all add: hex_filter_def hex_val_def Hex_toInt_def)
  obtain r where "Hex_forRPC \<lparr>hex_str = ''0x'' @ ''00'', hex_strict = True\<rparr> = Inr (''0x'' @ r)"
    "r = [] \<longleftrightarrow> hex_val ''00'' = 0"
    using forRPC_canonical[OF h(1,2)] by (elim exE conjE) rule
  then show ?thesis using h(3) by simp
qed

end
