(* ===== verification/Merkle_Tree.thy ===== *)
theory Merkle_Tree
  imports Prelude
begin

text \<open>
  The Merkle tree of \<^verbatim>\<open>src/src/utils/merkle.cpp\<close>, which the block code uses for the roots of
  its transaction lists. The hash \<^verbatim>\<open>Utils::sha3\<close> is an argument. A hash is a byte string and
  is ordered lexicographically, as \<^verbatim>\<open>FixedBytes::operator<\<close> orders it.
\<close>

section \<open>The class Merkle\<close>

type_synonym hash = bytes

text \<open>The bytes both \<^verbatim>\<open>newLayer\<close> and \<^verbatim>\<open>verify\<close> hash: the smaller hash first.\<close>

definition pair_bytes :: "hash \<Rightarrow> hash \<Rightarrow> bytes" where
  "pair_bytes a b = min a b @ max a b"

fun newLayer :: "(bytes \<Rightarrow> hash) \<Rightarrow> hash list \<Rightarrow> hash list" where
  "newLayer h (a # b # layer) = h (pair_bytes a b) # newLayer h layer"
| "newLayer h [a] = [a]"
| "newLayer h [] = []"

lemma length_newLayer [simp]: "length (newLayer h layer) = (length layer + 1) div 2"
  by (induction h layer rule: newLayer.induct) simp_all

text \<open>The loop \<^verbatim>\<open>while (tree_.back().size() > 1)\<close>, from the layer at the back on.\<close>

function layers_from :: "(bytes \<Rightarrow> hash) \<Rightarrow> hash list \<Rightarrow> hash list list" where
  "layers_from h layer =
     (if length layer > 1 then layer # layers_from h (newLayer h layer) else [layer])"
  by pat_completeness auto
termination
  by (relation "measure (\<lambda>(h, layer). length layer)") auto

declare layers_from.simps [simp del]

definition Merkle_make :: "(bytes \<Rightarrow> hash) \<Rightarrow> hash list \<Rightarrow> hash list list" where
  "Merkle_make h leaves = layers_from h (map h leaves)"

definition getRoot :: "hash list list \<Rightarrow> hash" where
  "getRoot tree = (if last tree = [] then replicate 32 0 else hd (last tree))"

text \<open>
  \<^verbatim>\<open>Merkle::getProof\<close>. The bound is computed in 64 bits, so it wraps for an empty first
  layer. The sibling of an even position is read without a check.
\<close>

definition sibling :: "nat \<Rightarrow> nat" where
  "sibling pos = (if even pos then pos + 1 else pos - 1)"

fun getProof_loop :: "hash list list \<Rightarrow> nat \<Rightarrow> hash list \<Rightarrow> hash list res" where
  "getProof_loop [] pos ret = Inr ret"
| "getProof_loop (layer # tree) pos ret =
     (if length layer = 1 then Inr ret
      else let pos' = sibling pos in
        if pos' < length layer then getProof_loop tree (pos' div 2) (ret @ [layer ! pos'])
        else Inl UndefinedBehaviour)"

definition getProof :: "hash list list \<Rightarrow> nat \<Rightarrow> hash list res" where
  "getProof tree leafIndex =
     (if leafIndex > (length (hd tree) + (2 ^ 64 - 1)) mod 2 ^ 64 then Inr []
      else getProof_loop tree leafIndex [])"

fun computed_hash :: "(bytes \<Rightarrow> hash) \<Rightarrow> hash list \<Rightarrow> hash \<Rightarrow> hash" where
  "computed_hash h [] leaf = leaf"
| "computed_hash h (p # proof) leaf = computed_hash h proof (h (pair_bytes leaf p))"

definition Merkle_verify :: "(bytes \<Rightarrow> hash) \<Rightarrow> hash list \<Rightarrow> hash \<Rightarrow> hash \<Rightarrow> bool" where
  "Merkle_verify h proof leaf root = (computed_hash h proof leaf = root)"

section \<open>Layers\<close>

lemma pair_bytes_commute: "pair_bytes a b = pair_bytes b a"
  by (simp add: pair_bytes_def min.commute max.commute)

lemma pair_bytes_inject:
  assumes "length a = 32" "length b = 32" "length c = 32" "length d = 32"
    and "pair_bytes a b = pair_bytes c d"
  shows "{a, b} = {c, d}"
proof -
  have "length (min a b) = length (min c d)" using assms(1-4) by (simp add: min_def)
  then have "min a b = min c d" "max a b = max c d"
    using assms(5) by (simp_all add: pair_bytes_def)
  then show ?thesis by (auto simp: min_def max_def split: if_splits)
qed

lemma newLayer_nth:
  "Suc (2 * i) < length layer \<Longrightarrow>
   newLayer h layer ! i = h (pair_bytes (layer ! (2 * i)) (layer ! Suc (2 * i)))"
proof (induction h layer arbitrary: i rule: newLayer.induct)
  case (1 h a b layer)
  then show ?case by (cases i) simp_all
qed simp_all

lemma newLayer_sibling:
  assumes "pos < length layer" "sibling pos < length layer"
  shows "newLayer h layer ! (pos div 2) = h (pair_bytes (layer ! pos) (layer ! sibling pos))"
proof (cases "even pos")
  case True
  then obtain i where "pos = 2 * i" by (elim evenE)
  with assms show ?thesis by (simp add: sibling_def newLayer_nth)
next
  case False
  then obtain i where "pos = 2 * i + 1" by (elim oddE)
  with assms show ?thesis by (simp add: sibling_def newLayer_nth pair_bytes_commute)
qed

lemma sibling_div_2: "sibling pos div 2 = pos div 2"
  by (auto simp: sibling_def elim: oddE)

lemma layers_from_ne [simp]: "layers_from h layer \<noteq> []"
  by (subst layers_from.simps) simp

lemma hd_layers_from [simp]: "hd (layers_from h layer) = layer"
  by (subst layers_from.simps) simp

lemma getRoot_step:
  "length layer > 1 \<Longrightarrow> getRoot (layers_from h layer) = getRoot (layers_from h (newLayer h layer))"
  by (subst layers_from.simps) (simp add: getRoot_def)

lemma getProof_loop_acc:
  "getProof_loop tree pos ret = bind_r (getProof_loop tree pos []) (\<lambda>p. Inr (ret @ p))"
proof (induction tree arbitrary: pos ret)
  case (Cons layer tree)
  show ?case
    using Cons.IH[of "sibling pos div 2" "ret @ [layer ! sibling pos]"]
      Cons.IH[of "sibling pos div 2" "[layer ! sibling pos]"]
    by (simp add: Let_def bind_r_assoc)
qed simp

text \<open>The step of the proof loop on a tree built from its front layer.\<close>

lemma getProof_loop_layers:
  "getProof_loop (layers_from h layer) pos [] =
     (if length layer = 1 then Inr []
      else if sibling pos < length layer
      then bind_r (getProof_loop (layers_from h (newLayer h layer)) (pos div 2) [])
             (\<lambda>p. Inr (layer ! sibling pos # p))
      else Inl UndefinedBehaviour)"
proof (cases "length layer > 1")
  case True
  then show ?thesis
    using getProof_loop_acc[of "layers_from h (newLayer h layer)" "pos div 2" "[layer ! sibling pos]"]
    by (subst layers_from.simps) (simp add: Let_def sibling_div_2)
next
  case False
  then show ?thesis
    by (subst layers_from.simps) (auto simp: sibling_def Let_def not_less_eq_eq)
qed

lemma getProof_in_range:
  "i < length layer \<Longrightarrow> length layer \<le> 2 ^ 64 \<Longrightarrow>
   getProof (layers_from h layer) i = getProof_loop (layers_from h layer) i []"
proof -
  assume i: "i < length layer" and n: "length layer \<le> 2 ^ 64"
  from i obtain k where k: "length layer = Suc k" by (cases "length layer") auto
  then have "(length layer + (2 ^ 64 - 1)) mod 2 ^ 64 = k" using n by simp
  then show ?thesis using i k by (simp add: getProof_def)
qed

section \<open>Proofs verify\<close>

lemma getProof_loop_verify:
  "pos < length layer \<Longrightarrow> getProof_loop (layers_from h layer) pos [] = Inr p \<Longrightarrow>
   computed_hash h p (layer ! pos) = getRoot (layers_from h layer)"
proof (induction h layer arbitrary: pos p rule: layers_from.induct)
  case (1 h layer)
  show ?case
  proof (cases "length layer > 1")
    case False
    then have one: "length layer = 1" using "1.prems"(1) by simp
    have "layers_from h layer = [layer]" using False by (subst layers_from.simps) simp
    then show ?thesis
      using "1.prems" one by (auto simp: getProof_loop_layers[of h layer] getRoot_def length_Suc_conv)
  next
    case True
    let ?n = "newLayer h layer"
    from "1.prems"(2) True obtain q where sib: "sibling pos < length layer"
      and q: "getProof_loop (layers_from h ?n) (pos div 2) [] = Inr q" and p: "p = layer ! sibling pos # q"
      by (auto simp: getProof_loop_layers[of h layer] bind_r_eq_Inr split: if_splits)
    have "pos div 2 < length ?n" using "1.prems"(1) by simp
    then have "computed_hash h q (?n ! (pos div 2)) = getRoot (layers_from h ?n)"
      using "1.IH"[OF True] q by blast
    then show ?thesis
      using True p newLayer_sibling[OF "1.prems"(1) sib] by (simp add: getRoot_step)
  qed
qed

section \<open>When a proof exists\<close>

text \<open>The path from \<open>pos\<close> in a layer of \<open>n\<close> hashes always has a sibling.\<close>

fun has_path :: "nat \<Rightarrow> nat \<Rightarrow> bool" where
  "has_path n pos = (if n \<le> 1 then n = 1
     else sibling pos < n \<and> has_path ((n + 1) div 2) (pos div 2))"

declare has_path.simps [simp del]

lemma getProof_loop_defined:
  "(\<exists>p. getProof_loop (layers_from h layer) pos [] = Inr p) \<longleftrightarrow> has_path (length layer) pos"
proof (induction h layer arbitrary: pos rule: layers_from.induct)
  case (1 h layer)
  show ?case
  proof (cases "length layer > 1")
    case True
    then show ?thesis
      using "1.IH"[OF True, of "pos div 2"]
      by (subst has_path.simps, subst getProof_loop_layers) (auto simp: bind_r_eq_Inr)
  next
    case False
    then show ?thesis
      by (subst has_path.simps, subst getProof_loop_layers) (auto simp: not_less_eq_eq)
  qed
qed

lemma one_less_double_power [simp]: "Suc 0 < (2 :: nat) * 2 ^ k"
  by (induction k) simp_all

lemma has_path_power2: "pos < 2 ^ k \<Longrightarrow> has_path (2 ^ k) pos"
proof (induction k arbitrary: pos)
  case 0
  then show ?case by (simp add: has_path.simps)
next
  case (Suc k)
  have "sibling pos < 2 ^ Suc k" using Suc.prems by (auto simp: sibling_def elim!: evenE)
  moreover have "(2 ^ Suc k + 1) div 2 = (2 ^ k :: nat)" by simp
  moreover have "\<not> (2 ^ Suc k \<le> (1 :: nat))" using one_less_double_power[of k] by (simp add: not_le)
  ultimately show ?case using Suc by (subst has_path.simps) simp
qed

lemma has_path_last: "0 < n \<Longrightarrow> has_path n (n - 1) \<Longrightarrow> \<exists>k. n = 2 ^ k"
proof (induction n rule: less_induct)
  case (less n)
  show ?case
  proof (cases "n \<le> 1")
    case True
    with less.prems have "n = 2 ^ 0" by simp
    then show ?thesis by blast
  next
    case False
    from less.prems(2) False have sib: "sibling (n - 1) < n"
      and up: "has_path ((n + 1) div 2) ((n - 1) div 2)" by (simp_all add: has_path.simps[of n])
    have ev: "even n" using sib False by (auto simp: sibling_def split: if_splits)
    then have "(n + 1) div 2 = n div 2" "(n - 1) div 2 = n div 2 - 1" using False by (auto elim!: evenE)
    then obtain k where "n div 2 = 2 ^ k" using less.IH[of "n div 2"] up False by auto
    then have "n = 2 ^ Suc k" using ev by (auto elim!: evenE)
    then show ?thesis by blast
  qed
qed


section \<open>What is hashed\<close>

text \<open>The strings the constructor and \<^verbatim>\<open>verify\<close> pass to the hash above the leaves.\<close>

fun layer_inputs :: "hash list \<Rightarrow> bytes list" where
  "layer_inputs (a # b # layer) = pair_bytes a b # layer_inputs layer"
| "layer_inputs layer = []"

definition tree_inputs :: "hash list list \<Rightarrow> bytes list" where
  "tree_inputs tree = concat (map layer_inputs tree)"

fun verify_inputs :: "(bytes \<Rightarrow> hash) \<Rightarrow> hash list \<Rightarrow> hash \<Rightarrow> bytes list" where
  "verify_inputs h [] leaf = []"
| "verify_inputs h (p # proof) leaf = pair_bytes leaf p # verify_inputs h proof (h (pair_bytes leaf p))"

lemma newLayer_inputs: "even (length layer) \<Longrightarrow> newLayer h layer = map h (layer_inputs layer)"
  by (induction h layer rule: newLayer.induct) simp_all

lemma layer_inputs_mem:
  "x \<in> set (layer_inputs layer) \<Longrightarrow> \<exists>a\<in>set layer. \<exists>b\<in>set layer. x = pair_bytes a b"
  by (induction layer rule: layer_inputs.induct) auto

lemma tree_inputs_step:
  "length layer > 1 \<Longrightarrow>
   tree_inputs (layers_from h layer) = layer_inputs layer @ tree_inputs (layers_from h (newLayer h layer))"
  by (subst layers_from.simps) (simp add: tree_inputs_def)

lemma verify_binding:
  assumes "\<And>x. length (h x) = 32"
  shows "length layer = 2 ^ length proof \<Longrightarrow> \<forall>a\<in>set layer. length a = 32 \<Longrightarrow>
    \<forall>p\<in>set proof. length p = 32 \<Longrightarrow> length leaf = 32 \<Longrightarrow>
    computed_hash h proof leaf = getRoot (layers_from h layer) \<Longrightarrow>
    inj_on h (set (tree_inputs (layers_from h layer)) \<union> set (verify_inputs h proof leaf)) \<Longrightarrow>
    leaf \<in> set layer"
proof (induction "proof" arbitrary: layer leaf)
  case Nil
  then obtain a where "layer = [a]" by (auto simp: length_Suc_conv)
  with Nil show ?case by (simp add: layers_from.simps[of h "[a]"] getRoot_def)
next
  case (Cons p ps)
  let ?n = "newLayer h layer" and ?x = "pair_bytes leaf p"
  have two: "length layer > 1" "even (length layer)"
    using Cons.prems(1) by simp_all
  have "length ?n = 2 ^ length ps" using Cons.prems(1) by simp
  moreover have "\<forall>a\<in>set ?n. length a = 32" using assms two by (auto simp: newLayer_inputs)
  moreover have "inj_on h (set (tree_inputs (layers_from h ?n)) \<union> set (verify_inputs h ps (h ?x)))"
    using Cons.prems(6) two by (auto simp: tree_inputs_step intro: inj_on_subset)
  ultimately have "h ?x \<in> set ?n"
    using Cons.IH[of ?n "h ?x"] Cons.prems two assms by (simp add: getRoot_step)
  then obtain y where y: "y \<in> set (layer_inputs layer)" "h ?x = h y"
    using two by (auto simp: newLayer_inputs)
  have "?x = y" using Cons.prems(6) y two by (auto simp: tree_inputs_step dest: inj_onD)
  then obtain a b where ab: "a \<in> set layer" "b \<in> set layer" "?x = pair_bytes a b"
    using layer_inputs_mem[OF y(1)] by blast
  then have "{leaf, p} = {a, b}" using Cons.prems(2,3,4) by (intro pair_bytes_inject) auto
  then show ?case using ab by auto
qed

section \<open>Properties\<close>

text \<open>
  Completeness of the proofs: whatever the hash function, when \<^verbatim>\<open>getProof\<close> of a tree
  returns for a leaf index in range, \<^verbatim>\<open>verify\<close> accepts that proof for the stored leaf hash and
  the root of the tree.
\<close>
theorem getProof_verifies:
  assumes "i < length leaves" "length leaves \<le> 2 ^ 64"
    and "getProof (Merkle_make h leaves) i = Inr p"
  shows "Merkle_verify h p (h (leaves ! i)) (getRoot (Merkle_make h leaves))"
  using assms getProof_loop_verify[of i "map h leaves" h p] getProof_in_range[of i "map h leaves" h]
  by (simp add: Merkle_make_def Merkle_verify_def)

theorem getProof_verifies_witness:
  "\<exists>p. getProof (Merkle_make (take 1) [[1], [2], [3]]) 0 = Inr p
    \<and> Merkle_verify (take 1) p [1] (getRoot (Merkle_make (take 1) [[1], [2], [3]]))"
proof -
  have "getProof (Merkle_make (take 1) [[1], [2], [3]]) 0 = Inr [[2], [3]]"
    by (simp add: Merkle_make_def layers_from.simps pair_bytes_def getProof_def sibling_def min_def max_def)
  then show ?thesis
    using getProof_verifies[of 0 "[[1], [2], [3]]" "take 1" "[[2], [3]]"] by simp
qed

text \<open>
  \<^verbatim>\<open>getProof\<close> is defined for every leaf of a non-empty tree exactly when the number
  of leaves is a power of two; in any other tree the proof of the last leaf reads past the
  end of an odd layer.
\<close>
theorem getProof_defined_iff_power2:
  assumes "leaves \<noteq> []" "length leaves \<le> 2 ^ 64"
  shows "((\<forall>i < length leaves. \<exists>p. getProof (Merkle_make h leaves) i = Inr p) \<longleftrightarrow>
      (\<exists>k. length leaves = 2 ^ k))
    \<and> ((\<nexists>k. length leaves = 2 ^ k) \<longrightarrow>
      (\<nexists>p. getProof (Merkle_make h leaves) (length leaves - 1) = Inr p))"
proof -
  let ?n = "length leaves"
  have path: "(\<exists>p. getProof (Merkle_make h leaves) i = Inr p) \<longleftrightarrow> has_path ?n i" if "i < ?n" for i
    using that assms(2) getProof_in_range[of i "map h leaves" h]
      getProof_loop_defined[of h "map h leaves" i] by (simp add: Merkle_make_def)
  have "0 < ?n" "?n - 1 < ?n" using assms(1) by simp_all
  then show ?thesis using path has_path_last[of ?n] has_path_power2 by metis
qed

theorem getProof_defined_iff_power2_witness:
  "\<nexists>p. getProof (Merkle_make (take 1) [[1], [2], [3]]) 2 = Inr p"
proof -
  have "\<nexists>k. (3 :: nat) = 2 ^ k"
  proof
    assume "\<exists>k. (3 :: nat) = 2 ^ k"
    then obtain k where "(3 :: nat) = 2 ^ k" by blast
    then show False by (cases k) (simp, simp, presburger)
  qed
  moreover have "length [[1], [2], [3 :: byte]] = 3" "(3 :: nat) - 1 = 2" "(3 :: nat) \<le> 2 ^ 64" by simp_all
  ultimately show ?thesis
    using getProof_defined_iff_power2[of "[[1], [2], [3]]" "take 1"] by (metis list.discI)
qed

text \<open>
  Claim C36. Binding: in a full tree, if \<^verbatim>\<open>verify\<close> accepts a proof of the tree's depth for the
  tree's root, and the hash does not collide on the strings the tree and the verification
  hashed, then the verified hash is one of the stored leaf hashes.
\<close>
theorem verify_binds_leaf:
  assumes "\<And>x. length (h x) = 32"
    and "length leaves = 2 ^ length p" "\<forall>q\<in>set p. length q = 32" "length leaf = 32"
    and "Merkle_verify h p leaf (getRoot (Merkle_make h leaves))"
    and "inj_on h (set (tree_inputs (Merkle_make h leaves)) \<union> set (verify_inputs h p leaf))"
  shows "leaf \<in> h ` set leaves"
  using verify_binding[OF assms(1), of "map h leaves" p leaf] assms
  by (auto simp: Merkle_make_def Merkle_verify_def)

definition pad_hash :: "bytes \<Rightarrow> hash" where
  "pad_hash x = take 32 (x @ replicate 32 0)"

theorem verify_binds_leaf_witness:
  "pad_hash [1] \<in> pad_hash ` set [[1], [2]]"
proof (rule verify_binds_leaf[where p = "[pad_hash [2]]"])
  show "length (pad_hash x) = 32" for x by (simp add: pad_hash_def)
  show "Merkle_verify pad_hash [pad_hash [2]] (pad_hash [1]) (getRoot (Merkle_make pad_hash [[1], [2]]))"
    by (simp add: Merkle_verify_def Merkle_make_def layers_from.simps getRoot_def)
  show "inj_on pad_hash (set (tree_inputs (Merkle_make pad_hash [[1], [2]]))
      \<union> set (verify_inputs pad_hash [pad_hash [2]] (pad_hash [1])))"
    by (simp add: tree_inputs_def Merkle_make_def layers_from.simps)
qed (simp_all add: pad_hash_def)

end
