(* ===== verification/Safe_Base.thy ===== *)
theory Safe_Base
  imports Prelude
begin

text \<open>
  The safe variables of a contract (\<^verbatim>\<open>src/src/contract/variables/safebase.h\<close>,
  \<^verbatim>\<open>safebool.h\<close>, \<^verbatim>\<open>safeaddress.h\<close>), the list of used variables that the call logger commits
  or reverts at the end of a call (\<^verbatim>\<open>src/src/contract/contractcalllogger.cpp\<close>), and the
  reentrancy lock (\<^verbatim>\<open>reentrancyguard.h\<close>). A step relation covers everything an operator of a
  safe variable may do to it; the locales state when ending a call is atomic.
\<close>

section \<open>A safe variable\<close>

text \<open>
  \<open>sv_value\<close> is the committed value, \<open>sv_ptr\<close> the temporary one (\<^verbatim>\<open>nullptr\<close> is \<open>None\<close>).
  \<open>sv_owner\<close> says whether the owner pointer is set and \<open>sv_uses\<close> counts the entries for this
  variable in the \<^verbatim>\<open>usedVars_\<close> of the call logger.
\<close>

record 'a safe_var =
  sv_value :: 'a
  sv_ptr :: "'a option"
  sv_owner :: bool
  sv_registered :: bool
  sv_should :: bool
  sv_uses :: nat

definition new_var :: "bool \<Rightarrow> 'a \<Rightarrow> 'a \<Rightarrow> 'a safe_var" where
  "new_var owner zero x = \<lparr>sv_value = zero, sv_ptr = Some x, sv_owner = owner,
     sv_registered = False, sv_should = False, sv_uses = 0\<rparr>"

definition check_v :: "'a safe_var \<Rightarrow> 'a safe_var" where
  "check_v v = (case sv_ptr v of None \<Rightarrow> v\<lparr>sv_ptr := Some (sv_value v)\<rparr> | Some _ \<Rightarrow> v)"

definition markAsUsed :: "'a safe_var \<Rightarrow> 'a safe_var" where
  "markAsUsed v =
     (if sv_owner v \<and> \<not> sv_registered v \<and> sv_should v
      then v\<lparr>sv_uses := Suc (sv_uses v), sv_registered := True\<rparr> else v)"

text \<open>The value \<^verbatim>\<open>get()\<close> returns; it also leaves the variable as \<^verbatim>\<open>check()\<close> does.\<close>

definition cur :: "'a safe_var \<Rightarrow> 'a" where
  "cur v = (case sv_ptr v of None \<Rightarrow> sv_value v | Some x \<Rightarrow> x)"

definition get_v :: "('a safe_var, 'a) meth" where
  "get_v = (\<lambda>v. let v = check_v v in (Inr (the (sv_ptr v)), v))"

definition commit_v :: "'a safe_var \<Rightarrow> 'a safe_var" where
  "commit_v v = (let v = check_v v in
     v\<lparr>sv_value := the (sv_ptr v), sv_ptr := None, sv_registered := False\<rparr>)"

definition revert_v :: "'a safe_var \<Rightarrow> 'a safe_var" where
  "revert_v v = v\<lparr>sv_ptr := None, sv_registered := False\<rparr>"

text \<open>The write \<^verbatim>\<open>*valuePtr_ = x\<close>, of a pointer that \<^verbatim>\<open>check()\<close> has set.\<close>

definition put_v :: "'a \<Rightarrow> 'a safe_var \<Rightarrow> 'a safe_var" where
  "put_v x v = v\<lparr>sv_ptr := Some x\<rparr>"

text \<open>
  The two shapes of a compound assignment: register first and then compute, which may throw
  (\<open>mark_update\<close>), or compute first and register when that succeeded (\<open>guard_update\<close>).
\<close>

definition mark_update :: "('a \<Rightarrow> 'a res) \<Rightarrow> ('a safe_var, unit) meth" where
  "mark_update f = (\<lambda>v. let v = markAsUsed (check_v v) in
     case f (cur v) of Inl e \<Rightarrow> (Inl e, v) | Inr x \<Rightarrow> (Inr (), put_v x v))"

definition guard_update :: "('a \<Rightarrow> 'a res) \<Rightarrow> ('a safe_var, unit) meth" where
  "guard_update f = (\<lambda>v. let v = check_v v in
     case f (cur v) of Inl e \<Rightarrow> (Inl e, v) | Inr x \<Rightarrow> (Inr (), put_v x (markAsUsed v)))"

section \<open>SafeBool and SafeAddress\<close>

definition SafeBool_make :: "bool \<Rightarrow> bool \<Rightarrow> bool safe_var" where
  "SafeBool_make owner value = new_var owner False value"

definition SafeBool_assign :: "bool \<Rightarrow> (bool safe_var, unit) meth" where
  "SafeBool_assign x = mark_update (\<lambda>_. Inr x)"

definition SafeBool_commit :: "bool safe_var \<Rightarrow> bool safe_var" where
  "SafeBool_commit v = commit_v v"

definition SafeBool_revert :: "bool safe_var \<Rightarrow> bool safe_var" where
  "SafeBool_revert v = revert_v v"

definition SafeAddress_make :: "bool \<Rightarrow> address \<Rightarrow> address safe_var" where
  "SafeAddress_make owner a = new_var owner zero_address a"

definition SafeAddress_assign :: "address \<Rightarrow> (address safe_var, unit) meth" where
  "SafeAddress_assign x = mark_update (\<lambda>_. Inr x)"

definition SafeAddress_eq :: "address safe_var \<Rightarrow> address \<Rightarrow> bool" where
  "SafeAddress_eq v other = (cur v = other)"

text \<open>These two do not reset \<^verbatim>\<open>registered_\<close>.\<close>

definition SafeAddress_commit :: "address safe_var \<Rightarrow> address safe_var" where
  "SafeAddress_commit v = (let v = check_v v in
     v\<lparr>sv_value := the (sv_ptr v), sv_ptr := None\<rparr>)"

definition SafeAddress_revert :: "address safe_var \<Rightarrow> address safe_var" where
  "SafeAddress_revert v = v\<lparr>sv_ptr := None\<rparr>"

section \<open>The call logger\<close>

text \<open>
  The destructor of \<^verbatim>\<open>ContractCallLogger\<close> walks its list of used variables from the back and
  commits or reverts each entry, then clears the list. A variable occurs in the list as often
  as it registered, and the entries of different variables do not interact, so the effect on
  one variable is the same call once for each of its entries.
\<close>

definition logger_commit :: "('a safe_var \<Rightarrow> 'a safe_var) \<Rightarrow> 'a safe_var \<Rightarrow> 'a safe_var" where
  "logger_commit commit v = (commit ^^ sv_uses v) v"

definition logger_revert :: "('a safe_var \<Rightarrow> 'a safe_var) \<Rightarrow> 'a safe_var \<Rightarrow> 'a safe_var" where
  "logger_revert revert v = (revert ^^ sv_uses v) v"

definition logger_end ::
  "('a safe_var \<Rightarrow> 'a safe_var) \<Rightarrow> ('a safe_var \<Rightarrow> 'a safe_var) \<Rightarrow> bool \<Rightarrow> 'a safe_var \<Rightarrow> 'a safe_var" where
  "logger_end commit revert commitCall v =
     (if commitCall then logger_commit commit v else logger_revert revert v)\<lparr>sv_uses := 0\<rparr>"

section \<open>The reentrancy guard\<close>

definition ReentrancyGuard_ctor :: "bool \<Rightarrow> bool res" where
  "ReentrancyGuard_ctor lock =
     (if lock then Inl (DynamicException ''ReentrancyGuard: reentrancy attack detected'')
      else Inr True)"

text \<open>
  A function body under the guard, on a state with a lock: when the constructor throws the
  destructor does not run; otherwise it runs however the body ends.
\<close>

definition guarded :: "('s \<Rightarrow> bool) \<Rightarrow> (bool \<Rightarrow> 's \<Rightarrow> 's) \<Rightarrow> ('s, 'a) meth \<Rightarrow> ('s, 'a) meth" where
  "guarded lock set_lock body = (\<lambda>s.
     case ReentrancyGuard_ctor (lock s) of
       Inl e \<Rightarrow> (Inl e, s)
     | Inr b \<Rightarrow> (case body (set_lock b s) of (r, s') \<Rightarrow> (r, set_lock False s')))"

section \<open>What an operator may do\<close>

text \<open>
  During a call a variable is read (which may set the pointer), registered, or written; a
  write always registers first.
\<close>

inductive var_step :: "'a safe_var \<Rightarrow> 'a safe_var \<Rightarrow> bool" where
  step_read: "var_step v (check_v v)"
| step_mark: "var_step v (markAsUsed (check_v v))"
| step_write: "var_step v (put_v x (markAsUsed (check_v v)))"

inductive_cases var_stepE: "var_step v w"

lemmas sv_defs = check_v_def markAsUsed_def cur_def commit_v_def revert_v_def put_v_def

lemma cur_check [simp]: "cur (check_v v) = cur v"
  by (simp add: sv_defs split: option.split)

lemma cur_mark [simp]: "cur (markAsUsed v) = cur v"
  by (simp add: sv_defs split: option.split)

lemma cur_put [simp]: "cur (put_v x v) = x"
  by (simp add: sv_defs)

lemma cur_uses [simp]: "cur (v\<lparr>sv_uses := n\<rparr>) = cur v"
  by (simp add: cur_def split: option.split)

lemma get_v_eq: "get_v v = (Inr (cur v), check_v v)"
  by (simp add: get_v_def sv_defs Let_def split: option.split)

lemma mark_update_step: "var_step v (snd (mark_update f v))"
  by (cases "f (cur v)") (simp_all add: mark_update_def Let_def var_step.intros)

lemma guard_update_step: "var_step v (snd (guard_update f v))"
  by (cases "f (cur v)") (simp_all add: guard_update_def Let_def var_step.intros)

lemma mark_update_result:
  "fst (mark_update f v) = bind_r (f (cur v)) (\<lambda>_. Inr ())"
  "cur (snd (mark_update f v)) = (case f (cur v) of Inl _ \<Rightarrow> cur v | Inr x \<Rightarrow> x)"
  by (cases "f (cur v)"; simp add: mark_update_def Let_def)+

lemma guard_update_result:
  "fst (guard_update f v) = bind_r (f (cur v)) (\<lambda>_. Inr ())"
  "cur (snd (guard_update f v)) = (case f (cur v) of Inl _ \<Rightarrow> cur v | Inr x \<Rightarrow> x)"
  by (cases "f (cur v)"; simp add: guard_update_def Let_def)+

section \<open>States between and within calls\<close>

text \<open>A variable whose registration is enabled, as it is between two calls.\<close>

definition enabled :: "'a safe_var \<Rightarrow> bool" where
  "enabled v = (sv_owner v \<and> sv_should v)"

definition clean :: "'a safe_var \<Rightarrow> bool" where
  "clean v = ((sv_ptr v = None \<or> sv_ptr v = Some (sv_value v)) \<and> \<not> sv_registered v \<and> sv_uses v = 0)"

definition in_call :: "'a safe_var \<Rightarrow> 'a safe_var \<Rightarrow> bool" where
  "in_call v0 v =
     (sv_value v = sv_value v0 \<and> enabled v \<and> sv_uses v = (if sv_registered v then 1 else 0)
      \<and> (\<not> sv_registered v \<longrightarrow> sv_ptr v = None \<or> sv_ptr v = Some (sv_value v)))"

lemma clean_in_call: "clean v \<Longrightarrow> enabled v \<Longrightarrow> in_call v v"
  by (simp add: clean_def in_call_def)

lemma clean_cur: "clean v \<Longrightarrow> cur v = sv_value v"
  by (auto simp: clean_def cur_def)

lemma var_step_in_call: "var_step v w \<Longrightarrow> in_call v0 v \<Longrightarrow> in_call v0 w"
  by (induction rule: var_step.induct)
    (auto simp: in_call_def enabled_def sv_defs split: option.splits if_splits)

lemma var_steps_in_call: "var_step\<^sup>*\<^sup>* v w \<Longrightarrow> in_call v0 v \<Longrightarrow> in_call v0 w"
  by (induction rule: rtranclp_induct) (auto intro: var_step_in_call)

section \<open>Runs of operations\<close>

text \<open>
  Runs of an object: a list of operations, each with its result; an exception ends its own
  operation only. The locale is the contract of an implementation against a specification:
  if every step agrees, so does every run.
\<close>

fun run_ops :: "('op \<Rightarrow> 's \<Rightarrow> 'r \<times> 's) \<Rightarrow> 'op list \<Rightarrow> 's \<Rightarrow> 'r list \<times> 's" where
  "run_ops step [] s = ([], s)"
| "run_ops step (x # xs) s =
     (case step x s of (r, s1) \<Rightarrow> case run_ops step xs s1 of (rs, s2) \<Rightarrow> (r # rs, s2))"

fun run_pre :: "('op \<Rightarrow> 's \<Rightarrow> 'r \<times> 's) \<Rightarrow> ('op \<Rightarrow> 's \<Rightarrow> bool) \<Rightarrow> 'op list \<Rightarrow> 's \<Rightarrow> bool" where
  "run_pre step pre [] s = True"
| "run_pre step pre (x # xs) s = (pre x s \<and> run_pre step pre xs (snd (step x s)))"

locale simulation =
  fixes cstep :: "'op \<Rightarrow> 's \<Rightarrow> 'r \<times> 's" and astep :: "'op \<Rightarrow> 'a \<Rightarrow> 'r \<times> 'a"
    and abst :: "'s \<Rightarrow> 'a" and inv :: "'s \<Rightarrow> bool" and pre :: "'op \<Rightarrow> 's \<Rightarrow> bool"
  assumes step_inv: "inv s \<Longrightarrow> pre x s \<Longrightarrow> inv (snd (cstep x s))"
    and step_sim: "inv s \<Longrightarrow> pre x s \<Longrightarrow> astep x (abst s) = (fst (cstep x s), abst (snd (cstep x s)))"
begin

lemma run_sim:
  "inv s \<Longrightarrow> run_pre cstep pre xs s \<Longrightarrow>
   inv (snd (run_ops cstep xs s)) \<and>
   run_ops astep xs (abst s) = (fst (run_ops cstep xs s), abst (snd (run_ops cstep xs s)))"
proof (induction xs arbitrary: s)
  case (Cons x xs)
  then show ?case using step_inv[of s x] step_sim[of s x] by (simp add: split_def)
qed simp

end

section \<open>The contract of commit and revert\<close>

locale safe_cell =
  fixes commit revert :: "'a safe_var \<Rightarrow> 'a safe_var"
  assumes commit_value: "sv_value (commit v) = cur v" "sv_ptr (commit v) = None \<or> sv_ptr (commit v) = Some (cur v)"
    and revert_value: "sv_value (revert v) = sv_value v" "sv_ptr (revert v) = None"
    and commit_frame: "sv_owner (commit v) = sv_owner v" "sv_should (commit v) = sv_should v"
    and revert_frame: "sv_owner (revert v) = sv_owner v" "sv_should (revert v) = sv_should v"
begin

abbreviation end_call :: "bool \<Rightarrow> 'a safe_var \<Rightarrow> 'a safe_var" where
  "end_call \<equiv> logger_end commit revert"

lemmas end_call_defs = logger_end_def logger_commit_def logger_revert_def

lemma cur_commit: "cur (commit v) = cur v"
  using commit_value[of v] by (auto simp: cur_def[of "commit v"])

lemma cur_revert: "cur (revert v) = sv_value v"
  using revert_value[of v] by (simp add: cur_def)

lemma cur_end:
  assumes "in_call v0 v"
  shows "cur (end_call True v) = cur v" "cur (end_call False v) = sv_value v0"
proof -
  show "cur (end_call True v) = cur v"
    using assms by (cases "sv_registered v") (simp_all add: end_call_defs in_call_def cur_commit)
  show "cur (end_call False v) = sv_value v0"
    using assms by (cases "sv_registered v") (auto simp: end_call_defs in_call_def cur_revert cur_def[of v])
qed

end

text \<open>A cell that also unregisters, so that the next call starts afresh.\<close>

locale safe_cell_unreg = safe_cell +
  assumes unregister: "\<not> sv_registered (commit v)" "\<not> sv_registered (revert v)"
begin

lemma end_call_clean:
  assumes "in_call v0 v"
  shows "clean (end_call b v) \<and> enabled (end_call b v)"
  using assms
  by (cases "sv_registered v")
    (auto simp: end_call_defs in_call_def clean_def enabled_def commit_value revert_value
      commit_frame revert_frame unregister)

lemma call_atomic:
  assumes "clean v0" "enabled v0" "var_step\<^sup>*\<^sup>* v0 v"
  shows "clean (end_call b v) \<and> enabled (end_call b v)
    \<and> cur (end_call b v) = (if b then cur v else cur v0)"
proof -
  have "in_call v0 v" using var_steps_in_call[OF assms(3)] clean_in_call[OF assms(1,2)] .
  then show ?thesis using cur_end end_call_clean clean_cur[OF assms(1)] by (cases b) auto
qed

text \<open>The end of a call in terms of the committed and the current value.\<close>

lemma end_call_sim:
  assumes "in_call v v"
  shows "in_call (end_call b v) (end_call b v)" "cur (end_call b v) = (if b then cur v else sv_value v)"
    "sv_value (end_call b v) = cur (end_call b v)"
proof -
  have c: "clean (end_call b v) \<and> enabled (end_call b v)" by (rule end_call_clean[OF assms])
  then show "in_call (end_call b v) (end_call b v)" by (simp add: clean_in_call)
  show "cur (end_call b v) = (if b then cur v else sv_value v)" using cur_end[OF assms] by simp
  show "sv_value (end_call b v) = cur (end_call b v)" using clean_cur c by metis
qed

text \<open>The states a variable can reach by whole calls.\<close>

inductive calls :: "'a safe_var \<Rightarrow> 'a safe_var \<Rightarrow> bool" where
  none: "calls v v"
| call: "calls v0 v \<Longrightarrow> var_step\<^sup>*\<^sup>* v w \<Longrightarrow> calls v0 (end_call b w)"

lemma calls_clean: "calls v0 v \<Longrightarrow> clean v0 \<Longrightarrow> enabled v0 \<Longrightarrow> clean v \<and> enabled v"
  by (induction rule: calls.induct) (auto dest: call_atomic)

end

interpretation var_cell: safe_cell_unreg commit_v revert_v
  by unfold_locales (simp_all add: sv_defs Let_def split: option.split)

interpretation bool_cell: safe_cell_unreg SafeBool_commit SafeBool_revert
  by unfold_locales
    (simp_all add: SafeBool_commit_def SafeBool_revert_def sv_defs Let_def split: option.split)

interpretation address_cell: safe_cell SafeAddress_commit SafeAddress_revert
  by unfold_locales
    (simp_all add: SafeAddress_commit_def SafeAddress_revert_def sv_defs Let_def split: option.split)

section \<open>Properties\<close>

text \<open>
  Calls are atomic for the safe variables that unregister (the number types and
  \<^verbatim>\<open>SafeBool\<close>): from a clean enabled variable, whatever sequence of reads and writes a call
  makes, ending it with a revert restores the value from before the call, ending it with a
  commit keeps the last value, and either way the variable is clean again.
\<close>
theorem safe_var_call_atomic:
  assumes "clean v0" "enabled v0" "var_step\<^sup>*\<^sup>* v0 v"
  shows "cur (logger_end commit_v revert_v False v) = cur v0
    \<and> cur (logger_end commit_v revert_v True v) = cur v
    \<and> clean (logger_end commit_v revert_v b v) \<and> enabled (logger_end commit_v revert_v b v)"
  using var_cell.call_atomic[OF assms] by (metis (full_types))

theorem safe_var_call_atomic_witness:
  "cur (logger_end commit_v revert_v False (put_v 9 (markAsUsed (check_v
     \<lparr>sv_value = 7 :: nat, sv_ptr = None, sv_owner = True, sv_registered = False,
       sv_should = True, sv_uses = 0\<rparr>)))) = 7"
  (is "cur (_ (put_v 9 (markAsUsed (check_v ?v)))) = 7")
proof -
  have "var_step\<^sup>*\<^sup>* ?v (put_v 9 (markAsUsed (check_v ?v)))" by (blast intro: var_step.step_write)
  moreover have "clean ?v" "enabled ?v" "cur ?v = 7" by (simp_all add: clean_def enabled_def cur_def)
  ultimately show ?thesis using safe_var_call_atomic[of ?v] by (metis (full_types))
qed

text \<open>
  \<^verbatim>\<open>SafeAddress\<close> is atomic for one call but not for the next: commit and revert
  leave it registered, so after a call that wrote it, a write of the following call is not
  registered any more and a revert of that call does not undo it.
\<close>
theorem SafeAddress_second_revert_lost:
  assumes "clean v0" "enabled v0"
  shows "let call = (\<lambda>x b v. logger_end SafeAddress_commit SafeAddress_revert b (snd (SafeAddress_assign x v)))
    in cur (call x False v0) = cur v0 \<and> cur (call x True v0) = x
       \<and> cur (call y False (call x b v0)) = y"
proof -
  obtain a p where v0: "v0 = \<lparr>sv_value = a, sv_ptr = p, sv_owner = True, sv_registered = False,
      sv_should = True, sv_uses = 0\<rparr>" and p: "p = None \<or> p = Some a"
    using assms by (cases v0) (simp add: clean_def enabled_def)
  note defs = SafeAddress_assign_def mark_update_def SafeAddress_commit_def SafeAddress_revert_def
      logger_end_def logger_commit_def logger_revert_def sv_defs
  from p show ?thesis
  proof
    assume "p = None"
    then show ?thesis by (cases b) (simp_all add: v0 Let_def defs)
  next
    assume "p = Some a"
    then show ?thesis by (cases b) (simp_all add: v0 Let_def defs)
  qed
qed

theorem SafeAddress_second_revert_lost_witness:
  "cur (logger_end SafeAddress_commit SafeAddress_revert False (snd (SafeAddress_assign [2]
     (logger_end SafeAddress_commit SafeAddress_revert True (snd (SafeAddress_assign [1]
     \<lparr>sv_value = zero_address, sv_ptr = None, sv_owner = True, sv_registered = False,
       sv_should = True, sv_uses = 0\<rparr>)))))) = [2]"
  using SafeAddress_second_revert_lost[of
      "\<lparr>sv_value = zero_address, sv_ptr = None, sv_owner = True, sv_registered = False,
       sv_should = True, sv_uses = 0\<rparr>" "[1]" "[2]" True]
  by (simp add: clean_def enabled_def Let_def)

end
