(* ===== verification/Safe_Uint.thy ===== *)
theory Safe_Uint
  imports Safe_Base
begin

text \<open>
  The unsigned safe integers \<^verbatim>\<open>SafeUint_t<Size>\<close> of
  \<^verbatim>\<open>src/src/contract/variables/safeuint.h\<close>. The size is an argument \<open>n\<close>; the value type is
  native for 8, 16, 32 and 64 bits and a checked number otherwise. Each operator is one
  definition over an operand type with a constructor for each overload; an overload taken
  only for a 64-bit operand of another size has a definition of its own. The shift operators
  are not modelled.
\<close>

section \<open>The value type\<close>

definition native_size :: "nat \<Rightarrow> bool" where
  "native_size n = (n \<in> {8, 16, 32, 64})"

definition uint_max :: "nat \<Rightarrow> nat" where
  "uint_max n = 2 ^ n - 1"

text \<open>
  A conversion to \<^verbatim>\<open>uint_t\<close>: modulo the size for a native type, checked otherwise.
\<close>

definition to_uint :: "nat \<Rightarrow> int \<Rightarrow> nat res" where
  "to_uint n k = (if native_size n then Inr (nat (k mod 2 ^ n))
     else if 0 \<le> k \<and> k < 2 ^ n then Inr (nat k) else Inl BoostError)"

text \<open>
  \<^verbatim>\<open>std::numeric_limits<uint_t>::max() - k\<close> for an \<^verbatim>\<open>int\<close>. The small native types are promoted
  and the larger ones hold every \<^verbatim>\<open>int\<close>, so the difference is exact; a checked type throws
  when it would be negative.
\<close>

definition max_minus :: "nat \<Rightarrow> int \<Rightarrow> int res" where
  "max_minus n k = (if native_size n \<or> k \<le> int (uint_max n) then Inr (int (uint_max n) - k)
     else Inl BoostError)"

datatype operand =
    OpSafe nat
  | OpUint nat
  | OpInt int

text \<open>The operand of an overload with \<^verbatim>\<open>int\<close> is a 32-bit signed integer, the others fit the type.\<close>

fun operand_ok :: "nat \<Rightarrow> operand \<Rightarrow> bool" where
  "operand_ok n (OpSafe v) = (v < 2 ^ n)"
| "operand_ok n (OpUint v) = (v < 2 ^ n)"
| "operand_ok n (OpInt k) = (- (2 ^ 31) \<le> k \<and> k < 2 ^ 31)"

fun operand_val :: "operand \<Rightarrow> int" where
  "operand_val (OpSafe v) = int v"
| "operand_val (OpUint v) = int v"
| "operand_val (OpInt k) = k"

section \<open>Arithmetic\<close>

text \<open>\<^verbatim>\<open>-other\<close> of the smallest \<^verbatim>\<open>int\<close> overflows, which is undefined.\<close>

definition neg_int :: "int \<Rightarrow> int res" where
  "neg_int k = (if k = - (2 ^ 31) then Inl UndefinedBehaviour else Inr (- k))"

fun uint_add :: "nat \<Rightarrow> nat \<Rightarrow> operand \<Rightarrow> nat res" where
  "uint_add n v (OpSafe w) =
     (if v > uint_max n - w then Inl OverflowError else to_uint n (int v + int w))"
| "uint_add n v (OpUint w) =
     (if v > uint_max n - w then Inl OverflowError else to_uint n (int v + int w))"
| "uint_add n v (OpInt k) =
     bind_r
       (if k < 0 then bind_r (neg_int k) (\<lambda>m. bind_r (to_uint n m) (\<lambda>c.
           throw_if (v < c) UnderflowError))
        else bind_r (max_minus n k) (\<lambda>d. throw_if (int v > d) OverflowError))
       (\<lambda>_. to_uint n (int v + k))"

fun uint_sub :: "nat \<Rightarrow> nat \<Rightarrow> operand \<Rightarrow> nat res" where
  "uint_sub n v (OpSafe w) = (if v < w then Inl UnderflowError else to_uint n (int v - int w))"
| "uint_sub n v (OpUint w) = (if v < w then Inl UnderflowError else to_uint n (int v - int w))"
| "uint_sub n v (OpInt k) =
     bind_r
       (if k > 0 then bind_r (to_uint n k) (\<lambda>c. throw_if (v < c) UnderflowError)
        else bind_r (max_minus n (- k)) (\<lambda>d. throw_if (int v > d) OverflowError))
       (\<lambda>_. to_uint n (int v - k))"

fun uint_mul :: "nat \<Rightarrow> nat \<Rightarrow> operand \<Rightarrow> nat res" where
  "uint_mul n v (OpSafe w) =
     (if w = 0 \<or> v = 0 then Inl DomainError
      else if v > uint_max n div w then Inl OverflowError else to_uint n (int v * int w))"
| "uint_mul n v (OpUint w) =
     (if w = 0 \<or> v = 0 then Inl DomainError
      else if v > uint_max n div w then Inl OverflowError else to_uint n (int v * int w))"
| "uint_mul n v (OpInt k) =
     (if k = 0 \<or> v = 0 then Inl DomainError
      else if k < 0 then Inl UnderflowError
      else if int v > int (uint_max n) div k then Inl OverflowError else to_uint n (int v * k))"

fun uint_div :: "nat \<Rightarrow> nat \<Rightarrow> operand \<Rightarrow> nat res" where
  "uint_div n v (OpSafe w) = (if v = 0 \<or> w = 0 then Inl DomainError else Inr (v div w))"
| "uint_div n v (OpUint w) = (if v = 0 \<or> w = 0 then Inl DomainError else Inr (v div w))"
| "uint_div n v (OpInt k) =
     (if k = 0 then Inl DomainError else if k < 0 then Inl DomainError else Inr (v div nat k))"

text \<open>A native remainder by zero is undefined.\<close>

fun uint_mod :: "nat \<Rightarrow> nat \<Rightarrow> operand \<Rightarrow> nat res" where
  "uint_mod n v (OpSafe w) = (if v = 0 \<or> w = 0 then Inl DomainError else Inr (v mod w))"
| "uint_mod n v (OpUint w) = (if v = 0 \<or> w = 0 then Inl DomainError else Inr (v mod w))"
| "uint_mod n v (OpInt k) =
     (if v = 0 \<or> k = 0 then Inl DomainError
      else bind_r (to_uint n k) (\<lambda>c. if c = 0 then Inl UndefinedBehaviour else Inr (v mod c)))"

section \<open>Bitwise and logical operators\<close>

definition uint_bitwise :: "(nat \<Rightarrow> nat \<Rightarrow> nat) \<Rightarrow> cpp_error \<Rightarrow> nat \<Rightarrow> nat \<Rightarrow> operand \<Rightarrow> nat res" where
  "uint_bitwise f e n v other = (case other of
     OpSafe w \<Rightarrow> Inr (f v w)
   | OpUint w \<Rightarrow> Inr (f v w)
   | OpInt k \<Rightarrow> if k < 0 then Inl e else bind_r (to_uint n k) (\<lambda>c. Inr (f v c)))"

definition uint_and :: "nat \<Rightarrow> nat \<Rightarrow> operand \<Rightarrow> nat res" where
  "uint_and n v other = uint_bitwise (AND) DomainError n v other"

definition uint_or :: "nat \<Rightarrow> nat \<Rightarrow> operand \<Rightarrow> nat res" where
  "uint_or n v other = uint_bitwise (OR) DomainError n v other"

definition uint_xor :: "nat \<Rightarrow> nat \<Rightarrow> operand \<Rightarrow> nat res" where
  "uint_xor n v other = uint_bitwise (XOR) DomainError n v other"

definition uint_not :: "nat \<Rightarrow> bool" where "uint_not v = (v = 0)"
definition uint_land :: "nat \<Rightarrow> nat \<Rightarrow> bool" where "uint_land v w = (v \<noteq> 0 \<and> w \<noteq> 0)"
definition uint_lor :: "nat \<Rightarrow> nat \<Rightarrow> bool" where "uint_lor v w = (v \<noteq> 0 \<or> w \<noteq> 0)"

fun uint_eq :: "nat \<Rightarrow> nat \<Rightarrow> operand \<Rightarrow> bool res" where
  "uint_eq n v (OpSafe w) = Inr (v = w)"
| "uint_eq n v (OpUint w) = Inr (v = w)"
| "uint_eq n v (OpInt k) = (if k < 0 then Inr False else bind_r (to_uint n k) (\<lambda>c. Inr (v = c)))"

definition uint_ne :: "nat \<Rightarrow> nat \<Rightarrow> bool" where "uint_ne v w = (v \<noteq> w)"
definition uint_lt :: "nat \<Rightarrow> nat \<Rightarrow> bool" where "uint_lt v w = (v < w)"
definition uint_le :: "nat \<Rightarrow> nat \<Rightarrow> bool" where "uint_le v w = (v \<le> w)"
definition uint_gt :: "nat \<Rightarrow> nat \<Rightarrow> bool" where "uint_gt v w = (v > w)"
definition uint_ge :: "nat \<Rightarrow> nat \<Rightarrow> bool" where "uint_ge v w = (v \<ge> w)"

section \<open>Assignment\<close>

text \<open>The construction, copy and end of a call are those of the generic safe variable.\<close>

definition SafeUint_make :: "bool \<Rightarrow> nat \<Rightarrow> nat safe_var" where
  "SafeUint_make owner x = new_var owner 0 x"

definition uint_assign :: "nat \<Rightarrow> operand \<Rightarrow> (nat safe_var, unit) meth" where
  "uint_assign n other = (\<lambda>v. case other of
     OpSafe w \<Rightarrow> mark_update (\<lambda>_. Inr w) v
   | OpUint w \<Rightarrow> mark_update (\<lambda>_. Inr w) v
   | OpInt k \<Rightarrow> if k < 0 then (Inl DomainError, check_v v) else mark_update (\<lambda>_. to_uint n k) v)"

fun add_assign_val :: "nat \<Rightarrow> operand \<Rightarrow> nat \<Rightarrow> nat res" where
  "add_assign_val n (OpSafe w) v =
     (if v > uint_max n - w then Inl OverflowError else to_uint n (int v + int w))"
| "add_assign_val n (OpUint w) v =
     (if v > uint_max n - w then Inl OverflowError else to_uint n (int v + int w))"
| "add_assign_val n (OpInt k) v =
     (if k < 0 \<or> nat k > uint_max n - v then Inl OverflowError
      else bind_r (to_uint n k) (\<lambda>c. to_uint n (int v + int c)))"

definition uint_add_assign :: "nat \<Rightarrow> operand \<Rightarrow> (nat safe_var, unit) meth" where
  "uint_add_assign n other = mark_update (add_assign_val n other)"

text \<open>
  The overload for a \<^verbatim>\<open>uint64_t\<close> operand of another size. For the native sizes below 64 the
  bound is computed in 64 bits and wraps.
\<close>

definition add_assign_u64_val :: "nat \<Rightarrow> nat \<Rightarrow> nat \<Rightarrow> nat res" where
  "add_assign_u64_val n w v =
     (if native_size n
      then if int v > (int (uint_max n) - int w) mod 2 ^ 64 then Inl OverflowError
           else to_uint n (int v + int w)
      else bind_r (max_minus n (int w)) (\<lambda>d.
           if int v > d then Inl OverflowError else to_uint n (int v + int w)))"

definition uint_add_assign_u64 :: "nat \<Rightarrow> nat \<Rightarrow> (nat safe_var, unit) meth" where
  "uint_add_assign_u64 n w = mark_update (add_assign_u64_val n w)"

fun sub_assign_val :: "nat \<Rightarrow> operand \<Rightarrow> nat \<Rightarrow> nat res" where
  "sub_assign_val n (OpSafe w) v = (if v < w then Inl UnderflowError else to_uint n (int v - int w))"
| "sub_assign_val n (OpUint w) v = (if v < w then Inl UnderflowError else to_uint n (int v - int w))"
| "sub_assign_val n (OpInt k) v =
     (if k < 0 then Inl InvalidArgument
      else bind_r (to_uint n k) (\<lambda>c.
        if v < c then Inl UnderflowError else to_uint n (int v - int c)))"

definition uint_sub_assign :: "nat \<Rightarrow> operand \<Rightarrow> (nat safe_var, unit) meth" where
  "uint_sub_assign n other = mark_update (sub_assign_val n other)"

fun mul_assign_val :: "nat \<Rightarrow> operand \<Rightarrow> nat \<Rightarrow> nat res" where
  "mul_assign_val n (OpSafe w) v =
     (if w = 0 \<or> v = 0 then Inl DomainError
      else if v > uint_max n div w then Inl OverflowError else to_uint n (int v * int w))"
| "mul_assign_val n (OpUint w) v =
     (if w = 0 \<or> v = 0 then Inl DomainError
      else if v > uint_max n div w then Inl OverflowError else to_uint n (int v * int w))"
| "mul_assign_val n (OpInt k) v =
     (if k < 0 then Inl InvalidArgument
      else if k = 0 \<or> v = 0 then Inl DomainError
      else bind_r (to_uint n k) (\<lambda>c.
        if c = 0 then Inl UndefinedBehaviour
        else if v > uint_max n div c then Inl OverflowError else to_uint n (int v * int c)))"

definition uint_mul_assign :: "nat \<Rightarrow> operand \<Rightarrow> (nat safe_var, unit) meth" where
  "uint_mul_assign n other = mark_update (mul_assign_val n other)"

fun div_assign_val :: "nat \<Rightarrow> operand \<Rightarrow> nat \<Rightarrow> nat res" where
  "div_assign_val n (OpSafe w) v = (if v = 0 \<or> w = 0 then Inl DomainError else Inr (v div w))"
| "div_assign_val n (OpUint w) v = (if v = 0 \<or> w = 0 then Inl DomainError else Inr (v div w))"
| "div_assign_val n (OpInt k) v =
     (if k \<le> 0 then Inl InvalidArgument
      else if v = 0 then Inl DomainError
      else bind_r (to_uint n k) (\<lambda>c. if c = 0 then Inl UndefinedBehaviour else Inr (v div c)))"

definition uint_div_assign :: "nat \<Rightarrow> operand \<Rightarrow> (nat safe_var, unit) meth" where
  "uint_div_assign n other = mark_update (div_assign_val n other)"

fun mod_assign_val :: "nat \<Rightarrow> operand \<Rightarrow> nat \<Rightarrow> nat res" where
  "mod_assign_val n (OpSafe w) v = (if v = 0 \<or> w = 0 then Inl DomainError else Inr (v mod w))"
| "mod_assign_val n (OpUint w) v = (if v = 0 \<or> w = 0 then Inl DomainError else Inr (v mod w))"
| "mod_assign_val n (OpInt k) v =
     (if k \<le> 0 then Inl InvalidArgument
      else if v = 0 then Inl DomainError
      else bind_r (to_uint n k) (\<lambda>c. if c = 0 then Inl UndefinedBehaviour else Inr (v mod c)))"

definition uint_mod_assign :: "nat \<Rightarrow> operand \<Rightarrow> (nat safe_var, unit) meth" where
  "uint_mod_assign n other = mark_update (mod_assign_val n other)"

definition uint_and_assign :: "nat \<Rightarrow> operand \<Rightarrow> (nat safe_var, unit) meth" where
  "uint_and_assign n other = mark_update (\<lambda>v. uint_bitwise (AND) InvalidArgument n v other)"

definition uint_or_assign :: "nat \<Rightarrow> operand \<Rightarrow> (nat safe_var, unit) meth" where
  "uint_or_assign n other = mark_update (\<lambda>v. uint_bitwise (OR) InvalidArgument n v other)"

definition uint_xor_assign :: "nat \<Rightarrow> operand \<Rightarrow> (nat safe_var, unit) meth" where
  "uint_xor_assign n other = mark_update (\<lambda>v. uint_bitwise (XOR) InvalidArgument n v other)"

section \<open>Increment and decrement\<close>

definition uint_pre_inc :: "nat \<Rightarrow> (nat safe_var, unit) meth" where
  "uint_pre_inc n = mark_update (\<lambda>v. if v = uint_max n then Inl OverflowError else to_uint n (int v + 1))"

definition uint_post_inc :: "nat \<Rightarrow> (nat safe_var, nat) meth" where
  "uint_post_inc n = (\<lambda>v. let old = cur v in
     bind_m (mark_update (\<lambda>v. if v = uint_max n then Inl OverflowError else to_uint n (int v + 1)))
       (\<lambda>_. ret_m old) v)"

definition uint_pre_dec :: "nat \<Rightarrow> (nat safe_var, unit) meth" where
  "uint_pre_dec n = mark_update (\<lambda>v. if v = 0 then Inl UnderflowError else to_uint n (int v - 1))"

definition uint_post_dec :: "nat \<Rightarrow> (nat safe_var, nat) meth" where
  "uint_post_dec n = (\<lambda>v. let old = cur v in
     bind_m (mark_update (\<lambda>v. if v = 0 then Inl UnderflowError else to_uint n (int v - 1)))
       (\<lambda>_. ret_m old) v)"


section \<open>Lemmas\<close>

lemma le_uint_max: "v \<le> uint_max n \<longleftrightarrow> v < 2 ^ n"
  by (simp add: uint_max_def Suc_le_eq flip: less_Suc_eq_le)

lemma int_uint_max: "int (uint_max n) = 2 ^ n - 1"
  by (simp add: uint_max_def of_nat_diff)

lemma to_uint_exact [simp]: "0 \<le> k \<Longrightarrow> k < 2 ^ n \<Longrightarrow> to_uint n k = Inr (nat k)"
  by (simp add: to_uint_def)

lemma to_uint_bound: "to_uint n k = Inr r \<Longrightarrow> r < 2 ^ n"
  by (auto simp: to_uint_def nat_less_iff split: if_splits)

lemma to_uint_nat: "v < 2 ^ n \<Longrightarrow> to_uint n (int v) = Inr v"
  using to_uint_exact[of "int v" n] by simp

lemma to_uint_fits:
  "\<not> native_size n \<or> w < 2 ^ n \<Longrightarrow>
   to_uint n (int w) = (if w < 2 ^ n then Inr w else Inl BoostError)"
  by (auto simp: to_uint_def to_uint_nat)

text \<open>An \<^verbatim>\<open>int\<close> that the value type can hold, or a type whose conversions are checked.\<close>

definition int_fits :: "nat \<Rightarrow> operand \<Rightarrow> bool" where
  "int_fits n other = (\<not> native_size n \<or> \<bar>operand_val other\<bar> < 2 ^ n)"

lemma add_guard: "w < 2 ^ n \<Longrightarrow> v > uint_max n - w \<longleftrightarrow> \<not> v + w < 2 ^ n"
  using le_uint_max[of w n] le_uint_max[of "v + w" n] by linarith

lemma add_checked:
  assumes "w < 2 ^ n"
  shows "(if v > uint_max n - w then Inl OverflowError else to_uint n (int v + int w)) = 
    (if v + w < 2 ^ n then Inr (v + w) else Inl OverflowError)"
  using add_guard[OF assms, of v] to_uint_nat[of "v + w" n] by simp

lemma sub_checked:
  assumes "v < 2 ^ n"
  shows "(if v < w then Inl UnderflowError else to_uint n (int v - int w)) = 
    (if w \<le> v then Inr (v - w) else Inl UnderflowError)"
proof (cases "w \<le> v")
  case True
  have "v - w < 2 ^ n" using assms by simp
  then have "to_uint n (int v - int w) = Inr (v - w)"
    using to_uint_nat[of "v - w" n] by (simp only: of_nat_diff[OF True])
  with True show ?thesis by simp
qed simp

lemma mul_checked:
  assumes "w \<noteq> 0"
  shows "(if v > uint_max n div w then Inl OverflowError else to_uint n (int v * int w)) =
    (if v * w < 2 ^ n then Inr (v * w) else Inl OverflowError)"
proof -
  have "v \<le> uint_max n div w \<longleftrightarrow> v * w < 2 ^ n"
    using assms less_eq_div_iff_mult_less_eq[of w v "uint_max n"] by (simp add: le_uint_max)
  then show ?thesis using to_uint_nat[of "v * w" n] by auto
qed

lemma uint_add_exact:
  assumes "v < 2 ^ n" "operand_ok n other" "int_fits n other" "other \<noteq> OpInt (- (2 ^ 31))"
  shows "uint_add n v other = Inr r \<longleftrightarrow>
    int r = int v + operand_val other \<and> int v + operand_val other < 2 ^ n"
proof (cases other)
  case (OpInt k)
  have v: "int v < 2 ^ n" using assms(1) by simp
  show ?thesis
  proof (cases "k < 0")
    case True
    then obtain w where k: "k = - int w" by (metis int_cases2 neg_0_le_iff_le not_le of_nat_0_le_iff)
    have fits: "to_uint n (int w) = (if w < 2 ^ n then Inr w else Inl BoostError)"
      using assms(3) OpInt k by (intro to_uint_fits) (simp add: int_fits_def)
    have "int v - int w < 2 ^ n" using v by linarith
    then show ?thesis
      using sub_checked[OF assms(1), of w] True assms(1,4) OpInt fits
      by (auto simp: k neg_int_def of_nat_diff split: if_splits)
  next
    case False
    have "int v > int (uint_max n) - k \<longleftrightarrow> \<not> int v + k < 2 ^ n" unfolding int_uint_max by linarith
    then show ?thesis
      using False OpInt v by (auto simp: max_minus_def int_uint_max)
  qed
next
  case (OpSafe w)
  then show ?thesis using assms(2) add_checked[of w n v] by (auto simp flip: of_nat_add)
next
  case (OpUint w)
  then show ?thesis using assms(2) add_checked[of w n v] by (auto simp flip: of_nat_add)
qed

lemma uint_sub_exact:
  assumes "v < 2 ^ n" "operand_ok n other" "int_fits n other"
  shows "uint_sub n v other = Inr r \<longleftrightarrow>
    int r = int v - operand_val other \<and> int v - operand_val other < 2 ^ n"
proof -
  have v: "int v < 2 ^ n" using assms(1) by simp
  show ?thesis
proof (cases other)
  case (OpInt k)
  show ?thesis
  proof (cases "k > 0")
    case True
    then obtain w where k: "k = int w" by (metis nonneg_int_cases less_imp_le)
    have fits: "to_uint n (int w) = (if w < 2 ^ n then Inr w else Inl BoostError)"
      using assms(3) OpInt k by (intro to_uint_fits) (simp add: int_fits_def)
    have "int v - int w < 2 ^ n" using v by linarith
    then show ?thesis
      using sub_checked[OF assms(1), of w] True assms(1) OpInt fits
      by (auto simp: k of_nat_diff split: if_splits)
  next
    case False
    have "int v > int (uint_max n) - - k \<longleftrightarrow> \<not> int v - k < 2 ^ n" unfolding int_uint_max by linarith
    then show ?thesis
      using False OpInt v by (auto simp: max_minus_def int_uint_max)
  qed
next
  case (OpSafe w)
  have "int v - int w < 2 ^ n" using v by linarith
  with OpSafe show ?thesis using assms(1) sub_checked[of v n w] by (auto simp: of_nat_diff)
next
  case (OpUint w)
  have "int v - int w < 2 ^ n" using v by linarith
  with OpUint show ?thesis using assms(1) sub_checked[of v n w] by (auto simp: of_nat_diff)
qed
qed

lemma uint_mul_exact:
  shows "uint_mul n v other = Inr r \<longleftrightarrow>
    v \<noteq> 0 \<and> 0 < operand_val other \<and> int r = int v * operand_val other \<and> int v * operand_val other < 2 ^ n"
proof (cases other)
  case (OpInt k)
  show ?thesis
  proof (cases "0 < k")
    case True
    then obtain w where w: "k = int w" "w \<noteq> 0" by (metis gr0_conv_Suc nat_0_le of_nat_0_less_iff order_less_imp_le not_gr_zero)
    have "uint_mul n v other = (if v = 0 then Inl DomainError else if v * w < 2 ^ n then Inr (v * w) else Inl OverflowError)"
      using mul_checked[OF w(2), of n v] w OpInt by (auto simp flip: of_nat_div)
    then show ?thesis using OpInt w by (auto simp flip: of_nat_mult)
  qed (auto simp: OpInt)
next
  case (OpSafe w)
  then show ?thesis using mul_checked[of w n v] by (auto simp flip: of_nat_mult)
next
  case (OpUint w)
  then show ?thesis using mul_checked[of w n v] by (auto simp flip: of_nat_mult)
qed


section \<open>Bounds\<close>

lemma nat_bitwise_bound:
  assumes "a < 2 ^ n" "b < (2 :: nat) ^ n"
  shows "a AND b < 2 ^ n" "a OR b < 2 ^ n" "a XOR b < 2 ^ n"
proof -
  have "take_bit n a = a" "take_bit n b = b" using assms by (simp_all add: take_bit_nat_eq_self_iff)
  then have "take_bit n (a AND b) = a AND b" "take_bit n (a OR b) = a OR b"
    "take_bit n (a XOR b) = a XOR b" by (simp_all add: take_bit_and take_bit_or take_bit_xor)
  then show "a AND b < 2 ^ n" "a OR b < 2 ^ n" "a XOR b < 2 ^ n"
    by (simp_all only: take_bit_nat_eq_self_iff)
qed

lemma div_mod_bound: "v < (2 :: nat) ^ n \<Longrightarrow> v div c < 2 ^ n" "v < (2 :: nat) ^ n \<Longrightarrow> v mod c < 2 ^ n"
  by (meson div_le_dividend order_le_less_trans, meson mod_less_eq_dividend order_le_less_trans)

lemma assign_val_bounds:
  assumes "v < 2 ^ n"
  shows "add_assign_val n other v = Inr r \<Longrightarrow> r < 2 ^ n"
    "sub_assign_val n other v = Inr r \<Longrightarrow> r < 2 ^ n"
    "mul_assign_val n other v = Inr r \<Longrightarrow> r < 2 ^ n"
    "div_assign_val n other v = Inr r \<Longrightarrow> r < 2 ^ n"
    "mod_assign_val n other v = Inr r \<Longrightarrow> r < 2 ^ n"
    "add_assign_u64_val n w v = Inr r \<Longrightarrow> r < 2 ^ n"
  using assms
  by (cases other; auto simp: bind_r_eq_Inr add_assign_u64_val_def to_uint_bound div_mod_bound
      split: if_splits)+

lemma bitwise_bounds:
  assumes "v < 2 ^ n" "operand_ok n other" "\<And>a b. a < 2 ^ n \<Longrightarrow> b < 2 ^ n \<Longrightarrow> f a b < 2 ^ n"
  shows "uint_bitwise f e n v other = Inr r \<Longrightarrow> r < 2 ^ n"
  using assms by (cases other)
    (auto simp: uint_bitwise_def bind_r_eq_Inr dest: to_uint_bound split: if_splits)

lemma mark_update_bound:
  assumes "cur v < 2 ^ n" "\<And>r. f (cur v) = Inr r \<Longrightarrow> r < 2 ^ n"
  shows "cur (snd (mark_update f v)) < 2 ^ n"
  using assms by (cases "f (cur v)") (simp_all add: mark_update_result)

lemma mark_update_failed:
  "fst (mark_update f v) = Inl e \<Longrightarrow> cur (snd (mark_update f v)) = cur v"
  by (cases "f (cur v)") (simp_all add: mark_update_result)

text \<open>The operators that change the variable.\<close>

definition uint_methods :: "nat \<Rightarrow> operand \<Rightarrow> nat \<Rightarrow> (nat safe_var, unit) meth list" where
  "uint_methods n other w =
     [uint_assign n other, uint_add_assign n other, uint_add_assign_u64 n w, uint_sub_assign n other,
      uint_mul_assign n other, uint_div_assign n other, uint_mod_assign n other,
      uint_and_assign n other, uint_or_assign n other, uint_xor_assign n other,
      uint_pre_inc n, uint_pre_dec n]"

lemmas uint_method_defs = uint_add_assign_def uint_add_assign_u64_def uint_sub_assign_def
  uint_mul_assign_def uint_div_assign_def uint_mod_assign_def uint_and_assign_def
  uint_or_assign_def uint_xor_assign_def uint_pre_inc_def uint_pre_dec_def

text \<open>All but the first are a \<open>mark_update\<close> of one of these functions of the value.\<close>

definition uint_vals :: "nat \<Rightarrow> operand \<Rightarrow> nat \<Rightarrow> (nat \<Rightarrow> nat res) list" where
  "uint_vals n other w =
     [add_assign_val n other, add_assign_u64_val n w, sub_assign_val n other,
      mul_assign_val n other, div_assign_val n other, mod_assign_val n other,
      \<lambda>v. uint_bitwise (AND) InvalidArgument n v other,
      \<lambda>v. uint_bitwise (OR) InvalidArgument n v other,
      \<lambda>v. uint_bitwise (XOR) InvalidArgument n v other,
      \<lambda>v. if v = uint_max n then Inl OverflowError else to_uint n (int v + 1),
      \<lambda>v. if v = 0 then Inl UnderflowError else to_uint n (int v - 1)]"

lemma uint_methods_eq:
  "uint_methods n other w = uint_assign n other # map mark_update (uint_vals n other w)"
  by (simp add: uint_methods_def uint_vals_def uint_method_defs)

lemma uint_vals_bound:
  assumes "f \<in> set (uint_vals n other w)" "operand_ok n other" "v < 2 ^ n" "f v = Inr r"
  shows "r < 2 ^ n"
proof -
  have bw: "uint_bitwise g InvalidArgument n v other = Inr r \<Longrightarrow> g \<in> {(AND), (OR), (XOR)} \<Longrightarrow> r < 2 ^ n" for g
    using bitwise_bounds[OF assms(3,2), of g] nat_bitwise_bound by blast
  show ?thesis
    using assms(1,4) assign_val_bounds[OF assms(3)]
    by (auto simp: uint_vals_def dest: to_uint_bound bw split: if_splits)
qed

lemma uint_assign_shape:
  assumes "operand_ok n other"
  shows "uint_assign n other v = (Inl DomainError, check_v v) \<or>
    (\<exists>f. uint_assign n other v = mark_update f v \<and> (\<forall>r. f (cur v) = Inr r \<longrightarrow> r < 2 ^ n))"
proof (cases other)
  case (OpInt k)
  then show ?thesis using to_uint_bound[of n k] by (auto simp: uint_assign_def)
next
  case (OpSafe x)
  then show ?thesis using assms by (intro disjI2 exI[of _ "\<lambda>_. Inr x"]) (simp add: uint_assign_def)
next
  case (OpUint x)
  then show ?thesis using assms by (intro disjI2 exI[of _ "\<lambda>_. Inr x"]) (simp add: uint_assign_def)
qed

lemma uint_methods_shape:
  assumes "m \<in> set (uint_methods n other w)" "operand_ok n other" "cur v < 2 ^ n"
  obtains "m v = (Inl DomainError, check_v v)"
  | f where "m v = mark_update f v" "\<And>r. f (cur v) = Inr r \<Longrightarrow> r < 2 ^ n"
  using assms(1) uint_assign_shape[OF assms(2), of v] uint_vals_bound[OF _ assms(2,3), of _ w]
  by (auto simp: uint_methods_eq)

section \<open>Properties\<close>

text \<open>
  Addition, subtraction and multiplication are exact: for a size whose \<^verbatim>\<open>int\<close>
  conversions lose nothing they return the mathematical result exactly when it fits the type
  (and, for multiplication, neither factor is zero), and throw otherwise.
\<close>
theorem safe_uint_arithmetic_exact:
  assumes "v < 2 ^ n" "operand_ok n other" "int_fits n other" "other \<noteq> OpInt (- (2 ^ 31))"
  shows "(uint_add n v other = Inr r \<longleftrightarrow>
      int r = int v + operand_val other \<and> int v + operand_val other < 2 ^ n)
    \<and> (uint_sub n v other = Inr r \<longleftrightarrow>
      int r = int v - operand_val other \<and> int v - operand_val other < 2 ^ n)
    \<and> (uint_mul n v other = Inr r \<longleftrightarrow>
      v \<noteq> 0 \<and> 0 < operand_val other \<and> int r = int v * operand_val other
      \<and> int v * operand_val other < 2 ^ n)"
  using uint_add_exact[OF assms] uint_sub_exact[OF assms(1-3)] uint_mul_exact by blast

theorem safe_uint_arithmetic_exact_witness:
  "uint_add 256 10 (OpInt (- 3)) = Inr 7 \<and> (\<forall>r. uint_add 8 250 (OpUint 6) \<noteq> Inr r)"
  using safe_uint_arithmetic_exact[of 10 256 "OpInt (- 3)" 7]
    safe_uint_arithmetic_exact[of 250 8 "OpUint 6"]
  by (simp add: int_fits_def native_size_def)

text \<open>
  Two overloads do not detect an overflow for the small native sizes: subtracting
  the \<^verbatim>\<open>int\<close> 256 from an 8-bit variable returns it unchanged, and adding a 64-bit operand that
  the type cannot hold never throws and wraps.
\<close>
theorem small_native_wraps:
  assumes "n \<in> {8, 16, 32}" "v < 2 ^ n" "uint_max n < w" "w < 2 ^ 64"
  shows "add_assign_u64_val n w v = Inr ((v + w) mod 2 ^ n)
    \<and> (x < 2 ^ 8 \<longrightarrow> uint_sub 8 x (OpInt 256) = Inr x)"
proof -
  let ?d = "int (uint_max n) - int w"
  have nat: "native_size n" using assms(1) by (auto simp: native_size_def)
  have v: "v \<le> uint_max n" using assms(2) by (simp add: le_uint_max)
  have "?d mod 2 ^ 64 = (?d + 2 ^ 64) mod 2 ^ 64" by simp
  also have "\<dots> = ?d + 2 ^ 64"
    using assms(3,4) by (intro mod_pos_pos_trivial) simp_all
  finally have "\<not> int v > ?d mod 2 ^ 64" using v assms(4) by simp
  moreover have "to_uint n (int v + int w) = Inr ((v + w) mod 2 ^ n)"
    using nat by (simp add: to_uint_def nat_mod_as_int)
  ultimately have "add_assign_u64_val n w v = Inr ((v + w) mod 2 ^ n)"
    using nat by (simp add: add_assign_u64_val_def)
  moreover have "uint_sub 8 x (OpInt 256) = Inr x" if "x < 2 ^ 8"
  proof -
    have "(int x - 256) mod 256 = int x" using that by (simp add: mod_diff_right_eq[symmetric])
    then show ?thesis by (simp add: to_uint_def native_size_def)
  qed
  ultimately show ?thesis by blast
qed

theorem small_native_wraps_witness:
  "add_assign_u64_val 8 256 5 = Inr 5 \<and> uint_sub 8 5 (OpInt 256) = Inr 5"
  using small_native_wraps[of 8 5 256 5] by (simp add: uint_max_def)

text \<open>
  Every operator that changes a \<^verbatim>\<open>SafeUint_t\<close> is a step of the safe-variable
  protocol, keeps the value within the size, and leaves the value alone when it throws.
\<close>
theorem safe_uint_operators_ok:
  assumes "m \<in> set (uint_methods n other w)" "operand_ok n other" "cur v < 2 ^ n"
  shows "var_step v (snd (m v)) \<and> cur (snd (m v)) < 2 ^ n
    \<and> (\<forall>e. fst (m v) = Inl e \<longrightarrow> cur (snd (m v)) = cur v)"
  using uint_methods_shape[OF assms]
proof cases
  case 1
  then show ?thesis using assms(3) by (simp add: var_step.intros)
next
  case (2 f)
  then show ?thesis
    using mark_update_step[of v f] mark_update_bound[OF assms(3)] mark_update_failed by metis
qed

theorem safe_uint_operators_ok_witness:
  "cur (snd (uint_sub_assign 16 (OpUint 9) (SafeUint_make True 5))) = 5"
proof -
  let ?v = "SafeUint_make True 5"
  have c: "cur ?v = 5" by (simp add: SafeUint_make_def new_var_def cur_def)
  have m: "uint_sub_assign 16 (OpUint 9) \<in> set (uint_methods 16 (OpUint 9) 0)"
    by (simp add: uint_methods_def)
  have "fst (uint_sub_assign 16 (OpUint 9) ?v) = Inl UnderflowError"
    by (simp add: uint_sub_assign_def mark_update_result c)
  then show ?thesis using safe_uint_operators_ok[OF m, of ?v] c by simp
qed

end
