(* ===== verification/Safe_Int.thy ===== *)
theory Safe_Int
  imports Safe_Uint "HOL-Library.Signed_Division"
begin

text \<open>
  The signed safe integers \<^verbatim>\<open>SafeInt_t<Size>\<close> of
  \<^verbatim>\<open>src/src/contract/variables/safeint.h\<close>. Each operator has an overload for another safe
  integer and one for a plain value, with the same body over \<^verbatim>\<open>other.get()\<close> and \<^verbatim>\<open>other\<close>; both are
  one definition. The bitwise and shift operators are not modelled.
\<close>

section \<open>The value type\<close>

text \<open>
  Two's complement for the native sizes; sign and magnitude, with the size counting the bits
  of the magnitude, for the checked ones.
\<close>

definition int_max :: "nat \<Rightarrow> int" where
  "int_max n = (if native_size n then 2 ^ (n - 1) - 1 else 2 ^ n - 1)"

definition int_min :: "nat \<Rightarrow> int" where
  "int_min n = (if native_size n then - (2 ^ (n - 1)) else - (2 ^ n - 1))"

definition int_ok :: "nat \<Rightarrow> int \<Rightarrow> bool" where
  "int_ok n k = (int_min n \<le> k \<and> k \<le> int_max n)"

text \<open>The conversion of a result to \<^verbatim>\<open>int_t\<close>.\<close>

definition to_int :: "nat \<Rightarrow> int \<Rightarrow> int res" where
  "to_int n k =
     (if native_size n then Inr ((k + 2 ^ (n - 1)) mod 2 ^ n - 2 ^ (n - 1))
      else if int_ok n k then Inr k else Inl BoostError)"

text \<open>
  The quotient of two \<^verbatim>\<open>int_t\<close> truncates. By zero it is undefined for a native type and throws
  for a checked one; the least 32- or 64-bit value by -1 is undefined.
\<close>

definition raw_quot :: "nat \<Rightarrow> (int \<Rightarrow> int \<Rightarrow> int) \<Rightarrow> int \<Rightarrow> int \<Rightarrow> int res" where
  "raw_quot n f a b =
     (if b = 0 then Inl (if native_size n then UndefinedBehaviour else BoostError)
      else if n \<in> {32, 64} \<and> a = int_min n \<and> b = - 1 then Inl UndefinedBehaviour
      else Inr (f a b))"

section \<open>Arithmetic\<close>

definition int_add :: "nat \<Rightarrow> int \<Rightarrow> int \<Rightarrow> int res" where
  "int_add n v other =
     (if other > 0 \<and> v > int_max n - other then Inl OverflowError
      else if other < 0 \<and> v < int_min n - other then Inl UnderflowError
      else to_int n (v + other))"

definition int_sub :: "nat \<Rightarrow> int \<Rightarrow> int \<Rightarrow> int res" where
  "int_sub n v other =
     (if other < 0 \<and> v > int_max n + other then Inl OverflowError
      else if other > 0 \<and> v < int_min n + other then Inl UnderflowError
      else to_int n (v - other))"

text \<open>The two bounds both multiplications compare with.\<close>

definition mul_guards :: "nat \<Rightarrow> int \<Rightarrow> int \<Rightarrow> unit res" where
  "mul_guards n v other =
     bind_r (raw_quot n (sdiv) (int_max n) other) (\<lambda>hi.
     bind_r (throw_if (v > hi) OverflowError) (\<lambda>_.
     bind_r (raw_quot n (sdiv) (int_min n) other) (\<lambda>lo.
     throw_if (v < lo) UnderflowError)))"

definition int_mul :: "nat \<Rightarrow> int \<Rightarrow> int \<Rightarrow> int res" where
  "int_mul n v other =
     (if v = 0 \<or> other = 0 then Inl DomainError
      else bind_r (mul_guards n v other) (\<lambda>_. to_int n (v * other)))"

definition int_div :: "nat \<Rightarrow> int \<Rightarrow> int \<Rightarrow> int res" where
  "int_div n v other =
     (if other = 0 then Inl DomainError
      else if v = int_min n \<and> other = - 1 then Inl OverflowError
      else raw_quot n (sdiv) v other)"

definition int_mod :: "nat \<Rightarrow> int \<Rightarrow> int \<Rightarrow> int res" where
  "int_mod n v other =
     (if other = 0 then Inl DomainError else raw_quot n (smod) v other)"

section \<open>Comparison and logic\<close>

definition int_not :: "int \<Rightarrow> bool" where "int_not v = (v = 0)"
definition int_land :: "int \<Rightarrow> int \<Rightarrow> bool" where "int_land v w = (v \<noteq> 0 \<and> w \<noteq> 0)"
definition int_lor :: "int \<Rightarrow> int \<Rightarrow> bool" where "int_lor v w = (v \<noteq> 0 \<or> w \<noteq> 0)"
definition int_eq :: "int \<Rightarrow> int \<Rightarrow> bool" where "int_eq v w = (v = w)"
definition int_lt :: "int \<Rightarrow> int \<Rightarrow> bool" where "int_lt v w = (v < w)"
definition int_le :: "int \<Rightarrow> int \<Rightarrow> bool" where "int_le v w = (v \<le> w)"
definition int_gt :: "int \<Rightarrow> int \<Rightarrow> bool" where "int_gt v w = (v > w)"
definition int_ge :: "int \<Rightarrow> int \<Rightarrow> bool" where "int_ge v w = (v \<ge> w)"

section \<open>Assignment\<close>

definition SafeInt_make :: "bool \<Rightarrow> int \<Rightarrow> int safe_var" where
  "SafeInt_make owner x = new_var owner 0 x"

definition int_assign :: "int \<Rightarrow> (int safe_var, unit) meth" where
  "int_assign other = mark_update (\<lambda>_. Inr other)"

definition int_add_assign :: "nat \<Rightarrow> int \<Rightarrow> (int safe_var, unit) meth" where
  "int_add_assign n other = guard_update (\<lambda>v.
     if other > 0 \<and> v > int_max n - other then Inl OverflowError
     else if other < 0 \<and> v < int_min n - other then Inl UnderflowError
     else to_int n (v + other))"

definition int_sub_assign :: "nat \<Rightarrow> int \<Rightarrow> (int safe_var, unit) meth" where
  "int_sub_assign n other = guard_update (\<lambda>v.
     if other < 0 \<and> v > int_max n + other then Inl OverflowError
     else if other > 0 \<and> v < int_min n + other then Inl UnderflowError
     else to_int n (v - other))"

text \<open>Unlike the binary operator, this one does not look for zero first.\<close>

definition int_mul_assign :: "nat \<Rightarrow> int \<Rightarrow> (int safe_var, unit) meth" where
  "int_mul_assign n other =
     guard_update (\<lambda>v. bind_r (mul_guards n v other) (\<lambda>_. to_int n (v * other)))"

definition int_div_assign :: "nat \<Rightarrow> int \<Rightarrow> (int safe_var, unit) meth" where
  "int_div_assign n other = guard_update (\<lambda>v.
     if other = 0 then Inl DomainError
     else if v = int_min n \<and> other = - 1 then Inl OverflowError
     else raw_quot n (sdiv) v other)"

definition int_mod_assign :: "nat \<Rightarrow> int \<Rightarrow> (int safe_var, unit) meth" where
  "int_mod_assign n other = guard_update (\<lambda>v.
     if other = 0 then Inl DomainError else raw_quot n (smod) v other)"

definition int_pre_inc :: "nat \<Rightarrow> (int safe_var, unit) meth" where
  "int_pre_inc n = guard_update (\<lambda>v. if v = int_max n then Inl OverflowError else to_int n (v + 1))"

definition int_post_inc :: "nat \<Rightarrow> (int safe_var, int) meth" where
  "int_post_inc n = (\<lambda>v. let old = cur v in
     bind_m (guard_update (\<lambda>v. if v = int_max n then Inl OverflowError else to_int n (v + 1)))
       (\<lambda>_. ret_m old) v)"

definition int_pre_dec :: "nat \<Rightarrow> (int safe_var, unit) meth" where
  "int_pre_dec n = guard_update (\<lambda>v. if v = int_min n then Inl UnderflowError else to_int n (v - 1))"

definition int_post_dec :: "nat \<Rightarrow> (int safe_var, int) meth" where
  "int_post_dec n = (\<lambda>v. let old = cur v in
     bind_m (guard_update (\<lambda>v. if v = int_min n then Inl UnderflowError else to_int n (v - 1)))
       (\<lambda>_. ret_m old) v)"

section \<open>Lemmas\<close>

lemma native_pos: "native_size n \<Longrightarrow> (2 :: int) ^ n = 2 * 2 ^ (n - 1)"
  by (auto simp: native_size_def)

lemma to_int_exact: "int_ok n k \<Longrightarrow> to_int n k = Inr k"
proof (cases "native_size n")
  case True
  assume "int_ok n k"
  then have "(k + 2 ^ (n - 1)) mod 2 ^ n = k + 2 ^ (n - 1)"
    using True native_pos[OF True]
    by (intro mod_pos_pos_trivial) (simp_all add: int_ok_def int_min_def int_max_def)
  with True show ?thesis by (simp add: to_int_def)
qed (simp add: to_int_def)

lemma int_bounds: "int_min n \<le> 0" "0 \<le> int_max n" "int_max n \<le> - int_min n" "- int_min n \<le> int_max n + 1"
  by (simp_all add: int_min_def int_max_def)

lemma int_add_exact:
  assumes "int_ok n v" "int_ok n other"
  shows "int_add n v other = Inr r \<longleftrightarrow> r = v + other \<and> int_ok n (v + other)"
proof (cases "int_ok n (v + other)")
  case True
  then show ?thesis by (auto simp: int_add_def to_int_exact) (auto simp: int_ok_def)
next
  case False
  then show ?thesis using assms by (auto simp: int_add_def int_ok_def split: if_splits)
qed

lemma int_sub_exact:
  assumes "int_ok n v" "int_ok n other"
  shows "int_sub n v other = Inr r \<longleftrightarrow> r = v - other \<and> int_ok n (v - other)"
proof (cases "int_ok n (v - other)")
  case True
  then show ?thesis by (auto simp: int_sub_def to_int_exact) (auto simp: int_ok_def)
next
  case False
  then show ?thesis using assms by (auto simp: int_sub_def int_ok_def split: if_splits)
qed

lemma sdiv_pos: "0 \<le> a \<Longrightarrow> 0 < b \<Longrightarrow> a sdiv b = a div (b :: int)"
  by (cases "a = 0") (simp_all add: signed_divide_int_def sgn_mult)

lemma sdiv_neg_left: "a sdiv (b :: int) = - ((- a) sdiv b)"
  by (simp add: signed_divide_int_def)

lemma sdiv_neg_right: "a sdiv (b :: int) = - (a sdiv (- b))"
  by (simp add: signed_divide_int_def)

lemma le_int_div_iff:
  assumes "0 < (c :: int)"
  shows "a \<le> b div c \<longleftrightarrow> a * c \<le> b"
proof
  assume "a \<le> b div c"
  then have "a * c \<le> (b div c) * c" using assms by (intro mult_right_mono) simp_all
  also have "\<dots> \<le> b" using div_mult_mod_eq[of b c] pos_mod_sign[OF assms, of b] by linarith
  finally show "a * c \<le> b" .
next
  assume "a * c \<le> b"
  then have "(a * c) div c \<le> b div c" using assms by (intro zdiv_mono1)
  then show "a \<le> b div c" using assms by simp
qed

lemma mul_guards_pos:
  assumes "0 < other"
  shows "mul_guards n v other = Inr u \<longleftrightarrow> int_ok n (v * other)"
proof -
  have hi: "int_max n sdiv other = int_max n div other"
    using assms int_bounds(2) by (rule sdiv_pos[rotated])
  have lo: "int_min n sdiv other = - ((- int_min n) div other)"
    using assms int_bounds(1)[of n] sdiv_neg_left[of "int_min n" other] sdiv_pos[of "- int_min n" other]
    by linarith
  have "v \<le> int_max n div other \<longleftrightarrow> v * other \<le> int_max n"
    using assms by (rule le_int_div_iff)
  moreover have "- ((- int_min n) div other) \<le> v \<longleftrightarrow> int_min n \<le> v * other"
    using le_int_div_iff[OF assms, of "- v" "- int_min n"] by auto
  ultimately show ?thesis
    using assms by (auto simp: mul_guards_def raw_quot_def hi lo bind_r_eq_Inr int_ok_def)
qed

lemma mul_guards_neg:
  assumes "other < 0" "v \<noteq> 0"
  shows "mul_guards n v other \<noteq> Inr u"
proof
  assume "mul_guards n v other = Inr u"
  then have v: "v \<le> int_max n sdiv other" "int_min n sdiv other \<le> v"
    by (auto simp: mul_guards_def raw_quot_def bind_r_eq_Inr split: if_splits)
  have "int_max n sdiv other = - (int_max n div (- other))"
    using sdiv_neg_right[of "int_max n" other] sdiv_pos[of "int_max n" "- other"] assms(1) int_bounds(2)[of n]
    by linarith
  moreover have "0 \<le> int_max n div (- other)"
    using assms(1) int_bounds(2)[of n] by (simp add: pos_imp_zdiv_nonneg_iff)
  moreover have "int_min n sdiv other = (- int_min n) div (- other)"
    using sdiv_neg_right[of "int_min n" other] sdiv_neg_left[of "int_min n" "- other"]
      sdiv_pos[of "- int_min n" "- other"] assms(1) int_bounds(1)[of n] by linarith
  moreover have "0 \<le> (- int_min n) div (- other)"
    using assms(1) int_bounds(1)[of n] pos_imp_zdiv_nonneg_iff[of "- other" "- int_min n"] by simp
  ultimately show False using v assms(2) by linarith
qed

lemma guard_update_failed:
  "fst (guard_update f v) = Inl e \<Longrightarrow> cur (snd (guard_update f v)) = cur v"
  by (cases "f (cur v)") (simp_all add: guard_update_result)

lemma to_int_range: "to_int n k = Inr r \<Longrightarrow> int_ok n r"
proof (cases "native_size n")
  case True
  assume "to_int n k = Inr r"
  then have r: "r = (k + 2 ^ (n - 1)) mod 2 ^ n - 2 ^ (n - 1)" using True by (simp add: to_int_def)
  have "0 \<le> (k + 2 ^ (n - 1)) mod 2 ^ n" "(k + 2 ^ (n - 1)) mod 2 ^ n < (2 :: int) ^ n" by simp_all
  then show ?thesis
    unfolding r int_ok_def int_min_def int_max_def using True native_pos[OF True] by simp
qed (simp add: to_int_def split: if_splits)

text \<open>The operators that change the variable.\<close>

definition int_methods :: "nat \<Rightarrow> int \<Rightarrow> (int safe_var, unit) meth list" where
  "int_methods n other =
     [int_assign other, int_add_assign n other, int_sub_assign n other, int_mul_assign n other,
      int_div_assign n other, int_mod_assign n other, int_pre_inc n, int_pre_dec n]"

lemmas int_method_defs = int_assign_def int_add_assign_def int_sub_assign_def int_mul_assign_def
  int_div_assign_def int_mod_assign_def int_pre_inc_def int_pre_dec_def

lemma int_methods_shape:
  assumes "m \<in> set (int_methods n other)"
  obtains f where "m = mark_update f" | f where "m = guard_update f"
  using assms that by (auto simp: int_methods_def int_method_defs)

section \<open>Properties\<close>

text \<open>
  Signed addition and subtraction return the exact result if and only if it is in
  the range of the type. Multiplication by a positive operand returns the exact product of
  non-zero factors if and only if it is in range, but by a negative operand it never returns:
  every such call throws (or is undefined), although the product is representable.
\<close>
theorem safe_int_arithmetic:
  assumes "int_ok n v" "int_ok n other"
  shows "(int_add n v other = Inr r \<longleftrightarrow> r = v + other \<and> int_ok n (v + other))
    \<and> (int_sub n v other = Inr r \<longleftrightarrow> r = v - other \<and> int_ok n (v - other))
    \<and> (0 < other \<longrightarrow> (int_mul n v other = Inr r \<longleftrightarrow> v \<noteq> 0 \<and> r = v * other \<and> int_ok n (v * other)))
    \<and> (other < 0 \<longrightarrow> int_mul n v other \<noteq> Inr r)"
proof (intro conjI impI)
  show "int_add n v other = Inr r \<longleftrightarrow> r = v + other \<and> int_ok n (v + other)"
    by (rule int_add_exact[OF assms])
  show "int_sub n v other = Inr r \<longleftrightarrow> r = v - other \<and> int_ok n (v - other)"
    by (rule int_sub_exact[OF assms])
  show "int_mul n v other = Inr r \<longleftrightarrow> v \<noteq> 0 \<and> r = v * other \<and> int_ok n (v * other)" if "0 < other"
    using that mul_guards_pos[OF that, of n v] to_int_exact[of n "v * other"]
    by (auto simp: int_mul_def bind_r_eq_Inr)
  show "int_mul n v other \<noteq> Inr r" if "other < 0"
    using that mul_guards_neg[OF that, of v n] by (auto simp: int_mul_def bind_r_eq_Inr)
qed

theorem safe_int_arithmetic_witness:
  "int_add 8 100 27 = Inr 127 \<and> (\<forall>r. int_add 8 100 28 \<noteq> Inr r) \<and> (\<forall>r. int_mul 256 2 (- 3) \<noteq> Inr r)"
  using safe_int_arithmetic[of 8 100 27 127] safe_int_arithmetic[of 8 100 28]
    safe_int_arithmetic[of 256 2 "- 3"]
  by (simp add: int_ok_def int_min_def int_max_def native_size_def)

text \<open>
  Every operator that changes a \<^verbatim>\<open>SafeInt_t\<close> is a step of the safe-variable protocol
  and leaves the value alone when it throws. \<^verbatim>\<open>*=\<close> by zero has no guard: a native type divides
  by zero, a checked one throws.
\<close>
theorem safe_int_operators_ok:
  assumes "m \<in> set (int_methods n other)"
  shows "var_step v (snd (m v)) \<and> (\<forall>e. fst (m v) = Inl e \<longrightarrow> cur (snd (m v)) = cur v)
    \<and> fst (int_mul_assign n 0 v) = Inl (if native_size n then UndefinedBehaviour else BoostError)"
proof -
  have "fst (int_mul_assign n 0 v) = Inl (if native_size n then UndefinedBehaviour else BoostError)"
    by (simp add: int_mul_assign_def guard_update_result mul_guards_def raw_quot_def)
  then show ?thesis
    using int_methods_shape[OF assms] mark_update_step guard_update_step
      mark_update_failed guard_update_failed by metis
qed

theorem safe_int_operators_ok_witness:
  "cur (snd (int_pre_inc 8 (SafeInt_make True 127))) = 127"
proof -
  let ?v = "SafeInt_make True 127"
  have c: "cur ?v = 127" by (simp add: SafeInt_make_def new_var_def cur_def)
  have "fst (int_pre_inc 8 ?v) = Inl OverflowError"
    by (simp add: int_pre_inc_def guard_update_result c int_max_def native_size_def)
  then show ?thesis
    using safe_int_operators_ok[of "int_pre_inc 8" 8 0 ?v] c by (simp add: int_methods_def)
qed

end
