(* ===== verification/Safe_Map.thy ===== *)
theory Safe_Map
  imports Safe_Base
begin

text \<open>
  \<^verbatim>\<open>SafeUnorderedMap\<close> of \<^verbatim>\<open>src/src/contract/variables/safeunorderedmap.h\<close>: a committed map, a
  temporary map that holds the entries a call has touched, and a set of erased keys. The
  abstraction \<open>lookup\<close> is the map a contract sees; the lemmas give the effect of each
  operation on it, the properties when a commit keeps it. A value type's default \<^verbatim>\<open>T()\<close> is an
  argument.
\<close>

section \<open>State\<close>

record ('k, 'v) safe_map =
  sm_map :: "'k \<Rightarrow> 'v option"
  sm_ptr :: "('k \<Rightarrow> 'v option) option"
  sm_erased :: "'k set option"
  sm_owner :: bool
  sm_registered :: bool
  sm_should :: bool
  sm_uses :: nat

definition SafeMap_make :: "bool \<Rightarrow> ('k \<Rightarrow> 'v option) \<Rightarrow> ('k, 'v) safe_map" where
  "SafeMap_make owner m = \<lparr>sm_map = m, sm_ptr = None, sm_erased = None, sm_owner = owner,
     sm_registered = False, sm_should = False, sm_uses = 0\<rparr>"

text \<open>The temporary map and the erased keys behind the pointers.\<close>

definition ptr_map :: "('k, 'v) safe_map \<Rightarrow> 'k \<Rightarrow> 'v option" where
  "ptr_map m = (case sm_ptr m of None \<Rightarrow> Map.empty | Some p \<Rightarrow> p)"

definition erased :: "('k, 'v) safe_map \<Rightarrow> 'k set" where
  "erased m = (case sm_erased m of None \<Rightarrow> {} | Some e \<Rightarrow> e)"

section \<open>Private helpers\<close>

definition map_check :: "('k, 'v) safe_map \<Rightarrow> ('k, 'v) safe_map" where
  "map_check m =
     (let m = (if sm_ptr m = None then m\<lparr>sm_ptr := Some Map.empty\<rparr> else m)
      in if sm_erased m = None then m\<lparr>sm_erased := Some {}\<rparr> else m)"

definition map_markAsUsed :: "('k, 'v) safe_map \<Rightarrow> ('k, 'v) safe_map" where
  "map_markAsUsed m =
     (if sm_owner m \<and> \<not> sm_registered m \<and> sm_should m
      then m\<lparr>sm_uses := Suc (sm_uses m), sm_registered := True\<rparr> else m)"

text \<open>The write \<^verbatim>\<open>(*mapPtr_)[key] = v\<close>.\<close>

definition ptr_put :: "'k \<Rightarrow> 'v \<Rightarrow> ('k, 'v) safe_map \<Rightarrow> ('k, 'v) safe_map" where
  "ptr_put k v m = m\<lparr>sm_ptr := Some ((ptr_map m)(k \<mapsto> v))\<rparr>"

definition checkKeyAndCopy :: "'k \<Rightarrow> ('k, 'v) safe_map \<Rightarrow> ('k, 'v) safe_map" where
  "checkKeyAndCopy k m =
     (let m = map_check m in
      if ptr_map m k = None
      then (case sm_map m k of
              None \<Rightarrow> m
            | Some v \<Rightarrow> if k \<notin> erased m then ptr_put k v m else m)
      else m)"

definition checkKeyAndCreate :: "'v \<Rightarrow> 'k \<Rightarrow> ('k, 'v) safe_map \<Rightarrow> ('k, 'v) safe_map" where
  "checkKeyAndCreate dflt k m =
     (let m = map_check m in
      if ptr_map m k = None
      then (case sm_map m k of
              None \<Rightarrow> ptr_put k dflt m
            | Some v \<Rightarrow> ptr_put k (if k \<notin> erased m then v else dflt) m)
      else m)"

definition checkKeyAndThrow :: "'k \<Rightarrow> (('k, 'v) safe_map, unit) meth" where
  "checkKeyAndThrow k = (\<lambda>m. let m = map_check m in
     if ptr_map m k = None
     then (case sm_map m k of
             None \<Rightarrow> (Inl (DynamicException ''Key not found''), m)
           | Some v \<Rightarrow> if k \<notin> erased m then (Inr (), ptr_put k v m)
                       else (Inl (DynamicException ''Key not found''), m))
     else (Inr (), m))"

section \<open>Public operations\<close>

definition map_count :: "'k \<Rightarrow> (('k, 'v) safe_map, nat) meth" where
  "map_count k = (\<lambda>m. let m = checkKeyAndCopy k m in
     (Inr (if ptr_map m k = None then 0 else 1), m))"

text \<open>The iterator \<^verbatim>\<open>find\<close> returns points at an entry of the temporary map, or is its end.\<close>

definition map_find :: "'k \<Rightarrow> (('k, 'v) safe_map, 'v option) meth" where
  "map_find k = (\<lambda>m. let m = map_markAsUsed (checkKeyAndCopy k m) in (Inr (ptr_map m k), m))"

definition map_find_const :: "'k \<Rightarrow> (('k, 'v) safe_map, 'v option) meth" where
  "map_find_const k = (\<lambda>m. let m = checkKeyAndCopy k m in (Inr (ptr_map m k), m))"

definition map_contains :: "'k \<Rightarrow> (('k, 'v) safe_map, bool) meth" where
  "map_contains k = (\<lambda>m. let m = checkKeyAndCopy k m in (Inr (ptr_map m k \<noteq> None), m))"

text \<open>
  \<^verbatim>\<open>commit\<close>: \<^verbatim>\<open>merge\<close> moves the entries whose key is new, the loop overwrites the others, and
  then the erased keys are removed. The set of erased keys stays.
\<close>

definition map_commit :: "('k, 'v) safe_map \<Rightarrow> ('k, 'v) safe_map" where
  "map_commit m =
     (let m = map_check m;
          merged = (\<lambda>k. case sm_map m k of None \<Rightarrow> ptr_map m k | Some v \<Rightarrow> Some v);
          rest = (\<lambda>k. if sm_map m k = None then None else ptr_map m k);
          updated = merged ++ rest
      in m\<lparr>sm_map := updated |` (- erased m), sm_ptr := None, sm_registered := False\<rparr>)"

definition map_revert :: "('k, 'v) safe_map \<Rightarrow> ('k, 'v) safe_map" where
  "map_revert m = m\<lparr>sm_ptr := None, sm_erased := None, sm_registered := False\<rparr>"

definition map_is_empty :: "(('k, 'v) safe_map, bool) meth" where
  "map_is_empty = (\<lambda>m. let m = map_check m in
     (Inr (sm_map m = Map.empty \<or> ptr_map m = Map.empty), m))"

definition map_size :: "(('k, 'v) safe_map, nat) meth" where
  "map_size = (\<lambda>m. let m = map_check m in (Inr (card (dom (sm_map m))), m))"

text \<open>\<^verbatim>\<open>insert\<close> looks for the key in the temporary map only.\<close>

definition map_insert :: "'k \<Rightarrow> 'v \<Rightarrow> (('k, 'v) safe_map, bool) meth" where
  "map_insert k v = (\<lambda>m. let m = map_markAsUsed (map_check m) in
     if ptr_map m k = None then (Inr True, ptr_put k v m) else (Inr False, m))"

definition map_insert_or_assign :: "'k \<Rightarrow> 'v \<Rightarrow> (('k, 'v) safe_map, bool) meth" where
  "map_insert_or_assign k v = (\<lambda>m. let m = map_markAsUsed (map_check m) in
     (Inr (ptr_map m k = None), ptr_put k v m))"

definition map_erase :: "'k \<Rightarrow> (('k, 'v) safe_map, nat) meth" where
  "map_erase k = (\<lambda>m. let m = map_markAsUsed (map_check m);
     n = (if ptr_map m k = None then 0 else 1)
     in (Inr n, m\<lparr>sm_erased := Some (insert k (erased m)), sm_ptr := Some ((ptr_map m)(k := None))\<rparr>))"

definition map_at :: "'k \<Rightarrow> (('k, 'v) safe_map, 'v) meth" where
  "map_at k = bind_m (checkKeyAndThrow k) (\<lambda>_.
     bind_m (mod_m map_markAsUsed) (\<lambda>_. get_m (\<lambda>m. the (ptr_map m k))))"

text \<open>
  \<^verbatim>\<open>operator[]\<close> returns a reference; a use of it as a value and an assignment through it are
  the two definitions.
\<close>

definition map_index :: "'v \<Rightarrow> 'k \<Rightarrow> (('k, 'v) safe_map, 'v) meth" where
  "map_index dflt k = (\<lambda>m. let m = map_markAsUsed (checkKeyAndCreate dflt k m) in
     (Inr (the (ptr_map m k)), m))"

definition map_index_assign :: "'v \<Rightarrow> 'k \<Rightarrow> 'v \<Rightarrow> (('k, 'v) safe_map, unit) meth" where
  "map_index_assign dflt k v = bind_m (map_index dflt k) (\<lambda>_. mod_m (ptr_put k v))"

section \<open>The map a contract sees\<close>

definition lookup :: "('k, 'v) safe_map \<Rightarrow> 'k \<Rightarrow> 'v option" where
  "lookup m k = (case ptr_map m k of Some v \<Rightarrow> Some v
     | None \<Rightarrow> if k \<in> erased m then None else sm_map m k)"

lemma ptr_map_check [simp]: "ptr_map (map_check m) = ptr_map m"
  by (simp add: map_check_def ptr_map_def Let_def)

lemma erased_check [simp]: "erased (map_check m) = erased m"
  by (simp add: map_check_def erased_def Let_def)

lemma sm_map_check [simp]: "sm_map (map_check m) = sm_map m"
  by (simp add: map_check_def Let_def)

lemma mark_views [simp]:
  "ptr_map (map_markAsUsed m) = ptr_map m" "erased (map_markAsUsed m) = erased m"
  "sm_map (map_markAsUsed m) = sm_map m"
  by (simp_all add: map_markAsUsed_def ptr_map_def erased_def)

lemma put_views [simp]:
  "ptr_map (ptr_put k v m) = (ptr_map m)(k \<mapsto> v)" "erased (ptr_put k v m) = erased m"
  "sm_map (ptr_put k v m) = sm_map m"
  by (simp_all add: ptr_put_def ptr_map_def erased_def)

lemma lookup_check [simp]: "lookup (map_check m) = lookup m"
  by (rule ext) (simp add: lookup_def split: option.split)

lemma lookup_mark [simp]: "lookup (map_markAsUsed m) = lookup m"
  by (rule ext) (simp add: lookup_def split: option.split)

lemma lookup_put [simp]: "lookup (ptr_put k v m) = (lookup m)(k \<mapsto> v)"
  by (rule ext) (simp add: lookup_def split: option.split)

lemma copy_facts:
  "lookup (checkKeyAndCopy k m) = lookup m" "ptr_map (checkKeyAndCopy k m) k = lookup m k"
proof -
  have "ptr_map m k = None \<Longrightarrow> k \<notin> erased m \<Longrightarrow> sm_map m k = Some v \<Longrightarrow>
      (lookup m)(k \<mapsto> v) = lookup m" for v
    by (rule ext) (simp add: lookup_def split: option.split)
  then show "lookup (checkKeyAndCopy k m) = lookup m"
    by (simp add: checkKeyAndCopy_def Let_def split: option.split)
  show "ptr_map (checkKeyAndCopy k m) k = lookup m k"
    by (auto simp: checkKeyAndCopy_def Let_def lookup_def split: option.split)
qed

lemma create_facts:
  "ptr_map (checkKeyAndCreate d k m) k = Some (case lookup m k of None \<Rightarrow> d | Some v \<Rightarrow> v)"
  "lookup (checkKeyAndCreate d k m) =
     (lookup m)(k \<mapsto> (case lookup m k of None \<Rightarrow> d | Some v \<Rightarrow> v))"
proof -
  show "ptr_map (checkKeyAndCreate d k m) k = Some (case lookup m k of None \<Rightarrow> d | Some v \<Rightarrow> v)"
    by (auto simp: checkKeyAndCreate_def Let_def lookup_def split: option.split)
  show "lookup (checkKeyAndCreate d k m) =
     (lookup m)(k \<mapsto> (case lookup m k of None \<Rightarrow> d | Some v \<Rightarrow> v))"
    by (rule ext) (auto simp: checkKeyAndCreate_def Let_def lookup_def split: option.split)
qed

lemma throw_facts:
  "fst (checkKeyAndThrow k m) =
     (case lookup m k of None \<Rightarrow> Inl (DynamicException ''Key not found'') | Some _ \<Rightarrow> Inr ())"
  "lookup (snd (checkKeyAndThrow k m)) = lookup m"
  "ptr_map (snd (checkKeyAndThrow k m)) k = lookup m k"
proof -
  show "fst (checkKeyAndThrow k m) =
     (case lookup m k of None \<Rightarrow> Inl (DynamicException ''Key not found'') | Some _ \<Rightarrow> Inr ())"
    by (auto simp: checkKeyAndThrow_def Let_def lookup_def split: option.split)
  show "lookup (snd (checkKeyAndThrow k m)) = lookup m"
    by (rule ext) (auto simp: checkKeyAndThrow_def Let_def lookup_def split: option.split)
  show "ptr_map (snd (checkKeyAndThrow k m)) k = lookup m k"
    by (auto simp: checkKeyAndThrow_def Let_def lookup_def split: option.split)
qed

lemma lookup_commit: "lookup (map_commit m) k = (if k \<in> erased m then None else lookup m k)"
  by (auto simp: map_commit_def Let_def lookup_def ptr_map_def erased_def map_check_def
      restrict_map_def map_add_def split: option.split)

lemma erased_commit [simp]: "erased (map_commit m) = erased m"
  by (simp add: map_commit_def Let_def erased_def map_check_def split: option.split)

lemma lookup_revert: "lookup (map_revert m) = sm_map m"
  by (rule ext) (simp add: lookup_def map_revert_def ptr_map_def erased_def)


section \<open>Calls\<close>

text \<open>The steps a call can make: each public operation.\<close>

inductive map_step :: "('k, 'v) safe_map \<Rightarrow> ('k, 'v) safe_map \<Rightarrow> bool" where
  step_count: "map_step m (snd (map_count k m))"
| step_find: "map_step m (snd (map_find k m))"
| step_find_const: "map_step m (snd (map_find_const k m))"
| step_contains: "map_step m (snd (map_contains k m))"
| step_empty: "map_step m (snd (map_is_empty m))"
| step_size: "map_step m (snd (map_size m))"
| step_insert: "map_step m (snd (map_insert k v m))"
| step_insert_or_assign: "map_step m (snd (map_insert_or_assign k v m))"
| step_erase: "map_step m (snd (map_erase k m))"
| step_at: "map_step m (snd (map_at k m))"
| step_index: "map_step m (snd (map_index d k m))"
| step_index_assign: "map_step m (snd (map_index_assign d k v m))"

text \<open>What a step keeps of the state: either nothing a contract sees changed, or it registered.\<close>

definition map_in_call :: "('k, 'v) safe_map \<Rightarrow> ('k, 'v) safe_map \<Rightarrow> bool" where
  "map_in_call m0 m =
     (sm_map m = sm_map m0 \<and> sm_owner m \<and> sm_should m
      \<and> sm_uses m = (if sm_registered m then 1 else 0) \<and> (\<not> sm_registered m \<longrightarrow> lookup m = sm_map m))"

definition map_clean :: "('k, 'v) safe_map \<Rightarrow> bool" where
  "map_clean m = (sm_owner m \<and> sm_should m \<and> \<not> sm_registered m \<and> sm_uses m = 0 \<and> lookup m = sm_map m)"

lemma sm_frame:
  "sm_owner (map_check m) = sm_owner m" "sm_should (map_check m) = sm_should m"
  "sm_uses (map_check m) = sm_uses m" "sm_registered (map_check m) = sm_registered m"
  "sm_owner (ptr_put k v m) = sm_owner m" "sm_should (ptr_put k v m) = sm_should m"
  "sm_uses (ptr_put k v m) = sm_uses m" "sm_registered (ptr_put k v m) = sm_registered m"
  by (simp_all add: map_check_def ptr_put_def Let_def)

lemma helper_in_call:
  assumes "map_in_call m0 m"
  shows "map_in_call m0 (checkKeyAndCopy k m)" "map_in_call m0 (map_check m)"
    "map_in_call m0 (snd (checkKeyAndThrow k m))"
proof -
  show "map_in_call m0 (map_check m)" using assms by (simp add: map_in_call_def sm_frame)
  have "sm_map (checkKeyAndCopy k m) = sm_map m \<and> sm_owner (checkKeyAndCopy k m) = sm_owner m
    \<and> sm_should (checkKeyAndCopy k m) = sm_should m \<and> sm_uses (checkKeyAndCopy k m) = sm_uses m
    \<and> sm_registered (checkKeyAndCopy k m) = sm_registered m"
    by (simp add: checkKeyAndCopy_def Let_def sm_frame split: option.split)
  then show "map_in_call m0 (checkKeyAndCopy k m)"
    using assms copy_facts(1)[of k m] by (simp add: map_in_call_def)
  have "sm_map (snd (checkKeyAndThrow k m)) = sm_map m \<and> sm_owner (snd (checkKeyAndThrow k m)) = sm_owner m
    \<and> sm_should (snd (checkKeyAndThrow k m)) = sm_should m \<and> sm_uses (snd (checkKeyAndThrow k m)) = sm_uses m
    \<and> sm_registered (snd (checkKeyAndThrow k m)) = sm_registered m"
    by (simp add: checkKeyAndThrow_def Let_def sm_frame split: option.split)
  then show "map_in_call m0 (snd (checkKeyAndThrow k m))"
    using assms throw_facts(2)[of k m] by (simp add: map_in_call_def)
qed

text \<open>A state within a call up to what is visible: it will be in a call once registered.\<close>

definition map_frame :: "('k, 'v) safe_map \<Rightarrow> ('k, 'v) safe_map \<Rightarrow> bool" where
  "map_frame m0 m = (sm_map m = sm_map m0 \<and> sm_owner m \<and> sm_should m
      \<and> sm_uses m = (if sm_registered m then 1 else 0))"

lemma frame_mark:
  assumes "map_frame m0 m"
  shows "map_in_call m0 (map_markAsUsed m)" "sm_registered (map_markAsUsed m)"
  using assms by (auto simp: map_frame_def map_in_call_def map_markAsUsed_def)

lemma frame_check: "map_in_call m0 m \<Longrightarrow> map_frame m0 (map_check m)"
  by (simp add: map_in_call_def map_frame_def sm_frame)

lemma registered_put:
  "map_in_call m0 m \<Longrightarrow> sm_registered m \<Longrightarrow> map_in_call m0 (ptr_put k v m)"
  by (simp add: map_in_call_def sm_frame)

lemma create_frame: "map_in_call m0 m \<Longrightarrow> map_frame m0 (checkKeyAndCreate d k m)"
  by (simp add: checkKeyAndCreate_def Let_def map_frame_def map_in_call_def sm_frame split: option.split)

lemma in_call_frame: "map_in_call m0 m \<Longrightarrow> map_frame m0 m"
  by (simp add: map_in_call_def map_frame_def)

lemma mark_after:
  assumes "map_in_call m0 m"
  shows "map_in_call m0 (map_markAsUsed (map_check m))" "sm_registered (map_markAsUsed (map_check m))"
    "map_in_call m0 (map_markAsUsed (checkKeyAndCopy k m))"
    "map_in_call m0 (map_markAsUsed (checkKeyAndCreate d k m))"
    "sm_registered (map_markAsUsed (checkKeyAndCreate d k m))"
    "map_in_call m0 (map_markAsUsed (snd (checkKeyAndThrow k m)))"
  using frame_mark[OF frame_check[OF assms]] frame_mark[OF create_frame[OF assms]]
    frame_mark[OF in_call_frame[OF helper_in_call(1)[OF assms]]]
    frame_mark[OF in_call_frame[OF helper_in_call(3)[OF assms]]]
  by blast+

lemma map_step_in_call:
  assumes "map_step m w" "map_in_call m0 m"
  shows "map_in_call m0 w"
  using assms(1)
proof cases
  case (step_erase k)
  then show ?thesis
    using mark_after(1,2)[OF assms(2)] by (simp add: map_erase_def Let_def map_in_call_def)
next
  case (step_at k)
  then show ?thesis
    using helper_in_call(3)[OF assms(2), of k] mark_after(6)[OF assms(2), of k]
    by (cases "fst (checkKeyAndThrow k m)") (simp_all add: map_at_def bind_m_apply)
next
  case (step_index_assign d k v)
  then show ?thesis
    using mark_after(4,5)[OF assms(2), of d k]
    by (simp add: map_index_assign_def map_index_def bind_m_apply Let_def registered_put)
next
  case (step_insert k v)
  then show ?thesis
    using mark_after(1)[OF assms(2)] registered_put[OF mark_after(1,2)[OF assms(2)], of k v]
    by (simp add: map_insert_def Let_def)
next
  case (step_insert_or_assign k v)
  then show ?thesis
    using registered_put[OF mark_after(1,2)[OF assms(2)], of k v]
    by (simp add: map_insert_or_assign_def Let_def)
qed (use helper_in_call[OF assms(2)] mark_after[OF assms(2)] in
    \<open>simp_all add: map_count_def map_find_def map_find_const_def map_contains_def map_is_empty_def
      map_size_def map_index_def Let_def\<close>)

lemma map_steps_in_call: "map_step\<^sup>*\<^sup>* m w \<Longrightarrow> map_in_call m0 m \<Longrightarrow> map_in_call m0 w"
  by (induction rule: rtranclp_induct) (auto intro: map_step_in_call)

definition map_logger_end :: "bool \<Rightarrow> ('k, 'v) safe_map \<Rightarrow> ('k, 'v) safe_map" where
  "map_logger_end commitCall m =
     (((if commitCall then map_commit else map_revert) ^^ sm_uses m) m)\<lparr>sm_uses := 0\<rparr>"

lemma lookup_uses [simp]: "lookup (m\<lparr>sm_uses := n\<rparr>) = lookup m"
  by (rule ext) (simp add: lookup_def ptr_map_def erased_def split: option.split)

lemma map_logger_end_facts:
  assumes "map_in_call m0 m"
  shows "lookup (map_logger_end False m) = sm_map m0"
    and "lookup (map_logger_end True m) = (if sm_registered m then lookup m |` (- erased m) else lookup m)"
    and "map_clean (map_logger_end b m)"
proof -
  have c: "lookup (map_commit m) = lookup m |` (- erased m)"
    by (rule ext) (simp add: lookup_commit restrict_map_def)
  show "lookup (map_logger_end False m) = sm_map m0"
    using assms by (simp add: map_logger_end_def map_in_call_def lookup_revert)
  show "lookup (map_logger_end True m) = (if sm_registered m then lookup m |` (- erased m) else lookup m)"
    using assms by (simp add: map_logger_end_def map_in_call_def c)
  have "sm_map (map_commit m) = lookup (map_commit m)"
    by (rule ext) (auto simp: map_commit_def Let_def lookup_def ptr_map_def erased_def map_check_def
        restrict_map_def map_add_def split: option.split)
  then show "map_clean (map_logger_end b m)"
    using assms lookup_revert[of m]
    by (auto simp: map_logger_end_def map_in_call_def map_clean_def map_commit_def map_revert_def
        Let_def sm_frame)
qed

section \<open>Properties\<close>

text \<open>
  Claim C37. The operations against a plain map, which is the visible map. \<^verbatim>\<open>count\<close>, \<^verbatim>\<open>find\<close>,
  \<^verbatim>\<open>contains\<close> and \<^verbatim>\<open>at\<close> answer as on it and change nothing, \<^verbatim>\<open>at\<close> throws exactly on a missing key,
  \<^verbatim>\<open>operator[]\<close> returns the entry or creates the default, an assignment through it and
  \<^verbatim>\<open>insert_or_assign\<close> update the key, \<^verbatim>\<open>erase\<close> removes it, and \<^verbatim>\<open>revert\<close> is the committed map.
  The others look at a part of the map only: \<^verbatim>\<open>insert\<close> and the results of \<^verbatim>\<open>insert_or_assign\<close> and
  \<^verbatim>\<open>erase\<close> go by the keys of the temporary map, so that \<^verbatim>\<open>insert\<close> overwrites an entry that is committed
  and not yet touched and \<^verbatim>\<open>erase\<close> counts 0 for it; \<^verbatim>\<open>size\<close> counts the committed entries; the map
  is called empty as soon as one of the two parts is; \<^verbatim>\<open>commit\<close> drops the keys that were erased, also those written again.
\<close>
theorem safe_map_refines_map:
  "fst (map_count k m) = Inr (if lookup m k = None then 0 else 1) \<and> lookup (snd (map_count k m)) = lookup m
   \<and> fst (map_find k m) = Inr (lookup m k) \<and> lookup (snd (map_find k m)) = lookup m
   \<and> fst (map_contains k m) = Inr (lookup m k \<noteq> None) \<and> lookup (snd (map_contains k m)) = lookup m
   \<and> fst (map_find_const k m) = Inr (lookup m k) \<and> lookup (snd (map_find_const k m)) = lookup m
   \<and> fst (map_at k m) = (case lookup m k of None \<Rightarrow> Inl (DynamicException ''Key not found'') | Some v \<Rightarrow> Inr v)
   \<and> lookup (snd (map_at k m)) = lookup m
   \<and> fst (map_index d k m) = Inr (case lookup m k of None \<Rightarrow> d | Some v \<Rightarrow> v)
   \<and> lookup (snd (map_index d k m)) = (lookup m)(k \<mapsto> (case lookup m k of None \<Rightarrow> d | Some v \<Rightarrow> v))
   \<and> lookup (snd (map_index_assign d k v m)) = (lookup m)(k \<mapsto> v)
   \<and> fst (map_insert k v m) = Inr (ptr_map m k = None)
   \<and> lookup (snd (map_insert k v m)) = (if ptr_map m k = None then (lookup m)(k \<mapsto> v) else lookup m)
   \<and> fst (map_insert_or_assign k v m) = Inr (ptr_map m k = None)
   \<and> lookup (snd (map_insert_or_assign k v m)) = (lookup m)(k \<mapsto> v)
   \<and> fst (map_erase k m) = Inr (if ptr_map m k = None then 0 else 1)
   \<and> lookup (snd (map_erase k m)) = (lookup m)(k := None)
   \<and> fst (map_size m) = Inr (card (dom (sm_map m))) \<and> lookup (snd (map_size m)) = lookup m
   \<and> fst (map_is_empty m) = Inr (sm_map m = Map.empty \<or> ptr_map m = Map.empty) \<and> lookup (snd (map_is_empty m)) = lookup m
   \<and> lookup (map_commit m) = (lookup m) |` (- erased m)
   \<and> lookup (map_revert m) = sm_map m"
proof -
  have "ptr_map (snd (map_erase k m)) = (ptr_map m)(k := None)"
    "erased (snd (map_erase k m)) = insert k (erased m)" "sm_map (snd (map_erase k m)) = sm_map m"
    by (simp_all add: map_erase_def Let_def) (simp_all add: ptr_map_def erased_def)
  then have er: "lookup (snd (map_erase k m)) = (lookup m)(k := None)"
    by (intro ext) (simp add: lookup_def split: option.split)
  have at: "fst (map_at k m) = (case lookup m k of None \<Rightarrow> Inl (DynamicException ''Key not found'') | Some v \<Rightarrow> Inr v)"
    "lookup (snd (map_at k m)) = lookup m"
    using throw_facts[of k m] by (simp_all add: map_at_def bind_m_apply split: option.split)
  have reads: "fst (map_count k m) = Inr (if lookup m k = None then 0 else 1)" "lookup (snd (map_count k m)) = lookup m"
    "fst (map_find k m) = Inr (lookup m k)" "lookup (snd (map_find k m)) = lookup m"
    "fst (map_contains k m) = Inr (lookup m k \<noteq> None)" "lookup (snd (map_contains k m)) = lookup m"
    "fst (map_find_const k m) = Inr (lookup m k)" "lookup (snd (map_find_const k m)) = lookup m"
    using copy_facts[of k m] by (simp_all add: map_count_def map_find_def map_contains_def map_find_const_def Let_def)
  have writes: "fst (map_index d k m) = Inr (case lookup m k of None \<Rightarrow> d | Some v \<Rightarrow> v)"
    "lookup (snd (map_index d k m)) = (lookup m)(k \<mapsto> (case lookup m k of None \<Rightarrow> d | Some v \<Rightarrow> v))"
    "lookup (snd (map_index_assign d k v m)) = (lookup m)(k \<mapsto> v)"
    "fst (map_insert k v m) = Inr (ptr_map m k = None)"
    "lookup (snd (map_insert k v m)) = (if ptr_map m k = None then (lookup m)(k \<mapsto> v) else lookup m)"
    "fst (map_insert_or_assign k v m) = Inr (ptr_map m k = None)"
    "lookup (snd (map_insert_or_assign k v m)) = (lookup m)(k \<mapsto> v)"
    "fst (map_erase k m) = Inr (if ptr_map m k = None then 0 else 1)"
    using create_facts[of d k m] by (simp_all add: map_index_def map_index_assign_def bind_m_apply map_insert_def
        map_insert_or_assign_def map_erase_def Let_def)
  have wholes: "fst (map_size m) = Inr (card (dom (sm_map m)))" "lookup (snd (map_size m)) = lookup m"
    "fst (map_is_empty m) = Inr (sm_map m = Map.empty \<or> ptr_map m = Map.empty)" "lookup (snd (map_is_empty m)) = lookup m"
    "lookup (map_commit m) = (lookup m) |` (- erased m)"
    by (simp_all add: map_size_def map_is_empty_def Let_def) (simp add: fun_eq_iff lookup_commit restrict_map_def)
  show ?thesis
    by (intro conjI reads writes wholes er at lookup_revert)
qed

text \<open>
  \<^verbatim>\<open>commit\<close> keeps the visible map if and only if no erased key has been written
  again. Because the set of erased keys survives the commit, a key that one call erases is
  lost for good: what a later call writes there disappears when that call commits.
\<close>
theorem safe_map_commit_keeps_iff:
  "(lookup (map_commit m) = lookup m \<longleftrightarrow> (\<forall>k\<in>erased m. ptr_map m k = None))
   \<and> lookup (map_commit (snd (map_index_assign d k v (map_commit (snd (map_erase k m)))))) k = None"
proof
  have "k \<in> erased m \<Longrightarrow> lookup m k = ptr_map m k" for k
    by (simp add: lookup_def split: option.split)
  then show "lookup (map_commit m) = lookup m \<longleftrightarrow> (\<forall>k\<in>erased m. ptr_map m k = None)"
    by (auto simp: fun_eq_iff lookup_commit)
  let ?e = "map_commit (snd (map_erase k m))"
  have "k \<in> erased ?e" by (simp add: map_erase_def Let_def) (simp add: erased_def)
  moreover have "erased (snd (map_index_assign d k v ?e)) = erased ?e"
    by (simp add: map_index_assign_def map_index_def bind_m_apply Let_def checkKeyAndCreate_def
        split: option.split)
  ultimately show "lookup (map_commit (snd (map_index_assign d k v ?e))) k = None"
    by (simp add: lookup_commit)
qed

theorem safe_map_commit_keeps_iff_witness:
  "lookup (map_commit (snd (map_index_assign 0 (1 :: nat) (7 :: nat)
     (map_commit (snd (map_erase 1 (SafeMap_make True [1 \<mapsto> 3]))))))) 1 = None"
  using safe_map_commit_keeps_iff[of "SafeMap_make True [1 \<mapsto> 3]" 0 1 7] by blast

text \<open>
  A call that reverts leaves no trace in the map: from a clean map, after any
  sequence of operations, ending the call with a revert gives back the map from before, and
  with a commit the map as the call left it less the erased keys; either way it is clean.
\<close>
theorem safe_map_call_atomic:
  assumes "map_clean m0" "map_step\<^sup>*\<^sup>* m0 m"
  shows "lookup (map_logger_end False m) = lookup m0
    \<and> (\<forall>k. k \<notin> erased m \<longrightarrow> lookup (map_logger_end True m) k = lookup m k)
    \<and> map_clean (map_logger_end b m)"
proof -
  have "map_in_call m0 m"
    using map_steps_in_call[OF assms(2)] assms(1) by (simp add: map_clean_def map_in_call_def)
  then show ?thesis
    using map_logger_end_facts[of m0 m] assms(1) by (auto simp: map_clean_def)
qed

theorem safe_map_call_atomic_witness:
  "lookup (map_logger_end False (snd (map_erase (1 :: nat)
     \<lparr>sm_map = [1 \<mapsto> (3 :: nat)], sm_ptr = None, sm_erased = None, sm_owner = True,
       sm_registered = False, sm_should = True, sm_uses = 0\<rparr>))) = [1 \<mapsto> 3]"
  (is "lookup (_ (snd (map_erase 1 ?m))) = _")
proof -
  have l: "lookup ?m = [1 \<mapsto> 3]" by (rule ext) (simp add: lookup_def ptr_map_def erased_def)
  then have "map_clean ?m" unfolding map_clean_def by (simp only: safe_map.simps l simp_thms)
  moreover have "map_step\<^sup>*\<^sup>* ?m (snd (map_erase 1 ?m))" by (blast intro: map_step.step_erase)
  ultimately have "lookup (map_logger_end False (snd (map_erase 1 ?m))) = lookup ?m"
    using safe_map_call_atomic[of ?m] by blast
  then show ?thesis using l by (rule trans)
qed

end
