(* ===== verification/Safe_Vector.thy ===== *)
theory Safe_Vector
  imports Safe_Base
begin

text \<open>
  \<^verbatim>\<open>SafeVector\<close> of \<^verbatim>\<open>src/src/contract/variables/safevector.h\<close>: a committed vector and a
  \<^verbatim>\<open>std::map\<close> from indices to the elements a call has touched. The abstraction \<open>vec_view\<close> is
  the vector a contract sees; the operations are compared with those of lists, for every
  sequence of operations, commits and reverts.
\<close>

section \<open>Ordered maps\<close>

text \<open>\<^verbatim>\<open>std::map\<close> with numbers as keys: the entries in the order of the keys.\<close>

type_synonym 'a omap = "(nat \<times> 'a) list"

fun om_put :: "nat \<Rightarrow> 'a \<Rightarrow> 'a omap \<Rightarrow> 'a omap" where
  "om_put k x [] = [(k, x)]"
| "om_put k x ((j, y) # m) =
     (if k < j then (k, x) # (j, y) # m else if k = j then (k, x) # m else (j, y) # om_put k x m)"

definition om_emplace :: "nat \<Rightarrow> 'a \<Rightarrow> 'a omap \<Rightarrow> 'a omap" where
  "om_emplace k x m = (if map_of m k = None then om_put k x m else m)"

definition om_erase :: "nat \<Rightarrow> 'a omap \<Rightarrow> 'a omap" where
  "om_erase k m = filter (\<lambda>e. fst e \<noteq> k) m"

section \<open>State\<close>

record 'a safe_vector =
  vec_vector :: "'a list"
  vec_tmp :: "'a omap option"
  vec_max :: nat
  vec_clear :: bool
  vec_owner :: bool
  vec_registered :: bool
  vec_should :: bool
  vec_uses :: nat

definition SafeVector_make :: "bool \<Rightarrow> 'a safe_vector" where
  "SafeVector_make owner = \<lparr>vec_vector = [], vec_tmp = None, vec_max = 0, vec_clear = False,
     vec_owner = owner, vec_registered = False, vec_should = False, vec_uses = 0\<rparr>"

definition tmp_map :: "'a safe_vector \<Rightarrow> 'a omap" where
  "tmp_map s = (case vec_tmp s of None \<Rightarrow> [] | Some m \<Rightarrow> m)"

text \<open>The arithmetic of \<^verbatim>\<open>uint64_t\<close>.\<close>

definition inc64 :: "nat \<Rightarrow> nat" where
  "inc64 n = (n + 1) mod 2 ^ 64"

definition sub64 :: "nat \<Rightarrow> nat \<Rightarrow> nat" where
  "sub64 n k = (n + 2 ^ 64 - k) mod 2 ^ 64"

section \<open>Private helpers\<close>

definition vec_check :: "'a safe_vector \<Rightarrow> 'a safe_vector" where
  "vec_check s =
     (case vec_tmp s of
        None \<Rightarrow> s\<lparr>vec_tmp := Some [], vec_max := length (vec_vector s)\<rparr>
      | Some _ \<Rightarrow> s)"

definition vec_markAsUsed :: "'a safe_vector \<Rightarrow> 'a safe_vector" where
  "vec_markAsUsed s =
     (if vec_owner s \<and> \<not> vec_registered s \<and> vec_should s
      then s\<lparr>vec_uses := Suc (vec_uses s), vec_registered := True\<rparr> else s)"

text \<open>\<^verbatim>\<open>vector_[i]\<close>, which has no bounds check.\<close>

definition raw_at :: "'a list \<Rightarrow> nat \<Rightarrow> 'a res" where
  "raw_at xs i = (if i < length xs then Inr (xs ! i) else Inl UndefinedBehaviour)"

text \<open>An element as the loops look for it: in the map, else in the vector.\<close>

definition elem_at :: "'a list \<Rightarrow> 'a omap \<Rightarrow> nat \<Rightarrow> 'a res" where
  "elem_at xs m i = (case map_of m i of Some x \<Rightarrow> Inr x | None \<Rightarrow> raw_at xs i)"

definition vec_put :: "nat \<Rightarrow> 'a \<Rightarrow> 'a safe_vector \<Rightarrow> 'a safe_vector" where
  "vec_put i x s = s\<lparr>vec_tmp := Some (om_put i x (tmp_map s))\<rparr>"

definition checkIndexAndCopy :: "nat \<Rightarrow> ('a safe_vector, unit) meth" where
  "checkIndexAndCopy index = (\<lambda>s. let s = vec_check s in
     if index \<ge> vec_max s then (Inl OutOfRange, s)
     else if map_of (tmp_map s) index \<noteq> None then (Inr (), s)
     else case raw_at (vec_vector s) index of
            Inl e \<Rightarrow> (Inl e, s)
          | Inr x \<Rightarrow> (Inr (), s\<lparr>vec_tmp := Some (om_emplace index x (tmp_map s))\<rparr>))"

section \<open>Constructors\<close>

text \<open>The loops that emplace one element after the other at the end.\<close>

fun emplace_all :: "nat \<Rightarrow> 'a list \<Rightarrow> 'a omap \<Rightarrow> 'a omap" where
  "emplace_all i [] m = m"
| "emplace_all i (x # xs) m = emplace_all (i + 1) xs (om_emplace i x m)"

definition SafeVector_of :: "'a list \<Rightarrow> 'a safe_vector" where
  "SafeVector_of xs =
     (let s = vec_check (SafeVector_make False) in
      s\<lparr>vec_tmp := Some (emplace_all 0 xs (tmp_map s)), vec_max := length xs mod 2 ^ 64\<rparr>)"

text \<open>The copy constructor takes the map and the size, not the committed vector.\<close>

definition SafeVector_copy :: "'a safe_vector \<Rightarrow> 'a safe_vector" where
  "SafeVector_copy other =
     (let s = vec_check (SafeVector_make False); other = vec_check other in
      s\<lparr>vec_tmp := vec_tmp other, vec_max := vec_max other\<rparr>)"

section \<open>Operations\<close>

text \<open>The three overloads of \<^verbatim>\<open>assign\<close>, on the elements they go through.\<close>

definition vec_assign :: "'a list \<Rightarrow> ('a safe_vector, unit) meth" where
  "vec_assign xs = (\<lambda>s. let s = vec_check s in
     (Inr (), s\<lparr>vec_tmp := Some (emplace_all 0 xs []), vec_max := length xs mod 2 ^ 64, vec_clear := True\<rparr>))"

text \<open>
  \<^verbatim>\<open>at\<close> and \<^verbatim>\<open>operator[]\<close> return a reference: its use as a value, the assignment through it, and
  the use in a constant object, which does not register.
\<close>

definition vec_at :: "nat \<Rightarrow> ('a safe_vector, 'a) meth" where
  "vec_at pos = bind_m (checkIndexAndCopy pos) (\<lambda>_.
     bind_m (mod_m vec_markAsUsed) (\<lambda>_. get_m (\<lambda>s. the (map_of (tmp_map s) pos))))"

definition vec_at_const :: "nat \<Rightarrow> ('a safe_vector, 'a) meth" where
  "vec_at_const pos = bind_m (checkIndexAndCopy pos) (\<lambda>_. get_m (\<lambda>s. the (map_of (tmp_map s) pos)))"

definition vec_set :: "nat \<Rightarrow> 'a \<Rightarrow> ('a safe_vector, unit) meth" where
  "vec_set pos x = bind_m (checkIndexAndCopy pos) (\<lambda>_.
     bind_m (mod_m vec_markAsUsed) (\<lambda>_. mod_m (vec_put pos x)))"

definition vec_empty :: "'a safe_vector \<Rightarrow> bool" where
  "vec_empty s \<longleftrightarrow> vec_max s = 0"

definition vec_size :: "('a safe_vector, nat) meth" where
  "vec_size = (\<lambda>s. let s = vec_check s in (Inr (vec_max s), s))"

definition vec_clear_all :: "('a safe_vector, unit) meth" where
  "vec_clear_all = (\<lambda>s. let s = vec_markAsUsed (vec_check s) in
     (Inr (), s\<lparr>vec_tmp := Some [], vec_max := 0, vec_clear := True\<rparr>))"

text \<open>The loop of \<^verbatim>\<open>insert\<close>, from the end down to the position.\<close>

fun shift_right :: "'a list \<Rightarrow> nat \<Rightarrow> nat \<Rightarrow> 'a omap \<Rightarrow> 'a omap res" where
  "shift_right xs pos i m =
     (if i > pos
      then bind_r (elem_at xs m (i - 1)) (\<lambda>x. shift_right xs pos (i - 1) (om_put i x m))
      else Inr m)"

declare shift_right.simps [simp del]

definition vec_insert :: "nat \<Rightarrow> 'a \<Rightarrow> ('a safe_vector, nat) meth" where
  "vec_insert pos x = (\<lambda>s. let s = vec_markAsUsed (vec_check s) in
     if pos = vec_max s
     then (Inr pos, (vec_put pos x s)\<lparr>vec_max := inc64 (vec_max s)\<rparr>)
     else if pos < vec_max s
     then (case shift_right (vec_vector s) pos (vec_max s) (tmp_map s) of
             Inl e \<Rightarrow> (Inl e, s)
           | Inr m \<Rightarrow> (Inr pos, s\<lparr>vec_tmp := Some (om_put pos x m), vec_max := inc64 (vec_max s)\<rparr>))
     else (Inl OutOfRange, s))"

text \<open>The loops of both \<^verbatim>\<open>erase\<close>: the element \<open>num\<close> places further on moves to \<open>i\<close>.\<close>

function shift_left :: "'a list \<Rightarrow> nat \<Rightarrow> nat \<Rightarrow> nat \<Rightarrow> 'a omap \<Rightarrow> 'a omap res" where
  "shift_left xs num lim i m =
     (if i < lim
      then bind_r (elem_at xs m (i + num)) (\<lambda>x. shift_left xs num lim (i + 1) (om_put i x m))
      else Inr m)"
  by pat_completeness auto
termination
  by (relation "measure (\<lambda>(xs, num, lim, i, m). lim - i)") auto

declare shift_left.simps [simp del]

definition vec_erase :: "nat \<Rightarrow> ('a safe_vector, nat) meth" where
  "vec_erase pos = bind_m (checkIndexAndCopy pos) (\<lambda>_. (\<lambda>s. let s = vec_markAsUsed s in
     case shift_left (vec_vector s) 1 (sub64 (vec_max s) 1) pos (tmp_map s) of
       Inl e \<Rightarrow> (Inl e, s)
     | Inr m \<Rightarrow> (Inr pos, s\<lparr>vec_tmp := Some (om_erase (sub64 (vec_max s) 1) m),
                            vec_max := sub64 (vec_max s) 1\<rparr>)))"

fun erase_last :: "nat \<Rightarrow> nat \<Rightarrow> 'a omap \<Rightarrow> 'a omap" where
  "erase_last mx 0 m = m"
| "erase_last mx (Suc i) m = om_erase (sub64 (sub64 mx 1) i) (erase_last mx i m)"

definition vec_erase_range :: "nat \<Rightarrow> nat \<Rightarrow> ('a safe_vector, nat) meth" where
  "vec_erase_range fst' last' = (\<lambda>s. let s = vec_markAsUsed (vec_check s) in
     if fst' > last' \<or> last' > vec_max s then (Inl OutOfRange, s)
     else let num = last' - fst' in
       case shift_left (vec_vector s) num (vec_max s - num) fst' (tmp_map s) of
         Inl e \<Rightarrow> (Inl e, s)
       | Inr m \<Rightarrow> (Inr fst', s\<lparr>vec_tmp := Some (erase_last (vec_max s) num m), vec_max := vec_max s - num\<rparr>))"

definition vec_push_back :: "'a \<Rightarrow> ('a safe_vector, unit) meth" where
  "vec_push_back x = (\<lambda>s. let s = vec_markAsUsed (vec_check s) in
     (Inr (), s\<lparr>vec_tmp := Some (om_emplace (vec_max s) x (tmp_map s)), vec_max := inc64 (vec_max s)\<rparr>))"

definition vec_pop_back :: "('a safe_vector, unit) meth" where
  "vec_pop_back = (\<lambda>s. let s = vec_markAsUsed (vec_check s) in
     (Inr (), s\<lparr>vec_tmp := Some (om_erase (sub64 (vec_max s) 1) (tmp_map s)), vec_max := sub64 (vec_max s) 1\<rparr>))"

text \<open>The loop \<^verbatim>\<open>for (i = count; i < maxIndex_; i++) tmp_->erase(i)\<close>.\<close>

function erase_from :: "nat \<Rightarrow> nat \<Rightarrow> 'a omap \<Rightarrow> 'a omap" where
  "erase_from i mx m = (if i < mx then erase_from (i + 1) mx (om_erase i m) else m)"
  by pat_completeness auto
termination
  by (relation "measure (\<lambda>(i, mx, m). mx - i)") auto

declare erase_from.simps [simp del]

definition vec_resize :: "nat \<Rightarrow> 'a \<Rightarrow> ('a safe_vector, unit) meth" where
  "vec_resize count x = (\<lambda>s. let s = vec_check s;
     m = (if count < vec_max s then erase_from count (vec_max s) (tmp_map s)
          else emplace_all (vec_max s) (replicate (count - vec_max s) x) (tmp_map s))
     in (Inr (), vec_markAsUsed (s\<lparr>vec_tmp := Some m, vec_max := count\<rparr>)))"

text \<open>
  \<^verbatim>\<open>commit\<close>: the loop over the map overwrites what is inside the vector and appends the rest.
  The map stays, and so does the registration.
\<close>

definition commit_entry :: "'a list \<Rightarrow> nat \<times> 'a \<Rightarrow> 'a list" where
  "commit_entry v e = (if fst e < length v then v[fst e := snd e] else v @ [snd e])"

definition vec_commit :: "'a safe_vector \<Rightarrow> 'a safe_vector" where
  "vec_commit s =
     (let s = vec_check s;
          v = (if vec_clear s then [] else vec_vector s);
          v = take (vec_max s) v;
          v = foldl commit_entry v (tmp_map s)
      in s\<lparr>vec_vector := v, vec_clear := False, vec_max := length v mod 2 ^ 64\<rparr>)"

definition vec_revert :: "'a safe_vector \<Rightarrow> 'a safe_vector" where
  "vec_revert s = s\<lparr>vec_tmp := None, vec_clear := False, vec_max := length (vec_vector s)\<rparr>"

definition vec_get :: "'a safe_vector \<Rightarrow> 'a list" where
  "vec_get s = vec_vector s"


section \<open>Lemmas: ordered maps\<close>

abbreviation om_sorted :: "'a omap \<Rightarrow> bool" where
  "om_sorted m \<equiv> sorted_wrt (<) (map fst m)"

lemma map_of_om_put [simp]: "map_of (om_put k x m) = (map_of m)(k \<mapsto> x)"
  by (induction k x m rule: om_put.induct) auto

lemma fst_om_put: "set (map fst (om_put k x m)) = insert k (set (map fst m))"
  by (induction k x m rule: om_put.induct) auto

lemma om_sorted_put [simp]: "om_sorted m \<Longrightarrow> om_sorted (om_put k x m)"
proof (induction k x m rule: om_put.induct)
  case (2 k x j y m)
  have "fst ` set (om_put k x m) = insert k (fst ` set m)" using fst_om_put[of k x m] by simp
  with 2 show ?case by auto
qed simp

lemma map_of_om_emplace: "map_of (om_emplace k x m) = (if map_of m k = None then (map_of m)(k \<mapsto> x) else map_of m)"
  by (simp add: om_emplace_def)

lemma om_sorted_emplace [simp]: "om_sorted m \<Longrightarrow> om_sorted (om_emplace k x m)"
  by (simp add: om_emplace_def)

lemma map_of_om_erase [simp]: "map_of (om_erase k m) = (map_of m)(k := None)"
  by (induction m) (auto simp: om_erase_def)

lemma om_sorted_erase [simp]: "om_sorted m \<Longrightarrow> om_sorted (om_erase k m)"
  by (simp add: om_erase_def sorted_wrt_map sorted_wrt_filter)

lemma emplace_all_facts:
  "map_of (emplace_all i xs m) j =
     (if map_of m j = None \<and> i \<le> j \<and> j < i + length xs then Some (xs ! (j - i)) else map_of m j)"
  "om_sorted m \<Longrightarrow> om_sorted (emplace_all i xs m)"
  by (induction i xs m rule: emplace_all.induct) (auto simp: map_of_om_emplace nth_Cons')

lemma erase_from_facts:
  "map_of (erase_from i mx m) j = (if i \<le> j \<and> j < mx then None else map_of m j)"
  "om_sorted m \<Longrightarrow> om_sorted (erase_from i mx m)"
proof (induction i mx m rule: erase_from.induct)
  case (1 i mx m)
  { case 1 show ?case using "1.IH"(1) by (subst erase_from.simps) auto
  next
    case 2 then show ?case using "1.IH"(2) by (subst erase_from.simps) auto }
qed

lemma sub64_exact: "k \<le> n \<Longrightarrow> n < 2 ^ 64 \<Longrightarrow> sub64 n k = n - k"
proof -
  assume "k \<le> n" "n < 2 ^ 64"
  then have "n + 2 ^ 64 - k = (n - k) + 2 ^ 64" "n - k < 2 ^ 64" by simp_all
  then show ?thesis by (simp only: sub64_def mod_add_self2 mod_less)
qed

lemma inc64_exact: "n + 1 < 2 ^ 64 \<Longrightarrow> inc64 n = n + 1"
  by (simp add: inc64_def)

lemma erase_last_facts:
  assumes "num \<le> mx" "mx < 2 ^ 64"
  shows "map_of (erase_last mx num m) j = (if mx - num \<le> j \<and> j < mx then None else map_of m j)"
    and "om_sorted m \<Longrightarrow> om_sorted (erase_last mx num m)"
  using assms
proof (induction num)
  case (Suc num)
  have e: "sub64 (sub64 mx 1) num = mx - 1 - num" if "Suc num \<le> mx" "mx < 2 ^ 64"
    using that by (simp add: sub64_exact)
  { case 1 then show ?case using Suc.IH(1) e by auto
  next
    case 2 then show ?case using Suc.IH(2) by simp }
qed auto

section \<open>Lemmas: the loops\<close>

lemma shift_right_eq:
  assumes "\<And>j. pos \<le> j \<Longrightarrow> j < i \<Longrightarrow> elem_at xs m j = Inr (e j)" "om_sorted m"
  shows "\<exists>m'. shift_right xs pos i m = Inr m' \<and> om_sorted m' \<and>
    map_of m' = (\<lambda>j. if pos < j \<and> j \<le> i then Some (e (j - 1)) else map_of m j)"
  using assms
proof (induction i arbitrary: m)
  case 0
  then show ?case by (subst shift_right.simps) (auto simp: fun_eq_iff)
next
  case (Suc i)
  show ?case
  proof (cases "pos < Suc i")
    case True
    have eq: "shift_right xs pos (Suc i) m = shift_right xs pos i (om_put (Suc i) (e i) m)"
      using True Suc.prems(1)[of i] by (subst shift_right.simps) simp
    have "elem_at xs (om_put (Suc i) (e i) m) j = Inr (e j)" if "pos \<le> j" "j < i" for j
      using Suc.prems(1)[of j] that by (simp add: elem_at_def)
    from Suc.IH[OF this om_sorted_put[OF Suc.prems(2)]] show ?thesis
      unfolding eq using True by (fastforce simp: fun_eq_iff le_Suc_eq)
  next
    case False
    then show ?thesis using Suc.prems(2) by (subst shift_right.simps) (auto simp: fun_eq_iff)
  qed
qed

lemma shift_left_eq:
  assumes "\<And>j. i + num \<le> j \<Longrightarrow> j < lim + num \<Longrightarrow> elem_at xs m j = Inr (e j)" "om_sorted m"
  shows "\<exists>m'. shift_left xs num lim i m = Inr m' \<and> om_sorted m' \<and>
    map_of m' = (\<lambda>j. if i \<le> j \<and> j < lim then Some (e (j + num)) else map_of m j)"
  using assms
proof (induction xs num lim i m rule: shift_left.induct)
  case (1 xs num lim i m)
  show ?case
  proof (cases "i < lim")
    case True
    have x: "elem_at xs m (i + num) = Inr (e (i + num))" using "1.prems"(1)[of "i + num"] True by simp
    have eq: "shift_left xs num lim i m = shift_left xs num lim (i + 1) (om_put i (e (i + num)) m)"
      using True x by (subst shift_left.simps) simp
    have "elem_at xs (om_put i (e (i + num)) m) j = Inr (e j)" if "i + 1 + num \<le> j" "j < lim + num" for j
      using "1.prems"(1)[of j] that by (simp add: elem_at_def)
    from "1.IH"[OF True this om_sorted_put[OF "1.prems"(2)]] show ?thesis
      unfolding eq using True by (fastforce simp: fun_eq_iff)
  next
    case False
    then show ?thesis using "1.prems"(2) by (subst shift_left.simps) (auto simp: fun_eq_iff)
  qed
qed

section \<open>The vector a contract sees\<close>

definition vec_view :: "'a safe_vector \<Rightarrow> 'a list" where
  "vec_view s = map (\<lambda>i. case map_of (tmp_map s) i of Some x \<Rightarrow> x | None \<Rightarrow> vec_vector s ! i) [0..<vec_max s]"

text \<open>
  The invariant: the keys are below the size, and an index that is not in the map is one of
  the committed vector, which then has not been cleared.
\<close>

definition vec_ok :: "'a safe_vector \<Rightarrow> bool" where
  "vec_ok s \<longleftrightarrow> vec_max s < 2 ^ 64 \<and> om_sorted (tmp_map s)
     \<and> (\<forall>k. map_of (tmp_map s) k \<noteq> None \<longrightarrow> k < vec_max s)
     \<and> (\<forall>i < vec_max s. map_of (tmp_map s) i = None \<longrightarrow> i < length (vec_vector s) \<and> \<not> vec_clear s)
     \<and> (vec_tmp s = None \<longrightarrow> vec_max s = length (vec_vector s) \<and> \<not> vec_clear s)"

lemma length_view [simp]: "length (vec_view s) = vec_max s"
  by (simp add: vec_view_def)

lemma vec_okI:
  assumes "vec_tmp s = Some m" "om_sorted m" "vec_max s = length ys" "length ys < 2 ^ 64"
    "\<And>k. length ys \<le> k \<Longrightarrow> map_of m k = None"
    "\<And>i. i < length ys \<Longrightarrow> map_of m i = Some (ys ! i) \<or>
      (map_of m i = None \<and> i < length (vec_vector s) \<and> \<not> vec_clear s \<and> vec_vector s ! i = ys ! i)"
  shows "vec_ok s \<and> vec_view s = ys"
proof
  have tmp: "tmp_map s = m" using assms(1) by (simp add: tmp_map_def)
  show "vec_ok s" using assms unfolding vec_ok_def tmp by (metis linorder_not_le option.distinct(1))
  have "vec_view s ! i = ys ! i" if "i < length ys" for i
    using assms(3) assms(6)[OF that] that by (auto simp: vec_view_def tmp)
  then show "vec_view s = ys" using assms(3) by (intro nth_equalityI) simp_all
qed

lemma vec_okE:
  assumes "vec_ok s" "i < vec_max s"
  obtains "map_of (tmp_map s) i = Some (vec_view s ! i)"
  | "map_of (tmp_map s) i = None" "i < length (vec_vector s)" "\<not> vec_clear s" "vec_vector s ! i = vec_view s ! i"
  using assms by (cases "map_of (tmp_map s) i") (auto simp: vec_ok_def vec_view_def)

lemma vec_ok_elem: "vec_ok s \<Longrightarrow> i < vec_max s \<Longrightarrow> elem_at (vec_vector s) (tmp_map s) i = Inr (vec_view s ! i)"
  by (erule (1) vec_okE) (simp_all add: elem_at_def raw_at_def)

lemma vec_ok_facts:
  assumes "vec_ok s"
  shows "vec_max s < 2 ^ 64" "om_sorted (tmp_map s)" "vec_max s \<le> k \<Longrightarrow> map_of (tmp_map s) k = None"
  using assms unfolding vec_ok_def by (auto simp: linorder_not_less[symmetric])

lemma vec_check_facts [simp]:
  "vec_vector (vec_check s) = vec_vector s" "\<exists>m. vec_tmp (vec_check s) = Some m" "tmp_map (vec_check s) = tmp_map s"
  "vec_clear (vec_check s) = vec_clear s"
  by (auto simp: vec_check_def tmp_map_def split: option.splits)

lemma vec_check_ok: "vec_ok s \<Longrightarrow> vec_max (vec_check s) = vec_max s \<and> vec_ok (vec_check s) \<and> vec_view (vec_check s) = vec_view s"
proof (cases "vec_tmp s")
  case None
  assume "vec_ok s"
  then have "vec_max s = length (vec_vector s)" "vec_max s < 2 ^ 64" "\<not> vec_clear s" using None by (simp_all add: vec_ok_def)
  then show ?thesis using None by (simp add: vec_check_def vec_ok_def tmp_map_def vec_view_def)
qed (simp add: vec_check_def)

lemma vec_mark_facts [simp]:
  "vec_vector (vec_markAsUsed s) = vec_vector s" "vec_tmp (vec_markAsUsed s) = vec_tmp s"
  "tmp_map (vec_markAsUsed s) = tmp_map s" "vec_max (vec_markAsUsed s) = vec_max s"
  "vec_clear (vec_markAsUsed s) = vec_clear s" "vec_ok (vec_markAsUsed s) = vec_ok s"
  "vec_view (vec_markAsUsed s) = vec_view s"
  by (simp_all add: vec_markAsUsed_def tmp_map_def vec_ok_def vec_view_def cong: option.case_cong)

section \<open>Lemmas: the operations on the view\<close>

text \<open>The operation has this result, keeps the invariant and the committed vector, and the view becomes \<open>ys\<close>.\<close>

definition vec_does :: "('a safe_vector, 'r) meth \<Rightarrow> 'a safe_vector \<Rightarrow> 'r res \<Rightarrow> 'a list \<Rightarrow> bool" where
  "vec_does f s r ys \<longleftrightarrow> (\<exists>s'. f s = (r, s') \<and> vec_ok s' \<and> vec_view s' = ys \<and> vec_vector s' = vec_vector s)"

lemma vec_doesI:
  assumes "f s = (r, s')" "vec_vector s' = vec_vector s" "vec_tmp s' = Some m" "om_sorted m" "vec_max s' = length ys"
    "length ys < 2 ^ 64" "\<And>k. length ys \<le> k \<Longrightarrow> map_of m k = None"
    "\<And>i. i < length ys \<Longrightarrow> map_of m i = Some (ys ! i) \<or>
      (map_of m i = None \<and> i < length (vec_vector s) \<and> \<not> vec_clear s' \<and> vec_vector s ! i = ys ! i)"
  shows "vec_does f s r ys"
  using assms vec_okI[of s' m ys] unfolding vec_does_def by auto

lemma checkIndex_out:
  "vec_ok s \<Longrightarrow> vec_max s \<le> i \<Longrightarrow> vec_does (checkIndexAndCopy i) s (Inl OutOfRange) (vec_view s)"
  using vec_check_ok[of s] by (simp add: vec_does_def checkIndexAndCopy_def Let_def)

lemma checkIndex_in:
  assumes "vec_ok s" "i < vec_max s"
  shows "\<exists>s'. checkIndexAndCopy i s = (Inr (), s') \<and> vec_ok s' \<and> vec_view s' = vec_view s \<and>
    vec_vector s' = vec_vector s \<and> vec_tmp s' \<noteq> None \<and> vec_max s' = vec_max s \<and>
    map_of (tmp_map s') i = Some (vec_view s ! i)"
proof -
  let ?c = "vec_check s"
  note c = vec_check_ok[OF assms(1)]
  show ?thesis
  proof (cases "map_of (tmp_map s) i")
    case (Some x)
    then have "x = vec_view s ! i" using vec_okE[OF assms] by fastforce
    then show ?thesis using Some c assms(2) vec_check_facts(2)[of s] by (simp add: checkIndexAndCopy_def Let_def)
  next
    case None
    have i: "i < length (vec_vector s)" "vec_vector s ! i = vec_view s ! i" using vec_okE[OF assms] None by fastforce+
    let ?s = "?c\<lparr>vec_tmp := Some (om_emplace i (vec_view s ! i) (tmp_map s))\<rparr>"
    have "vec_ok ?s \<and> vec_view ?s = vec_view s"
    proof (rule vec_okI)
      show "vec_tmp ?s = Some (om_emplace i (vec_view s ! i) (tmp_map s))" by simp
      show "om_sorted (om_emplace i (vec_view s ! i) (tmp_map s))" using vec_ok_facts(2)[OF assms(1)] by simp
      show "vec_max ?s = length (vec_view s)" using c by simp
      show "length (vec_view s) < 2 ^ 64" using vec_ok_facts(1)[OF assms(1)] by simp
      show "map_of (om_emplace i (vec_view s ! i) (tmp_map s)) k = None" if "length (vec_view s) \<le> k" for k
        using that assms(2) vec_ok_facts(3)[OF assms(1), of k] by (auto simp: map_of_om_emplace)
      fix j assume "j < length (vec_view s)"
      then have j: "j < vec_max s" by simp
      show "map_of (om_emplace i (vec_view s ! i) (tmp_map s)) j = Some (vec_view s ! j) \<or>
        (map_of (om_emplace i (vec_view s ! i) (tmp_map s)) j = None \<and> j < length (vec_vector ?s) \<and>
         \<not> vec_clear ?s \<and> vec_vector ?s ! j = vec_view s ! j)"
        using None by (cases "j = i") (use vec_okE[OF assms(1) j] in \<open>auto simp: map_of_om_emplace\<close>)
    qed
    then show ?thesis
      using None i c assms(2)
      by (auto simp: checkIndexAndCopy_def Let_def raw_at_def tmp_map_def[of ?s] map_of_om_emplace)
  qed
qed

lemma vec_at_facts:
  assumes "vec_ok s"
  shows "i < vec_max s \<Longrightarrow> vec_does (vec_at i) s (Inr (vec_view s ! i)) (vec_view s)"
    "i < vec_max s \<Longrightarrow> vec_does (vec_at_const i) s (Inr (vec_view s ! i)) (vec_view s)"
    "vec_max s \<le> i \<Longrightarrow> vec_does (vec_at i) s (Inl OutOfRange) (vec_view s)"
    "vec_max s \<le> i \<Longrightarrow> vec_does (vec_at_const i) s (Inl OutOfRange) (vec_view s)"
    "vec_max s \<le> i \<Longrightarrow> vec_does (vec_set i x) s (Inl OutOfRange) (vec_view s)"
    "vec_max s \<le> i \<Longrightarrow> vec_does (vec_erase i) s (Inl OutOfRange) (vec_view s)"
  using checkIndex_in[OF assms, of i] checkIndex_out[OF assms, of i]
  by (auto simp: vec_does_def vec_at_def vec_at_const_def vec_set_def vec_erase_def bind_m_apply)

lemma vec_set_in:
  assumes "vec_ok s" "i < vec_max s"
  shows "vec_does (vec_set i x) s (Inr ()) ((vec_view s)[i := x])"
proof -
  from checkIndex_in[OF assms] obtain s' where s': "checkIndexAndCopy i s = (Inr (), s')" "vec_ok s'"
    "vec_view s' = vec_view s" "vec_vector s' = vec_vector s" "vec_max s' = vec_max s" by blast
  let ?t = "vec_put i x (vec_markAsUsed s')" and ?m = "om_put i x (tmp_map s')"
  show ?thesis
  proof (rule vec_doesI)
    show "vec_set i x s = (Inr (), ?t)" by (simp add: vec_set_def bind_m_apply s'(1))
    show "vec_tmp ?t = Some ?m" by (simp add: vec_put_def)
    show "om_sorted ?m" using vec_ok_facts(2)[OF s'(2)] by simp
    show "length ((vec_view s)[i := x]) < 2 ^ 64" using vec_ok_facts(1)[OF assms(1)] by simp
    show "map_of ?m k = None" if "length ((vec_view s)[i := x]) \<le> k" for k
      using that assms(2) vec_ok_facts(3)[OF s'(2), of k] s'(5) by simp
    fix j assume "j < length ((vec_view s)[i := x])"
    then have j: "j < vec_max s'" using s'(5) by simp
    show "map_of ?m j = Some ((vec_view s)[i := x] ! j) \<or>
        (map_of ?m j = None \<and> j < length (vec_vector s) \<and> \<not> vec_clear ?t \<and> vec_vector s ! j = (vec_view s)[i := x] ! j)"
      using assms(2) s'(3,4) by (cases "j = i") (use vec_okE[OF s'(2) j] in \<open>auto simp: vec_put_def nth_list_update\<close>)
  qed (simp_all add: vec_put_def s')
qed

lemma vec_assign_does: "vec_ok s \<Longrightarrow> length xs < 2 ^ 64 \<Longrightarrow> vec_does (vec_assign xs) s (Inr ()) xs"
  by (rule vec_doesI[of _ _ _ "(vec_check s)\<lparr>vec_tmp := Some (emplace_all 0 xs []), vec_max := length xs, vec_clear := True\<rparr>"
        "emplace_all 0 xs []"])
    (auto simp: vec_assign_def Let_def emplace_all_facts(1) intro!: emplace_all_facts(2))

lemma vec_clear_does: "vec_ok s \<Longrightarrow> vec_does vec_clear_all s (Inr ()) []"
  by (rule vec_doesI[of _ _ _ "(vec_markAsUsed (vec_check s))\<lparr>vec_tmp := Some [], vec_max := 0, vec_clear := True\<rparr>" "[]"])
    (auto simp: vec_clear_all_def Let_def)

lemma vec_size_does: "vec_ok s \<Longrightarrow> vec_does vec_size s (Inr (length (vec_view s))) (vec_view s)"
  using vec_check_ok[of s] by (auto simp: vec_does_def vec_size_def Let_def)

text \<open>What the map holds for an index of the view, in the form \<open>vec_doesI\<close> asks for.\<close>

lemma vec_slot:
  assumes "vec_ok s" "i < vec_max s"
  shows "map_of (tmp_map s) i = Some (vec_view s ! i) \<or>
    (map_of (tmp_map s) i = None \<and> i < length (vec_vector s) \<and> \<not> vec_clear s \<and> vec_vector s ! i = vec_view s ! i)"
  by (rule vec_okE[OF assms]) auto

lemma vec_push_back_does:
  assumes "vec_ok s" "vec_max s + 1 < 2 ^ 64"
  shows "vec_does (vec_push_back x) s (Inr ()) (vec_view s @ [x])"
proof (rule vec_doesI[of _ _ _ _ "om_emplace (vec_max s) x (tmp_map s)"])
  note c = vec_check_ok[OF assms(1)]
  show "vec_push_back x s = (Inr (), (vec_markAsUsed (vec_check s))\<lparr>vec_tmp :=
    Some (om_emplace (vec_max s) x (tmp_map s)), vec_max := vec_max s + 1\<rparr>)"
    using c assms(2) by (simp add: vec_push_back_def Let_def inc64_exact)
  have new: "map_of (tmp_map s) (vec_max s) = None" using vec_ok_facts(3)[OF assms(1)] by simp
  show "map_of (om_emplace (vec_max s) x (tmp_map s)) k = None" if "length (vec_view s @ [x]) \<le> k" for k
    using that vec_ok_facts(3)[OF assms(1), of k] new by (simp add: map_of_om_emplace)
  fix i assume "i < length (vec_view s @ [x])"
  then show "map_of (om_emplace (vec_max s) x (tmp_map s)) i = Some ((vec_view s @ [x]) ! i) \<or>
    map_of (om_emplace (vec_max s) x (tmp_map s)) i = None \<and> i < length (vec_vector s) \<and>
    \<not> vec_clear ((vec_markAsUsed (vec_check s))\<lparr>vec_tmp := Some (om_emplace (vec_max s) x (tmp_map s)),
      vec_max := vec_max s + 1\<rparr>) \<and> vec_vector s ! i = (vec_view s @ [x]) ! i"
    using new vec_slot[OF assms(1), of i] by (cases "i = vec_max s") (auto simp: map_of_om_emplace nth_append)
qed (use assms vec_ok_facts(2)[OF assms(1)] in simp_all)

lemma vec_pop_back_does:
  assumes "vec_ok s" "vec_view s \<noteq> []"
  shows "vec_does vec_pop_back s (Inr ()) (butlast (vec_view s))"
proof (rule vec_doesI[of _ _ _ _ "om_erase (vec_max s - 1) (tmp_map s)"])
  note c = vec_check_ok[OF assms(1)]
  have pos: "1 \<le> vec_max s" using assms(2) by (simp add: Suc_le_eq flip: length_view)
  let ?s = "(vec_markAsUsed (vec_check s))\<lparr>vec_tmp := Some (om_erase (vec_max s - 1) (tmp_map s)), vec_max := vec_max s - 1\<rparr>"
  show "vec_pop_back s = (Inr (), ?s)"
    using c pos vec_ok_facts(1)[OF assms(1)] by (simp add: vec_pop_back_def Let_def sub64_exact)
  show "map_of (om_erase (vec_max s - 1) (tmp_map s)) k = None" if "length (butlast (vec_view s)) \<le> k" for k
    using that vec_ok_facts(3)[OF assms(1), of k] by (cases "k = vec_max s - 1") auto
  fix i assume i: "i < length (butlast (vec_view s))"
  then show "map_of (om_erase (vec_max s - 1) (tmp_map s)) i = Some (butlast (vec_view s) ! i) \<or>
    map_of (om_erase (vec_max s - 1) (tmp_map s)) i = None \<and> i < length (vec_vector s) \<and>
    \<not> vec_clear ?s \<and> vec_vector s ! i = butlast (vec_view s) ! i"
    using vec_slot[OF assms(1), of i] by (auto simp: nth_butlast)
qed (use vec_ok_facts[OF assms(1)] in \<open>simp_all add: less_imp_diff_less\<close>)

lemma vec_resize_does:
  assumes "vec_ok s" "count < 2 ^ 64"
  shows "vec_does (vec_resize count x) s (Inr ()) (take count (vec_view s) @ replicate (count - vec_max s) x)"
proof -
  note c = vec_check_ok[OF assms(1)]
  let ?ys = "take count (vec_view s) @ replicate (count - vec_max s) x"
  let ?m = "if count < vec_max s then erase_from count (vec_max s) (tmp_map s)
    else emplace_all (vec_max s) (replicate (count - vec_max s) x) (tmp_map s)"
  have len: "length ?ys = count" by simp
  have m: "map_of ?m k = (if count \<le> k then None else if k < vec_max s then map_of (tmp_map s) k else Some x)" for k
    using vec_ok_facts(3)[OF assms(1), of k] by (auto simp: erase_from_facts(1) emplace_all_facts(1))
  show ?thesis
  proof (rule vec_doesI[of _ _ _ _ ?m])
    show "vec_resize count x s = (Inr (), vec_markAsUsed ((vec_check s)\<lparr>vec_tmp := Some ?m, vec_max := count\<rparr>))"
      using c by (simp add: vec_resize_def Let_def)
    show "om_sorted ?m" using vec_ok_facts(2)[OF assms(1)] by (simp add: erase_from_facts(2) emplace_all_facts(2))
    show "map_of ?m k = None" if "length ?ys \<le> k" for k using that len m by simp
    fix i assume i: "i < length ?ys"
    show "map_of ?m i = Some (?ys ! i) \<or> (map_of ?m i = None \<and> i < length (vec_vector s) \<and>
      \<not> vec_clear (vec_markAsUsed ((vec_check s)\<lparr>vec_tmp := Some ?m, vec_max := count\<rparr>)) \<and> vec_vector s ! i = ?ys ! i)"
      unfolding m using i len vec_slot[OF assms(1), of i] by (auto simp: nth_append)
  qed (use assms(2) len in simp_all)
qed

lemma vec_insert_does:
  assumes "vec_ok s" "vec_max s + 1 < 2 ^ 64" "pos \<le> vec_max s"
  shows "vec_does (vec_insert pos x) s (Inr pos) (take pos (vec_view s) @ x # drop pos (vec_view s))"
proof -
  note c = vec_check_ok[OF assms(1)]
  let ?c = "vec_markAsUsed (vec_check s)" and ?ys = "take pos (vec_view s) @ x # drop pos (vec_view s)"
  have "elem_at (vec_vector s) (tmp_map s) j = Inr (vec_view s ! j)" if "pos \<le> j" "j < vec_max s" for j
    using vec_ok_elem[OF assms(1) that(2)] .
  from shift_right_eq[OF this vec_ok_facts(2)[OF assms(1)]] obtain m where
    m: "shift_right (vec_vector s) pos (vec_max s) (tmp_map s) = Inr m" "om_sorted m"
      "map_of m = (\<lambda>j. if pos < j \<and> j \<le> vec_max s then Some (vec_view s ! (j - 1)) else map_of (tmp_map s) j)" by blast
  let ?s = "?c\<lparr>vec_tmp := Some (om_put pos x m), vec_max := vec_max s + 1\<rparr>"
  show ?thesis
  proof (rule vec_doesI[of _ _ _ ?s "om_put pos x m"])
    have "m = tmp_map s" if "pos = vec_max s" using m(1) that by (subst (asm) shift_right.simps) simp
    then show "vec_insert pos x s = (Inr pos, ?s)"
      using c assms(2,3) m(1) by (auto simp: vec_insert_def Let_def inc64_exact vec_put_def)
    show "vec_max ?s = length ?ys" "length ?ys < 2 ^ 64" using assms(2,3) by simp_all
    show "map_of (om_put pos x m) k = None" if "length ?ys \<le> k" for k
      using that assms(3) vec_ok_facts(3)[OF assms(1), of k] by (simp add: m(3))
    fix i assume i: "i < length ?ys"
    show "map_of (om_put pos x m) i = Some (?ys ! i) \<or> (map_of (om_put pos x m) i = None \<and>
      i < length (vec_vector s) \<and> \<not> vec_clear ?s \<and> vec_vector s ! i = ?ys ! i)"
    proof (cases "i < pos")
      case True
      then show ?thesis using vec_slot[OF assms(1), of i] assms(3) by (auto simp: m(3) nth_append)
    next
      case False
      then show ?thesis using i assms(3) by (auto simp: m(3) nth_append nth_Cons')
    qed
  qed (use m(2) in simp_all)
qed

text \<open>Both \<^verbatim>\<open>erase\<close>: the elements behind the gap move, the indices at the end leave the map.\<close>

lemma erase_gap:
  assumes "vec_ok s" "a + num \<le> vec_max s" "vec_vector s' = vec_vector s" "\<not> vec_clear s \<longrightarrow> \<not> vec_clear s'"
    "map_of m = (\<lambda>j. if vec_max s - num \<le> j \<and> j < vec_max s then None
      else if a \<le> j \<and> j < vec_max s - num then Some (vec_view s ! (j + num)) else map_of (tmp_map s) j)"
    "om_sorted m" "vec_tmp s' = Some m" "vec_max s' = vec_max s - num" "f s = (r, s')"
  shows "vec_does f s r (take a (vec_view s) @ drop (a + num) (vec_view s))"
proof (rule vec_doesI[of f s r s' m])
  let ?ys = "take a (vec_view s) @ drop (a + num) (vec_view s)"
  have len: "length ?ys = vec_max s - num" using assms(2) by simp
  show "vec_max s' = length ?ys" using len assms(8) by simp
  show "length ?ys < 2 ^ 64" using len vec_ok_facts(1)[OF assms(1)] by simp
  show "map_of m k = None" if "length ?ys \<le> k" for k
    using that vec_ok_facts(3)[OF assms(1), of k] unfolding len assms(5) by auto
  fix i assume i: "i < length ?ys"
  then show "map_of m i = Some (?ys ! i) \<or> (map_of m i = None \<and> i < length (vec_vector s) \<and>
    \<not> vec_clear s' \<and> vec_vector s ! i = ?ys ! i)"
    using vec_slot[OF assms(1), of i] assms(2,4) unfolding len assms(5)
    by (cases "i < a") (auto simp: nth_append add.commute)
qed (use assms in simp_all)

lemma shift_gap:
  assumes "vec_ok s" "a + num \<le> vec_max s"
  obtains m where "shift_left (vec_vector s) num (vec_max s - num) a (tmp_map s) = Inr m" "om_sorted m"
    "map_of m = (\<lambda>j. if a \<le> j \<and> j < vec_max s - num then Some (vec_view s ! (j + num)) else map_of (tmp_map s) j)"
proof -
  have "elem_at (vec_vector s) (tmp_map s) j = Inr (vec_view s ! j)" if "a + num \<le> j" "j < vec_max s - num + num" for j
    using that assms(2) by (intro vec_ok_elem[OF assms(1)]) simp
  from shift_left_eq[OF this vec_ok_facts(2)[OF assms(1)]] show ?thesis using that by blast
qed

lemma vec_erase_range_does:
  assumes "vec_ok s" "a \<le> b" "b \<le> vec_max s"
  shows "vec_does (vec_erase_range a b) s (Inr a) (take a (vec_view s) @ drop b (vec_view s))"
proof -
  note c = vec_check_ok[OF assms(1)]
  have le: "a + (b - a) \<le> vec_max s" and num: "b - a \<le> vec_max s" using assms(2,3) by simp_all
  from shift_gap[OF assms(1) le] obtain m where m:
    "shift_left (vec_vector s) (b - a) (vec_max s - (b - a)) a (tmp_map s) = Inr m" "om_sorted m"
    "map_of m = (\<lambda>j. if a \<le> j \<and> j < vec_max s - (b - a) then Some (vec_view s ! (j + (b - a))) else map_of (tmp_map s) j)" .
  note last = erase_last_facts[OF num vec_ok_facts(1)[OF assms(1)]]
  let ?s = "(vec_markAsUsed (vec_check s))\<lparr>vec_tmp := Some (erase_last (vec_max s) (b - a) m), vec_max := vec_max s - (b - a)\<rparr>"
  have "vec_does (vec_erase_range a b) s (Inr a) (take a (vec_view s) @ drop (a + (b - a)) (vec_view s))"
  proof (rule erase_gap[OF assms(1) le, of ?s "erase_last (vec_max s) (b - a) m"])
    show "vec_erase_range a b s = (Inr a, ?s)"
      using c assms(2,3) m(1) by (simp add: vec_erase_range_def Let_def)
    show "map_of (erase_last (vec_max s) (b - a) m) = (\<lambda>j. if vec_max s - (b - a) \<le> j \<and> j < vec_max s then None
      else if a \<le> j \<and> j < vec_max s - (b - a) then Some (vec_view s ! (j + (b - a))) else map_of (tmp_map s) j)"
      by (rule ext) (simp only: last(1) m(3))
  qed (use last(2)[OF m(2)] in simp_all)
  then show ?thesis using assms(2) by simp
qed

lemma vec_erase_does:
  assumes "vec_ok s" "i < vec_max s"
  shows "vec_does (vec_erase i) s (Inr i) (take i (vec_view s) @ drop (i + 1) (vec_view s))"
proof -
  from checkIndex_in[OF assms] obtain s' where s': "checkIndexAndCopy i s = (Inr (), s')" "vec_ok s'"
    "vec_view s' = vec_view s" "vec_vector s' = vec_vector s" "vec_max s' = vec_max s" by blast
  let ?c = "vec_markAsUsed s'"
  have le: "i + 1 \<le> vec_max s'" using assms(2) s'(5) by simp
  have sub: "sub64 (vec_max s') 1 = vec_max s' - 1" using le vec_ok_facts(1)[OF s'(2)] by (simp add: sub64_exact)
  from shift_gap[OF s'(2) le] obtain m where m:
    "shift_left (vec_vector s') 1 (vec_max s' - 1) i (tmp_map s') = Inr m" "om_sorted m"
    "map_of m = (\<lambda>j. if i \<le> j \<and> j < vec_max s' - 1 then Some (vec_view s' ! (j + 1)) else map_of (tmp_map s') j)" .
  let ?s = "?c\<lparr>vec_tmp := Some (om_erase (vec_max s' - 1) m), vec_max := vec_max s' - 1\<rparr>"
  let ?g = "\<lambda>s. let s = vec_markAsUsed s in
     case shift_left (vec_vector s) 1 (sub64 (vec_max s) 1) i (tmp_map s) of
       Inl e \<Rightarrow> (Inl e, s)
     | Inr m \<Rightarrow> (Inr i, s\<lparr>vec_tmp := Some (om_erase (sub64 (vec_max s) 1) m), vec_max := sub64 (vec_max s) 1\<rparr>)"
  have "vec_does ?g s' (Inr i) (take i (vec_view s') @ drop (i + 1) (vec_view s'))"
  proof (rule erase_gap[OF s'(2) le, of ?s "om_erase (vec_max s' - 1) m"])
    show "?g s' = (Inr i, ?s)" using m(1) by (simp add: Let_def sub[unfolded One_nat_def] cong: sum.case_cong)
    show "map_of (om_erase (vec_max s' - 1) m) = (\<lambda>j. if vec_max s' - 1 \<le> j \<and> j < vec_max s' then None
      else if i \<le> j \<and> j < vec_max s' - 1 then Some (vec_view s' ! (j + 1)) else map_of (tmp_map s') j)"
      using le by (auto simp: m(3) fun_eq_iff)
  qed (use m in simp_all)
  moreover have "vec_erase i s = ?g s'" unfolding vec_erase_def by (subst bind_m_apply) (simp add: s'(1))
  ultimately show ?thesis using s'(3,4) by (simp add: vec_does_def)
qed

section \<open>Lemmas: commit and revert\<close>

lemma commit_entries:
  assumes "om_sorted m" "\<And>k. map_of m k \<noteq> None \<Longrightarrow> k < n" "\<And>i. length v \<le> i \<Longrightarrow> i < n \<Longrightarrow> map_of m i \<noteq> None"
    "length v \<le> n"
  shows "foldl commit_entry v m = map (\<lambda>i. case map_of m i of Some x \<Rightarrow> x | None \<Rightarrow> v ! i) [0..<n]"
  using assms
proof (induction m arbitrary: v)
  case Nil
  then have "length v = n" by (metis le_neq_implies_less map_of.simps(1) order_refl)
  then show ?case by (auto intro: nth_equalityI)
next
  case (Cons e m)
  obtain k x where e: "e = (k, x)" by (cases e)
  have k: "k < n" using Cons.prems(2)[of k] e by simp
  have above: "map_of m j = None" if "j \<le> k" for j
    using that Cons.prems(1) e by (fastforce simp: map_of_eq_None_iff)
  have kv: "k \<le> length v"
  proof (rule ccontr)
    assume "\<not> k \<le> length v"
    then have "map_of (e # m) (length v) \<noteq> None" using k by (intro Cons.prems(3)) simp_all
    then show False using above[of "length v"] \<open>\<not> k \<le> length v\<close> e by simp
  qed
  let ?v = "commit_entry v e"
  have len: "length ?v = max (length v) (k + 1)" using kv e by (auto simp: commit_entry_def)
  have nth: "?v ! i = (if i = k then x else v ! i)" if "i < length ?v" for i
    using that kv len e by (auto simp: commit_entry_def nth_append)
  have "foldl commit_entry ?v m = map (\<lambda>i. case map_of m i of Some x \<Rightarrow> x | None \<Rightarrow> ?v ! i) [0..<n]"
  proof (rule Cons.IH)
    show "om_sorted m" using Cons.prems(1) by simp
    show "j < n" if "map_of m j \<noteq> None" for j
      using that Cons.prems(2)[of j] above[of k] e by (cases "j = k") auto
    show "map_of m i \<noteq> None" if "length ?v \<le> i" "i < n" for i
      using that Cons.prems(3)[of i] len e by auto
    show "length ?v \<le> n" using len k Cons.prems(4) by simp
  qed
  also have "\<dots> = map (\<lambda>i. case map_of (e # m) i of Some x \<Rightarrow> x | None \<Rightarrow> v ! i) [0..<n]"
  proof (rule map_cong[OF refl])
    fix i assume i: "i \<in> set [0..<n]"
    show "(case map_of m i of Some x \<Rightarrow> x | None \<Rightarrow> ?v ! i) = (case map_of (e # m) i of Some x \<Rightarrow> x | None \<Rightarrow> v ! i)"
    proof (cases "map_of m i")
      case None
      have "i = k \<or> i < length v" using None Cons.prems(3)[of i] i e by (cases "i < length v") (auto split: if_splits)
      then show ?thesis using None nth[of i] len e by (auto split: if_splits)
    next
      case (Some y)
      then have "i \<noteq> k" using above[of k] by auto
      then show ?thesis using Some e by simp
    qed
  qed
  finally show ?case by simp
qed

lemma vec_commit_facts:
  assumes "vec_ok s"
  shows "vec_vector (vec_commit s) = vec_view s" "vec_view (vec_commit s) = vec_view s" "vec_ok (vec_commit s)"
proof -
  note c = vec_check_ok[OF assms]
  let ?v = "take (vec_max s) (if vec_clear s then [] else vec_vector s)"
  have slot: "map_of (tmp_map s) i \<noteq> None" if "length ?v \<le> i" "i < vec_max s" for i
    using that vec_slot[OF assms, of i] by (auto split: if_splits)
  have "foldl commit_entry ?v (tmp_map s) =
    map (\<lambda>i. case map_of (tmp_map s) i of Some x \<Rightarrow> x | None \<Rightarrow> ?v ! i) [0..<vec_max s]"
  proof (rule commit_entries[OF vec_ok_facts(2)[OF assms]])
    show "k < vec_max s" if "map_of (tmp_map s) k \<noteq> None" for k
      using that vec_ok_facts(3)[OF assms, of k] by (cases "vec_max s \<le> k") simp_all
  qed (use slot in simp_all)
  also have "\<dots> = vec_view s"
  proof (rule nth_equalityI)
    fix i assume "i < length (map (\<lambda>i. case map_of (tmp_map s) i of Some x \<Rightarrow> x | None \<Rightarrow> ?v ! i) [0..<vec_max s])"
    then have i: "i < vec_max s" by simp
    then show "map (\<lambda>i. case map_of (tmp_map s) i of Some x \<Rightarrow> x | None \<Rightarrow> ?v ! i) [0..<vec_max s] ! i = vec_view s ! i"
      using vec_slot[OF assms i] by auto
  qed simp
  finally have fold: "foldl commit_entry ?v (tmp_map s) = vec_view s" .
  let ?s = "(vec_check s)\<lparr>vec_vector := vec_view s, vec_clear := False, vec_max := vec_max s\<rparr>"
  have eq: "vec_commit s = ?s"
    using c fold vec_ok_facts(1)[OF assms] by (cases "vec_clear s") (simp_all add: vec_commit_def Let_def)
  obtain m where m0: "vec_tmp (vec_check s) = Some m" using vec_check_facts(2)[of s] by blast
  then have tmp: "vec_tmp ?s = Some m" and "tmp_map (vec_check s) = m" by (simp, simp only: tmp_map_def option.case)
  then have m: "m = tmp_map s" by simp
  have "vec_ok ?s \<and> vec_view ?s = vec_view s"
  proof (rule vec_okI[OF tmp])
    show "map_of m i = Some (vec_view s ! i) \<or> (map_of m i = None \<and> i < length (vec_vector ?s) \<and>
      \<not> vec_clear ?s \<and> vec_vector ?s ! i = vec_view s ! i)" if "i < length (vec_view s)" for i
      using that vec_slot[OF assms, of i] m by auto
  qed (use vec_ok_facts[OF assms] m in simp_all)
  then show "vec_vector (vec_commit s) = vec_view s" "vec_view (vec_commit s) = vec_view s" "vec_ok (vec_commit s)"
    unfolding eq by simp_all
qed

lemma vec_revert_facts:
  assumes "length (vec_vector s) < 2 ^ 64"
  shows "vec_vector (vec_revert s) = vec_vector s" "vec_view (vec_revert s) = vec_vector s" "vec_ok (vec_revert s)"
  using assms by (auto simp: vec_revert_def vec_ok_def tmp_map_def vec_view_def map_nth)

section \<open>Refinement\<close>

text \<open>The operations of a vector and their results, on the committed and the current contents.\<close>

datatype 'a vec_op =
    Assign "'a list" | At nat | AtConst nat | SetAt nat 'a | Size | Clear | Insert nat 'a | Erase nat
  | EraseRange nat nat | PushBack 'a | PopBack | Resize nat 'a | Commit | Revert

datatype 'a vec_ret = RUnit | RVal 'a | RNum nat

definition ret_map :: "('a \<Rightarrow> 'b) \<Rightarrow> 'a res \<times> 's \<Rightarrow> 'b res \<times> 's" where
  "ret_map f p = (bind_r (fst p) (\<lambda>x. Inr (f x)), snd p)"

fun vec_run :: "'a vec_op \<Rightarrow> 'a safe_vector \<Rightarrow> 'a vec_ret res \<times> 'a safe_vector" where
  "vec_run (Assign xs) s = ret_map (\<lambda>_. RUnit) (vec_assign xs s)"
| "vec_run (At i) s = ret_map RVal (vec_at i s)"
| "vec_run (AtConst i) s = ret_map RVal (vec_at_const i s)"
| "vec_run (SetAt i x) s = ret_map (\<lambda>_. RUnit) (vec_set i x s)"
| "vec_run Size s = ret_map RNum (vec_size s)"
| "vec_run Clear s = ret_map (\<lambda>_. RUnit) (vec_clear_all s)"
| "vec_run (Insert i x) s = ret_map RNum (vec_insert i x s)"
| "vec_run (Erase i) s = ret_map RNum (vec_erase i s)"
| "vec_run (EraseRange a b) s = ret_map RNum (vec_erase_range a b s)"
| "vec_run (PushBack x) s = ret_map (\<lambda>_. RUnit) (vec_push_back x s)"
| "vec_run PopBack s = ret_map (\<lambda>_. RUnit) (vec_pop_back s)"
| "vec_run (Resize n x) s = ret_map (\<lambda>_. RUnit) (vec_resize n x s)"
| "vec_run Commit s = (Inr RUnit, vec_commit s)"
| "vec_run Revert s = (Inr RUnit, vec_revert s)"

fun list_run :: "'a vec_op \<Rightarrow> 'a list \<times> 'a list \<Rightarrow> 'a vec_ret res \<times> 'a list \<times> 'a list" where
  "list_run (Assign ys) (c, xs) = (Inr RUnit, c, ys)"
| "list_run (At i) (c, xs) = (if i < length xs then Inr (RVal (xs ! i)) else Inl OutOfRange, c, xs)"
| "list_run (AtConst i) (c, xs) = (if i < length xs then Inr (RVal (xs ! i)) else Inl OutOfRange, c, xs)"
| "list_run (SetAt i x) (c, xs) = (if i < length xs then (Inr RUnit, c, xs[i := x]) else (Inl OutOfRange, c, xs))"
| "list_run Size (c, xs) = (Inr (RNum (length xs)), c, xs)"
| "list_run Clear (c, xs) = (Inr RUnit, c, [])"
| "list_run (Insert i x) (c, xs) =
     (if i \<le> length xs then (Inr (RNum i), c, take i xs @ x # drop i xs) else (Inl OutOfRange, c, xs))"
| "list_run (Erase i) (c, xs) =
     (if i < length xs then (Inr (RNum i), c, take i xs @ drop (i + 1) xs) else (Inl OutOfRange, c, xs))"
| "list_run (EraseRange a b) (c, xs) =
     (if a \<le> b \<and> b \<le> length xs then (Inr (RNum a), c, take a xs @ drop b xs) else (Inl OutOfRange, c, xs))"
| "list_run (PushBack x) (c, xs) = (Inr RUnit, c, xs @ [x])"
| "list_run PopBack (c, xs) = (Inr RUnit, c, butlast xs)"
| "list_run (Resize n x) (c, xs) = (Inr RUnit, c, take n xs @ replicate (n - length xs) x)"
| "list_run Commit (c, xs) = (Inr RUnit, xs, xs)"
| "list_run Revert (c, xs) = (Inr RUnit, c, c)"

definition vec_abs :: "'a safe_vector \<Rightarrow> 'a list \<times> 'a list" where
  "vec_abs s = (vec_vector s, vec_view s)"

text \<open>An operation that grows the vector stays below the range of the index; the last element of an empty vector is not removed.\<close>

fun vec_pre :: "'a vec_op \<Rightarrow> 'a safe_vector \<Rightarrow> bool" where
  "vec_pre (Assign xs) s = (length xs < 2 ^ 64)"
| "vec_pre (Insert i x) s = (length (vec_view s) + 1 < 2 ^ 64)"
| "vec_pre (PushBack x) s = (length (vec_view s) + 1 < 2 ^ 64)"
| "vec_pre PopBack s = (vec_view s \<noteq> [])"
| "vec_pre (Resize n x) s = (n < 2 ^ 64)"
| "vec_pre x s = True"

definition vec_inv :: "'a safe_vector \<Rightarrow> bool" where
  "vec_inv s \<longleftrightarrow> vec_ok s \<and> length (vec_vector s) < 2 ^ 64"

lemma vec_does_sim:
  assumes "vec_does f s r ys" "vec_inv s"
  shows "vec_inv (snd (ret_map g (f s)))" "fst (ret_map g (f s)) = bind_r r (\<lambda>x. Inr (g x))"
    "vec_abs (snd (ret_map g (f s))) = (vec_vector s, ys)"
  using assms by (auto simp: vec_does_def ret_map_def vec_inv_def vec_abs_def)

lemma vec_range_out:
  assumes "vec_ok s" "\<not> (a \<le> b \<and> b \<le> vec_max s)"
  shows "vec_does (vec_erase_range a b) s (Inl OutOfRange) (vec_view s)"
  using vec_check_ok[OF assms(1)] assms(2) by (auto simp: vec_does_def vec_erase_range_def Let_def)

lemma vec_insert_out: "vec_ok s \<Longrightarrow> vec_max s < i \<Longrightarrow> vec_does (vec_insert i x) s (Inl OutOfRange) (vec_view s)"
  using vec_check_ok[of s] by (auto simp: vec_does_def vec_insert_def Let_def)

lemma vec_sim_step:
  fixes s :: "'a safe_vector"
  assumes "vec_inv s" "vec_pre x s"
  shows "vec_inv (snd (vec_run x s)) \<and> list_run x (vec_abs s) = (fst (vec_run x s), vec_abs (snd (vec_run x s)))"
proof -
  have ok: "vec_ok s" and len: "length (vec_vector s) < 2 ^ 64" using assms(1) by (simp_all add: vec_inv_def)
  note sim = vec_does_sim[OF _ assms(1)]
  note at = vec_at_facts[OF ok]
  have small: "vec_max s < 2 ^ 64" by (rule vec_ok_facts(1)[OF ok])
  note abs = vec_abs_def[of s]
  show ?thesis
  proof (cases x)
    case (Assign xs)
    then show ?thesis using assms(2) by (simp add: abs sim[OF vec_assign_does[OF ok]])
  next
    case (At i)
    then show ?thesis by (cases "i < vec_max s") (simp_all add: abs sim[OF at(1)] sim[OF at(3)])
  next
    case (AtConst i)
    then show ?thesis by (cases "i < vec_max s") (simp_all add: abs sim[OF at(2)] sim[OF at(4)])
  next
    case (SetAt i y)
    then show ?thesis by (cases "i < vec_max s") (simp_all add: abs sim[OF vec_set_in[OF ok]] sim[OF at(5)])
  next
    case Size
    then show ?thesis by (simp add: abs sim[OF vec_size_does[OF ok]])
  next
    case Clear
    then show ?thesis by (simp add: abs sim[OF vec_clear_does[OF ok]])
  next
    case (Insert i y)
    then show ?thesis using assms(2)
      by (cases "i \<le> vec_max s") (simp_all add: abs sim[OF vec_insert_does[OF ok]] sim[OF vec_insert_out[OF ok]])
  next
    case (Erase i)
    then show ?thesis by (cases "i < vec_max s") (simp_all add: abs sim[OF vec_erase_does[OF ok]] sim[OF at(6)])
  next
    case (EraseRange a b)
    show ?thesis
    proof (cases "a \<le> b \<and> b \<le> vec_max s")
      case True
      then show ?thesis using EraseRange by (simp add: abs sim[OF vec_erase_range_does[OF ok]])
    next
      case False
      then show ?thesis using EraseRange sim[OF vec_range_out[OF ok False], of "RNum :: nat \<Rightarrow> 'a vec_ret"] by (auto simp: abs)
    qed
  next
    case (PushBack y)
    then show ?thesis using assms(2) by (simp add: abs sim[OF vec_push_back_does[OF ok]])
  next
    case PopBack
    then show ?thesis using assms(2) by (simp add: abs sim[OF vec_pop_back_does[OF ok]])
  next
    case (Resize n y)
    then show ?thesis using assms(2) by (simp add: abs sim[OF vec_resize_does[OF ok]])
  next
    case Commit
    then show ?thesis using vec_commit_facts[OF ok] small by (simp add: vec_abs_def vec_inv_def)
  next
    case Revert
    then show ?thesis using vec_revert_facts[OF len] len by (simp add: vec_abs_def vec_inv_def)
  qed
qed

interpretation vec_sim: simulation vec_run list_run vec_abs vec_inv vec_pre
  using vec_sim_step by unfold_locales blast+

section \<open>Properties\<close>

text \<open>
  Claim C38. Any sequence of operations on a \<^verbatim>\<open>SafeVector\<close>, with commits and reverts anywhere in
  it, gives the results of the same operations on a pair of lists, the committed one and the
  current one: indexing, assignment, insertion, erasure, growth and shrinking are those of a
  vector, a commit makes the current contents the committed ones and a revert restores them.
\<close>
theorem safe_vector_refines_list:
  assumes "vec_inv s" "run_pre vec_run vec_pre ops s" "run_ops vec_run ops s = (rs, s')"
  shows "run_ops list_run ops (vec_vector s, vec_view s) = (rs, vec_vector s', vec_view s') \<and> vec_inv s'"
  using vec_sim.run_sim[OF assms(1,2)] assms(3) by (simp add: vec_abs_def)

theorem safe_vector_refines_list_witness:
  "run_ops list_run [PushBack 1, PushBack 2, Commit, Insert 1 7, Erase 0, Revert, At 5] ([], []) =
     ([Inr RUnit, Inr RUnit, Inr RUnit, Inr (RNum 1), Inr (RNum 0), Inr RUnit, Inl OutOfRange],
      [1, 2 :: nat], [1, 2]) \<and>
   fst (run_ops vec_run [PushBack 1, PushBack 2, Commit, Insert 1 7, Erase 0, Revert, At 5]
      (SafeVector_make True :: nat safe_vector)) =
     [Inr RUnit, Inr RUnit, Inr RUnit, Inr (RNum 1), Inr (RNum 0), Inr RUnit, Inl (OutOfRange :: cpp_error)]"
proof -
  let ?ops = "[PushBack 1, PushBack (2 :: nat), Commit, Insert 1 7, Erase 0, Revert, At 5]"
  let ?s = "SafeVector_make True :: nat safe_vector"
  note defs = ret_map_def vec_push_back_def vec_insert_def vec_erase_def vec_at_def vec_commit_def vec_revert_def
    checkIndexAndCopy_def vec_check_def vec_markAsUsed_def SafeVector_make_def tmp_map_def om_emplace_def om_erase_def
    vec_put_def inc64_def sub64_def Let_def bind_m_apply commit_entry_def raw_at_def shift_right.simps shift_left.simps
    elem_at_def vec_view_def
  have "vec_inv ?s" "vec_vector ?s = []" "vec_view ?s = []"
    by (simp_all add: vec_inv_def vec_ok_def SafeVector_make_def tmp_map_def vec_view_def)
  moreover have "run_pre vec_run vec_pre ?ops ?s" by (simp add: defs)
  moreover obtain rs s' where run: "run_ops vec_run ?ops ?s = (rs, s')" by (cases "run_ops vec_run ?ops ?s")
  ultimately have "run_ops list_run ?ops ([], []) = (rs, vec_vector s', vec_view s')"
    using safe_vector_refines_list[of ?s ?ops rs s'] by (simp only: simp_thms)
  moreover have "run_ops list_run ?ops ([], []) =
     ([Inr RUnit, Inr RUnit, Inr RUnit, Inr (RNum 1), Inr (RNum 0), Inr RUnit, Inl OutOfRange], [1, 2], [1, 2])"
    by simp
  ultimately show ?thesis by (simp only: run fst_conv prod.inject simp_thms)
qed

text \<open>
  Neither commit nor revert resets the registration, and \<^verbatim>\<open>assign\<close> never registers. So
  the call logger reverts the first call that changes the vector and no later one: after it, a
  \<^verbatim>\<open>push_back\<close> in a call that reverts stays; an \<^verbatim>\<open>assign\<close> stays even in the first.
\<close>

definition vec_logger_end :: "bool \<Rightarrow> 'a safe_vector \<Rightarrow> 'a safe_vector" where
  "vec_logger_end commitCall s =
     (((if commitCall then vec_commit else vec_revert) ^^ vec_uses s) s)\<lparr>vec_uses := 0\<rparr>"

lemma vec_view_uses [simp]: "vec_view (s\<lparr>vec_uses := n\<rparr>) = vec_view s"
  by (simp add: vec_view_def tmp_map_def cong: option.case_cong)

lemma vec_reg_frame [simp]:
  "vec_uses (vec_check s) = vec_uses s" "vec_registered (vec_check s) = vec_registered s"
  "vec_uses (vec_commit s) = vec_uses s" "vec_registered (vec_commit s) = vec_registered s"
  "vec_uses (vec_revert s) = vec_uses s" "vec_registered (vec_revert s) = vec_registered s"
  "vec_owner (vec_check s) = vec_owner s" "vec_should (vec_check s) = vec_should s"
  by (auto simp: vec_check_def vec_commit_def vec_revert_def Let_def split: option.splits)

lemma vec_mark_registered: "vec_registered s \<Longrightarrow> vec_markAsUsed s = s"
  by (simp add: vec_markAsUsed_def)

theorem safe_vector_revert_lost:
  assumes "vec_inv s" "vec_max s + 1 < 2 ^ 64" "vec_owner s" "vec_should s" "vec_uses s = 0"
  shows "\<not> vec_registered s \<Longrightarrow> vec_view (vec_logger_end False (snd (vec_push_back x s))) = vec_vector s"
    and "vec_registered s \<Longrightarrow> vec_view (vec_logger_end False (snd (vec_push_back x s))) = vec_view s @ [x]"
    and "length xs < 2 ^ 64 \<Longrightarrow> vec_view (vec_logger_end False (snd (vec_assign xs s))) = xs"
    and "vec_registered (vec_logger_end b (snd (vec_push_back x s)))"
proof -
  have ok: "vec_ok s" and len: "length (vec_vector s) < 2 ^ 64" using assms(1) by (simp_all add: vec_inv_def)
  from vec_push_back_does[OF ok assms(2), of x] obtain p where
    p: "vec_push_back x s = (Inr (), p)" "vec_view p = vec_view s @ [x]" "vec_vector p = vec_vector s"
    by (auto simp: vec_does_def)
  have uses: "vec_uses p = (if vec_registered s then 0 else 1)" "vec_registered p"
    using p(1) assms(3-5) by (auto simp: vec_push_back_def Let_def vec_markAsUsed_def)
  show "vec_view (vec_logger_end False (snd (vec_push_back x s))) = vec_vector s" if "\<not> vec_registered s"
    using that p uses vec_revert_facts(2)[of p] len by (simp add: vec_logger_end_def)
  show "vec_view (vec_logger_end False (snd (vec_push_back x s))) = vec_view s @ [x]" if "vec_registered s"
    using that p uses by (simp add: vec_logger_end_def)
  show "vec_registered (vec_logger_end b (snd (vec_push_back x s)))"
    using p uses by (simp add: vec_logger_end_def)
  show "vec_view (vec_logger_end False (snd (vec_assign xs s))) = xs" if "length xs < 2 ^ 64"
  proof -
    from vec_assign_does[OF ok that] obtain q where q: "vec_assign xs s = (Inr (), q)" "vec_view q = xs"
      by (auto simp: vec_does_def)
    have "vec_uses q = 0" using q(1) assms(5) by (auto simp: vec_assign_def Let_def)
    then show ?thesis using q by (simp add: vec_logger_end_def)
  qed
qed

theorem safe_vector_revert_lost_witness:
  "vec_view (vec_logger_end False (snd (vec_assign [5 :: nat]
     ((SafeVector_make True)\<lparr>vec_should := True\<rparr>)))) = [5]"
  using safe_vector_revert_lost(3)[of "(SafeVector_make True)\<lparr>vec_should := True\<rparr>" "[5]"]
  by (simp add: vec_inv_def vec_ok_def SafeVector_make_def tmp_map_def)

text \<open>
  The copy constructor copies the map and the size but not the committed vector: a copy
  of a vector between calls has the right size, and reading any element of it is undefined.
\<close>
theorem safe_vector_copy_broken:
  assumes "vec_tmp s = None" "length (vec_vector s) < 2 ^ 64" "i < length (vec_vector s)"
  shows "fst (vec_size (SafeVector_copy s)) = Inr (length (vec_vector s))"
    and "fst (vec_at i (SafeVector_copy s)) = Inl UndefinedBehaviour"
  using assms
  by (simp_all add: SafeVector_copy_def SafeVector_make_def vec_size_def vec_at_def checkIndexAndCopy_def vec_check_def
      tmp_map_def Let_def bind_m_apply raw_at_def)

theorem safe_vector_copy_broken_witness:
  "fst (vec_at 0 (SafeVector_copy (vec_revert (vec_commit (snd (vec_push_back (4 :: nat) (SafeVector_make True))))))) =
   Inl UndefinedBehaviour"
proof -
  have "vec_vector (vec_revert (vec_commit (snd (vec_push_back (4 :: nat) (SafeVector_make True))))) = [4]"
    by (simp add: vec_revert_def vec_commit_def vec_push_back_def vec_check_def vec_markAsUsed_def SafeVector_make_def
        tmp_map_def om_emplace_def inc64_def commit_entry_def Let_def)
  then show ?thesis
    using safe_vector_copy_broken(2)[of "vec_revert (vec_commit (snd (vec_push_back (4 :: nat) (SafeVector_make True))))" 0]
    by (simp add: vec_revert_def)
qed

end
