(* ===== verification/Safe_Array.thy ===== *)
theory Safe_Array
  imports Safe_Vector
begin

text \<open>
  \<^verbatim>\<open>SafeArray\<close> (\<^verbatim>\<open>src/src/contract/variables/safearray.h\<close>), a fixed array with a map of the
  elements a call has touched, and \<^verbatim>\<open>SafeTuple\<close> (\<^verbatim>\<open>safetuple.h\<close>), a safe variable that holds a
  tuple.
\<close>

section \<open>SafeArray\<close>

record 'a safe_array =
  arr_array :: "'a list"
  arr_tmp :: "'a omap option"
  arr_owner :: bool
  arr_registered :: bool
  arr_should :: bool
  arr_uses :: nat

text \<open>
  The constructors put the values in the map only. The member array is not initialised: \<open>mem\<close>
  is what the memory holds.
\<close>

definition SafeArray_make :: "bool \<Rightarrow> 'a list \<Rightarrow> 'a list \<Rightarrow> 'a safe_array" where
  "SafeArray_make owner mem a = \<lparr>arr_array = mem, arr_tmp = Some (emplace_all 0 a []), arr_owner = owner,
     arr_registered = False, arr_should = False, arr_uses = 0\<rparr>"

definition arr_check :: "'a safe_array \<Rightarrow> 'a safe_array" where
  "arr_check s = (if arr_tmp s = None then s\<lparr>arr_tmp := Some []\<rparr> else s)"

definition arr_markAsUsed :: "'a safe_array \<Rightarrow> 'a safe_array" where
  "arr_markAsUsed s =
     (if arr_owner s \<and> \<not> arr_registered s \<and> arr_should s
      then s\<lparr>arr_uses := Suc (arr_uses s), arr_registered := True\<rparr> else s)"

definition arr_map :: "'a safe_array \<Rightarrow> 'a omap" where
  "arr_map s = (case arr_tmp s of None \<Rightarrow> [] | Some m \<Rightarrow> m)"

text \<open>\<open>N\<close> is the length of the array.\<close>

definition arr_checkIndexAndCopy :: "nat \<Rightarrow> ('a safe_array, unit) meth" where
  "arr_checkIndexAndCopy index = (\<lambda>s. let s = arr_check s in
     if index \<ge> length (arr_array s) then (Inl OutOfRange, s)
     else if map_of (arr_map s) index \<noteq> None then (Inr (), s)
     else (Inr (), s\<lparr>arr_tmp := Some (om_emplace index (arr_array s ! index) (arr_map s))\<rparr>))"

definition arr_at :: "nat \<Rightarrow> ('a safe_array, 'a) meth" where
  "arr_at pos = bind_m (arr_checkIndexAndCopy pos) (\<lambda>_.
     bind_m (mod_m arr_markAsUsed) (\<lambda>_. get_m (\<lambda>s. the (map_of (arr_map s) pos))))"

definition arr_set :: "nat \<Rightarrow> 'a \<Rightarrow> ('a safe_array, unit) meth" where
  "arr_set pos x = bind_m (arr_checkIndexAndCopy pos) (\<lambda>_.
     bind_m (mod_m arr_markAsUsed) (\<lambda>_. mod_m (\<lambda>s. s\<lparr>arr_tmp := Some (om_put pos x (arr_map s))\<rparr>)))"

fun fill_loop :: "nat \<Rightarrow> 'a \<Rightarrow> 'a omap \<Rightarrow> 'a omap" where
  "fill_loop 0 x m = m"
| "fill_loop (Suc n) x m = om_put n x (fill_loop n x m)"

text \<open>\<^verbatim>\<open>fill\<close> and \<^verbatim>\<open>commit\<close> follow the pointer without a check; \<^verbatim>\<open>fill\<close> does not register.\<close>

definition arr_fill :: "'a \<Rightarrow> ('a safe_array, unit) meth" where
  "arr_fill x = (\<lambda>s. case arr_tmp s of
     None \<Rightarrow> (Inl UndefinedBehaviour, s)
   | Some m \<Rightarrow> (Inr (), s\<lparr>arr_tmp := Some (fill_loop (length (arr_array s)) x m)\<rparr>))"

definition arr_commit :: "('a safe_array, unit) meth" where
  "arr_commit = (\<lambda>s. case arr_tmp s of
     None \<Rightarrow> (Inl UndefinedBehaviour, s)
   | Some m \<Rightarrow> (Inr (), s\<lparr>arr_array := foldl (\<lambda>a e. a[fst e := snd e]) (arr_array s) m\<rparr>))"

definition arr_revert :: "'a safe_array \<Rightarrow> 'a safe_array" where
  "arr_revert s = s\<lparr>arr_tmp := None\<rparr>"

section \<open>SafeTuple\<close>

text \<open>The tuple is the value of a safe variable; commit and revert do not reset the registration.\<close>

definition SafeTuple_make :: "bool \<Rightarrow> 'a \<Rightarrow> 'a safe_var" where
  "SafeTuple_make owner t = \<lparr>sv_value = t, sv_ptr = None, sv_owner = owner, sv_registered = False,
     sv_should = False, sv_uses = 0\<rparr>"

definition SafeTuple_copy :: "'a safe_var \<Rightarrow> 'a safe_var" where
  "SafeTuple_copy other = (SafeTuple_make False (sv_value other))\<lparr>sv_ptr := Some (cur other)\<rparr>"

definition SafeTuple_assign :: "'a \<Rightarrow> ('a safe_var, unit) meth" where
  "SafeTuple_assign x = mark_update (\<lambda>_. Inr x)"

text \<open>The move assignment takes the pointer of the other variable.\<close>

definition SafeTuple_move :: "'a safe_var \<Rightarrow> 'a safe_var \<Rightarrow> 'a safe_var \<times> 'a safe_var" where
  "SafeTuple_move v other = (put_v (cur other) (markAsUsed (check_v v)), other\<lparr>sv_ptr := None\<rparr>)"

text \<open>\<^verbatim>\<open>get<I>\<close> gives a reference into the temporary tuple: an assignment through it does not register.\<close>

definition SafeTuple_get :: "('a safe_var, 'a) meth" where
  "SafeTuple_get = get_v"

definition SafeTuple_set :: "('a \<Rightarrow> 'a) \<Rightarrow> 'a safe_var \<Rightarrow> 'a safe_var" where
  "SafeTuple_set f v = put_v (f (cur v)) (check_v v)"

definition SafeTuple_swap :: "'a safe_var \<Rightarrow> 'a safe_var \<Rightarrow> 'a safe_var \<times> 'a safe_var" where
  "SafeTuple_swap v w =
     (let v = markAsUsed (check_v v); w = markAsUsed (check_v w) in
      (v\<lparr>sv_value := sv_value w, sv_ptr := sv_ptr w\<rparr>, w\<lparr>sv_value := sv_value v, sv_ptr := sv_ptr v\<rparr>))"

definition SafeTuple_commit :: "'a safe_var \<Rightarrow> 'a safe_var" where
  "SafeTuple_commit v = (let v = check_v v in v\<lparr>sv_value := the (sv_ptr v), sv_ptr := None\<rparr>)"

definition SafeTuple_revert :: "'a safe_var \<Rightarrow> 'a safe_var" where
  "SafeTuple_revert v = v\<lparr>sv_ptr := None\<rparr>"

text \<open>The comparisons look at the committed tuples.\<close>

definition SafeTuple_eq :: "'a safe_var \<Rightarrow> 'a safe_var \<Rightarrow> bool" where
  "SafeTuple_eq v w \<longleftrightarrow> sv_value (check_v v) = sv_value (check_v w)"

definition SafeTuple_less :: "('a :: ord) safe_var \<Rightarrow> 'a safe_var \<Rightarrow> bool" where
  "SafeTuple_less v w \<longleftrightarrow> sv_value (check_v v) < sv_value (check_v w)"

definition SafeTuple_less_eq :: "('a :: ord) safe_var \<Rightarrow> 'a safe_var \<Rightarrow> bool" where
  "SafeTuple_less_eq v w \<longleftrightarrow> sv_value (check_v v) \<le> sv_value (check_v w)"

section \<open>Lemmas: SafeArray\<close>

definition arr_view :: "'a safe_array \<Rightarrow> 'a list" where
  "arr_view s = map (\<lambda>i. case map_of (arr_map s) i of Some x \<Rightarrow> x | None \<Rightarrow> arr_array s ! i) [0..<length (arr_array s)]"

definition arr_inv :: "'a safe_array \<Rightarrow> bool" where
  "arr_inv s \<longleftrightarrow> om_sorted (arr_map s) \<and> (\<forall>k. map_of (arr_map s) k \<noteq> None \<longrightarrow> k < length (arr_array s))"

lemma length_arr_view [simp]: "length (arr_view s) = length (arr_array s)"
  by (simp add: arr_view_def)

lemma arr_view_nth: "i < length (arr_array s) \<Longrightarrow>
  arr_view s ! i = (case map_of (arr_map s) i of Some x \<Rightarrow> x | None \<Rightarrow> arr_array s ! i)"
  by (simp add: arr_view_def cong: option.case_cong)

lemma arr_check_facts [simp]:
  "arr_array (arr_check s) = arr_array s" "arr_map (arr_check s) = arr_map s"
  "arr_view (arr_check s) = arr_view s" "arr_inv (arr_check s) = arr_inv s"
  by (auto simp: arr_check_def arr_map_def arr_view_def arr_inv_def)

lemma arr_mark_facts [simp]:
  "arr_array (arr_markAsUsed s) = arr_array s" "arr_map (arr_markAsUsed s) = arr_map s"
  "arr_view (arr_markAsUsed s) = arr_view s" "arr_inv (arr_markAsUsed s) = arr_inv s"
  by (auto simp: arr_markAsUsed_def arr_map_def arr_view_def arr_inv_def cong: option.case_cong)

lemma arr_tmp_facts:
  "arr_map (s\<lparr>arr_tmp := Some m\<rparr>) = m" "arr_array (s\<lparr>arr_tmp := Some m\<rparr>) = arr_array s"
  by (simp_all add: arr_map_def)

text \<open>A new map that keeps the keys in range, with the view it gives.\<close>

lemma arr_view_upd:
  assumes "length ys = length (arr_array s)" "om_sorted m" "\<And>k. map_of m k \<noteq> None \<Longrightarrow> k < length (arr_array s)"
    "\<And>i. i < length (arr_array s) \<Longrightarrow> (case map_of m i of Some x \<Rightarrow> x | None \<Rightarrow> arr_array s ! i) = ys ! i"
  shows "arr_inv (s\<lparr>arr_tmp := Some m\<rparr>) \<and> arr_view (s\<lparr>arr_tmp := Some m\<rparr>) = ys"
  using assms by (auto simp: arr_inv_def arr_tmp_facts arr_view_nth intro!: nth_equalityI cong: option.case_cong)

lemma arr_index_in:
  assumes "arr_inv s" "i < length (arr_array s)"
  shows "\<exists>s'. arr_checkIndexAndCopy i s = (Inr (), s') \<and> arr_inv s' \<and> arr_view s' = arr_view s \<and>
    arr_array s' = arr_array s \<and> map_of (arr_map s') i = Some (arr_view s ! i)"
proof (cases "map_of (arr_map s) i")
  case (Some x)
  then show ?thesis using assms by (simp add: arr_checkIndexAndCopy_def Let_def arr_view_nth)
next
  case None
  let ?m = "om_emplace i (arr_array s ! i) (arr_map s)"
  have "arr_inv ((arr_check s)\<lparr>arr_tmp := Some ?m\<rparr>) \<and> arr_view ((arr_check s)\<lparr>arr_tmp := Some ?m\<rparr>) = arr_view s"
    using assms None
    by (intro arr_view_upd) (auto simp: arr_inv_def map_of_om_emplace arr_view_nth split: if_splits cong: option.case_cong)
  then show ?thesis
    using None assms(2) by (simp add: arr_checkIndexAndCopy_def Let_def arr_tmp_facts map_of_om_emplace arr_view_nth)
qed

lemma fill_loop_facts:
  "map_of (fill_loop n x m) i = (if i < n then Some x else map_of m i)" "om_sorted m \<Longrightarrow> om_sorted (fill_loop n x m)"
  by (induction n) auto

lemma foldl_update_nth:
  "om_sorted m \<Longrightarrow> i < length a \<Longrightarrow>
   foldl (\<lambda>a e. a[fst e := snd e]) a m ! i = (case map_of m i of Some x \<Rightarrow> x | None \<Rightarrow> a ! i)"
proof (induction m arbitrary: a)
  case (Cons e m)
  have "map_of m (fst e) = None" using Cons.prems(1) by (fastforce simp: map_of_eq_None_iff)
  then show ?case using Cons by (cases e) (auto simp: nth_list_update split: option.splits)
qed simp

lemma length_foldl_update: "length (foldl (\<lambda>a e. a[fst e := snd e]) a m) = length a"
  by (induction m arbitrary: a) simp_all

datatype 'a arr_op = AAt nat | ASet nat 'a | AFill 'a | ACommit | ARevert

fun arr_run :: "'a arr_op \<Rightarrow> 'a safe_array \<Rightarrow> 'a vec_ret res \<times> 'a safe_array" where
  "arr_run (AAt i) s = ret_map RVal (arr_at i s)"
| "arr_run (ASet i x) s = ret_map (\<lambda>_. RUnit) (arr_set i x s)"
| "arr_run (AFill x) s = ret_map (\<lambda>_. RUnit) (arr_fill x s)"
| "arr_run ACommit s = ret_map (\<lambda>_. RUnit) (arr_commit s)"
| "arr_run ARevert s = (Inr RUnit, arr_revert s)"

fun arr_list_run :: "'a arr_op \<Rightarrow> 'a list \<times> 'a list \<Rightarrow> 'a vec_ret res \<times> 'a list \<times> 'a list" where
  "arr_list_run (AAt i) (c, xs) = (if i < length xs then Inr (RVal (xs ! i)) else Inl OutOfRange, c, xs)"
| "arr_list_run (ASet i x) (c, xs) = (if i < length xs then (Inr RUnit, c, xs[i := x]) else (Inl OutOfRange, c, xs))"
| "arr_list_run (AFill x) (c, xs) = (Inr RUnit, c, replicate (length xs) x)"
| "arr_list_run ACommit (c, xs) = (Inr RUnit, xs, xs)"
| "arr_list_run ARevert (c, xs) = (Inr RUnit, c, c)"

text \<open>The pointer that \<^verbatim>\<open>fill\<close> and \<^verbatim>\<open>commit\<close> follow is set.\<close>

fun arr_pre :: "'a arr_op \<Rightarrow> 'a safe_array \<Rightarrow> bool" where
  "arr_pre (AFill x) s = (arr_tmp s \<noteq> None)"
| "arr_pre ACommit s = (arr_tmp s \<noteq> None)"
| "arr_pre x s = True"

definition arr_abs :: "'a safe_array \<Rightarrow> 'a list \<times> 'a list" where
  "arr_abs s = (arr_array s, arr_view s)"

lemma arr_set_in:
  assumes "arr_inv s" "i < length (arr_array s)"
  shows "\<exists>s'. arr_set i x s = (Inr (), s') \<and> arr_inv s' \<and> arr_view s' = (arr_view s)[i := x] \<and> arr_array s' = arr_array s"
proof -
  from arr_index_in[OF assms] obtain s' where s': "arr_checkIndexAndCopy i s = (Inr (), s')" "arr_inv s'"
    "arr_view s' = arr_view s" "arr_array s' = arr_array s" by blast
  let ?t = "arr_markAsUsed s'"
  have "arr_inv (?t\<lparr>arr_tmp := Some (om_put i x (arr_map s'))\<rparr>) \<and>
    arr_view (?t\<lparr>arr_tmp := Some (om_put i x (arr_map s'))\<rparr>) = (arr_view s)[i := x]"
    using assms(2) s'(2,4) unfolding s'(3)[symmetric]
    by (intro arr_view_upd) (auto simp: arr_inv_def arr_view_nth nth_list_update split: if_splits cong: option.case_cong)
  then show ?thesis using s' by (simp add: arr_set_def bind_m_apply)
qed

lemma arr_sim_step:
  fixes s :: "'a safe_array"
  assumes "arr_inv s" "arr_pre x s"
  shows "arr_inv (snd (arr_run x s)) \<and> arr_list_run x (arr_abs s) = (fst (arr_run x s), arr_abs (snd (arr_run x s)))"
proof (cases x)
  case (AAt i)
  show ?thesis
  proof (cases "i < length (arr_array s)")
    case True
    then show ?thesis using arr_index_in[OF assms(1) True] AAt by (auto simp: arr_at_def bind_m_apply ret_map_def arr_abs_def)
  next
    case False
    then show ?thesis using AAt assms(1) by (simp add: arr_at_def bind_m_apply ret_map_def arr_abs_def arr_checkIndexAndCopy_def Let_def)
  qed
next
  case (ASet i y)
  show ?thesis
  proof (cases "i < length (arr_array s)")
    case True
    then show ?thesis using arr_set_in[OF assms(1) True, of y] ASet by (auto simp: ret_map_def arr_abs_def)
  next
    case False
    then show ?thesis using ASet assms(1) by (simp add: arr_set_def bind_m_apply ret_map_def arr_abs_def arr_checkIndexAndCopy_def Let_def)
  qed
next
  case (AFill y)
  then obtain m where m: "arr_tmp s = Some m" "arr_map s = m" using assms(2) by (auto simp: arr_map_def)
  have "arr_inv (s\<lparr>arr_tmp := Some (fill_loop (length (arr_array s)) y m)\<rparr>) \<and>
    arr_view (s\<lparr>arr_tmp := Some (fill_loop (length (arr_array s)) y m)\<rparr>) = replicate (length (arr_view s)) y"
    using assms(1) m(2) by (intro arr_view_upd) (auto simp: fill_loop_facts arr_inv_def split: if_splits)
  then show ?thesis using AFill m(1) by (simp add: arr_fill_def ret_map_def arr_abs_def)
next
  case ACommit
  then obtain m where m: "arr_tmp s = Some m" "arr_map s = m" using assms(2) by (auto simp: arr_map_def)
  let ?a = "foldl (\<lambda>a e. a[fst e := snd e]) (arr_array s) m"
  have a: "?a = arr_view s"
    using assms(1) m(2) by (intro nth_equalityI) (simp_all add: length_foldl_update foldl_update_nth arr_view_nth arr_inv_def)
  have "arr_view (s\<lparr>arr_array := arr_view s\<rparr>) = arr_view s"
    by (rule nth_equalityI) (simp_all add: arr_view_nth arr_map_def split: option.splits)
  then show ?thesis using ACommit m a assms(1)
    by (simp add: arr_commit_def ret_map_def arr_abs_def arr_inv_def arr_map_def)
next
  case ARevert
  then show ?thesis by (simp add: arr_revert_def arr_abs_def arr_inv_def arr_map_def arr_view_def map_nth)
qed

interpretation arr_sim: simulation arr_run arr_list_run arr_abs arr_inv arr_pre
  using arr_sim_step by unfold_locales blast+

interpretation tuple_cell: safe_cell SafeTuple_commit SafeTuple_revert
  by unfold_locales
    (simp_all add: SafeTuple_commit_def SafeTuple_revert_def sv_defs Let_def split: option.split)

section \<open>Properties\<close>

text \<open>
  Any sequence of operations on a \<^verbatim>\<open>SafeArray\<close> gives the results of an array of the
  same length, with a committed and a current version, as long as \<^verbatim>\<open>fill\<close> and \<^verbatim>\<open>commit\<close> come
  when the temporary map is there.
\<close>
theorem safe_array_refines_list:
  assumes "arr_inv s" "run_pre arr_run arr_pre ops s" "run_ops arr_run ops s = (rs, s')"
  shows "run_ops arr_list_run ops (arr_array s, arr_view s) = (rs, arr_array s', arr_view s') \<and> arr_inv s'"
  using arr_sim.run_sim[OF assms(1,2)] assms(3) by (simp add: arr_abs_def)

theorem safe_array_refines_list_witness:
  "fst (run_ops arr_run [ASet 1 8, ACommit, ARevert, AAt 1, AAt 2] (SafeArray_make True [0, 0] [1, 2 :: nat])) =
     [Inr RUnit, Inr RUnit, Inr RUnit, Inr (RVal 8), Inl (OutOfRange :: cpp_error)]"
proof -
  let ?ops = "[ASet 1 (8 :: nat), ACommit, ARevert, AAt 1, AAt 2]" and ?s = "SafeArray_make True [0, 0] [1, 2 :: nat]"
  have "arr_inv ?s" "arr_array ?s = [0, 0]" "arr_view ?s = [1, 2]"
    by (auto simp: arr_inv_def SafeArray_make_def arr_map_def om_emplace_def arr_view_def split: if_splits)
  moreover have "run_pre arr_run arr_pre ?ops ?s"
    by (simp add: ret_map_def arr_set_def bind_m_apply arr_checkIndexAndCopy_def Let_def SafeArray_make_def arr_check_def
        arr_map_def om_emplace_def arr_markAsUsed_def)
  moreover obtain rs s' where run: "run_ops arr_run ?ops ?s = (rs, s')" by (cases "run_ops arr_run ?ops ?s")
  ultimately have "run_ops arr_list_run ?ops ([0, 0], [1, 2]) = (rs, arr_array s', arr_view s')"
    using safe_array_refines_list[of ?s ?ops rs s'] by (simp only: simp_thms)
  moreover have "run_ops arr_list_run ?ops ([0, 0], [1, 2]) =
     ([Inr RUnit, Inr RUnit, Inr RUnit, Inr (RVal 8), Inl OutOfRange], [1, 8], [1, 8])"
    by simp
  ultimately show ?thesis by (simp only: run fst_conv prod.inject simp_thms)
qed

text \<open>
  \<^verbatim>\<open>SafeTuple\<close> under a revert: an assignment is undone, but \<^verbatim>\<open>swap\<close> exchanges the
  committed tuples at once and stays, and a write through \<^verbatim>\<open>get\<close> is not registered and stays.
\<close>
theorem safe_tuple_revert:
  assumes "clean v" "enabled v" "clean w" "enabled w"
  shows "cur (logger_end SafeTuple_commit SafeTuple_revert False (snd (SafeTuple_assign x v))) = cur v \<and>
    cur (logger_end SafeTuple_commit SafeTuple_revert False (fst (SafeTuple_swap v w))) = cur w \<and>
    cur (logger_end SafeTuple_commit SafeTuple_revert False (SafeTuple_set f v)) = f (cur v)"
proof -
  have "in_call v (snd (SafeTuple_assign x v))"
    using var_step_in_call[OF mark_update_step clean_in_call[OF assms(1,2)]] by (simp add: SafeTuple_assign_def)
  from tuple_cell.cur_end(2)[OF this] have "cur (logger_end SafeTuple_commit SafeTuple_revert False (snd (SafeTuple_assign x v))) = cur v"
    using clean_cur[OF assms(1)] by simp
  moreover have "cur (logger_end SafeTuple_commit SafeTuple_revert False (fst (SafeTuple_swap v w))) = cur w"
    using assms by (auto simp: SafeTuple_swap_def Let_def logger_end_def logger_revert_def SafeTuple_revert_def sv_defs
        clean_def enabled_def split: option.splits)
  moreover have "cur (logger_end SafeTuple_commit SafeTuple_revert False (SafeTuple_set f v)) = f (cur v)"
    using assms by (auto simp: SafeTuple_set_def logger_end_def logger_revert_def sv_defs clean_def split: option.splits)
  ultimately show ?thesis by blast
qed

theorem safe_tuple_revert_witness:
  "cur (logger_end SafeTuple_commit SafeTuple_revert False (fst (SafeTuple_swap
     ((SafeTuple_make True (1 :: nat, 2 :: nat))\<lparr>sv_should := True\<rparr>) ((SafeTuple_make True (3, 4))\<lparr>sv_should := True\<rparr>)))) = (3, 4)"
  using safe_tuple_revert[of "(SafeTuple_make True (1 :: nat, 2 :: nat))\<lparr>sv_should := True\<rparr>"
    "(SafeTuple_make True (3, 4))\<lparr>sv_should := True\<rparr>" "(0, 0)" id]
  by (simp add: SafeTuple_make_def clean_def enabled_def cur_def)

end
