(* ===== verification/Safe_String.thy ===== *)
theory Safe_String
  imports Safe_Base
begin

text \<open>
  \<^verbatim>\<open>SafeString\<close> of \<^verbatim>\<open>src/src/contract/variables/safestring.h\<close>: a safe variable that holds a
  \<^verbatim>\<open>std::string\<close> and forwards its methods. The overloads of a method differ in the form of the
  argument (a string, a safe string, a character array, a list of characters, a range) and
  share one definition over the characters it stands for; an iterator is its position. The
  capacity and the iterators that a method returns are not part of the value.
\<close>

section \<open>What the methods use of std::string\<close>

text \<open>A position behind the end throws \<^verbatim>\<open>std::out_of_range\<close>; a count is cut at the end.\<close>

definition npos :: nat where
  "npos = 2 ^ 64 - 1"

definition std_substr :: "nat \<Rightarrow> nat \<Rightarrow> string \<Rightarrow> string res" where
  "std_substr pos count s = (if pos > length s then Inl OutOfRange else Inr (take count (drop pos s)))"

definition std_replace :: "nat \<Rightarrow> nat \<Rightarrow> string \<Rightarrow> string \<Rightarrow> string res" where
  "std_replace pos count x s =
     (if pos > length s then Inl OutOfRange else Inr (take pos s @ x @ drop (pos + count) s))"

definition std_insert :: "nat \<Rightarrow> string \<Rightarrow> string \<Rightarrow> string res" where
  "std_insert index x s = (if index > length s then Inl OutOfRange else Inr (take index s @ x @ drop index s))"

definition std_erase :: "nat \<Rightarrow> nat \<Rightarrow> string \<Rightarrow> string res" where
  "std_erase index count s =
     (if index > length s then Inl OutOfRange else Inr (take index s @ drop (index + count) s))"

text \<open>A range of iterators that leaves the string is undefined.\<close>

definition std_replace_range :: "nat \<Rightarrow> nat \<Rightarrow> string \<Rightarrow> string \<Rightarrow> string res" where
  "std_replace_range a b x s =
     (if a \<le> b \<and> b \<le> length s then Inr (take a s @ x @ drop b s) else Inl UndefinedBehaviour)"

definition std_at :: "nat \<Rightarrow> string \<Rightarrow> char res" where
  "std_at pos s = (if pos < length s then Inr (s ! pos) else Inl OutOfRange)"

definition std_index :: "nat \<Rightarrow> string \<Rightarrow> char res" where
  "std_index pos s =
     (if pos < length s then Inr (s ! pos) else if pos = length s then Inr (char_of (0 :: nat)) else Inl UndefinedBehaviour)"

definition std_resize :: "nat \<Rightarrow> char \<Rightarrow> string \<Rightarrow> string" where
  "std_resize count ch s = take count s @ replicate (count - length s) ch"

text \<open>The sign of \<^verbatim>\<open>compare\<close>: lexicographic on unsigned characters.\<close>

definition std_compare :: "string \<Rightarrow> string \<Rightarrow> int" where
  "std_compare s t = (if s < t then - 1 else if s = t then 0 else 1)"

text \<open>The searches: the first position of a list that satisfies a condition, else \<^verbatim>\<open>npos\<close>.\<close>

definition first_pos :: "(nat \<Rightarrow> bool) \<Rightarrow> nat list \<Rightarrow> nat" where
  "first_pos P ps = (case List.find P ps of None \<Rightarrow> npos | Some p \<Rightarrow> p)"

definition occurs_at :: "string \<Rightarrow> string \<Rightarrow> nat \<Rightarrow> bool" where
  "occurs_at x s p \<longleftrightarrow> p + length x \<le> length s \<and> take (length x) (drop p s) = x"

definition std_find :: "string \<Rightarrow> nat \<Rightarrow> string \<Rightarrow> nat" where
  "std_find x pos s = first_pos (occurs_at x s) [pos..<length s + 1]"

definition std_rfind :: "string \<Rightarrow> nat \<Rightarrow> string \<Rightarrow> nat" where
  "std_rfind x pos s = first_pos (occurs_at x s) (rev [0..<min pos (length s) + 1])"

definition std_find_first :: "(char \<Rightarrow> bool) \<Rightarrow> nat \<Rightarrow> string \<Rightarrow> nat" where
  "std_find_first P pos s = first_pos (\<lambda>p. P (s ! p)) [pos..<length s]"

definition std_find_last :: "(char \<Rightarrow> bool) \<Rightarrow> nat \<Rightarrow> string \<Rightarrow> nat" where
  "std_find_last P pos s = first_pos (\<lambda>p. P (s ! p)) (rev [0..<min (pos + 1) (length s)])"

section \<open>SafeString\<close>

type_synonym safe_string = "string safe_var"

definition SafeString_make :: "bool \<Rightarrow> string \<Rightarrow> safe_string" where
  "SafeString_make owner s = new_var owner '''' s"

definition SafeString_copy :: "safe_string \<Rightarrow> safe_string" where
  "SafeString_copy other = new_var False '''' (cur other)"

text \<open>A commit keeps the temporary string.\<close>

definition SafeString_commit :: "safe_string \<Rightarrow> safe_string" where
  "SafeString_commit v = (let v = check_v v in v\<lparr>sv_value := the (sv_ptr v), sv_registered := False\<rparr>)"

definition SafeString_revert :: "safe_string \<Rightarrow> safe_string" where
  "SafeString_revert v = v\<lparr>sv_ptr := None, sv_registered := False\<rparr>"

definition str_get :: "(safe_string, string) meth" where
  "str_get = get_v"

text \<open>The methods that only look: \<^verbatim>\<open>check()\<close> and a function of the current string.\<close>

definition str_look :: "(string \<Rightarrow> 'a res) \<Rightarrow> (safe_string, 'a) meth" where
  "str_look f = (\<lambda>v. let v = check_v v in (f (cur v), v))"

text \<open>The ones that also register, because they hand out a reference.\<close>

definition str_ref :: "(string \<Rightarrow> 'a res) \<Rightarrow> (safe_string, 'a) meth" where
  "str_ref f = (\<lambda>v. let v = markAsUsed (check_v v) in (f (cur v), v))"

subsection \<open>Assignment and access\<close>

definition str_assign :: "string \<Rightarrow> (safe_string, unit) meth" where
  "str_assign x = mark_update (\<lambda>_. Inr x)"

definition str_assign_fill :: "nat \<Rightarrow> char \<Rightarrow> (safe_string, unit) meth" where
  "str_assign_fill count ch = mark_update (\<lambda>_. Inr (replicate count ch))"

definition str_assign_sub :: "string \<Rightarrow> nat \<Rightarrow> nat \<Rightarrow> (safe_string, unit) meth" where
  "str_assign_sub x pos count = mark_update (\<lambda>_. std_substr pos count x)"

definition str_char_at :: "nat \<Rightarrow> (safe_string, char) meth" where
  "str_char_at pos = str_ref (std_at pos)"

definition str_char_at_const :: "nat \<Rightarrow> (safe_string, char) meth" where
  "str_char_at_const pos = str_look (std_at pos)"

definition str_set_at :: "nat \<Rightarrow> char \<Rightarrow> (safe_string, unit) meth" where
  "str_set_at pos ch = mark_update (\<lambda>s. bind_r (std_at pos s) (\<lambda>_. Inr (s[pos := ch])))"

definition str_front :: "(safe_string, char) meth" where
  "str_front = str_ref (\<lambda>s. if s = '''' then Inl UndefinedBehaviour else Inr (hd s))"

definition str_back :: "(safe_string, char) meth" where
  "str_back = str_ref (\<lambda>s. if s = '''' then Inl UndefinedBehaviour else Inr (last s))"

definition str_index :: "nat \<Rightarrow> (safe_string, char) meth" where
  "str_index pos = str_ref (std_index pos)"

definition str_data :: "(safe_string, string) meth" where
  "str_data = str_look Inr"

definition str_empty :: "(safe_string, bool) meth" where
  "str_empty = str_look (\<lambda>s. Inr (s = ''''))"

definition str_size :: "(safe_string, nat) meth" where
  "str_size = str_look (\<lambda>s. Inr (length s))"

definition str_reserve :: "(safe_string, unit) meth" where
  "str_reserve = mark_update Inr"

definition str_clear :: "(safe_string, unit) meth" where
  "str_clear = mark_update (\<lambda>_. Inr '''')"

subsection \<open>Changes\<close>

definition str_insert :: "nat \<Rightarrow> string \<Rightarrow> (safe_string, unit) meth" where
  "str_insert index x = mark_update (std_insert index x)"

definition str_insert_sub :: "nat \<Rightarrow> string \<Rightarrow> nat \<Rightarrow> nat \<Rightarrow> (safe_string, unit) meth" where
  "str_insert_sub index x index_str count =
     mark_update (\<lambda>s. if index > length s then Inl OutOfRange
       else bind_r (std_substr index_str count x) (\<lambda>y. std_insert index y s))"

definition str_insert_iter :: "nat \<Rightarrow> string \<Rightarrow> (safe_string, unit) meth" where
  "str_insert_iter pos x = mark_update (std_replace_range pos pos x)"

definition str_erase :: "nat \<Rightarrow> nat \<Rightarrow> (safe_string, unit) meth" where
  "str_erase index count = mark_update (std_erase index count)"

definition str_erase_iter :: "nat \<Rightarrow> nat \<Rightarrow> (safe_string, unit) meth" where
  "str_erase_iter a b = mark_update (std_replace_range a b '''')"

definition str_push_back :: "char \<Rightarrow> (safe_string, unit) meth" where
  "str_push_back ch = mark_update (\<lambda>s. Inr (s @ [ch]))"

definition str_pop_back :: "(safe_string, unit) meth" where
  "str_pop_back = mark_update (\<lambda>s. if s = '''' then Inl UndefinedBehaviour else Inr (butlast s))"

definition str_append :: "string \<Rightarrow> (safe_string, unit) meth" where
  "str_append x = mark_update (\<lambda>s. Inr (s @ x))"

definition str_append_fill :: "nat \<Rightarrow> char \<Rightarrow> (safe_string, unit) meth" where
  "str_append_fill count ch = mark_update (\<lambda>s. Inr (s @ replicate count ch))"

definition str_append_sub :: "string \<Rightarrow> nat \<Rightarrow> nat \<Rightarrow> (safe_string, unit) meth" where
  "str_append_sub x pos count = mark_update (\<lambda>s. bind_r (std_substr pos count x) (\<lambda>y. Inr (s @ y)))"

definition str_replace :: "nat \<Rightarrow> nat \<Rightarrow> string \<Rightarrow> (safe_string, unit) meth" where
  "str_replace pos count x = mark_update (std_replace pos count x)"

definition str_replace_sub :: "nat \<Rightarrow> nat \<Rightarrow> string \<Rightarrow> nat \<Rightarrow> nat \<Rightarrow> (safe_string, unit) meth" where
  "str_replace_sub pos count x pos2 count2 =
     mark_update (\<lambda>s. if pos > length s then Inl OutOfRange
       else bind_r (std_substr pos2 count2 x) (\<lambda>y. std_replace pos count y s))"

definition str_replace_iter :: "nat \<Rightarrow> nat \<Rightarrow> string \<Rightarrow> (safe_string, unit) meth" where
  "str_replace_iter a b x = mark_update (std_replace_range a b x)"

text \<open>The overload with a character array and its size registers after the change.\<close>

definition str_replace_cstr :: "nat \<Rightarrow> nat \<Rightarrow> string \<Rightarrow> (safe_string, unit) meth" where
  "str_replace_cstr pos count x = guard_update (std_replace pos count x)"

definition str_resize :: "nat \<Rightarrow> char \<Rightarrow> (safe_string, unit) meth" where
  "str_resize count ch = mark_update (\<lambda>s. Inr (std_resize count ch s))"

definition str_swap :: "safe_string \<Rightarrow> safe_string \<Rightarrow> safe_string \<times> safe_string" where
  "str_swap v w =
     (let v = markAsUsed (check_v v); w = markAsUsed (check_v w)
      in (v\<lparr>sv_ptr := sv_ptr w\<rparr>, w\<lparr>sv_ptr := sv_ptr v\<rparr>))"

subsection \<open>Questions\<close>

definition str_compare :: "string \<Rightarrow> (safe_string, int) meth" where
  "str_compare x = str_look (\<lambda>s. Inr (std_compare s x))"

definition str_compare_sub :: "nat \<Rightarrow> nat \<Rightarrow> string \<Rightarrow> (safe_string, int) meth" where
  "str_compare_sub pos count x = str_look (\<lambda>s. bind_r (std_substr pos count s) (\<lambda>y. Inr (std_compare y x)))"

definition str_compare_subs :: "nat \<Rightarrow> nat \<Rightarrow> string \<Rightarrow> nat \<Rightarrow> nat \<Rightarrow> (safe_string, int) meth" where
  "str_compare_subs pos1 count1 x pos2 count2 =
     str_look (\<lambda>s. bind_r (std_substr pos1 count1 s) (\<lambda>y.
       bind_r (std_substr pos2 count2 x) (\<lambda>z. Inr (std_compare y z))))"

definition str_starts_with :: "string \<Rightarrow> (safe_string, bool) meth" where
  "str_starts_with x = str_look (\<lambda>s. Inr (take (length x) s = x))"

definition str_ends_with :: "string \<Rightarrow> (safe_string, bool) meth" where
  "str_ends_with x = str_look (\<lambda>s. Inr (length x \<le> length s \<and> drop (length s - length x) s = x))"

definition str_substr :: "nat \<Rightarrow> nat \<Rightarrow> (safe_string, safe_string) meth" where
  "str_substr pos count = str_look (\<lambda>s. bind_r (std_substr pos count s) (\<lambda>y. Inr (SafeString_make False y)))"

definition str_copy :: "nat \<Rightarrow> nat \<Rightarrow> (safe_string, string) meth" where
  "str_copy count pos = str_look (std_substr pos count)"

definition str_find :: "string \<Rightarrow> nat \<Rightarrow> (safe_string, nat) meth" where
  "str_find x pos = str_look (\<lambda>s. Inr (std_find x pos s))"

definition str_rfind :: "string \<Rightarrow> nat \<Rightarrow> (safe_string, nat) meth" where
  "str_rfind x pos = str_look (\<lambda>s. Inr (std_rfind x pos s))"

definition str_find_first_of :: "string \<Rightarrow> nat \<Rightarrow> (safe_string, nat) meth" where
  "str_find_first_of x pos = str_look (\<lambda>s. Inr (std_find_first (\<lambda>ch. ch \<in> set x) pos s))"

definition str_find_first_not_of :: "string \<Rightarrow> nat \<Rightarrow> (safe_string, nat) meth" where
  "str_find_first_not_of x pos = str_look (\<lambda>s. Inr (std_find_first (\<lambda>ch. ch \<notin> set x) pos s))"

definition str_find_last_of :: "string \<Rightarrow> nat \<Rightarrow> (safe_string, nat) meth" where
  "str_find_last_of x pos = str_look (\<lambda>s. Inr (std_find_last (\<lambda>ch. ch \<in> set x) pos s))"

definition str_find_last_not_of :: "string \<Rightarrow> nat \<Rightarrow> (safe_string, nat) meth" where
  "str_find_last_not_of x pos = str_look (\<lambda>s. Inr (std_find_last (\<lambda>ch. ch \<notin> set x) pos s))"

definition str_plus :: "string \<Rightarrow> (safe_string, safe_string) meth" where
  "str_plus x = str_look (\<lambda>s. Inr (SafeString_make False (s @ x)))"

definition str_eq :: "string \<Rightarrow> (safe_string, bool) meth" where
  "str_eq x = str_look (\<lambda>s. Inr (s = x))"

definition str_less :: "string \<Rightarrow> (safe_string, bool) meth" where
  "str_less x = str_look (\<lambda>s. Inr (s < x))"

definition str_less_eq :: "string \<Rightarrow> (safe_string, bool) meth" where
  "str_less_eq x = str_look (\<lambda>s. Inr (s \<le> x))"


section \<open>Lemmas\<close>

interpretation string_cell: safe_cell_unreg SafeString_commit SafeString_revert
  by unfold_locales
    (auto simp: SafeString_commit_def SafeString_revert_def sv_defs Let_def split: option.splits)

text \<open>
  The operations of a run, with the end of a call, which commits or reverts. The
  specification works on a plain string and a committed copy of it.
\<close>

datatype str_op =
    OAssign string | OAssignSub string nat nat | OSetAt nat char | OClear | OInsert nat string
  | OInsertSub nat string nat nat | OErase nat nat | OPushBack char | OPopBack | OAppend string
  | OAppendSub string nat nat | OReplace nat nat string | OReplaceSub nat nat string nat nat
  | OReplaceCstr nat nat string | OResize nat char | OGet | OAt nat | OSize | OFind string nat | ORfind string nat
  | OCompare string | OEndCall bool

datatype str_ret = SUnit | SStr string | SNum nat | SInt int | SChar char

definition str_res :: "('a \<Rightarrow> str_ret) \<Rightarrow> 'a res \<times> 's \<Rightarrow> str_ret res \<times> 's" where
  "str_res f p = (bind_r (fst p) (\<lambda>x. Inr (f x)), snd p)"

fun str_run :: "str_op \<Rightarrow> safe_string \<Rightarrow> str_ret res \<times> safe_string" where
  "str_run (OAssign x) v = str_res (\<lambda>_. SUnit) (str_assign x v)"
| "str_run (OAssignSub x p n) v = str_res (\<lambda>_. SUnit) (str_assign_sub x p n v)"
| "str_run (OSetAt p ch) v = str_res (\<lambda>_. SUnit) (str_set_at p ch v)"
| "str_run OClear v = str_res (\<lambda>_. SUnit) (str_clear v)"
| "str_run (OInsert p x) v = str_res (\<lambda>_. SUnit) (str_insert p x v)"
| "str_run (OInsertSub p x q n) v = str_res (\<lambda>_. SUnit) (str_insert_sub p x q n v)"
| "str_run (OErase p n) v = str_res (\<lambda>_. SUnit) (str_erase p n v)"
| "str_run (OPushBack ch) v = str_res (\<lambda>_. SUnit) (str_push_back ch v)"
| "str_run OPopBack v = str_res (\<lambda>_. SUnit) (str_pop_back v)"
| "str_run (OAppend x) v = str_res (\<lambda>_. SUnit) (str_append x v)"
| "str_run (OAppendSub x p n) v = str_res (\<lambda>_. SUnit) (str_append_sub x p n v)"
| "str_run (OReplace p n x) v = str_res (\<lambda>_. SUnit) (str_replace p n x v)"
| "str_run (OReplaceSub p n x q m) v = str_res (\<lambda>_. SUnit) (str_replace_sub p n x q m v)"
| "str_run (OReplaceCstr p n x) v = str_res (\<lambda>_. SUnit) (str_replace_cstr p n x v)"
| "str_run (OResize n ch) v = str_res (\<lambda>_. SUnit) (str_resize n ch v)"
| "str_run OGet v = str_res SStr (str_get v)"
| "str_run (OAt p) v = str_res SChar (str_char_at p v)"
| "str_run OSize v = str_res SNum (str_size v)"
| "str_run (OFind x p) v = str_res SNum (str_find x p v)"
| "str_run (ORfind x p) v = str_res SNum (str_rfind x p v)"
| "str_run (OCompare x) v = str_res SInt (str_compare x v)"
| "str_run (OEndCall b) v = (Inr SUnit, logger_end SafeString_commit SafeString_revert b v)"

definition spec_upd :: "(string \<Rightarrow> string res) \<Rightarrow> string \<times> string \<Rightarrow> str_ret res \<times> string \<times> string" where
  "spec_upd f p = (case f (snd p) of Inl e \<Rightarrow> (Inl e, p) | Inr s \<Rightarrow> (Inr SUnit, fst p, s))"

fun spec_run :: "str_op \<Rightarrow> string \<times> string \<Rightarrow> str_ret res \<times> string \<times> string" where
  "spec_run (OAssign x) = spec_upd (\<lambda>_. Inr x)"
| "spec_run (OAssignSub x p n) = spec_upd (\<lambda>_. std_substr p n x)"
| "spec_run (OSetAt p ch) = spec_upd (\<lambda>s. if p < length s then Inr (s[p := ch]) else Inl OutOfRange)"
| "spec_run OClear = spec_upd (\<lambda>_. Inr '''')"
| "spec_run (OInsert p x) = spec_upd (std_insert p x)"
| "spec_run (OInsertSub p x q n) =
     spec_upd (\<lambda>s. if p \<le> length s \<and> q \<le> length x then std_insert p (take n (drop q x)) s else Inl OutOfRange)"
| "spec_run (OErase p n) = spec_upd (std_erase p n)"
| "spec_run (OPushBack ch) = spec_upd (\<lambda>s. Inr (s @ [ch]))"
| "spec_run OPopBack = spec_upd (\<lambda>s. if s = '''' then Inl UndefinedBehaviour else Inr (butlast s))"
| "spec_run (OAppend x) = spec_upd (\<lambda>s. Inr (s @ x))"
| "spec_run (OAppendSub x p n) = spec_upd (\<lambda>s. if p \<le> length x then Inr (s @ take n (drop p x)) else Inl OutOfRange)"
| "spec_run (OReplace p n x) = spec_upd (std_replace p n x)"
| "spec_run (OReplaceSub p n x q m) =
     spec_upd (\<lambda>s. if p \<le> length s \<and> q \<le> length x then std_replace p n (take m (drop q x)) s else Inl OutOfRange)"
| "spec_run (OReplaceCstr p n x) = spec_upd (std_replace p n x)"
| "spec_run (OResize n ch) = spec_upd (\<lambda>s. Inr (take n s @ replicate (n - length s) ch))"
| "spec_run OGet = (\<lambda>(c, s). (Inr (SStr s), c, s))"
| "spec_run (OAt p) = (\<lambda>(c, s). (if p < length s then Inr (SChar (s ! p)) else Inl OutOfRange, c, s))"
| "spec_run OSize = (\<lambda>(c, s). (Inr (SNum (length s)), c, s))"
| "spec_run (OFind x p) = (\<lambda>(c, s). (Inr (SNum (std_find x p s)), c, s))"
| "spec_run (ORfind x p) = (\<lambda>(c, s). (Inr (SNum (std_rfind x p s)), c, s))"
| "spec_run (OCompare x) = (\<lambda>(c, s). (Inr (SInt (std_compare s x)), c, s))"
| "spec_run (OEndCall b) = (\<lambda>(c, s). (Inr SUnit, if b then (s, s) else (c, c)))"

definition str_abs :: "safe_string \<Rightarrow> string \<times> string" where
  "str_abs v = (sv_value v, cur v)"

definition str_inv :: "safe_string \<Rightarrow> bool" where
  "str_inv v \<longleftrightarrow> in_call v v"

text \<open>One step of an update, of a look and of an access, against the specification.\<close>

definition str_step_ok :: "str_ret res \<times> safe_string \<Rightarrow> str_ret res \<times> string \<times> string \<Rightarrow> bool" where
  "str_step_ok p q \<longleftrightarrow> str_inv (snd p) \<and> q = (fst p, str_abs (snd p))"

lemma update_step_ok:
  assumes "str_inv v" "\<And>s. f s = g s"
  shows "str_step_ok (str_res (\<lambda>_. SUnit) (mark_update f v)) (spec_upd g (str_abs v))"
    "str_step_ok (str_res (\<lambda>_. SUnit) (guard_update f v)) (spec_upd g (str_abs v))"
proof -
  have v: "in_call v v" using assms(1) by (simp add: str_inv_def)
  have steps: "in_call v (snd (mark_update f v))" "in_call v (snd (guard_update f v))"
    using var_step_in_call[OF _ v] mark_update_step guard_update_step by blast+
  then have inv: "str_inv (snd (mark_update f v))" "str_inv (snd (guard_update f v))"
    and val: "sv_value (snd (mark_update f v)) = sv_value v" "sv_value (snd (guard_update f v)) = sv_value v"
    by (auto simp: str_inv_def in_call_def)
  show "str_step_ok (str_res (\<lambda>_. SUnit) (mark_update f v)) (spec_upd g (str_abs v))"
    using inv(1) val(1) mark_update_result[of f v] assms(2)
    by (cases "g (cur v)") (simp_all add: str_step_ok_def str_res_def spec_upd_def str_abs_def)
  show "str_step_ok (str_res (\<lambda>_. SUnit) (guard_update f v)) (spec_upd g (str_abs v))"
    using inv(2) val(2) guard_update_result[of f v] assms(2)
    by (cases "g (cur v)") (simp_all add: str_step_ok_def str_res_def spec_upd_def str_abs_def)
qed

lemma look_step_ok:
  assumes "str_inv v" "bind_r (f (cur v)) (\<lambda>x. Inr (h x)) = r"
  shows "str_step_ok (str_res h (str_look f v)) (r, sv_value v, cur v)"
    "str_step_ok (str_res h (str_ref f v)) (r, sv_value v, cur v)"
proof -
  have v: "in_call v v" using assms(1) by (simp add: str_inv_def)
  have "in_call v (check_v v)" "in_call v (markAsUsed (check_v v))"
    using var_step_in_call[OF _ v] var_step.step_read var_step.step_mark by blast+
  then show "str_step_ok (str_res h (str_look f v)) (r, sv_value v, cur v)"
    "str_step_ok (str_res h (str_ref f v)) (r, sv_value v, cur v)"
    using assms(2) by (auto simp: str_step_ok_def str_res_def str_look_def str_ref_def Let_def str_inv_def str_abs_def in_call_def)
qed

lemmas str_method_defs = str_assign_def str_assign_sub_def str_set_at_def str_clear_def str_insert_def str_insert_sub_def
  str_erase_def str_push_back_def str_pop_back_def str_append_def str_append_sub_def str_replace_def str_replace_sub_def
  str_replace_cstr_def str_resize_def

lemmas str_look_defs = str_char_at_def str_size_def str_find_def str_rfind_def str_compare_def

lemma str_get_look: "str_get = str_look Inr"
  by (rule ext) (simp add: str_get_def str_look_def get_v_eq Let_def)

lemma str_sim_step:
  assumes "str_inv v"
  shows "str_step_ok (str_run x v) (spec_run x (str_abs v))"
proof (cases x)
  case (OEndCall b)
  show ?thesis
    using string_cell.end_call_sim[of v b] assms OEndCall by (auto simp: str_step_ok_def str_inv_def str_abs_def)
qed (auto simp: str_method_defs str_look_defs str_get_look str_abs_def[of v] std_at_def std_substr_def std_resize_def
    intro!: update_step_ok[OF assms, unfolded str_abs_def[of v]] look_step_ok[OF assms])

interpretation str_sim: simulation str_run spec_run str_abs str_inv "\<lambda>_ _. True"
  using str_sim_step by unfold_locales (simp_all add: str_step_ok_def)

section \<open>Properties\<close>

text \<open>
  Claim C39. A \<^verbatim>\<open>SafeString\<close> whose registration is enabled behaves as a string with transactions,
  whatever calls a contract makes on it: each method gives the result of \<^verbatim>\<open>std::string\<close> on the
  current contents, errors included; a call that commits keeps them and a call that reverts
  goes back to those at its start.
\<close>
theorem safe_string_transactional:
  assumes "str_inv v" "run_ops str_run ops v = (rs, w)"
  shows "run_ops spec_run ops (sv_value v, cur v) = (rs, sv_value w, cur w) \<and> str_inv w"
proof -
  have "run_pre str_run (\<lambda>_ _. True) ops v" by (induction ops arbitrary: v) simp_all
  from str_sim.run_sim[OF assms(1) this] show ?thesis using assms(2) by (simp add: str_abs_def)
qed

theorem safe_string_transactional_witness:
  "fst (run_ops str_run [OAppend ''ab'', OEndCall True, OInsert 1 ''xy'', OGet, OErase 9 1, OEndCall False, OGet]
     ((SafeString_make True '''')\<lparr>sv_should := True\<rparr>)) =
   [Inr SUnit, Inr SUnit, Inr SUnit, Inr (SStr ''axyb''), Inl OutOfRange, Inr SUnit, Inr (SStr ''ab'')]"
proof -
  let ?ops = "[OAppend ''ab'', OEndCall True, OInsert 1 ''xy'', OGet, OErase 9 1, OEndCall False, OGet]"
  let ?v = "(SafeString_make True '''')\<lparr>sv_should := True\<rparr>"
  have v: "str_inv ?v" "sv_value ?v = ''''" "cur ?v = ''''"
    by (simp_all add: str_inv_def in_call_def enabled_def SafeString_make_def new_var_def cur_def)
  obtain rs w where run: "run_ops str_run ?ops ?v = (rs, w)" by (cases "run_ops str_run ?ops ?v")
  then have "run_ops spec_run ?ops ('''', '''') = (rs, sv_value w, cur w)"
    using safe_string_transactional[OF v(1) run] unfolding v by blast
  moreover have "run_ops spec_run ?ops ('''', '''') =
    ([Inr SUnit, Inr SUnit, Inr SUnit, Inr (SStr ''axyb''), Inl OutOfRange, Inr SUnit, Inr (SStr ''ab'')], ''ab'', ''ab'')"
    by (simp add: spec_upd_def std_insert_def std_erase_def)
  ultimately have "rs = [Inr SUnit, Inr SUnit, Inr SUnit, Inr (SStr ''axyb''), Inl OutOfRange, Inr SUnit, Inr (SStr ''ab'')]"
    by (metis prod.inject)
  then show ?thesis unfolding run fst_conv .
qed

end
