(* ===== verification/ERC20_Token.thy ===== *)
theory ERC20_Token
  imports Safe_Map Safe_Uint Byte_Codec
begin

text \<open>
  The token contract \<^verbatim>\<open>src/src/contract/templates/erc20.cpp\<close>, the native wrapper
  \<^verbatim>\<open>nativewrapper.cpp\<close>, the token wrapper \<^verbatim>\<open>erc20wrapper.cpp\<close>, and the balances of a call in
  \<^verbatim>\<open>src/src/contract/contractmanager.cpp\<close>. The members are the safe variables of the previous
  theories, so every operation runs through the code of \<open>Safe_Map\<close> and \<open>Safe_Uint\<close>; the
  lemmas lift them to the visible balances. The caller and the value of a call are arguments.
\<close>

section \<open>The contract\<close>

record erc20 =
  e_name :: "string safe_var"
  e_symbol :: "string safe_var"
  e_decimals :: "nat safe_var"
  e_totalSupply :: "nat safe_var"
  e_balances :: "(address, nat) safe_map"
  e_allowed :: "(address, address \<Rightarrow> nat option) safe_map"

text \<open>Run an operation of one member on the contract.\<close>

definition on_balances :: "((address, nat) safe_map, 'a) meth \<Rightarrow> (erc20, 'a) meth" where
  "on_balances f = (\<lambda>s. case f (e_balances s) of (r, m) \<Rightarrow> (r, s\<lparr>e_balances := m\<rparr>))"

definition on_allowed :: "((address, address \<Rightarrow> nat option) safe_map, 'a) meth \<Rightarrow> (erc20, 'a) meth" where
  "on_allowed f = (\<lambda>s. case f (e_allowed s) of (r, m) \<Rightarrow> (r, s\<lparr>e_allowed := m\<rparr>))"

definition on_supply :: "(nat safe_var, 'a) meth \<Rightarrow> (erc20, 'a) meth" where
  "on_supply f = (\<lambda>s. case f (e_totalSupply s) of (r, m) \<Rightarrow> (r, s\<lparr>e_totalSupply := m\<rparr>))"

text \<open>
  \<^verbatim>\<open>balances_[a] += v\<close> and \<^verbatim>\<open>-= v\<close>: the reference is made first, then the checked 256-bit
  operation may throw.
\<close>

definition balance_add :: "address \<Rightarrow> nat \<Rightarrow> (erc20, unit) meth" where
  "balance_add a v = bind_m (on_balances (map_index 0 a)) (\<lambda>b.
     bind_m (lift_m (u_add 256 b v)) (\<lambda>b'. on_balances (mod_m (ptr_put a b'))))"

definition balance_sub :: "address \<Rightarrow> nat \<Rightarrow> (erc20, unit) meth" where
  "balance_sub a v = bind_m (on_balances (map_index 0 a)) (\<lambda>b.
     bind_m (lift_m (u_sub b v)) (\<lambda>b'. on_balances (mod_m (ptr_put a b'))))"

definition mintValue :: "address \<Rightarrow> nat \<Rightarrow> (erc20, unit) meth" where
  "mintValue a v = bind_m (balance_add a v) (\<lambda>_. on_supply (uint_add_assign 256 (OpUint v)))"

definition burnValue :: "address \<Rightarrow> nat \<Rightarrow> (erc20, unit) meth" where
  "burnValue a v = bind_m (balance_sub a v) (\<lambda>_. on_supply (uint_sub_assign 256 (OpUint v)))"

definition totalSupply :: "(erc20, nat) meth" where
  "totalSupply = on_supply get_v"

definition balanceOf :: "address \<Rightarrow> (erc20, nat) meth" where
  "balanceOf owner = bind_m (on_balances (map_find_const owner)) (\<lambda>it.
     ret_m (case it of None \<Rightarrow> 0 | Some v \<Rightarrow> v))"

definition transfer :: "address \<Rightarrow> address \<Rightarrow> nat \<Rightarrow> (erc20, unit) meth" where
  "transfer caller to v = bind_m (balance_sub caller v) (\<lambda>_. balance_add to v)"

definition approve :: "address \<Rightarrow> address \<Rightarrow> nat \<Rightarrow> (erc20, unit) meth" where
  "approve caller spender v =
     bind_m (on_allowed (map_index Map.empty caller)) (\<lambda>inner.
       on_allowed (mod_m (ptr_put caller (inner(spender \<mapsto> v)))))"

definition allowance :: "address \<Rightarrow> address \<Rightarrow> (erc20, nat) meth" where
  "allowance owner spender = bind_m (on_allowed (map_find_const owner)) (\<lambda>it.
     ret_m (case it of None \<Rightarrow> 0
            | Some inner \<Rightarrow> (case inner spender of None \<Rightarrow> 0 | Some v \<Rightarrow> v)))"

text \<open>\<^verbatim>\<open>allowed_[from][caller] -= v\<close>: both subscripts create their entry first.\<close>

definition allowed_sub :: "address \<Rightarrow> address \<Rightarrow> nat \<Rightarrow> (erc20, unit) meth" where
  "allowed_sub from caller v =
     bind_m (on_allowed (map_index Map.empty from)) (\<lambda>inner.
       let a = map_default inner caller in
       bind_m (on_allowed (mod_m (ptr_put from (inner(caller \<mapsto> a))))) (\<lambda>_.
       bind_m (lift_m (u_sub a v)) (\<lambda>a'. on_allowed (mod_m (ptr_put from (inner(caller \<mapsto> a')))))))"

definition transferFrom :: "address \<Rightarrow> address \<Rightarrow> address \<Rightarrow> nat \<Rightarrow> (erc20, unit) meth" where
  "transferFrom caller from to v =
     bind_m (allowed_sub from caller v) (\<lambda>_.
     bind_m (balance_sub from v) (\<lambda>_. balance_add to v))"

text \<open>
  The constructor of a new token: assign the members and mint for the creator while the
  members are not registered yet, commit them, then enable the registration. The strings are
  committed as plain variables; the source keeps their temporary pointer, with the same text,
  which no operation of the token can see.
\<close>

definition fresh_token :: "erc20" where
  "fresh_token = \<lparr>e_name = new_var True '''' '''', e_symbol = new_var True '''' '''',
     e_decimals = SafeUint_make True 0, e_totalSupply = SafeUint_make True 0,
     e_balances = SafeMap_make True Map.empty, e_allowed = SafeMap_make True Map.empty\<rparr>"

definition ERC20_make :: "string \<Rightarrow> string \<Rightarrow> nat \<Rightarrow> nat \<Rightarrow> address \<Rightarrow> erc20 res" where
  "ERC20_make nm sy de mint creator =
     (let s = fresh_token\<lparr>e_name := snd (mark_update (\<lambda>_. Inr nm) (e_name fresh_token)),
                e_symbol := snd (mark_update (\<lambda>_. Inr sy) (e_symbol fresh_token)),
                e_decimals := snd (uint_assign 8 (OpUint de) (e_decimals fresh_token))\<rparr>
      in case mintValue creator mint s of
           (Inl e, _) \<Rightarrow> Inl e
         | (Inr _, s) \<Rightarrow> Inr \<lparr>
             e_name = (commit_v (e_name s))\<lparr>sv_should := True\<rparr>,
             e_symbol = (commit_v (e_symbol s))\<lparr>sv_should := True\<rparr>,
             e_decimals = (commit_v (e_decimals s))\<lparr>sv_should := True\<rparr>,
             e_totalSupply = (commit_v (e_totalSupply s))\<lparr>sv_should := True\<rparr>,
             e_balances = (map_commit (e_balances s))\<lparr>sm_should := True\<rparr>,
             e_allowed = (map_commit (e_allowed s))\<lparr>sm_should := True\<rparr>\<rparr>)"

section \<open>Native balances of a call\<close>

text \<open>
  The call logger keeps the native balances a call has touched; \<open>accounts\<close> is what the state
  holds. Every call here has a logger.
\<close>

record call_balances =
  cb_accounts :: "address \<Rightarrow> nat option"
  cb_balances :: "address \<Rightarrow> nat option"

definition getBalanceAt :: "address \<Rightarrow> call_balances \<Rightarrow> nat" where
  "getBalanceAt a s = (case cb_balances s a of None \<Rightarrow> 0 | Some b \<Rightarrow> b)"

definition setBalanceAt :: "address \<Rightarrow> nat \<Rightarrow> call_balances \<Rightarrow> call_balances" where
  "setBalanceAt a v s = s\<lparr>cb_balances := (cb_balances s)(a \<mapsto> v)\<rparr>"

definition addBalance :: "address \<Rightarrow> nat \<Rightarrow> (call_balances, unit) meth" where
  "addBalance a v = (\<lambda>s. case u_add 256 (getBalanceAt a s) v of
     Inl e \<Rightarrow> (Inl e, setBalanceAt a (getBalanceAt a s) s)
   | Inr b \<Rightarrow> (Inr (), setBalanceAt a b s))"

definition subBalance :: "address \<Rightarrow> nat \<Rightarrow> (call_balances, unit) meth" where
  "subBalance a v = (\<lambda>s. case u_sub (getBalanceAt a s) v of
     Inl e \<Rightarrow> (Inl e, setBalanceAt a (getBalanceAt a s) s)
   | Inr b \<Rightarrow> (Inr (), setBalanceAt a b s))"

definition populateBalance :: "address \<Rightarrow> (call_balances, unit) meth" where
  "populateBalance a = mod_m (\<lambda>s.
     if cb_balances s a = None
     then setBalanceAt a (case cb_accounts s a of None \<Rightarrow> 0 | Some b \<Rightarrow> b) s else s)"

definition getBalanceFromAddress :: "address \<Rightarrow> (call_balances, nat) meth" where
  "getBalanceFromAddress a = bind_m (populateBalance a) (\<lambda>_. get_m (getBalanceAt a))"

definition sendTokens :: "address \<Rightarrow> address \<Rightarrow> nat \<Rightarrow> (call_balances, unit) meth" where
  "sendTokens from to amount =
     bind_m (populateBalance from) (\<lambda>_.
     bind_m (populateBalance to) (\<lambda>_.
     bind_m (get_m (getBalanceAt from)) (\<lambda>b.
       if b < amount then throw_m (DynamicException ''ContractManager::sendTokens: Not enough balance'')
       else bind_m (subBalance from amount) (\<lambda>_. addBalance to amount))))"

section \<open>Wrappers\<close>

text \<open>\<^verbatim>\<open>NativeWrapper\<close>: a token backed by the native balance of the contract.\<close>

definition nw_token :: "(erc20, 'a) meth \<Rightarrow> (erc20 \<times> call_balances, 'a) meth" where
  "nw_token f = (\<lambda>(t, c). case f t of (r, t') \<Rightarrow> (r, (t', c)))"

definition nw_balances :: "(call_balances, 'a) meth \<Rightarrow> (erc20 \<times> call_balances, 'a) meth" where
  "nw_balances f = (\<lambda>(t, c). case f c of (r, c') \<Rightarrow> (r, (t, c')))"

definition nw_deposit :: "address \<Rightarrow> nat \<Rightarrow> (erc20 \<times> call_balances, unit) meth" where
  "nw_deposit caller value = nw_token (mintValue caller value)"

definition nw_withdraw :: "address \<Rightarrow> address \<Rightarrow> nat \<Rightarrow> (erc20 \<times> call_balances, unit) meth" where
  "nw_withdraw this caller value =
     bind_m (nw_token (burnValue caller value)) (\<lambda>_. nw_balances (sendTokens this caller value))"

text \<open>
  \<^verbatim>\<open>ERC20Wrapper\<close>, over one token contract: its own ledger \<^verbatim>\<open>tokensAndBalances_\<close> and the token.
  A call of a function of the token runs with the wrapper's address as caller.
\<close>

record wrapper =
  w_ledger :: "(address, address \<Rightarrow> nat option) safe_map"
  w_token :: erc20

definition on_ledger :: "((address, address \<Rightarrow> nat option) safe_map, 'a) meth \<Rightarrow> (wrapper, 'a) meth" where
  "on_ledger f = (\<lambda>s. case f (w_ledger s) of (r, m) \<Rightarrow> (r, s\<lparr>w_ledger := m\<rparr>))"

definition on_token :: "(erc20, 'a) meth \<Rightarrow> (wrapper, 'a) meth" where
  "on_token f = (\<lambda>s. case f (w_token s) of (r, t) \<Rightarrow> (r, s\<lparr>w_token := t\<rparr>))"

definition getUserBalance :: "address \<Rightarrow> address \<Rightarrow> (wrapper, nat) meth" where
  "getUserBalance token user = bind_m (on_ledger (map_find_const token)) (\<lambda>it.
     ret_m (case it of None \<Rightarrow> 0 | Some inner \<Rightarrow> (case inner user of None \<Rightarrow> 0 | Some v \<Rightarrow> v)))"

text \<open>The part \<^verbatim>\<open>withdraw\<close> and \<^verbatim>\<open>transferTo\<close> share: find the entry, check it, debit it.\<close>

definition ledger_debit :: "address \<Rightarrow> address \<Rightarrow> nat \<Rightarrow> (wrapper, unit) meth" where
  "ledger_debit token caller value = bind_m (on_ledger (map_find token)) (\<lambda>it.
     case it of
       None \<Rightarrow> throw_m (DynamicException ''Token not found'')
     | Some inner \<Rightarrow> (case inner caller of
         None \<Rightarrow> throw_m (DynamicException ''User not found'')
       | Some b \<Rightarrow> if b \<le> value then throw_m (DynamicException ''ERC20Wrapper: Not enough balance'')
                    else on_ledger (mod_m (ptr_put token (inner(caller \<mapsto> b - value))))))"

definition wrapper_withdraw :: "address \<Rightarrow> address \<Rightarrow> address \<Rightarrow> nat \<Rightarrow> (wrapper, unit) meth" where
  "wrapper_withdraw this caller token value =
     bind_m (ledger_debit token caller value) (\<lambda>_. on_token (transfer this caller value))"

definition wrapper_transferTo :: "address \<Rightarrow> address \<Rightarrow> address \<Rightarrow> address \<Rightarrow> nat \<Rightarrow> (wrapper, unit) meth" where
  "wrapper_transferTo this caller token to value =
     bind_m (ledger_debit token caller value) (\<lambda>_. on_token (transfer this to value))"

definition wrapper_deposit :: "address \<Rightarrow> address \<Rightarrow> address \<Rightarrow> nat \<Rightarrow> (wrapper, unit) meth" where
  "wrapper_deposit this caller token value =
     bind_m (on_token (transferFrom this caller this value)) (\<lambda>_.
     bind_m (on_ledger (map_index Map.empty token)) (\<lambda>inner.
       let b = map_default inner caller in
       bind_m (on_ledger (mod_m (ptr_put token (inner(caller \<mapsto> b))))) (\<lambda>_.
       bind_m (lift_m (u_add 256 b value)) (\<lambda>b'.
         on_ledger (mod_m (ptr_put token (inner(caller \<mapsto> b'))))))))"


section \<open>Visible balances\<close>

abbreviation bals :: "erc20 \<Rightarrow> address \<Rightarrow> nat option" where
  "bals s \<equiv> lookup (e_balances s)"

definition bal :: "erc20 \<Rightarrow> address \<Rightarrow> nat" where
  "bal s a = map_default (bals s) a"

definition allowed_of :: "erc20 \<Rightarrow> address \<Rightarrow> address \<Rightarrow> nat" where
  "allowed_of s owner spender =
     (case lookup (e_allowed s) owner of None \<Rightarrow> 0 | Some inner \<Rightarrow> map_default inner spender)"

definition supply_ok :: "erc20 \<Rightarrow> bool" where
  "supply_ok s = (finite (dom (bals s)) \<and> map_total (bals s) = cur (e_totalSupply s)
     \<and> cur (e_totalSupply s) < 2 ^ 256)"

lemma on_simps [simp]:
  "on_balances f s = (fst (f (e_balances s)), s\<lparr>e_balances := snd (f (e_balances s))\<rparr>)"
  "on_allowed g s = (fst (g (e_allowed s)), s\<lparr>e_allowed := snd (g (e_allowed s))\<rparr>)"
  "on_supply h s = (fst (h (e_totalSupply s)), s\<lparr>e_totalSupply := snd (h (e_totalSupply s))\<rparr>)"
  by (simp_all add: on_balances_def on_allowed_def on_supply_def split: prod.split)

lemma map_index_facts:
  "fst (map_index d k m) = Inr (case lookup m k of None \<Rightarrow> d | Some v \<Rightarrow> v)"
  "lookup (snd (map_index d k m)) = (lookup m)(k \<mapsto> (case lookup m k of None \<Rightarrow> d | Some v \<Rightarrow> v))"
  using create_facts[of d k m] by (simp_all add: map_index_def Let_def)

lemma bal_index: "fst (map_index 0 a (e_balances s)) = Inr (bal s a)"
  "lookup (snd (map_index 0 a (e_balances s))) = (bals s)(a \<mapsto> bal s a)"
  by (simp_all add: map_index_facts bal_def map_default_def)

lemma balance_add_eq:
  "balance_add a v s =
    (if bal s a + v < 2 ^ 256
     then (Inr (), s\<lparr>e_balances := ptr_put a (bal s a + v) (snd (map_index 0 a (e_balances s)))\<rparr>)
     else (Inl BoostError, s\<lparr>e_balances := snd (map_index 0 a (e_balances s))\<rparr>))"
  by (simp add: balance_add_def bind_m_apply bal_index u_add_def)

lemma balance_sub_eq:
  "balance_sub a v s =
    (if v \<le> bal s a
     then (Inr (), s\<lparr>e_balances := ptr_put a (bal s a - v) (snd (map_index 0 a (e_balances s)))\<rparr>)
     else (Inl BoostError, s\<lparr>e_balances := snd (map_index 0 a (e_balances s))\<rparr>))"
  by (simp add: balance_sub_def bind_m_apply bal_index u_sub_def)

lemma map_total_set:
  assumes "finite (dom m)"
  shows "map_total (m(k \<mapsto> v)) = map_total m + v - map_default m k" "finite (dom (m(k \<mapsto> v)))"
  using map_total_upd[OF assms, of k v] assms by simp_all

lemma map_default_upd [simp]: "map_default (m(k \<mapsto> v)) a = (if a = k then v else map_default m a)"
  by (simp add: map_default_def)

text \<open>A change of one balance, as the maps see it.\<close>

lemma bals_put [simp]:
  "bals (s\<lparr>e_balances := ptr_put a x (snd (map_index 0 a (e_balances s)))\<rparr>) = (bals s)(a \<mapsto> x)"
  by (simp add: bal_index)

lemma bal_put: "bal (s\<lparr>e_balances := ptr_put a x (snd (map_index 0 a (e_balances s)))\<rparr>) b =
    (if b = a then x else bal s b)"
  by (simp add: bal_def bal_index del: fun_upd_apply)

lemma bal_touch: "bal (s\<lparr>e_balances := snd (map_index 0 a (e_balances s))\<rparr>) b = bal s b"
  by (simp add: bal_def bal_index del: fun_upd_apply)

lemma bal_le_supply: "supply_ok s \<Longrightarrow> bal s a \<le> cur (e_totalSupply s)"
  using map_default_le_total[of "bals s" a] by (simp add: supply_ok_def bal_def)

lemma bal_other_le:
  assumes "supply_ok s" "a \<noteq> b"
  shows "bal s a + bal s b \<le> cur (e_totalSupply s)"
proof -
  have fin: "finite (dom (bals s))" using assms(1) by (simp add: supply_ok_def)
  have "map_default ((bals s)(a \<mapsto> 0)) b \<le> map_total ((bals s)(a \<mapsto> 0))"
    using fin by (intro map_default_le_total) simp
  then have "bal s b \<le> map_total ((bals s)(a \<mapsto> 0))" using assms(2) by (simp add: bal_def)
  then show ?thesis
    using map_total_upd[OF fin, of a 0] assms(1) by (simp add: supply_ok_def bal_def)
qed

section \<open>Transfers\<close>

text \<open>The debit and the credit both \<^verbatim>\<open>transfer\<close> and \<^verbatim>\<open>transferFrom\<close> end with.\<close>

lemma move_ok:
  assumes "supply_ok s" "v \<le> bal s frm"
  shows "\<exists>s'. bind_m (balance_sub frm v) (\<lambda>_. balance_add to v) s = (Inr (), s') \<and> supply_ok s'
    \<and> (\<forall>a. bal s' a = bal s a - (if a = frm then v else 0) + (if a = to then v else 0))
    \<and> e_totalSupply s' = e_totalSupply s \<and> e_allowed s' = e_allowed s"
proof -
  let ?s1 = "s\<lparr>e_balances := ptr_put frm (bal s frm - v) (snd (map_index 0 frm (e_balances s)))\<rparr>"
  let ?s2 = "?s1\<lparr>e_balances := ptr_put to (bal ?s1 to + v) (snd (map_index 0 to (e_balances ?s1)))\<rparr>"
  have b1: "bal ?s1 a = bal s a - (if a = frm then v else 0)" for a by (simp add: bal_put)
  have le: "bal ?s1 to + v \<le> cur (e_totalSupply s)"
    using assms(2) bal_le_supply[OF assms(1), of frm] bal_other_le[OF assms(1), of frm to]
    by (cases "to = frm") (auto simp: b1)
  then have "bal ?s1 to + v < 2 ^ 256" using assms(1) by (simp add: supply_ok_def)
  then have run: "bind_m (balance_sub frm v) (\<lambda>_. balance_add to v) s = (Inr (), ?s2)"
    using assms(2) by (simp add: bind_m_apply balance_sub_eq balance_add_eq)
  have fin: "finite (dom (bals s))" using assms(1) by (simp add: supply_ok_def)
  have l1: "bals ?s1 = (bals s)(frm \<mapsto> bal s frm - v)" by (rule bals_put)
  have l2: "bals ?s2 = (bals ?s1)(to \<mapsto> bal ?s1 to + v)" by (rule bals_put)
  have fin1: "finite (dom (bals ?s1))" unfolding l1 using fin by simp
  have "map_total (bals ?s1) + bal s frm = map_total (bals s) + (bal s frm - v)"
    using map_total_upd[OF fin, of frm "bal s frm - v"] by (simp only: l1 flip: bal_def)
  moreover have "map_total (bals ?s2) + bal ?s1 to = map_total (bals ?s1) + (bal ?s1 to + v)"
    using map_total_upd[OF fin1, of to "bal ?s1 to + v"] by (simp only: l2 flip: bal_def)
  ultimately have "map_total (bals ?s2) = map_total (bals s)" using assms(2) by linarith
  moreover have "finite (dom (bals ?s2))" unfolding l2 using fin1 by simp
  moreover have "e_totalSupply ?s2 = e_totalSupply s" by simp
  ultimately have "supply_ok ?s2" using assms(1) unfolding supply_ok_def by metis
  moreover have "bal ?s2 a = (if a = to then bal ?s1 to + v else bal ?s1 a)" for a by (rule bal_put)
  then have "\<forall>a. bal ?s2 a = bal s a - (if a = frm then v else 0) + (if a = to then v else 0)"
    by (simp only: b1) simp
  ultimately show ?thesis using run by (intro exI[of _ ?s2]) simp
qed

lemma move_fails:
  assumes "bal s frm < v"
  shows "fst (bind_m (balance_sub frm v) (\<lambda>_. balance_add to v) s) = Inl BoostError"
    "bal (snd (bind_m (balance_sub frm v) (\<lambda>_. balance_add to v) s)) a = bal s a"
  using assms by (simp_all add: bind_m_apply balance_sub_eq bal_touch)



lemma allowed_sub_eq:
  "fst (allowed_sub frm caller v s) = (if v \<le> allowed_of s frm caller then Inr () else Inl BoostError)"
  "e_balances (snd (allowed_sub frm caller v s)) = e_balances s"
  "e_totalSupply (snd (allowed_sub frm caller v s)) = e_totalSupply s"
  "allowed_of (snd (allowed_sub frm caller v s)) o' p =
     allowed_of s o' p - (if o' = frm \<and> p = caller \<and> v \<le> allowed_of s frm caller then v else 0)"
proof -
  let ?i = "case lookup (e_allowed s) frm of None \<Rightarrow> Map.empty | Some x \<Rightarrow> x"
  have a: "map_default ?i caller = allowed_of s frm caller"
    by (simp add: allowed_of_def map_default_def split: option.split)
  have idx: "fst (map_index Map.empty frm (e_allowed s)) = Inr ?i"
    "lookup (snd (map_index Map.empty frm (e_allowed s))) = (lookup (e_allowed s))(frm \<mapsto> ?i)"
    by (simp_all add: map_index_facts)
  note run = allowed_sub_def bind_m_apply idx Let_def a u_sub_def
  show "fst (allowed_sub frm caller v s) = (if v \<le> allowed_of s frm caller then Inr () else Inl BoostError)"
    "e_balances (snd (allowed_sub frm caller v s)) = e_balances s"
    "e_totalSupply (snd (allowed_sub frm caller v s)) = e_totalSupply s"
    by (simp_all add: run)
  have p: "map_default ?i p = allowed_of s frm p" for p
    by (simp add: allowed_of_def map_default_def split: option.split)
  show "allowed_of (snd (allowed_sub frm caller v s)) o' p =
     allowed_of s o' p - (if o' = frm \<and> p = caller \<and> v \<le> allowed_of s frm caller then v else 0)"
  proof (cases "o' = frm")
    case False
    then show ?thesis by (simp add: run) (simp add: allowed_of_def idx)
  next
    case True
    let ?r = "snd (allowed_sub frm caller v s)"
    have "lookup (e_allowed ?r) frm = Some (?i(caller \<mapsto> allowed_of s frm caller -
        (if v \<le> allowed_of s frm caller then v else 0)))"
      by (simp add: run)
    then have "allowed_of ?r frm p = (if p = caller then allowed_of s frm caller -
        (if v \<le> allowed_of s frm caller then v else 0) else allowed_of s frm p)"
      using p[of p] by (simp add: allowed_of_def[of ?r])
    with True show ?thesis by simp
  qed
qed

lemma supply_ok_cong:
  "e_balances s' = e_balances s \<Longrightarrow> e_totalSupply s' = e_totalSupply s \<Longrightarrow> supply_ok s' = supply_ok s"
  by (simp add: supply_ok_def)

lemma bal_cong: "e_balances s' = e_balances s \<Longrightarrow> bal s' = bal s"
  by (rule ext) (simp add: bal_def)

lemma transferFrom_unfold:
  "transferFrom caller frm to v s =
    (if v \<le> allowed_of s frm caller
     then bind_m (balance_sub frm v) (\<lambda>_. balance_add to v) (snd (allowed_sub frm caller v s))
     else (Inl BoostError, snd (allowed_sub frm caller v s)))"
  by (simp add: transferFrom_def bind_m_apply[of "allowed_sub frm caller v"] allowed_sub_eq(1))

section \<open>Minting and burning\<close>

lemma supply_add:
  "cur t < 2 ^ 256 \<Longrightarrow> v < 2 ^ 256 \<Longrightarrow>
   fst (uint_add_assign 256 (OpUint v) t) = (if cur t + v < 2 ^ 256 then Inr () else Inl OverflowError)
   \<and> cur (snd (uint_add_assign 256 (OpUint v) t)) = (if cur t + v < 2 ^ 256 then cur t + v else cur t)"
  using add_checked[of v 256 "cur t"] by (simp add: uint_add_assign_def mark_update_result)

lemma supply_sub:
  "cur t < 2 ^ 256 \<Longrightarrow>
   fst (uint_sub_assign 256 (OpUint v) t) = (if v \<le> cur t then Inr () else Inl UnderflowError)
   \<and> cur (snd (uint_sub_assign 256 (OpUint v) t)) = (if v \<le> cur t then cur t - v else cur t)"
  using sub_checked[of "cur t" 256 v] by (simp add: uint_sub_assign_def mark_update_result)

lemma mint_ok:
  assumes "supply_ok s" "v < 2 ^ 256" "cur (e_totalSupply s) + v < 2 ^ 256"
  shows "\<exists>s'. mintValue a v s = (Inr (), s') \<and> supply_ok s'
    \<and> cur (e_totalSupply s') = cur (e_totalSupply s) + v
    \<and> (\<forall>b. bal s' b = bal s b + (if b = a then v else 0))"
proof -
  let ?s1 = "s\<lparr>e_balances := ptr_put a (bal s a + v) (snd (map_index 0 a (e_balances s)))\<rparr>"
  let ?t = "snd (uint_add_assign 256 (OpUint v) (e_totalSupply s))"
  have fin: "finite (dom (bals s))" and tot: "cur (e_totalSupply s) < 2 ^ 256"
    using assms(1) by (simp_all add: supply_ok_def)
  have "bal s a + v < 2 ^ 256" using bal_le_supply[OF assms(1), of a] assms(3) by linarith
  then have run: "mintValue a v s = (Inr (), ?s1\<lparr>e_totalSupply := ?t\<rparr>)"
    using supply_add[OF tot assms(2)] assms(3) by (simp add: mintValue_def bind_m_apply balance_add_eq)
  have l1: "bals ?s1 = (bals s)(a \<mapsto> bal s a + v)" by (rule bals_put)
  have "map_total (bals ?s1) + bal s a = map_total (bals s) + (bal s a + v)"
    using map_total_upd[OF fin, of a "bal s a + v"] by (simp only: l1 flip: bal_def)
  moreover have "finite (dom (bals ?s1))" unfolding l1 using fin by simp
  ultimately have "supply_ok (?s1\<lparr>e_totalSupply := ?t\<rparr>)"
    using assms(1,3) supply_add[OF tot assms(2)] by (simp add: supply_ok_def)
  moreover have "bal (?s1\<lparr>e_totalSupply := ?t\<rparr>) = bal ?s1" by (rule bal_cong) simp
  ultimately show ?thesis
    using run supply_add[OF tot assms(2)] assms(3) bal_put[of a "bal s a + v" s] by simp
qed

lemma mint_fails:
  assumes "supply_ok s" "v < 2 ^ 256" "\<not> cur (e_totalSupply s) + v < 2 ^ 256"
  shows "fst (mintValue a v s) \<in> {Inl BoostError, Inl OverflowError}"
  using assms supply_add[of "e_totalSupply s" v]
  by (simp add: mintValue_def bind_m_apply balance_add_eq supply_ok_def)

lemma burn_ok:
  assumes "supply_ok s" "v \<le> bal s a"
  shows "\<exists>s'. burnValue a v s = (Inr (), s') \<and> supply_ok s'
    \<and> cur (e_totalSupply s') = cur (e_totalSupply s) - v
    \<and> (\<forall>b. bal s' b = bal s b - (if b = a then v else 0))"
proof -
  let ?s1 = "s\<lparr>e_balances := ptr_put a (bal s a - v) (snd (map_index 0 a (e_balances s)))\<rparr>"
  let ?t = "snd (uint_sub_assign 256 (OpUint v) (e_totalSupply s))"
  have fin: "finite (dom (bals s))" and tot: "cur (e_totalSupply s) < 2 ^ 256"
    using assms(1) by (simp_all add: supply_ok_def)
  have le: "v \<le> cur (e_totalSupply s)" using bal_le_supply[OF assms(1), of a] assms(2) by linarith
  then have run: "burnValue a v s = (Inr (), ?s1\<lparr>e_totalSupply := ?t\<rparr>)"
    using supply_sub[OF tot, of v] assms(2) by (simp add: burnValue_def bind_m_apply balance_sub_eq)
  have l1: "bals ?s1 = (bals s)(a \<mapsto> bal s a - v)" by (rule bals_put)
  have "map_total (bals ?s1) + bal s a = map_total (bals s) + (bal s a - v)"
    using map_total_upd[OF fin, of a "bal s a - v"] by (simp only: l1 flip: bal_def)
  then have "map_total (bals ?s1) = map_total (bals s) - v" using assms(2) by linarith
  moreover have "finite (dom (bals ?s1))" unfolding l1 using fin by simp
  ultimately have "supply_ok (?s1\<lparr>e_totalSupply := ?t\<rparr>)"
    using assms(1) le supply_sub[OF tot, of v] by (auto simp: supply_ok_def)
  moreover have "bal (?s1\<lparr>e_totalSupply := ?t\<rparr>) = bal ?s1" by (rule bal_cong) simp
  ultimately show ?thesis
    using run supply_sub[OF tot, of v] le bal_put[of a "bal s a - v" s] by simp
qed



section \<open>Whole calls\<close>

text \<open>What a call does to the members: only steps of their protocols, and no map entry is erased.\<close>

definition token_steps :: "erc20 \<Rightarrow> erc20 \<Rightarrow> bool" where
  "token_steps s t =
     (map_step\<^sup>*\<^sup>* (e_balances s) (e_balances t) \<and> map_step\<^sup>*\<^sup>* (e_allowed s) (e_allowed t)
      \<and> var_step\<^sup>*\<^sup>* (e_totalSupply s) (e_totalSupply t)
      \<and> erased (e_balances t) = erased (e_balances s))"

lemma token_steps_refl [simp]: "token_steps s s"
  by (simp add: token_steps_def)

lemma token_steps_trans: "token_steps s t \<Longrightarrow> token_steps t u \<Longrightarrow> token_steps s u"
  by (auto simp: token_steps_def intro: rtranclp_trans)

lemma token_steps_bind:
  assumes "token_steps s (snd (m s))" "\<And>x t. token_steps t (snd (f x t))"
  shows "token_steps s (snd (bind_m m f s))"
  using assms token_steps_trans by (cases "fst (m s)") (fastforce simp: bind_m_apply)+

lemma index_erased [simp]: "erased (snd (map_index d k m)) = erased m"
  by (simp add: map_index_def checkKeyAndCreate_def Let_def split: option.split)

lemma map_index_put: "ptr_put k v (snd (map_index d k m)) = snd (map_index_assign d k v m)"
  by (simp add: map_index_assign_def bind_m_apply map_index_facts)

lemma token_steps_balance: "token_steps s (snd (balance_add a v s))" "token_steps s (snd (balance_sub a v s))"
  using map_step.step_index[of "e_balances s" 0 a]
    map_step.step_index_assign[of "e_balances s" 0 a]
  by (simp_all add: balance_add_eq balance_sub_eq token_steps_def r_into_rtranclp)
    (simp_all add: map_index_put r_into_rtranclp)

lemma token_steps_supply:
  "token_steps s (snd (on_supply (uint_add_assign 256 x) s))"
  "token_steps s (snd (on_supply (uint_sub_assign 256 x) s))"
  by (simp_all add: token_steps_def uint_add_assign_def uint_sub_assign_def r_into_rtranclp
      mark_update_step)

lemma step_ptr_put:
  "map_step\<^sup>*\<^sup>* m (ptr_put k v (snd (map_index d k m)))"
    "map_step\<^sup>*\<^sup>* m (ptr_put k w (ptr_put k v (snd (map_index d k m))))"
proof -
  have "map_step m (snd (map_index_assign d k u m))" for u by (rule map_step.step_index_assign)
  then show "map_step\<^sup>*\<^sup>* m (ptr_put k v (snd (map_index d k m)))"
    by (simp add: map_index_put r_into_rtranclp)
  have "ptr_put k w (ptr_put k v (snd (map_index d k m))) = ptr_put k w (snd (map_index d k m))"
    by (simp add: ptr_put_def ptr_map_def)
  then show "map_step\<^sup>*\<^sup>* m (ptr_put k w (ptr_put k v (snd (map_index d k m))))"
    using \<open>\<And>u. map_step m (snd (map_index_assign d k u m))\<close>[of w]
    by (simp add: map_index_put r_into_rtranclp)
qed

lemma token_steps_allowed: "token_steps s (snd (allowed_sub frm caller v s))"
  "token_steps s (snd (approve caller spender v s))"
  by (simp_all add: allowed_sub_def approve_def bind_m_apply map_index_facts(1) Let_def token_steps_def
      u_sub_def step_ptr_put)

text \<open>The calls of the contract, and how the call logger ends one.\<close>

datatype erc20_call =
    Transfer address address nat
  | Approve address address nat
  | TransferFrom address address address nat

fun run_call :: "erc20_call \<Rightarrow> (erc20, unit) meth" where
  "run_call (Transfer caller to v) = transfer caller to v"
| "run_call (Approve caller spender v) = approve caller spender v"
| "run_call (TransferFrom caller frm to v) = transferFrom caller frm to v"

definition token_end :: "bool \<Rightarrow> erc20 \<Rightarrow> erc20" where
  "token_end commitCall s = s\<lparr>
     e_totalSupply := logger_end commit_v revert_v commitCall (e_totalSupply s),
     e_balances := map_logger_end commitCall (e_balances s),
     e_allowed := map_logger_end commitCall (e_allowed s)\<rparr>"

definition exec_call :: "erc20_call \<Rightarrow> erc20 \<Rightarrow> erc20" where
  "exec_call c s = (case run_call c s of (Inl e, t) \<Rightarrow> token_end False t | (Inr _, t) \<Rightarrow> token_end True t)"

definition token_clean :: "erc20 \<Rightarrow> bool" where
  "token_clean s = (clean (e_totalSupply s) \<and> enabled (e_totalSupply s) \<and> map_clean (e_balances s)
     \<and> map_clean (e_allowed s) \<and> erased (e_balances s) = {})"

lemma run_call_steps: "token_steps s (snd (run_call c s))"
  by (cases c)
    (simp_all add: transfer_def transferFrom_def token_steps_bind token_steps_balance token_steps_allowed)

lemma erased_end: "erased m = {} \<Longrightarrow> erased (map_logger_end b m) = {}"
proof -
  assume m: "erased m = {}"
  have "erased ((map_commit ^^ n) m) = {}" for n using m by (induction n) simp_all
  moreover have "erased ((map_revert ^^ n) m) = {}" for n
    using m by (induction n) (simp_all add: map_revert_def, simp add: erased_def)
  ultimately show ?thesis by (simp add: map_logger_end_def) (simp add: erased_def)
qed

lemma token_end_facts:
  assumes "token_clean s" "token_steps s t"
  shows "token_clean (token_end b t)"
    and "bals (token_end False t) = bals s" "bals (token_end True t) = bals t"
    and "cur (e_totalSupply (token_end False t)) = cur (e_totalSupply s)"
    and "cur (e_totalSupply (token_end True t)) = cur (e_totalSupply t)"
proof -
  have in_b: "map_in_call (e_balances s) (e_balances t)"
    and in_a: "map_in_call (e_allowed s) (e_allowed t)"
    using assms map_steps_in_call[of "e_balances s" "e_balances t" "e_balances s"]
      map_steps_in_call[of "e_allowed s" "e_allowed t" "e_allowed s"]
    by (auto simp: token_clean_def token_steps_def map_clean_def map_in_call_def)
  have er: "erased (e_balances t) = {}" using assms by (simp add: token_clean_def token_steps_def)
  have v: "clean (e_totalSupply s)" "enabled (e_totalSupply s)" "var_step\<^sup>*\<^sup>* (e_totalSupply s) (e_totalSupply t)"
    using assms by (simp_all add: token_clean_def token_steps_def)
  show "token_clean (token_end b t)"
    using map_logger_end_facts(3)[OF in_b] map_logger_end_facts(3)[OF in_a] erased_end[OF er]
      var_cell.call_atomic[OF v] by (simp add: token_clean_def token_end_def)
  show "bals (token_end False t) = bals s" "bals (token_end True t) = bals t"
    using map_logger_end_facts(1,2)[OF in_b] er assms(1)
    by (simp_all add: token_end_def token_clean_def map_clean_def restrict_map_def)
  show "cur (e_totalSupply (token_end False t)) = cur (e_totalSupply s)"
    "cur (e_totalSupply (token_end True t)) = cur (e_totalSupply t)"
    using var_cell.call_atomic[OF v] by (simp_all add: token_end_def)
qed

lemma run_call_supply:
  assumes "supply_ok s" "run_call c s = (Inr (), t)"
  shows "supply_ok t \<and> e_totalSupply t = e_totalSupply s"
proof (cases c)
  case (Transfer caller to v)
  then show ?thesis
    using assms move_ok[OF assms(1), of v caller to] move_fails(1)[of s caller v to]
    by (cases "v \<le> bal s caller") (auto simp: transfer_def)
next
  case (Approve caller spender v)
  then show ?thesis
    using assms by (auto simp: approve_def bind_m_apply map_index_facts supply_ok_def)
next
  case (TransferFrom caller frm to v)
  let ?u = "snd (allowed_sub frm caller v s)"
  have u: "supply_ok ?u" using assms(1) supply_ok_cong[of ?u s] by (simp add: allowed_sub_eq)
  show ?thesis
    using assms TransferFrom move_ok[OF u, of v frm to] move_fails(1)[of ?u frm v to]
    by (cases "v \<le> bal ?u frm") (auto simp: transferFrom_unfold allowed_sub_eq split: if_splits)
qed

lemma exec_call_ok:
  assumes "token_clean s" "supply_ok s"
  shows "token_clean (exec_call c s) \<and> supply_ok (exec_call c s)
    \<and> cur (e_totalSupply (exec_call c s)) = cur (e_totalSupply s)"
proof (cases "fst (run_call c s)")
  case (Inl e)
  then have "exec_call c s = token_end False (snd (run_call c s))"
    by (auto simp: exec_call_def split: prod.split sum.split)
  then show ?thesis
    using token_end_facts[OF assms(1) run_call_steps[of s c]] assms(2) by (simp add: supply_ok_def)
next
  case (Inr u)
  then have r: "run_call c s = (Inr (), snd (run_call c s))" by (simp add: prod_eq_iff)
  then have "exec_call c s = token_end True (snd (run_call c s))"
    by (auto simp: exec_call_def split: prod.split sum.split)
  then show ?thesis
    using token_end_facts[OF assms(1) run_call_steps[of s c]] run_call_supply[OF assms(2) r]
    by (auto simp: supply_ok_def)
qed



lemma fold_calls_ok:
  assumes "token_clean s" "supply_ok s"
  shows "token_clean (fold exec_call cs s) \<and> supply_ok (fold exec_call cs s)
    \<and> cur (e_totalSupply (fold exec_call cs s)) = cur (e_totalSupply s)"
  using assms
proof (induction cs arbitrary: s)
  case (Cons c cs)
  then show ?case using exec_call_ok[OF Cons.prems, of c] by simp
qed simp

section \<open>Creation\<close>

lemma fresh_supply: "supply_ok fresh_token" "bal fresh_token a = 0" "cur (e_totalSupply fresh_token) = 0"
proof -
  have "bals fresh_token = Map.empty"
    by (rule ext) (simp add: fresh_token_def SafeMap_make_def lookup_def ptr_map_def erased_def)
  moreover show "cur (e_totalSupply fresh_token) = 0"
    by (simp add: fresh_token_def SafeUint_make_def new_var_def cur_def)
  ultimately show "supply_ok fresh_token" "bal fresh_token a = 0"
    by (simp_all add: supply_ok_def map_total_def bal_def map_default_def)
qed

text \<open>Before registration is enabled a step never registers.\<close>

definition unregistered :: "erc20 \<Rightarrow> bool" where
  "unregistered s = (sm_owner (e_balances s) \<and> \<not> sm_should (e_balances s) \<and> sm_uses (e_balances s) = 0
     \<and> \<not> sm_registered (e_balances s) \<and> erased (e_balances s) = {}
     \<and> sv_owner (e_totalSupply s) \<and> \<not> sv_should (e_totalSupply s) \<and> sv_uses (e_totalSupply s) = 0
     \<and> \<not> sv_registered (e_totalSupply s) \<and> e_allowed s = SafeMap_make True Map.empty)"

lemma index_unregistered:
  assumes "\<not> sm_should m"
  shows "sm_owner (snd (map_index d k m)) = sm_owner m" "sm_should (snd (map_index d k m)) = sm_should m"
    "sm_uses (snd (map_index d k m)) = sm_uses m" "sm_registered (snd (map_index d k m)) = sm_registered m"
  using assms
  by (simp_all add: map_index_def Let_def checkKeyAndCreate_def map_markAsUsed_def sm_frame split: option.split)

lemma mint_unregistered:
  assumes "unregistered s" "mintValue a v s = (Inr (), t)"
  shows "unregistered t"
proof -
  let ?s1 = "s\<lparr>e_balances := ptr_put a (bal s a + v) (snd (map_index 0 a (e_balances s)))\<rparr>"
  have t: "t = ?s1\<lparr>e_totalSupply := snd (uint_add_assign 256 (OpUint v) (e_totalSupply s))\<rparr>"
    using assms(2) by (simp add: mintValue_def bind_m_apply balance_add_eq split: if_splits sum.splits)
  let ?u = "snd (uint_add_assign 256 (OpUint v) (e_totalSupply s))"
  have "sv_owner ?u \<and> \<not> sv_should ?u \<and> sv_uses ?u = 0 \<and> \<not> sv_registered ?u"
    using assms(1)
    by (cases "add_assign_val 256 (OpUint v) (cur (e_totalSupply s))"; cases "sv_ptr (e_totalSupply s)")
      (simp_all add: unregistered_def uint_add_assign_def mark_update_def Let_def sv_defs
        del: add_assign_val.simps)
  then show ?thesis
    using assms(1) index_unregistered[of "e_balances s"] by (simp add: t unregistered_def sm_frame)
qed

lemma commit_sm_map: "sm_map (map_commit m) = lookup (map_commit m)"
  by (rule ext) (auto simp: map_commit_def Let_def lookup_def ptr_map_def erased_def map_check_def
      restrict_map_def map_add_def split: option.split)

lemma lookup_should [simp]: "lookup (m\<lparr>sm_should := b\<rparr>) = lookup m"
  by (rule ext) (simp add: lookup_def ptr_map_def erased_def split: option.split)

lemma commit_enable_clean:
  assumes "sm_owner m" "sm_uses m = 0"
  shows "map_clean ((map_commit m)\<lparr>sm_should := True\<rparr>)"
proof -
  have "sm_owner (map_commit m)" "sm_uses (map_commit m) = 0" "\<not> sm_registered (map_commit m)"
    using assms by (simp_all add: map_commit_def Let_def sm_frame)
  then show ?thesis by (simp add: map_clean_def commit_sm_map)
qed

lemma make_clean:
  assumes "ERC20_make nm sy de mint creator = Inr s" "mint < 2 ^ 256"
  shows "token_clean s \<and> supply_ok s \<and> cur (e_totalSupply s) = mint \<and> bal s creator = mint"
proof -
  let ?f = "fresh_token\<lparr>e_name := snd (mark_update (\<lambda>_. Inr nm) (e_name fresh_token)),
                e_symbol := snd (mark_update (\<lambda>_. Inr sy) (e_symbol fresh_token)),
                e_decimals := snd (uint_assign 8 (OpUint de) (e_decimals fresh_token))\<rparr>"
  have f: "supply_ok ?f" "bal ?f = bal fresh_token" "cur (e_totalSupply ?f) = 0" "unregistered ?f"
    using fresh_supply bal_cong[of ?f fresh_token] supply_ok_cong[of ?f fresh_token]
    by (simp_all add: unregistered_def) (simp_all add: fresh_token_def SafeMap_make_def SafeUint_make_def new_var_def erased_def)
  obtain t where t: "mintValue creator mint ?f = (Inr (), t)" "supply_ok t"
    "cur (e_totalSupply t) = mint" "bal t creator = mint"
    using mint_ok[OF f(1) assms(2), of creator] f fresh_supply assms(2) by auto
  have un: "unregistered t" by (rule mint_unregistered[OF f(4) t(1)])
  have s: "s = \<lparr>e_name = (commit_v (e_name t))\<lparr>sv_should := True\<rparr>,
      e_symbol = (commit_v (e_symbol t))\<lparr>sv_should := True\<rparr>,
      e_decimals = (commit_v (e_decimals t))\<lparr>sv_should := True\<rparr>,
      e_totalSupply = (commit_v (e_totalSupply t))\<lparr>sv_should := True\<rparr>,
      e_balances = (map_commit (e_balances t))\<lparr>sm_should := True\<rparr>,
      e_allowed = (map_commit (e_allowed t))\<lparr>sm_should := True\<rparr>\<rparr>"
    using assms(1) t(1) by (simp add: ERC20_make_def Let_def)
  have bs: "bals s = bals t"
    by (rule ext) (use un in \<open>simp add: s lookup_commit unregistered_def\<close>)
  have cs: "cur (e_totalSupply s) = mint" using t(3) by (simp add: s sv_defs Let_def split: option.splits)
  have "map_clean (e_balances s)" "map_clean (e_allowed s)"
    using un by (simp_all add: s unregistered_def SafeMap_make_def commit_enable_clean)
  moreover have "erased (e_balances s) = {}"
  proof -
    have "erased (e_balances s) = erased (map_commit (e_balances t))" by (simp add: s erased_def)
    then show ?thesis using un by (simp add: unregistered_def)
  qed
  moreover have "clean (e_totalSupply s)" "enabled (e_totalSupply s)"
    using un by (simp_all add: s clean_def enabled_def unregistered_def sv_defs Let_def split: option.splits)
  ultimately show ?thesis
    using bs cs t by (simp add: token_clean_def supply_ok_def bal_def)
qed



section \<open>Native balances\<close>

definition native_view :: "call_balances \<Rightarrow> address \<Rightarrow> nat" where
  "native_view s a = (case cb_balances s a of
     None \<Rightarrow> (case cb_accounts s a of None \<Rightarrow> 0 | Some b \<Rightarrow> b) | Some b \<Rightarrow> b)"

lemma view_set [simp]:
  "native_view (setBalanceAt a v s) b = (if b = a then v else native_view s b)"
  "getBalanceAt b (setBalanceAt a v s) = (if b = a then v else getBalanceAt b s)"
  by (simp_all add: native_view_def setBalanceAt_def getBalanceAt_def split: option.split)

lemma populate_facts:
  "populateBalance a s = (Inr (), snd (populateBalance a s))"
  "native_view (snd (populateBalance a s)) b = native_view s b"
  "cb_balances s b \<noteq> None \<Longrightarrow> cb_balances (snd (populateBalance a s)) b = cb_balances s b"
  "cb_balances (snd (populateBalance a s)) a \<noteq> None"
  by (auto simp: populateBalance_def native_view_def setBalanceAt_def split: option.split)

lemma view_eq_balance: "cb_balances s a \<noteq> None \<Longrightarrow> native_view s a = getBalanceAt a s"
  by (auto simp: native_view_def getBalanceAt_def)

lemma send_eq:
  assumes "amount \<le> native_view s frm"
    and "native_view s to + amount < 2 ^ 256"
  shows "\<exists>s'. sendTokens frm to amount s = (Inr (), s')
    \<and> (\<forall>a. native_view s' a = native_view s a - (if a = frm then amount else 0) + (if a = to then amount else 0))"
proof -
  let ?p = "snd (populateBalance to (snd (populateBalance frm s)))"
  have some: "cb_balances ?p frm \<noteq> None" "cb_balances ?p to \<noteq> None"
    using populate_facts(3)[of "snd (populateBalance frm s)" frm to] populate_facts(4) by simp_all
  have view: "native_view ?p a = native_view s a" for a by (simp add: populate_facts(2))
  have gf: "getBalanceAt frm ?p = native_view s frm" "getBalanceAt to ?p = native_view s to"
    using view_eq_balance[OF some(1)] view_eq_balance[OF some(2)] view by simp_all
  let ?q = "setBalanceAt frm (native_view s frm - amount) ?p"
  have "getBalanceAt to ?q + amount < 2 ^ 256" using assms gf by auto
  then have "sendTokens frm to amount s = (Inr (), setBalanceAt to (getBalanceAt to ?q + amount) ?q)"
    using assms gf
    by (simp add: sendTokens_def bind_m_apply populate_facts(1)[THEN arg_cong[where f = fst], simplified]
        subBalance_def addBalance_def u_sub_def u_add_def del: view_set)
  then show ?thesis using gf view assms by (auto intro!: exI)
qed

lemma on_ledger_simp [simp]:
  "on_ledger f s = (fst (f (w_ledger s)), s\<lparr>w_ledger := snd (f (w_ledger s))\<rparr>)"
  by (simp add: on_ledger_def split: prod.split)

section \<open>Properties\<close>

text \<open>
  \<^verbatim>\<open>ERC20::transfer\<close>: when the balances add up to the supply, the call succeeds
  exactly when the caller has the amount (a credit can then not overflow); it moves the
  amount, also when sender and receiver are the same, and keeps the sum; otherwise it throws
  and no balance has changed.
\<close>
theorem erc20_transfer_correct:
  assumes "supply_ok s"
  shows "(v \<le> bal s caller \<longrightarrow> (\<exists>s'. transfer caller to v s = (Inr (), s') \<and> supply_ok s'
      \<and> (\<forall>a. bal s' a = bal s a - (if a = caller then v else 0) + (if a = to then v else 0))
      \<and> e_totalSupply s' = e_totalSupply s \<and> e_allowed s' = e_allowed s))
    \<and> (bal s caller < v \<longrightarrow> fst (transfer caller to v s) = Inl BoostError
      \<and> (\<forall>a. bal (snd (transfer caller to v s)) a = bal s a))"
  using move_ok[OF assms] move_fails by (simp add: transfer_def)

definition sample_token :: erc20 where
  "sample_token = fresh_token\<lparr>
     e_totalSupply := SafeUint_make True 10, e_balances := SafeMap_make True [[1] \<mapsto> 10]\<rparr>"

lemma sample_token_ok: "supply_ok sample_token" "bal sample_token [1] = 10"
proof -
  have "bals sample_token = [[1] \<mapsto> 10]"
    by (rule ext) (simp add: sample_token_def SafeMap_make_def lookup_def ptr_map_def erased_def)
  moreover have "cur (e_totalSupply sample_token) = 10"
    by (simp add: sample_token_def SafeUint_make_def new_var_def cur_def)
  ultimately show "supply_ok sample_token" "bal sample_token [1] = 10"
    by (simp_all add: supply_ok_def map_total_def bal_def map_default_def)
qed

theorem erc20_transfer_correct_witness:
  "\<exists>s'. transfer [1] [2] 4 sample_token = (Inr (), s') \<and> bal s' [1] = 6"
proof -
  obtain s' where "transfer [1] [2] 4 sample_token = (Inr (), s')"
    "\<forall>a. bal s' a = bal sample_token a - (if a = [1] then 4 else 0) + (if a = [2] then 4 else 0)"
    using erc20_transfer_correct[OF sample_token_ok(1), of 4 "[1]" "[2]"] sample_token_ok(2) by auto
  then show ?thesis using sample_token_ok(2) by auto
qed

text \<open>
  \<^verbatim>\<open>ERC20::transferFrom\<close> succeeds exactly when both the allowance of the caller and
  the balance of the owner cover the amount; it lowers the allowance by the amount, moves the
  amount, and keeps the sum. In the other cases it throws.
\<close>
theorem erc20_transferFrom_correct:
  assumes "supply_ok s"
  shows "(v \<le> allowed_of s owner caller \<and> v \<le> bal s owner \<longrightarrow>
      (\<exists>s'. transferFrom caller owner to v s = (Inr (), s') \<and> supply_ok s'
        \<and> (\<forall>a. bal s' a = bal s a - (if a = owner then v else 0) + (if a = to then v else 0))
        \<and> (\<forall>x y. allowed_of s' x y = allowed_of s x y - (if x = owner \<and> y = caller then v else 0))))
    \<and> (\<not> (v \<le> allowed_of s owner caller \<and> v \<le> bal s owner) \<longrightarrow>
      fst (transferFrom caller owner to v s) = Inl BoostError)"
proof -
  let ?u = "snd (allowed_sub owner caller v s)"
  have u: "supply_ok ?u" "bal ?u = bal s"
    using assms supply_ok_cong[of ?u s] bal_cong[of ?u s] by (simp_all add: allowed_sub_eq)
  have al: "e_allowed s' = e_allowed ?u \<Longrightarrow> allowed_of s' = allowed_of ?u" for s'
    by (intro ext) (simp add: allowed_of_def)
  show ?thesis
  proof (intro conjI impI)
    assume ok: "v \<le> allowed_of s owner caller \<and> v \<le> bal s owner"
    then obtain s' where "bind_m (balance_sub owner v) (\<lambda>_. balance_add to v) ?u = (Inr (), s')" "supply_ok s'"
      "\<forall>a. bal s' a = bal s a - (if a = owner then v else 0) + (if a = to then v else 0)"
      "e_allowed s' = e_allowed ?u"
      using move_ok[OF u(1), of v owner to] unfolding u(2) by blast
    note mv = this
    have alw: "allowed_of s' x y = allowed_of s x y - (if x = owner \<and> y = caller then v else 0)" for x y
      unfolding al[OF mv(4)] using ok allowed_sub_eq(4)[of owner caller v s x y] by simp
    have run: "transferFrom caller owner to v s = (Inr (), s')"
      unfolding transferFrom_unfold using ok mv(1) by simp
    from mv(2,3) alw run show "\<exists>s'. transferFrom caller owner to v s = (Inr (), s') \<and> supply_ok s'
        \<and> (\<forall>a. bal s' a = bal s a - (if a = owner then v else 0) + (if a = to then v else 0))
        \<and> (\<forall>x y. allowed_of s' x y = allowed_of s x y - (if x = owner \<and> y = caller then v else 0))"
      by blast
  next
    assume "\<not> (v \<le> allowed_of s owner caller \<and> v \<le> bal s owner)"
    then show "fst (transferFrom caller owner to v s) = Inl BoostError"
      using move_fails(1)[of ?u owner v to] u(2) by (auto simp: transferFrom_unfold not_le)
  qed
qed

theorem erc20_transferFrom_correct_witness:
  "fst (transferFrom [9] [1] [2] 4 sample_token) = Inl BoostError"
proof -
  have "allowed_of sample_token [1] [9] = 0"
    by (simp add: allowed_of_def sample_token_def fresh_token_def SafeMap_make_def lookup_def ptr_map_def erased_def)
  then show ?thesis using erc20_transferFrom_correct[OF sample_token_ok(1), of 4 "[1]" "[9]" "[2]"] by simp
qed

text \<open>
  Minting adds the amount to one balance and to the supply exactly when the new
  supply fits 256 bits, and throws otherwise; burning takes the amount off both when the
  balance covers it. Both keep the balances adding up to the supply.
\<close>
theorem erc20_mint_burn_correct:
  assumes "supply_ok s" "v < 2 ^ 256"
  shows "(cur (e_totalSupply s) + v < 2 ^ 256 \<longrightarrow>
      (\<exists>s'. mintValue a v s = (Inr (), s') \<and> supply_ok s' \<and> cur (e_totalSupply s') = cur (e_totalSupply s) + v
        \<and> (\<forall>b. bal s' b = bal s b + (if b = a then v else 0))))
    \<and> (\<not> cur (e_totalSupply s) + v < 2 ^ 256 \<longrightarrow> fst (mintValue a v s) \<in> {Inl BoostError, Inl OverflowError})
    \<and> (v \<le> bal s a \<longrightarrow>
      (\<exists>s'. burnValue a v s = (Inr (), s') \<and> supply_ok s' \<and> cur (e_totalSupply s') = cur (e_totalSupply s) - v
        \<and> (\<forall>b. bal s' b = bal s b - (if b = a then v else 0))))"
  using mint_ok[OF assms] mint_fails[OF assms] burn_ok[OF assms(1)] by blast

theorem erc20_mint_burn_correct_witness:
  "\<exists>s'. burnValue [1] 4 sample_token = (Inr (), s') \<and> bal s' [1] = 6"
proof -
  obtain s' where "burnValue [1] 4 sample_token = (Inr (), s')"
    "\<forall>b. bal s' b = bal sample_token b - (if b = [1] then 4 else 0)"
    using erc20_mint_burn_correct[OF sample_token_ok(1), of 4 "[1]"] sample_token_ok(2) by auto
  then show ?thesis using sample_token_ok(2) by auto
qed

text \<open>
  Claim C32. Conservation of the supply: in a newly created token, whatever calls of
  \<^verbatim>\<open>transfer\<close>, \<^verbatim>\<open>approve\<close> and \<^verbatim>\<open>transferFrom\<close> follow, each committed when it returns and reverted
  when it throws, the balances always add up to the amount minted at creation.
\<close>
theorem erc20_supply_constant:
  assumes "ERC20_make nm sy de mint creator = Inr s" "mint < 2 ^ 256"
  shows "map_total (lookup (e_balances (fold exec_call cs s))) = mint
    \<and> cur (e_totalSupply (fold exec_call cs s)) = mint
    \<and> (\<forall>a. bal (fold exec_call cs s) a \<le> mint)"
proof -
  have s: "token_clean s" "supply_ok s" "cur (e_totalSupply s) = mint" using make_clean[OF assms] by simp_all
  note ok = fold_calls_ok[OF s(1,2), of cs]
  then show ?thesis using s(3) bal_le_supply[of "fold exec_call cs s"] by (simp add: supply_ok_def)
qed

theorem erc20_supply_constant_witness:
  "\<exists>s. ERC20_make ''T'' ''T'' 18 10 [1] = Inr s
     \<and> map_total (lookup (e_balances (fold exec_call [Transfer [1] [2] 4, Transfer [3] [1] 1] s))) = 10"
proof -
  obtain s where s: "ERC20_make ''T'' ''T'' 18 10 [1] = Inr s"
    using fresh_supply(2)[of "[1]"]
    by (auto simp: ERC20_make_def Let_def mintValue_def bind_m_apply balance_add_eq bal_def map_default_def
        fresh_token_def SafeUint_make_def new_var_def uint_add_assign_def mark_update_def sv_defs uint_max_def
        SafeMap_make_def lookup_def ptr_map_def erased_def split: prod.split sum.split)
  then show ?thesis using erc20_supply_constant[OF s, of "[Transfer [1] [2] 4, Transfer [3] [1] 1]"] by simp
qed

text \<open>
  \<^verbatim>\<open>ContractManagerInterface::sendTokens\<close> moves native balance: it succeeds when the
  sender has the amount and the receiver's balance stays in 256 bits, changes exactly the two
  balances by the amount, and without the funds it throws and changes no balance.
\<close>
theorem sendTokens_correct:
  "(amount \<le> native_view s frm \<and> native_view s to + amount < 2 ^ 256 \<longrightarrow>
      (\<exists>s'. sendTokens frm to amount s = (Inr (), s')
        \<and> (\<forall>a. native_view s' a =
             native_view s a - (if a = frm then amount else 0) + (if a = to then amount else 0))))
   \<and> (native_view s frm < amount \<longrightarrow>
      fst (sendTokens frm to amount s) = Inl (DynamicException ''ContractManager::sendTokens: Not enough balance'')
      \<and> (\<forall>a. native_view (snd (sendTokens frm to amount s)) a = native_view s a))"
proof (intro conjI impI)
  assume "amount \<le> native_view s frm \<and> native_view s to + amount < 2 ^ 256"
  then show "\<exists>s'. sendTokens frm to amount s = (Inr (), s')
        \<and> (\<forall>a. native_view s' a = native_view s a - (if a = frm then amount else 0) + (if a = to then amount else 0))"
    using send_eq by blast
next
  assume less: "native_view s frm < amount"
  let ?p = "snd (populateBalance to (snd (populateBalance frm s)))"
  have some: "cb_balances ?p frm \<noteq> None"
    using populate_facts(3)[of "snd (populateBalance frm s)" frm to] populate_facts(4)[of frm s] by simp
  have "getBalanceAt frm ?p = native_view s frm"
    using view_eq_balance[OF some] by (simp add: populate_facts(2))
  then have run: "sendTokens frm to amount s =
      (Inl (DynamicException ''ContractManager::sendTokens: Not enough balance''), ?p)"
    using less by (simp add: sendTokens_def bind_m_apply
        populate_facts(1)[THEN arg_cong[where f = fst], simplified])
  then show "fst (sendTokens frm to amount s) = Inl (DynamicException ''ContractManager::sendTokens: Not enough balance'')"
    by simp
  show "\<forall>a. native_view (snd (sendTokens frm to amount s)) a = native_view s a"
    using run by (simp add: populate_facts(2))
qed

theorem sendTokens_correct_witness:
  "fst (sendTokens [1] [2] 6 \<lparr>cb_accounts = [[1] \<mapsto> 5], cb_balances = Map.empty\<rparr>) =
     Inl (DynamicException ''ContractManager::sendTokens: Not enough balance'')"
  using sendTokens_correct[of 6 "\<lparr>cb_accounts = [[1] \<mapsto> 5], cb_balances = Map.empty\<rparr>" "[1]" "[2]"]
  by (simp add: native_view_def)

text \<open>
  The token wrapper pays out only strictly less than a user's ledger entry: for the
  whole entry, as for more, \<^verbatim>\<open>withdraw\<close> and \<^verbatim>\<open>transferTo\<close> throw, so the last unit cannot leave.
\<close>
theorem wrapper_full_withdraw_rejected:
  assumes "lookup (w_ledger s) token = Some inner" "inner caller = Some b" "b \<le> value"
  shows "fst (wrapper_withdraw this caller token value s) = Inl (DynamicException ''ERC20Wrapper: Not enough balance'')
    \<and> fst (wrapper_transferTo this caller token to value s) = Inl (DynamicException ''ERC20Wrapper: Not enough balance'')"
proof -
  have "fst (map_find token (w_ledger s)) = Inr (Some inner)"
    using assms(1) copy_facts(2)[of token "w_ledger s"] by (simp add: map_find_def Let_def)
  then have "fst (ledger_debit token caller value s) = Inl (DynamicException ''ERC20Wrapper: Not enough balance'')"
    using assms(2,3) by (simp add: ledger_debit_def bind_m_apply)
  then show ?thesis by (simp add: wrapper_withdraw_def wrapper_transferTo_def bind_m_apply)
qed

theorem wrapper_full_withdraw_rejected_witness:
  "fst (wrapper_withdraw [9] [1] [7] 5 \<lparr>w_ledger = SafeMap_make True [[7] \<mapsto> [[1] \<mapsto> 5]], w_token = sample_token\<rparr>)
    = Inl (DynamicException ''ERC20Wrapper: Not enough balance'')"
  using wrapper_full_withdraw_rejected[of
      "\<lparr>w_ledger = SafeMap_make True [[7] \<mapsto> [[1] \<mapsto> 5]], w_token = sample_token\<rparr>" "[7]" "[[1] \<mapsto> 5]" "[1]" 5 5]
  by (simp add: SafeMap_make_def lookup_def ptr_map_def erased_def)

end
