(* ===== verification/ERC721_Token.thy ===== *)
theory ERC721_Token
  imports Prelude
begin

text \<open>
  The non-fungible token \<^verbatim>\<open>src/src/contract/templates/erc721.cpp\<close>. Each map of the contract is
  the visible map of a safe map (see \<open>Safe_Map\<close>: reads and writes through \<^verbatim>\<open>find\<close> and
  \<^verbatim>\<open>operator[]\<close> act on it as on a plain map). The caller is an argument.
\<close>

section \<open>The contract\<close>

record erc721 =
  n_owners :: "nat \<Rightarrow> address option"
  n_balances :: "address \<Rightarrow> nat option"
  n_approvals :: "nat \<Rightarrow> address option"
  n_operators :: "address \<Rightarrow> (address \<Rightarrow> bool option) option"

definition err721 :: "string \<Rightarrow> cpp_error" where
  "err721 m = DynamicException (''ERC721::'' @ m)"

definition ownerOf_opt :: "nat \<Rightarrow> erc721 \<Rightarrow> address" where
  "ownerOf_opt tokenId s = (case n_owners s tokenId of None \<Rightarrow> zero_address | Some a \<Rightarrow> a)"

definition getApproved_opt :: "nat \<Rightarrow> erc721 \<Rightarrow> address" where
  "getApproved_opt tokenId s = (case n_approvals s tokenId of None \<Rightarrow> zero_address | Some a \<Rightarrow> a)"

definition isApprovedForAll :: "address \<Rightarrow> address \<Rightarrow> erc721 \<Rightarrow> bool" where
  "isApprovedForAll owner operatorAddress s = (case n_operators s owner of
     None \<Rightarrow> False
   | Some inner \<Rightarrow> (case inner operatorAddress of None \<Rightarrow> False | Some b \<Rightarrow> b))"

definition isAuthorized :: "address \<Rightarrow> address \<Rightarrow> nat \<Rightarrow> erc721 \<Rightarrow> bool" where
  "isAuthorized owner spender tokenId s =
     (if spender = owner then True
      else if spender = zero_address then False
      else if isApprovedForAll owner spender s then True
      else if getApproved_opt tokenId s = spender then True
      else False)"

definition checkAuthorized :: "address \<Rightarrow> address \<Rightarrow> nat \<Rightarrow> (erc721, unit) meth" where
  "checkAuthorized owner spender tokenId = (\<lambda>s.
     if \<not> isAuthorized owner spender tokenId s
     then (if nonzero_bytes owner then (Inl (err721 ''checkAuthorized_: Not authorized''), s)
           else (Inl (err721 ''checkAuthorized_: inexistent token''), s))
     else (Inr (), s))"

text \<open>\<^verbatim>\<open>balances_[a]--\<close> and \<^verbatim>\<open>balances_[a]++\<close>: the entry is made first, the checked step may throw.\<close>

definition balance_dec :: "address \<Rightarrow> (erc721, unit) meth" where
  "balance_dec a = (\<lambda>s.
     let b = map_default (n_balances s) a; s = s\<lparr>n_balances := (n_balances s)(a \<mapsto> b)\<rparr> in
     case u_sub b 1 of Inl e \<Rightarrow> (Inl e, s)
     | Inr c \<Rightarrow> (Inr (), s\<lparr>n_balances := (n_balances s)(a \<mapsto> c)\<rparr>))"

definition balance_inc :: "address \<Rightarrow> (erc721, unit) meth" where
  "balance_inc a = (\<lambda>s.
     let b = map_default (n_balances s) a; s = s\<lparr>n_balances := (n_balances s)(a \<mapsto> b)\<rparr> in
     case u_add 256 b 1 of Inl e \<Rightarrow> (Inl e, s)
     | Inr c \<Rightarrow> (Inr (), s\<lparr>n_balances := (n_balances s)(a \<mapsto> c)\<rparr>))"

definition set_approval :: "nat \<Rightarrow> address \<Rightarrow> (erc721, unit) meth" where
  "set_approval tokenId a = mod_m (\<lambda>s. s\<lparr>n_approvals := (n_approvals s)(tokenId \<mapsto> a)\<rparr>)"

definition set_owner :: "nat \<Rightarrow> address \<Rightarrow> (erc721, unit) meth" where
  "set_owner tokenId a = mod_m (\<lambda>s. s\<lparr>n_owners := (n_owners s)(tokenId \<mapsto> a)\<rparr>)"

definition update :: "address \<Rightarrow> nat \<Rightarrow> address \<Rightarrow> (erc721, address) meth" where
  "update to tokenId auth =
     bind_m (get_m (ownerOf_opt tokenId)) (\<lambda>frm.
     bind_m (if nonzero_bytes auth then checkAuthorized frm auth tokenId else ret_m ()) (\<lambda>_.
     bind_m (if nonzero_bytes frm
             then bind_m (set_approval tokenId zero_address) (\<lambda>_. balance_dec frm) else ret_m ()) (\<lambda>_.
     bind_m (if nonzero_bytes to then balance_inc to else ret_m ()) (\<lambda>_.
     bind_m (set_owner tokenId to) (\<lambda>_. ret_m frm)))))"

definition mint :: "address \<Rightarrow> nat \<Rightarrow> (erc721, unit) meth" where
  "mint to tokenId =
     (if to = zero_address then throw_m (err721 ''mint_: mint to the zero address'')
      else bind_m (update to tokenId zero_address) (\<lambda>prevOwner. ret_m ()))"

definition burn :: "nat \<Rightarrow> (erc721, unit) meth" where
  "burn tokenId = bind_m (update zero_address tokenId zero_address) (\<lambda>prevOwner.
     if prevOwner = zero_address then throw_m (err721 ''burn_: inexistent token'') else ret_m ())"

definition transfer_unchecked :: "address \<Rightarrow> address \<Rightarrow> nat \<Rightarrow> (erc721, unit) meth" where
  "transfer_unchecked frm to tokenId =
     (if to = zero_address then throw_m (err721 ''transfer_: transfer to the zero address'')
      else bind_m (update to tokenId zero_address) (\<lambda>prevOwner.
        if prevOwner = zero_address then throw_m (err721 ''transfer_: inexistent token'')
        else if prevOwner \<noteq> frm then throw_m (err721 ''transfer_: incorrect owner'')
        else ret_m ()))"

definition ownerOf :: "nat \<Rightarrow> (erc721, address) meth" where
  "ownerOf tokenId = bind_m (get_m (ownerOf_opt tokenId)) (\<lambda>owner.
     if owner = zero_address then throw_m (err721 ''ownerOf: inexistent token'') else ret_m owner)"

definition approve_auth :: "address \<Rightarrow> nat \<Rightarrow> address \<Rightarrow> (erc721, address) meth" where
  "approve_auth to tokenId auth =
     bind_m (ownerOf tokenId) (\<lambda>owner.
     bind_m (get_m (isApprovedForAll owner auth)) (\<lambda>ap.
       if auth \<noteq> zero_address \<and> owner \<noteq> auth \<and> \<not> ap then throw_m (err721 ''approve_: Not authorized'')
       else bind_m (set_approval tokenId to) (\<lambda>_. ret_m owner)))"

definition nft_balanceOf :: "address \<Rightarrow> (erc721, nat) meth" where
  "nft_balanceOf owner =
     (if owner = zero_address then throw_m (err721 ''balanceOf: zero address'')
      else get_m (\<lambda>s. case n_balances s owner of None \<Rightarrow> 0 | Some b \<Rightarrow> b))"

definition nft_approve :: "address \<Rightarrow> address \<Rightarrow> nat \<Rightarrow> (erc721, unit) meth" where
  "nft_approve caller to tokenId = bind_m (approve_auth to tokenId caller) (\<lambda>_. ret_m ())"

definition requireMinted :: "nat \<Rightarrow> (erc721, unit) meth" where
  "requireMinted tokenId = bind_m (get_m (ownerOf_opt tokenId)) (\<lambda>owner.
     if owner = zero_address then throw_m (err721 ''requireMinted_: inexistent token'') else ret_m ())"

definition getApproved :: "nat \<Rightarrow> (erc721, address) meth" where
  "getApproved tokenId = bind_m (requireMinted tokenId) (\<lambda>_. get_m (getApproved_opt tokenId))"

definition setApprovalForAll :: "address \<Rightarrow> address \<Rightarrow> bool \<Rightarrow> (erc721, unit) meth" where
  "setApprovalForAll owner operatorAddress approved =
     (if operatorAddress = zero_address then throw_m (err721 ''setApprovalForAll_: zero address'')
      else mod_m (\<lambda>s.
        let inner = (case n_operators s owner of None \<Rightarrow> Map.empty | Some i \<Rightarrow> i)
        in s\<lparr>n_operators := (n_operators s)(owner \<mapsto> inner(operatorAddress \<mapsto> approved))\<rparr>))"

definition nft_transferFrom :: "address \<Rightarrow> address \<Rightarrow> address \<Rightarrow> nat \<Rightarrow> (erc721, unit) meth" where
  "nft_transferFrom caller frm to tokenId =
     (if to = zero_address then throw_m (err721 ''transferFrom: transfer to the zero address'')
      else bind_m (update to tokenId caller) (\<lambda>prevOwner.
        if prevOwner = zero_address then throw_m (err721 ''transferFrom: inexistent token'')
        else if prevOwner \<noteq> frm then throw_m (err721 ''transferFrom: incorrect owner'')
        else ret_m ()))"

section \<open>Ownership\<close>

definition tokens_of :: "erc721 \<Rightarrow> address \<Rightarrow> nat set" where
  "tokens_of s a = {t. n_owners s t = Some a}"

text \<open>
  The invariant: addresses have 20 bytes, finitely many tokens exist, and the balance of an
  address other than zero is the number of tokens it owns.
\<close>

definition own_ok :: "erc721 \<Rightarrow> bool" where
  "own_ok s = ((\<forall>t a. n_owners s t = Some a \<longrightarrow> length a = 20) \<and> finite (dom (n_owners s))
     \<and> (\<forall>a. a \<noteq> zero_address \<longrightarrow> map_default (n_balances s) a = card (tokens_of s a)))"

lemma length_zero_address [simp]: "length zero_address = 20"
  by (simp add: zero_address_def)

lemma length_ownerOf: "own_ok s \<Longrightarrow> length (ownerOf_opt t s) = 20"
  by (auto simp: own_ok_def ownerOf_opt_def split: option.split)

lemma map_default_set [simp]: "map_default (m(k \<mapsto> v)) a = (if a = k then v else map_default m a)"
  by (simp add: map_default_def)

lemma finite_tokens_of: "own_ok s \<Longrightarrow> finite (tokens_of s a)"
  by (auto simp: own_ok_def tokens_of_def dom_def elim!: rev_finite_subset)

lemma tokens_of_set:
  "tokens_of (s\<lparr>n_owners := (n_owners s)(t \<mapsto> b)\<rparr>) a =
     (if a = b then insert t (tokens_of s a) else tokens_of s a - {t})"
  by (auto simp: tokens_of_def)

lemma dec_inc_eq:
  "balance_dec a s = (if 1 \<le> map_default (n_balances s) a
     then (Inr (), s\<lparr>n_balances := (n_balances s)(a \<mapsto> map_default (n_balances s) a - 1)\<rparr>)
     else (Inl BoostError, s\<lparr>n_balances := (n_balances s)(a \<mapsto> map_default (n_balances s) a)\<rparr>))"
  "balance_inc a s = (if map_default (n_balances s) a + 1 < 2 ^ 256
     then (Inr (), s\<lparr>n_balances := (n_balances s)(a \<mapsto> map_default (n_balances s) a + 1)\<rparr>)
     else (Inl BoostError, s\<lparr>n_balances := (n_balances s)(a \<mapsto> map_default (n_balances s) a)\<rparr>))"
  by (simp_all add: balance_dec_def balance_inc_def Let_def u_sub_def u_add_def)

text \<open>The counts after a token has moved from one owner to another.\<close>

lemma card_move:
  assumes "own_ok s" "a \<noteq> zero_address"
  shows "card (tokens_of (s\<lparr>n_owners := (n_owners s)(t \<mapsto> to)\<rparr>) a) =
    card (tokens_of s a) - (if a = ownerOf_opt t s then 1 else 0) + (if a = to then 1 else 0)"
proof -
  have fin: "finite (tokens_of s a)" by (rule finite_tokens_of[OF assms(1)])
  have mem: "t \<in> tokens_of s a \<longleftrightarrow> a = ownerOf_opt t s"
    using assms(2) by (auto simp: tokens_of_def ownerOf_opt_def split: option.split)
  have pos: "a = ownerOf_opt t s \<Longrightarrow> 0 < card (tokens_of s a)"
    using mem fin by (auto simp: card_gt_0_iff)
  show ?thesis
    using fin mem pos by (auto simp: tokens_of_set card_insert_if card_Diff_singleton_if insert_absorb)
qed

lemma update_success:
  assumes "own_ok s" "length to = 20" "length auth = 20" "update to t auth s = (Inr prev, s')"
  shows "prev = ownerOf_opt t s \<and> own_ok s' \<and> n_owners s' = (n_owners s)(t \<mapsto> to)
    \<and> n_operators s' = n_operators s
    \<and> (auth \<noteq> zero_address \<longrightarrow> isAuthorized prev auth t s)
    \<and> (prev \<noteq> zero_address \<longrightarrow> getApproved_opt t s' = zero_address)"
proof -
  let ?o = "ownerOf_opt t s"
  have lo: "length ?o = 20" by (rule length_ownerOf[OF assms(1)])
  have auth: "auth \<noteq> zero_address \<longrightarrow> isAuthorized ?o auth t s"
    using assms(3,4) by (auto simp: update_def bind_m_apply checkAuthorized_def nonzero_bytes_iff split: if_splits)
  have facts: "prev = ?o \<and> n_owners s' = (n_owners s)(t \<mapsto> to) \<and> n_operators s' = n_operators s
    \<and> (?o \<noteq> zero_address \<longrightarrow> n_approvals s' t = Some zero_address)
    \<and> (\<forall>a. a \<noteq> zero_address \<longrightarrow> map_default (n_balances s') a =
        map_default (n_balances s) a - (if a = ?o then 1 else 0) + (if a = to then 1 else 0))"
    using assms(2,4) lo
    by (auto simp: update_def bind_m_apply checkAuthorized_def set_approval_def set_owner_def dec_inc_eq
        nonzero_bytes_iff split: if_splits)
  have eq: "tokens_of s' a = tokens_of (s\<lparr>n_owners := (n_owners s)(t \<mapsto> to)\<rparr>) a" for a
    using facts by (simp add: tokens_of_def)
  have "own_ok s'"
    using assms(1,2) facts card_move[OF assms(1)] eq by (auto simp: own_ok_def split: if_splits)
  then show ?thesis using facts auth by (auto simp: getApproved_opt_def)
qed

lemma update_runs:
  assumes "own_ok s" "length to = 20" "length auth = 20"
    and "auth = zero_address \<or> isAuthorized (ownerOf_opt t s) auth t s"
    and "card (tokens_of s to) + 1 < 2 ^ 256"
  shows "\<exists>s'. update to t auth s = (Inr (ownerOf_opt t s), s')"
proof -
  let ?o = "ownerOf_opt t s"
  have lo: "length ?o = 20" by (rule length_ownerOf[OF assms(1)])
  have pos: "?o \<noteq> zero_address \<Longrightarrow> 1 \<le> map_default (n_balances s) ?o"
  proof -
    assume o: "?o \<noteq> zero_address"
    then have "t \<in> tokens_of s ?o" by (auto simp: tokens_of_def ownerOf_opt_def split: option.splits)
    then have "card (tokens_of s ?o) \<noteq> 0" using finite_tokens_of[OF assms(1)] by auto
    then show ?thesis using assms(1) o by (simp add: own_ok_def)
  qed
  have to: "to \<noteq> zero_address \<Longrightarrow> map_default (n_balances s) to + 1 < 2 ^ 256"
    using assms(1,5) by (simp add: own_ok_def)
  have to': "to \<noteq> zero_address \<Longrightarrow> map_default (n_balances s) to - 1 + 1 < 2 ^ 256"
    using to by fastforce
  show ?thesis
    using assms(2,3,4) lo pos to to'
    by (auto simp: update_def bind_m_apply checkAuthorized_def set_approval_def set_owner_def dec_inc_eq
        nonzero_bytes_iff)
qed


section \<open>Properties\<close>

text \<open>
  Claim C33. Ownership: every operation that returns keeps the invariant that an address's
  balance is the number of tokens it owns; a mint or transfer gives the token to the
  receiver, a burn to nobody, and no other token changes its owner.
\<close>
theorem erc721_ownership_preserved:
  assumes "own_ok s" "length to = 20" "length caller = 20"
  shows "(mint to t s = (Inr (), s') \<longrightarrow> own_ok s' \<and> n_owners s' = (n_owners s)(t \<mapsto> to))
    \<and> (burn t s = (Inr (), s') \<longrightarrow> own_ok s' \<and> n_owners s' = (n_owners s)(t \<mapsto> zero_address)
        \<and> ownerOf_opt t s \<noteq> zero_address)
    \<and> (transfer_unchecked frm to t s = (Inr (), s') \<longrightarrow>
        own_ok s' \<and> n_owners s' = (n_owners s)(t \<mapsto> to) \<and> ownerOf_opt t s = frm)
    \<and> (nft_transferFrom caller frm to t s = (Inr (), s') \<longrightarrow>
        own_ok s' \<and> n_owners s' = (n_owners s)(t \<mapsto> to) \<and> ownerOf_opt t s = frm)
    \<and> (nft_approve caller to t s = (Inr (), s') \<longrightarrow> own_ok s' \<and> n_owners s' = n_owners s)
    \<and> (setApprovalForAll caller to b s = (Inr (), s') \<longrightarrow> own_ok s' \<and> n_owners s' = n_owners s)"
proof (intro conjI impI)
  note up = update_success[OF assms(1)]
  show "mint to t s = (Inr (), s') \<Longrightarrow> own_ok s'" "mint to t s = (Inr (), s') \<Longrightarrow> n_owners s' = (n_owners s)(t \<mapsto> to)"
    using up[OF assms(2) length_zero_address, of t] by (auto simp: mint_def bind_m_eq_Inr split: if_splits)
  show "burn t s = (Inr (), s') \<Longrightarrow> own_ok s'"
    "burn t s = (Inr (), s') \<Longrightarrow> n_owners s' = (n_owners s)(t \<mapsto> zero_address)"
    "burn t s = (Inr (), s') \<Longrightarrow> ownerOf_opt t s \<noteq> zero_address"
    using up[OF length_zero_address length_zero_address, of t]
    by (auto simp: burn_def bind_m_eq_Inr split: if_splits)
  show "transfer_unchecked frm to t s = (Inr (), s') \<Longrightarrow> own_ok s'"
    "transfer_unchecked frm to t s = (Inr (), s') \<Longrightarrow> n_owners s' = (n_owners s)(t \<mapsto> to)"
    "transfer_unchecked frm to t s = (Inr (), s') \<Longrightarrow> ownerOf_opt t s = frm"
    using up[OF assms(2) length_zero_address, of t]
    by (auto simp: transfer_unchecked_def bind_m_eq_Inr split: if_splits)
  show "nft_transferFrom caller frm to t s = (Inr (), s') \<Longrightarrow> own_ok s'"
    "nft_transferFrom caller frm to t s = (Inr (), s') \<Longrightarrow> n_owners s' = (n_owners s)(t \<mapsto> to)"
    "nft_transferFrom caller frm to t s = (Inr (), s') \<Longrightarrow> ownerOf_opt t s = frm"
    using up[OF assms(2,3), of t] by (auto simp: nft_transferFrom_def bind_m_eq_Inr split: if_splits)
  have frame: "own_ok (s\<lparr>n_approvals := x\<rparr>)" "own_ok (s\<lparr>n_operators := y\<rparr>)" for x y
    using assms(1) by (simp_all add: own_ok_def tokens_of_def)
  show "nft_approve caller to t s = (Inr (), s') \<Longrightarrow> own_ok s'"
    "nft_approve caller to t s = (Inr (), s') \<Longrightarrow> n_owners s' = n_owners s"
    using frame by (auto simp: nft_approve_def approve_auth_def ownerOf_def set_approval_def bind_m_apply
        split: if_splits)
  show "setApprovalForAll caller to b s = (Inr (), s') \<Longrightarrow> own_ok s'"
    "setApprovalForAll caller to b s = (Inr (), s') \<Longrightarrow> n_owners s' = n_owners s"
    using frame by (auto simp: setApprovalForAll_def Let_def split: if_splits)
qed

definition addr :: "byte \<Rightarrow> address" where
  "addr b = replicate 19 0 @ [b]"

lemma addr_facts [simp]: "length (addr b) = 20" "addr b = zero_address \<longleftrightarrow> b = 0"
  "zero_address = addr b \<longleftrightarrow> b = 0" "addr b = addr c \<longleftrightarrow> b = c"
proof -
  have z: "zero_address = addr 0"
    by (simp add: addr_def zero_address_def replicate_append_same numeral_eq_Suc)
  show "length (addr b) = 20" "addr b = addr c \<longleftrightarrow> b = c" by (simp_all add: addr_def)
  show "addr b = zero_address \<longleftrightarrow> b = 0" "zero_address = addr b \<longleftrightarrow> b = 0"
    unfolding z by (auto simp: addr_def)
qed

definition sample_nft :: erc721 where
  "sample_nft = \<lparr>n_owners = [7 \<mapsto> addr 1], n_balances = [addr 1 \<mapsto> 1], n_approvals = Map.empty,
     n_operators = Map.empty\<rparr>"

lemma sample_nft_ok: "own_ok sample_nft" "ownerOf_opt 7 sample_nft = addr 1"
proof -
  have "tokens_of sample_nft a = (if a = addr 1 then {7} else {})" for a
    by (auto simp: tokens_of_def sample_nft_def)
  then show "own_ok sample_nft" "ownerOf_opt 7 sample_nft = addr 1"
    by (simp_all add: own_ok_def ownerOf_opt_def) (simp_all add: sample_nft_def map_default_def)
qed

theorem erc721_ownership_preserved_witness:
  "\<exists>s'. nft_transferFrom (addr 1) (addr 1) (addr 2) 7 sample_nft = (Inr (), s') \<and> own_ok s'"
proof -
  have "card (tokens_of sample_nft (addr 2)) = 0" by (simp add: tokens_of_def sample_nft_def)
  then obtain s' where "update (addr 2) 7 (addr 1) sample_nft = (Inr (addr 1), s')"
    using update_runs[OF sample_nft_ok(1), of "addr 2" "addr 1" 7] sample_nft_ok(2)
    by (auto simp: isAuthorized_def)
  then have "nft_transferFrom (addr 1) (addr 1) (addr 2) 7 sample_nft = (Inr (), s')"
    by (simp add: nft_transferFrom_def bind_m_apply)
  then show ?thesis
    using erc721_ownership_preserved[OF sample_nft_ok(1), of "addr 2" "addr 1" 7 s' "addr 1"] by auto
qed

text \<open>
  Authorisation of \<^verbatim>\<open>transferFrom\<close>: for a caller other than the zero address, the call
  returns exactly when the receiver is not zero, the named sender owns the token and the
  caller is that owner, one of its operators, or approved for the token; afterwards the
  approval is cleared.
\<close>
theorem erc721_transferFrom_authorized:
  assumes "own_ok s" "length to = 20" "length caller = 20" "caller \<noteq> zero_address"
    and "card (tokens_of s to) + 1 < 2 ^ 256"
  shows "((\<exists>s'. nft_transferFrom caller frm to t s = (Inr (), s')) \<longleftrightarrow>
      to \<noteq> zero_address \<and> ownerOf_opt t s = frm \<and> frm \<noteq> zero_address
      \<and> (caller = frm \<or> isApprovedForAll frm caller s \<or> getApproved_opt t s = caller))
    \<and> (\<forall>s'. nft_transferFrom caller frm to t s = (Inr (), s') \<longrightarrow> getApproved_opt t s' = zero_address)"
proof (intro conjI allI impI)
  show "getApproved_opt t s' = zero_address" if "nft_transferFrom caller frm to t s = (Inr (), s')" for s'
    using that update_success[OF assms(1-3), of t]
    by (auto simp: nft_transferFrom_def bind_m_eq_Inr split: if_splits)
  have auth: "isAuthorized o' caller t s \<longleftrightarrow>
      caller = o' \<or> isApprovedForAll o' caller s \<or> getApproved_opt t s = caller" for o'
    using assms(4) by (auto simp: isAuthorized_def)
  show "(\<exists>s'. nft_transferFrom caller frm to t s = (Inr (), s')) \<longleftrightarrow>
      to \<noteq> zero_address \<and> ownerOf_opt t s = frm \<and> frm \<noteq> zero_address
      \<and> (caller = frm \<or> isApprovedForAll frm caller s \<or> getApproved_opt t s = caller)" (is "?l \<longleftrightarrow> ?r")
  proof
    assume ?l
    then obtain s' p where "update to t caller s = (Inr p, s')" "to \<noteq> zero_address" "p \<noteq> zero_address" "p = frm"
      by (auto simp: nft_transferFrom_def bind_m_eq_Inr split: if_splits)
    then show ?r using update_success[OF assms(1-3)] assms(4) auth by metis
  next
    assume r: ?r
    then obtain s' where "update to t caller s = (Inr frm, s')"
      using update_runs[OF assms(1-3) _ assms(5), of t] auth by auto
    then show ?l using r by (simp add: nft_transferFrom_def bind_m_apply)
  qed
qed

theorem erc721_transferFrom_authorized_witness:
  "\<not> (\<exists>s'. nft_transferFrom (addr 3) (addr 1) (addr 2) 7 sample_nft = (Inr (), s'))"
proof -
  have "card (tokens_of sample_nft (addr 2)) = 0" "\<not> isApprovedForAll (addr 1) (addr 3) sample_nft"
    "getApproved_opt 7 sample_nft = zero_address"
    by (simp_all add: tokens_of_def sample_nft_def isApprovedForAll_def getApproved_opt_def)
  then show ?thesis
    using erc721_transferFrom_authorized[OF sample_nft_ok(1), of "addr 2" "addr 3" "addr 1" 7] by auto
qed

text \<open>
  \<^verbatim>\<open>mint_\<close> does not ask whether the token exists: minting an existing token takes it
  from its owner without any authorisation and gives it to the receiver.
\<close>
theorem erc721_mint_takes_existing:
  assumes "own_ok s" "length to = 20" "to \<noteq> zero_address" "card (tokens_of s to) + 1 < 2 ^ 256"
    and "ownerOf_opt t s = a" "a \<noteq> zero_address" "a \<noteq> to"
  shows "\<exists>s'. mint to t s = (Inr (), s') \<and> ownerOf_opt t s' = to
    \<and> map_default (n_balances s') a + 1 = map_default (n_balances s) a"
proof -
  obtain s' where run: "update to t zero_address s = (Inr a, s')"
    using update_runs[OF assms(1,2) length_zero_address _ assms(4), of t] assms(5) by auto
  note up = update_success[OF assms(1,2) length_zero_address run]
  have own: "n_owners s' = (n_owners s)(t \<mapsto> to)" "own_ok s'" using up by simp_all
  then have "tokens_of s' a = tokens_of (s\<lparr>n_owners := (n_owners s)(t \<mapsto> to)\<rparr>) a"
    by (simp add: tokens_of_def)
  then have "card (tokens_of s' a) = card (tokens_of s a) - 1"
    using card_move[OF assms(1,6), of t to] assms(5,7) by simp
  moreover have "t \<in> tokens_of s a" using assms(5,6) by (auto simp: tokens_of_def ownerOf_opt_def split: option.splits)
  then have "0 < card (tokens_of s a)" using finite_tokens_of[OF assms(1)] by (auto simp: card_gt_0_iff)
  ultimately have "map_default (n_balances s') a + 1 = map_default (n_balances s) a"
    using assms(1,6) own(2) by (simp add: own_ok_def)
  then show ?thesis
    using run own(1) assms(3) by (intro exI[of _ s']) (simp add: mint_def bind_m_apply ownerOf_opt_def)
qed

theorem erc721_mint_takes_existing_witness:
  "\<exists>s'. mint (addr 2) 7 sample_nft = (Inr (), s') \<and> ownerOf_opt 7 s' = addr 2"
proof -
  have "card (tokens_of sample_nft (addr 2)) = 0" by (simp add: tokens_of_def sample_nft_def)
  then show ?thesis
    using erc721_mint_takes_existing[OF sample_nft_ok(1), of "addr 2" 7 "addr 1"] sample_nft_ok(2) by auto
qed

end
