(* ===== verification/Dex.thy ===== *)
theory Dex
  imports ERC20_Token
begin

text \<open>
  The exchange contracts of \<^verbatim>\<open>src/src/contract/templates/dexv2\<close>: the pricing library, the
  fixed-point helper, the pair, the factory and the amount computation of the router. A pair
  holds a liquidity token and trades two token contracts; all three are the \<open>erc20\<close> of the
  token theory, and a call of a token function runs that function with the pair as caller.
  The other members of the pair are the current values of its safe variables. The integer
  square root is the number library's and is an argument, as are the block time and the fee
  receiver.
\<close>

section \<open>Library\<close>

definition dex_error :: "string \<Rightarrow> cpp_error" where
  "dex_error m = DynamicException m"

definition sortTokens :: "address \<Rightarrow> address \<Rightarrow> (address \<times> address) res" where
  "sortTokens tokenA tokenB =
     (if tokenA = tokenB then Inl (dex_error ''DEXV2Library: IDENTICAL_ADDRESSES'')
      else let ret = (if tokenA < tokenB then (tokenA, tokenB) else (tokenB, tokenA)) in
        if fst ret = zero_address then Inl (dex_error ''DEXV2Library: ZERO_ADDRESS'') else Inr ret)"

definition quote :: "nat \<Rightarrow> nat \<Rightarrow> nat \<Rightarrow> nat res" where
  "quote amountA reserveA reserveB =
     (if amountA = 0 then Inl (dex_error ''DEXV2Library: INSUFFICIENT_AMOUNT'')
      else if reserveA = 0 \<or> reserveB = 0 then Inl (dex_error ''DEXV2Library: INSUFFICIENT_LIQUIDITY'')
      else bind_r (u_mul 256 amountA reserveB) (\<lambda>x. u_div x reserveA))"

definition getAmountOut :: "nat \<Rightarrow> nat \<Rightarrow> nat \<Rightarrow> nat res" where
  "getAmountOut amountIn reserveIn reserveOut =
     (if amountIn = 0 then Inl (dex_error ''DEXV2Library: INSUFFICIENT_INPUT_AMOUNT'')
      else if reserveIn = 0 \<or> reserveOut = 0 then Inl (dex_error ''DEXV2Library: INSUFFICIENT_LIQUIDITY'')
      else bind_r (u_mul 256 amountIn 997) (\<lambda>amountInWithFee.
        bind_r (u_mul 256 amountInWithFee reserveOut) (\<lambda>numerator.
        bind_r (u_mul 256 reserveIn 1000) (\<lambda>x.
        bind_r (u_add 256 x amountInWithFee) (\<lambda>denominator.
          u_div numerator denominator)))))"

definition getAmountIn :: "nat \<Rightarrow> nat \<Rightarrow> nat \<Rightarrow> nat res" where
  "getAmountIn amountOut reserveIn reserveOut =
     (if amountOut = 0 then Inl (dex_error ''DEXV2Library: INSUFFICIENT_OUTPUT_AMOUNT'')
      else if reserveIn = 0 \<or> reserveOut = 0 then Inl (dex_error ''DEXV2Library: INSUFFICIENT_LIQUIDITY'')
      else bind_r (u_mul 256 reserveIn amountOut) (\<lambda>x.
        bind_r (u_mul 256 x 1000) (\<lambda>numerator.
        bind_r (u_sub reserveOut amountOut) (\<lambda>y.
        bind_r (u_mul 256 y 997) (\<lambda>denominator.
        bind_r (u_div numerator denominator) (\<lambda>q. u_add 256 q 1))))))"

section \<open>Factory\<close>

text \<open>\<open>f_tokens\<close> records the tokens a created pair was initialised with.\<close>

record factory =
  f_getPair :: "address \<Rightarrow> (address \<Rightarrow> address option) option"
  f_allPairs :: "address list"
  f_tokens :: "address \<Rightarrow> (address \<times> address) option"
  f_feeTo :: address
  f_feeToSetter :: address

definition getPair :: "address \<Rightarrow> address \<Rightarrow> factory \<Rightarrow> address" where
  "getPair tokenA tokenB f = (case f_getPair f tokenA of
     Some inner \<Rightarrow> (case inner tokenB of Some p \<Rightarrow> p | None \<Rightarrow> zero_address)
   | None \<Rightarrow> zero_address)"

definition getPairByIndex :: "nat \<Rightarrow> factory \<Rightarrow> address" where
  "getPairByIndex index f = (if index \<ge> length (f_allPairs f) then zero_address else f_allPairs f ! index)"

definition put_pair :: "address \<Rightarrow> address \<Rightarrow> address \<Rightarrow> factory \<Rightarrow> factory" where
  "put_pair a b p f =
     (let inner = (case f_getPair f a of None \<Rightarrow> Map.empty | Some i \<Rightarrow> i)
      in f\<lparr>f_getPair := (f_getPair f)(a \<mapsto> inner(b \<mapsto> p))\<rparr>)"

text \<open>\<^verbatim>\<open>createPair\<close>; \<open>fresh\<close> is the address the contract creation gives the new pair.\<close>

definition createPair :: "address \<Rightarrow> address \<Rightarrow> address \<Rightarrow> (factory, address) meth" where
  "createPair fresh tokenA tokenB = (\<lambda>f.
     if tokenA = tokenB then (Inl (dex_error ''DEXV2Factory::createPair: IDENTICAL_ADDRESSES''), f)
     else let token0 = (if tokenA < tokenB then tokenA else tokenB);
              token1 = (if tokenA < tokenB then tokenB else tokenA) in
       if token0 = zero_address then (Inl (dex_error ''DEXV2Factory::createPair: ZERO_ADDRESS''), f)
       else if getPair token0 token1 f \<noteq> zero_address
       then (Inl (dex_error ''DEXV2Factory::createPair: PAIR_EXISTS''), f)
       else (Inr fresh,
         (put_pair token1 token0 fresh (put_pair token0 token1 fresh
           (f\<lparr>f_tokens := (f_tokens f)(fresh \<mapsto> (token0, token1))\<rparr>)))
         \<lparr>f_allPairs := f_allPairs f @ [fresh]\<rparr>))"

definition setFeeTo :: "address \<Rightarrow> factory \<Rightarrow> factory" where
  "setFeeTo a f = f\<lparr>f_feeTo := a\<rparr>"

definition setFeeToSetter :: "address \<Rightarrow> factory \<Rightarrow> factory" where
  "setFeeToSetter a f = f\<lparr>f_feeToSetter := a\<rparr>"

text \<open>
  \<^verbatim>\<open>pairFor\<close> and \<^verbatim>\<open>getReserves\<close> of the library. \<open>pair_reserves\<close> is \<^verbatim>\<open>getReservess()\<close> of the pair
  contract at an address, which throws when there is none.
\<close>

definition pairFor :: "factory \<Rightarrow> address \<Rightarrow> address \<Rightarrow> address" where
  "pairFor f tokenA tokenB = getPair tokenA tokenB f"

definition getReserves :: "(address \<Rightarrow> (nat \<times> nat) res) \<Rightarrow> factory \<Rightarrow> address \<Rightarrow> address \<Rightarrow> (nat \<times> nat) res" where
  "getReserves pair_reserves f tokenA tokenB = pair_reserves (pairFor f tokenA tokenB)"

fun amountsOut_loop ::
  "(address \<Rightarrow> (nat \<times> nat) res) \<Rightarrow> factory \<Rightarrow> nat \<Rightarrow> address list \<Rightarrow> nat list res" where
  "amountsOut_loop pr f amount (a # b # path) =
     bind_r (getReserves pr f a b) (\<lambda>(reservesA, reservesB).
     bind_r (getAmountOut amount reservesA reservesB) (\<lambda>out.
     bind_r (amountsOut_loop pr f out (b # path)) (\<lambda>rest. Inr (amount # rest))))"
| "amountsOut_loop pr f amount path = Inr [amount]"

definition getAmountsOut ::
  "(address \<Rightarrow> (nat \<times> nat) res) \<Rightarrow> factory \<Rightarrow> nat \<Rightarrow> address list \<Rightarrow> nat list res" where
  "getAmountsOut pr f amountIn path =
     (if length path < 2 then Inl (dex_error ''DEXV2Library: INVALID_PATH'')
      else amountsOut_loop pr f amountIn path)"

text \<open>The loop of \<^verbatim>\<open>getAmountsIn\<close> goes from the end of the path; it is given the reversed path.\<close>

fun amountsIn_loop ::
  "(address \<Rightarrow> (nat \<times> nat) res) \<Rightarrow> factory \<Rightarrow> nat \<Rightarrow> address list \<Rightarrow> nat list \<Rightarrow> nat list res" where
  "amountsIn_loop pr f amount (b # a # rpath) acc =
     bind_r (getReserves pr f a b) (\<lambda>(reservesA, reservesB).
     bind_r (getAmountIn amount reservesA reservesB) (\<lambda>inp.
     amountsIn_loop pr f inp (a # rpath) (inp # acc)))"
| "amountsIn_loop pr f amount rpath acc = Inr acc"

definition getAmountsIn ::
  "(address \<Rightarrow> (nat \<times> nat) res) \<Rightarrow> factory \<Rightarrow> nat \<Rightarrow> address list \<Rightarrow> nat list res" where
  "getAmountsIn pr f amountOut path =
     (if length path < 2 then Inl (dex_error ''DEXV2Library: INVALID_PATH'')
      else amountsIn_loop pr f amountOut (rev path) [amountOut])"

section \<open>Fixed point\<close>

definition uq_encode :: "nat \<Rightarrow> nat res" where
  "uq_encode x = u_mul 224 x 5192296858534827628530496329220096"

definition uqdiv :: "nat \<Rightarrow> nat \<Rightarrow> nat res" where
  "uqdiv x y = u_div x y"

section \<open>Pair\<close>

record pair =
  p_lp :: erc20
  p_tok0 :: erc20
  p_tok1 :: erc20
  p_factory :: address
  p_token0 :: address
  p_token1 :: address
  p_reserve0 :: nat
  p_reserve1 :: nat
  p_blockTimestampLast :: nat
  p_price0 :: nat
  p_price1 :: nat
  p_kLast :: nat
  p_lock :: bool

definition on_lp :: "(erc20, 'a) meth \<Rightarrow> (pair, 'a) meth" where
  "on_lp f = (\<lambda>s. case f (p_lp s) of (r, t) \<Rightarrow> (r, s\<lparr>p_lp := t\<rparr>))"

definition on_tok0 :: "(erc20, 'a) meth \<Rightarrow> (pair, 'a) meth" where
  "on_tok0 f = (\<lambda>s. case f (p_tok0 s) of (r, t) \<Rightarrow> (r, s\<lparr>p_tok0 := t\<rparr>))"

definition on_tok1 :: "(erc20, 'a) meth \<Rightarrow> (pair, 'a) meth" where
  "on_tok1 f = (\<lambda>s. case f (p_tok1 s) of (r, t) \<Rightarrow> (r, s\<lparr>p_tok1 := t\<rparr>))"

text \<open>\<^verbatim>\<open>_safeTransfer\<close> of each token, with the pair as caller.\<close>

definition safeTransfer0 :: "address \<Rightarrow> address \<Rightarrow> nat \<Rightarrow> (pair, unit) meth" where
  "safeTransfer0 this to value = on_tok0 (transfer this to value)"

definition safeTransfer1 :: "address \<Rightarrow> address \<Rightarrow> nat \<Rightarrow> (pair, unit) meth" where
  "safeTransfer1 this to value = on_tok1 (transfer this to value)"

text \<open>One of the two \<^verbatim>\<open>price += \<close> lines: the increment, and the checked safe addition.\<close>

definition price_step :: "nat \<Rightarrow> nat \<Rightarrow> nat \<Rightarrow> nat \<Rightarrow> nat res" where
  "price_step price num den timeElapsed =
     bind_r (u_cast 112 num) (\<lambda>a. bind_r (uq_encode a) (\<lambda>e.
     bind_r (u_cast 112 den) (\<lambda>b. bind_r (uqdiv e b) (\<lambda>q.
     bind_r (u_mul 256 q timeElapsed) (\<lambda>d. add_assign_val 256 (OpUint d) price)))))"

text \<open>\<open>timestamp\<close> is the block time in microseconds.\<close>

definition pair_update :: "nat \<Rightarrow> nat \<Rightarrow> nat \<Rightarrow> nat \<Rightarrow> nat \<Rightarrow> (pair, unit) meth" where
  "pair_update timestamp balance0 balance1 reserve0 reserve1 = (\<lambda>s.
     let blockTimestamp = (timestamp div 1000000) mod 2 ^ 32;
         timeElapsed = nat ((int blockTimestamp - int (p_blockTimestampLast s)) mod 2 ^ 32) in
     bind_m
       (if timeElapsed > 0 \<and> reserve0 \<noteq> 0 \<and> reserve1 \<noteq> 0
        then bind_m (lift_m (price_step (p_price0 s) reserve1 reserve0 timeElapsed)) (\<lambda>x.
             bind_m (mod_m (\<lambda>s. s\<lparr>p_price0 := x\<rparr>)) (\<lambda>_.
             bind_m (lift_m (price_step (p_price1 s) reserve0 reserve1 timeElapsed)) (\<lambda>y.
             mod_m (\<lambda>s. s\<lparr>p_price1 := y\<rparr>))))
        else ret_m ())
       (\<lambda>_. bind_m (lift_m (u_cast 112 balance0)) (\<lambda>r0.
            bind_m (mod_m (\<lambda>s. s\<lparr>p_reserve0 := r0\<rparr>)) (\<lambda>_.
            bind_m (lift_m (u_cast 112 balance1)) (\<lambda>r1.
            mod_m (\<lambda>s. s\<lparr>p_reserve1 := r1, p_blockTimestampLast := blockTimestamp\<rparr>))))) s)"

definition mintFee :: "(nat \<Rightarrow> nat) \<Rightarrow> address \<Rightarrow> nat \<Rightarrow> nat \<Rightarrow> (pair, bool) meth" where
  "mintFee sqrt feeTo reserve0 reserve1 = (\<lambda>s.
     let feeOn = nonzero_bytes feeTo; k = p_kLast s in
     bind_m
       (if feeOn
        then if k \<noteq> 0
          then bind_m (lift_m (u_mul 256 reserve0 reserve1)) (\<lambda>prod.
            let rootK = sqrt prod; rootKLast = sqrt k in
            if rootK > rootKLast
            then bind_m (lift_m (u_sub rootK rootKLast)) (\<lambda>d.
                 bind_m (lift_m (u_mul 256 (cur (e_totalSupply (p_lp s))) d)) (\<lambda>numerator.
                 bind_m (lift_m (u_mul 256 rootK 5)) (\<lambda>x.
                 bind_m (lift_m (u_add 256 x rootKLast)) (\<lambda>denominator.
                 bind_m (lift_m (u_div numerator denominator)) (\<lambda>liquidity.
                   if liquidity > 0 then on_lp (mintValue feeTo liquidity) else ret_m ())))))
            else ret_m ())
          else ret_m ()
        else if k \<noteq> 0 then mod_m (\<lambda>s. s\<lparr>p_kLast := 0\<rparr>) else ret_m ())
       (\<lambda>_. ret_m feeOn) s)"

definition initialize :: "address \<Rightarrow> address \<Rightarrow> address \<Rightarrow> (pair, unit) meth" where
  "initialize caller token0 token1 = (\<lambda>s.
     if p_factory s \<noteq> caller then (Inl (dex_error ''DEXV2Pair: FORBIDDEN''), s)
     else (Inr (), s\<lparr>p_token0 := token0, p_token1 := token1\<rparr>))"

definition getReservess :: "pair \<Rightarrow> nat \<times> nat" where
  "getReservess s = (p_reserve0 s, p_reserve1 s)"

definition MINIMUM_LIQUIDITY :: nat where
  "MINIMUM_LIQUIDITY = 1000"

text \<open>\<^verbatim>\<open>if (feeOn) kLast_ = reserve0 * reserve1\<close>.\<close>

definition set_kLast :: "bool \<Rightarrow> (pair, unit) meth" where
  "set_kLast feeOn = (\<lambda>s. if feeOn
     then bind_m (lift_m (u_mul 256 (p_reserve0 s) (p_reserve1 s))) (\<lambda>k. mod_m (\<lambda>s. s\<lparr>p_kLast := k\<rparr>)) s
     else (Inr (), s))"

definition pair_guarded :: "(pair, 'a) meth \<Rightarrow> (pair, 'a) meth" where
  "pair_guarded = guarded p_lock (\<lambda>b s. s\<lparr>p_lock := b\<rparr>)"

definition pair_mint ::
  "(nat \<Rightarrow> nat) \<Rightarrow> address \<Rightarrow> nat \<Rightarrow> address \<Rightarrow> address \<Rightarrow> (pair, nat) meth" where
  "pair_mint sqrt feeTo timestamp this to = pair_guarded (
     bind_m (on_tok0 (balanceOf this)) (\<lambda>balance0.
     bind_m (on_tok1 (balanceOf this)) (\<lambda>balance1.
     bind_m (get_m getReservess) (\<lambda>(reserve0, reserve1).
     bind_m (lift_m (u_sub balance0 reserve0)) (\<lambda>amount0.
     bind_m (lift_m (u_sub balance1 reserve1)) (\<lambda>amount1.
     bind_m (mintFee sqrt feeTo reserve0 reserve1) (\<lambda>feeOn.
     bind_m (get_m (\<lambda>s. cur (e_totalSupply (p_lp s)))) (\<lambda>supply.
     bind_m
       (if supply = 0
        then bind_m (lift_m (u_mul 256 amount0 amount1)) (\<lambda>prod.
             bind_m (lift_m (u_sub (sqrt prod) MINIMUM_LIQUIDITY)) (\<lambda>liquidity.
             bind_m (on_lp (mintValue zero_address MINIMUM_LIQUIDITY)) (\<lambda>_. ret_m liquidity)))
        else bind_m (lift_m (bind_r (u_mul 256 amount0 supply) (\<lambda>x. u_div x reserve0))) (\<lambda>l0.
             bind_m (lift_m (bind_r (u_mul 256 amount1 supply) (\<lambda>x. u_div x reserve1))) (\<lambda>l1.
             ret_m (min l0 l1)))) (\<lambda>liquidity.
     if liquidity = 0 then throw_m (dex_error ''DEXV2Pair: INSUFFICIENT_LIQUIDITY_MINTED'')
     else bind_m (on_lp (mintValue to liquidity)) (\<lambda>_.
          bind_m (pair_update timestamp balance0 balance1 reserve0 reserve1) (\<lambda>_.
          bind_m (set_kLast feeOn) (\<lambda>_. ret_m liquidity))))))))))))"

definition pair_burn ::
  "(nat \<Rightarrow> nat) \<Rightarrow> address \<Rightarrow> nat \<Rightarrow> address \<Rightarrow> address \<Rightarrow> (pair, nat \<times> nat) meth" where
  "pair_burn sqrt feeTo timestamp this to = pair_guarded (
     bind_m (on_tok0 (balanceOf this)) (\<lambda>balance0.
     bind_m (on_tok1 (balanceOf this)) (\<lambda>balance1.
     bind_m (on_lp (balanceOf this)) (\<lambda>liquidity.
     bind_m (get_m getReservess) (\<lambda>(reserve0, reserve1).
     bind_m (mintFee sqrt feeTo reserve0 reserve1) (\<lambda>feeOn.
     bind_m (get_m (\<lambda>s. cur (e_totalSupply (p_lp s)))) (\<lambda>supply.
     bind_m (lift_m (bind_r (u_mul 256 liquidity balance0) (\<lambda>x. u_div x supply))) (\<lambda>amount0.
     bind_m (lift_m (bind_r (u_mul 256 liquidity balance1) (\<lambda>x. u_div x supply))) (\<lambda>amount1.
     if amount0 = 0 \<or> amount1 = 0
     then throw_m (dex_error ''DEXV2Pair: INSUFFICIENT_LIQUIDITY_BURNED'')
     else bind_m (on_lp (burnValue this liquidity)) (\<lambda>_.
          bind_m (safeTransfer0 this to amount0) (\<lambda>_.
          bind_m (safeTransfer1 this to amount1) (\<lambda>_.
          bind_m (on_tok0 (balanceOf this)) (\<lambda>balance0.
          bind_m (on_tok1 (balanceOf this)) (\<lambda>balance1.
          bind_m (pair_update timestamp balance0 balance1 reserve0 reserve1) (\<lambda>_.
          bind_m (set_kLast feeOn) (\<lambda>_. ret_m (amount0, amount1)))))))))))))))))"

text \<open>
  The amount that came in, \<^verbatim>\<open>balance > reserve - out ? balance - reserve + out : 0\<close>; both
  differences are checked.
\<close>

definition amount_in :: "nat \<Rightarrow> nat \<Rightarrow> nat \<Rightarrow> nat res" where
  "amount_in balance reserve out =
     bind_r (u_cast 112 out) (\<lambda>o'. bind_r (u_sub reserve o') (\<lambda>d.
       if balance > d then bind_r (u_sub balance reserve) (\<lambda>x. u_add 256 x o') else Inr 0))"

text \<open>The end of \<^verbatim>\<open>swap\<close>, after the optimistic transfers: the input amounts, the product, the update.\<close>

definition swap_finish :: "nat \<Rightarrow> address \<Rightarrow> nat \<Rightarrow> nat \<Rightarrow> nat \<Rightarrow> nat \<Rightarrow> (pair, unit) meth" where
  "swap_finish timestamp this reserve0 reserve1 amount0Out amount1Out =
     bind_m (on_tok0 (balanceOf this)) (\<lambda>balance0.
     bind_m (on_tok1 (balanceOf this)) (\<lambda>balance1.
     bind_m (lift_m (amount_in balance0 reserve0 amount0Out)) (\<lambda>amount0In.
     bind_m (lift_m (amount_in balance1 reserve1 amount1Out)) (\<lambda>amount1In.
     bind_m (lift_m (throw_if (amount0In = 0 \<and> amount1In = 0)
       (dex_error ''DEXV2Pair: INSUFFICIENT_INPUT_AMOUNT''))) (\<lambda>_.
     bind_m (lift_m (bind_r (u_mul 256 balance0 1000) (\<lambda>x. bind_r (u_mul 256 amount0In 3) (\<lambda>y. u_sub x y)))) (\<lambda>adj0.
     bind_m (lift_m (bind_r (u_mul 256 balance1 1000) (\<lambda>x. bind_r (u_mul 256 amount1In 3) (\<lambda>y. u_sub x y)))) (\<lambda>adj1.
     bind_m (lift_m (u_mul 256 adj0 adj1)) (\<lambda>lhs.
     bind_m (lift_m (bind_r (u_mul 256 reserve0 reserve1) (\<lambda>x.
       bind_r (u_mul 256 x 1000) (\<lambda>y. u_mul 256 y 1000)))) (\<lambda>rhs.
     bind_m (lift_m (throw_if (lhs < rhs) (dex_error ''DEXV2Pair: K''))) (\<lambda>_.
     pair_update timestamp balance0 balance1 reserve0 reserve1))))))))))"

definition pair_swap :: "nat \<Rightarrow> address \<Rightarrow> nat \<Rightarrow> nat \<Rightarrow> address \<Rightarrow> (pair, unit) meth" where
  "pair_swap timestamp this amount0Out amount1Out to = pair_guarded (
     bind_m (lift_m (throw_if (amount0Out = 0 \<and> amount1Out = 0)
       (dex_error ''DEXV2Pair: INSUFFICIENT_OUTPUT_AMOUNT''))) (\<lambda>_.
     bind_m (get_m id) (\<lambda>s.
     bind_m (lift_m (u_cast 112 amount0Out)) (\<lambda>o0.
     bind_m (if p_reserve0 s \<le> o0
             then bind_m (lift_m (u_cast 112 amount1Out)) (\<lambda>o1. lift_m (throw_if (p_reserve1 s \<le> o1)
               (dex_error ''DEXV2Pair: INSUFFICIENT_LIQUIDITY'')))
             else ret_m ()) (\<lambda>_.
     bind_m (lift_m (throw_if (p_token0 s = to \<or> p_token1 s = to) (dex_error ''DEXV2Pair: INVALID_TO''))) (\<lambda>_.
     bind_m (if amount0Out > 0 then safeTransfer0 this to amount0Out else ret_m ()) (\<lambda>_.
     bind_m (if amount1Out > 0 then safeTransfer1 this to amount1Out else ret_m ()) (\<lambda>_.
     swap_finish timestamp this (p_reserve0 s) (p_reserve1 s) amount0Out amount1Out))))))))"

definition pair_skim :: "address \<Rightarrow> address \<Rightarrow> (pair, unit) meth" where
  "pair_skim this to = pair_guarded (
     bind_m (on_tok0 (balanceOf this)) (\<lambda>b0.
     bind_m (get_m p_reserve0) (\<lambda>r0.
     bind_m (lift_m (u_sub b0 r0)) (\<lambda>d0.
     bind_m (safeTransfer0 this to d0) (\<lambda>_.
     bind_m (on_tok1 (balanceOf this)) (\<lambda>b1.
     bind_m (get_m p_reserve1) (\<lambda>r1.
     bind_m (lift_m (u_sub b1 r1)) (\<lambda>d1. safeTransfer1 this to d1))))))))"

definition pair_sync :: "nat \<Rightarrow> address \<Rightarrow> (pair, unit) meth" where
  "pair_sync timestamp this = pair_guarded (
     bind_m (on_tok0 (balanceOf this)) (\<lambda>b0.
     bind_m (on_tok1 (balanceOf this)) (\<lambda>b1.
     bind_m (get_m getReservess) (\<lambda>(r0, r1). pair_update timestamp b0 b1 r0 r1))))"

section \<open>Router\<close>

text \<open>\<^verbatim>\<open>DEXV2Router02::_addLiquidity\<close>, from the reserves of the pair on.\<close>

definition addLiquidity_amounts ::
  "nat \<Rightarrow> nat \<Rightarrow> nat \<Rightarrow> nat \<Rightarrow> nat \<Rightarrow> nat \<Rightarrow> (nat \<times> nat) res" where
  "addLiquidity_amounts reserveA reserveB amountADesired amountBDesired amountAMin amountBMin =
     (if reserveA = 0 \<and> reserveB = 0 then Inr (amountADesired, amountBDesired)
      else bind_r (quote amountADesired reserveA reserveB) (\<lambda>amountBoptimal.
        if amountBoptimal \<le> amountBDesired
        then if amountBoptimal < amountBMin
             then Inl (dex_error ''DEXV2Router02::_addLiquidity: INSUFFICIENT_B_AMOUNT'')
             else Inr (amountADesired, amountBoptimal)
        else bind_r (quote amountBDesired reserveB reserveA) (\<lambda>amountAoptimal.
          if amountAoptimal \<le> amountADesired
          then if amountAoptimal < amountAMin
               then Inl (dex_error ''DEXV2Router02::_addLiquidity: INSUFFICIENT_A_AMOUNT'')
               else Inr (amountAoptimal, amountBDesired)
          else Inl (dex_error ''DEXV2Router02::_addLiquidity: INSUFFICIENT_A_AMOUNT''))))"

text \<open>The first part: find the pair, or create it; a new pair has no reserves.\<close>

definition router_addLiquidity ::
  "(address \<Rightarrow> (nat \<times> nat) res) \<Rightarrow> address \<Rightarrow> address \<Rightarrow> address \<Rightarrow> nat \<Rightarrow> nat \<Rightarrow> nat \<Rightarrow> nat \<Rightarrow>
   (factory, nat \<times> nat) meth" where
  "router_addLiquidity pair_reserves fresh tokenA tokenB amountADesired amountBDesired amountAMin amountBMin =
     bind_m (get_m (getPair tokenA tokenB)) (\<lambda>p.
     bind_m (if \<not> nonzero_bytes p
             then bind_m (createPair fresh tokenA tokenB) (\<lambda>_. ret_m (0, 0))
             else lift_m (pair_reserves p)) (\<lambda>(reserveA, reserveB).
     lift_m (addLiquidity_amounts reserveA reserveB amountADesired amountBDesired amountAMin amountBMin)))"

definition ensure :: "nat \<Rightarrow> nat \<Rightarrow> bool res" where
  "ensure timestamp deadline =
     (if deadline < timestamp then Inl (dex_error ''DEXV2Router02::ensure: EXPIRED'') else Inr True)"


section \<open>Lemmas\<close>

lemma getAmountOut_iff:
  "getAmountOut i rI rO = Inr out \<longleftrightarrow>
     i \<noteq> 0 \<and> rI \<noteq> 0 \<and> rO \<noteq> 0 \<and> i * 997 * rO < 2 ^ 256 \<and> rI * 1000 + i * 997 < 2 ^ 256
     \<and> out = (i * 997 * rO) div (rI * 1000 + i * 997)"
proof -
  have "i * 997 * rO < 2 ^ 256 \<Longrightarrow> rO \<noteq> 0 \<Longrightarrow> i * 997 < 2 ^ 256"
    by (metis mult_le_mono2 mult_1_right One_nat_def Suc_leI neq0_conv le_less_trans)
  then show ?thesis by (auto simp: getAmountOut_def bind_r_eq_Inr)
qed

lemma getAmountIn_iff:
  "getAmountIn o' rI rO = Inr i \<Longrightarrow>
     o' \<noteq> 0 \<and> rI \<noteq> 0 \<and> o' < rO \<and> i = (rI * o' * 1000) div ((rO - o') * 997) + 1"
  by (auto simp: getAmountIn_def bind_r_eq_Inr split: if_splits)

lemma on_tok_simps [simp]:
  "on_tok0 f s = (fst (f (p_tok0 s)), s\<lparr>p_tok0 := snd (f (p_tok0 s))\<rparr>)"
  "on_tok1 f s = (fst (f (p_tok1 s)), s\<lparr>p_tok1 := snd (f (p_tok1 s))\<rparr>)"
  "on_lp f s = (fst (f (p_lp s)), s\<lparr>p_lp := snd (f (p_lp s))\<rparr>)"
  by (simp_all add: on_tok0_def on_tok1_def on_lp_def split: prod.split)

lemma pair_update_result:
  assumes "pair_update ts b0 b1 r0 r1 s = (Inr (), s')"
  shows "p_reserve0 s' = b0 \<and> p_reserve1 s' = b1 \<and> b0 < 2 ^ 112 \<and> b1 < 2 ^ 112
    \<and> p_tok0 s' = p_tok0 s \<and> p_tok1 s' = p_tok1 s \<and> p_lp s' = p_lp s"
  using assms by (auto simp: pair_update_def Let_def bind_m_eq_Inr split: if_splits)

lemma balanceOf_eq: "fst (balanceOf a t) = Inr (bal t a)" "bal (snd (balanceOf a t)) b = bal t b"
  using copy_facts[of a "e_balances t"]
  by (simp_all add: balanceOf_def bind_m_apply map_find_const_def Let_def bal_def map_default_def)

lemma pair_guarded_result:
  "pair_guarded m s = (Inr x, s') \<Longrightarrow>
     \<not> p_lock s \<and> (\<exists>t. m (s\<lparr>p_lock := True\<rparr>) = (Inr x, t) \<and> s' = t\<lparr>p_lock := False\<rparr>)"
  by (auto simp: pair_guarded_def guarded_def ReentrancyGuard_ctor_def split: if_splits prod.splits)

text \<open>The comparison at the end of \<^verbatim>\<open>swap\<close> bounds the product of the balances.\<close>

lemma adjusted_product:
  fixes b0 b1 i0 i1 :: nat
  assumes "r * 1000 * 1000 \<le> (b0 * 1000 - i0 * 3) * (b1 * 1000 - i1 * 3)"
  shows "r \<le> b0 * b1"
proof -
  have "(b0 * 1000 - i0 * 3) * (b1 * 1000 - i1 * 3) \<le> (b0 * 1000) * (b1 * 1000)"
    by (intro mult_le_mono) simp_all
  also have "\<dots> = b0 * b1 * 1000 * 1000" by simp
  finally show ?thesis using assms by simp
qed

lemma swap_finish_result:
  assumes "swap_finish ts this r0 r1 out0 out1 u = (Inr (), t)"
  shows "p_reserve0 t = bal (p_tok0 t) this \<and> p_reserve1 t = bal (p_tok1 t) this
    \<and> r0 * r1 \<le> p_reserve0 t * p_reserve1 t"
proof -
  let ?b0 = "bal (p_tok0 u) this" and ?b1 = "bal (p_tok1 u) this"
  let ?v = "u\<lparr>p_tok0 := snd (balanceOf this (p_tok0 u)), p_tok1 := snd (balanceOf this (p_tok1 u))\<rparr>"
  obtain i0 i1 where k: "r0 * r1 * 1000 * 1000 \<le> (?b0 * 1000 - i0 * 3) * (?b1 * 1000 - i1 * 3)"
    and up: "pair_update ts ?b0 ?b1 r0 r1 ?v = (Inr (), t)"
    using assms
    by (auto simp: swap_finish_def bind_m_eq_Inr bind_r_eq_Inr balanceOf_eq not_less)
  have "p_reserve0 t = ?b0" "p_reserve1 t = ?b1" "p_tok0 t = snd (balanceOf this (p_tok0 u))"
    "p_tok1 t = snd (balanceOf this (p_tok1 u))"
    using pair_update_result[OF up] by simp_all
  then show ?thesis using adjusted_product[OF k] by (simp add: balanceOf_eq)
qed

lemma swap_result:
  assumes "pair_swap ts this out0 out1 to s = (Inr (), s')"
  shows "\<not> p_lock s \<and> \<not> p_lock s' \<and> (out0 \<noteq> 0 \<or> out1 \<noteq> 0) \<and> to \<noteq> p_token0 s \<and> to \<noteq> p_token1 s
    \<and> p_reserve0 s' = bal (p_tok0 s') this \<and> p_reserve1 s' = bal (p_tok1 s') this
    \<and> p_reserve0 s * p_reserve1 s \<le> p_reserve0 s' * p_reserve1 s'"
proof -
  obtain t u where lock: "\<not> p_lock s" "s' = t\<lparr>p_lock := False\<rparr>"
    and g: "out0 \<noteq> 0 \<or> out1 \<noteq> 0" "to \<noteq> p_token0 s" "to \<noteq> p_token1 s"
    and fin: "swap_finish ts this (p_reserve0 s) (p_reserve1 s) out0 out1 u = (Inr (), t)"
    using pair_guarded_result[OF assms[unfolded pair_swap_def]]
    by (auto simp: bind_m_eq_Inr)
  show ?thesis using lock g swap_finish_result[OF fin] by auto
qed

section \<open>Properties\<close>

text \<open>
  \<^verbatim>\<open>getAmountOut\<close> returns exactly when the inputs are positive and the products fit 256
  bits; the result is less than the reserve, keeps the product of the reserves with the 0.3%
  fee taken, and is the largest amount that does.
\<close>
theorem dex_getAmountOut_correct:
  "((\<exists>out. getAmountOut i rI rO = Inr out) \<longleftrightarrow>
      i \<noteq> 0 \<and> rI \<noteq> 0 \<and> rO \<noteq> 0 \<and> i * 997 * rO < 2 ^ 256 \<and> rI * 1000 + i * 997 < 2 ^ 256)
   \<and> (getAmountOut i rI rO = Inr out \<longrightarrow>
      out < rO \<and> rI * 1000 * rO \<le> (rI * 1000 + i * 997) * (rO - out)
      \<and> (rI * 1000 + i * 997) * (rO - (out + 1)) < rI * 1000 * rO)"
proof (intro conjI impI)
  show "(\<exists>out. getAmountOut i rI rO = Inr out) \<longleftrightarrow>
      i \<noteq> 0 \<and> rI \<noteq> 0 \<and> rO \<noteq> 0 \<and> i * 997 * rO < 2 ^ 256 \<and> rI * 1000 + i * 997 < 2 ^ 256"
    unfolding getAmountOut_iff by blast
  assume "getAmountOut i rI rO = Inr out"
  then have nz: "i \<noteq> 0" "rI \<noteq> 0" "rO \<noteq> 0" and out: "out = (i * 997 * rO) div (rI * 1000 + i * 997)"
    unfolding getAmountOut_iff by blast+
  let ?a = "rI * 1000" and ?b = "i * 997"
  have den: "0 < ?a + ?b" using nz by simp
  have lo: "out * (?a + ?b) \<le> ?b * rO" unfolding out by (rule div_times_less_eq_dividend)
  have hi: "?b * rO < (out + 1) * (?a + ?b)"
    unfolding out using dividend_less_div_times[OF den, of "?b * rO"] by (simp add: algebra_simps)
  have "?b * rO < (?a + ?b) * rO" using nz by simp
  with lo have "out * (?a + ?b) < (?a + ?b) * rO" by (rule le_less_trans)
  then show less: "out < rO" using den by (metis mult.commute mult_less_cancel2)
  show "?a * rO \<le> (?a + ?b) * (rO - out)"
    using lo less by (simp add: diff_mult_distrib2 algebra_simps)
  show "(?a + ?b) * (rO - (out + 1)) < ?a * rO"
  proof -
    have "(?a + ?b) * (rO - (out + 1)) = (?a + ?b) * rO - (?a + ?b) * (out + 1)"
      by (rule diff_mult_distrib2)
    moreover have "(?a + ?b) * rO < ?a * rO + (?a + ?b) * (out + 1)" using hi by (simp add: algebra_simps)
    moreover have "0 < ?a * rO" using nz by simp
    ultimately show ?thesis by linarith
  qed
qed

theorem dex_getAmountOut_correct_witness:
  "\<exists>out. getAmountOut 1000 100000 50000 = Inr out \<and> out < 50000"
proof -
  have "\<exists>out. getAmountOut 1000 100000 50000 = Inr out"
    using dex_getAmountOut_correct[of 1000 100000 50000] by simp
  then show ?thesis using dex_getAmountOut_correct[of 1000 100000 50000] by blast
qed

text \<open>
  Claim C34. \<^verbatim>\<open>getAmountIn\<close> is enough: it returns only for an output below the reserve, and
  paying the amount it names yields at least the wanted output.
\<close>
theorem dex_getAmountIn_sufficient:
  assumes "getAmountIn want rI rO = Inr i" "getAmountOut i rI rO = Inr out"
  shows "want < rO \<and> 0 < i \<and> want \<le> out"
proof -
  have w: "want < rO" "rI \<noteq> 0" and i: "i = (rI * want * 1000) div ((rO - want) * 997) + 1"
    using getAmountIn_iff[OF assms(1)] by auto
  let ?d = "(rO - want) * 997"
  have "0 < ?d" using w by simp
  then have "rI * want * 1000 < i * ?d"
    unfolding i using dividend_less_div_times[of ?d "rI * want * 1000"] by (simp add: algebra_simps)
  moreover have "i * ?d + i * 997 * want = i * 997 * rO"
    using w(1) by (simp add: diff_mult_distrib algebra_simps)
  ultimately have "want * (rI * 1000 + i * 997) \<le> i * 997 * rO" by (simp add: algebra_simps)
  then have "want \<le> (i * 997 * rO) div (rI * 1000 + i * 997)"
    using w(2) by (simp add: less_eq_div_iff_mult_less_eq)
  moreover have "out = (i * 997 * rO) div (rI * 1000 + i * 997)" using assms(2) by (simp only: getAmountOut_iff)
  ultimately show ?thesis using w i by simp
qed

theorem dex_getAmountIn_sufficient_witness:
  "getAmountIn 493 100000 50000 = Inr 999 \<and> getAmountOut 999 100000 50000 = Inr 493"
proof -
  have a: "getAmountIn 493 100000 50000 = Inr 999"
    by (simp add: getAmountIn_def u_mul_def u_sub_def u_div_def u_add_def)
  have b: "getAmountOut 999 100000 50000 = Inr 493"
    by (simp add: getAmountOut_def u_mul_def u_div_def u_add_def)
  show ?thesis using dex_getAmountIn_sufficient[OF a b] a b by simp
qed

text \<open>
  Claim C35. A swap that returns never lowers the product of the reserves: it ran with the
  lock free and leaves it free, it sent something out and not to one of the token contracts,
  the new reserves are the pair's token balances, and their product is at least the old one.
\<close>
theorem dex_swap_keeps_product:
  assumes "pair_swap ts this out0 out1 to s = (Inr (), s')"
  shows "\<not> p_lock s \<and> \<not> p_lock s' \<and> (out0 \<noteq> 0 \<or> out1 \<noteq> 0) \<and> to \<noteq> p_token0 s \<and> to \<noteq> p_token1 s
    \<and> p_reserve0 s' = bal (p_tok0 s') this \<and> p_reserve1 s' = bal (p_tok1 s') this
    \<and> p_reserve0 s * p_reserve1 s \<le> p_reserve0 s' * p_reserve1 s'"
  by (rule swap_result[OF assms])


definition one_holder :: "address \<Rightarrow> nat \<Rightarrow> erc20" where
  "one_holder a v = fresh_token\<lparr>e_totalSupply := SafeUint_make True v, e_balances := SafeMap_make True [a \<mapsto> v]\<rparr>"

lemma one_holder_ok: "v < 2 ^ 256 \<Longrightarrow> supply_ok (one_holder a v)" "bal (one_holder a v) b = (if b = a then v else 0)"
proof -
  have l: "bals (one_holder a v) = [a \<mapsto> v]"
    by (rule ext) (simp add: one_holder_def SafeMap_make_def lookup_def ptr_map_def erased_def)
  then show "bal (one_holder a v) b = (if b = a then v else 0)" by (simp add: bal_def map_default_def)
  have "cur (e_totalSupply (one_holder a v)) = v"
    by (simp add: one_holder_def SafeUint_make_def new_var_def cur_def)
  with l show "v < 2 ^ 256 \<Longrightarrow> supply_ok (one_holder a v)" by (simp add: supply_ok_def map_total_def)
qed

definition sample_pair :: pair where
  "sample_pair = \<lparr>p_lp = fresh_token, p_tok0 = one_holder [9] 110, p_tok1 = one_holder [9] 100,
     p_factory = [8], p_token0 = [1], p_token1 = [2], p_reserve0 = 100, p_reserve1 = 100,
     p_blockTimestampLast = 0, p_price0 = 0, p_price1 = 0, p_kLast = 0, p_lock = False\<rparr>"

theorem dex_swap_keeps_product_witness:
  "\<exists>s'. pair_swap 0 [9] 0 9 [5] sample_pair = (Inr (), s') \<and> 100 * 100 \<le> p_reserve0 s' * p_reserve1 s'"
proof -
  obtain t1 where t1: "transfer [9] [5] 9 (one_holder [9] 100) = (Inr (), t1)" "bal t1 [9] = 91"
    using move_ok[OF one_holder_ok(1), of 100 9 "[9]" "[9]" "[5]"] one_holder_ok(2)[of "[9]" 100]
    by (auto simp: transfer_def)
  have "\<exists>s'. pair_swap 0 [9] 0 9 [5] sample_pair = (Inr (), s')"
    by (simp add: pair_swap_def sample_pair_def pair_guarded_def guarded_def ReentrancyGuard_ctor_def
        bind_m_apply safeTransfer1_def t1 swap_finish_def balanceOf_eq one_holder_ok(2) amount_in_def
        u_cast_def u_sub_def u_mul_def u_add_def pair_update_def Let_def split: prod.split)
  then obtain s' where "pair_swap 0 [9] 0 9 [5] sample_pair = (Inr (), s')" by blast
  then show ?thesis using dex_swap_keeps_product by (fastforce simp: sample_pair_def)
qed

text \<open>
  The reserves of the library do not follow the order of the tokens asked for: for a
  pair the factory has created they are the same pair of numbers in both directions, so a
  quote for selling the second token is computed as if the first were sold.
\<close>
theorem dex_reserves_ignore_order:
  assumes "createPair fresh a b f = (Inr p, f')" "length fresh = 20"
  shows "p = fresh \<and> getPair a b f' = p \<and> getPair b a f' = p
    \<and> f_allPairs f' = f_allPairs f @ [p]
    \<and> getReserves pr f' a b = getReserves pr f' b a
    \<and> getAmountsOut pr f' x [a, b] = getAmountsOut pr f' x [b, a]"
proof -
  have ne: "a \<noteq> b" and p: "p = fresh"
    and f': "f' = (put_pair (max a b) (min a b) fresh (put_pair (min a b) (max a b) fresh
      (f\<lparr>f_tokens := (f_tokens f)(fresh \<mapsto> (min a b, max a b))\<rparr>)))\<lparr>f_allPairs := f_allPairs f @ [fresh]\<rparr>"
    using assms(1) by (auto simp: createPair_def Let_def min_def max_def split: if_splits)
  have "getPair a b f' = fresh \<and> getPair b a f' = fresh"
    using ne by (cases "a \<le> b") (simp_all add: f' getPair_def put_pair_def Let_def min_def max_def)
  moreover from this have "getReserves pr f' a b = getReserves pr f' b a"
    by (simp add: getReserves_def pairFor_def)
  moreover from this have "getAmountsOut pr f' x [a, b] = getAmountsOut pr f' x [b, a]"
    by (simp add: getAmountsOut_def)
  moreover have "f_allPairs f' = f_allPairs f @ [fresh]" by (simp add: f')
  ultimately show ?thesis using p by simp
qed

theorem dex_reserves_ignore_order_witness:
  "\<exists>f'. createPair (replicate 20 7) [1] [2]
      \<lparr>f_getPair = Map.empty, f_allPairs = [], f_tokens = Map.empty, f_feeTo = [], f_feeToSetter = []\<rparr>
      = (Inr (replicate 20 7), f')
    \<and> getAmountsOut (\<lambda>_. Inr (100, 900)) f' 10 [[1], [2]] = getAmountsOut (\<lambda>_. Inr (100, 900)) f' 10 [[2], [1]]"
proof -
  obtain f' where c: "createPair (replicate 20 7) [1] [2]
      \<lparr>f_getPair = Map.empty, f_allPairs = [], f_tokens = Map.empty, f_feeTo = [], f_feeToSetter = []\<rparr>
      = (Inr (replicate 20 7), f')"
    by (simp add: createPair_def Let_def zero_address_def getPair_def numeral_eq_Suc)
  then show ?thesis
    using dex_reserves_ignore_order[OF c, of "\<lambda>_. Inr (100, 900)" 10] by auto
qed

end
