(* ===== verification/Ecdsa.thy ===== *)
theory Ecdsa
  imports Byte_Codec
begin

text \<open>
  The wrappers of \<^verbatim>\<open>src/src/utils/ecdsa.cpp\<close> around the secp256k1 library. The library
  itself, the Keccak hash and the number library's \<^verbatim>\<open>export_bits\<close> and \<^verbatim>\<open>import_bits\<close> are
  not part of the sources: they are the fields of the record \<open>crypto\<close>, an argument of every
  definition that reaches them.
\<close>

text \<open>
  \<open>ec_recover\<close> is \<^verbatim>\<open>parse_compact\<close> with the recovery id in byte 64, then
  \<^verbatim>\<open>secp256k1_ecdsa_recover\<close>, then \<^verbatim>\<open>ec_pubkey_serialize\<close>; \<open>ec_create\<close> is
  \<^verbatim>\<open>secp256k1_ec_pubkey_create\<close> and the serialization; \<open>ec_sign\<close> is
  \<^verbatim>\<open>secp256k1_ecdsa_sign_recoverable\<close> and \<^verbatim>\<open>serialize_compact\<close>, with the recovery id. \<open>None\<close>
  is the library's failure result.
\<close>

record crypto =
  ec_recover :: "bytes \<Rightarrow> bytes \<Rightarrow> bytes option"
  ec_create :: "bytes \<Rightarrow> bytes option"
  ec_sign :: "bytes \<Rightarrow> bytes \<Rightarrow> (bytes \<times> nat) option"
  keccak :: "bytes \<Rightarrow> bytes"
  export_bits :: "nat \<Rightarrow> bytes"
  import_bits :: "bytes \<Rightarrow> nat"

section \<open>Definitions\<close>

definition ecConst :: nat where
  "ecConst = 115792089237316195423570985008687907852837564279074904382605163141518161494337"

text \<open>\<^verbatim>\<open>UPubKey()\<close>, the empty key that stands for a failure.\<close>

definition empty_upub :: bytes where
  "empty_upub = replicate 65 0"

definition secp_recover :: "crypto \<Rightarrow> bytes \<Rightarrow> bytes \<Rightarrow> bytes" where
  "secp_recover c sig msg =
     (let v = unat (sig ! 64) in
      if v > 3 then empty_upub
      else case ec_recover c sig msg of None \<Rightarrow> empty_upub | Some key \<Rightarrow> key)"

text \<open>
  \<^verbatim>\<open>makeSig\<close>: two copies into a 65-byte array, then the recovery id. The array is not
  initialised, so its contents are the argument \<open>mem\<close>; every byte of it is overwritten.
\<close>

definition makeSig_in :: "crypto \<Rightarrow> bytes \<Rightarrow> nat \<Rightarrow> nat \<Rightarrow> nat \<Rightarrow> bytes" where
  "makeSig_in c mem r s v =
     (let tmpR = uint256ToBytes (export_bits c) r;
          sig = copy_tail 32 0 tmpR mem;
          tmpS = uint256ToBytes (export_bits c) s;
          sig = copy_tail 64 0 tmpS sig
      in sig[64 := word_of_nat v])"

definition makeSig :: "crypto \<Rightarrow> nat \<Rightarrow> nat \<Rightarrow> nat \<Rightarrow> bytes" where
  "makeSig c r s v = makeSig_in c (replicate 65 0) r s v"

definition verifySig :: "nat \<Rightarrow> nat \<Rightarrow> nat \<Rightarrow> bool" where
  "verifySig r s v \<longleftrightarrow> v \<le> 1 \<and> r > 0 \<and> s > 0 \<and> r < ecConst \<and> s < ecConst"

definition toUPub :: "crypto \<Rightarrow> bytes \<Rightarrow> bytes" where
  "toUPub c key = (case ec_create c key of None \<Rightarrow> empty_upub | Some k \<Rightarrow> k)"

definition toAddress :: "crypto \<Rightarrow> bytes \<Rightarrow> address" where
  "toAddress c key = drop 12 (keccak c (take 64 (drop 1 key)))"

text \<open>
  \<^verbatim>\<open>sign\<close>: a signature with \<open>s\<close> in the upper half of the group order is replaced by its
  mirror image, with the other recovery id.
\<close>

definition secp_sign :: "crypto \<Rightarrow> bytes \<Rightarrow> bytes \<Rightarrow> bytes res" where
  "secp_sign c msg key =
     (case ec_sign c msg key of
        None \<Rightarrow> Inr (replicate 65 0)
      | Some (sig, v) \<Rightarrow>
          bind_r (bytesToUint256 (import_bits c) (take 32 sig)) (\<lambda>r.
          bind_r (bytesToUint256 (import_bits c) (take 32 (drop 32 sig))) (\<lambda>s.
          let rawV = v mod 256 in
          if s > ecConst div 2
          then bind_r (u_sub ecConst s) (\<lambda>s'. Inr (makeSig c r s' (unat ((word_of_nat rawV :: byte) XOR 1))))
          else Inr (makeSig c r s rawV))))"

section \<open>Lemmas\<close>

lemma ecConst_less: "ecConst < 2 ^ 256"
  by (simp add: ecConst_def)

text \<open>The hypothesis on the number library the signature layout needs.\<close>

definition bits_ok :: "crypto \<Rightarrow> bool" where
  "bits_ok c \<longleftrightarrow> boost_bits (export_bits c) (import_bits c)"

lemma makeSig_in_layout:
  assumes "bits_ok c" "length mem = 65" "r < 2 ^ 256" "s < 2 ^ 256"
  shows "makeSig_in c mem r s v =
    uint256ToBytes (export_bits c) r @ uint256ToBytes (export_bits c) s @ [word_of_nat v]"
proof -
  note len = boost_bits.uint256_length[OF assms(1)[unfolded bits_ok_def]]
  let ?R = "uint256ToBytes (export_bits c) r" and ?S = "uint256ToBytes (export_bits c) s"
  have R: "copy_tail 32 0 ?R mem = ?R @ drop 32 mem"
    using assms(2) len[OF assms(3)] copy_tail_eq[of 32 mem "?R" 0] by simp
  have "copy_tail 64 0 ?S (?R @ drop 32 mem) = ?R @ ?S @ drop 64 mem"
    using assms(2) len[OF assms(3)] len[OF assms(4)] copy_tail_eq[of 64 "?R @ drop 32 mem" "?S" 0] by simp
  moreover have "drop 64 mem = [mem ! 64]"
    using assms(2) Cons_nth_drop_Suc[of 64 mem] by simp
  ultimately show ?thesis
    using R len[OF assms(3)] len[OF assms(4)] by (simp add: makeSig_in_def Let_def list_update_append)
qed

lemma makeSig_layout:
  assumes "bits_ok c" "r < 2 ^ 256" "s < 2 ^ 256"
  shows "makeSig c r s v =
    uint256ToBytes (export_bits c) r @ uint256ToBytes (export_bits c) s @ [word_of_nat v]"
  using makeSig_in_layout[OF assms(1) _ assms(2,3)] by (simp add: makeSig_def)

lemma makeSig_parts:
  assumes "bits_ok c" "r < 2 ^ 256" "s < 2 ^ 256" "v < 256"
  shows "bytesToUint256 (import_bits c) (take 32 (makeSig c r s v)) = Inr r"
    and "bytesToUint256 (import_bits c) (take 32 (drop 32 (makeSig c r s v))) = Inr s"
    and "unat (makeSig c r s v ! 64) = v"
    and "length (makeSig c r s v) = 65"
  using assms boost_bits.uint256_length[OF assms(1)[unfolded bits_ok_def]]
    boost_bits.uint256_roundtrip[OF assms(1)[unfolded bits_ok_def]]
  by (simp_all add: makeSig_layout nth_append unat_of_nat)

lemma secp_sign_shape:
  assumes "bits_ok c" "secp_sign c msg key = Inr sig"
  shows "\<exists>r s v. r < 2 ^ 256 \<and> s < 2 ^ 256 \<and> v < 256 \<and> sig = makeSig c r s v"
proof (cases "ec_sign c msg key")
  case None
  have "uint256ToBytes (export_bits c) 0 = replicate 32 0"
    using boost_bits.uint256_roundtrip'[OF assms(1)[unfolded bits_ok_def], of "replicate 32 0"] by simp
  then have "makeSig c 0 0 0 = replicate 32 0 @ replicate 32 0 @ replicate 1 0"
    using assms(1) by (simp add: makeSig_layout)
  moreover have "replicate 32 0 @ replicate 32 0 @ replicate 1 (0 :: byte) = replicate 65 0"
    by (simp only: replicate_add [symmetric]) simp
  ultimately have "sig = makeSig c 0 0 0" using None assms(2) by (simp add: secp_sign_def)
  then show ?thesis by (intro exI[of _ 0]) simp
next
  case (Some p)
  then obtain sg v where p: "ec_sign c msg key = Some (sg, v)" by (cases p) simp
  let ?w = "unat ((word_of_nat (v mod 256) :: byte) XOR 1)"
  from assms(2) obtain r s where rs: "bytesToUint256 (import_bits c) (take 32 sg) = Inr r"
      "bytesToUint256 (import_bits c) (take 32 (drop 32 sg)) = Inr s"
    and sig: "sig = makeSig c r (ecConst - s) ?w \<or> sig = makeSig c r s (v mod 256)"
    by (auto simp: secp_sign_def p bind_r_eq_Inr Let_def split: if_splits)
  have im: "import_bits c = be_val" using boost_bits.import_val[OF assms(1)[unfolded bits_ok_def]] by auto
  have "r < 2 ^ 256" "s < 2 ^ 256"
    using rs be_val_less[of "take 32 sg"] be_val_less[of "take 32 (drop 32 sg)"]
    by (auto simp: im bytesToUint256_def bytesToWide_def split: if_splits)
  then have "r < 2 ^ 256" "s < 2 ^ 256" "ecConst - s < 2 ^ 256" "v mod 256 < 256"
    using ecConst_less by simp_all
  then show ?thesis using sig unat_byte_less[of "word_of_nat (v mod 256) XOR 1"] by blast
qed

lemma makeSig_inj:
  assumes "bits_ok c" "r < 2 ^ 256" "s < 2 ^ 256" "v < 256"
    and "r' < 2 ^ 256" "s' < 2 ^ 256" "v' < 256" "makeSig c r s v = makeSig c r' s' v'"
  shows "r = r' \<and> s = s' \<and> v = v'"
  using makeSig_parts[OF assms(1-4)] makeSig_parts[OF assms(1,5,6,7)] assms(8) by simp

end
