(* ===== verification/Tx_Rlp.thy ===== *)
theory Tx_Rlp
  imports Ecdsa
begin

text \<open>
  Transactions (\<^verbatim>\<open>src/src/utils/tx.h\<close>, \<^verbatim>\<open>tx.cpp\<close>): the constructors that parse a raw
  transaction, the ones that sign a new one, and the RLP serializers. A parser works on the
  rest of the input: the C++ code keeps an index into one view, and \<open>drop index\<close> of that
  view is the argument here. A read past the end is undefined behaviour in the code.
\<close>

section \<open>Definitions: data\<close>

record txblock =
  tb_to :: address
  tb_from :: address
  tb_data :: bytes
  tb_chainId :: nat
  tb_nonce :: nat
  tb_value :: nat
  tb_maxPriorityFeePerGas :: nat
  tb_maxFeePerGas :: nat
  tb_gasLimit :: nat
  tb_v :: nat
  tb_r :: nat
  tb_s :: nat
  tb_hash :: bytes

record txvalidator =
  tv_from :: address
  tv_data :: bytes
  tv_chainId :: nat
  tv_nHeight :: nat
  tv_v :: nat
  tv_r :: nat
  tv_s :: nat
  tv_hash :: bytes

section \<open>Definitions: the parsers\<close>

definition be_u64 :: "bytes \<Rightarrow> nat res" where
  "be_u64 bs = Inr (fromBigEndian_native 64 bs)"

definition be_u256 :: "bytes \<Rightarrow> nat res" where
  "be_u256 bs = fromBigEndian_ck 256 bs"

text \<open>
  The block every integer field repeats: a byte from 0x80 up gives the length of the payload
  that follows, a length above 0x37 is rejected where the field has that check, 0x80 itself
  is zero and a smaller byte is the value.
\<close>

definition rlp_uint :: "(bytes \<Rightarrow> nat res) \<Rightarrow> string option \<Rightarrow> bytes \<Rightarrow> (nat \<times> bytes) res" where
  "rlp_uint conv too_large bs =
     bind_r (byte_at bs 0) (\<lambda>b.
     let len = (if 128 \<le> unat b then unat b - 128 else 0) in
     if len \<noteq> 0 then
       bind_r (case too_large of None \<Rightarrow> Inr () | Some msg \<Rightarrow> throw_if (len > 55) (DynamicException msg)) (\<lambda>_.
       bind_r (subspan bs 1 len) (\<lambda>payload.
       bind_r (conv payload) (\<lambda>n. Inr (n, drop (1 + len) bs))))
     else
       bind_r (if unat b = 128 then Inr 0 else bind_r (subspan bs 0 1) conv) (\<lambda>n. Inr (n, drop 1 bs)))"

definition parse_chainId :: "bytes \<Rightarrow> (nat \<times> bytes) res" where
  "parse_chainId = rlp_uint be_u64 (Some ''ChainId is too large'')"

definition parse_nonce :: "bytes \<Rightarrow> (nat \<times> bytes) res" where
  "parse_nonce = rlp_uint be_u64 (Some ''Nonce is too large'')"

definition parse_maxPriorityFeePerGas :: "bytes \<Rightarrow> (nat \<times> bytes) res" where
  "parse_maxPriorityFeePerGas = rlp_uint be_u256 (Some ''MaxPriorityFeePerGas is too large'')"

definition parse_maxFeePerGas :: "bytes \<Rightarrow> (nat \<times> bytes) res" where
  "parse_maxFeePerGas = rlp_uint be_u256 (Some ''MaxFeePerGas is too large'')"

definition parse_gasLimit :: "bytes \<Rightarrow> (nat \<times> bytes) res" where
  "parse_gasLimit = rlp_uint be_u64 (Some ''GasLimit is too large'')"

definition parse_value :: "bytes \<Rightarrow> (nat \<times> bytes) res" where
  "parse_value = rlp_uint be_u256 (Some ''Value is not a small string'')"

definition parse_nHeight :: "bytes \<Rightarrow> (nat \<times> bytes) res" where
  "parse_nHeight = rlp_uint be_u64 None"

definition parse_validator_v :: "bytes \<Rightarrow> (nat \<times> bytes) res" where
  "parse_validator_v = rlp_uint be_u256 (Some ''V is not a small string'')"

text \<open>The header of the list; the argument starts at the list's first byte.\<close>

definition parse_list :: "bytes \<Rightarrow> bytes res" where
  "parse_list bs =
     bind_r (byte_at bs 0) (\<lambda>b.
     bind_r (throw_if (unat b < 247) (DynamicException ''Tx is not a list'')) (\<lambda>_.
     let listLengthSize = unat (b - 247) in
     bind_r (subspan bs 1 listLengthSize) (\<lambda>lenBytes.
     let listLength = fromBigEndian_native 64 lenBytes; rest = drop (1 + listLengthSize) bs in
     if listLength < length rest
     then Inl (DynamicException ''Tx RLP returns smaller size than reported'')
     else if listLength > length rest
     then Inl (DynamicException ''Tx RLP returns larger size than reported'')
     else Inr rest)))"

definition parse_to :: "bytes \<Rightarrow> (address \<times> bytes) res" where
  "parse_to bs =
     bind_r (byte_at bs 0) (\<lambda>b.
     let toLength = unat (b - 128) in
     bind_r (throw_if (toLength \<noteq> 20 \<and> toLength \<noteq> 0)
       (DynamicException ''Receiver address (to) is not a 20 byte string (address)'')) (\<lambda>_.
     if toLength = 0 then Inr (zero_address, drop 1 bs)
     else bind_r (subspan bs 1 20) (\<lambda>a. Inr (a, drop 21 bs))))"

text \<open>
  The data field. The two constructors differ in the last branch only: \<^verbatim>\<open>TxBlock\<close> rejects a
  first byte from 0xc0 up, \<^verbatim>\<open>TxValidator\<close> takes every byte from 0xb7 up as a long string.
\<close>

definition data_long :: "bytes \<Rightarrow> byte \<Rightarrow> (bytes \<times> bytes) res" where
  "data_long bs b =
     (let dataLengthSize = unat (b - 183) in
      bind_r (subspan bs 1 dataLengthSize) (\<lambda>lenBytes.
      let dataLength = fromBigEndian_native 64 lenBytes in
      bind_r (subspan bs (1 + dataLengthSize) dataLength) (\<lambda>d.
      Inr (d, drop (1 + dataLengthSize + dataLength) bs))))"

definition data_short :: "bytes \<Rightarrow> byte \<Rightarrow> (bytes \<times> bytes) res" where
  "data_short bs b =
     (let dataLength = unat (b - 128) in
      if dataLength > 0
      then bind_r (subspan bs 1 dataLength) (\<lambda>d. Inr (d, drop (1 + dataLength) bs))
      else Inr ([], drop 1 bs))"

definition TxBlock_parse_data :: "bytes \<Rightarrow> (bytes \<times> bytes) res" where
  "TxBlock_parse_data bs =
     bind_r (byte_at bs 0) (\<lambda>b.
     if unat b < 128 then bind_r (subspan bs 0 1) (\<lambda>d. Inr (d, drop 1 bs))
     else if unat b < 183 then data_short bs b
     else if unat b < 192 then data_long bs b
     else Inl (DynamicException ''Data is too large''))"

definition TxValidator_parse_data :: "bytes \<Rightarrow> (bytes \<times> bytes) res" where
  "TxValidator_parse_data bs =
     bind_r (byte_at bs 0) (\<lambda>b.
     if unat b < 128 then bind_r (subspan bs 0 1) (\<lambda>d. Inr (d, drop 1 bs))
     else if unat b < 183 then data_short bs b
     else data_long bs b)"

definition parse_access_list :: "bytes \<Rightarrow> bytes res" where
  "parse_access_list bs =
     bind_r (byte_at bs 0) (\<lambda>b.
     bind_r (throw_if (b \<noteq> 192) (DynamicException ''Access list is not empty'')) (\<lambda>_.
     Inr (drop 1 bs)))"

definition TxBlock_parse_v :: "bytes \<Rightarrow> (nat \<times> bytes) res" where
  "TxBlock_parse_v bs =
     bind_r (byte_at bs 0) (\<lambda>b.
     if b = 128 then Inr (0, drop 1 bs)
     else bind_r (throw_if (unat b > 1) (DynamicException ''V is not 0 or 1'')) (\<lambda>_.
       Inr (unat b, drop 1 bs)))"

text \<open>The two halves of the signature; the bound is 0x20 in \<^verbatim>\<open>TxBlock\<close> and 0x37 in \<^verbatim>\<open>TxValidator\<close>.\<close>

definition parse_half :: "nat \<Rightarrow> string \<Rightarrow> bytes \<Rightarrow> (nat \<times> bytes) res" where
  "parse_half limit msg bs =
     bind_r (byte_at bs 0) (\<lambda>b.
     let len = unat (b - 128) in
     bind_r (throw_if (len > limit) (DynamicException msg)) (\<lambda>_.
     bind_r (subspan bs 1 len) (\<lambda>payload.
     bind_r (be_u256 payload) (\<lambda>n. Inr (n, drop (1 + len) bs)))))"

section \<open>Definitions: the serializers\<close>

text \<open>The bytes of an integer field, and what it adds to \<^verbatim>\<open>total_size\<close>.\<close>

definition ser_uint :: "nat \<Rightarrow> bytes" where
  "ser_uint n =
     (if n = 0 then [128]
      else if n < 128 then [word_of_nat n]
      else word_of_nat (bytesRequired n + 128) # uintToBytes n)"

definition size_uint :: "nat \<Rightarrow> nat" where
  "size_uint n = (if n < 128 then 1 else 1 + bytesRequired n)"

definition ser_to :: "address \<Rightarrow> bytes" where
  "ser_to a = (if a = zero_address then [128] else 148 # a)"

definition size_to :: "address \<Rightarrow> nat" where
  "size_to a = (if a = zero_address then 1 else 1 + 20)"

definition ser_data :: "bytes \<Rightarrow> bytes" where
  "ser_data d =
     (if length d = 0 then [128]
      else if length d \<le> 55 then word_of_nat (length d + 128) # d
      else word_of_nat (bytesRequired (length d) + 183) # uintToBytes (length d) @ d)"

definition size_data :: "bytes \<Rightarrow> nat" where
  "size_data d =
     (if length d = 0 then 1
      else if length d \<le> 55 then 1 + length d
      else 1 + bytesRequired (length d) + length d)"

definition ser_half :: "nat \<Rightarrow> bytes" where
  "ser_half n = word_of_nat (bytesRequired n + 128) # uintToBytes n"

text \<open>The head of the list, from the total size computed before.\<close>

definition ser_head :: "nat \<Rightarrow> bytes" where
  "ser_head total_size =
     (if total_size \<le> 55 then [word_of_nat (total_size + 192)]
      else word_of_nat (bytesRequired total_size + 247) # uintToBytes total_size)"

definition TxBlock_total_size :: "bool \<Rightarrow> txblock \<Rightarrow> nat" where
  "TxBlock_total_size includeSig tx =
     size_uint (tb_chainId tx) + size_uint (tb_nonce tx) + size_uint (tb_maxPriorityFeePerGas tx)
     + size_uint (tb_maxFeePerGas tx) + size_uint (tb_gasLimit tx) + size_to (tb_to tx)
     + size_uint (tb_value tx) + 1 + size_data (tb_data tx)
     + (if includeSig then 1 + (1 + bytesRequired (tb_r tx)) + (1 + bytesRequired (tb_s tx)) else 0)"

definition TxBlock_rlpSerialize :: "bool \<Rightarrow> txblock \<Rightarrow> bytes" where
  "TxBlock_rlpSerialize includeSig tx =
     [2] @ ser_head (TxBlock_total_size includeSig tx)
     @ ser_uint (tb_chainId tx)
     @ ser_uint (tb_nonce tx)
     @ ser_uint (tb_maxPriorityFeePerGas tx)
     @ ser_uint (tb_maxFeePerGas tx)
     @ ser_uint (tb_gasLimit tx)
     @ ser_to (tb_to tx)
     @ ser_uint (tb_value tx)
     @ ser_data (tb_data tx)
     @ [192]
     @ (if includeSig then [if tb_v tx = 0 then 128 else word_of_nat (tb_v tx)] else [])
     @ (if includeSig then ser_half (tb_r tx) else [])
     @ (if includeSig then ser_half (tb_s tx) else [])"

text \<open>In a validator transaction \<open>v\<close> and the chain id below 0x80 are a byte each, zero included.\<close>

definition ser_v :: "nat \<Rightarrow> bytes" where
  "ser_v n = (if n < 128 then [word_of_nat n] else word_of_nat (bytesRequired n + 128) # uintToBytes n)"

definition TxValidator_total_size :: "bool \<Rightarrow> txvalidator \<Rightarrow> nat" where
  "TxValidator_total_size includeSig tx =
     size_data (tv_data tx) + size_uint (tv_nHeight tx)
     + (if includeSig then size_uint (tv_v tx) else size_uint (tv_chainId tx))
     + (if \<not> includeSig then 1 else 1 + bytesRequired (tv_r tx))
     + (if \<not> includeSig then 1 else 1 + bytesRequired (tv_s tx))"

definition TxValidator_rlpSerialize :: "bool \<Rightarrow> txvalidator \<Rightarrow> bytes" where
  "TxValidator_rlpSerialize includeSig tx =
     ser_head (TxValidator_total_size includeSig tx)
     @ ser_data (tv_data tx)
     @ ser_uint (tv_nHeight tx)
     @ (if includeSig then ser_v (tv_v tx) else ser_v (tv_chainId tx))
     @ (if \<not> includeSig then [128] else ser_half (tv_r tx))
     @ (if \<not> includeSig then [128] else ser_half (tv_s tx))"

section \<open>Definitions: the constructors\<close>

text \<open>The end of the parsing constructor: check the signature, recover the sender, hash.\<close>

definition TxBlock_recover :: "crypto \<Rightarrow> txblock \<Rightarrow> txblock res" where
  "TxBlock_recover c tx =
     bind_r (throw_if (\<not> verifySig (tb_r tx) (tb_s tx) (tb_v tx))
       (DynamicException ''Invalid tx signature - doesn't fit elliptic curve verification'')) (\<lambda>_.
     let sig = makeSig c (tb_r tx) (tb_s tx) (tb_v tx);
         msgHash = keccak c (TxBlock_rlpSerialize False tx);
         key = secp_recover c sig msgHash in
     bind_r (throw_if (\<not> nonzero_bytes key)
       (DynamicException ''Invalid tx signature - cannot recover public key'')) (\<lambda>_.
     let tx = tx\<lparr>tb_from := toAddress c key\<rparr> in
     Inr (tx\<lparr>tb_hash := keccak c (TxBlock_rlpSerialize True tx)\<rparr>)))"

text \<open>The fields after the data: access list, \<open>v\<close>, \<open>r\<close> and \<open>s\<close>.\<close>

definition TxBlock_parse_sig :: "crypto \<Rightarrow> txblock \<Rightarrow> bytes \<Rightarrow> txblock res" where
  "TxBlock_parse_sig c tx bs =
     bind_r (parse_access_list bs) (\<lambda>bs.
     bind_r (TxBlock_parse_v bs) (\<lambda>(v, bs).
     bind_r (parse_half 32 ''R is bigger than 32 bytes'' bs) (\<lambda>(r, bs).
     bind_r (parse_half 32 ''S is bigger than 32 bytes'' bs) (\<lambda>(s, bs).
     TxBlock_recover c (tx\<lparr>tb_v := v, tb_r := r, tb_s := s\<rparr>)))))"

text \<open>
  The parsing constructor of \<^verbatim>\<open>TxBlock\<close>. A member not yet assigned is irrelevant: the sender
  and the hash are the only ones left open by the parse and the last step sets both.
\<close>

definition TxBlock_parse :: "crypto \<Rightarrow> bytes \<Rightarrow> txblock res" where
  "TxBlock_parse c bs =
     bind_r (byte_at bs 0) (\<lambda>b0.
     bind_r (throw_if (b0 \<noteq> 2) (DynamicException ''Tx is not type 2'')) (\<lambda>_.
     bind_r (parse_list (drop 1 bs)) (\<lambda>bs.
     bind_r (parse_chainId bs) (\<lambda>(chainId, bs).
     bind_r (parse_nonce bs) (\<lambda>(nonce, bs).
     bind_r (parse_maxPriorityFeePerGas bs) (\<lambda>(maxPriorityFeePerGas, bs).
     bind_r (parse_maxFeePerGas bs) (\<lambda>(maxFeePerGas, bs).
     bind_r (parse_gasLimit bs) (\<lambda>(gasLimit, bs).
     bind_r (parse_to bs) (\<lambda>(to, bs).
     bind_r (parse_value bs) (\<lambda>(val, bs).
     bind_r (TxBlock_parse_data bs) (\<lambda>(d, bs).
     TxBlock_parse_sig c
       \<lparr>tb_to = to, tb_from = zero_address, tb_data = d, tb_chainId = chainId, tb_nonce = nonce,
        tb_value = val, tb_maxPriorityFeePerGas = maxPriorityFeePerGas,
        tb_maxFeePerGas = maxFeePerGas, tb_gasLimit = gasLimit,
        tb_v = 0, tb_r = 0, tb_s = 0, tb_hash = []\<rparr> bs)))))))))))"

text \<open>
  The signing constructor; \<open>tx\<close> holds the members its initialiser list sets, and the
  signature of \<^verbatim>\<open>sign\<close> is split into its parts before it is checked.
\<close>

definition TxBlock_sign :: "crypto \<Rightarrow> txblock \<Rightarrow> bytes \<Rightarrow> txblock res" where
  "TxBlock_sign c tx privKey =
     (let pubKey = toUPub c privKey; add = toAddress c pubKey in
      bind_r (throw_if (add \<noteq> tb_from tx)
        (DynamicException ''Private key does not match sender address (from)'')) (\<lambda>_.
      let msgHash = keccak c (TxBlock_rlpSerialize False tx) in
      bind_r (secp_sign c msgHash privKey) (\<lambda>sig.
      bind_r (bytesToUint256 (import_bits c) (take 32 sig)) (\<lambda>r.
      bind_r (bytesToUint256 (import_bits c) (take 32 (drop 32 sig))) (\<lambda>s.
      let tx = tx\<lparr>tb_r := r, tb_s := s, tb_v := unat (sig ! 64)\<rparr> in
      bind_r (throw_if (pubKey \<noteq> secp_recover c sig msgHash)
        (DynamicException ''Invalid tx signature - derived key doesn't match public key'')) (\<lambda>_.
      bind_r (throw_if (\<not> verifySig (tb_r tx) (tb_s tx) (tb_v tx))
        (DynamicException ''Invalid tx signature - doesn't fit elliptic curve verification'')) (\<lambda>_.
      Inr (tx\<lparr>tb_hash := keccak c (TxBlock_rlpSerialize True tx)\<rparr>))))))))"

text \<open>\<^verbatim>\<open>txToCallInfo\<close>; \<^verbatim>\<open>Functor\<close> is four bytes, zero when the data is shorter.\<close>

record call_info =
  ci_from :: address
  ci_to :: address
  ci_gasLimit :: nat
  ci_gasPrice :: nat
  ci_value :: nat
  ci_functor :: bytes
  ci_data :: bytes
  ci_fullData :: bytes

definition txToCallInfo :: "txblock \<Rightarrow> call_info" where
  "txToCallInfo tx =
     \<lparr>ci_from = tb_from tx, ci_to = tb_to tx, ci_gasLimit = tb_gasLimit tx,
      ci_gasPrice = tb_maxFeePerGas tx, ci_value = tb_value tx,
      ci_functor = (if length (tb_data tx) \<ge> 4 then take 4 (tb_data tx) else replicate 4 0),
      ci_data = (if length (tb_data tx) > 4 then drop 4 (tb_data tx) else []),
      ci_fullData = tb_data tx\<rparr>"

text \<open>
  The end of the validator's parsing constructor. The chain id comes out of \<open>v\<close>; when \<open>v\<close> is
  27 or 28 the member is never assigned and keeps what its memory held (\<open>junk\<close>). The
  subtraction and the narrowing of the recovery id are of the checked type.
\<close>

definition TxValidator_chainId :: "nat \<Rightarrow> nat \<Rightarrow> nat res" where
  "TxValidator_chainId junk v =
     (if v > 36 then u_cast 64 ((v - 35) div 2)
      else if v \<noteq> 27 \<and> v \<noteq> 28
      then Inl (DynamicException ''Invalid tx signature - v is not 27 or 28'')
      else Inr junk)"

definition TxValidator_recover :: "crypto \<Rightarrow> nat \<Rightarrow> txvalidator \<Rightarrow> txvalidator res" where
  "TxValidator_recover c junk tx =
     bind_r (TxValidator_chainId junk (tv_v tx)) (\<lambda>chainId.
     let tx = tx\<lparr>tv_chainId := chainId\<rparr> in
     bind_r (u_sub (tv_v tx) (chainId * 2 + 35)) (\<lambda>d.
     bind_r (u_cast 8 d) (\<lambda>recoveryId.
     bind_r (throw_if (\<not> verifySig (tv_r tx) (tv_s tx) recoveryId)
       (DynamicException ''Invalid tx signature - doesn't fit elliptic curve verification'')) (\<lambda>_.
     let sig = makeSig c (tv_r tx) (tv_s tx) recoveryId;
         msgHash = keccak c (TxValidator_rlpSerialize False tx);
         key = secp_recover c sig msgHash in
     bind_r (throw_if (key = empty_upub)
       (DynamicException ''Invalid tx signature - cannot recover public key'')) (\<lambda>_.
     let tx = tx\<lparr>tv_from := toAddress c key\<rparr> in
     Inr (tx\<lparr>tv_hash := keccak c (TxValidator_rlpSerialize True tx)\<rparr>))))))"

definition TxValidator_parse :: "crypto \<Rightarrow> nat \<Rightarrow> bytes \<Rightarrow> txvalidator res" where
  "TxValidator_parse c junk bs =
     bind_r (parse_list bs) (\<lambda>bs.
     bind_r (TxValidator_parse_data bs) (\<lambda>(d, bs).
     bind_r (parse_nHeight bs) (\<lambda>(nHeight, bs).
     bind_r (parse_validator_v bs) (\<lambda>(v, bs).
     bind_r (parse_half 55 ''R is not a small string'' bs) (\<lambda>(r, bs).
     bind_r (parse_half 55 ''S is not a small string'' bs) (\<lambda>(s, bs).
     TxValidator_recover c junk
       \<lparr>tv_from = zero_address, tv_data = d, tv_chainId = junk, tv_nHeight = nHeight,
        tv_v = v, tv_r = r, tv_s = s, tv_hash = []\<rparr>))))))"

text \<open>The sum that gives \<open>v\<close> is of native 64-bit integers.\<close>

definition TxValidator_sign :: "crypto \<Rightarrow> txvalidator \<Rightarrow> bytes \<Rightarrow> txvalidator res" where
  "TxValidator_sign c tx privKey =
     (let pubKey = toUPub c privKey; add = toAddress c pubKey;
          msgHash = keccak c (TxValidator_rlpSerialize False tx) in
      bind_r (throw_if (add \<noteq> tv_from tx)
        (DynamicException ''Private key does not match sender address (from)'')) (\<lambda>_.
      bind_r (secp_sign c msgHash privKey) (\<lambda>sig.
      bind_r (bytesToUint256 (import_bits c) (take 32 sig)) (\<lambda>r.
      bind_r (bytesToUint256 (import_bits c) (take 32 (drop 32 sig))) (\<lambda>s.
      let recoveryIds = unat (sig ! 64);
          tx = tx\<lparr>tv_r := r, tv_s := s, tv_v := (recoveryIds + (tv_chainId tx * 2 + 35)) mod 2 ^ 64\<rparr> in
      bind_r (throw_if (\<not> verifySig (tv_r tx) (tv_s tx) recoveryIds)
        (DynamicException ''Invalid tx signature - doesn't fit elliptic curve verification'')) (\<lambda>_.
      bind_r (throw_if (pubKey \<noteq> secp_recover c sig msgHash)
        (DynamicException
          ''Invalid transaction signature, signature derived key doens't match public key'')) (\<lambda>_.
      Inr (tx\<lparr>tv_hash := keccak c (TxValidator_rlpSerialize True tx)\<rparr>))))))))"

section \<open>Lemmas: one field at a time\<close>

lemma byte_at_Cons [simp]: "byte_at (b # bs) 0 = Inr b"
  by (simp add: byte_at_def)

lemma subspan_payload [simp]: "length xs = n \<Longrightarrow> subspan (b # xs @ ys) (Suc 0) n = Inr xs"
  by (simp add: subspan_def)

lemma unat_small_byte: "n < 256 \<Longrightarrow> unat (word_of_nat n :: byte) = n"
  by (simp add: unat_of_nat)

lemma unat_byte_sub: "n < 256 \<Longrightarrow> m \<le> n \<Longrightarrow> unat ((word_of_nat n :: byte) - word_of_nat m) = n - m"
  by (simp add: unat_small_byte flip: of_nat_diff)

lemma bytesRequired_256: "n < 2 ^ 256 \<Longrightarrow> bytesRequired n \<le> 32"
  using bytesRequired_le[of n 32] by simp

lemma bytesRequired_64: "n < 2 ^ 64 \<Longrightarrow> bytesRequired n \<le> 8"
  using bytesRequired_le[of n 8] by simp

lemma uintToBytes_byte:
  assumes "0 < n" "n < 256"
  shows "uintToBytes n = [word_of_nat n]"
proof -
  have "bytesRequired n = 1" using assms by (simp add: bytesRequired_step)
  then show ?thesis
    using assms by (intro be_val_inj) (simp_all add: unat_small_byte)
qed

lemma rlp_uint_ser:
  assumes "n < 2 ^ 256"
  shows "rlp_uint conv lim (ser_uint n @ rest) =
    bind_r (if n = 0 then Inr 0 else conv (uintToBytes n)) (\<lambda>m. Inr (m, rest))"
proof -
  consider "n = 0" | "0 < n" "n < 128" | "128 \<le> n" by linarith
  then show ?thesis
  proof cases
    case 1
    then show ?thesis by (simp add: rlp_uint_def ser_uint_def)
  next
    case 2
    then show ?thesis
      by (simp add: rlp_uint_def ser_uint_def uintToBytes_byte unat_small_byte subspan_def)
  next
    case 3
    then have "unat (word_of_nat (bytesRequired n + 128) :: byte) = bytesRequired n + 128"
      using bytesRequired_256[OF assms] by (intro unat_small_byte) simp
    then show ?thesis
      using 3 bytesRequired_256[OF assms]
      by (simp add: rlp_uint_def ser_uint_def Let_def split: option.split)
  qed
qed

lemma rlp_u64_ser: "n < 2 ^ 256 \<Longrightarrow> rlp_uint be_u64 lim (ser_uint n @ rest) = Inr (n mod 2 ^ 64, rest)"
  by (simp add: rlp_uint_ser be_u64_def fromBigEndian_native_mod)

lemma rlp_u256_ser: "n < 2 ^ 256 \<Longrightarrow> rlp_uint be_u256 lim (ser_uint n @ rest) = Inr (n, rest)"
  by (simp add: rlp_uint_ser be_u256_def fromBigEndian_ck_small)

lemma ser_v_uint: "n \<noteq> 0 \<Longrightarrow> ser_v n = ser_uint n"
  by (simp add: ser_v_def ser_uint_def)

lemma parse_to_ser: "length a = 20 \<Longrightarrow> parse_to (ser_to a @ rest) = Inr (a, rest)"
  by (simp add: parse_to_def ser_to_def)

lemma parse_half_ser:
  assumes "n < 2 ^ 256" "32 \<le> limit"
  shows "parse_half limit msg (ser_half n @ rest) = Inr (n, rest)"
proof -
  have "unat ((word_of_nat (bytesRequired n + 128) :: byte) - word_of_nat 128) = bytesRequired n"
    using bytesRequired_256[OF assms(1)] by (subst unat_byte_sub) simp_all
  then show ?thesis
    using bytesRequired_256[OF assms(1)] assms
    by (simp add: parse_half_def ser_half_def be_u256_def fromBigEndian_ck_small)
qed

text \<open>
  The serializer writes a string of 55 bytes with the head 0xb7, which the parsers take for a
  long string whose length takes no byte: they read it as the empty string.
\<close>

lemma data_short_ser:
  assumes "length d \<le> 54"
  shows "data_short ((word_of_nat (length d + 128) :: byte) # d @ rest) (word_of_nat (length d + 128))
    = Inr (d, rest)"
proof -
  have "unat ((word_of_nat (length d + 128) :: byte) - word_of_nat 128) = length d"
    using assms by (subst unat_byte_sub) simp_all
  then show ?thesis by (cases "d = []") (simp_all add: data_short_def)
qed

lemma data_long_ser:
  assumes "length d < 2 ^ 64"
  shows "data_long ((word_of_nat (bytesRequired (length d) + 183) :: byte) # uintToBytes (length d) @ d @ rest)
      (word_of_nat (bytesRequired (length d) + 183)) = Inr (d, rest)"
proof -
  have "unat ((word_of_nat (bytesRequired (length d) + 183) :: byte) - word_of_nat 183)
      = bytesRequired (length d)"
    using bytesRequired_64[OF assms] by (subst unat_byte_sub) simp_all
  then show ?thesis
    using assms by (simp add: data_long_def fromBigEndian_native_mod subspan_def)
qed

lemma parse_data_ser:
  assumes "length d < 2 ^ 64"
  shows "TxBlock_parse_data (ser_data d @ rest) =
      Inr (if length d = 55 then ([], d @ rest) else (d, rest))" (is ?block)
    and "TxValidator_parse_data (ser_data d @ rest) =
      Inr (if length d = 55 then ([], d @ rest) else (d, rest))" (is ?validator)
proof -
  consider "length d = 0" | "0 < length d" "length d \<le> 54" | "length d = 55" | "55 < length d"
    by linarith
  then have "?block \<and> ?validator"
  proof cases
    case 1
    then show ?thesis
      by (simp add: TxBlock_parse_data_def TxValidator_parse_data_def ser_data_def data_short_def)
  next
    case 2
    moreover have "unat (word_of_nat (length d + 128) :: byte) = length d + 128"
      using 2 by (intro unat_small_byte) simp
    ultimately show ?thesis
      using data_short_ser[of d rest]
      by (auto simp: TxBlock_parse_data_def TxValidator_parse_data_def ser_data_def)
  next
    case 3
    then show ?thesis
      by (auto simp: TxBlock_parse_data_def TxValidator_parse_data_def ser_data_def data_long_def
        subspan_def fromBigEndian_native_mod)
  next
    case 4
    moreover have "unat (word_of_nat (bytesRequired (length d) + 183) :: byte) = bytesRequired (length d) + 183"
      using bytesRequired_64[OF assms] by (intro unat_small_byte) simp
    moreover have "length d \<noteq> 0" "0 < bytesRequired (length d)" using 4 by (auto simp: neq0_conv[symmetric])
    ultimately show ?thesis
      using data_long_ser[OF assms, of rest] bytesRequired_64[OF assms]
      by (auto simp: TxBlock_parse_data_def TxValidator_parse_data_def ser_data_def)
  qed
  then show ?block ?validator by simp_all
qed

text \<open>The head of a list is only understood when the list is longer than 55 bytes.\<close>

lemma parse_list_long:
  assumes "length body < 2 ^ 64" "55 < length body"
  shows "parse_list (ser_head (length body) @ body) = Inr body"
proof -
  let ?k = "bytesRequired (length body)"
  have u: "unat (word_of_nat (?k + 247) :: byte) = ?k + 247"
    using bytesRequired_64[OF assms(1)] by (intro unat_small_byte) simp
  have "unat ((word_of_nat (?k + 247) :: byte) - word_of_nat 247) = ?k"
    using bytesRequired_64[OF assms(1)] by (subst unat_byte_sub) simp_all
  then show ?thesis
    using u assms by (simp add: parse_list_def ser_head_def fromBigEndian_native_mod)
qed

lemma parse_list_short:
  assumes "length body \<le> 55"
  shows "\<exists>e. parse_list (ser_head (length body) @ body) = Inl e"
proof (cases "length body = 55")
  case True
  then show ?thesis
    by (simp add: parse_list_def ser_head_def subspan_def fromBigEndian_native_mod)
next
  case False
  with assms have "unat (word_of_nat (length body + 192) :: byte) = length body + 192"
    by (intro unat_small_byte) simp
  with False assms show ?thesis by (simp add: parse_list_def ser_head_def)
qed

lemma length_ser:
  "length (ser_uint n) = size_uint n"
  "length a = 20 \<Longrightarrow> length (ser_to a) = size_to a"
  "length (ser_data d) = size_data d"
  "length (ser_half n) = 1 + bytesRequired n"
  "length (ser_v n) = size_uint n"
  by (simp_all add: ser_uint_def size_uint_def ser_to_def size_to_def ser_data_def size_data_def
    ser_half_def ser_v_def)

section \<open>Lemmas: whole transactions\<close>

text \<open>The fields of a block transaction fit their C++ types.\<close>

definition txblock_wf :: "txblock \<Rightarrow> bool" where
  "txblock_wf tx \<longleftrightarrow> length (tb_to tx) = 20 \<and> tb_chainId tx < 2 ^ 64 \<and> tb_nonce tx < 2 ^ 256
     \<and> tb_value tx < 2 ^ 256 \<and> tb_maxPriorityFeePerGas tx < 2 ^ 256 \<and> tb_maxFeePerGas tx < 2 ^ 256
     \<and> tb_gasLimit tx < 2 ^ 256 \<and> tb_v tx < 256 \<and> tb_r tx < 2 ^ 256 \<and> tb_s tx < 2 ^ 256"

definition TxBlock_sig_part :: "txblock \<Rightarrow> bytes" where
  "TxBlock_sig_part tx = [192] @ [if tb_v tx = 0 then 128 else word_of_nat (tb_v tx)]
     @ ser_half (tb_r tx) @ ser_half (tb_s tx)"

definition TxBlock_body :: "txblock \<Rightarrow> bytes" where
  "TxBlock_body tx = ser_uint (tb_chainId tx) @ ser_uint (tb_nonce tx)
     @ ser_uint (tb_maxPriorityFeePerGas tx) @ ser_uint (tb_maxFeePerGas tx)
     @ ser_uint (tb_gasLimit tx) @ ser_to (tb_to tx) @ ser_uint (tb_value tx)
     @ ser_data (tb_data tx) @ TxBlock_sig_part tx"

lemma length_TxBlock_body:
  "length (tb_to tx) = 20 \<Longrightarrow> length (TxBlock_body tx) = TxBlock_total_size True tx"
  by (simp add: TxBlock_body_def TxBlock_sig_part_def TxBlock_total_size_def length_ser)

lemma TxBlock_serialize_body:
  "length (tb_to tx) = 20 \<Longrightarrow>
   TxBlock_rlpSerialize True tx = 2 # ser_head (length (TxBlock_body tx)) @ TxBlock_body tx"
  by (simp add: length_TxBlock_body TxBlock_rlpSerialize_def)
    (simp add: TxBlock_body_def TxBlock_sig_part_def)

lemma size_data_ge: "length d \<le> size_data d"
  by (simp add: size_data_def)

lemma TxBlock_data_less: "TxBlock_total_size True tx < 2 ^ 64 \<Longrightarrow> length (tb_data tx) < 2 ^ 64"
  using size_data_ge[of "tb_data tx"] unfolding TxBlock_total_size_def by linarith

text \<open>What the parser has read when it reaches the end of the data field.\<close>

lemma TxBlock_parse_ser:
  assumes "txblock_wf tx" "55 < TxBlock_total_size True tx" "TxBlock_total_size True tx < 2 ^ 64"
  shows "TxBlock_parse c (TxBlock_rlpSerialize True tx) =
    TxBlock_parse_sig c
      \<lparr>tb_to = tb_to tx, tb_from = zero_address,
       tb_data = (if length (tb_data tx) = 55 then [] else tb_data tx),
       tb_chainId = tb_chainId tx, tb_nonce = tb_nonce tx mod 2 ^ 64,
       tb_value = tb_value tx, tb_maxPriorityFeePerGas = tb_maxPriorityFeePerGas tx,
       tb_maxFeePerGas = tb_maxFeePerGas tx, tb_gasLimit = tb_gasLimit tx mod 2 ^ 64,
       tb_v = 0, tb_r = 0, tb_s = 0, tb_hash = []\<rparr>
      (if length (tb_data tx) = 55 then tb_data tx @ TxBlock_sig_part tx else TxBlock_sig_part tx)"
proof -
  have len: "length (tb_to tx) = 20" and wf: "tb_chainId tx < 2 ^ 256"
    "tb_nonce tx < 2 ^ 256" "tb_value tx < 2 ^ 256" "tb_maxPriorityFeePerGas tx < 2 ^ 256"
    "tb_maxFeePerGas tx < 2 ^ 256" "tb_gasLimit tx < 2 ^ 256" "tb_chainId tx mod 18446744073709551616 = tb_chainId tx"
    using assms(1) by (simp_all add: txblock_wf_def)
  have "parse_list (ser_head (length (TxBlock_body tx)) @ TxBlock_body tx) = Inr (TxBlock_body tx)"
    using assms(2,3) len by (intro parse_list_long) (simp_all add: length_TxBlock_body)
  moreover note fields = rlp_u64_ser[OF wf(1)] rlp_u64_ser[OF wf(2)] rlp_u256_ser[OF wf(3)]
    rlp_u256_ser[OF wf(4)] rlp_u256_ser[OF wf(5)] rlp_u64_ser[OF wf(6)] parse_to_ser[OF len]
    parse_data_ser(1)[OF TxBlock_data_less[OF assms(3)]]
  ultimately show ?thesis
    unfolding TxBlock_parse_def TxBlock_serialize_body[OF len]
    by (simp add: TxBlock_body_def parse_chainId_def parse_nonce_def parse_maxPriorityFeePerGas_def
      parse_maxFeePerGas_def parse_gasLimit_def parse_value_def fields wf(7))
qed

lemma TxBlock_recover_fields:
  "TxBlock_recover c t = Inr u \<Longrightarrow> tb_data u = tb_data t \<and> tb_nonce u = tb_nonce t \<and> tb_gasLimit u = tb_gasLimit t"
  by (auto simp: TxBlock_recover_def bind_r_eq_Inr Let_def)

lemma TxBlock_parse_sig_fields:
  "TxBlock_parse_sig c t bs = Inr u \<Longrightarrow> tb_data u = tb_data t \<and> tb_nonce u = tb_nonce t \<and> tb_gasLimit u = tb_gasLimit t"
  by (auto simp: TxBlock_parse_sig_def bind_r_eq_Inr dest!: TxBlock_recover_fields)

lemma TxBlock_parse_sig_ser:
  assumes "tb_v tx \<le> 1" "tb_r tx < 2 ^ 256" "tb_s tx < 2 ^ 256"
  shows "TxBlock_parse_sig c t (TxBlock_sig_part tx) =
    TxBlock_recover c (t\<lparr>tb_v := tb_v tx, tb_r := tb_r tx, tb_s := tb_s tx\<rparr>)"
proof -
  have s: "parse_half 32 m (ser_half (tb_s tx)) = Inr (tb_s tx, [])" for m
    using parse_half_ser[OF assms(3), of 32 m "[]"] by simp
  have "tb_v tx = 0 \<or> tb_v tx = 1" using assms(1) by linarith
  then show ?thesis
    using parse_half_ser[OF assms(2), of 32] s
    by (auto simp: TxBlock_parse_sig_def TxBlock_sig_part_def parse_access_list_def TxBlock_parse_v_def)
qed

text \<open>The unsigned form does not depend on the signature, the sender or the hash.\<close>

lemma TxBlock_unsigned_upd [simp]:
  "TxBlock_rlpSerialize False (tx\<lparr>tb_v := v\<rparr>) = TxBlock_rlpSerialize False tx"
  "TxBlock_rlpSerialize False (tx\<lparr>tb_r := r\<rparr>) = TxBlock_rlpSerialize False tx"
  "TxBlock_rlpSerialize False (tx\<lparr>tb_s := s\<rparr>) = TxBlock_rlpSerialize False tx"
  "TxBlock_rlpSerialize b (tx\<lparr>tb_from := f\<rparr>) = TxBlock_rlpSerialize b tx"
  "TxBlock_rlpSerialize b (tx\<lparr>tb_hash := h\<rparr>) = TxBlock_rlpSerialize b tx"
  by (simp_all add: TxBlock_rlpSerialize_def TxBlock_total_size_def)

lemma TxValidator_unsigned_upd [simp]:
  "TxValidator_rlpSerialize False (tv\<lparr>tv_v := v\<rparr>) = TxValidator_rlpSerialize False tv"
  "TxValidator_rlpSerialize False (tv\<lparr>tv_r := r\<rparr>) = TxValidator_rlpSerialize False tv"
  "TxValidator_rlpSerialize False (tv\<lparr>tv_s := s\<rparr>) = TxValidator_rlpSerialize False tv"
  "TxValidator_rlpSerialize b (tv\<lparr>tv_from := f\<rparr>) = TxValidator_rlpSerialize b tv"
  "TxValidator_rlpSerialize b (tv\<lparr>tv_hash := h\<rparr>) = TxValidator_rlpSerialize b tv"
  by (simp_all add: TxValidator_rlpSerialize_def TxValidator_total_size_def)

text \<open>What the signing constructor establishes.\<close>

lemma TxBlock_sign_facts:
  assumes "bits_ok c" "TxBlock_sign c tx0 k = Inr tx"
  shows "tb_from tx = toAddress c (toUPub c k)" "tb_hash tx = keccak c (TxBlock_rlpSerialize True tx)"
    "verifySig (tb_r tx) (tb_s tx) (tb_v tx)"
    "secp_recover c (makeSig c (tb_r tx) (tb_s tx) (tb_v tx)) (keccak c (TxBlock_rlpSerialize False tx))
       = toUPub c k"
    "tx = tx0\<lparr>tb_v := tb_v tx, tb_r := tb_r tx, tb_s := tb_s tx, tb_hash := tb_hash tx\<rparr>"
proof -
  from assms(2) obtain sig r s where
    sig: "secp_sign c (keccak c (TxBlock_rlpSerialize False tx0)) k = Inr sig"
    and r: "bytesToUint256 (import_bits c) (take 32 sig) = Inr r"
    and s: "bytesToUint256 (import_bits c) (take 32 (drop 32 sig)) = Inr s"
    and rest: "tb_from tx0 = toAddress c (toUPub c k)"
      "secp_recover c sig (keccak c (TxBlock_rlpSerialize False tx0)) = toUPub c k"
      "verifySig r s (unat (sig ! 64))"
    and tx: "tx = tx0\<lparr>tb_r := r, tb_s := s, tb_v := unat (sig ! 64),
        tb_hash := keccak c (TxBlock_rlpSerialize True (tx0\<lparr>tb_r := r, tb_s := s, tb_v := unat (sig ! 64)\<rparr>))\<rparr>"
    by (auto simp: TxBlock_sign_def Let_def bind_r_eq_Inr)
  from secp_sign_shape[OF assms(1) sig] obtain r' s' v' where
    sh: "r' < 2 ^ 256" "s' < 2 ^ 256" "v' < 256" "sig = makeSig c r' s' v'" by blast
  have "r' = r" "s' = s" "v' = unat (sig ! 64)"
    using makeSig_parts[OF assms(1) sh(1-3)] r s sh(4) by simp_all
  with sh(4) have mk: "makeSig c r s (unat (sig ! 64)) = sig" by simp
  show "tb_from tx = toAddress c (toUPub c k)" "tb_hash tx = keccak c (TxBlock_rlpSerialize True tx)"
    "verifySig (tb_r tx) (tb_s tx) (tb_v tx)"
    "secp_recover c (makeSig c (tb_r tx) (tb_s tx) (tb_v tx)) (keccak c (TxBlock_rlpSerialize False tx))
       = toUPub c k"
    "tx = tx0\<lparr>tb_v := tb_v tx, tb_r := tb_r tx, tb_s := tb_s tx, tb_hash := tb_hash tx\<rparr>"
    using rest mk by (simp_all add: tx)
qed

lemma verifySig_bounds: "verifySig r s v \<Longrightarrow> v \<le> 1 \<and> r < 2 ^ 256 \<and> s < 2 ^ 256"
  using ecConst_less by (auto simp: verifySig_def)

lemma txblock_wf_sign:
  assumes "bits_ok c" "TxBlock_sign c tx0 k = Inr tx" "txblock_wf tx0"
  shows "txblock_wf tx"
  using TxBlock_sign_facts(5)[OF assms(1,2)] verifySig_bounds[OF TxBlock_sign_facts(3)[OF assms(1,2)]]
    assms(3)
  by (cases tx, cases tx0) (simp add: txblock_wf_def)

lemma TxBlock_recover_sign:
  assumes "bits_ok c" "TxBlock_sign c tx0 k = Inr tx" "nonzero_bytes (toUPub c k)"
  shows "TxBlock_recover c (tx\<lparr>tb_from := f, tb_hash := h\<rparr>) = Inr tx"
proof -
  note facts = TxBlock_sign_facts[OF assms(1,2)]
  have "TxBlock_recover c (tx\<lparr>tb_from := f, tb_hash := h\<rparr>)
      = Inr (tx\<lparr>tb_from := tb_from tx, tb_hash := tb_hash tx\<rparr>)"
    unfolding facts(1,2) using facts(3,4) assms(3) by (simp add: TxBlock_recover_def)
  then show ?thesis by simp
qed

text \<open>The validator transaction, in the same way.\<close>

definition TxValidator_wf :: "txvalidator \<Rightarrow> bool" where
  "TxValidator_wf tv \<longleftrightarrow> tv_chainId tv < 2 ^ 64 \<and> tv_nHeight tv < 2 ^ 64"

definition TxValidator_body :: "txvalidator \<Rightarrow> bytes" where
  "TxValidator_body tv = ser_data (tv_data tv) @ ser_uint (tv_nHeight tv) @ ser_v (tv_v tv)
     @ ser_half (tv_r tv) @ ser_half (tv_s tv)"

lemma length_TxValidator_body: "length (TxValidator_body tv) = TxValidator_total_size True tv"
  by (simp add: TxValidator_body_def TxValidator_total_size_def length_ser)

lemma TxValidator_serialize_body:
  "TxValidator_rlpSerialize True tv = ser_head (length (TxValidator_body tv)) @ TxValidator_body tv"
  by (simp add: length_TxValidator_body TxValidator_rlpSerialize_def)
    (simp add: TxValidator_body_def)

lemma TxValidator_data_less:
  "TxValidator_total_size True tv < 2 ^ 64 \<Longrightarrow> length (tv_data tv) < 2 ^ 64"
  using size_data_ge[of "tv_data tv"] unfolding TxValidator_total_size_def by linarith

lemma TxValidator_recover_fields:
  assumes "TxValidator_recover c junk t = Inr u"
  shows "tv_data u = tv_data t" "0 < tv_chainId u" "tv_chainId u * 2 + 35 \<le> tv_v u"
    and "tv_v u \<le> tv_chainId u * 2 + 36" "tv_chainId u < 2 ^ 64"
proof -
  from assms have u: "tv_data u = tv_data t" "TxValidator_chainId junk (tv_v u) = Inr (tv_chainId u)"
    "tv_chainId u * 2 + 35 \<le> tv_v u"
    by (auto simp: TxValidator_recover_def bind_r_eq_Inr Let_def)
  then have "36 < tv_v u" "(tv_v u - 35) div 2 = tv_chainId u" "tv_chainId u < 2 ^ 64"
    by (auto simp: TxValidator_chainId_def split: if_splits)
  then show "tv_data u = tv_data t" "0 < tv_chainId u" "tv_chainId u * 2 + 35 \<le> tv_v u"
    "tv_v u \<le> tv_chainId u * 2 + 36" "tv_chainId u < 2 ^ 64"
    using u by linarith+
qed

lemma TxValidator_parse_ser:
  assumes "tv_nHeight tv < 2 ^ 64" "0 < tv_v tv" "tv_v tv < 2 ^ 64" "tv_r tv < 2 ^ 256" "tv_s tv < 2 ^ 256"
    and "55 < TxValidator_total_size True tv" "TxValidator_total_size True tv < 2 ^ 64"
    and "length (tv_data tv) \<noteq> 55"
  shows "TxValidator_parse c junk (TxValidator_rlpSerialize True tv) =
    TxValidator_recover c junk (tv\<lparr>tv_from := zero_address, tv_chainId := junk, tv_hash := []\<rparr>)"
proof -
  have n: "tv_nHeight tv < 2 ^ 256" and v: "tv_v tv < 2 ^ 256"
    and m: "tv_nHeight tv mod 18446744073709551616 = tv_nHeight tv"
    using assms(1,3) by simp_all
  have v': "ser_v (tv_v tv) = ser_uint (tv_v tv)" using assms(2) by (intro ser_v_uint) simp
  have s: "parse_half 55 l (ser_half (tv_s tv)) = Inr (tv_s tv, [])" for l
    using parse_half_ser[OF assms(5), of 55 l "[]"] by simp
  have "parse_list (ser_head (length (TxValidator_body tv)) @ TxValidator_body tv) = Inr (TxValidator_body tv)"
    using assms(6,7) by (intro parse_list_long) (simp_all add: length_TxValidator_body)
  moreover note fields = rlp_u64_ser[OF n] rlp_u256_ser[OF v] parse_half_ser[OF assms(4)] s
    parse_data_ser(2)[OF TxValidator_data_less[OF assms(7)]]
  ultimately show ?thesis
    using assms(8) m v' unfolding TxValidator_parse_def TxValidator_serialize_body
    by (cases tv) (simp add: TxValidator_body_def parse_nHeight_def parse_validator_v_def fields m v')
qed

text \<open>With 55 bytes of data the parser ends, if it ends well, with no data at all.\<close>

lemma TxValidator_parse_55:
  assumes "length (tv_data tv) = 55" "TxValidator_total_size True tv < 2 ^ 64"
    and "TxValidator_parse c junk (TxValidator_rlpSerialize True tv) = Inr u"
  shows "tv_data u = []"
proof -
  have "length (TxValidator_body tv) > 55"
    using assms(1) by (simp add: length_TxValidator_body TxValidator_total_size_def size_data_def)
  then have "parse_list (ser_head (length (TxValidator_body tv)) @ TxValidator_body tv) = Inr (TxValidator_body tv)"
    using assms(2) by (intro parse_list_long) (simp_all add: length_TxValidator_body)
  then show ?thesis
    using assms(1,3) parse_data_ser(2)[OF TxValidator_data_less[OF assms(2)]]
    unfolding TxValidator_parse_def TxValidator_serialize_body
    by (auto simp: TxValidator_body_def bind_r_eq_Inr dest!: TxValidator_recover_fields(1))
qed

lemma TxValidator_sign_facts:
  assumes "bits_ok c" "TxValidator_sign c tv0 k = Inr tv"
  obtains v where "v \<le> 1" "tv_v tv = (v + (tv_chainId tv * 2 + 35)) mod 2 ^ 64"
    and "tv_from tv = toAddress c (toUPub c k)" "tv_hash tv = keccak c (TxValidator_rlpSerialize True tv)"
    and "verifySig (tv_r tv) (tv_s tv) v"
    and "secp_recover c (makeSig c (tv_r tv) (tv_s tv) v) (keccak c (TxValidator_rlpSerialize False tv))
       = toUPub c k"
    and "tv_data tv = tv_data tv0" "tv_chainId tv = tv_chainId tv0" "tv_nHeight tv = tv_nHeight tv0"
proof -
  from assms(2) obtain sig r s v tv1 where
    sig: "secp_sign c (keccak c (TxValidator_rlpSerialize False tv0)) k = Inr sig"
    and r: "bytesToUint256 (import_bits c) (take 32 sig) = Inr r"
    and s: "bytesToUint256 (import_bits c) (take 32 (drop 32 sig)) = Inr s"
    and v: "v = unat (sig ! 64)"
    and rest: "tv_from tv0 = toAddress c (toUPub c k)"
      "secp_recover c sig (keccak c (TxValidator_rlpSerialize False tv0)) = toUPub c k"
      "verifySig r s v"
    and tv1: "tv1 = tv0\<lparr>tv_r := r, tv_s := s, tv_v := (v + (tv_chainId tv0 * 2 + 35)) mod 2 ^ 64\<rparr>"
    and tv: "tv = tv1\<lparr>tv_hash := keccak c (TxValidator_rlpSerialize True tv1)\<rparr>"
    by (auto simp: TxValidator_sign_def Let_def bind_r_eq_Inr)
  from secp_sign_shape[OF assms(1) sig] obtain r' s' v' where
    sh: "r' < 2 ^ 256" "s' < 2 ^ 256" "v' < 256" "sig = makeSig c r' s' v'" by blast
  have "r' = r" "s' = s" "v' = v" using makeSig_parts[OF assms(1) sh(1-3)] r s v sh(4) by simp_all
  with sh(4) have mk: "makeSig c r s v = sig" by simp
  show ?thesis
    using rest mk verifySig_bounds[OF rest(3)] by (intro that[of v]) (simp_all add: tv tv1)
qed

lemma native_sum_exact:
  assumes "b \<le> (v + b) mod (m :: nat)" "v < m"
  shows "(v + b) mod m = v + b"
proof (rule ccontr)
  assume "(v + b) mod m \<noteq> v + b"
  then have "m \<le> v + b" by (meson mod_less not_le)
  then have "(v + b) mod m \<le> v + b - m" by (simp add: le_mod_geq)
  with assms \<open>m \<le> v + b\<close> show False by linarith
qed

lemma TxValidator_recover_sign:
  assumes "bits_ok c" "TxValidator_sign c tv0 k = Inr tv" "toUPub c k \<noteq> empty_upub"
    and "0 < tv_chainId tv" "tv_chainId tv < 2 ^ 64" "tv_chainId tv * 2 + 35 \<le> tv_v tv"
  shows "TxValidator_recover c junk (tv\<lparr>tv_from := f, tv_chainId := g, tv_hash := h\<rparr>) = Inr tv"
proof -
  from assms(1,2) obtain v where v: "v \<le> 1" "tv_v tv = (v + (tv_chainId tv * 2 + 35)) mod 2 ^ 64"
    and facts: "tv_from tv = toAddress c (toUPub c k)" "tv_hash tv = keccak c (TxValidator_rlpSerialize True tv)"
      "verifySig (tv_r tv) (tv_s tv) v"
      "secp_recover c (makeSig c (tv_r tv) (tv_s tv) v) (keccak c (TxValidator_rlpSerialize False tv)) = toUPub c k"
    by (rule TxValidator_sign_facts)
  have vv: "tv_v tv = v + (tv_chainId tv * 2 + 35)" 
    using native_sum_exact[of "tv_chainId tv * 2 + 35" v "2 ^ 64"] v assms(6) by simp
  have ch: "TxValidator_chainId junk (tv_v tv) = Inr (tv_chainId tv)"
    using vv v(1) assms(4,5) by (simp add: TxValidator_chainId_def)
  have "TxValidator_recover c junk (tv\<lparr>tv_from := f, tv_chainId := g, tv_hash := h\<rparr>)
      = Inr (tv\<lparr>tv_from := tv_from tv, tv_chainId := tv_chainId tv, tv_hash := tv_hash tv\<rparr>)"
    unfolding facts(1,2) using facts(3,4) assms(3) ch v(1)
    by (simp add: TxValidator_recover_def vv u_sub_def u_cast_def)
  then show ?thesis by simp
qed


section \<open>Lemmas: what a parsed field can be\<close>

lemma fromBigEndian_ck_loop_less:
  "fromBigEndian_ck_loop w acc bs = Inr n \<Longrightarrow> acc < 2 ^ w \<Longrightarrow> 8 \<le> w \<Longrightarrow> n < 2 ^ w"
proof (induction w acc bs rule: fromBigEndian_ck_loop.induct)
  case (2 w acc b bs)
  have "(2 :: nat) ^ w = 2 ^ (w - 8) * 256"
    using "2.prems"(3) power_add[of "2 :: nat" "w - 8" 8] by simp
  moreover have lt: "acc * 256 < 2 ^ w" using "2.prems"(1) by (simp split: if_splits)
  ultimately have "Suc acc \<le> 2 ^ (w - 8)" "(2 :: nat) ^ w = 2 ^ (w - 8) * 256" by simp_all
  then have "acc * 256 + unat b < 2 ^ w" using unat_byte_less[of b] by linarith
  then show ?case using "2.IH"[OF lt] "2.prems" lt by simp
qed simp

lemma be_u256_less: "be_u256 bs = Inr n \<Longrightarrow> n < 2 ^ 256"
  using fromBigEndian_ck_loop_less[of 256 0 bs n] by (simp add: be_u256_def fromBigEndian_ck_def)

lemma be_u64_less: "be_u64 bs = Inr n \<Longrightarrow> n < 2 ^ 64"
  by (auto simp: be_u64_def fromBigEndian_native_mod)

lemma rlp_uint_less:
  assumes "rlp_uint conv lim bs = Inr (n, rest)" "\<And>xs m. conv xs = Inr m \<Longrightarrow> m < k" "0 < k"
  shows "n < k"
  using assms by (auto simp: rlp_uint_def Let_def bind_r_eq_Inr split: if_splits)

lemma rlp_u64_less: "rlp_uint be_u64 lim bs = Inr (n, rest) \<Longrightarrow> n < 2 ^ 64"
  by (rule rlp_uint_less[OF _ be_u64_less]) simp_all

lemma rlp_u256_less: "rlp_uint be_u256 lim bs = Inr (n, rest) \<Longrightarrow> n < 2 ^ 256"
  by (rule rlp_uint_less[OF _ be_u256_less]) simp_all

lemma parse_to_length: "parse_to bs = Inr (a, rest) \<Longrightarrow> length a = 20"
  by (auto simp: parse_to_def Let_def bind_r_eq_Inr subspan_def zero_address_def split: if_splits)

lemma TxBlock_recover_sound:
  assumes "TxBlock_recover c t = Inr u"
  shows "verifySig (tb_r u) (tb_s u) (tb_v u)"
    and "\<exists>key. key = secp_recover c (makeSig c (tb_r u) (tb_s u) (tb_v u)) (keccak c (TxBlock_rlpSerialize False u))
      \<and> nonzero_bytes key \<and> tb_from u = toAddress c key"
    and "tb_hash u = keccak c (TxBlock_rlpSerialize True u)"
  using assms by (auto simp: TxBlock_recover_def bind_r_eq_Inr Let_def)

lemma TxBlock_parse_shape:
  assumes "TxBlock_parse c bs = Inr tx"
  obtains t where "TxBlock_recover c t = Inr tx" "length (tb_to tx) = 20" "tb_chainId tx < 2 ^ 64"
    "tb_nonce tx < 2 ^ 64" "tb_gasLimit tx < 2 ^ 64" "tb_value tx < 2 ^ 256"
    "tb_maxPriorityFeePerGas tx < 2 ^ 256" "tb_maxFeePerGas tx < 2 ^ 256"
proof -
  have keep: "tb_to u = tb_to t \<and> tb_chainId u = tb_chainId t \<and> tb_nonce u = tb_nonce t
    \<and> tb_gasLimit u = tb_gasLimit t \<and> tb_value u = tb_value t
    \<and> tb_maxPriorityFeePerGas u = tb_maxPriorityFeePerGas t \<and> tb_maxFeePerGas u = tb_maxFeePerGas t"
    if "TxBlock_recover c t = Inr u" for t u
    using that by (auto simp: TxBlock_recover_def bind_r_eq_Inr Let_def)
  from assms obtain t where t: "TxBlock_recover c t = Inr tx" "length (tb_to t) = 20"
    "tb_chainId t < 2 ^ 64" "tb_nonce t < 2 ^ 64" "tb_gasLimit t < 2 ^ 64" "tb_value t < 2 ^ 256"
    "tb_maxPriorityFeePerGas t < 2 ^ 256" "tb_maxFeePerGas t < 2 ^ 256"
    unfolding TxBlock_parse_def TxBlock_parse_sig_def parse_chainId_def parse_nonce_def
      parse_maxPriorityFeePerGas_def parse_maxFeePerGas_def parse_gasLimit_def parse_value_def
    by (clarsimp simp: bind_r_eq_Inr dest!: rlp_u64_less rlp_u256_less parse_to_length)
  then show ?thesis using keep[OF t(1)] by (intro that[of t]) simp_all
qed

lemma TxValidator_recover_sound:
  assumes "TxValidator_recover c junk t = Inr u"
  shows "verifySig (tv_r u) (tv_s u) (tv_v u - (tv_chainId u * 2 + 35))"
    and "\<exists>key. key = secp_recover c (makeSig c (tv_r u) (tv_s u) (tv_v u - (tv_chainId u * 2 + 35)))
        (keccak c (TxValidator_rlpSerialize False u))
      \<and> key \<noteq> empty_upub \<and> tv_from u = toAddress c key"
    and "tv_hash u = keccak c (TxValidator_rlpSerialize True u)"
  using assms by (auto simp: TxValidator_recover_def bind_r_eq_Inr Let_def)


section \<open>Lemmas: signed, serialized and parsed again\<close>

lemma TxBlock_parse_signed:
  assumes "bits_ok c" "TxBlock_sign c tx0 k = Inr tx" "txblock_wf tx0" "nonzero_bytes (toUPub c k)"
    and "55 < TxBlock_total_size True tx" "TxBlock_total_size True tx < 2 ^ 64"
    and "length (tb_data tx) \<noteq> 55" "tb_nonce tx < 2 ^ 64" "tb_gasLimit tx < 2 ^ 64"
  shows "TxBlock_parse c (TxBlock_rlpSerialize True tx) = Inr tx"
proof -
  note b = verifySig_bounds[OF TxBlock_sign_facts(3)[OF assms(1,2)]]
  have "TxBlock_parse c (TxBlock_rlpSerialize True tx) =
      TxBlock_recover c (tx\<lparr>tb_from := zero_address, tb_hash := []\<rparr>)"
    unfolding TxBlock_parse_ser[OF txblock_wf_sign[OF assms(1-3)] assms(5,6)]
    using b assms(7-9) by (cases tx) (simp add: TxBlock_parse_sig_ser)
  then show ?thesis using TxBlock_recover_sign[OF assms(1,2,4)] by simp
qed

lemma TxValidator_sign_bounds:
  assumes "bits_ok c" "TxValidator_sign c tv0 k = Inr tv" "TxValidator_wf tv0"
  shows "tv_nHeight tv < 2 ^ 64" "tv_chainId tv < 2 ^ 64" "tv_v tv < 2 ^ 64"
    "tv_r tv < 2 ^ 256" "tv_s tv < 2 ^ 256"
proof -
  from assms(1,2) obtain v where "tv_v tv = (v + (tv_chainId tv * 2 + 35)) mod 2 ^ 64"
    and "verifySig (tv_r tv) (tv_s tv) v"
    and "tv_chainId tv = tv_chainId tv0" "tv_nHeight tv = tv_nHeight tv0"
    by (rule TxValidator_sign_facts)
  then show "tv_nHeight tv < 2 ^ 64" "tv_chainId tv < 2 ^ 64" "tv_v tv < 2 ^ 64"
    "tv_r tv < 2 ^ 256" "tv_s tv < 2 ^ 256"
    using assms(3) verifySig_bounds[of "tv_r tv" "tv_s tv" v] by (simp_all add: TxValidator_wf_def)
qed

lemma TxValidator_parse_signed:
  assumes "bits_ok c" "TxValidator_sign c tv0 k = Inr tv" "TxValidator_wf tv0" "toUPub c k \<noteq> empty_upub"
    and "55 < TxValidator_total_size True tv" "TxValidator_total_size True tv < 2 ^ 64"
    and "length (tv_data tv) \<noteq> 55" "0 < tv_chainId tv" "tv_chainId tv * 2 + 35 \<le> tv_v tv"
  shows "TxValidator_parse c junk (TxValidator_rlpSerialize True tv) = Inr tv"
proof -
  note b = TxValidator_sign_bounds[OF assms(1-3)]
  have "0 < tv_v tv" using assms(9) by linarith
  then show ?thesis
    using TxValidator_parse_ser[OF b(1) _ b(3-5) assms(5-7)]
      TxValidator_recover_sign[OF assms(1,2,4,8) b(2) assms(9)] by simp
qed

section \<open>Properties\<close>

text \<open>
  A concrete instance of the parameters for the witnesses: a library with one key pair, whose
  signatures have \<open>r = s = 2\<close>.
\<close>

definition sample_crypto :: crypto where
  "sample_crypto = \<lparr>ec_recover = (\<lambda>_ _. Some (replicate 65 4)), ec_create = (\<lambda>_. Some (replicate 65 4)),
     ec_sign = (\<lambda>_ _. Some (replicate 31 0 @ [2] @ replicate 31 0 @ [2], 0)),
     keccak = (\<lambda>_. replicate 32 7), export_bits = export_ref, import_bits = be_val\<rparr>"

definition sample_tx :: txblock where
  "sample_tx = \<lparr>tb_to = replicate 20 9, tb_from = replicate 20 7, tb_data = replicate 60 5,
     tb_chainId = 8080, tb_nonce = 3, tb_value = 1000, tb_maxPriorityFeePerGas = 1,
     tb_maxFeePerGas = 1, tb_gasLimit = 21000, tb_v = 0, tb_r = 0, tb_s = 0, tb_hash = []\<rparr>"

definition sample_tv :: txvalidator where
  "sample_tv = \<lparr>tv_from = replicate 20 7, tv_data = replicate 60 5, tv_chainId = 8080,
     tv_nHeight = 77, tv_v = 0, tv_r = 0, tv_s = 0, tv_hash = []\<rparr>"

lemma sample_crypto_ok:
  "bits_ok sample_crypto" "toUPub sample_crypto k = replicate 65 4"
  "nonzero_bytes (toUPub sample_crypto k)" "toUPub sample_crypto k \<noteq> empty_upub"
  "toAddress sample_crypto key = replicate 20 7"
  using ref_bits.boost_bits_axioms
  by (simp_all add: bits_ok_def sample_crypto_def toUPub_def toAddress_def empty_upub_def
    nonzero_bytes_def replicate_eq_replicate list_ex_iff)

lemma sample_sig: "secp_sign sample_crypto msg k = Inr (makeSig sample_crypto 2 2 0)"
proof -
  have one: "be_val (replicate 31 0 @ [2]) = 2" by (simp add: be_val_append)
  have "take 32 (replicate 31 0 @ [2] @ replicate 31 0 @ [2]) = replicate 31 0 @ [2 :: byte]"
    "take 32 (drop 32 (replicate 31 0 @ [2] @ replicate 31 0 @ [2])) = replicate 31 0 @ [2 :: byte]"
    by simp_all
  then show ?thesis
    by (simp add: secp_sign_def sample_crypto_def bytesToUint256_def bytesToWide_def one ecConst_def)
qed

lemma sample_sig_parts:
  "bytesToUint256 (import_bits sample_crypto) (take 32 (makeSig sample_crypto 2 2 0)) = Inr 2"
  "bytesToUint256 (import_bits sample_crypto) (take 32 (drop 32 (makeSig sample_crypto 2 2 0))) = Inr 2"
  "unat (makeSig sample_crypto 2 2 0 ! 64) = 0"
  "secp_recover sample_crypto (makeSig sample_crypto 2 2 0) msg = replicate 65 4"
  using makeSig_parts[OF sample_crypto_ok(1), of 2 2 0]
  by (simp_all add: secp_recover_def sample_crypto_def)

lemma sample_keccak: "keccak sample_crypto x = replicate 32 7"
  by (simp add: sample_crypto_def)

lemma sample_verify: "verifySig 2 2 0"
  by (simp add: verifySig_def ecConst_def)

lemmas sample_facts = sample_crypto_ok sample_sig sample_sig_parts sample_keccak sample_verify

lemma sample_tx_signed:
  "TxBlock_sign sample_crypto sample_tx [] = Inr (sample_tx\<lparr>tb_r := 2, tb_s := 2, tb_hash := replicate 32 7\<rparr>)"
  by (simp add: TxBlock_sign_def sample_facts) (simp add: sample_tx_def)

lemma sample_tv_signed:
  "TxValidator_sign sample_crypto sample_tv [] =
   Inr (sample_tv\<lparr>tv_r := 2, tv_s := 2, tv_v := 16195, tv_hash := replicate 32 7\<rparr>)"
  by (simp add: TxValidator_sign_def sample_facts) (simp add: sample_tv_def)

lemma sample_tx_size:
  "txblock_wf sample_tx"
  "TxBlock_total_size True (sample_tx\<lparr>tb_r := 2, tb_s := 2, tb_hash := replicate 32 7\<rparr>) = 101"
  by (simp_all add: txblock_wf_def TxBlock_total_size_def sample_tx_def size_uint_def size_to_def
    size_data_def bytesRequired_step zero_address_def)

lemma sample_tv_size:
  "TxValidator_wf sample_tv"
  "TxValidator_total_size True (sample_tv\<lparr>tv_r := 2, tv_s := 2, tv_v := 16195, tv_hash := replicate 32 7\<rparr>) = 70"
  by (simp_all add: TxValidator_wf_def TxValidator_total_size_def sample_tv_def size_uint_def
    size_data_def bytesRequired_step)

text \<open>
  Claim C30. A signed block transaction, serialized with its signature and parsed again, gives
  the same transaction exactly when the list is longer than 55 bytes, the data is not 55
  bytes long and nonce and gas limit fit 64 bits. The sender is recovered, the hash
  recomputed. Outside these bounds the parser throws or returns another transaction.
\<close>
theorem TxBlock_roundtrip_iff:
  assumes "bits_ok c" "TxBlock_sign c tx0 k = Inr tx" "txblock_wf tx0"
    and "nonzero_bytes (toUPub c k)" "TxBlock_total_size True tx < 2 ^ 64"
  shows "TxBlock_parse c (TxBlock_rlpSerialize True tx) = Inr tx \<longleftrightarrow>
    55 < TxBlock_total_size True tx \<and> length (tb_data tx) \<noteq> 55
    \<and> tb_nonce tx < 2 ^ 64 \<and> tb_gasLimit tx < 2 ^ 64"
proof (cases "55 < TxBlock_total_size True tx")
  case False
  have len: "length (tb_to tx) = 20" using txblock_wf_sign[OF assms(1,2,3)] by (simp add: txblock_wf_def)
  from False obtain e where "parse_list (ser_head (length (TxBlock_body tx)) @ TxBlock_body tx) = Inl e"
    using parse_list_short[of "TxBlock_body tx"] by (auto simp: length_TxBlock_body[OF len])
  with False show ?thesis by (simp add: TxBlock_parse_def TxBlock_serialize_body[OF len])
next
  case True
  note parse = TxBlock_parse_ser[OF txblock_wf_sign[OF assms(1,2,3)] True assms(5), of c]
  show ?thesis
  proof
    assume eq: "TxBlock_parse c (TxBlock_rlpSerialize True tx) = Inr tx"
    from TxBlock_parse_sig_fields[OF eq[unfolded parse]] have
      "tb_data tx = (if length (tb_data tx) = 55 then [] else tb_data tx)"
      "tb_nonce tx = tb_nonce tx mod 2 ^ 64" "tb_gasLimit tx = tb_gasLimit tx mod 2 ^ 64"
      by simp_all
    moreover have "tb_nonce tx mod 2 ^ 64 < 2 ^ 64" "tb_gasLimit tx mod 2 ^ 64 < 2 ^ 64" by simp_all
    ultimately show "55 < TxBlock_total_size True tx \<and> length (tb_data tx) \<noteq> 55
        \<and> tb_nonce tx < 2 ^ 64 \<and> tb_gasLimit tx < 2 ^ 64"
      using True by (metis list.size(3) zero_neq_numeral)
  next
    assume "55 < TxBlock_total_size True tx \<and> length (tb_data tx) \<noteq> 55
        \<and> tb_nonce tx < 2 ^ 64 \<and> tb_gasLimit tx < 2 ^ 64"
    then show "TxBlock_parse c (TxBlock_rlpSerialize True tx) = Inr tx"
      using TxBlock_parse_signed[OF assms(1-4) _ assms(5)] by blast
  qed
qed

theorem TxBlock_roundtrip_iff_witness:
  "TxBlock_parse sample_crypto (TxBlock_rlpSerialize True (sample_tx\<lparr>tb_r := 2, tb_s := 2, tb_hash := replicate 32 7\<rparr>))
   = Inr (sample_tx\<lparr>tb_r := 2, tb_s := 2, tb_hash := replicate 32 7\<rparr>)"
  using TxBlock_roundtrip_iff[OF sample_crypto_ok(1) sample_tx_signed sample_tx_size(1) sample_crypto_ok(3)]
    sample_tx_size(2) by (simp add: sample_tx_def)

text \<open>
  A signed validator transaction survives the same round trip exactly when its list
  is longer than 55 bytes, its data is not 55 bytes long, the chain id is not zero and the
  64-bit sum that gives \<open>v\<close> did not wrap.
\<close>
theorem TxValidator_roundtrip_iff:
  assumes "bits_ok c" "TxValidator_sign c tv0 k = Inr tv" "TxValidator_wf tv0"
    and "toUPub c k \<noteq> empty_upub" "TxValidator_total_size True tv < 2 ^ 64"
  shows "TxValidator_parse c junk (TxValidator_rlpSerialize True tv) = Inr tv \<longleftrightarrow>
    55 < TxValidator_total_size True tv \<and> length (tv_data tv) \<noteq> 55
    \<and> 0 < tv_chainId tv \<and> tv_chainId tv * 2 + 35 \<le> tv_v tv"
proof
    assume eq: "TxValidator_parse c junk (TxValidator_rlpSerialize True tv) = Inr tv"
    have "55 < TxValidator_total_size True tv"
      using eq parse_list_short[of "TxValidator_body tv"]
      by (force simp: TxValidator_parse_def TxValidator_serialize_body length_TxValidator_body)
    moreover have "length (tv_data tv) \<noteq> 55" using TxValidator_parse_55[OF _ assms(5) eq] by auto
    moreover obtain t where "TxValidator_recover c junk t = Inr tv"
      using eq by (auto simp: TxValidator_parse_def bind_r_eq_Inr)
    ultimately show "55 < TxValidator_total_size True tv \<and> length (tv_data tv) \<noteq> 55
        \<and> 0 < tv_chainId tv \<and> tv_chainId tv * 2 + 35 \<le> tv_v tv"
      using TxValidator_recover_fields(2,3) by blast
  next
    assume "55 < TxValidator_total_size True tv \<and> length (tv_data tv) \<noteq> 55
        \<and> 0 < tv_chainId tv \<and> tv_chainId tv * 2 + 35 \<le> tv_v tv"
    then show "TxValidator_parse c junk (TxValidator_rlpSerialize True tv) = Inr tv"
      using TxValidator_parse_signed[OF assms(1-4) _ assms(5)] by blast
qed

theorem TxValidator_roundtrip_iff_witness:
  "TxValidator_parse sample_crypto 0
     (TxValidator_rlpSerialize True (sample_tv\<lparr>tv_r := 2, tv_s := 2, tv_v := 16195, tv_hash := replicate 32 7\<rparr>))
   = Inr (sample_tv\<lparr>tv_r := 2, tv_s := 2, tv_v := 16195, tv_hash := replicate 32 7\<rparr>)"
  using TxValidator_roundtrip_iff[OF sample_crypto_ok(1) sample_tv_signed sample_tv_size(1)
      sample_crypto_ok(4), of 0]
    sample_tv_size(2) by (simp add: sample_tv_def)

text \<open>
  Claim C31. Whatever bytes the two parsing constructors accept, the transaction they return
  has its fields within their types and a signature in the range of the curve; its sender is
  the address of a key that the library recovers from that signature over the unsigned form,
  and its hash is that of the signed form. A validator transaction has \<open>v = 2 * chainId + 35\<close>
  or one more with a non-zero chain id: the older values 27 and 28, which the code means to
  admit, never pass.
\<close>
theorem tx_parse_sound:
  "(TxBlock_parse c bs = Inr tx \<longrightarrow>
      length (tb_to tx) = 20 \<and> tb_chainId tx < 2 ^ 64 \<and> tb_nonce tx < 2 ^ 64 \<and> tb_gasLimit tx < 2 ^ 64
      \<and> tb_value tx < 2 ^ 256 \<and> tb_maxPriorityFeePerGas tx < 2 ^ 256 \<and> tb_maxFeePerGas tx < 2 ^ 256
      \<and> verifySig (tb_r tx) (tb_s tx) (tb_v tx)
      \<and> (\<exists>key. key = secp_recover c (makeSig c (tb_r tx) (tb_s tx) (tb_v tx))
            (keccak c (TxBlock_rlpSerialize False tx))
          \<and> nonzero_bytes key \<and> tb_from tx = toAddress c key)
      \<and> tb_hash tx = keccak c (TxBlock_rlpSerialize True tx))
   \<and> (TxValidator_parse c junk bs' = Inr tv \<longrightarrow>
      0 < tv_chainId tv \<and> tv_chainId tv < 2 ^ 64
      \<and> (tv_v tv = tv_chainId tv * 2 + 35 \<or> tv_v tv = tv_chainId tv * 2 + 36)
      \<and> verifySig (tv_r tv) (tv_s tv) (tv_v tv - (tv_chainId tv * 2 + 35))
      \<and> (\<exists>key. key = secp_recover c (makeSig c (tv_r tv) (tv_s tv) (tv_v tv - (tv_chainId tv * 2 + 35)))
            (keccak c (TxValidator_rlpSerialize False tv))
          \<and> key \<noteq> empty_upub \<and> tv_from tv = toAddress c key)
      \<and> tv_hash tv = keccak c (TxValidator_rlpSerialize True tv))"
proof (intro conjI impI)
  assume "TxBlock_parse c bs = Inr tx"
  then obtain t where t: "TxBlock_recover c t = Inr tx" and f: "length (tb_to tx) = 20" "tb_chainId tx < 2 ^ 64"
    "tb_nonce tx < 2 ^ 64" "tb_gasLimit tx < 2 ^ 64" "tb_value tx < 2 ^ 256"
    "tb_maxPriorityFeePerGas tx < 2 ^ 256" "tb_maxFeePerGas tx < 2 ^ 256"
    by (rule TxBlock_parse_shape)
  show "length (tb_to tx) = 20" "tb_chainId tx < 2 ^ 64" "tb_nonce tx < 2 ^ 64" "tb_gasLimit tx < 2 ^ 64"
    "tb_value tx < 2 ^ 256" "tb_maxPriorityFeePerGas tx < 2 ^ 256" "tb_maxFeePerGas tx < 2 ^ 256"
    "verifySig (tb_r tx) (tb_s tx) (tb_v tx)"
    "\<exists>key. key = secp_recover c (makeSig c (tb_r tx) (tb_s tx) (tb_v tx)) (keccak c (TxBlock_rlpSerialize False tx))
      \<and> nonzero_bytes key \<and> tb_from tx = toAddress c key"
    "tb_hash tx = keccak c (TxBlock_rlpSerialize True tx)"
    by (fact f TxBlock_recover_sound[OF t])+
next
  assume "TxValidator_parse c junk bs' = Inr tv"
  then obtain t where t: "TxValidator_recover c junk t = Inr tv"
    by (auto simp: TxValidator_parse_def bind_r_eq_Inr)
  note f = TxValidator_recover_fields[OF t] and g = TxValidator_recover_sound[OF t]
  show "0 < tv_chainId tv" "tv_chainId tv < 2 ^ 64" by (fact f(2) f(5))+
  show "tv_v tv = tv_chainId tv * 2 + 35 \<or> tv_v tv = tv_chainId tv * 2 + 36" using f(3,4) by linarith
  show "verifySig (tv_r tv) (tv_s tv) (tv_v tv - (tv_chainId tv * 2 + 35))" by (fact g(1))
  show "\<exists>key. key = secp_recover c (makeSig c (tv_r tv) (tv_s tv) (tv_v tv - (tv_chainId tv * 2 + 35)))
        (keccak c (TxValidator_rlpSerialize False tv))
      \<and> key \<noteq> empty_upub \<and> tv_from tv = toAddress c key" by (fact g(2))
  show "tv_hash tv = keccak c (TxValidator_rlpSerialize True tv)" by (fact g(3))
qed

theorem tx_parse_sound_witness:
  "\<exists>tx tv. TxBlock_parse sample_crypto (TxBlock_rlpSerialize True tx) = Inr tx
     \<and> TxValidator_parse sample_crypto 0 (TxValidator_rlpSerialize True tv) = Inr tv
     \<and> verifySig (tb_r tx) (tb_s tx) (tb_v tx) \<and> tv_v tv = tv_chainId tv * 2 + 35"
proof -
  let ?tx = "sample_tx\<lparr>tb_r := 2, tb_s := 2, tb_hash := replicate 32 7\<rparr>"
  let ?tv = "sample_tv\<lparr>tv_r := 2, tv_s := 2, tv_v := 16195, tv_hash := replicate 32 7\<rparr>"
  have "TxBlock_parse sample_crypto (TxBlock_rlpSerialize True ?tx) = Inr ?tx"
    by (rule TxBlock_parse_signed[OF sample_crypto_ok(1) sample_tx_signed sample_tx_size(1) sample_crypto_ok(3)])
      (simp_all add: sample_tx_size(2), simp_all add: sample_tx_def)
  moreover have "TxValidator_parse sample_crypto 0 (TxValidator_rlpSerialize True ?tv) = Inr ?tv"
    by (rule TxValidator_parse_signed[OF sample_crypto_ok(1) sample_tv_signed sample_tv_size(1) sample_crypto_ok(4)])
      (simp_all add: sample_tv_size(2), simp_all add: sample_tv_def)
  ultimately show ?thesis
    using tx_parse_sound[of sample_crypto "TxBlock_rlpSerialize True ?tx" ?tx 0
        "TxValidator_rlpSerialize True ?tv" ?tv]
    by (intro exI[of _ ?tx] exI[of _ ?tv]) (simp add: sample_tv_def)
qed

end
