(* ===== verification/Randomness.thy ===== *)
theory Randomness
  imports Tx_Rlp "HOL-Library.Multiset"
begin

text \<open>
  The randomness of the consensus: the generator of \<^verbatim>\<open>src/src/utils/randomgen.h\<close> with its
  shuffle, and the two static functions of \<^verbatim>\<open>src/src/core/rdpos.cpp\<close> that read validator
  transactions. The locale \<open>shuffler\<close> is what the consensus relies on.
\<close>

section \<open>Definitions\<close>

definition toUint256 :: "crypto \<Rightarrow> bytes \<Rightarrow> nat res" where
  "toUint256 c seed = bytesToUint256 (import_bits c) seed"

definition swap_at :: "'a list \<Rightarrow> nat \<Rightarrow> nat \<Rightarrow> 'a list" where
  "swap_at v n i = v[n := v ! i, i := v ! n]"

text \<open>\<^verbatim>\<open>RandomGen::shuffle\<close>: the loop over \<open>i\<close> with a fresh seed for each position.\<close>

function shuffle_loop :: "crypto \<Rightarrow> nat \<Rightarrow> bytes \<Rightarrow> 'a list \<Rightarrow> (bytes \<times> 'a list) res" where
  "shuffle_loop c i seed v =
     (if i < length v
      then let seed' = keccak c seed in
           bind_r (toUint256 c seed') (\<lambda>x.
           let n = i + x mod (length v - i) in shuffle_loop c (Suc i) seed' (swap_at v n i))
      else Inr (seed, v))"
  by pat_completeness auto
termination
  by (relation "measure (\<lambda>(c, i, seed, v). length v - i)") (auto simp: swap_at_def)

declare shuffle_loop.simps [simp del]

definition shuffle :: "crypto \<Rightarrow> bytes \<Rightarrow> 'a list \<Rightarrow> (bytes \<times> 'a list) res" where
  "shuffle c seed v = shuffle_loop c 0 seed v"

text \<open>\<^verbatim>\<open>getNext\<close> and \<^verbatim>\<open>operator()\<close>, which have the same body; the new seed comes with the number.\<close>

definition getNext :: "crypto \<Rightarrow> bytes \<Rightarrow> (nat \<times> bytes) res" where
  "getNext c seed =
     (let seed' = keccak c seed in bind_r (toUint256 c seed') (\<lambda>ret. Inr (ret, seed')))"

text \<open>\<^verbatim>\<open>TxValidator::getFunctor\<close>: the first four bytes of the data, with no check of its size.\<close>

definition getFunctor :: "txvalidator \<Rightarrow> bytes res" where
  "getFunctor tx = subspan (tv_data tx) 0 4"

datatype TxValidatorFunction = INVALID | RANDOMHASH | RANDOMSEED

definition randomHashHash :: bytes where "randomHashHash = [0xcf, 0xff, 0xe7, 0x46]"
definition randomSeedHash :: bytes where "randomSeedHash = [0x6f, 0xc5, 0xa2, 0xd6]"

definition getTxValidatorFunction :: "txvalidator \<Rightarrow> TxValidatorFunction" where
  "getTxValidatorFunction tx =
     (if length (tv_data tx) \<noteq> 36 then INVALID
      else case getFunctor tx of
        Inl e \<Rightarrow> INVALID
      | Inr functionABI \<Rightarrow>
          if functionABI = randomHashHash then RANDOMHASH
          else if functionABI = randomSeedHash then RANDOMSEED
          else INVALID)"

fun seed_bytes :: "txvalidator list \<Rightarrow> bytes" where
  "seed_bytes [] = []"
| "seed_bytes (tx # txs) =
     (if getTxValidatorFunction tx = RANDOMSEED then drop 4 (tv_data tx) else []) @ seed_bytes txs"

definition parseTxSeedList :: "crypto \<Rightarrow> txvalidator list \<Rightarrow> bytes" where
  "parseTxSeedList c txs = (if txs = [] then replicate 32 0 else keccak c (seed_bytes txs))"

section \<open>Lemmas: the shuffle\<close>

text \<open>A hash has 32 bytes; this is what the type \<^verbatim>\<open>Hash\<close> of the sources says of \<^verbatim>\<open>sha3\<close>.\<close>

definition hash_ok :: "crypto \<Rightarrow> bool" where
  "hash_ok c \<longleftrightarrow> (\<forall>x. length (keccak c x) = 32)"

lemma toUint256_keccak: "hash_ok c \<Longrightarrow> toUint256 c (keccak c x) = Inr (import_bits c (keccak c x))"
  by (simp add: toUint256_def bytesToUint256_def bytesToWide_def hash_ok_def)

lemma length_swap_at [simp]: "length (swap_at v n i) = length v"
  by (simp add: swap_at_def)

lemma mset_swap_at: "n < length v \<Longrightarrow> i < length v \<Longrightarrow> mset (swap_at v n i) = mset v"
  by (simp add: swap_at_def mset_swap)

text \<open>The loop never runs out of the vector: it only fails when the seed is not a hash.\<close>

lemma shuffle_loop_total:
  assumes "hash_ok c"
  shows "\<exists>r. shuffle_loop c i seed v = Inr r"
  using assms
proof (induction c i seed v rule: shuffle_loop.induct)
  case (1 c i seed v)
  show ?case
  proof (cases "i < length v")
    case False
    then show ?thesis by (simp add: shuffle_loop.simps)
  next
    case True
    let ?x = "import_bits c (keccak c seed)"
    show ?thesis
      using "1.IH"[of "keccak c seed" "i + ?x mod (length v - i)" "?x"] True "1.prems"
      by (simp add: shuffle_loop.simps[of c i] toUint256_keccak Let_def)
  qed
qed

lemma shuffle_loop_perm:
  "shuffle_loop c i seed v = Inr (s, w) \<Longrightarrow> mset w = mset v"
proof (induction c i seed v rule: shuffle_loop.induct)
  case (1 c i seed v)
  show ?case
  proof (cases "i < length v")
    case False
    then show ?thesis using "1.prems" by (simp add: shuffle_loop.simps)
  next
    case True
    with "1.prems" obtain x where x: "toUint256 c (keccak c seed) = Inr x"
      and eq: "shuffle_loop c (Suc i) (keccak c seed) (swap_at v (i + x mod (length v - i)) i) = Inr (s, w)"
      by (auto simp: shuffle_loop.simps[of c i] bind_r_eq_Inr Let_def)
    let ?n = "i + x mod (length v - i)"
    have n: "?n < length v" using True mod_less_divisor[of "length v - i" x] by linarith
    have "mset w = mset (swap_at v ?n i)" using "1.IH"[of "keccak c seed" ?n x] True eq by simp
    then show ?thesis using mset_swap_at[OF n True] by simp
  qed
qed

lemma shuffle_loop_seed:
  "shuffle_loop c i seed v = Inr (s, w) \<Longrightarrow> s = (keccak c ^^ (length v - i)) seed"
proof (induction c i seed v rule: shuffle_loop.induct)
  case (1 c i seed v)
  show ?case
  proof (cases "i < length v")
    case False
    then show ?thesis using "1.prems" by (simp add: shuffle_loop.simps)
  next
    case True
    with "1.prems" obtain x where x: "toUint256 c (keccak c seed) = Inr x"
      and eq: "shuffle_loop c (Suc i) (keccak c seed) (swap_at v (i + x mod (length v - i)) i) = Inr (s, w)"
      by (auto simp: shuffle_loop.simps[of c i] bind_r_eq_Inr Let_def)
    have "s = (keccak c ^^ (length v - Suc i)) (keccak c seed)"
      using "1.IH"[of "keccak c seed" "i + x mod (length v - i)" x] True eq by (simp add: swap_at_def)
    also have "\<dots> = (keccak c ^^ Suc (length v - Suc i)) seed" by (simp add: funpow_swap1)
    also have "Suc (length v - Suc i) = length v - i" using True by simp
    finally show ?thesis .
  qed
qed

text \<open>What a client of a shuffle relies on, and what follows for it.\<close>

locale shuffler =
  fixes shuf :: "'seed \<Rightarrow> 'a list \<Rightarrow> ('seed \<times> 'a list) res"
  assumes shuffle_mset: "shuf seed v = Inr (s, w) \<Longrightarrow> mset w = mset v"
begin

lemma shuffle_set: "shuf seed v = Inr (s, w) \<Longrightarrow> set w = set v"
  using shuffle_mset by (metis set_mset_mset)

lemma shuffle_length: "shuf seed v = Inr (s, w) \<Longrightarrow> length w = length v"
  using shuffle_mset by (metis size_mset)

lemma shuffle_distinct: "shuf seed v = Inr (s, w) \<Longrightarrow> distinct w = distinct v"
  using shuffle_mset by (metis mset_eq_imp_distinct_iff)

end

interpretation gen: shuffler "shuffle c" for c
  by unfold_locales (simp add: shuffle_def shuffle_loop_perm)

section \<open>Lemmas: validator transactions\<close>

lemma getTxValidatorFunction_iff:
  "getTxValidatorFunction tx = RANDOMHASH \<longleftrightarrow>
     length (tv_data tx) = 36 \<and> take 4 (tv_data tx) = randomHashHash"
  "getTxValidatorFunction tx = RANDOMSEED \<longleftrightarrow>
     length (tv_data tx) = 36 \<and> take 4 (tv_data tx) = randomSeedHash"
  by (auto simp: getTxValidatorFunction_def getFunctor_def subspan_def randomHashHash_def randomSeedHash_def)

lemma length_parseTxSeedList: "hash_ok c \<Longrightarrow> length (parseTxSeedList c txs) = 32"
  by (simp add: parseTxSeedList_def hash_ok_def)

section \<open>Properties\<close>

text \<open>
  Claim C29. The shuffle terminates without an exception whatever the seed and the vector, when the hash
  function gives 32 bytes; the result is a permutation, and the seed it leaves is the old one
  hashed once for each position.
\<close>
theorem shuffle_returns_permutation:
  assumes "hash_ok c"
  shows "\<exists>w. shuffle c seed v = Inr ((keccak c ^^ length v) seed, w) \<and> mset w = mset v"
proof -
  obtain s w where sw: "shuffle_loop c 0 seed v = Inr (s, w)"
    using shuffle_loop_total[OF assms, of 0 seed v] by (metis surj_pair)
  then show ?thesis
    using shuffle_loop_perm[OF sw] shuffle_loop_seed[OF sw] by (simp add: shuffle_def)
qed

theorem shuffle_returns_permutation_witness:
  "\<exists>w. shuffle sample_crypto [] [1, 2, 3 :: nat] = Inr (replicate 32 7, w) \<and> mset w = {#1, 2, 3#}"
  using shuffle_returns_permutation[of sample_crypto "[]" "[1, 2, 3 :: nat]"]
  by (simp add: hash_ok_def sample_keccak eval_nat_numeral add_mset_commute)

end
