(* ===== verification/Block_Codec.thy ===== *)
theory Block_Codec
  imports Randomness Merkle_Tree
begin

text \<open>
  Blocks (\<^verbatim>\<open>src/src/utils/block.h\<close>, \<^verbatim>\<open>block.cpp\<close>): building, finalizing, serializing and
  parsing one. A view of the input is the whole byte string and an index into it.
\<close>

section \<open>Definitions: building a block\<close>

record block =
  validatorSig :: bytes
  prevBlockHash :: bytes
  blockRandomness :: bytes
  validatorMerkleRoot :: bytes
  txMerkleRoot :: bytes
  timestamp :: nat
  nHeight :: nat
  txValidators :: "txvalidator list"
  txs :: "txblock list"
  validatorPubKey :: bytes
  finalized :: bool
  block_hash :: bytes

text \<open>The constructor from creation; the members it does not name are zero.\<close>

definition Block_make :: "bytes \<Rightarrow> nat \<Rightarrow> nat \<Rightarrow> block" where
  "Block_make prev ts height =
     \<lparr>validatorSig = replicate 65 0, prevBlockHash = prev, blockRandomness = replicate 32 0,
      validatorMerkleRoot = replicate 32 0, txMerkleRoot = replicate 32 0, timestamp = ts,
      nHeight = height, txValidators = [], txs = [], validatorPubKey = empty_upub,
      finalized = False, block_hash = replicate 32 0\<rparr>"

text \<open>A method that reports failure by its result leaves the block as it was then.\<close>

definition appendTx :: "txblock \<Rightarrow> block \<Rightarrow> bool \<times> block" where
  "appendTx tx b = (if finalized b then (False, b) else (True, b\<lparr>txs := txs b @ [tx]\<rparr>))"

definition appendTxValidator :: "txvalidator \<Rightarrow> block \<Rightarrow> bool \<times> block" where
  "appendTxValidator tx b =
     (if finalized b then (False, b) else (True, b\<lparr>txValidators := txValidators b @ [tx]\<rparr>))"

definition serializeHeader :: "block \<Rightarrow> bytes" where
  "serializeHeader b =
     prevBlockHash b @ blockRandomness b @ validatorMerkleRoot b @ txMerkleRoot b
     @ uint64ToBytes (timestamp b) @ uint64ToBytes (nHeight b)"

definition txRoot :: "crypto \<Rightarrow> txblock list \<Rightarrow> bytes" where
  "txRoot c ts = getRoot (Merkle_make (keccak c) (map tb_hash ts))"

definition txValidatorRoot :: "crypto \<Rightarrow> txvalidator list \<Rightarrow> bytes" where
  "txValidatorRoot c ts = getRoot (Merkle_make (keccak c) (map tv_hash ts))"

definition finalize :: "crypto \<Rightarrow> bytes \<Rightarrow> nat \<Rightarrow> block \<Rightarrow> (bool \<times> block) res" where
  "finalize c privKey newTimestamp b =
     (if finalized b then Inr (False, b)
      else if timestamp b > newTimestamp then Inr (False, b)
      else
        let b = b\<lparr>timestamp := newTimestamp\<rparr>;
            b = b\<lparr>txMerkleRoot := txRoot c (txs b)\<rparr>;
            b = b\<lparr>validatorMerkleRoot := txValidatorRoot c (txValidators b)\<rparr>;
            b = b\<lparr>blockRandomness := parseTxSeedList c (txValidators b)\<rparr>;
            b = b\<lparr>block_hash := keccak c (serializeHeader b)\<rparr> in
        bind_r (secp_sign c (block_hash b) privKey) (\<lambda>sig.
        let b = b\<lparr>validatorSig := sig\<rparr>;
            b = b\<lparr>validatorPubKey := secp_recover c sig (block_hash b)\<rparr> in
        Inr (True, b\<lparr>finalized := True\<rparr>)))"

section \<open>Definitions: serializing\<close>

definition framed :: "bytes \<Rightarrow> bytes" where
  "framed txBytes = uint32ToBytes (length txBytes) @ txBytes"

text \<open>The eight bytes after the header are reserved first and overwritten once the size is known.\<close>

definition serializeBlock :: "block \<Rightarrow> bytes" where
  "serializeBlock b =
     (let ret = validatorSig b @ serializeHeader b;
          loc = length ret;
          ret = ret @ replicate 8 0;
          ret = ret @ concat (map (\<lambda>tx. framed (TxBlock_rlpSerialize True tx)) (txs b));
          ret = take loc ret @ uint64ToBytes (length ret) @ drop (loc + 8) ret
      in ret @ concat (map (\<lambda>tx. framed (TxValidator_rlpSerialize True tx)) (txValidators b)))"

section \<open>Definitions: parsing\<close>

definition u32_at :: "bytes \<Rightarrow> nat \<Rightarrow> nat res" where
  "u32_at bs index = bind_r (subspan bs index 4) bytesToUint32"

text \<open>The two counting loops; every turn moves the index forward inside the input.\<close>

function count_frames :: "bytes \<Rightarrow> nat \<Rightarrow> nat \<Rightarrow> nat \<Rightarrow> nat res" where
  "count_frames bs stop index n =
     (if index < stop
      then (case u32_at bs index of
              Inl e \<Rightarrow> Inl e
            | Inr txSize \<Rightarrow> count_frames bs stop (index + txSize + 4) (Suc n))
      else Inr n)"
  by pat_completeness auto
termination
  by (relation "measure (\<lambda>(bs, stop, index, n). stop - index)") auto

declare count_frames.simps [simp del]

text \<open>One transaction: its size, then its bytes.\<close>

definition frame_at :: "bytes \<Rightarrow> nat \<Rightarrow> (bytes \<times> nat) res" where
  "frame_at bs index =
     bind_r (u32_at bs index) (\<lambda>txSize.
     bind_r (subspan bs (index + 4) txSize) (\<lambda>b. Inr (b, index + 4 + txSize)))"

fun parse_txs :: "crypto \<Rightarrow> bytes \<Rightarrow> nat \<Rightarrow> nat \<Rightarrow> txblock list res" where
  "parse_txs c bs index 0 = Inr []"
| "parse_txs c bs index (Suc n) =
     bind_r (frame_at bs index) (\<lambda>(b, index').
     bind_r (TxBlock_parse c b) (\<lambda>tx.
     bind_r (parse_txs c bs index' n) (\<lambda>ts. Inr (tx # ts))))"

text \<open>
  Above 2000 transactions the work is split over four asynchronous tasks, the last of which
  takes the remainder. The offset of the next task is found by skipping over the sizes.
\<close>

definition txs_per_thr :: "nat \<Rightarrow> nat list" where
  "txs_per_thr txCount = (let q = txCount div 4 in [q, q, q, q + txCount mod 4])"

fun skip_frames :: "bytes \<Rightarrow> nat \<Rightarrow> nat \<Rightarrow> nat res" where
  "skip_frames bs off 0 = Inr off"
| "skip_frames bs off (Suc n) = bind_r (u32_at bs off) (\<lambda>len. skip_frames bs (off + len + 4) n)"

fun task_starts :: "bytes \<Rightarrow> nat \<Rightarrow> nat list \<Rightarrow> (nat \<times> nat) list res" where
  "task_starts bs off [] = Inr []"
| "task_starts bs off [n] = Inr [(off, n)]"
| "task_starts bs off (n # m # ns) =
     bind_r (skip_frames bs off n) (\<lambda>off'.
     bind_r (task_starts bs off' (m # ns)) (\<lambda>ts. Inr ((off, n) # ts)))"

text \<open>
  The results are collected in order, and the first exception is rethrown; an undefined
  execution of any task is one of the whole.
\<close>

fun collect :: "'a list res list \<Rightarrow> 'a list res" where
  "collect [] = Inr []"
| "collect (r # rs) = bind_r r (\<lambda>xs. bind_r (collect rs) (\<lambda>ys. Inr (xs @ ys)))"

definition join_tasks :: "'a list res list \<Rightarrow> 'a list res" where
  "join_tasks rs =
     (if list_ex (\<lambda>r. case r of Inl e \<Rightarrow> e = UndefinedBehaviour | Inr _ \<Rightarrow> False) rs
      then Inl UndefinedBehaviour else collect rs)"

definition parse_txs_threaded :: "crypto \<Rightarrow> bytes \<Rightarrow> nat \<Rightarrow> nat \<Rightarrow> txblock list res" where
  "parse_txs_threaded c bs index txCount =
     bind_r (task_starts bs index (txs_per_thr txCount)) (\<lambda>tasks.
     join_tasks (map (\<lambda>(start, n). parse_txs c bs start n) tasks))"

fun parse_validators :: "crypto \<Rightarrow> nat \<Rightarrow> nat \<Rightarrow> bytes \<Rightarrow> nat \<Rightarrow> nat \<Rightarrow> txvalidator list res" where
  "parse_validators c junk height bs index 0 = Inr []"
| "parse_validators c junk height bs index (Suc n) =
     bind_r (frame_at bs index) (\<lambda>(b, index').
     bind_r (TxValidator_parse c junk b) (\<lambda>tx.
     bind_r (throw_if (tv_nHeight tx \<noteq> height) (DynamicException ''Invalid validator tx height'')) (\<lambda>_.
     bind_r (parse_validators c junk height bs index' n) (\<lambda>ts. Inr (tx # ts)))))"

definition sig_r :: "crypto \<Rightarrow> bytes \<Rightarrow> nat res" where
  "sig_r c sig = bytesToUint256 (import_bits c) (take 32 sig)"

definition sig_s :: "crypto \<Rightarrow> bytes \<Rightarrow> nat res" where
  "sig_s c sig = bytesToUint256 (import_bits c) (take 32 (drop 32 sig))"

definition sig_v :: "bytes \<Rightarrow> nat res" where
  "sig_v sig = bytesToUint8 (take 1 (drop 64 sig))"

text \<open>The end of the constructor: Merkle roots, randomness, hash, signature and public key.\<close>

definition Block_sanity :: "crypto \<Rightarrow> block \<Rightarrow> block res" where
  "Block_sanity c b =
     bind_r (throw_if (txRoot c (txs b) \<noteq> txMerkleRoot b)
       (DynamicException ''Invalid tx merkle root'')) (\<lambda>_.
     bind_r (throw_if (txValidatorRoot c (txValidators b) \<noteq> validatorMerkleRoot b)
       (DynamicException ''Invalid validator merkle root'')) (\<lambda>_.
     bind_r (throw_if (parseTxSeedList c (txValidators b) \<noteq> blockRandomness b)
       (DynamicException ''Invalid block randomness'')) (\<lambda>_.
     let b = b\<lparr>block_hash := keccak c (serializeHeader b)\<rparr> in
     bind_r (sig_r c (validatorSig b)) (\<lambda>r.
     bind_r (sig_s c (validatorSig b)) (\<lambda>s.
     bind_r (sig_v (validatorSig b)) (\<lambda>v.
     bind_r (throw_if (\<not> verifySig r s v) (DynamicException ''Invalid validator signature'')) (\<lambda>_.
     let b = b\<lparr>validatorPubKey := secp_recover c (validatorSig b) (block_hash b)\<rparr> in
     Inr (b\<lparr>finalized := True\<rparr>))))))))"

definition Block_parse_body :: "crypto \<Rightarrow> nat \<Rightarrow> bytes \<Rightarrow> block res" where
  "Block_parse_body c junk bs =
     bind_r (throw_if (length bs < 217) (DynamicException ''Invalid block size - too short'')) (\<lambda>_.
     bind_r (subspan bs 0 65) (\<lambda>sig.
     bind_r (subspan bs 65 32) (\<lambda>prev.
     bind_r (subspan bs 97 32) (\<lambda>rnd.
     bind_r (subspan bs 129 32) (\<lambda>vroot.
     bind_r (subspan bs 161 32) (\<lambda>troot.
     bind_r (bind_r (subspan bs 193 8) bytesToUint64) (\<lambda>ts.
     bind_r (bind_r (subspan bs 201 8) bytesToUint64) (\<lambda>height.
     bind_r (bind_r (subspan bs 209 8) bytesToUint64) (\<lambda>txValidatorStart.
     bind_r (count_frames bs txValidatorStart 217 0) (\<lambda>txCount.
     bind_r (count_frames bs (length bs) txValidatorStart 0) (\<lambda>valTxCount.
     bind_r (if txCount \<le> 2000 then parse_txs c bs 217 txCount
             else parse_txs_threaded c bs 217 txCount) (\<lambda>blockTxs.
     bind_r (parse_validators c junk height bs txValidatorStart valTxCount) (\<lambda>valTxs.
     Block_sanity c
       \<lparr>validatorSig = sig, prevBlockHash = prev, blockRandomness = rnd, validatorMerkleRoot = vroot,
        txMerkleRoot = troot, timestamp = ts, nHeight = height, txValidators = valTxs, txs = blockTxs,
        validatorPubKey = empty_upub, finalized = False, block_hash = replicate 32 0\<rparr>)))))))))))))"

text \<open>The \<^verbatim>\<open>try\<close> block: every exception leaves as a \<^verbatim>\<open>DynamicException\<close>.\<close>

definition Block_parse :: "crypto \<Rightarrow> nat \<Rightarrow> bytes \<Rightarrow> block res" where
  "Block_parse c junk bs =
     (case Block_parse_body c junk bs of
        Inl UndefinedBehaviour \<Rightarrow> Inl UndefinedBehaviour
      | Inl e \<Rightarrow> Inl (DynamicException ''Block'')
      | Inr b \<Rightarrow> Inr b)"

section \<open>Lemmas: frames\<close>

lemma length_uint32ToBytes [simp]: "length (uint32ToBytes i) = 4"
  by (simp add: uint32ToBytes_def)

lemma bytesToUint32_frame: "n < 2 ^ 32 \<Longrightarrow> bytesToUint32 (uint32ToBytes n) = Inr n"
  by (simp add: bytesToUint32_def bswap_le_load) (simp add: uint32ToBytes_def be_val_rev_le_image)

lemma u32_at_framed:
  assumes "length x < 2 ^ 32"
  shows "u32_at (pre @ framed x @ post) (length pre) = Inr (length x)"
  using subspan_mid[of pre "length pre" "uint32ToBytes (length x)" 4 "x @ post"]
    bytesToUint32_frame[OF assms] by (simp add: u32_at_def framed_def)

lemma frame_at_framed:
  assumes "length x < 2 ^ 32"
  shows "frame_at (pre @ framed x @ post) (length pre) = Inr (x, length (pre @ framed x))"
  using u32_at_framed[OF assms, of pre post]
    subspan_mid[of "pre @ uint32ToBytes (length x)" "length pre + 4" x "length x" post]
  by (simp add: frame_at_def framed_def)

lemma length_framed [simp]: "length (framed x) = length x + 4"
  by (simp add: framed_def)

lemma count_frames_framed:
  assumes "\<forall>x\<in>set xs. length x < 2 ^ 32"
  shows "count_frames (pre @ concat (map framed xs) @ post)
      (length pre + length (concat (map framed xs))) (length pre) n = Inr (n + length xs)"
  using assms
proof (induction xs arbitrary: pre n)
  case Nil
  then show ?case by (simp add: count_frames.simps)
next
  case (Cons x xs)
  have "count_frames (pre @ framed x @ concat (map framed xs) @ post)
      (length pre + length (framed x) + length (concat (map framed xs))) (length (pre @ framed x)) (Suc n)
      = Inr (Suc n + length xs)"
    using Cons.IH[of "pre @ framed x" "Suc n"] Cons.prems by simp
  moreover have "length x < 2 ^ 32" using Cons.prems by simp
  ultimately show ?case
    using u32_at_framed[of x pre "concat (map framed xs) @ post"]
    by (subst count_frames.simps) (simp add: algebra_simps)
qed

lemma parse_txs_framed:
  assumes "\<forall>t\<in>set ts. length (f t) < 2 ^ 32 \<and> TxBlock_parse c (f t) = Inr t"
  shows "parse_txs c (pre @ concat (map (\<lambda>t. framed (f t)) ts) @ post) (length pre) (length ts) = Inr ts"
  using assms
proof (induction ts arbitrary: pre)
  case (Cons t ts)
  then show ?case
    using frame_at_framed[of "f t" pre "concat (map (\<lambda>t. framed (f t)) ts) @ post"]
      Cons.IH[of "pre @ framed (f t)"] by simp
qed simp

lemma parse_validators_framed:
  assumes "\<forall>t\<in>set ts. length (f t) < 2 ^ 32 \<and> TxValidator_parse c junk (f t) = Inr t \<and> tv_nHeight t = h"
  shows "parse_validators c junk h (pre @ concat (map (\<lambda>t. framed (f t)) ts) @ post) (length pre) (length ts)
    = Inr ts"
  using assms
proof (induction ts arbitrary: pre)
  case (Cons t ts)
  then show ?case
    using frame_at_framed[of "f t" pre "concat (map (\<lambda>t. framed (f t)) ts) @ post"]
      Cons.IH[of "pre @ framed (f t)"] by simp
qed simp

text \<open>Conversely, frames that parse to the transactions they were made from survive one by one.\<close>

lemma parse_txs_framed_iff:
  assumes "\<forall>t\<in>set ts. length (f t) < 2 ^ 32"
  shows "parse_txs c (pre @ concat (map (\<lambda>t. framed (f t)) ts) @ post) (length pre) (length ts) = Inr ts \<longleftrightarrow>
    (\<forall>t\<in>set ts. TxBlock_parse c (f t) = Inr t)"
  using assms
proof (induction ts arbitrary: pre)
  case (Cons t ts)
  then show ?case
    using frame_at_framed[of "f t" pre "concat (map (\<lambda>t. framed (f t)) ts) @ post"]
      Cons.IH[of "pre @ framed (f t)"] by (auto simp: bind_r_eq_Inr)
qed simp

lemma parse_validators_framed_iff:
  assumes "\<forall>t\<in>set ts. length (f t) < 2 ^ 32"
  shows "parse_validators c junk h (pre @ concat (map (\<lambda>t. framed (f t)) ts) @ post) (length pre) (length ts) = Inr ts \<longleftrightarrow>
    (\<forall>t\<in>set ts. TxValidator_parse c junk (f t) = Inr t \<and> tv_nHeight t = h)"
  using assms
proof (induction ts arbitrary: pre)
  case (Cons t ts)
  then show ?case
    using frame_at_framed[of "f t" pre "concat (map (\<lambda>t. framed (f t)) ts) @ post"]
      Cons.IH[of "pre @ framed (f t)"] by (auto simp: bind_r_eq_Inr)
qed simp

section \<open>Lemmas: the threaded parser\<close>

lemma frame_at_u32: "frame_at bs off = Inr (b, off') \<Longrightarrow> \<exists>len. u32_at bs off = Inr len \<and> off' = off + len + 4"
  by (auto simp: frame_at_def bind_r_eq_Inr)

lemma skip_frame_at:
  "frame_at bs off = Inr (b, off1) \<Longrightarrow> skip_frames bs off (Suc n) = skip_frames bs off1 n"
  by (auto dest!: frame_at_u32)

lemma split_step:
  "(\<exists>b off1 t off' xs ys. frame_at bs off = Inr (b, off1) \<and> TxBlock_parse c b = Inr t
       \<and> skip_frames bs off1 n = Inr off' \<and> parse_txs c bs off1 n = Inr xs
       \<and> parse_txs c bs off' m = Inr ys \<and> ts = t # xs @ ys) \<longleftrightarrow>
   (\<exists>off' xs ys. skip_frames bs off (Suc n) = Inr off' \<and> parse_txs c bs off (Suc n) = Inr xs
     \<and> parse_txs c bs off' m = Inr ys \<and> ts = xs @ ys)" (is "?l \<longleftrightarrow> ?r")
proof
  assume ?l
  then obtain b off1 t off' xs ys where l: "frame_at bs off = Inr (b, off1)" "TxBlock_parse c b = Inr t"
    "skip_frames bs off1 n = Inr off'" "parse_txs c bs off1 n = Inr xs"
    "parse_txs c bs off' m = Inr ys" "ts = t # xs @ ys" by blast
  then have "skip_frames bs off (Suc n) = Inr off'" "parse_txs c bs off (Suc n) = Inr (t # xs)"
    using skip_frame_at[OF l(1)] by simp_all
  with l(5,6) show ?r by (metis append_Cons)
next
  assume ?r
  then obtain off' zs ys where r: "skip_frames bs off (Suc n) = Inr off'" "parse_txs c bs off (Suc n) = Inr zs"
    "parse_txs c bs off' m = Inr ys" "ts = zs @ ys" by blast
  from r(2) obtain b off1 t xs where "frame_at bs off = Inr (b, off1)" "TxBlock_parse c b = Inr t"
    "parse_txs c bs off1 n = Inr xs" "zs = t # xs" by (auto simp: bind_r_eq_Inr)
  moreover from this(1) have "skip_frames bs off1 n = Inr off'" using r(1) skip_frame_at by metis
  moreover have "ts = t # xs @ ys" using r(4) \<open>zs = t # xs\<close> by simp
  ultimately show ?l using r(3) by blast
qed

lemma parse_txs_split:
  "parse_txs c bs off (n + m) = Inr ts \<longleftrightarrow>
   (\<exists>off' xs ys. skip_frames bs off n = Inr off' \<and> parse_txs c bs off n = Inr xs
     \<and> parse_txs c bs off' m = Inr ys \<and> ts = xs @ ys)"
proof (induction n arbitrary: off ts)
  case (Suc n)
  have "parse_txs c bs off (Suc n + m) = Inr ts \<longleftrightarrow>
    (\<exists>b off1 t us. frame_at bs off = Inr (b, off1) \<and> TxBlock_parse c b = Inr t
       \<and> parse_txs c bs off1 (n + m) = Inr us \<and> ts = t # us)"
    by (auto simp: bind_r_eq_Inr)
  also have "\<dots> \<longleftrightarrow> (\<exists>b off1 t off' xs ys. frame_at bs off = Inr (b, off1) \<and> TxBlock_parse c b = Inr t
       \<and> skip_frames bs off1 n = Inr off' \<and> parse_txs c bs off1 n = Inr xs
       \<and> parse_txs c bs off' m = Inr ys \<and> ts = t # xs @ ys)"
    unfolding Suc.IH by blast
  also have "\<dots> \<longleftrightarrow> (\<exists>off' xs ys. skip_frames bs off (Suc n) = Inr off' \<and> parse_txs c bs off (Suc n) = Inr xs
     \<and> parse_txs c bs off' m = Inr ys \<and> ts = xs @ ys)"
    by (rule split_step)
  finally show ?case .
qed auto

lemma tasks_sequential:
  "ns \<noteq> [] \<Longrightarrow> parse_txs c bs off (sum_list ns) = Inr ts \<longleftrightarrow>
   (\<exists>tasks. task_starts bs off ns = Inr tasks
      \<and> collect (map (\<lambda>(start, n). parse_txs c bs start n) tasks) = Inr ts)"
proof (induction ns arbitrary: off ts rule: list_nonempty_induct)
  case (single n)
  then show ?case by (auto simp: bind_r_eq_Inr)
next
  case (cons n ns)
  then obtain m ms where ns: "ns = m # ms" by (cases ns) auto
  have "parse_txs c bs off (sum_list (n # ns)) = Inr ts \<longleftrightarrow>
    (\<exists>off' xs ys. skip_frames bs off n = Inr off' \<and> parse_txs c bs off n = Inr xs
      \<and> parse_txs c bs off' (sum_list ns) = Inr ys \<and> ts = xs @ ys)"
    using parse_txs_split[of c bs off n "sum_list ns" ts] by simp
  then show ?case
    unfolding cons.IH by (auto simp: ns bind_r_eq_Inr)
qed

lemma collect_all_ok: "collect rs = Inr ts \<Longrightarrow> r \<in> set rs \<Longrightarrow> \<exists>xs. r = Inr xs"
  by (induction rs arbitrary: ts) (auto simp: bind_r_eq_Inr)

lemma collect_no_undefined: "collect rs = Inr ts \<Longrightarrow> join_tasks rs = Inr ts"
  using collect_all_ok by (fastforce simp: join_tasks_def list_ex_iff)

lemma join_tasks_eq: "join_tasks rs = Inr ts \<longleftrightarrow> collect rs = Inr ts"
proof
  assume "join_tasks rs = Inr ts"
  then show "collect rs = Inr ts" unfolding join_tasks_def by (simp split: if_splits)
qed (rule collect_no_undefined)

lemma parse_txs_threaded_eq:
  "parse_txs_threaded c bs index n = Inr ts \<longleftrightarrow> parse_txs c bs index n = Inr ts"
proof -
  have "sum_list (txs_per_thr n) = n" 
    using div_mult_mod_eq[of n 4] unfolding txs_per_thr_def Let_def by (simp only: sum_list.Cons sum_list.Nil)
  then show ?thesis
    using tasks_sequential[of "txs_per_thr n" c bs index ts]
    by (auto simp: parse_txs_threaded_def bind_r_eq_Inr join_tasks_eq txs_per_thr_def Let_def)
qed

section \<open>Lemmas: the layout of a block\<close>

lemma newLayer_all: "(\<And>x. length (h x) = 32) \<Longrightarrow> \<forall>y\<in>set ys. length y = 32 \<Longrightarrow> \<forall>y\<in>set (newLayer h ys). length y = 32"
  by (induction h ys rule: newLayer.induct) auto

lemma getRoot_length:
  assumes "\<And>x. length (h x) = 32"
  shows "\<forall>y\<in>set ys. length y = 32 \<Longrightarrow> length (getRoot (layers_from h ys)) = 32"
  using assms
proof (induction h ys rule: layers_from.induct)
  case (1 h ys)
  show ?case
  proof (cases "1 < length ys")
    case True
    then show ?thesis using "1.IH"[OF True newLayer_all[of h ys]] "1.prems" by (simp add: getRoot_step)
  next
    case False
    then have "layers_from h ys = [ys]" by (subst layers_from.simps) simp
    then show ?thesis using "1.prems" by (cases ys) (simp_all add: getRoot_def)
  qed
qed

lemma length_roots:
  assumes "hash_ok c"
  shows "length (txRoot c ts) = 32" "length (txValidatorRoot c vs) = 32"
  using assms unfolding txRoot_def txValidatorRoot_def Merkle_make_def hash_ok_def
  by (auto intro!: getRoot_length)

definition block_frames :: "block \<Rightarrow> bytes" where
  "block_frames b = concat (map (\<lambda>tx. framed (TxBlock_rlpSerialize True tx)) (txs b))"

definition validator_frames :: "block \<Rightarrow> bytes" where
  "validator_frames b = concat (map (\<lambda>tx. framed (TxValidator_rlpSerialize True tx)) (txValidators b))"

text \<open>A block whose fixed-size fields have their sizes and whose integers fit 64 bits.\<close>

definition block_sized :: "block \<Rightarrow> bool" where
  "block_sized b \<longleftrightarrow> length (validatorSig b) = 65 \<and> length (prevBlockHash b) = 32
     \<and> length (blockRandomness b) = 32 \<and> length (validatorMerkleRoot b) = 32
     \<and> length (txMerkleRoot b) = 32 \<and> timestamp b < 2 ^ 64 \<and> nHeight b < 2 ^ 64"

lemma serializeBlock_layout:
  assumes "block_sized b"
  shows "serializeBlock b = validatorSig b @ prevBlockHash b @ blockRandomness b @ validatorMerkleRoot b
    @ txMerkleRoot b @ uint64ToBytes (timestamp b) @ uint64ToBytes (nHeight b)
    @ uint64ToBytes (217 + length (block_frames b)) @ block_frames b @ validator_frames b"
  using assms
  by (simp add: block_sized_def serializeBlock_def serializeHeader_def block_frames_def[symmetric]
    validator_frames_def[symmetric] Let_def add.commute)

lemma bytesToUint64_u64: "n < 2 ^ 64 \<Longrightarrow> bytesToUint64 (uint64ToBytes n) = Inr n"
  using uint64_roundtrip[of n] by simp

lemma block_fields:
  fixes b :: block and bs :: bytes
  assumes "block_sized b" and bs: "bs = serializeBlock b"
  shows "subspan bs 0 65 = Inr (validatorSig b)" "subspan bs 65 32 = Inr (prevBlockHash b)"
    "subspan bs 97 32 = Inr (blockRandomness b)" "subspan bs 129 32 = Inr (validatorMerkleRoot b)"
    "subspan bs 161 32 = Inr (txMerkleRoot b)" "subspan bs 193 8 = Inr (uint64ToBytes (timestamp b))"
    "subspan bs 201 8 = Inr (uint64ToBytes (nHeight b))"
    "subspan bs 209 8 = Inr (uint64ToBytes (217 + length (block_frames b)))"
    "length bs = 217 + length (block_frames b) + length (validator_frames b)"
  using assms(1) unfolding bs serializeBlock_layout[OF assms(1)]
  by (simp_all add: block_sized_def subspan_def)

definition block_head :: "block \<Rightarrow> bytes" where
  "block_head b = take 217 (serializeBlock b)"

lemma block_split:
  assumes "block_sized b"
  shows "serializeBlock b = block_head b @ block_frames b @ validator_frames b" "length (block_head b) = 217"
proof -
  have "drop 217 (serializeBlock b) = block_frames b @ validator_frames b"
    using assms unfolding serializeBlock_layout[OF assms] by (simp add: block_sized_def)
  then show "serializeBlock b = block_head b @ block_frames b @ validator_frames b"
    unfolding block_head_def by (metis append_take_drop_id)
  show "length (block_head b) = 217"
    using block_fields(9)[OF assms refl] by (simp add: block_head_def)
qed

text \<open>Every transaction of the block survives its own round trip.\<close>

definition txs_wire_ok :: "crypto \<Rightarrow> nat \<Rightarrow> block \<Rightarrow> bool" where
  "txs_wire_ok c junk b \<longleftrightarrow>
     list_all (\<lambda>tx. length (TxBlock_rlpSerialize True tx) < 2 ^ 32
       \<and> TxBlock_parse c (TxBlock_rlpSerialize True tx) = Inr tx) (txs b)
     \<and> list_all (\<lambda>tv. length (TxValidator_rlpSerialize True tv) < 2 ^ 32
       \<and> TxValidator_parse c junk (TxValidator_rlpSerialize True tv) = Inr tv
       \<and> tv_nHeight tv = nHeight b) (txValidators b)"

text \<open>The part of it that only says that the size of each transaction fits its field.\<close>

definition txs_sized :: "block \<Rightarrow> bool" where
  "txs_sized b \<longleftrightarrow> list_all (\<lambda>tx. length (TxBlock_rlpSerialize True tx) < 2 ^ 32) (txs b)
     \<and> list_all (\<lambda>tv. length (TxValidator_rlpSerialize True tv) < 2 ^ 32) (txValidators b)"

lemma txs_wire_sized: "txs_wire_ok c junk b \<Longrightarrow> txs_sized b"
  by (simp add: txs_wire_ok_def txs_sized_def list_all_iff)

lemma block_counts:
  assumes "block_sized b" "txs_sized b" and bs: "bs = serializeBlock b"
  shows "count_frames bs (217 + length (block_frames b)) 217 0 = Inr (length (txs b))"
    and "count_frames bs (length bs) (217 + length (block_frames b)) 0 = Inr (length (txValidators b))"
proof -
  note sp = block_split[OF assms(1)]
  have "\<forall>x\<in>set (map (TxBlock_rlpSerialize True) (txs b)). length x < 2 ^ 32"
    "\<forall>x\<in>set (map (TxValidator_rlpSerialize True) (txValidators b)). length x < 2 ^ 32"
    using assms(2) by (auto simp: txs_sized_def list_all_iff)
  note c1 = count_frames_framed[OF this(1), of "block_head b" "validator_frames b" 0]
    and c2 = count_frames_framed[OF this(2), of "block_head b @ block_frames b" "[]" 0]
  show "count_frames bs (217 + length (block_frames b)) 217 0 = Inr (length (txs b))"
    using c1 sp unfolding bs by (simp add: block_frames_def comp_def)
  show "count_frames bs (length bs) (217 + length (block_frames b)) 0 = Inr (length (txValidators b))"
    using c2 sp block_fields(9)[OF assms(1) refl] unfolding bs by (simp add: validator_frames_def comp_def add.assoc)
qed

lemma block_txs_parsed:
  assumes "block_sized b" "txs_wire_ok c junk b" and bs: "bs = serializeBlock b"
  shows "parse_txs c bs 217 (length (txs b)) = Inr (txs b)"
    and "parse_txs_threaded c bs 217 (length (txs b)) = Inr (txs b)"
    and "parse_validators c junk (nHeight b) bs (217 + length (block_frames b)) (length (txValidators b))
      = Inr (txValidators b)"
proof -
  note sp = block_split[OF assms(1)]
  show seq: "parse_txs c bs 217 (length (txs b)) = Inr (txs b)"
    using parse_txs_framed[of "txs b" "TxBlock_rlpSerialize True" c "block_head b" "validator_frames b"]
      assms(2) sp unfolding bs by (simp add: txs_wire_ok_def list_all_iff block_frames_def)
  then show "parse_txs_threaded c bs 217 (length (txs b)) = Inr (txs b)"
    by (simp add: parse_txs_threaded_eq)
  show "parse_validators c junk (nHeight b) bs (217 + length (block_frames b)) (length (txValidators b))
      = Inr (txValidators b)"
    using parse_validators_framed[of "txValidators b" "TxValidator_rlpSerialize True" c junk "nHeight b"
        "block_head b @ block_frames b" "[]"] assms(2) sp
    unfolding bs by (simp add: txs_wire_ok_def list_all_iff validator_frames_def)
qed

text \<open>So parsing a serialized block comes down to the checks at the end of the constructor.\<close>

lemma Block_parse_body_ser:
  assumes "block_sized b" "txs_wire_ok c junk b" "217 + length (block_frames b) < 2 ^ 64"
  shows "Block_parse_body c junk (serializeBlock b) = Block_sanity c
    (b\<lparr>validatorPubKey := empty_upub, finalized := False, block_hash := replicate 32 0\<rparr>)"
proof -
  note f = block_fields[OF assms(1) refl] and n = block_counts[OF assms(1) txs_wire_sized[OF assms(2)] refl]
    and t = block_txs_parsed[OF assms(1,2) refl]
  have u: "timestamp b < 2 ^ 64" "nHeight b < 2 ^ 64" using assms(1) by (simp_all add: block_sized_def)
  have "\<not> length (serializeBlock b) < 217" using f(9) by simp
  then show ?thesis
    unfolding Block_parse_body_def f(1-8) bind_r_Inr n bytesToUint64_u64[OF u(1)] bytesToUint64_u64[OF u(2)]
      bytesToUint64_u64[OF assms(3)] t
    by (cases b) simp
qed


text \<open>The end of the constructor keeps the transactions, so a block that comes back had them parsed.\<close>

lemma Block_sanity_txs: "Block_sanity c x = Inr b \<Longrightarrow> txs b = txs x \<and> txValidators b = txValidators x"
  by (auto simp: Block_sanity_def Let_def bind_r_eq_Inr)

lemma Block_parse_body_survive:
  assumes "block_sized b" "txs_sized b" "217 + length (block_frames b) < 2 ^ 64"
    and "Block_parse_body c junk (serializeBlock b) = Inr b"
  shows "txs_wire_ok c junk b"
proof -
  let ?bs = "serializeBlock b"
  note sp = block_split[OF assms(1)] and f = block_fields[OF assms(1) refl] and n = block_counts[OF assms(1,2) refl]
  have u: "timestamp b < 2 ^ 64" "nHeight b < 2 ^ 64" using assms(1) by (simp_all add: block_sized_def)
  have sz: "\<forall>t\<in>set (txs b). length (TxBlock_rlpSerialize True t) < 2 ^ 32"
    "\<forall>t\<in>set (txValidators b). length (TxValidator_rlpSerialize True t) < 2 ^ 32"
    using assms(2) by (simp_all add: txs_sized_def list_all_iff)
  have thr: "parse_txs_threaded c ?bs 217 (length (txs b)) = Inr ts \<longleftrightarrow> parse_txs c ?bs 217 (length (txs b)) = Inr ts" for ts
    by (rule parse_txs_threaded_eq)
  have "parse_txs c ?bs 217 (length (txs b)) = Inr (txs b)"
    "parse_validators c junk (nHeight b) ?bs (217 + length (block_frames b)) (length (txValidators b)) = Inr (txValidators b)"
    using assms(4) unfolding Block_parse_body_def f(1-8) bind_r_Inr n bytesToUint64_u64[OF u(1)] bytesToUint64_u64[OF u(2)]
      bytesToUint64_u64[OF assms(3)]
    by (auto simp: bind_r_eq_Inr thr dest!: Block_sanity_txs split: if_splits)
  then show ?thesis
    using sz sp parse_txs_framed_iff[OF sz(1), of c "block_head b" "validator_frames b"]
      parse_validators_framed_iff[OF sz(2), of c junk "nHeight b" "block_head b @ block_frames b" "[]"]
    by (simp add: txs_wire_ok_def list_all_iff block_frames_def validator_frames_def)
qed

section \<open>Lemmas: finalized blocks\<close>

text \<open>The signature of the block is in the range that the parser demands.\<close>

definition block_sig_ok :: "crypto \<Rightarrow> block \<Rightarrow> bool" where
  "block_sig_ok c b = (case (sig_r c (validatorSig b), sig_s c (validatorSig b), sig_v (validatorSig b)) of
     (Inr r, Inr s, Inr v) \<Rightarrow> verifySig r s v | _ \<Rightarrow> False)"

lemma serializeHeader_upd [simp]:
  "serializeHeader (b\<lparr>validatorSig := x1\<rparr>) = serializeHeader b"
  "serializeHeader (b\<lparr>validatorPubKey := x2\<rparr>) = serializeHeader b"
  "serializeHeader (b\<lparr>finalized := x3\<rparr>) = serializeHeader b"
  "serializeHeader (b\<lparr>block_hash := x4\<rparr>) = serializeHeader b"
  by (simp_all add: serializeHeader_def)

lemma finalize_facts:
  assumes "bits_ok c" "finalize c k t b0 = Inr (True, b)"
  shows "\<not> finalized b0" "timestamp b0 \<le> t" "timestamp b = t" "finalized b"
    "txs b = txs b0" "txValidators b = txValidators b0" "nHeight b = nHeight b0"
    "prevBlockHash b = prevBlockHash b0"
    "txMerkleRoot b = txRoot c (txs b)" "validatorMerkleRoot b = txValidatorRoot c (txValidators b)"
    "blockRandomness b = parseTxSeedList c (txValidators b)"
    "block_hash b = keccak c (serializeHeader b)"
    "validatorPubKey b = secp_recover c (validatorSig b) (block_hash b)"
    "length (validatorSig b) = 65"
proof -
  from assms(2) obtain sig h where sig: "secp_sign c h k = Inr sig" and b: "validatorSig b = sig"
    and rest: "\<not> finalized b0" "timestamp b0 \<le> t" "timestamp b = t" "finalized b"
    "txs b = txs b0" "txValidators b = txValidators b0" "nHeight b = nHeight b0"
    "prevBlockHash b = prevBlockHash b0"
    "txMerkleRoot b = txRoot c (txs b)" "validatorMerkleRoot b = txValidatorRoot c (txValidators b)"
    "blockRandomness b = parseTxSeedList c (txValidators b)"
    "block_hash b = keccak c (serializeHeader b)"
    "validatorPubKey b = secp_recover c (validatorSig b) (block_hash b)"
    by (auto simp: finalize_def Let_def bind_r_eq_Inr split: if_splits)
  have "length sig = 65" using secp_sign_shape[OF assms(1) sig] makeSig_parts(4)[OF assms(1)] by auto
  with b show "length (validatorSig b) = 65" by simp
qed (use assms(2) in \<open>auto simp: finalize_def Let_def bind_r_eq_Inr split: if_splits\<close>)

lemma finalized_sized:
  assumes "bits_ok c" "hash_ok c" "finalize c k t b0 = Inr (True, b)"
    and "length (prevBlockHash b0) = 32" "nHeight b0 < 2 ^ 64" "t < 2 ^ 64"
  shows "block_sized b"
  using finalize_facts[OF assms(1,3)] assms(4-6) length_roots[OF assms(2)] length_parseTxSeedList[OF assms(2)]
  by (simp add: block_sized_def)

lemma Block_sanity_finalized:
  assumes "bits_ok c" "finalize c k t b0 = Inr (True, b)"
  shows "Block_sanity c (b\<lparr>validatorPubKey := empty_upub, finalized := False, block_hash := replicate 32 0\<rparr>)
    = Inr b \<longleftrightarrow> block_sig_ok c b"
proof -
  note f = finalize_facts[OF assms]
  let ?b = "b\<lparr>validatorPubKey := empty_upub, finalized := False, block_hash := replicate 32 0\<rparr>"
  have "b\<lparr>block_hash := keccak c (serializeHeader b),
      validatorPubKey := secp_recover c (validatorSig b) (keccak c (serializeHeader b)), finalized := True\<rparr>
      = b\<lparr>block_hash := block_hash b, validatorPubKey := validatorPubKey b, finalized := finalized b\<rparr>"
    by (simp only: f(4,12,13))
  then have self: "b\<lparr>block_hash := keccak c (serializeHeader b),
      validatorPubKey := secp_recover c (validatorSig b) (keccak c (serializeHeader b)), finalized := True\<rparr> = b"
    by simp
  have "Block_sanity c ?b = bind_r (sig_r c (validatorSig b)) (\<lambda>r. bind_r (sig_s c (validatorSig b)) (\<lambda>s.
      bind_r (sig_v (validatorSig b)) (\<lambda>v. bind_r (throw_if (\<not> verifySig r s v)
        (DynamicException ''Invalid validator signature'')) (\<lambda>_. Inr b))))"
    using f(9,10,11) by (simp add: Block_sanity_def Let_def self)
  then show ?thesis
    by (auto simp: block_sig_ok_def bind_r_eq_Inr split: sum.splits)
qed

lemma Block_parse_eq_Inr: "Block_parse c junk bs = Inr b \<longleftrightarrow> Block_parse_body c junk bs = Inr b"
  by (auto simp: Block_parse_def split: sum.splits cpp_error.splits)

lemma Block_parse_serialize:
  assumes "bits_ok c" "hash_ok c" "finalize c k t b0 = Inr (True, b)"
    and "length (prevBlockHash b0) = 32" "nHeight b0 < 2 ^ 64" "t < 2 ^ 64"
    and "txs_wire_ok c junk b" "217 + length (block_frames b) < 2 ^ 64"
  shows "Block_parse c junk (serializeBlock b) = Inr b \<longleftrightarrow> block_sig_ok c b"
  unfolding Block_parse_eq_Inr Block_parse_body_ser[OF finalized_sized[OF assms(1-6)] assms(7,8)]
  by (rule Block_sanity_finalized[OF assms(1,3)])

section \<open>Properties\<close>

definition sample_block :: block where
  "sample_block = \<lparr>validatorSig = makeSig sample_crypto 2 2 0, prevBlockHash = replicate 32 3,
     blockRandomness = replicate 32 0, validatorMerkleRoot = replicate 32 0,
     txMerkleRoot = replicate 32 7, timestamp = 9, nHeight = 1, txValidators = [],
     txs = [sample_tx\<lparr>tb_r := 2, tb_s := 2, tb_hash := replicate 32 7\<rparr>],
     validatorPubKey = replicate 65 4, finalized = True, block_hash = replicate 32 7\<rparr>"

lemma sample_block_finalized:
  "finalize sample_crypto [] 9 (snd (appendTx (sample_tx\<lparr>tb_r := 2, tb_s := 2, tb_hash := replicate 32 7\<rparr>)
     (Block_make (replicate 32 3) 0 1))) = Inr (True, sample_block)"
  by (simp add: finalize_def appendTx_def Block_make_def sample_facts txRoot_def txValidatorRoot_def
      Merkle_make_def layers_from.simps getRoot_def parseTxSeedList_def Let_def sample_block_def)

lemma sample_block_ok:
  "hash_ok sample_crypto" "txs_wire_ok sample_crypto 0 sample_block" "block_sig_ok sample_crypto sample_block"
proof -
  show "hash_ok sample_crypto" by (simp add: hash_ok_def sample_keccak)
  have p: "TxBlock_parse sample_crypto (TxBlock_rlpSerialize True (sample_tx\<lparr>tb_r := 2, tb_s := 2, tb_hash := replicate 32 7\<rparr>))
    = Inr (sample_tx\<lparr>tb_r := 2, tb_s := 2, tb_hash := replicate 32 7\<rparr>)"
    by (rule TxBlock_parse_signed[OF sample_crypto_ok(1) sample_tx_signed sample_tx_size(1) sample_crypto_ok(3)])
      (simp_all add: sample_tx_size(2), simp_all add: sample_tx_def)
  have "length (tb_to (sample_tx\<lparr>tb_r := 2, tb_s := 2, tb_hash := replicate 32 7\<rparr>)) = 20"
    by (simp add: sample_tx_def)
  from TxBlock_serialize_body[OF this] length_TxBlock_body[OF this]
  have "length (TxBlock_rlpSerialize True (sample_tx\<lparr>tb_r := 2, tb_s := 2, tb_hash := replicate 32 7\<rparr>)) < 2 ^ 32"
    by (simp add: sample_tx_size(2) ser_head_def bytesRequired_step)
  with p show "txs_wire_ok sample_crypto 0 sample_block"
    by (simp add: txs_wire_ok_def sample_block_def)
  have "sig_v (makeSig sample_crypto 2 2 0) = Inr 0"
    using makeSig_parts(3,4)[OF sample_crypto_ok(1), of 2 2 0]
    by (simp add: sig_v_def bytesToUint8_def)
  then show "block_sig_ok sample_crypto sample_block"
    by (simp add: block_sig_ok_def sample_block_def sig_r_def sig_s_def sample_facts)
qed

lemma sample_block_length: "217 + length (block_frames sample_block) < 2 ^ 64"
proof -
  have "length (tb_to (sample_tx\<lparr>tb_r := 2, tb_s := 2, tb_hash := replicate 32 7\<rparr>)) = 20"
    by (simp add: sample_tx_def)
  from TxBlock_serialize_body[OF this] length_TxBlock_body[OF this]
  show ?thesis
    by (simp add: block_frames_def sample_block_def sample_tx_size(2) ser_head_def bytesRequired_step)
qed

text \<open>
  Claim C6. A block that \<^verbatim>\<open>finalize\<close> accepted and whose sizes fit their fields is serialized and parsed
  back to the very same block exactly when every transaction in it survives its own serialization
  and parsing, the validator transactions are for the height of the block, and its signature is
  in the range that \<^verbatim>\<open>verifySig\<close> accepts; this holds for any number of transactions, so also for
  the parser that splits them over four tasks. \<^verbatim>\<open>finalize\<close> checks none of the three.
\<close>
theorem block_roundtrip_iff:
  assumes "bits_ok c" "hash_ok c" "finalize c k t b0 = Inr (True, b)"
    and "length (prevBlockHash b0) = 32" "nHeight b0 < 2 ^ 64" "t < 2 ^ 64"
    and "txs_sized b" "217 + length (block_frames b) < 2 ^ 64"
  shows "Block_parse c junk (serializeBlock b) = Inr b \<longleftrightarrow>
    (\<forall>tx\<in>set (txs b). TxBlock_parse c (TxBlock_rlpSerialize True tx) = Inr tx)
    \<and> (\<forall>tv\<in>set (txValidators b). TxValidator_parse c junk (TxValidator_rlpSerialize True tv) = Inr tv
         \<and> tv_nHeight tv = nHeight b)
    \<and> block_sig_ok c b"
proof -
  note sized = finalized_sized[OF assms(1-6)]
  have wire: "txs_wire_ok c junk b \<longleftrightarrow> (\<forall>tx\<in>set (txs b). TxBlock_parse c (TxBlock_rlpSerialize True tx) = Inr tx)
      \<and> (\<forall>tv\<in>set (txValidators b). TxValidator_parse c junk (TxValidator_rlpSerialize True tv) = Inr tv
           \<and> tv_nHeight tv = nHeight b)"
    using assms(7) by (auto simp: txs_wire_ok_def txs_sized_def list_all_iff)
  have "Block_parse c junk (serializeBlock b) = Inr b \<Longrightarrow> txs_wire_ok c junk b"
    unfolding Block_parse_eq_Inr by (rule Block_parse_body_survive[OF sized assms(7,8)])
  moreover have "Block_parse c junk (serializeBlock b) = Inr b \<longleftrightarrow> block_sig_ok c b" if "txs_wire_ok c junk b"
    by (rule Block_parse_serialize[OF assms(1-6) that assms(8)])
  ultimately have "Block_parse c junk (serializeBlock b) = Inr b \<longleftrightarrow> txs_wire_ok c junk b \<and> block_sig_ok c b" by blast
  then show ?thesis by (simp only: wire conj_assoc)
qed

theorem block_roundtrip_iff_witness:
  "Block_parse sample_crypto 0 (serializeBlock sample_block) = Inr sample_block"
proof -
  let ?b0 = "snd (appendTx (sample_tx\<lparr>tb_r := 2, tb_s := 2, tb_hash := replicate 32 7\<rparr>) (Block_make (replicate 32 3) 0 1))"
  have b: "length (prevBlockHash ?b0) = 32" "nHeight ?b0 < 2 ^ 64" "(9 :: nat) < 2 ^ 64"
    by (simp_all add: appendTx_def Block_make_def)
  show ?thesis
    using block_roundtrip_iff[OF sample_crypto_ok(1) sample_block_ok(1) sample_block_finalized b
        txs_wire_sized[OF sample_block_ok(2)] sample_block_length, of 0] sample_block_ok(2,3)
    unfolding txs_wire_ok_def list_all_iff by blast
qed

section \<open>Properties: parallel parsing\<close>

text \<open>
  Claim C28. The constructor parses the transactions of a large block in four tasks, each started at the
  offset of its first transaction, and joins them in order. This gives the list that parsing
  them one after the other gives, and it fails exactly when that fails.
\<close>
theorem parallel_parse_equivalent:
  "(\<forall>ts. parse_txs_threaded c bs index n = Inr ts \<longleftrightarrow> parse_txs c bs index n = Inr ts)
   \<and> ((\<exists>e. parse_txs_threaded c bs index n = Inl e) \<longleftrightarrow> (\<exists>e. parse_txs c bs index n = Inl e))"
proof -
  have "(\<exists>e. r = Inl e) \<longleftrightarrow> \<not> (\<exists>ts. r = Inr ts)" for r :: "txblock list res" by (cases r) auto
  then show ?thesis by (simp only: parse_txs_threaded_eq) blast
qed

end
