(* ===== verification/Rdpos.thy ===== *)
theory Rdpos
  imports Block_Codec
begin

text \<open>
  The consensus of \<^verbatim>\<open>src/src/core/rdpos.cpp\<close>: validators, the random list, the mempool of
  validator transactions, and the checks a block has to pass. The set \<^verbatim>\<open>validators_\<close> is a
  sorted list without repetition, as \<^verbatim>\<open>std::set\<close> iterates over it. The mempool is an
  unordered map; here it is the list of its entries, and no operation depends on their order.
\<close>

section \<open>Definitions: state and construction\<close>

record rdpos =
  rd_validators :: "address list"
  rd_randomList :: "address list"
  rd_mempool :: "(bytes \<times> txvalidator) list"
  rd_seed :: bytes
  rd_bestRandomSeed :: bytes
  rd_minValidators :: nat

text \<open>\<^verbatim>\<open>std::vector::operator[]\<close>, which does not check the index.\<close>

definition at_index :: "'a list \<Rightarrow> nat \<Rightarrow> 'a res" where
  "at_index xs i = (if i < length xs then Inr (xs ! i) else Inl UndefinedBehaviour)"

text \<open>\<^verbatim>\<open>initializeBlockchain\<close>: the validators in the database, after the genesis ones are put there.\<close>

definition initializeBlockchain :: "address list \<Rightarrow> address list \<Rightarrow> address list" where
  "initializeBlockchain db genesis = (if db = [] then genesis else db)"

definition rdPoS_make :: "crypto \<Rightarrow> address list \<Rightarrow> address list \<Rightarrow> bytes \<Rightarrow> nat \<Rightarrow> rdpos res" where
  "rdPoS_make c db genesis latestRandomness minValidators =
     (let validatorsDb = initializeBlockchain db genesis in
      bind_r (throw_if (validatorsDb = []) (DynamicException ''No rdPoS in DB.'')) (\<lambda>_.
      let validators = fold insort_insert validatorsDb [] in
      bind_r (shuffle c latestRandomness validators) (\<lambda>(seed, randomList).
      Inr \<lparr>rd_validators = validators, rd_randomList = randomList, rd_mempool = [], rd_seed = seed,
           rd_bestRandomSeed = latestRandomness, rd_minValidators = minValidators\<rparr>)))"

definition isValidatorAddress :: "rdpos \<Rightarrow> address \<Rightarrow> bool" where
  "isValidatorAddress r add = List.member (rd_validators r) add"

definition clearMempool :: "rdpos \<Rightarrow> rdpos" where
  "clearMempool r = r\<lparr>rd_mempool := []\<rparr>"

section \<open>Definitions: validating a block\<close>

text \<open>\<^verbatim>\<open>unordered_map::emplace\<close>: a key that is there keeps its value; keys are compared by hash.\<close>

definition emplace_pair ::
  "txvalidator \<Rightarrow> txvalidator \<Rightarrow> (txvalidator \<times> txvalidator) list \<Rightarrow> (txvalidator \<times> txvalidator) list" where
  "emplace_pair h s m = (if list_ex (\<lambda>(h', _). tv_hash h' = tv_hash h) m then m else m @ [(h, s)])"

text \<open>The loop that checks the order of the senders and fills the map; \<open>None\<close> is \<^verbatim>\<open>return false\<close>.\<close>

function order_loop ::
  "address list \<Rightarrow> txvalidator list \<Rightarrow> nat \<Rightarrow> nat \<Rightarrow> (txvalidator \<times> txvalidator) list
    \<Rightarrow> (txvalidator \<times> txvalidator) list option res" where
  "order_loop randomList vtxs minV i m =
     (if i < minV then
        bind_r (at_index vtxs i) (\<lambda>h.
        bind_r (at_index randomList (i + 1)) (\<lambda>v.
        if tv_from h \<noteq> v then Inr None else
        bind_r (at_index vtxs (i + minV)) (\<lambda>s.
        if tv_from s \<noteq> v then Inr None
        else order_loop randomList vtxs minV (Suc i) (emplace_pair h s m))))
      else Inr (Some m))"
  by pat_completeness auto
termination
  by (relation "measure (\<lambda>(rl, vtxs, minV, i, m). minV - i)") auto

declare order_loop.simps [simp del]

text \<open>The checks on one pair of the map.\<close>

definition pair_valid :: "crypto \<Rightarrow> txvalidator \<Rightarrow> txvalidator \<Rightarrow> bool" where
  "pair_valid c hashTx seedTx =
     (if getTxValidatorFunction hashTx = INVALID then False
      else if getTxValidatorFunction seedTx = INVALID then False
      else if tv_from hashTx \<noteq> tv_from seedTx then False
      else if getTxValidatorFunction hashTx \<noteq> RANDOMHASH then False
      else if getTxValidatorFunction seedTx \<noteq> RANDOMSEED then False
      else let h = drop 4 (tv_data hashTx); random = drop 4 (tv_data seedTx) in
        if length h \<noteq> 32 then False
        else if length random \<noteq> 32 then False
        else keccak c random = h)"

definition validateBlock :: "crypto \<Rightarrow> rdpos \<Rightarrow> block \<Rightarrow> bool res" where
  "validateBlock c r b =
     (if \<not> finalized b then Inr False else
      bind_r (at_index (rd_randomList r) 0) (\<lambda>creator.
      if toAddress c (validatorPubKey b) \<noteq> creator then Inr False
      else if length (txValidators b) \<noteq> (rd_minValidators r * 2) mod 2 ^ 32 then Inr False
      else if list_ex (\<lambda>tx. tv_nHeight tx \<noteq> nHeight b) (txValidators b) then Inr False
      else
        bind_r (order_loop (rd_randomList r) (txValidators b) (rd_minValidators r) 0 []) (\<lambda>res.
        case res of
          None \<Rightarrow> Inr False
        | Some m \<Rightarrow>
            if length m \<noteq> rd_minValidators r then Inr False
            else Inr (list_all (\<lambda>(h, s). pair_valid c h s) m))))"

section \<open>Definitions: processing a block, the mempool, creating transactions\<close>

definition processBlock :: "crypto \<Rightarrow> block \<Rightarrow> (rdpos, bytes) meth" where
  "processBlock c b r =
     (if \<not> finalized b then (Inl (DynamicException ''Block is not finalized.''), r)
      else
        let r = r\<lparr>rd_mempool := []\<rparr>;
            r = r\<lparr>rd_randomList := rd_validators r\<rparr>;
            r = r\<lparr>rd_bestRandomSeed := blockRandomness b\<rparr>;
            r = r\<lparr>rd_seed := rd_bestRandomSeed r\<rparr> in
        case shuffle c (rd_seed r) (rd_randomList r) of
          Inl e \<Rightarrow> (Inl e, r)
        | Inr (seed, l) \<Rightarrow> (Inr (rd_bestRandomSeed r), r\<lparr>rd_seed := seed, rd_randomList := l\<rparr>))"

text \<open>\<^verbatim>\<open>for (i = 1; i < minValidators_ + 1; i++)\<close>, left as soon as the sender is found.\<close>

function participates_from :: "address list \<Rightarrow> address \<Rightarrow> nat \<Rightarrow> nat \<Rightarrow> bool res" where
  "participates_from randomList a bound i =
     (if i < bound
      then bind_r (at_index randomList i) (\<lambda>v.
        if a = v then Inr True else participates_from randomList a bound (Suc i))
      else Inr False)"
  by pat_completeness auto
termination
  by (relation "measure (\<lambda>(rl, a, bound, i). bound - i)") auto

declare participates_from.simps [simp del]

definition from_sender :: "address \<Rightarrow> (bytes \<times> txvalidator) list \<Rightarrow> txvalidator list" where
  "from_sender a m = map snd (filter (\<lambda>(_, tx). tv_from tx = a) m)"

definition addValidatorTx :: "nat \<Rightarrow> txvalidator \<Rightarrow> (rdpos, bool) meth" where
  "addValidatorTx latestHeight tx r =
     (if list_ex (\<lambda>(h, _). h = tv_hash tx) (rd_mempool r) then (Inr True, r)
      else if tv_nHeight tx \<noteq> (latestHeight + 1) mod 2 ^ 64 then (Inr False, r)
      else case participates_from (rd_randomList r) (tv_from tx) ((rd_minValidators r + 1) mod 2 ^ 32) 1 of
        Inl e \<Rightarrow> (Inl e, r)
      | Inr False \<Rightarrow> (Inr False, r)
      | Inr True \<Rightarrow>
          (let ts = from_sender (tv_from tx) (rd_mempool r);
               added = r\<lparr>rd_mempool := rd_mempool r @ [(tv_hash tx, tx)]\<rparr> in
           if ts = [] then (Inr True, added)
           else if length ts = 1 then
             (case (getFunctor (hd ts), getFunctor tx) of
                (Inr f, Inr g) \<Rightarrow> if f = g then (Inr False, r) else (Inr True, added)
              | _ \<Rightarrow> (Inl UndefinedBehaviour, r))
           else (Inr False, r)))"

text \<open>
  \<^verbatim>\<open>rdPoSWorker::doTxCreation\<close> up to the broadcast: the two transactions of a validator for one
  block, from 32 random bytes. \<open>None\<close> is the early return of the sanity check.
\<close>

definition doTxCreation ::
  "crypto \<Rightarrow> nat \<Rightarrow> bytes \<Rightarrow> nat \<Rightarrow> address \<Rightarrow> bytes \<Rightarrow> (txvalidator \<times> txvalidator) option res" where
  "doTxCreation c chainId validatorKey height me randomness =
     (let randomHash = keccak c randomness;
          new = (\<lambda>d. \<lparr>tv_from = me, tv_data = d, tv_chainId = chainId, tv_nHeight = height,
                   tv_v = 0, tv_r = 0, tv_s = 0, tv_hash = replicate 32 0\<rparr>) in
      bind_r (TxValidator_sign c (new (randomHashHash @ randomHash)) validatorKey) (\<lambda>randomHashTx.
      bind_r (TxValidator_sign c (new (randomSeedHash @ randomness)) validatorKey) (\<lambda>seedTx.
      if keccak c (drop 4 (tv_data seedTx)) \<noteq> drop 4 (tv_data randomHashTx) then Inr None
      else Inr (Some (randomHashTx, seedTx)))))"

section \<open>Lemmas: validating a block\<close>

lemma at_index_Inr [simp]: "i < length xs \<Longrightarrow> at_index xs i = Inr (xs ! i)"
  by (simp add: at_index_def)

lemma key_present: "list_ex (\<lambda>(h', _). tv_hash h' = x) m \<longleftrightarrow> x \<in> tv_hash ` fst ` set m"
  by (induction m) auto

lemma emplace_pair_eq:
  "emplace_pair h s m = (if tv_hash h \<in> tv_hash ` fst ` set m then m else m @ [(h, s)])"
  by (simp add: emplace_pair_def key_present)

lemma emplace_fold_le:
  "length (foldl (\<lambda>m (h, s). emplace_pair h s m) m ps) \<le> length m + length ps"
proof (induction ps arbitrary: m)
  case (Cons p ps)
  have "length (emplace_pair (fst p) (snd p) m) \<le> Suc (length m)" by (simp add: emplace_pair_def)
  then show ?case
    using Cons.IH[of "emplace_pair (fst p) (snd p) m"] by (simp add: case_prod_beta)
qed simp

lemma emplace_fold_full:
  "length (foldl (\<lambda>m (h, s). emplace_pair h s m) m ps) = length m + length ps \<longleftrightarrow>
     distinct (map (tv_hash \<circ> fst) ps) \<and> tv_hash ` fst ` set m \<inter> tv_hash ` fst ` set ps = {}"
proof (induction ps arbitrary: m)
  case (Cons p ps)
  obtain h s where p: "p = (h, s)" by (cases p)
  show ?case
  proof (cases "tv_hash h \<in> tv_hash ` fst ` set m")
    case True
    then have "emplace_pair h s m = m" by (simp add: emplace_pair_eq)
    then show ?thesis using emplace_fold_le[of m ps] True by (auto simp: p)
  next
    case False
    then have "emplace_pair h s m = m @ [(h, s)]" by (simp add: emplace_pair_eq)
    then show ?thesis using Cons.IH[of "m @ [(h, s)]"] False by (auto simp: p image_iff)
  qed
qed simp

lemma emplace_fold_append:
  "distinct (map (tv_hash \<circ> fst) ps) \<Longrightarrow> tv_hash ` fst ` set m \<inter> tv_hash ` fst ` set ps = {} \<Longrightarrow>
   foldl (\<lambda>m (h, s). emplace_pair h s m) m ps = m @ ps"
proof (induction ps arbitrary: m)
  case (Cons p ps)
  obtain h s where p: "p = (h, s)" by (cases p)
  have "tv_hash h \<notin> tv_hash ` fst ` set m" using Cons.prems(2) by (simp add: p)
  then have "emplace_pair h s m = m @ [(h, s)]" by (simp add: emplace_pair_eq)
  then show ?case using Cons.IH[of "m @ [(h, s)]"] Cons.prems by (auto simp: p image_iff)
qed simp

text \<open>The pairs of transactions that the loop forms, and when it does not stop early.\<close>

definition tx_pairs :: "txvalidator list \<Rightarrow> nat \<Rightarrow> nat \<Rightarrow> (txvalidator \<times> txvalidator) list" where
  "tx_pairs vtxs minV i = map (\<lambda>j. (vtxs ! j, vtxs ! (j + minV))) [i..<minV]"

definition senders_ordered :: "address list \<Rightarrow> txvalidator list \<Rightarrow> nat \<Rightarrow> nat \<Rightarrow> bool" where
  "senders_ordered rl vtxs minV i \<longleftrightarrow>
     (\<forall>j\<in>{i..<minV}. tv_from (vtxs ! j) = rl ! (j + 1) \<and> tv_from (vtxs ! (j + minV)) = rl ! (j + 1))"

lemma order_loop_eq:
  assumes "minV < length rl" "length vtxs = 2 * minV"
  shows "order_loop rl vtxs minV i m =
    Inr (if senders_ordered rl vtxs minV i
         then Some (foldl (\<lambda>m (h, s). emplace_pair h s m) m (tx_pairs vtxs minV i)) else None)"
  using assms
proof (induction rl vtxs minV i m rule: order_loop.induct)
  case (1 rl vtxs minV i m)
  show ?case
  proof (cases "i < minV")
    case False
    then show ?thesis by (simp add: order_loop.simps senders_ordered_def tx_pairs_def)
  next
    case True
    let ?h = "vtxs ! i" and ?s = "vtxs ! (i + minV)"
    have idx: "i < length vtxs" "i + 1 < length rl" "i + minV < length vtxs" using True "1.prems" by simp_all
    have step: "senders_ordered rl vtxs minV i \<longleftrightarrow>
        tv_from ?h = rl ! (i + 1) \<and> tv_from ?s = rl ! (i + 1) \<and> senders_ordered rl vtxs minV (Suc i)"
      using True by (auto simp: senders_ordered_def Suc_le_eq le_less)
    have pairs: "tx_pairs vtxs minV i = (?h, ?s) # tx_pairs vtxs minV (Suc i)"
      using True by (simp add: tx_pairs_def upt_conv_Cons)
    show ?thesis
      using "1.IH"[of ?h "rl ! (i + 1)" ?s] True idx "1.prems"
      by (subst order_loop.simps) (simp add: step pairs)
  qed
qed

lemma pair_valid_iff:
  "pair_valid c h s \<longleftrightarrow> tv_from h = tv_from s
     \<and> length (tv_data h) = 36 \<and> take 4 (tv_data h) = randomHashHash
     \<and> length (tv_data s) = 36 \<and> take 4 (tv_data s) = randomSeedHash
     \<and> keccak c (drop 4 (tv_data s)) = drop 4 (tv_data h)"
  using getTxValidatorFunction_iff[of h] getTxValidatorFunction_iff[of s]
  by (cases "getTxValidatorFunction h"; cases "getTxValidatorFunction s")
     (auto simp: pair_valid_def Let_def)

text \<open>The conditions of \<^verbatim>\<open>validateBlock\<close>, without its loops.\<close>

definition block_consensus :: "crypto \<Rightarrow> rdpos \<Rightarrow> block \<Rightarrow> bool" where
  "block_consensus c r b \<longleftrightarrow>
     (let n = rd_minValidators r; vtxs = txValidators b in
      finalized b \<and> toAddress c (validatorPubKey b) = rd_randomList r ! 0
      \<and> length vtxs = 2 * n \<and> list_all (\<lambda>tx. tv_nHeight tx = nHeight b) vtxs
      \<and> distinct (map tv_hash (take n vtxs))
      \<and> list_all (\<lambda>i. tv_from (vtxs ! i) = rd_randomList r ! (i + 1)
           \<and> tv_from (vtxs ! (i + n)) = rd_randomList r ! (i + 1)
           \<and> length (tv_data (vtxs ! i)) = 36 \<and> take 4 (tv_data (vtxs ! i)) = randomHashHash
           \<and> length (tv_data (vtxs ! (i + n))) = 36 \<and> take 4 (tv_data (vtxs ! (i + n))) = randomSeedHash
           \<and> keccak c (drop 4 (tv_data (vtxs ! (i + n)))) = drop 4 (tv_data (vtxs ! i))) [0..<n])"

lemma map_fst_tx_pairs:
  assumes "length vtxs = 2 * n"
  shows "map (tv_hash \<circ> fst) (tx_pairs vtxs n 0) = map tv_hash (take n vtxs)"
  using assms by (intro nth_equalityI) (simp_all add: tx_pairs_def)

lemma validateBlock_eq:
  assumes "rd_minValidators r < length (rd_randomList r)" "rd_minValidators r < 2 ^ 31"
  shows "validateBlock c r b = Inr (block_consensus c r b)"
proof -
  let ?n = "rd_minValidators r" and ?v = "txValidators b" and ?rl = "rd_randomList r"
  let ?fold = "foldl (\<lambda>m (h, s). emplace_pair h s m) [] (tx_pairs ?v ?n 0)"
  have n2: "?n * 2 mod 4294967296 = 2 * ?n" using assms(2) by simp
  have hd0: "at_index ?rl 0 = Inr (?rl ! 0)" using assms(1) by (intro at_index_Inr) linarith
  consider "\<not> (finalized b \<and> toAddress c (validatorPubKey b) = ?rl ! 0 \<and> length ?v = 2 * ?n
      \<and> list_all (\<lambda>tx. tv_nHeight tx = nHeight b) ?v)"
    | "finalized b" "toAddress c (validatorPubKey b) = ?rl ! 0" "length ?v = 2 * ?n"
      "list_all (\<lambda>tx. tv_nHeight tx = nHeight b) ?v" by blast
  then show ?thesis
  proof cases
    case 1
    then show ?thesis
      by (auto simp: validateBlock_def block_consensus_def Let_def n2 hd0 list_ex_iff list_all_iff)
  next
    case 2
    have full: "length ?fold = ?n \<longleftrightarrow> distinct (map tv_hash (take ?n ?v))"
      using emplace_fold_full[of "[]" "tx_pairs ?v ?n 0"] map_fst_tx_pairs[OF 2(3)]
      by (simp add: tx_pairs_def)
    have same: "?fold = tx_pairs ?v ?n 0" if "distinct (map tv_hash (take ?n ?v))"
      using emplace_fold_append[of "tx_pairs ?v ?n 0" "[]"] that map_fst_tx_pairs[OF 2(3)] by simp
    have "\<not> list_ex (\<lambda>tx. tv_nHeight tx \<noteq> nHeight b) ?v" using 2(4) by (auto simp: list_ex_iff list_all_iff)
    then have "validateBlock c r b = Inr (senders_ordered ?rl ?v ?n 0
        \<and> distinct (map tv_hash (take ?n ?v)) \<and> list_all (\<lambda>(h, s). pair_valid c h s) (tx_pairs ?v ?n 0))"
      using 2 order_loop_eq[OF assms(1) 2(3), of 0 "[]"] full same
      by (auto simp: validateBlock_def hd0 n2)
    also have "\<dots> = Inr (block_consensus c r b)"
      using 2 by (auto simp: block_consensus_def senders_ordered_def tx_pairs_def list_all_iff pair_valid_iff Let_def)
    finally show ?thesis .
  qed
qed


section \<open>Lemmas: the mempool\<close>

lemma participates_from_eq:
  "bound \<le> length rl \<Longrightarrow> participates_from rl a bound i = Inr (a \<in> set (drop i (take bound rl)))"
proof (induction rl a bound i rule: participates_from.induct)
  case (1 rl a bound i)
  show ?case
  proof (cases "i < bound")
    case True
    then have "drop i (take bound rl) = rl ! i # drop (Suc i) (take bound rl)"
      using "1.prems" by (simp flip: Cons_nth_drop_Suc)
    then show ?thesis
      using True "1.prems" "1.IH"[of "rl ! i"] by (subst participates_from.simps) simp
  next
    case False
    then show ?thesis by (subst participates_from.simps) simp
  qed
qed

text \<open>The validators that take part in a round, after the creator of the block.\<close>

definition participants :: "rdpos \<Rightarrow> address set" where
  "participants r = set (take (rd_minValidators r) (drop 1 (rd_randomList r)))"

lemma participates_iff:
  assumes "rd_minValidators r < length (rd_randomList r)" "rd_minValidators r < 2 ^ 31"
  shows "participates_from (rd_randomList r) a ((rd_minValidators r + 1) mod 2 ^ 32) 1
    = Inr (a \<in> participants r)"
  using assms by (simp add: participates_from_eq participants_def drop_take)

definition same_function :: "txvalidator \<Rightarrow> txvalidator \<Rightarrow> bool" where
  "same_function s t \<longleftrightarrow> take 4 (tv_data s) = take 4 (tv_data t)"

text \<open>The invariant: one entry per hash, for the next height, from participants, at most two per sender.\<close>

definition mempool_ok :: "nat \<Rightarrow> rdpos \<Rightarrow> bool" where
  "mempool_ok height r \<longleftrightarrow>
     distinct (map fst (rd_mempool r))
     \<and> (\<forall>(k, tx)\<in>set (rd_mempool r). k = tv_hash tx \<and> tv_nHeight tx = (height + 1) mod 2 ^ 64
          \<and> tv_from tx \<in> participants r)
     \<and> (\<forall>a. length (from_sender a (rd_mempool r)) \<le> 2)
     \<and> (\<forall>a s t. from_sender a (rd_mempool r) = [s, t] \<longrightarrow> \<not> same_function s t)"

lemma from_sender_append:
  "from_sender a (m @ [(k, tx)]) = from_sender a m @ (if tv_from tx = a then [tx] else [])"
  by (simp add: from_sender_def)

lemma mempool_ok_add:
  assumes ok: "mempool_ok height r" and new: "tv_hash tx \<notin> fst ` set (rd_mempool r)"
    and tx: "tv_nHeight tx = (height + 1) mod 2 ^ 64" "tv_from tx \<in> participants r"
    and few: "from_sender (tv_from tx) (rd_mempool r) = [] \<or>
      (\<exists>t. from_sender (tv_from tx) (rd_mempool r) = [t] \<and> \<not> same_function t tx)"
  shows "mempool_ok height (r\<lparr>rd_mempool := rd_mempool r @ [(tv_hash tx, tx)]\<rparr>)"
proof -
  let ?m = "rd_mempool r"
  have "participants (r\<lparr>rd_mempool := ?m @ [(tv_hash tx, tx)]\<rparr>) = participants r"
    by (simp add: participants_def)
  moreover have "length (from_sender a ?m @ (if tv_from tx = a then [tx] else [])) \<le> 2" for a
    using ok few by (cases "tv_from tx = a") (auto simp: mempool_ok_def)
  moreover have "\<not> same_function s t" if "from_sender a ?m @ (if tv_from tx = a then [tx] else []) = [s, t]" for a s t
  proof (cases "tv_from tx = a")
    case True
    with that few show ?thesis by auto
  next
    case False
    with that ok show ?thesis by (simp add: mempool_ok_def)
  qed
  ultimately show ?thesis
    using ok new tx by (auto simp: mempool_ok_def from_sender_append)
qed

lemma key_of_mempool: "list_ex (\<lambda>(h, _). h = k) m \<longleftrightarrow> k \<in> fst ` set m"
  by (induction m) auto

text \<open>What \<^verbatim>\<open>addValidatorTx\<close> does, by its result.\<close>

lemma addValidatorTx_cases:
  assumes n: "rd_minValidators r < length (rd_randomList r)" "rd_minValidators r < 2 ^ 31"
  shows "snd (addValidatorTx h tx r) = r
    \<or> fst (addValidatorTx h tx r) = Inr True
      \<and> snd (addValidatorTx h tx r) = r\<lparr>rd_mempool := rd_mempool r @ [(tv_hash tx, tx)]\<rparr>
      \<and> tv_hash tx \<notin> fst ` set (rd_mempool r) \<and> tv_nHeight tx = (h + 1) mod 2 ^ 64
      \<and> tv_from tx \<in> participants r
      \<and> (from_sender (tv_from tx) (rd_mempool r) = [] \<or>
         (\<exists>t. from_sender (tv_from tx) (rd_mempool r) = [t] \<and> \<not> same_function t tx))"
proof -
  let ?ts = "from_sender (tv_from tx) (rd_mempool r)"
  consider "tv_hash tx \<in> fst ` set (rd_mempool r) \<or> tv_nHeight tx \<noteq> (h + 1) mod 2 ^ 64
      \<or> tv_from tx \<notin> participants r \<or> (?ts \<noteq> [] \<and> length ?ts \<noteq> 1)"
    | (none) "tv_hash tx \<notin> fst ` set (rd_mempool r)" "tv_nHeight tx = (h + 1) mod 2 ^ 64"
      "tv_from tx \<in> participants r" "?ts = []"
    | (one) t where "tv_hash tx \<notin> fst ` set (rd_mempool r)" "tv_nHeight tx = (h + 1) mod 2 ^ 64"
      "tv_from tx \<in> participants r" "?ts = [t]"
    by (cases ?ts) auto
  then show ?thesis
  proof cases
    case 1
    then show ?thesis
      unfolding addValidatorTx_def participates_iff[OF n] key_of_mempool by (auto simp: Let_def split: bool.split)
  next
    case none
    then show ?thesis
      unfolding addValidatorTx_def participates_iff[OF n] key_of_mempool by simp
  next
    case one
    have "getFunctor t = getFunctor tx \<or> \<not> same_function t tx \<or> \<not> (\<exists>f. getFunctor t = Inr f) \<or> \<not> (\<exists>f. getFunctor tx = Inr f)"
      by (auto simp: getFunctor_def same_function_def subspan_def split: if_splits)
    then show ?thesis
      using one unfolding addValidatorTx_def participates_iff[OF n] key_of_mempool
      by (auto split: sum.splits)
  qed
qed

lemma addValidatorTx_keeps:
  "rd_randomList (snd (addValidatorTx h tx r)) = rd_randomList r"
  "rd_validators (snd (addValidatorTx h tx r)) = rd_validators r"
  "rd_minValidators (snd (addValidatorTx h tx r)) = rd_minValidators r"
  by (auto simp: addValidatorTx_def Let_def split: sum.splits bool.splits)

lemma mempool_bound:
  assumes "mempool_ok height r"
  shows "length (rd_mempool r) \<le> 2 * rd_minValidators r"
proof -
  let ?m = "rd_mempool r" and ?P = "participants r"
  have fin: "finite ?P" by (simp add: participants_def)
  have sum: "(\<Sum>a\<in>?P. length (from_sender a m)) = length m"
    if "\<forall>(k, tx)\<in>set m. tv_from tx \<in> ?P" for m :: "(bytes \<times> txvalidator) list"
    using that
  proof (induction m rule: rev_induct)
    case Nil
    then show ?case by (simp add: from_sender_def)
  next
    case (snoc p m)
    obtain k tx where p: "p = (k, tx)" by (cases p)
    then have "tv_from tx \<in> ?P" using snoc.prems by simp
    moreover have "length (if tv_from tx = a then [tx] else []) = (if tv_from tx = a then 1 else 0)" for a
      by simp
    ultimately have "(\<Sum>a\<in>?P. length (if tv_from tx = a then [tx] else [])) = 1"
      using fin by (simp only: sum.delta' if_True)
    then show ?case using snoc by (simp add: p from_sender_append sum.distrib)
  qed
  have "length ?m = (\<Sum>a\<in>?P. length (from_sender a ?m))"
    using assms by (intro sum[symmetric]) (auto simp: mempool_ok_def)
  also have "\<dots> \<le> (\<Sum>a\<in>?P. 2)" using assms by (intro sum_mono) (simp add: mempool_ok_def)
  also have "\<dots> = 2 * card ?P" by simp
  also have "\<dots> \<le> 2 * rd_minValidators r"
    using card_length[of "take (rd_minValidators r) (drop 1 (rd_randomList r))"] by (simp add: participants_def)
  finally show ?thesis .
qed


section \<open>Lemmas: reachable states\<close>

text \<open>
  The consensus object with the height of the latest block, as the node runs it: a validator
  transaction arrives, a finalized block is processed and becomes the latest one, or the
  mempool is cleared.
\<close>

inductive rd_step :: "crypto \<Rightarrow> rdpos \<times> nat \<Rightarrow> rdpos \<times> nat \<Rightarrow> bool" for c where
  add_tx: "rd_step c (r, h) (snd (addValidatorTx h tx r), h)"
| process: "processBlock c b r = (Inr s, r') \<Longrightarrow> rd_step c (r, h) (r', nHeight b)"
| clear: "rd_step c (r, h) (clearMempool r, h)"

inductive rd_reachable :: "crypto \<Rightarrow> nat \<Rightarrow> rdpos \<times> nat \<Rightarrow> bool" for c minV where
  start: "rdPoS_make c db genesis rnd minV = Inr r \<Longrightarrow> rd_reachable c minV (r, h)"
| step: "rd_reachable c minV x \<Longrightarrow> rd_step c x y \<Longrightarrow> rd_reachable c minV y"

definition rd_inv :: "nat \<Rightarrow> rdpos \<times> nat \<Rightarrow> bool" where
  "rd_inv minV = (\<lambda>(r, h). rd_minValidators r = minV \<and> sorted (rd_validators r) \<and> distinct (rd_validators r)
     \<and> mset (rd_randomList r) = mset (rd_validators r)
     \<and> (minV < length (rd_validators r) \<longrightarrow> mempool_ok h r))"

lemma fold_insort_insert: "sorted xs \<Longrightarrow> distinct xs \<Longrightarrow>
  sorted (fold insort_insert ys xs) \<and> distinct (fold insort_insert ys xs)"
  by (induction ys arbitrary: xs) (simp_all add: sorted_insort_insert distinct_insort_insert)

lemma mempool_ok_empty: "rd_mempool r = [] \<Longrightarrow> mempool_ok h r"
  by (simp add: mempool_ok_def from_sender_def)

lemma rd_inv_start: "rdPoS_make c db genesis rnd minV = Inr r \<Longrightarrow> rd_inv minV (r, h)"
  using fold_insort_insert[of "[]" "initializeBlockchain db genesis"]
  by (auto simp: rdPoS_make_def rd_inv_def bind_r_eq_Inr Let_def gen.shuffle_mset intro: mempool_ok_empty)

lemma processBlock_facts:
  assumes "processBlock c b r = (Inr s, r')"
  shows "rd_validators r' = rd_validators r" "rd_minValidators r' = rd_minValidators r"
    "rd_mempool r' = []" "rd_bestRandomSeed r' = blockRandomness b" "s = blockRandomness b"
    "finalized b" "mset (rd_randomList r') = mset (rd_validators r)"
  using assms by (auto simp: processBlock_def Let_def gen.shuffle_mset split: if_splits sum.splits prod.splits)

lemma rd_inv_step:
  assumes "minV < 2 ^ 31" "rd_inv minV x" "rd_step c x y"
  shows "rd_inv minV y"
  using assms(3)
proof (cases rule: rd_step.cases)
  case (add_tx r h tx)
  show ?thesis
  proof (cases "minV < length (rd_validators r)")
    case False
    then show ?thesis using assms(2) by (simp add: add_tx rd_inv_def addValidatorTx_keeps)
  next
    case True
    have "length (rd_randomList r) = length (rd_validators r)"
      using assms(2) unfolding add_tx(1) rd_inv_def by (auto dest: mset_eq_length)
    with True assms have n: "rd_minValidators r < length (rd_randomList r)" "rd_minValidators r < 2 ^ 31"
      by (simp_all add: add_tx(1) rd_inv_def)
    have "mempool_ok h r" using True assms(2) by (simp add: add_tx(1) rd_inv_def)
    then have "mempool_ok h (snd (addValidatorTx h tx r))"
      using addValidatorTx_cases[OF n, of h tx] mempool_ok_add[of h r tx] by metis
    then show ?thesis using assms(2) by (simp add: add_tx rd_inv_def addValidatorTx_keeps)
  qed
next
  case (process b r s r' h)
  then show ?thesis
    using assms(2) processBlock_facts[OF process(3)] by (simp add: rd_inv_def mempool_ok_empty)
next
  case (clear r h)
  then show ?thesis
    using assms(2) by (simp add: rd_inv_def clearMempool_def mempool_ok_empty)
qed

lemma rd_inv_reachable: "rd_reachable c minV x \<Longrightarrow> minV < 2 ^ 31 \<Longrightarrow> rd_inv minV x"
  by (induction rule: rd_reachable.induct) (auto intro: rd_inv_start rd_inv_step)

section \<open>Lemmas: creating transactions\<close>

lemma TxValidator_sign_keeps:
  "TxValidator_sign c tv k = Inr tv' \<Longrightarrow>
   tv_from tv' = tv_from tv \<and> tv_data tv' = tv_data tv \<and> tv_nHeight tv' = tv_nHeight tv"
  by (auto simp: TxValidator_sign_def bind_r_eq_Inr Let_def)

lemma length_functors [simp]: "length randomHashHash = 4" "length randomSeedHash = 4"
  by (simp_all add: randomHashHash_def randomSeedHash_def)

lemma functors_differ: "randomHashHash \<noteq> randomSeedHash"
  by (simp add: randomHashHash_def randomSeedHash_def)

lemma doTxCreation_facts:
  assumes "hash_ok c" "length rnd = 32" "doTxCreation c chainId k height me rnd = Inr res"
  obtains h s where "res = Some (h, s)" "tv_from h = me" "tv_from s = me"
    "tv_nHeight h = height" "tv_nHeight s = height"
    "tv_data h = randomHashHash @ keccak c rnd" "tv_data s = randomSeedHash @ rnd"
  using assms by (auto simp: doTxCreation_def bind_r_eq_Inr Let_def dest!: TxValidator_sign_keeps)

lemma addValidatorTx_first:
  assumes n: "rd_minValidators r < length (rd_randomList r)" "rd_minValidators r < 2 ^ 31"
    and "tv_hash tx \<notin> fst ` set (rd_mempool r)" "tv_nHeight tx = (h + 1) mod 2 ^ 64"
    and "tv_from tx \<in> participants r" "from_sender (tv_from tx) (rd_mempool r) = []"
  shows "addValidatorTx h tx r = (Inr True, r\<lparr>rd_mempool := rd_mempool r @ [(tv_hash tx, tx)]\<rparr>)"
  using assms(3-) unfolding addValidatorTx_def participates_iff[OF n] key_of_mempool by simp

lemma addValidatorTx_second:
  assumes n: "rd_minValidators r < length (rd_randomList r)" "rd_minValidators r < 2 ^ 31"
    and "tv_hash tx \<notin> fst ` set (rd_mempool r)" "tv_nHeight tx = (h + 1) mod 2 ^ 64"
    and "tv_from tx \<in> participants r" "from_sender (tv_from tx) (rd_mempool r) = [t]"
    and "4 \<le> length (tv_data t)" "4 \<le> length (tv_data tx)" "\<not> same_function t tx"
  shows "addValidatorTx h tx r = (Inr True, r\<lparr>rd_mempool := rd_mempool r @ [(tv_hash tx, tx)]\<rparr>)"
  using assms(3-) unfolding addValidatorTx_def participates_iff[OF n] key_of_mempool
  by (simp add: getFunctor_def subspan_def same_function_def)


section \<open>Properties\<close>

definition sample_vtx :: "bytes \<Rightarrow> bytes \<Rightarrow> txvalidator" where
  "sample_vtx h d = \<lparr>tv_from = replicate 20 1, tv_data = d, tv_chainId = 1, tv_nHeight = 5, tv_v = 37,
     tv_r = 1, tv_s = 1, tv_hash = h\<rparr>"

definition sample_rdpos :: rdpos where
  "sample_rdpos = \<lparr>rd_validators = [replicate 20 1, replicate 20 4, replicate 20 7],
     rd_randomList = [replicate 20 7, replicate 20 1, replicate 20 4], rd_mempool = [],
     rd_seed = [], rd_bestRandomSeed = [], rd_minValidators = 1\<rparr>"

text \<open>
  Claim C4. With more validators than the round needs, \<^verbatim>\<open>validateBlock\<close> always returns, and it
  returns true exactly for a finalized block that the first validator of the random list
  signed, with two transactions of the block's height for each of the next \<open>minValidators\<close>
  validators, in their order: first the commitments, all different, then the seeds, each of
  32 bytes and each with the hash that its commitment announced.
\<close>
theorem rdpos_validateBlock_correct:
  assumes "rd_minValidators r < length (rd_randomList r)" "rd_minValidators r < 2 ^ 31"
  shows "(\<exists>v. validateBlock c r b = Inr v)
    \<and> (validateBlock c r b = Inr True \<longleftrightarrow>
        finalized b \<and> toAddress c (validatorPubKey b) = rd_randomList r ! 0
        \<and> length (txValidators b) = 2 * rd_minValidators r
        \<and> (\<forall>tx\<in>set (txValidators b). tv_nHeight tx = nHeight b)
        \<and> distinct (map tv_hash (take (rd_minValidators r) (txValidators b)))
        \<and> (\<forall>i < rd_minValidators r.
             let h = txValidators b ! i; s = txValidators b ! (i + rd_minValidators r) in
             tv_from h = rd_randomList r ! (i + 1) \<and> tv_from s = rd_randomList r ! (i + 1)
             \<and> length (tv_data h) = 36 \<and> take 4 (tv_data h) = [0xcf, 0xff, 0xe7, 0x46]
             \<and> length (tv_data s) = 36 \<and> take 4 (tv_data s) = [0x6f, 0xc5, 0xa2, 0xd6]
             \<and> keccak c (drop 4 (tv_data s)) = drop 4 (tv_data h)))"
  unfolding validateBlock_eq[OF assms]
  by (auto simp: block_consensus_def Let_def list_all_iff randomHashHash_def randomSeedHash_def)

theorem rdpos_validateBlock_correct_witness:
  "validateBlock sample_crypto sample_rdpos
     (sample_block\<lparr>nHeight := 5, txValidators :=
        [sample_vtx [1] ([0xcf, 0xff, 0xe7, 0x46] @ replicate 32 7),
         sample_vtx [2] ([0x6f, 0xc5, 0xa2, 0xd6] @ replicate 32 9)]\<rparr>) = Inr True"
proof -
  let ?b = "sample_block\<lparr>nHeight := 5, txValidators :=
        [sample_vtx [1] ([0xcf, 0xff, 0xe7, 0x46] @ replicate 32 7),
         sample_vtx [2] ([0x6f, 0xc5, 0xa2, 0xd6] @ replicate 32 9)]\<rparr>"
  show ?thesis
    using rdpos_validateBlock_correct[of sample_rdpos sample_crypto ?b]
    by (simp add: sample_rdpos_def sample_block_def sample_vtx_def sample_facts)
qed

text \<open>
  Claim C5. In every state the consensus object reaches from its construction, by any
  sequence of arriving transactions, processed blocks and clearings, the validators are
  sorted and distinct and the random list is a permutation of them; and when there are
  more validators than a round needs, the mempool holds at most two transactions per
  validator of the round, of different functions and for the next height, so at most
  \<open>2 * minValidators\<close> in all.
\<close>
theorem rdpos_reachable_invariant:
  assumes "rd_reachable c minV (r, h)" "minV < 2 ^ 31"
  shows "rd_minValidators r = minV \<and> sorted (rd_validators r) \<and> distinct (rd_validators r)
    \<and> mset (rd_randomList r) = mset (rd_validators r)
    \<and> (minV < length (rd_validators r) \<longrightarrow>
        distinct (map fst (rd_mempool r)) \<and> length (rd_mempool r) \<le> 2 * minV
        \<and> (\<forall>(k, tx)\<in>set (rd_mempool r). k = tv_hash tx \<and> tv_nHeight tx = (h + 1) mod 2 ^ 64
             \<and> tv_from tx \<in> set (take minV (drop 1 (rd_randomList r))))
        \<and> (\<forall>a. length (from_sender a (rd_mempool r)) \<le> 2)
        \<and> (\<forall>a s t. from_sender a (rd_mempool r) = [s, t] \<longrightarrow> take 4 (tv_data s) \<noteq> take 4 (tv_data t)))"
proof -
  have inv: "rd_inv minV (r, h)" by (rule rd_inv_reachable[OF assms])
  then have n: "rd_minValidators r = minV" by (simp add: rd_inv_def)
  have "mempool_ok h r" if "minV < length (rd_validators r)" using inv that by (simp add: rd_inv_def)
  then show ?thesis
    using inv n mempool_bound[of h r]
    by (auto simp: rd_inv_def mempool_ok_def participants_def same_function_def)
qed

theorem rdpos_reachable_invariant_witness:
  "\<exists>r. rd_reachable sample_crypto 1 (r, 0) \<and> length (rd_mempool r) \<le> 2
     \<and> mset (rd_randomList r) = mset [replicate 20 1, replicate 20 2]"
proof -
  obtain seed l where "shuffle sample_crypto [] [replicate 20 1, replicate 20 2 :: address] = Inr (seed, l)"
    using shuffle_loop_total[OF sample_block_ok(1)] unfolding shuffle_def by (metis surj_pair)
  moreover have "replicate 20 (x :: byte) = x # replicate 19 x" for x by (simp flip: replicate_Suc)
  then have "(replicate 20 1 :: address) \<le> replicate 20 2" by simp
  ultimately have "rdPoS_make sample_crypto [] [replicate 20 2, replicate 20 1] [] 1 = Inr
      \<lparr>rd_validators = [replicate 20 1, replicate 20 2], rd_randomList = l, rd_mempool = [], rd_seed = seed,
       rd_bestRandomSeed = [], rd_minValidators = 1\<rparr>"
    by (simp add: rdPoS_make_def initializeBlockchain_def insort_insert_key_def Let_def)
  from rd_reachable.start[OF this, of 0] show ?thesis
    using rdpos_reachable_invariant[of sample_crypto 1] by fastforce
qed

text \<open>
  Claim C15. The two transactions that a validator creates for a round fit the consensus: the
  commitment announces the hash of the seed, so the pair passes the check that
  \<^verbatim>\<open>validateBlock\<close> makes of it; and a mempool in which the validator takes part and has nothing
  yet accepts both, in order, provided their hashes differ and are new.
\<close>
theorem rdpos_tx_creation_accepted:
  assumes "hash_ok c" "length rnd = 32" "doTxCreation c chainId k ((h + 1) mod 2 ^ 64) me rnd = Inr res"
    and "rd_minValidators r < length (rd_randomList r)" "rd_minValidators r < 2 ^ 31"
    and "me \<in> set (take (rd_minValidators r) (drop 1 (rd_randomList r)))"
    and "from_sender me (rd_mempool r) = []"
  shows "\<exists>hashTx seedTx. res = Some (hashTx, seedTx) \<and> pair_valid c hashTx seedTx
    \<and> (tv_hash hashTx \<noteq> tv_hash seedTx \<and> tv_hash hashTx \<notin> fst ` set (rd_mempool r)
         \<and> tv_hash seedTx \<notin> fst ` set (rd_mempool r) \<longrightarrow>
       (let (ok1, r1) = addValidatorTx h hashTx r; (ok2, r2) = addValidatorTx h seedTx r1 in
        ok1 = Inr True \<and> ok2 = Inr True
        \<and> rd_mempool r2 = rd_mempool r @ [(tv_hash hashTx, hashTx), (tv_hash seedTx, seedTx)]))"
proof -
  from doTxCreation_facts[OF assms(1-3)] obtain x s where res: "res = Some (x, s)"
    and x: "tv_from x = me" "tv_nHeight x = (h + 1) mod 2 ^ 64" "tv_data x = randomHashHash @ keccak c rnd"
    and s: "tv_from s = me" "tv_nHeight s = (h + 1) mod 2 ^ 64" "tv_data s = randomSeedHash @ rnd" by metis
  have pv: "pair_valid c x s" using x s assms(1,2) by (simp add: pair_valid_iff hash_ok_def)
  have part: "me \<in> participants r" using assms(6) by (simp add: participants_def)
  let ?r1 = "r\<lparr>rd_mempool := rd_mempool r @ [(tv_hash x, x)]\<rparr>"
  have two: "addValidatorTx h x r = (Inr True, ?r1) \<and> addValidatorTx h s ?r1 =
      (Inr True, ?r1\<lparr>rd_mempool := rd_mempool ?r1 @ [(tv_hash s, s)]\<rparr>)"
    if "tv_hash x \<noteq> tv_hash s" "tv_hash x \<notin> fst ` set (rd_mempool r)" "tv_hash s \<notin> fst ` set (rd_mempool r)"
  proof
    show "addValidatorTx h x r = (Inr True, ?r1)"
      using that part x assms(7) by (intro addValidatorTx_first[OF assms(4,5)]) simp_all
    have "participants ?r1 = participants r" by (simp add: participants_def)
    then show "addValidatorTx h s ?r1 = (Inr True, ?r1\<lparr>rd_mempool := rd_mempool ?r1 @ [(tv_hash s, s)]\<rparr>)"
      using that part x s assms(4,5,7) functors_differ
      by (intro addValidatorTx_second[where t = x])
        (auto simp: from_sender_append same_function_def)
  qed
  then show ?thesis using res pv by auto
qed

text \<open>For the witness, a hash that tells the two transactions apart.\<close>

definition sample_crypto2 :: crypto where
  "sample_crypto2 = sample_crypto\<lparr>keccak := (\<lambda>x. replicate 32 (x ! 2))\<rparr>"

lemma keccak_only [simp]:
  "makeSig (c\<lparr>keccak := f\<rparr>) r s v = makeSig c r s v"
  "secp_recover (c\<lparr>keccak := f\<rparr>) sig msg = secp_recover c sig msg"
  "toUPub (c\<lparr>keccak := f\<rparr>) k = toUPub c k"
  by (simp_all add: makeSig_def makeSig_in_def secp_recover_def toUPub_def)

lemma keccak_only_sign [simp]: "secp_sign (c\<lparr>keccak := f\<rparr>) msg k = secp_sign c msg k"
  by (simp add: secp_sign_def Let_def cong: if_cong split: option.split)

lemma sample_crypto2_sign:
  assumes "length d = 36"
  shows "\<exists>tv. TxValidator_sign sample_crypto2
    \<lparr>tv_from = replicate 20 4, tv_data = d, tv_chainId = 1, tv_nHeight = 1,
     tv_v = 0, tv_r = 0, tv_s = 0, tv_hash = replicate 32 0\<rparr> [] = Inr tv \<and> tv_hash tv = replicate 32 (d ! 0)"
proof -
  obtain x xs where d: "d = x # xs" using assms by (cases d) simp_all
  then have "length xs = 35" using assms by simp
  then show ?thesis
    by (simp add: d TxValidator_sign_def sample_crypto2_def sample_facts toAddress_def Let_def
        TxValidator_rlpSerialize_def TxValidator_total_size_def size_data_def size_uint_def bytesRequired_step
        ser_head_def ser_data_def)
qed

lemma sample_creation:
  "\<exists>h s. doTxCreation sample_crypto2 1 [] 1 (replicate 20 4) (replicate 32 1) = Inr (Some (h, s))
     \<and> tv_hash h = replicate 32 0xcf \<and> tv_hash s = replicate 32 0x6f"
proof -
  let ?new = "\<lambda>d. \<lparr>tv_from = replicate 20 4, tv_data = d, tv_chainId = 1, tv_nHeight = 1,
     tv_v = 0, tv_r = 0, tv_s = 0, tv_hash = replicate 32 0\<rparr>"
  obtain h where h: "TxValidator_sign sample_crypto2 (?new (randomHashHash @ replicate 32 1)) [] = Inr h"
    "tv_hash h = replicate 32 0xcf"
    using sample_crypto2_sign[of "randomHashHash @ replicate 32 1"] by (auto simp: randomHashHash_def)
  obtain s where s: "TxValidator_sign sample_crypto2 (?new (randomSeedHash @ replicate 32 1)) [] = Inr s"
    "tv_hash s = replicate 32 0x6f"
    using sample_crypto2_sign[of "randomSeedHash @ replicate 32 1"] by (auto simp: randomSeedHash_def)
  have k: "keccak sample_crypto2 (replicate 32 1) = replicate 32 1" by (simp add: sample_crypto2_def)
  show ?thesis
    using h s TxValidator_sign_keeps[OF h(1)] TxValidator_sign_keeps[OF s(1)]
    by (simp add: doTxCreation_def k Let_def)
qed

theorem rdpos_tx_creation_accepted_witness:
  "\<exists>hashTx seedTx. doTxCreation sample_crypto2 1 [] 1 (replicate 20 4) (replicate 32 1) = Inr (Some (hashTx, seedTx))
     \<and> pair_valid sample_crypto2 hashTx seedTx
     \<and> fst (addValidatorTx 0 hashTx (sample_rdpos\<lparr>rd_minValidators := 2\<rparr>)) = Inr True"
proof -
  obtain h s where cr: "doTxCreation sample_crypto2 1 [] 1 (replicate 20 4) (replicate 32 1) = Inr (Some (h, s))"
    "tv_hash h \<noteq> tv_hash s"
    using sample_creation by (auto simp: replicate_eq_replicate)
  have "hash_ok sample_crypto2" by (simp add: hash_ok_def sample_crypto2_def)
  from rdpos_tx_creation_accepted[OF this, of "replicate 32 1" 1 "[]" 0 "replicate 20 4" "Some (h, s)"
      "sample_rdpos\<lparr>rd_minValidators := 2\<rparr>"] cr
  show ?thesis
    by (auto simp: sample_rdpos_def from_sender_def Let_def split: prod.splits)
qed

end
