(* ===== verification/Evm_Host.thy ===== *)
theory Evm_Host
  imports Tx_Rlp
begin

text \<open>
  The host of the Ethereum virtual machine (\<^verbatim>\<open>src/src/core/evmhost.hpp\<close>): accounts with an
  original and a current value of everything a call may change, the interface the machine
  calls, and the functions that commit or revert a transaction. The machine itself
  (\<^verbatim>\<open>evmc_execute\<close>) is a parameter.
\<close>

section \<open>Definitions: accounts\<close>

record evm_account =
  acc_nonce :: "nat \<times> nat"
  acc_code :: "bytes \<times> bytes"
  acc_codeHash :: "bytes \<times> bytes"
  acc_balance :: "nat \<times> nat"
  acc_storage :: "bytes \<Rightarrow> (bytes \<times> bytes) option"
  acc_transient :: "bytes \<Rightarrow> bytes option"

definition zero_hash :: bytes where
  "zero_hash = replicate 32 0"

definition empty_account :: evm_account where
  "empty_account = \<lparr>acc_nonce = (0, 0), acc_code = ([], []), acc_codeHash = (zero_hash, zero_hash),
     acc_balance = (0, 0), acc_storage = Map.empty, acc_transient = Map.empty\<rparr>"

record evm_event =
  ev_creator :: address
  ev_data :: bytes
  ev_topics :: "bytes list"

record evm_tx_context =
  cx_gas_price :: nat
  cx_origin :: address
  cx_coinbase :: address
  cx_number :: nat
  cx_timestamp :: nat
  cx_gas_limit :: nat
  cx_chain_id :: nat

record evm_host =
  accounts :: "address \<Rightarrow> evm_account option"
  accessedAccountsBalances :: "address list"
  accessedAccountsCode :: "address list"
  accessedAccountsNonces :: "address list"
  accessedStorages :: "(address \<times> bytes) list"
  contractAddresses :: "bytes \<Rightarrow> address option"
  recentlyCreatedContracts :: "bytes list"
  accessedTransients :: "address list"
  currentTxContext :: evm_tx_context
  currentTxHash :: bytes
  emittedEvents :: "evm_event list"
  shouldRevert :: bool
  randomGen :: bytes

text \<open>\<open>randomGen\<close> is the seed of the generator of the state, to which the host keeps a pointer.\<close>

text \<open>\<^verbatim>\<open>accounts[addr]\<close>: an account that is not there is created with zero values.\<close>

definition acc :: "evm_host \<Rightarrow> address \<Rightarrow> evm_account" where
  "acc h a = (case accounts h a of None \<Rightarrow> empty_account | Some x \<Rightarrow> x)"

definition upd_acc :: "address \<Rightarrow> (evm_account \<Rightarrow> evm_account) \<Rightarrow> evm_host \<Rightarrow> evm_host" where
  "upd_acc a f h = h\<lparr>accounts := (accounts h)(a \<mapsto> f (acc h a))\<rparr>"

text \<open>\<^verbatim>\<open>storage[key]\<close>, in the same way.\<close>

definition slot :: "evm_account \<Rightarrow> bytes \<Rightarrow> bytes \<times> bytes" where
  "slot x k = (case acc_storage x k of None \<Rightarrow> (zero_hash, zero_hash) | Some p \<Rightarrow> p)"

definition put_slot :: "bytes \<Rightarrow> bytes \<times> bytes \<Rightarrow> evm_account \<Rightarrow> evm_account" where
  "put_slot k p x = x\<lparr>acc_storage := (acc_storage x)(k \<mapsto> p)\<rparr>"

section \<open>Definitions: the interface the machine calls\<close>

definition account_exists :: "evm_host \<Rightarrow> address \<Rightarrow> bool" where
  "account_exists h a = (accounts h a \<noteq> None)"

definition get_storage :: "evm_host \<Rightarrow> address \<Rightarrow> bytes \<Rightarrow> bytes" where
  "get_storage h a k =
     (case accounts h a of None \<Rightarrow> zero_hash
      | Some x \<Rightarrow> (case acc_storage x k of None \<Rightarrow> zero_hash | Some p \<Rightarrow> snd p))"

datatype storage_status = STORAGE_ASSIGNED | STORAGE_ADDED | STORAGE_DELETED | STORAGE_MODIFIED

definition set_storage :: "address \<Rightarrow> bytes \<Rightarrow> bytes \<Rightarrow> evm_host \<Rightarrow> storage_status \<times> evm_host" where
  "set_storage a k v h =
     (let (oldOrig, oldCurr) = slot (acc h a) k;
          h = upd_acc a (put_slot k (oldOrig, oldCurr)) h;
          h = h\<lparr>accessedStorages := accessedStorages h @ [(a, k)]\<rparr> in
      if oldCurr = v then (STORAGE_ASSIGNED, h)
      else
        let status =
          (if oldOrig = oldCurr then
             (if \<not> nonzero_bytes oldCurr then STORAGE_ADDED
              else if nonzero_bytes v then STORAGE_MODIFIED
              else STORAGE_DELETED)
           else STORAGE_ASSIGNED) in
        (status, upd_acc a (put_slot k (oldOrig, v)) h))"

definition get_balance :: "evm_host \<Rightarrow> address \<Rightarrow> nat" where
  "get_balance h a = (case accounts h a of None \<Rightarrow> 0 | Some x \<Rightarrow> snd (acc_balance x))"

definition get_code_size :: "evm_host \<Rightarrow> address \<Rightarrow> nat" where
  "get_code_size h a = (case accounts h a of None \<Rightarrow> 0 | Some x \<Rightarrow> length (snd (acc_code x)))"

definition get_code_hash :: "evm_host \<Rightarrow> address \<Rightarrow> bytes" where
  "get_code_hash h a = (case accounts h a of None \<Rightarrow> zero_hash | Some x \<Rightarrow> snd (acc_codeHash x))"

text \<open>\<^verbatim>\<open>copy_code\<close>: the bytes written to the buffer; their number is the result.\<close>

definition copy_code :: "evm_host \<Rightarrow> address \<Rightarrow> nat \<Rightarrow> nat \<Rightarrow> bytes" where
  "copy_code h a code_offset buffer_size =
     (case accounts h a of None \<Rightarrow> []
      | Some x \<Rightarrow>
          let code = snd (acc_code x) in
          if code_offset \<ge> length code then []
          else take (min buffer_size (length code - code_offset)) (drop code_offset code))"

definition selfdestruct :: "evm_host \<Rightarrow> bool \<times> evm_host" where
  "selfdestruct h = (False, h\<lparr>shouldRevert := True\<rparr>)"

definition emit_log :: "address \<Rightarrow> bytes \<Rightarrow> bytes list \<Rightarrow> evm_host \<Rightarrow> evm_host" where
  "emit_log a d topics h =
     h\<lparr>emittedEvents := emittedEvents h @ [\<lparr>ev_creator = a, ev_data = d, ev_topics = topics\<rparr>]\<rparr>"

definition get_transient_storage :: "evm_host \<Rightarrow> address \<Rightarrow> bytes \<Rightarrow> bytes" where
  "get_transient_storage h a k =
     (case accounts h a of None \<Rightarrow> zero_hash
      | Some x \<Rightarrow> (case acc_transient x k of None \<Rightarrow> zero_hash | Some v \<Rightarrow> v))"

definition set_transient_storage :: "address \<Rightarrow> bytes \<Rightarrow> bytes \<Rightarrow> evm_host \<Rightarrow> evm_host" where
  "set_transient_storage a k v h =
     upd_acc a (\<lambda>x. x\<lparr>acc_transient := (acc_transient x)(k \<mapsto> v)\<rparr>)
       (h\<lparr>accessedTransients := accessedTransients h @ [a]\<rparr>)"

definition setBalance :: "address \<Rightarrow> nat \<Rightarrow> evm_host \<Rightarrow> evm_host" where
  "setBalance a v = upd_acc a (\<lambda>x. x\<lparr>acc_balance := (fst (acc_balance x), v)\<rparr>)"

definition setTxContext :: "call_info \<Rightarrow> nat \<Rightarrow> address \<Rightarrow> nat \<Rightarrow> nat \<Rightarrow> nat \<Rightarrow> evm_host \<Rightarrow> evm_host" where
  "setTxContext tx blockHeight blockCoinbase blockTimestamp blockGasLimit chainId h =
     h\<lparr>currentTxContext := \<lparr>cx_gas_price = ci_gasPrice tx, cx_origin = ci_from tx,
         cx_coinbase = blockCoinbase, cx_number = blockHeight, cx_timestamp = blockTimestamp,
         cx_gas_limit = blockGasLimit, cx_chain_id = chainId\<rparr>\<rparr>"

section \<open>Definitions: commit and revert\<close>

text \<open>The loops over the accessed addresses; an address may occur more than once.\<close>

definition commit_slot :: "address \<times> bytes \<Rightarrow> evm_host \<Rightarrow> evm_host" where
  "commit_slot = (\<lambda>(a, k). upd_acc a (\<lambda>x. put_slot k (snd (slot x k), snd (slot x k)) x))"

definition revert_slot :: "address \<times> bytes \<Rightarrow> evm_host \<Rightarrow> evm_host" where
  "revert_slot = (\<lambda>(a, k). upd_acc a (\<lambda>x. put_slot k (fst (slot x k), fst (slot x k)) x))"

definition clear_transient :: "address \<Rightarrow> evm_host \<Rightarrow> evm_host" where
  "clear_transient a = upd_acc a (\<lambda>x. x\<lparr>acc_transient := Map.empty\<rparr>)"

definition commit :: "evm_host \<Rightarrow> evm_host" where
  "commit h =
     (let h = fold commit_slot (accessedStorages h) h;
          h = fold clear_transient (accessedTransients h) h in
      h\<lparr>accessedStorages := [], accessedTransients := [], currentTxHash := zero_hash, emittedEvents := []\<rparr>)"

definition revert :: "evm_host \<Rightarrow> evm_host" where
  "revert h =
     (let h = fold revert_slot (accessedStorages h) h;
          h = fold clear_transient (accessedTransients h) h;
          h = h\<lparr>contractAddresses := (\<lambda>k. if k \<in> set (recentlyCreatedContracts h) then None
                else contractAddresses h k)\<rparr> in
      h\<lparr>accessedStorages := [], accessedTransients := [], recentlyCreatedContracts := [],
        currentTxHash := zero_hash, emittedEvents := []\<rparr>)"

definition commit_balance_of :: "address \<Rightarrow> evm_host \<Rightarrow> evm_host" where
  "commit_balance_of a = upd_acc a (\<lambda>x. x\<lparr>acc_balance := (snd (acc_balance x), snd (acc_balance x))\<rparr>)"

definition commitBalance :: "evm_host \<Rightarrow> evm_host" where
  "commitBalance h =
     (fold commit_balance_of (accessedAccountsBalances h) h)\<lparr>accessedAccountsBalances := []\<rparr>"

definition revert_balance_of :: "address \<Rightarrow> evm_host \<Rightarrow> evm_host" where
  "revert_balance_of a = upd_acc a (\<lambda>x. x\<lparr>acc_balance := (fst (acc_balance x), fst (acc_balance x))\<rparr>)"

definition revertBalance :: "evm_host \<Rightarrow> evm_host" where
  "revertBalance h =
     (fold revert_balance_of (accessedAccountsBalances h) h)\<lparr>accessedAccountsBalances := []\<rparr>"

definition commit_code_of :: "address \<Rightarrow> evm_host \<Rightarrow> evm_host" where
  "commit_code_of a = upd_acc a (\<lambda>x. x\<lparr>acc_code := (snd (acc_code x), snd (acc_code x)),
     acc_codeHash := (snd (acc_codeHash x), snd (acc_codeHash x))\<rparr>)"

definition commitCode :: "evm_host \<Rightarrow> evm_host" where
  "commitCode h = (fold commit_code_of (accessedAccountsCode h) h)
     \<lparr>recentlyCreatedContracts := [], accessedAccountsCode := []\<rparr>"

definition revert_code_of :: "address \<Rightarrow> evm_host \<Rightarrow> evm_host" where
  "revert_code_of a = upd_acc a (\<lambda>x. x\<lparr>acc_code := (fst (acc_code x), fst (acc_code x)),
     acc_codeHash := (fst (acc_codeHash x), fst (acc_codeHash x))\<rparr>)"

definition revertCode :: "evm_host \<Rightarrow> evm_host" where
  "revertCode h = (fold revert_code_of (accessedAccountsCode h) h)\<lparr>accessedAccountsCode := []\<rparr>"

definition commit_nonce_of :: "address \<Rightarrow> evm_host \<Rightarrow> evm_host" where
  "commit_nonce_of a = upd_acc a (\<lambda>x. x\<lparr>acc_nonce := (snd (acc_nonce x), snd (acc_nonce x))\<rparr>)"

definition commitNonce :: "evm_host \<Rightarrow> evm_host" where
  "commitNonce h = (fold commit_nonce_of (accessedAccountsNonces h) h)\<lparr>accessedAccountsNonces := []\<rparr>"

definition revert_nonce_of :: "address \<Rightarrow> evm_host \<Rightarrow> evm_host" where
  "revert_nonce_of a = upd_acc a (\<lambda>x. x\<lparr>acc_nonce := (fst (acc_nonce x), fst (acc_nonce x))\<rparr>)"

definition revertNonce :: "evm_host \<Rightarrow> evm_host" where
  "revertNonce h = (fold revert_nonce_of (accessedAccountsNonces h) h)\<lparr>accessedAccountsNonces := []\<rparr>"

section \<open>Definitions: running a transaction\<close>

definition isEvmContract :: "evm_host \<Rightarrow> address \<Rightarrow> bool" where
  "isEvmContract h a = (case accounts h a of None \<Rightarrow> False | Some x \<Rightarrow> length (snd (acc_code x)) > 0)"

text \<open>
  \<^verbatim>\<open>deriveContractAddress\<close>: the bytes it hashes are a one-byte size, the raw address and one
  byte for the nonce: the nonce itself below 0x80, otherwise only the length of the nonce.
\<close>

definition contract_preimage :: "nat \<Rightarrow> address \<Rightarrow> bytes" where
  "contract_preimage nonce a =
     (let rlpSize = (192 + 20 + (if nonce < 128 then 1 else 1 + bytesRequired nonce)) mod 256 in
      [word_of_nat rlpSize] @ a
      @ [if nonce < 128 then word_of_nat nonce else word_of_nat (128 + bytesRequired nonce)])"

definition deriveContractAddress :: "crypto \<Rightarrow> nat \<Rightarrow> address \<Rightarrow> address" where
  "deriveContractAddress c nonce a = drop 12 (keccak c (contract_preimage nonce a))"

record evmc_message =
  m_create :: bool
  m_gas :: int
  m_recipient :: address
  m_sender :: address
  m_input :: bytes
  m_value :: nat

record evmc_result =
  res_status :: nat
  res_gas_left :: int
  res_output :: bytes

text \<open>The machine: it gets a message, the code to run and the host, which it may change.\<close>

type_synonym evm = "evmc_message \<Rightarrow> bytes \<Rightarrow> evm_host \<Rightarrow> evmc_result \<times> evm_host"

definition to_int64 :: "nat \<Rightarrow> int" where
  "to_int64 n = (let m = n mod 2 ^ 64 in if m < 2 ^ 63 then int m else int m - 2 ^ 64)"

definition createContract :: "crypto \<Rightarrow> evm \<Rightarrow> call_info \<Rightarrow> (evm_host, evmc_result) meth" where
  "createContract c vm tx h =
     (let h = upd_acc (ci_from tx) (\<lambda>x. x) h;
          contractAddress = deriveContractAddress c (snd (acc_nonce (acc h (ci_from tx)))) (ci_from tx) in
      if ci_gasLimit tx \<ge> 2 ^ 64 then (Inl BoostError, h)
      else
        let msg = \<lparr>m_create = True, m_gas = to_int64 (ci_gasLimit tx), m_recipient = contractAddress,
              m_sender = ci_from tx, m_input = [], m_value = ci_value tx\<rparr>;
            (creationResult, h) = vm msg (ci_fullData tx) h in
        if res_status creationResult \<noteq> 0 then (Inr creationResult, h)
        else
          let code = res_output creationResult;
              h = upd_acc contractAddress (\<lambda>x. x\<lparr>acc_codeHash := (fst (acc_codeHash x), keccak c code),
                    acc_code := (fst (acc_code x), code)\<rparr>) h;
              h = h\<lparr>recentlyCreatedContracts := recentlyCreatedContracts h @ [currentTxHash h],
                    contractAddresses := (contractAddresses h)(currentTxHash h \<mapsto> contractAddress),
                    accessedAccountsCode := accessedAccountsCode h @ [contractAddress]\<rparr>
          in (Inr creationResult, h))"

definition execute :: "crypto \<Rightarrow> evm \<Rightarrow> call_info \<Rightarrow> (evm_host, evmc_result) meth" where
  "execute c vm tx h =
     (if ci_to tx = zero_address then createContract c vm tx h
      else if ci_gasLimit tx \<ge> 2 ^ 63 then (Inl BoostError, h)
      else
        let msg = \<lparr>m_create = False, m_gas = int (ci_gasLimit tx), m_recipient = ci_to tx,
              m_sender = ci_from tx, m_input = ci_fullData tx, m_value = ci_value tx\<rparr>;
            h = upd_acc (ci_to tx) (\<lambda>x. x) h;
            (result, h) = vm msg (snd (acc_code (acc h (ci_to tx)))) h in
        (Inr result, h))"

section \<open>Lemmas: accounts and slots\<close>

lemma acc_upd_acc: "acc (upd_acc a f h) b = (if b = a then f (acc h a) else acc h b)"
  by (simp add: acc_def upd_acc_def)

lemma upd_acc_fields [simp]:
  "accessedAccountsBalances (upd_acc a f h) = accessedAccountsBalances h"
  "accessedAccountsCode (upd_acc a f h) = accessedAccountsCode h"
  "accessedAccountsNonces (upd_acc a f h) = accessedAccountsNonces h"
  "accessedStorages (upd_acc a f h) = accessedStorages h"
  "accessedTransients (upd_acc a f h) = accessedTransients h"
  "contractAddresses (upd_acc a f h) = contractAddresses h"
  "recentlyCreatedContracts (upd_acc a f h) = recentlyCreatedContracts h"
  "emittedEvents (upd_acc a f h) = emittedEvents h"
  "shouldRevert (upd_acc a f h) = shouldRevert h"
  "currentTxHash (upd_acc a f h) = currentTxHash h"
  by (simp_all add: upd_acc_def)

lemma acc_upd_fields [simp]:
  "acc (h\<lparr>accessedAccountsBalances := x1\<rparr>) = acc h"
  "acc (h\<lparr>accessedAccountsCode := x2\<rparr>) = acc h"
  "acc (h\<lparr>accessedAccountsNonces := x2\<rparr>) = acc h"
  "acc (h\<lparr>accessedStorages := x3\<rparr>) = acc h"
  "acc (h\<lparr>accessedTransients := x4\<rparr>) = acc h"
  "acc (h\<lparr>contractAddresses := x5\<rparr>) = acc h"
  "acc (h\<lparr>recentlyCreatedContracts := x6\<rparr>) = acc h"
  "acc (h\<lparr>emittedEvents := x7\<rparr>) = acc h"
  "acc (h\<lparr>shouldRevert := x8\<rparr>) = acc h"
  "acc (h\<lparr>randomGen := x9\<rparr>) = acc h"
  "acc (h\<lparr>currentTxHash := x9\<rparr>) = acc h"
  "acc (h\<lparr>currentTxContext := x10\<rparr>) = acc h"
  by (simp_all add: acc_def fun_eq_iff)

lemma slot_put_slot: "slot (put_slot k p x) j = (if j = k then p else slot x j)"
  by (simp add: slot_def put_slot_def)

text \<open>The parts of an account that each group of functions works on.\<close>

definition storage_cell :: "evm_host \<Rightarrow> address \<times> bytes \<Rightarrow> bytes \<times> bytes" where
  "storage_cell h = (\<lambda>(a, k). slot (acc h a) k)"

definition balance_cell :: "evm_host \<Rightarrow> address \<Rightarrow> nat \<times> nat" where
  "balance_cell h a = acc_balance (acc h a)"

definition nonce_cell :: "evm_host \<Rightarrow> address \<Rightarrow> nat \<times> nat" where
  "nonce_cell h a = acc_nonce (acc h a)"

definition code_cell :: "evm_host \<Rightarrow> address \<Rightarrow> (bytes \<times> bytes) \<times> bytes \<times> bytes" where
  "code_cell h a = ((fst (acc_code (acc h a)), fst (acc_codeHash (acc h a))),
     (snd (acc_code (acc h a)), snd (acc_codeHash (acc h a))))"

lemma get_storage_cell: "get_storage h a k = snd (storage_cell h (a, k))"
  by (simp add: get_storage_def storage_cell_def slot_def acc_def empty_account_def split: option.split)

lemma get_balance_cell: "get_balance h a = snd (balance_cell h a)"
  by (simp add: get_balance_def balance_cell_def acc_def empty_account_def split: option.split)

section \<open>Lemmas: commit and revert as a journal\<close>

text \<open>
  Every group has the same contract: a cell holds an original and a current value, a list
  names the cells that were touched, commit copies the current value over the original one in
  these cells, revert the other way round, and both empty the list.
\<close>

locale journal =
  fixes cell :: "'h \<Rightarrow> 'k \<Rightarrow> 'v \<times> 'v" and touched :: "'h \<Rightarrow> 'k list"
    and do_commit :: "'h \<Rightarrow> 'h" and do_revert :: "'h \<Rightarrow> 'h"
  assumes commit_cell: "cell (do_commit h) k =
      (if k \<in> set (touched h) then (snd (cell h k), snd (cell h k)) else cell h k)"
    and revert_cell: "cell (do_revert h) k =
      (if k \<in> set (touched h) then (fst (cell h k), fst (cell h k)) else cell h k)"
    and commit_touched: "touched (do_commit h) = []"
    and revert_touched: "touched (do_revert h) = []"
begin

lemma commit_current: "snd (cell (do_commit h) k) = snd (cell h k)"
  by (simp add: commit_cell)

lemma revert_original: "fst (cell (do_revert h) k) = fst (cell h k)"
  by (simp add: revert_cell)

text \<open>A host whose untouched cells are unchanged is restored by a revert and settled by a commit.\<close>

lemma revert_restores:
  assumes "\<And>k. k \<notin> set (touched h') \<Longrightarrow> cell h' k = cell h k" "\<And>k. fst (cell h' k) = fst (cell h k)"
    and "\<And>k. fst (cell h k) = snd (cell h k)"
  shows "cell (do_revert h') k = cell h k"
  using assms[of k] by (cases "cell h k") (simp add: revert_cell)

lemma commit_settles:
  assumes "\<And>k. k \<notin> set (touched h') \<Longrightarrow> fst (cell h' k) = snd (cell h' k)"
  shows "cell (do_commit h') k = (snd (cell h' k), snd (cell h' k))"
  using assms[of k] by (cases "cell h' k") (simp add: commit_cell)

end

text \<open>A loop of the form \<open>fold (upd at a cell) touched\<close>.\<close>

lemma fold_cell_upd:
  assumes one: "\<And>p h k. cell (f p h) k = (if k = p then g (cell h p) else cell h k)"
    and idem: "\<And>x. g (g x) = g x"
  shows "cell (fold f ps h) k = (if k \<in> set ps then g (cell h k) else cell h k)"
proof (induction ps arbitrary: h)
  case (Cons p ps)
  then show ?case using idem by (simp add: one)
qed simp

lemma fold_field: "(\<And>p h. fld (f p h) = fld h) \<Longrightarrow> fld (fold f ps h) = fld h"
  by (induction ps arbitrary: h) simp_all

lemma commit_slot_cell:
  "storage_cell (commit_slot p h) k = (if k = p then (\<lambda>x. (snd x, snd x)) (storage_cell h p) else storage_cell h k)"
  by (cases p; cases k) (simp add: storage_cell_def commit_slot_def acc_upd_acc slot_put_slot)

lemma revert_slot_cell:
  "storage_cell (revert_slot p h) k = (if k = p then (\<lambda>x. (fst x, fst x)) (storage_cell h p) else storage_cell h k)"
  by (cases p; cases k) (simp add: storage_cell_def revert_slot_def acc_upd_acc slot_put_slot)

lemma clear_transient_cell: "storage_cell (clear_transient a h) = storage_cell h"
  by (rule ext) (simp add: storage_cell_def clear_transient_def acc_upd_acc slot_def split: prod.split)

lemma fold_clear_cell: "storage_cell (fold clear_transient ps h) = storage_cell h"
  by (rule fold_field) (rule clear_transient_cell)

lemma storage_cell_fields [simp]:
  "storage_cell (h\<lparr>accessedStorages := x1\<rparr>) = storage_cell h"
  "storage_cell (h\<lparr>accessedTransients := x2\<rparr>) = storage_cell h"
  "storage_cell (h\<lparr>contractAddresses := x3\<rparr>) = storage_cell h"
  "storage_cell (h\<lparr>recentlyCreatedContracts := x4\<rparr>) = storage_cell h"
  "storage_cell (h\<lparr>currentTxHash := x5\<rparr>) = storage_cell h"
  "storage_cell (h\<lparr>emittedEvents := x6\<rparr>) = storage_cell h"
  "storage_cell (h\<lparr>shouldRevert := x7\<rparr>) = storage_cell h"
  by (simp_all add: storage_cell_def)

interpretation storage_log: journal storage_cell accessedStorages commit revert
proof
  fix h k
  show "storage_cell (commit h) k =
      (if k \<in> set (accessedStorages h) then (snd (storage_cell h k), snd (storage_cell h k)) else storage_cell h k)"
    using fold_cell_upd[of storage_cell commit_slot "\<lambda>x. (snd x, snd x)", OF commit_slot_cell]
    by (simp add: commit_def Let_def fold_clear_cell)
  show "storage_cell (revert h) k =
      (if k \<in> set (accessedStorages h) then (fst (storage_cell h k), fst (storage_cell h k)) else storage_cell h k)"
    using fold_cell_upd[of storage_cell revert_slot "\<lambda>x. (fst x, fst x)", OF revert_slot_cell]
    by (simp add: revert_def Let_def fold_clear_cell)
qed (simp_all add: commit_def revert_def Let_def)

lemma balance_of_cells:
  "balance_cell (commit_balance_of p h) k = (if k = p then (\<lambda>x. (snd x, snd x)) (balance_cell h p) else balance_cell h k)"
  "balance_cell (revert_balance_of p h) k = (if k = p then (\<lambda>x. (fst x, fst x)) (balance_cell h p) else balance_cell h k)"
  by (simp_all add: balance_cell_def commit_balance_of_def revert_balance_of_def acc_upd_acc)

lemma nonce_of_cells:
  "nonce_cell (commit_nonce_of p h) k = (if k = p then (\<lambda>x. (snd x, snd x)) (nonce_cell h p) else nonce_cell h k)"
  "nonce_cell (revert_nonce_of p h) k = (if k = p then (\<lambda>x. (fst x, fst x)) (nonce_cell h p) else nonce_cell h k)"
  by (simp_all add: nonce_cell_def commit_nonce_of_def revert_nonce_of_def acc_upd_acc)

lemma code_of_cells:
  "code_cell (commit_code_of p h) k = (if k = p then (\<lambda>x. (snd x, snd x)) (code_cell h p) else code_cell h k)"
  "code_cell (revert_code_of p h) k = (if k = p then (\<lambda>x. (fst x, fst x)) (code_cell h p) else code_cell h k)"
  by (simp_all add: code_cell_def commit_code_of_def revert_code_of_def acc_upd_acc)

lemma cells_fields [simp]:
  "balance_cell (h\<lparr>accessedAccountsBalances := x1\<rparr>) = balance_cell h"
  "nonce_cell (h\<lparr>accessedAccountsNonces := x1\<rparr>) = nonce_cell h"
  "code_cell (h\<lparr>accessedAccountsCode := x1\<rparr>) = code_cell h"
  "code_cell (h\<lparr>recentlyCreatedContracts := x2\<rparr>) = code_cell h"
  by (simp_all add: balance_cell_def nonce_cell_def code_cell_def fun_eq_iff)

interpretation balance_log: journal balance_cell accessedAccountsBalances commitBalance revertBalance
  by unfold_locales
    (simp_all add: commitBalance_def revertBalance_def
      fold_cell_upd[of balance_cell commit_balance_of "\<lambda>x. (snd x, snd x)", OF balance_of_cells(1)]
      fold_cell_upd[of balance_cell revert_balance_of "\<lambda>x. (fst x, fst x)", OF balance_of_cells(2)])

interpretation nonce_log: journal nonce_cell accessedAccountsNonces commitNonce revertNonce
  by unfold_locales
    (simp_all add: commitNonce_def revertNonce_def
      fold_cell_upd[of nonce_cell commit_nonce_of "\<lambda>x. (snd x, snd x)", OF nonce_of_cells(1)]
      fold_cell_upd[of nonce_cell revert_nonce_of "\<lambda>x. (fst x, fst x)", OF nonce_of_cells(2)])

interpretation code_log: journal code_cell accessedAccountsCode commitCode revertCode
  by unfold_locales
    (simp_all add: commitCode_def revertCode_def
      fold_cell_upd[of code_cell commit_code_of "\<lambda>x. (snd x, snd x)", OF code_of_cells(1)]
      fold_cell_upd[of code_cell revert_code_of "\<lambda>x. (fst x, fst x)", OF code_of_cells(2)])


section \<open>Lemmas: what a running machine can do to the host\<close>

text \<open>
  A machine reaches the host only through its interface; these are the members of it that
  change the host. \<open>touch\<close> is the access \<^verbatim>\<open>accounts[msg.recipient]\<close> of a nested call, \<open>draw\<close> a use of the
  random generator.
\<close>

inductive host_call :: "evm_host \<Rightarrow> evm_host \<Rightarrow> bool" where
  store: "host_call h (snd (set_storage a k v h))"
| transient: "host_call h (set_transient_storage a k v h)"
| log: "host_call h (emit_log a d ts h)"
| destruct: "host_call h (snd (selfdestruct h))"
| touch: "host_call h (upd_acc a (\<lambda>x. x) h)"
| draw: "host_call h (h\<lparr>randomGen := seed\<rparr>)"

lemma set_storage_cell:
  "storage_cell (snd (set_storage a k v h)) p =
    (if p = (a, k) then (fst (storage_cell h (a, k)), v) else storage_cell h p)"
  "accessedStorages (snd (set_storage a k v h)) = accessedStorages h @ [(a, k)]"
  "accessedTransients (snd (set_storage a k v h)) = accessedTransients h"
  by (cases p; cases "slot (acc h a) k";
      auto simp: set_storage_def storage_cell_def Let_def acc_upd_acc slot_put_slot)+

lemma other_calls_cell:
  "storage_cell (set_transient_storage a k v h) = storage_cell h"
  "storage_cell (emit_log a d ts h) = storage_cell h"
  "storage_cell (snd (selfdestruct h)) = storage_cell h"
  "storage_cell (upd_acc a (\<lambda>x. x) h) = storage_cell h"
  "storage_cell (h\<lparr>randomGen := seed\<rparr>) = storage_cell h"
  by (rule ext; simp add: storage_cell_def set_transient_storage_def emit_log_def selfdestruct_def
      acc_upd_acc slot_def split: prod.split)+

lemma other_calls_log:
  "accessedStorages (set_transient_storage a k v h) = accessedStorages h"
  "accessedStorages (emit_log a d ts h) = accessedStorages h"
  "accessedStorages (snd (selfdestruct h)) = accessedStorages h"
  by (simp_all add: set_transient_storage_def emit_log_def selfdestruct_def)

text \<open>The transient storage of an account, and which accounts have one.\<close>

definition transient_of :: "evm_host \<Rightarrow> address \<Rightarrow> bytes \<Rightarrow> bytes option" where
  "transient_of h a = acc_transient (acc h a)"

lemma calls_transient:
  "transient_of (snd (set_storage a k v h)) = transient_of h"
  "transient_of (set_transient_storage a k v h) = (transient_of h)(a := (transient_of h a)(k \<mapsto> v))"
  "transient_of (emit_log a d ts h) = transient_of h"
  "transient_of (snd (selfdestruct h)) = transient_of h"
  "transient_of (upd_acc a (\<lambda>x. x) h) = transient_of h"
  "transient_of (h\<lparr>randomGen := seed\<rparr>) = transient_of h"
  by (cases "slot (acc h a) k"; auto simp: fun_eq_iff transient_of_def set_storage_def set_transient_storage_def
    emit_log_def selfdestruct_def acc_upd_acc put_slot_def Let_def)+

lemma calls_transient_log:
  "accessedTransients (set_transient_storage a k v h) = accessedTransients h @ [a]"
  "accessedTransients (emit_log a d ts h) = accessedTransients h"
  "accessedTransients (snd (selfdestruct h)) = accessedTransients h"
  by (simp_all add: set_transient_storage_def emit_log_def selfdestruct_def)

lemma slot_loops_transient:
  "transient_of (commit_slot p h) = transient_of h" "transient_of (revert_slot p h) = transient_of h"
  "transient_of (clear_transient a h) b = (if b = a then Map.empty else transient_of h b)"
  by (cases p; auto simp: fun_eq_iff transient_of_def commit_slot_def revert_slot_def clear_transient_def
    acc_upd_acc put_slot_def)+

lemma fold_clear_transient:
  "transient_of (fold clear_transient ps h) a = (if a \<in> set ps then Map.empty else transient_of h a)"
  by (induction ps arbitrary: h) (auto simp: slot_loops_transient(3))

lemma settle_transient:
  "transient_of (commit h) a = (if a \<in> set (accessedTransients h) then Map.empty else transient_of h a)"
  "transient_of (revert h) a = (if a \<in> set (accessedTransients h) then Map.empty else transient_of h a)"
proof -
  have c: "transient_of (fold commit_slot ps g) = transient_of g"
    "transient_of (fold revert_slot ps g) = transient_of g"
    "accessedTransients (fold commit_slot ps g) = accessedTransients g"
    "accessedTransients (fold revert_slot ps g) = accessedTransients g" for ps g
    by (rule fold_field, simp add: slot_loops_transient,
        rule fold_field, simp add: slot_loops_transient,
        rule fold_field, simp add: commit_slot_def split: prod.split,
        rule fold_field, simp add: revert_slot_def split: prod.split)
  have f: "transient_of (g\<lparr>accessedStorages := x1, accessedTransients := x2, currentTxHash := x3, emittedEvents := x4\<rparr>)
      = transient_of g" for g x1 x2 x3 x4
    by (simp add: transient_of_def fun_eq_iff)
  show "transient_of (commit h) a = (if a \<in> set (accessedTransients h) then Map.empty else transient_of h a)"
    by (simp add: commit_def Let_def f c fold_clear_transient)
  show "transient_of (revert h) a = (if a \<in> set (accessedTransients h) then Map.empty else transient_of h a)"
  proof -
    have "transient_of (revert h) a =
        transient_of (fold clear_transient (accessedTransients h) (fold revert_slot (accessedStorages h) h)) a"
      by (simp add: revert_def Let_def transient_of_def c(4))
    then show ?thesis by (simp only: fold_clear_transient c(2))
  qed
qed

text \<open>
  What holds between the start \<open>h\<close> of a transaction and any later moment of it: the original
  values are those of the start, and a cell that differs from the start is on the list.
\<close>

definition in_tx :: "evm_host \<Rightarrow> evm_host \<Rightarrow> bool" where
  "in_tx h h' \<longleftrightarrow> (\<forall>k. fst (storage_cell h' k) = fst (storage_cell h k))
     \<and> (\<forall>k. k \<notin> set (accessedStorages h') \<longrightarrow> storage_cell h' k = storage_cell h k)
     \<and> (\<forall>a. a \<notin> set (accessedTransients h') \<longrightarrow> transient_of h' a = transient_of h a)"

lemma in_tx_refl: "in_tx h h"
  by (simp add: in_tx_def)

lemma in_tx_step: "host_call h' h'' \<Longrightarrow> in_tx h h' \<Longrightarrow> in_tx h h''"
  by (induction rule: host_call.induct)
    (auto simp: in_tx_def set_storage_cell other_calls_cell other_calls_log calls_transient
      calls_transient_log)

lemma in_tx_calls: "host_call\<^sup>*\<^sup>* h h' \<Longrightarrow> in_tx h h'"
  by (induction rule: rtranclp_induct) (auto intro: in_tx_refl in_tx_step)

text \<open>Between transactions original and current values agree and no transient value is left.\<close>

definition host_settled :: "evm_host \<Rightarrow> bool" where
  "host_settled h \<longleftrightarrow> (\<forall>k. fst (storage_cell h k) = snd (storage_cell h k)) \<and> transient_of h = (\<lambda>_. Map.empty)
     \<and> accessedStorages h = [] \<and> accessedTransients h = [] \<and> emittedEvents h = []"

lemma get_transient_eq: "get_transient_storage h a k = (case transient_of h a k of None \<Rightarrow> zero_hash | Some v \<Rightarrow> v)"
  by (simp add: get_transient_storage_def transient_of_def acc_def empty_account_def split: option.split)

lemma settle_logs:
  "accessedTransients (commit h) = []" "accessedTransients (revert h) = []"
  "emittedEvents (commit h) = []" "emittedEvents (revert h) = []"
  by (simp_all add: commit_def revert_def Let_def)

lemma revert_settled:
  assumes "host_settled h" "in_tx h h'"
  shows "storage_cell (revert h') = storage_cell h" "host_settled (revert h')"
proof -
  show s: "storage_cell (revert h') = storage_cell h"
    using assms by (intro ext storage_log.revert_restores) (auto simp: host_settled_def in_tx_def)
  have "transient_of (revert h') = (\<lambda>_. Map.empty)"
    using assms by (intro ext) (simp add: settle_transient host_settled_def in_tx_def fun_eq_iff)
  with s assms(1) show "host_settled (revert h')"
    by (simp add: host_settled_def storage_log.revert_touched settle_logs)
qed

lemma commit_settled:
  assumes "host_settled h" "in_tx h h'"
  shows "storage_cell (commit h') k = (snd (storage_cell h' k), snd (storage_cell h' k))" "host_settled (commit h')"
proof -
  have st: "fst (storage_cell h' k) = snd (storage_cell h' k)" if "k \<notin> set (accessedStorages h')" for k
    using assms that by (cases k) (simp add: host_settled_def in_tx_def)
  show c: "storage_cell (commit h') k = (snd (storage_cell h' k), snd (storage_cell h' k))" for k
    using st by (rule storage_log.commit_settles)
  have "transient_of (commit h') = (\<lambda>_. Map.empty)"
    using assms by (intro ext) (simp add: settle_transient host_settled_def in_tx_def fun_eq_iff)
  then show "host_settled (commit h')"
    by (simp add: host_settled_def storage_log.commit_touched settle_logs c)
qed


section \<open>Properties\<close>

text \<open>
  Claim C14. Transactions on the host are atomic: from a settled host, after any calls a
  machine makes, \<^verbatim>\<open>revert\<close> gives back every storage value of the start and \<^verbatim>\<open>commit\<close> keeps every
  storage value last written; after either one no transient value and no event is left and
  the host is settled again. A value written is the value read.
\<close>
theorem evm_host_atomic:
  assumes "host_settled h" "host_call\<^sup>*\<^sup>* h h'"
  shows "(\<forall>a k. get_storage (revert h') a k = get_storage h a k)
    \<and> (\<forall>a k. get_storage (commit h') a k = get_storage h' a k)
    \<and> (\<forall>a k. get_transient_storage (revert h') a k = zero_hash \<and> get_transient_storage (commit h') a k = zero_hash)
    \<and> host_settled (revert h') \<and> host_settled (commit h')
    \<and> (\<forall>a k v b j. get_storage (snd (set_storage a k v h')) b j =
         (if b = a \<and> j = k then v else get_storage h' b j))"
proof -
  note i = in_tx_calls[OF assms(2)]
  note r = revert_settled[OF assms(1) i] and c = commit_settled[OF assms(1) i]
  have "transient_of (revert h') = (\<lambda>_. Map.empty)" "transient_of (commit h') = (\<lambda>_. Map.empty)"
    using r(2) c(2) by (simp_all add: host_settled_def)
  then show ?thesis
    using r c by (simp add: get_storage_cell get_transient_eq set_storage_cell)
qed

definition sample_host :: evm_host where
  "sample_host = \<lparr>accounts = Map.empty, accessedAccountsBalances = [], accessedAccountsCode = [],
     accessedAccountsNonces = [], accessedStorages = [], contractAddresses = Map.empty,
     recentlyCreatedContracts = [], accessedTransients = [],
     currentTxContext = \<lparr>cx_gas_price = 0, cx_origin = zero_address, cx_coinbase = zero_address,
       cx_number = 0, cx_timestamp = 0, cx_gas_limit = 0, cx_chain_id = 0\<rparr>,
     currentTxHash = zero_hash, emittedEvents = [], shouldRevert = False, randomGen = zero_hash\<rparr>"

lemma sample_host_settled: "host_settled sample_host"
  by (simp add: host_settled_def sample_host_def storage_cell_def transient_of_def slot_def acc_def
    empty_account_def fun_eq_iff)

theorem evm_host_atomic_witness:
  "get_storage (revert (snd (set_storage zero_address [1] [9] sample_host))) zero_address [1] = zero_hash
   \<and> get_storage (commit (snd (set_storage zero_address [1] [9] sample_host))) zero_address [1] = [9]"
proof -
  let ?h = "snd (set_storage zero_address [1] [9] sample_host)"
  have "host_call\<^sup>*\<^sup>* sample_host ?h" by (intro r_into_rtranclp host_call.store)
  note at = evm_host_atomic[OF sample_host_settled this]
    and at0 = evm_host_atomic[OF sample_host_settled rtranclp.rtrancl_refl]
  have "get_storage (revert ?h) zero_address [1] = get_storage sample_host zero_address [1]" using at by blast
  moreover have "get_storage (commit ?h) zero_address [1] = get_storage ?h zero_address [1]" using at by blast
  moreover have "get_storage ?h zero_address [1] = [9]" using at0 by simp
  moreover have "get_storage sample_host zero_address [1] = zero_hash"
    by (simp add: sample_host_def get_storage_def)
  ultimately show ?thesis by simp
qed

text \<open>
  The bytes hashed for the address of a new contract identify the creator, but not
  its nonce: two nonces give the same bytes exactly when they are equal or both are at least
  0x80 and have the same length. So all contracts that an account creates with the nonces
  128 to 255 get one address, and likewise for 256 to 65535.
\<close>
theorem contract_preimage_eq_iff:
  assumes "length a = 20" "length b = 20" "n < 2 ^ 256" "m < 2 ^ 256"
  shows "contract_preimage n a = contract_preimage m b \<longleftrightarrow>
    a = b \<and> (n = m \<or> 128 \<le> n \<and> 128 \<le> m \<and> bytesRequired n = bytesRequired m)"
proof -
  have last: "unat (if x < 128 then word_of_nat x else word_of_nat (128 + bytesRequired x) :: byte)
      = (if x < 128 then x else 128 + bytesRequired x)" if "x < 2 ^ 256" for x
    using bytesRequired_256[OF that] unat_small_byte[of "128 + bytesRequired x"] unat_small_byte[of x]
    by (simp del: of_nat_add)
  have inj: "(if n < 128 then word_of_nat n else word_of_nat (128 + bytesRequired n) :: byte)
      = (if m < 128 then word_of_nat m else word_of_nat (128 + bytesRequired m)) \<longleftrightarrow>
      n = m \<or> 128 \<le> n \<and> 128 \<le> m \<and> bytesRequired n = bytesRequired m"
    unfolding word_unat_eq_iff last[OF assms(3)] last[OF assms(4)] by auto
  show ?thesis
  proof
    assume "contract_preimage n a = contract_preimage m b"
    then show "a = b \<and> (n = m \<or> 128 \<le> n \<and> 128 \<le> m \<and> bytesRequired n = bytesRequired m)"
      using inj assms(1,2) unfolding contract_preimage_def Let_def by (simp only: append.simps list.inject append_eq_append_conv) blast
  qed (auto simp: contract_preimage_def)
qed

theorem contract_preimage_eq_iff_witness:
  "contract_preimage 128 (replicate 20 1) = contract_preimage 255 (replicate 20 1)
   \<and> contract_preimage 127 (replicate 20 1) \<noteq> contract_preimage 128 (replicate 20 1)
   \<and> deriveContractAddress sample_crypto 128 (replicate 20 1) = deriveContractAddress sample_crypto 255 (replicate 20 1)"
  using contract_preimage_eq_iff[of "replicate 20 1" "replicate 20 1" 128 255]
    contract_preimage_eq_iff[of "replicate 20 1" "replicate 20 1" 127 128]
  by (simp add: bytesRequired_step deriveContractAddress_def)

end
