(* ===== verification/Database.thy ===== *)
theory Database
  imports Prelude "HOL-Library.Sublist"
begin

text \<open>
  The database wrapper (\<^verbatim>\<open>src/src/utils/db.h\<close>, \<^verbatim>\<open>db.cpp\<close>): keys with prefixes, batches, and the
  queries that walk an iterator. The engine below it (RocksDB) is a parameter.
\<close>

section \<open>Definitions: the engine\<close>

text \<open>
  What the wrapper uses of the engine: the entries in the order of an iterator, and a write
  batch, which reports whether it was applied.
\<close>

datatype write_op = Put bytes bytes | Delete bytes

record 'd rocksdb =
  rk_entries :: "'d \<Rightarrow> (bytes \<times> bytes) list"
  rk_write :: "write_op list \<Rightarrow> 'd \<Rightarrow> bool \<times> 'd"

text \<open>\<^verbatim>\<open>it->Seek(key)\<close>: the entries from the first key that is not below the given one.\<close>

definition seek :: "bytes \<Rightarrow> (bytes \<times> bytes) list \<Rightarrow> (bytes \<times> bytes) list" where
  "seek k es = dropWhile (\<lambda>(k', _). k' < k) es"

definition starts_with :: "bytes \<Rightarrow> bytes \<Rightarrow> bool" where
  "starts_with k pfx = (length pfx \<le> length k \<and> take (length pfx) k = pfx)"

section \<open>Definitions: the wrapper\<close>

definition DB_has :: "'d rocksdb \<Rightarrow> 'd \<Rightarrow> bytes \<Rightarrow> bytes \<Rightarrow> bool" where
  "DB_has e d key pfx = list_ex (\<lambda>(k, _). k = pfx @ key) (seek (pfx @ key) (rk_entries e d))"

definition DB_get :: "'d rocksdb \<Rightarrow> 'd \<Rightarrow> bytes \<Rightarrow> bytes \<Rightarrow> bytes" where
  "DB_get e d key pfx =
     (case List.find (\<lambda>(k, _). k = pfx @ key) (seek (pfx @ key) (rk_entries e d)) of
        Some (_, v) \<Rightarrow> v | None \<Rightarrow> [])"

definition DB_put :: "'d rocksdb \<Rightarrow> bytes \<Rightarrow> bytes \<Rightarrow> bytes \<Rightarrow> 'd \<Rightarrow> bool \<times> 'd" where
  "DB_put e key value pfx d = rk_write e [Put (pfx @ key) value] d"

definition DB_del :: "'d rocksdb \<Rightarrow> bytes \<Rightarrow> bytes \<Rightarrow> 'd \<Rightarrow> bool \<times> 'd" where
  "DB_del e key pfx d = rk_write e [Delete (pfx @ key)] d"

record db_batch =
  bt_puts :: "(bytes \<times> bytes) list"
  bt_dels :: "bytes list"

definition empty_batch :: db_batch where
  "empty_batch = \<lparr>bt_puts = [], bt_dels = []\<rparr>"

definition batch_push_back :: "bytes \<Rightarrow> bytes \<Rightarrow> bytes \<Rightarrow> db_batch \<Rightarrow> db_batch" where
  "batch_push_back key value pfx b = b\<lparr>bt_puts := bt_puts b @ [(pfx @ key, value)]\<rparr>"

definition batch_delete_key :: "bytes \<Rightarrow> bytes \<Rightarrow> db_batch \<Rightarrow> db_batch" where
  "batch_delete_key key pfx b = b\<lparr>bt_dels := bt_dels b @ [pfx @ key]\<rparr>"

text \<open>The deletions go first, whatever the order in which the batch was filled.\<close>

definition DB_putBatch :: "'d rocksdb \<Rightarrow> db_batch \<Rightarrow> 'd \<Rightarrow> bool \<times> 'd" where
  "DB_putBatch e b d = rk_write e (map Delete (bt_dels b) @ map (\<lambda>(k, v). Put k v) (bt_puts b)) d"

definition strip :: "bytes \<Rightarrow> bytes \<times> bytes \<Rightarrow> bytes \<times> bytes" where
  "strip pfx = (\<lambda>(k, v). (drop (length pfx) k, v))"

definition DB_getBatch :: "'d rocksdb \<Rightarrow> 'd \<Rightarrow> bytes \<Rightarrow> bytes list \<Rightarrow> (bytes \<times> bytes) list" where
  "DB_getBatch e d pfx keys =
     (let es = map (strip pfx) (takeWhile (\<lambda>(k, _). starts_with k pfx) (seek pfx (rk_entries e d))) in
      if keys = [] then es
      else concat (map (\<lambda>(k, v). concat (map (\<lambda>key. if k = key then [(k, v)] else []) keys)) es))"

definition DB_getKeys :: "'d rocksdb \<Rightarrow> 'd \<Rightarrow> bytes \<Rightarrow> bytes \<Rightarrow> bytes \<Rightarrow> bytes list" where
  "DB_getKeys e d pfx start end_key =
     map (\<lambda>(k, _). drop (length pfx) k)
       (takeWhile (\<lambda>(k, _). k \<le> pfx @ end_key) (seek (pfx @ start) (rk_entries e d)))"

text \<open>The prefixes (\<^verbatim>\<open>namespace DBPrefix\<close>).\<close>

definition pfx_blocks :: bytes where "pfx_blocks = [0, 1]"
definition pfx_blockHeightMaps :: bytes where "pfx_blockHeightMaps = [0, 2]"
definition pfx_nativeAccounts :: bytes where "pfx_nativeAccounts = [0, 3]"
definition pfx_txToBlocks :: bytes where "pfx_txToBlocks = [0, 4]"

section \<open>What the engine promises\<close>

text \<open>
  A RocksDB database is a finite map from byte strings to byte strings; an iterator visits
  every key once, in the order of the bytes; a write batch that reports success has been
  applied in its order, and one that reports failure has changed nothing.
\<close>

fun apply_op :: "write_op \<Rightarrow> (bytes \<Rightarrow> bytes option) \<Rightarrow> (bytes \<Rightarrow> bytes option)" where
  "apply_op (Put k v) m = m(k \<mapsto> v)"
| "apply_op (Delete k) m = m(k := None)"

definition contents :: "'d rocksdb \<Rightarrow> 'd \<Rightarrow> bytes \<Rightarrow> bytes option" where
  "contents e d = map_of (rk_entries e d)"

definition engine_ok :: "'d rocksdb \<Rightarrow> bool" where
  "engine_ok e \<longleftrightarrow>
     (\<forall>d. sorted_wrt (<) (map fst (rk_entries e d)))
     \<and> (\<forall>ops d ok d'. rk_write e ops d = (ok, d') \<longrightarrow>
          contents e d' = (if ok then fold apply_op ops (contents e d) else contents e d))"

text \<open>A concrete engine: a sorted list of entries.\<close>

fun insert_entry :: "bytes \<Rightarrow> bytes \<Rightarrow> (bytes \<times> bytes) list \<Rightarrow> (bytes \<times> bytes) list" where
  "insert_entry k v [] = [(k, v)]"
| "insert_entry k v ((k', v') # es) =
     (if k < k' then (k, v) # (k', v') # es else if k = k' then (k, v) # es
      else (k', v') # insert_entry k v es)"

fun list_op :: "write_op \<Rightarrow> (bytes \<times> bytes) list \<Rightarrow> (bytes \<times> bytes) list" where
  "list_op (Put k v) es = insert_entry k v es"
| "list_op (Delete k) es = filter (\<lambda>(k', _). k' \<noteq> k) es"

section \<open>Lemmas: sorted entries\<close>

lemma seek_eq: "sorted_wrt (<) (map fst es) \<Longrightarrow> seek k es = filter (\<lambda>(k', _). k \<le> k') es"
proof (induction es)
  case (Cons x es)
  have "filter (\<lambda>(k', _). k \<le> k') es = es" if "k \<le> fst x"
    using Cons.prems that by (intro filter_True) auto
  with Cons show ?case by (cases x) (auto simp: seek_def not_less)
qed (simp add: seek_def)

lemma map_of_filter_key: "map_of (filter (\<lambda>(k, _). P k) es) k = (if P k then map_of es k else None)"
  by (induction es) auto

lemma find_eq_map_of:
  "List.find (\<lambda>(k', _). k' = k) es = (case map_of es k of None \<Rightarrow> None | Some v \<Rightarrow> Some (k, v))"
  by (induction es) auto

lemma find_seek:
  "sorted_wrt (<) (map fst es) \<Longrightarrow>
    List.find (\<lambda>(k', _). k' = k) (seek k es) = (case map_of es k of None \<Rightarrow> None | Some v \<Rightarrow> Some (k, v))"
  by (simp add: seek_eq find_eq_map_of map_of_filter_key)

lemma takeWhile_sorted:
  assumes "sorted_wrt (<) (map fst es)" "\<And>k k'. k < k' \<Longrightarrow> P k' \<Longrightarrow> (\<forall>x\<in>set es. l \<le> fst x) \<Longrightarrow> l \<le> k \<Longrightarrow> P k"
    "\<forall>x\<in>set es. l \<le> fst x"
  shows "takeWhile (\<lambda>(k, _). P k) es = filter (\<lambda>(k, _). P k) es"
  using assms
proof (induction es)
  case (Cons x es)
  have "filter (\<lambda>(k, _). P k) es = []" if "\<not> P (fst x)"
    using Cons.prems that by (auto simp: filter_empty_conv)
  with Cons show ?case by (cases x) auto
qed simp

text \<open>Byte strings with a common prefix are an interval of the order.\<close>

lemma append_le_iff [simp]: "p @ x \<le> p @ y \<longleftrightarrow> x \<le> (y :: bytes)"
  by (induction p) auto

lemma append_less_iff [simp]: "p @ x < p @ y \<longleftrightarrow> x < (y :: bytes)"
  by (induction p) auto

lemma between_prefix: "p @ x \<le> k \<Longrightarrow> k \<le> p @ y \<Longrightarrow> prefix p (k :: bytes)"
proof (induction p arbitrary: k)
  case (Cons a p)
  from Cons.prems obtain b k' where k: "k = b # k'" by (cases k) auto
  with Cons.prems have "a = b" by auto
  with Cons k show ?case by auto
qed simp

lemma prefix_le: "prefix p k \<Longrightarrow> p \<le> (k :: bytes)"
  using append_le_iff[of p "[]"] by (auto simp: prefix_def simp del: append_le_iff)

lemma starts_with_prefix: "starts_with k p \<longleftrightarrow> prefix p k"
  by (auto simp: starts_with_def prefix_def append_eq_conv_conj) (metis append_take_drop_id)

lemma prefix_interval: "k < k' \<Longrightarrow> prefix p k' \<Longrightarrow> p \<le> k \<Longrightarrow> prefix p (k :: bytes)"
  using between_prefix[of p "[]" k] by (auto simp: prefix_def intro: order.strict_implies_order)

lemma seek_prefix:
  assumes "sorted_wrt (<) (map fst es)"
  shows "takeWhile (\<lambda>(k, _). starts_with k p) (seek p es) = filter (\<lambda>(k, _). prefix p k) es"
proof -
  have "takeWhile (\<lambda>(k, _). prefix p k) (seek p es) = filter (\<lambda>(k, _). prefix p k) (seek p es)"
    using assms by (intro takeWhile_sorted[where l = p])
      (auto simp: seek_eq sorted_wrt_filter sorted_wrt_map intro: prefix_interval)
  also have "\<dots> = filter (\<lambda>(k, _). prefix p k) es"
    using assms by (auto simp: seek_eq intro!: filter_cong dest: prefix_le)
  finally show ?thesis by (simp add: starts_with_prefix)
qed

lemma seek_range:
  assumes "sorted_wrt (<) (map fst es)"
  shows "takeWhile (\<lambda>(k, _). k \<le> u) (seek l es) = filter (\<lambda>(k, _). l \<le> k \<and> k \<le> u) es"
proof -
  have "takeWhile (\<lambda>(k, _). k \<le> u) (seek l es) = filter (\<lambda>(k, _). k \<le> u) (seek l es)"
    using assms by (intro takeWhile_sorted[where l = l])
      (auto simp: seek_eq sorted_wrt_filter sorted_wrt_map)
  then show ?thesis using assms by (auto simp: seek_eq intro!: filter_cong)
qed

lemma map_of_strip:
  "map_of (map (strip p) (filter (\<lambda>(k, _). prefix p k) es)) k = map_of es (p @ k)"
proof (induction es)
  case (Cons x es)
  show ?case
  proof (cases "prefix p (fst x)")
    case True
    then show ?thesis using Cons.IH by (cases x) (auto simp: strip_def prefix_def)
  next
    case False
    then have "fst x \<noteq> p @ k" by auto
    with False Cons.IH show ?thesis by (cases x) auto
  qed
qed simp

lemma sorted_strip:
  "sorted_wrt (<) (map fst es) \<Longrightarrow>
    sorted_wrt (<) (map fst (map (strip p) (filter (\<lambda>(k, _). prefix p k) es)))"
  by (induction es) (auto simp: strip_def prefix_def)

section \<open>Lemmas: the wrapper on a sorted engine\<close>

named_theorems db_simps \<open>what the wrapper does, as operations on the contents\<close>

lemma engine_sorted: "engine_ok e \<Longrightarrow> sorted_wrt (<) (map fst (rk_entries e d))"
  by (simp add: engine_ok_def)

lemma engine_write:
  "engine_ok e \<Longrightarrow> rk_write e ops d = (ok, d') \<Longrightarrow>
    contents e d' = (if ok then fold apply_op ops (contents e d) else contents e d)"
  by (simp add: engine_ok_def)

lemma DB_get_contents [db_simps]:
  "engine_ok e \<Longrightarrow> DB_get e d key pfx = (case contents e d (pfx @ key) of None \<Rightarrow> [] | Some v \<Rightarrow> v)"
  by (simp add: DB_get_def find_seek engine_sorted contents_def split: option.split)

lemma list_ex_find: "list_ex P xs \<longleftrightarrow> List.find P xs \<noteq> None"
  by (induction xs) auto

lemma DB_has_contents [db_simps]:
  "engine_ok e \<Longrightarrow> DB_has e d key pfx \<longleftrightarrow> contents e d (pfx @ key) \<noteq> None"
  by (simp add: DB_has_def list_ex_find find_seek engine_sorted contents_def split: option.split)

lemma DB_put_contents [db_simps]:
  "engine_ok e \<Longrightarrow> DB_put e key v pfx d = (ok, d') \<Longrightarrow>
    contents e d' = (if ok then (contents e d)(pfx @ key \<mapsto> v) else contents e d)"
  using engine_write[of e "[Put (pfx @ key) v]"] by (simp add: DB_put_def)

lemma DB_del_contents [db_simps]:
  "engine_ok e \<Longrightarrow> DB_del e key pfx d = (ok, d') \<Longrightarrow>
    contents e d' = (if ok then (contents e d)(pfx @ key := None) else contents e d)"
  using engine_write[of e "[Delete (pfx @ key)]"] by (simp add: DB_del_def)

lemma fold_deletes: "fold apply_op (map Delete ks) m = (\<lambda>k. if k \<in> set ks then None else m k)"
  by (induction ks arbitrary: m) auto

lemma fold_puts: "fold apply_op (map (\<lambda>(k, v). Put k v) ps) m = m ++ map_of (rev ps)"
  by (induction ps arbitrary: m) (auto simp: map_add_def fun_eq_iff split: option.split)

lemma DB_putBatch_contents [db_simps]:
  "engine_ok e \<Longrightarrow> DB_putBatch e b d = (True, d') \<Longrightarrow>
    contents e d' = (\<lambda>k. if k \<in> set (bt_dels b) then None else contents e d k) ++ map_of (rev (bt_puts b))"
  using engine_write[of e "map Delete (bt_dels b) @ map (\<lambda>(k, v). Put k v) (bt_puts b)" d True d']
  by (simp add: DB_putBatch_def fold_deletes fold_puts)

lemma DB_getBatch_contents [db_simps]:
  "engine_ok e \<Longrightarrow> map_of (DB_getBatch e d pfx []) key = contents e d (pfx @ key)"
  by (simp add: DB_getBatch_def seek_prefix engine_sorted map_of_strip contents_def)

lemma DB_getBatch_sorted:
  "engine_ok e \<Longrightarrow> sorted_wrt (<) (map fst (DB_getBatch e d pfx []))"
  using sorted_strip[OF engine_sorted] by (simp add: DB_getBatch_def seek_prefix engine_sorted)

lemma set_DB_getBatch:
  "engine_ok e \<Longrightarrow> set (DB_getBatch e d pfx []) = {(k, v). contents e d (pfx @ k) = Some v}"
  using DB_getBatch_sorted[of e d pfx]
  by (auto simp flip: DB_getBatch_contents intro: map_of_is_SomeI dest: map_of_SomeD
      simp: strict_sorted_iff)

lemma DB_getKeys_eq:
  assumes "engine_ok e"
  shows "DB_getKeys e d pfx l u = filter (\<lambda>k. l \<le> k \<and> k \<le> u) (map fst (DB_getBatch e d pfx []))"
proof -
  have "map (\<lambda>(k, _). drop (length pfx) k) (filter (\<lambda>(k, _). pfx @ l \<le> k \<and> k \<le> pfx @ u) es)
      = filter (\<lambda>k. l \<le> k \<and> k \<le> u) (map fst (map (strip pfx) (filter (\<lambda>(k, _). prefix pfx k) es)))" for es
  proof (induction es)
    case (Cons x es)
    show ?case
    proof (cases "prefix pfx (fst x)")
      case True
      then show ?thesis using Cons.IH by (cases x) (auto simp: strip_def prefix_def)
    next
      case False
      then have "\<not> (pfx @ l \<le> fst x \<and> fst x \<le> pfx @ u)" using between_prefix by blast
      with False Cons.IH show ?thesis by (cases x) auto
    qed
  qed simp
  then show ?thesis
    using assms by (simp add: DB_getKeys_def DB_getBatch_def seek_range seek_prefix engine_sorted)
qed

text \<open>A concrete engine, for which the promises hold.\<close>

lemma insert_entry_map: "sorted_wrt (<) (map fst es) \<Longrightarrow> map_of (insert_entry k v es) = (map_of es)(k \<mapsto> v)"
  by (induction es) (auto simp: fun_eq_iff)

lemma insert_entry_keys: "fst ` set (insert_entry k v es) = insert k (fst ` set es)"
  by (induction k v es rule: insert_entry.induct) auto

lemma insert_entry_sorted:
  "sorted_wrt (<) (map fst es) \<Longrightarrow> sorted_wrt (<) (map fst (insert_entry k v es))"
proof (induction es)
  case (Cons x es)
  have "fst ` set (insert_entry k v es) = insert k (fst ` set es)"
    by (rule insert_entry_keys)
  with Cons show ?case by (cases x) (auto simp: not_less_iff_gr_or_eq)
qed simp

lemma list_op_sorted: "sorted_wrt (<) (map fst es) \<Longrightarrow> sorted_wrt (<) (map fst (list_op w es))"
proof (cases w)
  case (Delete k)
  then show "sorted_wrt (<) (map fst es) \<Longrightarrow> ?thesis" by (simp add: sorted_wrt_map sorted_wrt_filter)
qed (simp add: insert_entry_sorted)

lemma list_op_map: "sorted_wrt (<) (map fst es) \<Longrightarrow> map_of (list_op w es) = apply_op w (map_of es)"
  by (cases w) (auto simp: insert_entry_map map_of_filter_key fun_eq_iff)

typedef table = "{es :: (bytes \<times> bytes) list. sorted_wrt (<) (map fst es)}"
  morphisms entries_of Table
  by (rule exI[of _ "[]"]) simp

setup_lifting type_definition_table

lemma fold_list_op:
  "sorted_wrt (<) (map fst es) \<Longrightarrow> sorted_wrt (<) (map fst (fold list_op ops es))
    \<and> map_of (fold list_op ops es) = fold apply_op ops (map_of es)"
  by (induction ops arbitrary: es) (simp_all add: list_op_sorted list_op_map)

lift_definition table_write :: "write_op list \<Rightarrow> table \<Rightarrow> table" is "fold list_op"
  using fold_list_op by blast

lift_definition empty_table :: table is "[]" by simp

definition table_engine :: "table rocksdb" where
  "table_engine = \<lparr>rk_entries = entries_of, rk_write = (\<lambda>ops d. (True, table_write ops d))\<rparr>"

lemma entries_sorted: "sorted_wrt (<) (map fst (entries_of d))"
  using entries_of[of d] by simp

lemma table_engine_ok: "engine_ok table_engine"
  using fold_list_op[OF entries_sorted]
  by (simp add: engine_ok_def table_engine_def contents_def entries_sorted table_write.rep_eq)

lemma table_engine_simps [simp]:
  "rk_entries table_engine d = entries_of d"
  "rk_write table_engine ops d = (True, table_write ops d)"
  by (simp_all add: table_engine_def)


section \<open>Properties\<close>

text \<open>
  Claim C27. The wrapper is a map for each prefix: \<^verbatim>\<open>has\<close> and \<^verbatim>\<open>get\<close> look a key up, with the empty
  string for a key that is not there; a successful \<^verbatim>\<open>put\<close> or \<^verbatim>\<open>del\<close> changes that key only; a
  batch deletes first and then writes, the last write of a key winning; and \<^verbatim>\<open>getBatch\<close>
  without keys lists the entries of the prefix once each, in the order of the keys.
\<close>
theorem db_refines_map:
  assumes "engine_ok e"
  shows "(DB_has e d key pfx \<longleftrightarrow> contents e d (pfx @ key) \<noteq> None)
    \<and> DB_get e d key pfx = (case contents e d (pfx @ key) of None \<Rightarrow> [] | Some v \<Rightarrow> v)
    \<and> (\<forall>d' v. DB_put e key v pfx d = (True, d') \<longrightarrow> contents e d' = (contents e d)(pfx @ key \<mapsto> v))
    \<and> (\<forall>d'. DB_del e key pfx d = (True, d') \<longrightarrow> contents e d' = (contents e d)(pfx @ key := None))
    \<and> (\<forall>b d'. DB_putBatch e b d = (True, d') \<longrightarrow> contents e d' =
         (\<lambda>k. if k \<in> set (bt_dels b) then None else contents e d k) ++ map_of (rev (bt_puts b)))
    \<and> sorted_wrt (<) (map fst (DB_getBatch e d pfx []))
    \<and> set (DB_getBatch e d pfx []) = {(k, v). contents e d (pfx @ k) = Some v}"
  using assms by (simp add: db_simps DB_getBatch_sorted set_DB_getBatch)

definition sample_db :: table where
  "sample_db = table_write [Put [0, 8, 5, 1] [7], Put [0, 8, 4, 2] [6], Put [0, 9] [5]] empty_table"

lemma sample_db_entries: "entries_of sample_db = [([0, 8, 4, 2], [6]), ([0, 8, 5, 1], [7]), ([0, 9], [5])]"
  by (simp add: sample_db_def table_write.rep_eq empty_table.rep_eq)

theorem db_refines_map_witness:
  "DB_get table_engine sample_db [5, 1] [0, 8] = [7] \<and> DB_get table_engine sample_db [5] [0, 8] = []
   \<and> DB_has table_engine sample_db [] [0, 9]
   \<and> set (DB_getBatch table_engine sample_db [0, 8] []) =
       {(k, v). contents table_engine sample_db ([0, 8] @ k) = Some v}"
  using db_refines_map[OF table_engine_ok, of sample_db "[5, 1]" "[0, 8]"]
    db_refines_map[OF table_engine_ok, of sample_db "[5]" "[0, 8]"]
    db_refines_map[OF table_engine_ok, of sample_db "[]" "[0, 9]"]
  by (simp add: contents_def sample_db_entries)

text \<open>
  \<^verbatim>\<open>getKeys\<close> lists, in order, the keys of the prefix between the two bounds, both included.
  A key that continues the upper bound is above it. So a query for the blocks up to a height,
  whose upper bound is the eight bytes of that height, finds none of the longer keys of that
  last block, and the default upper bound, the empty string, leaves out every other key.
\<close>
theorem db_getKeys_range:
  assumes "engine_ok e"
  shows "sorted_wrt (<) (DB_getKeys e d pfx l u)
    \<and> (k \<in> set (DB_getKeys e d pfx l u) \<longleftrightarrow> contents e d (pfx @ k) \<noteq> None \<and> l \<le> k \<and> k \<le> u)
    \<and> (x \<noteq> [] \<longrightarrow> u @ x \<notin> set (DB_getKeys e d pfx l u))"
proof -
  have keys: "k \<in> set (map fst (DB_getBatch e d pfx [])) \<longleftrightarrow> contents e d (pfx @ k) \<noteq> None" for k
    using set_DB_getBatch[OF assms, of d pfx] by force
  have "x \<noteq> [] \<Longrightarrow> \<not> u @ x \<le> u"
    using append_le_iff[of u x "[]"] by (cases x) (simp_all del: append_le_iff)
  then show ?thesis
    using DB_getBatch_sorted[OF assms, of d pfx] keys
    by (auto simp: DB_getKeys_eq[OF assms] sorted_wrt_filter simp del: set_map)
qed

theorem db_getKeys_range_witness:
  "[4, 2] \<in> set (DB_getKeys table_engine sample_db [0, 8] [4] [5])
   \<and> [5, 1] \<notin> set (DB_getKeys table_engine sample_db [0, 8] [4] [5])"
  using db_getKeys_range[OF table_engine_ok, where d = sample_db and pfx = "[0, 8]" and l = "[4]" and u = "[5]" and k = "[4, 2]"]
    db_getKeys_range[OF table_engine_ok, where d = sample_db and pfx = "[0, 8]" and l = "[4]" and u = "[5]" and x = "[1]"]
  by (simp add: contents_def sample_db_entries)

end
