(* ===== verification/Chain_Storage.thy ===== *)
theory Chain_Storage
  imports Block_Codec Database
begin

text \<open>
  The store of the blockchain (\<^verbatim>\<open>src/src/core/storage.cpp\<close>, \<^verbatim>\<open>storage.h\<close>): the recent chain in
  memory with its indices by hash, height and transaction, the caches of what was read from
  the database, and loading and saving. \<open>e\<close> is the database engine, \<open>c\<close> the cryptographic
  library and \<open>junk\<close> the indeterminate chain id of the parser of validator transactions.
\<close>

section \<open>Definitions: the state\<close>

text \<open>A transaction with the hash of its block, its index there and the height of the block.\<close>

type_synonym tx_ref = "txblock \<times> bytes \<times> nat \<times> nat"

record 'd storage =
  st_db :: 'd
  st_chain :: "block list"
  blockByHash :: "bytes \<Rightarrow> block option"
  txByHash :: "bytes \<Rightarrow> (bytes \<times> nat \<times> nat) option"
  blockHeightByHash :: "bytes \<Rightarrow> nat option"
  blockHashByHeight :: "nat \<Rightarrow> bytes option"
  cachedBlocks :: "bytes \<Rightarrow> block option"
  cachedTxs :: "bytes \<Rightarrow> tx_ref option"

datatype StorageStatus = NotFound | OnChain | OnCache | OnDB

text \<open>\<^verbatim>\<open>unordered_map::insert\<close>: a key that is there keeps its value.\<close>

definition map_insert_new :: "'k \<Rightarrow> 'v \<Rightarrow> ('k \<Rightarrow> 'v option) \<Rightarrow> 'k \<Rightarrow> 'v option" where
  "map_insert_new k v m = (if m k = None then m(k \<mapsto> v) else m)"

text \<open>\<^verbatim>\<open>std::deque::back\<close> and \<^verbatim>\<open>front\<close>, which do not check for an empty chain.\<close>

definition chain_back :: "'d storage \<Rightarrow> block res" where
  "chain_back s = (if st_chain s = [] then Inl UndefinedBehaviour else Inr (last (st_chain s)))"

definition chain_front :: "'d storage \<Rightarrow> block res" where
  "chain_front s = (if st_chain s = [] then Inl UndefinedBehaviour else Inr (hd (st_chain s)))"

section \<open>Definitions: pushing and popping blocks\<close>

definition index_txs :: "block \<Rightarrow> (bytes \<Rightarrow> (bytes \<times> nat \<times> nat) option) \<Rightarrow> bytes \<Rightarrow> (bytes \<times> nat \<times> nat) option" where
  "index_txs b m = fold (\<lambda>(i, tx). map_insert_new (tb_hash tx) (block_hash b, i, nHeight b)) (enumerate 0 (txs b)) m"

definition index_block :: "block \<Rightarrow> 'd storage \<Rightarrow> 'd storage" where
  "index_block b s = s
     \<lparr>blockByHash := map_insert_new (block_hash b) b (blockByHash s),
      blockHashByHeight := map_insert_new (nHeight b) (block_hash b) (blockHashByHeight s),
      blockHeightByHash := map_insert_new (block_hash b) (nHeight b) (blockHeightByHash s),
      txByHash := index_txs b (txByHash s)\<rparr>"

definition pushBack :: "block \<Rightarrow> ('d storage, unit) meth" where
  "pushBack b s =
     (if st_chain s \<noteq> [] \<and> block_hash (last (st_chain s)) \<noteq> prevBlockHash b
      then (Inl (DynamicException ''does not have the correct previous block hash.''), s)
      else if st_chain s \<noteq> [] \<and> nHeight b \<noteq> (nHeight (last (st_chain s)) + 1) mod 2 ^ 64
      then (Inl (DynamicException ''does not have the correct height.''), s)
      else (Inr (), index_block b (s\<lparr>st_chain := st_chain s @ [b]\<rparr>)))"

definition pushFront :: "block \<Rightarrow> ('d storage, unit) meth" where
  "pushFront b s =
     (if st_chain s \<noteq> [] \<and> prevBlockHash (hd (st_chain s)) \<noteq> block_hash b
      then (Inl (DynamicException ''does not have the correct previous block hash.''), s)
      else if st_chain s \<noteq> [] \<and> nHeight b \<noteq> (nHeight (hd (st_chain s)) + 2 ^ 64 - 1) mod 2 ^ 64
      then (Inl (DynamicException ''does not have the correct height.''), s)
      else (Inr (), index_block b (s\<lparr>st_chain := b # st_chain s\<rparr>)))"

definition erase_txs :: "block \<Rightarrow> (bytes \<Rightarrow> (bytes \<times> nat \<times> nat) option) \<Rightarrow> bytes \<Rightarrow> (bytes \<times> nat \<times> nat) option" where
  "erase_txs b m = fold (\<lambda>tx m. m(tb_hash tx := None)) (txs b) m"

definition unindex_block :: "block \<Rightarrow> 'd storage \<Rightarrow> 'd storage" where
  "unindex_block b s = s\<lparr>txByHash := erase_txs b (txByHash s), blockByHash := (blockByHash s)(block_hash b := None)\<rparr>"

definition popBack :: "('d storage, unit) meth" where
  "popBack s =
     (case chain_back s of Inl e \<Rightarrow> (Inl e, s)
      | Inr b \<Rightarrow> (Inr (), (unindex_block b s)\<lparr>st_chain := butlast (st_chain s)\<rparr>))"

definition popFront :: "('d storage, unit) meth" where
  "popFront s =
     (case chain_front s of Inl e \<Rightarrow> (Inl e, s)
      | Inr b \<Rightarrow> (Inr (), (unindex_block b s)\<lparr>st_chain := tl (st_chain s)\<rparr>))"

section \<open>Definitions: queries\<close>

definition blockExistsInternal :: "'d rocksdb \<Rightarrow> 'd storage \<Rightarrow> bytes \<Rightarrow> StorageStatus" where
  "blockExistsInternal e s h =
     (if blockByHash s h \<noteq> None then OnChain
      else if cachedBlocks s h \<noteq> None then OnCache
      else if DB_has e (st_db s) h pfx_blocks then OnDB
      else NotFound)"

definition blockExistsInternal_height :: "'d storage \<Rightarrow> nat \<Rightarrow> StorageStatus" where
  "blockExistsInternal_height s height =
     (case blockHashByHeight s height of
        Some h \<Rightarrow> (if blockByHash s h \<noteq> None then OnChain
                   else if cachedBlocks s h \<noteq> None then OnCache else OnDB)
      | None \<Rightarrow> NotFound)"

definition txExistsInternal :: "'d rocksdb \<Rightarrow> 'd storage \<Rightarrow> bytes \<Rightarrow> StorageStatus" where
  "txExistsInternal e s h =
     (if txByHash s h \<noteq> None then OnChain
      else if cachedTxs s h \<noteq> None then OnCache
      else if DB_has e (st_db s) h pfx_txToBlocks then OnDB
      else NotFound)"

definition blockExists :: "'d rocksdb \<Rightarrow> 'd storage \<Rightarrow> bytes \<Rightarrow> bool" where
  "blockExists e s h = (blockExistsInternal e s h \<noteq> NotFound)"

definition blockExists_height :: "'d storage \<Rightarrow> nat \<Rightarrow> bool" where
  "blockExists_height s height = (blockExistsInternal_height s height \<noteq> NotFound)"

definition txExists :: "'d rocksdb \<Rightarrow> 'd storage \<Rightarrow> bytes \<Rightarrow> bool" where
  "txExists e s h = (txExistsInternal e s h \<noteq> NotFound)"

text \<open>\<^verbatim>\<open>unordered_map::at\<close>, which throws for a key that is not there.\<close>

definition map_at_key :: "('k \<Rightarrow> 'v option) \<Rightarrow> 'k \<Rightarrow> 'v res" where
  "map_at_key m k = (case m k of None \<Rightarrow> Inl OutOfRange | Some v \<Rightarrow> Inr v)"

text \<open>The branch \<^verbatim>\<open>OnDB\<close> of both overloads of \<^verbatim>\<open>getBlock\<close>: parse, cache, return from the cache.\<close>

definition block_from_db :: "'d rocksdb \<Rightarrow> crypto \<Rightarrow> nat \<Rightarrow> bytes \<Rightarrow> ('d storage, block option) meth" where
  "block_from_db e c junk h s =
     (case Block_parse c junk (DB_get e (st_db s) h pfx_blocks) of
        Inl err \<Rightarrow> (Inl err, s)
      | Inr b \<Rightarrow>
          let s = s\<lparr>cachedBlocks := map_insert_new h b (cachedBlocks s)\<rparr> in
          (bind_r (map_at_key (cachedBlocks s) h) (\<lambda>b. Inr (Some b)), s))"

definition getBlock :: "'d rocksdb \<Rightarrow> crypto \<Rightarrow> nat \<Rightarrow> bytes \<Rightarrow> ('d storage, block option) meth" where
  "getBlock e c junk h s =
     (case blockExistsInternal e s h of
        NotFound \<Rightarrow> (Inr None, s)
      | OnChain \<Rightarrow> (bind_r (map_at_key (blockByHash s) h) (\<lambda>b. Inr (Some b)), s)
      | OnCache \<Rightarrow> (bind_r (map_at_key (cachedBlocks s) h) (\<lambda>b. Inr (Some b)), s)
      | OnDB \<Rightarrow> block_from_db e c junk h s)"

definition getBlock_height :: "'d rocksdb \<Rightarrow> crypto \<Rightarrow> nat \<Rightarrow> nat \<Rightarrow> ('d storage, block option) meth" where
  "getBlock_height e c junk height s =
     (case blockExistsInternal_height s height of
        NotFound \<Rightarrow> (Inr None, s)
      | OnChain \<Rightarrow> (bind_r (map_at_key (blockHashByHeight s) height) (\<lambda>h.
                     bind_r (map_at_key (blockByHash s) h) (\<lambda>b. Inr (Some b))), s)
      | OnCache \<Rightarrow> (bind_r (map_at_key (blockHashByHeight s) height) (\<lambda>h.
                     bind_r (map_at_key (cachedBlocks s) h) (\<lambda>b. Inr (Some b))), s)
      | OnDB \<Rightarrow> (case map_at_key (blockHashByHeight s) height of
                  Inl err \<Rightarrow> (Inl err, s) | Inr h \<Rightarrow> block_from_db e c junk h s))"

text \<open>
  \<^verbatim>\<open>getTxFromBlockWithIndex\<close>: the size of a transaction is a \<^verbatim>\<open>uint32_t\<close> here, so that the sum
  with 4 wraps at 32 bits.
\<close>

fun skip_to_tx :: "bytes \<Rightarrow> nat \<Rightarrow> nat \<Rightarrow> nat res" where
  "skip_to_tx bs index 0 = Inr index"
| "skip_to_tx bs index (Suc n) =
     bind_r (u32_at bs index) (\<lambda>txSize. skip_to_tx bs (index + (txSize + 4) mod 2 ^ 32) n)"

definition getTxFromBlockWithIndex :: "crypto \<Rightarrow> bytes \<Rightarrow> nat \<Rightarrow> txblock res" where
  "getTxFromBlockWithIndex c bs txIndex =
     bind_r (skip_to_tx bs 217 txIndex) (\<lambda>index.
     bind_r (frame_at bs index) (\<lambda>(b, _). TxBlock_parse c b))"

text \<open>A transaction that is not found is \<^verbatim>\<open>nullptr\<close>, written \<open>None\<close>.\<close>

definition tx_from_chain :: "'d storage \<Rightarrow> bytes \<Rightarrow> tx_ref res" where
  "tx_from_chain s h =
     bind_r (case txByHash s h of None \<Rightarrow> Inl UndefinedBehaviour | Some r \<Rightarrow> Inr r) (\<lambda>(blockHash, i, height).
     bind_r (map_at_key (blockByHash s) blockHash) (\<lambda>b.
     bind_r (throw_if (length (txs b) \<le> i) (DynamicException ''Tx index out of bounds'')) (\<lambda>_.
     bind_r (throw_if (tb_hash (txs b ! i) \<noteq> h) (DynamicException ''Tx hash mismatch'')) (\<lambda>_.
     Inr (txs b ! i, blockHash, i, height)))))"

definition tx_from_db :: "'d rocksdb \<Rightarrow> crypto \<Rightarrow> bytes \<Rightarrow> ('d storage, tx_ref option) meth" where
  "tx_from_db e c h s =
     (let txData = DB_get e (st_db s) h pfx_txToBlocks in
      case bind_r (subspan txData 0 32) (\<lambda>blockHash.
           bind_r (bind_r (subspan txData 32 4) bytesToUint32) (\<lambda>i.
           bind_r (bind_r (subspan txData 36 8) bytesToUint64) (\<lambda>height.
           bind_r (getTxFromBlockWithIndex c (DB_get e (st_db s) blockHash pfx_blocks) i) (\<lambda>tx.
           Inr (tx, blockHash, i, height))))) of
        Inl err \<Rightarrow> (Inl err, s)
      | Inr r \<Rightarrow>
          let s = s\<lparr>cachedTxs := map_insert_new h r (cachedTxs s)\<rparr> in
          (bind_r (map_at_key (cachedTxs s) h) (\<lambda>r. Inr (Some r)), s))"

definition getTx :: "'d rocksdb \<Rightarrow> crypto \<Rightarrow> bytes \<Rightarrow> ('d storage, tx_ref option) meth" where
  "getTx e c h s =
     (case txExistsInternal e s h of
        NotFound \<Rightarrow> (Inr None, s)
      | OnChain \<Rightarrow> (bind_r (tx_from_chain s h) (\<lambda>r. Inr (Some r)), s)
      | OnCache \<Rightarrow> (bind_r (map_at_key (cachedTxs s) h) (\<lambda>r. Inr (Some r)), s)
      | OnDB \<Rightarrow> tx_from_db e c h s)"

text \<open>
  The branches that the two queries by position share: a block on the chain, a block in the
  cache (its transaction is read without a check of the index and looked up in the other
  cache), and a block in the database.
\<close>

definition tx_at_chain :: "'d storage \<Rightarrow> bytes \<Rightarrow> nat \<Rightarrow> (txblock \<times> bytes \<times> nat \<times> nat) res" where
  "tx_at_chain s blockHash i =
     bind_r (map_at_key (blockByHash s) blockHash) (\<lambda>b.
     bind_r (throw_if (length (txs b) \<le> i) (DynamicException ''Tx index out of bounds'')) (\<lambda>_.
     bind_r (map_at_key (txByHash s) (tb_hash (txs b ! i))) (\<lambda>(bh, bi, height).
     Inr (txs b ! i, bh, bi, height))))"

definition tx_at_cache :: "'d storage \<Rightarrow> bytes \<Rightarrow> nat \<Rightarrow> tx_ref res" where
  "tx_at_cache s blockHash i =
     bind_r (map_at_key (cachedBlocks s) blockHash) (\<lambda>b.
     bind_r (if i < length (txs b) then Inr (tb_hash (txs b ! i)) else Inl UndefinedBehaviour) (\<lambda>h.
     map_at_key (cachedTxs s) h))"

definition tx_at_db :: "'d rocksdb \<Rightarrow> crypto \<Rightarrow> bytes \<Rightarrow> nat \<Rightarrow> ('d storage, tx_ref option) meth" where
  "tx_at_db e c blockHash i s =
     (case bind_r (getTxFromBlockWithIndex c (DB_get e (st_db s) blockHash pfx_blocks) i) (\<lambda>tx.
           bind_r (map_at_key (blockHeightByHash s) blockHash) (\<lambda>height. Inr (tx, blockHash, i, height))) of
        Inl err \<Rightarrow> (Inl err, s)
      | Inr r \<Rightarrow>
          let s = s\<lparr>cachedTxs := map_insert_new (tb_hash (fst r)) r (cachedTxs s)\<rparr> in
          (bind_r (map_at_key (cachedTxs s) (tb_hash (fst r))) (\<lambda>r. Inr (Some r)), s))"

definition getTxByBlockHashAndIndex ::
  "'d rocksdb \<Rightarrow> crypto \<Rightarrow> bytes \<Rightarrow> nat \<Rightarrow> ('d storage, tx_ref option) meth" where
  "getTxByBlockHashAndIndex e c blockHash i s =
     (case blockExistsInternal e s blockHash of
        NotFound \<Rightarrow> (Inr None, s)
      | OnChain \<Rightarrow> (bind_r (tx_at_chain s blockHash i) (\<lambda>(tx, bh, bi, height).
           bind_r (throw_if (bh \<noteq> blockHash \<or> bi \<noteq> i) (DynamicException ''Tx hash mismatch'')) (\<lambda>_.
           Inr (Some (tx, bh, bi, height)))), s)
      | OnCache \<Rightarrow> (bind_r (tx_at_cache s blockHash i) (\<lambda>r. Inr (Some r)), s)
      | OnDB \<Rightarrow> tx_at_db e c blockHash i s)"

definition getTxByBlockNumberAndIndex ::
  "'d rocksdb \<Rightarrow> crypto \<Rightarrow> nat \<Rightarrow> nat \<Rightarrow> ('d storage, tx_ref option) meth" where
  "getTxByBlockNumberAndIndex e c height i s =
     (case (blockExistsInternal_height s height, blockHashByHeight s height) of
        (OnChain, Some h) \<Rightarrow> (bind_r (tx_at_chain s h i) (\<lambda>r. Inr (Some r)), s)
      | (OnCache, Some h) \<Rightarrow> (bind_r (tx_at_cache s h i) (\<lambda>r. Inr (Some r)), s)
      | (OnDB, Some h) \<Rightarrow> tx_at_db e c h i s
      | _ \<Rightarrow> (Inr None, s))"

definition latest :: "'d storage \<Rightarrow> block res" where
  "latest s = chain_back s"

definition currentChainSize :: "'d storage \<Rightarrow> nat res" where
  "currentChainSize s = bind_r (latest s) (\<lambda>b. Inr ((nHeight b + 1) mod 2 ^ 64))"

section \<open>Definitions: loading and saving\<close>











section \<open>Lemmas: the indices\<close>

lemma map_insert_new_apply:
  "map_insert_new k v m x = (if x = k \<and> m k = None then Some v else m x)"
  by (auto simp: map_insert_new_def)

lemma map_insert_new_fresh: "m k = None \<Longrightarrow> map_insert_new k v m = m(k \<mapsto> v)"
  by (simp add: map_insert_new_def)

lemma map_insert_new_same: "m k \<in> {None, Some v} \<Longrightarrow> map_insert_new k v m = m(k \<mapsto> v)"
  by (auto simp: map_insert_new_def)

text \<open>Where a transaction of a block is found: at the first index with its hash.\<close>

definition block_ref :: "block \<Rightarrow> bytes \<Rightarrow> bytes \<times> nat \<times> nat \<Rightarrow> bool" where
  "block_ref b h r \<longleftrightarrow> (\<exists>i < length (txs b). r = (block_hash b, i, nHeight b) \<and> tb_hash (txs b ! i) = h)"

lemma fold_insert_new:
  "fold (\<lambda>(i, tx). map_insert_new (tb_hash tx) (bh, i, ht)) (enumerate n ts) m h = Some r \<Longrightarrow>
    m h = Some r \<or> m h = None \<and> (\<exists>i < length ts. r = (bh, n + i, ht) \<and> tb_hash (ts ! i) = h)"
proof (induction ts arbitrary: n m)
  case (Cons t ts)
  consider "map_insert_new (tb_hash t) (bh, n, ht) m h = Some r"
    | "map_insert_new (tb_hash t) (bh, n, ht) m h = None"
      "\<exists>i < length ts. r = (bh, Suc n + i, ht) \<and> tb_hash (ts ! i) = h"
    using Cons by fastforce
  then show ?case
  proof cases
    case 1
    then show ?thesis by (auto simp: map_insert_new_apply split: if_splits)
  next
    case 2
    then obtain i where "i < length ts" "r = (bh, n + Suc i, ht)" "tb_hash ((t # ts) ! Suc i) = h" by auto
    moreover have "m h = None" using 2(1) by (auto simp: map_insert_new_apply split: if_splits)
    ultimately show ?thesis by (metis Suc_less_eq length_Cons)
  qed
qed simp

lemma fold_insert_new_dom:
  "fold (\<lambda>(i, tx). map_insert_new (tb_hash tx) (bh, i, ht)) (enumerate n ts) m h = None \<longleftrightarrow>
    m h = None \<and> h \<notin> tb_hash ` set ts"
  by (induction ts arbitrary: n m) (auto simp: map_insert_new_apply)

lemma index_txs_Some: "index_txs b m h = Some r \<Longrightarrow> m h = Some r \<or> m h = None \<and> block_ref b h r"
  using fold_insert_new[of "block_hash b" "nHeight b" 0 "txs b" m h r]
  by (auto simp: index_txs_def block_ref_def)

lemma index_txs_None: "index_txs b m h = None \<longleftrightarrow> m h = None \<and> h \<notin> tb_hash ` set (txs b)"
  by (simp add: index_txs_def fold_insert_new_dom)

lemma erase_txs_apply: "erase_txs b m h = (if h \<in> tb_hash ` set (txs b) then None else m h)"
proof -
  have "fold (\<lambda>tx m. m(tb_hash tx := None)) ts m h = (if h \<in> tb_hash ` set ts then None else m h)" for ts :: "txblock list"
    by (induction ts arbitrary: m) auto
  then show ?thesis by (simp add: erase_txs_def)
qed

section \<open>The invariant\<close>

definition follows :: "block \<Rightarrow> block \<Rightarrow> bool" where
  "follows a b \<longleftrightarrow> prevBlockHash b = block_hash a \<and> nHeight b = (nHeight a + 1) mod 2 ^ 64"

text \<open>
  The chain is linked and its blocks have different hashes and no transaction in common; the
  indices by hash hold exactly the blocks and transactions of the chain; every height of the chain
  has an entry, which a pop does not remove and a push does not replace; and the caches hold what
  the database holds.
\<close>

definition chain_ok :: "block list \<Rightarrow> bool" where
  "chain_ok bs \<longleftrightarrow> successively follows bs \<and> (\<forall>b\<in>set bs. nHeight b < 2 ^ 64) \<and> distinct (map block_hash bs)
     \<and> pairwise (\<lambda>a b. tb_hash ` set (txs a) \<inter> tb_hash ` set (txs b) = {}) (set bs)"

definition index_ok :: "'d storage \<Rightarrow> bool" where
  "index_ok s \<longleftrightarrow>
     (\<forall>h b. blockByHash s h = Some b \<longleftrightarrow> b \<in> set (st_chain s) \<and> block_hash b = h)
     \<and> (\<forall>h r. txByHash s h = Some r \<longrightarrow> (\<exists>b\<in>set (st_chain s). block_ref b h r))
     \<and> (\<forall>b\<in>set (st_chain s). \<forall>t\<in>set (txs b). txByHash s (tb_hash t) \<noteq> None)
     \<and> (\<forall>b\<in>set (st_chain s). blockHashByHeight s (nHeight b) \<noteq> None)"

definition cache_ok :: "'d rocksdb \<Rightarrow> crypto \<Rightarrow> nat \<Rightarrow> 'd storage \<Rightarrow> bool" where
  "cache_ok e c junk s \<longleftrightarrow>
     (\<forall>h b. cachedBlocks s h = Some b \<longrightarrow> DB_has e (st_db s) h pfx_blocks
        \<and> Block_parse c junk (DB_get e (st_db s) h pfx_blocks) = Inr b)"

text \<open>
  A new block: its hash is not that of a block on the chain, which would take a collision, as
  the hash covers the height, and none of its transactions is on the chain, which the nonces
  prevent. The entry of its height may be taken by another block.
\<close>

definition fresh_block :: "'d storage \<Rightarrow> block \<Rightarrow> bool" where
  "fresh_block s b \<longleftrightarrow> nHeight b < 2 ^ 64 \<and> block_hash b \<notin> block_hash ` set (st_chain s)
     \<and> (\<forall>a\<in>set (st_chain s). tb_hash ` set (txs a) \<inter> tb_hash ` set (txs b) = {})"

lemma index_block_fields [simp]:
  "st_chain (index_block b s) = st_chain s" "st_db (index_block b s) = st_db s"
  "cachedBlocks (index_block b s) = cachedBlocks s" "cachedTxs (index_block b s) = cachedTxs s"
  by (simp_all add: index_block_def)

lemma fresh_not_in: "fresh_block s b \<Longrightarrow> b \<notin> set (st_chain s)"
  by (auto simp: fresh_block_def)

lemma index_block_ok:
  assumes "index_ok s" "fresh_block s b" "set bs = insert b (set (st_chain s))"
  shows "index_ok (index_block b (s\<lparr>st_chain := bs\<rparr>))"
  unfolding index_ok_def
proof (intro conjI allI impI ballI)
  let ?s = "index_block b (s\<lparr>st_chain := bs\<rparr>)"
  note i = assms(1)[unfolded index_ok_def] and f = assms(2)[unfolded fresh_block_def]
  have nf: "block_hash x \<noteq> block_hash b" if "x \<in> set (st_chain s)" for x
    using f that by (metis image_eqI)
  have new: "blockByHash s (block_hash b) = None" using i f by (metis image_eqI not_None_eq)
  show "blockByHash ?s h = Some x \<longleftrightarrow> x \<in> set (st_chain ?s) \<and> block_hash x = h" for h x
    using i new assms(3) nf by (auto simp: index_block_def map_insert_new_apply)
  show "\<exists>x\<in>set (st_chain ?s). block_ref x h r" if "txByHash ?s h = Some r" for h r
  proof -
    have "txByHash s h = Some r \<or> block_ref b h r"
      using index_txs_Some[of b "txByHash s" h r] that by (auto simp: index_block_def)
    moreover have "txByHash s h = Some r \<longrightarrow> (\<exists>x\<in>set (st_chain s). block_ref x h r)" using i by blast
    ultimately show ?thesis using assms(3) by auto
  qed
  show "txByHash ?s (tb_hash t) \<noteq> None" if "x \<in> set (st_chain ?s)" "t \<in> set (txs x)" for x t
    using that i assms(3) by (auto simp: index_block_def index_txs_None)
  show "blockHashByHeight ?s (nHeight x) \<noteq> None" if "x \<in> set (st_chain ?s)" for x
    using that i assms(3) by (auto simp: index_block_def map_insert_new_apply)
qed

lemma unindex_block_ok:
  assumes "index_ok s" "chain_ok (st_chain s)" "b \<in> set (st_chain s)" "set bs = set (st_chain s) - {b}"
  shows "index_ok ((unindex_block b s)\<lparr>st_chain := bs\<rparr>)"
  unfolding index_ok_def
proof (intro conjI allI impI ballI)
  let ?s = "(unindex_block b s)\<lparr>st_chain := bs\<rparr>"
  note i = assms(1)[unfolded index_ok_def] and ch = assms(2)[unfolded chain_ok_def]
  have inj: "x = y" if "x \<in> set (st_chain s)" "y \<in> set (st_chain s)" "block_hash x = block_hash y" for x y
    using ch that by (auto simp: distinct_map dest: inj_onD)
  show "blockByHash ?s h = Some x \<longleftrightarrow> x \<in> set (st_chain ?s) \<and> block_hash x = h" for h x
    using i inj assms(3,4) by (auto simp: unindex_block_def)
  show "\<exists>x\<in>set (st_chain ?s). block_ref x h r" if "txByHash ?s h = Some r" for h r
  proof -
    have h: "h \<notin> tb_hash ` set (txs b)" "txByHash s h = Some r"
      using that by (auto simp: unindex_block_def erase_txs_apply split: if_splits)
    then obtain x where "x \<in> set (st_chain s)" "block_ref x h r" using i by blast
    moreover from this have "x \<noteq> b" using h(1) by (auto simp: block_ref_def)
    ultimately show ?thesis using assms(4) by auto
  qed
  show "txByHash ?s (tb_hash t) \<noteq> None" if "x \<in> set (st_chain ?s)" "t \<in> set (txs x)" for x t
  proof -
    have "tb_hash t \<notin> tb_hash ` set (txs b)"
      using that ch assms(3,4) by (fastforce simp: pairwise_def)
    then show ?thesis using that i assms(4) by (auto simp: unindex_block_def erase_txs_apply)
  qed
  show "blockHashByHeight ?s (nHeight x) \<noteq> None" if "x \<in> set (st_chain ?s)" for x
    using that i assms(4) by (auto simp: unindex_block_def)
qed

section \<open>Reachable states\<close>

inductive storage_step :: "'d rocksdb \<Rightarrow> crypto \<Rightarrow> nat \<Rightarrow> 'd storage \<Rightarrow> 'd storage \<Rightarrow> bool" for e c junk where
  push_back: "fresh_block s b \<Longrightarrow> storage_step e c junk s (snd (pushBack b s))"
| push_front: "fresh_block s b \<Longrightarrow> storage_step e c junk s (snd (pushFront b s))"
| pop_back: "storage_step e c junk s (snd (popBack s))"
| pop_front: "storage_step e c junk s (snd (popFront s))"
| get_block: "storage_step e c junk s (snd (getBlock e c junk h s))"
| get_block_height: "storage_step e c junk s (snd (getBlock_height e c junk n s))"
| get_tx: "storage_step e c junk s (snd (getTx e c h s))"
| get_tx_hash: "storage_step e c junk s (snd (getTxByBlockHashAndIndex e c h i s))"
| get_tx_height: "storage_step e c junk s (snd (getTxByBlockNumberAndIndex e c n i s))"

inductive storage_reachable :: "'d rocksdb \<Rightarrow> crypto \<Rightarrow> nat \<Rightarrow> 'd storage \<Rightarrow> bool" for e c junk where
  start: "st_chain s = [] \<Longrightarrow> blockByHash s = Map.empty \<Longrightarrow> txByHash s = Map.empty \<Longrightarrow>
    cachedBlocks s = Map.empty \<Longrightarrow> cachedTxs s = Map.empty \<Longrightarrow> storage_reachable e c junk s"
| step: "storage_reachable e c junk s \<Longrightarrow> storage_step e c junk s s' \<Longrightarrow> storage_reachable e c junk s'"

definition storage_inv :: "'d rocksdb \<Rightarrow> crypto \<Rightarrow> nat \<Rightarrow> 'd storage \<Rightarrow> bool" where
  "storage_inv e c junk s \<longleftrightarrow> chain_ok (st_chain s) \<and> index_ok s \<and> cache_ok e c junk s"

lemma chain_ok_push:
  assumes "chain_ok bs" "b \<notin> set bs" "block_hash b \<notin> block_hash ` set bs" "nHeight b < 2 ^ 64"
    and "\<forall>a\<in>set bs. tb_hash ` set (txs a) \<inter> tb_hash ` set (txs b) = {}"
  shows "bs = [] \<or> follows (last bs) b \<Longrightarrow> chain_ok (bs @ [b])"
    and "bs = [] \<or> follows b (hd bs) \<Longrightarrow> chain_ok (b # bs)"
  using assms by (auto simp: chain_ok_def successively_append_iff successively_Cons pairwise_insert
      Int_commute intro: successively_append_iff)

lemma chain_ok_sub: "chain_ok bs \<Longrightarrow> chain_ok (butlast bs)" "chain_ok bs \<Longrightarrow> chain_ok (tl bs)"
proof -
  assume c: "chain_ok bs"
  show "chain_ok (tl bs)"
    using c by (cases bs) (auto simp: chain_ok_def successively_Cons pairwise_insert)
  show "chain_ok (butlast bs)"
    using c by (cases bs rule: rev_cases) (auto simp: chain_ok_def successively_append_iff pairwise_insert)
qed

lemma pred_height: "n < 2 ^ 64 \<Longrightarrow> m = (n + 2 ^ 64 - 1) mod 2 ^ 64 \<Longrightarrow> n = (m + 1) mod (2 ^ 64 :: nat)"
  by (cases n) (simp_all add: mod_Suc)

lemma push_inv:
  assumes "storage_inv e c junk s" "fresh_block s b"
  shows "storage_inv e c junk (snd (pushBack b s))" "storage_inv e c junk (snd (pushFront b s))"
proof -
  note inv = assms(1)[unfolded storage_inv_def] and f = assms(2)[unfolded fresh_block_def]
  have ck: "cache_ok e c junk (index_block b (s\<lparr>st_chain := bs\<rparr>))" for bs
    using inv by (simp add: cache_ok_def)
  have bk: "st_chain s = [] \<or> follows (last (st_chain s)) b" if "snd (pushBack b s) \<noteq> s"
    using that by (auto simp: pushBack_def follows_def split: if_splits)
  have fr: "st_chain s = [] \<or> follows b (hd (st_chain s))" if "snd (pushFront b s) \<noteq> s"
  proof (cases "st_chain s = []")
    case False
    then have "nHeight (hd (st_chain s)) < 2 ^ 64" using inv by (simp add: chain_ok_def)
    with False that show ?thesis
      using pred_height[of "nHeight (hd (st_chain s))" "nHeight b"]
      by (auto simp: pushFront_def follows_def split: if_splits)
  qed simp
  note push = chain_ok_push[of "st_chain s" b, OF _ fresh_not_in[OF assms(2)]]
  show "storage_inv e c junk (snd (pushBack b s))"
  proof (cases "snd (pushBack b s) = s")
    case False
    then have "snd (pushBack b s) = index_block b (s\<lparr>st_chain := st_chain s @ [b]\<rparr>)"
      by (auto simp: pushBack_def split: if_splits)
    with False show ?thesis
      using inv f bk push(1) ck index_block_ok[of s b "st_chain s @ [b]"] assms(2)
      by (simp add: storage_inv_def)
  qed (use assms in simp)
  show "storage_inv e c junk (snd (pushFront b s))"
  proof (cases "snd (pushFront b s) = s")
    case False
    then have "snd (pushFront b s) = index_block b (s\<lparr>st_chain := b # st_chain s\<rparr>)"
      by (auto simp: pushFront_def split: if_splits)
    with False show ?thesis
      using inv f fr push(2) ck index_block_ok[of s b "b # st_chain s"] assms(2)
      by (simp add: storage_inv_def)
  qed (use assms in simp)
qed

lemma pop_inv:
  assumes "storage_inv e c junk s"
  shows "storage_inv e c junk (snd (popBack s))" "storage_inv e c junk (snd (popFront s))"
proof -
  note inv = assms[unfolded storage_inv_def]
  have d: "distinct (st_chain s)" using inv by (simp add: chain_ok_def distinct_map)
  have ck: "cache_ok e c junk ((unindex_block b s)\<lparr>st_chain := bs\<rparr>)" for b bs
    using inv by (simp add: cache_ok_def unindex_block_def)
  show "storage_inv e c junk (snd (popBack s))"
  proof (cases "st_chain s" rule: rev_cases)
    case (snoc bs b)
    then have "set bs = set (st_chain s) - {b}" using d by auto
    from unindex_block_ok[OF _ _ _ this] snoc inv ck chain_ok_sub(1)[of "st_chain s"]
    show ?thesis by (simp add: popBack_def chain_back_def storage_inv_def)
  qed (use assms in \<open>simp add: popBack_def chain_back_def\<close>)
  show "storage_inv e c junk (snd (popFront s))"
  proof (cases "st_chain s")
    case (Cons b bs)
    then have "set bs = set (st_chain s) - {b}" using d by auto
    from unindex_block_ok[OF _ _ _ this] Cons inv ck chain_ok_sub(2)[of "st_chain s"]
    show ?thesis by (simp add: popFront_def chain_front_def storage_inv_def)
  qed (use assms in \<open>simp add: popFront_def chain_front_def\<close>)
qed


text \<open>Queries change the caches only.\<close>

lemma block_from_db_inv:
  assumes "storage_inv e c junk s" "DB_has e (st_db s) h pfx_blocks"
  shows "storage_inv e c junk (snd (block_from_db e c junk h s))"
  using assms
  by (auto simp: block_from_db_def storage_inv_def index_ok_def cache_ok_def Let_def map_insert_new_apply
      split: sum.split)

lemma cachedTxs_inv: "storage_inv e c junk s \<Longrightarrow> storage_inv e c junk (s\<lparr>cachedTxs := m\<rparr>)"
  by (simp add: storage_inv_def index_ok_def cache_ok_def)

lemma tx_query_inv:
  assumes "storage_inv e c junk s"
  shows "storage_inv e c junk (snd (getTx e c h s))"
    "storage_inv e c junk (snd (getTxByBlockHashAndIndex e c h i s))"
    "storage_inv e c junk (snd (getTxByBlockNumberAndIndex e c n i s))"
proof -
  have at: "storage_inv e c junk (snd (tx_at_db e c h i s))" "storage_inv e c junk (snd (tx_from_db e c h s))" for h i
    using assms by (auto simp: tx_at_db_def tx_from_db_def Let_def cachedTxs_inv split: sum.split)
  show "storage_inv e c junk (snd (getTx e c h s))"
    using at assms by (simp add: getTx_def split: StorageStatus.split)
  show "storage_inv e c junk (snd (getTxByBlockHashAndIndex e c h i s))"
    using at assms by (simp add: getTxByBlockHashAndIndex_def split: StorageStatus.split)
  show "storage_inv e c junk (snd (getTxByBlockNumberAndIndex e c n i s))"
    using at assms by (simp add: getTxByBlockNumberAndIndex_def split: StorageStatus.split option.split)
qed

text \<open>
  A query by height goes to the database for every height that has a hash, also when the
  database has no such block; then there is nothing to parse.
\<close>

lemma Block_parse_empty: "Block_parse c junk [] = Inl (DynamicException ''Block'')"
  by (simp add: Block_parse_def Block_parse_body_def)

lemma block_query_inv:
  assumes "engine_ok e" "storage_inv e c junk s"
  shows "storage_inv e c junk (snd (getBlock e c junk h s))"
    "storage_inv e c junk (snd (getBlock_height e c junk n s))"
proof -
  show "storage_inv e c junk (snd (getBlock e c junk h s))"
    using assms block_from_db_inv[OF assms(2), of h]
    by (auto simp: getBlock_def blockExistsInternal_def split: StorageStatus.split if_splits)
  have "storage_inv e c junk (snd (block_from_db e c junk k s))" for k
  proof (cases "DB_has e (st_db s) k pfx_blocks")
    case False
    then have "DB_get e (st_db s) k pfx_blocks = []" using assms(1) by (simp add: db_simps)
    then show ?thesis using assms(2) by (simp add: block_from_db_def Block_parse_empty)
  qed (rule block_from_db_inv[OF assms(2)])
  then show "storage_inv e c junk (snd (getBlock_height e c junk n s))"
    using assms(2) by (simp add: getBlock_height_def split: StorageStatus.split sum.split)
qed

lemma storage_reachable_inv:
  assumes "engine_ok e" "storage_reachable e c junk s"
  shows "storage_inv e c junk s"
  using assms(2)
proof (induction rule: storage_reachable.induct)
  case (start s)
  then show ?case
    by (simp add: storage_inv_def chain_ok_def index_ok_def cache_ok_def pairwise_def)
next
  case (step s s')
  from step.hyps(2) step.IH show ?case
    by (induction rule: storage_step.induct)
      (blast intro: push_inv pop_inv block_query_inv[OF assms(1)] tx_query_inv)+
qed

lemma chain_tx_lookup:
  assumes "storage_inv e c junk s" "b \<in> set (st_chain s)" "t \<in> set (txs b)"
  obtains i where "i < length (txs b)" "tb_hash (txs b ! i) = tb_hash t"
    "txByHash s (tb_hash t) = Some (block_hash b, i, nHeight b)"
proof -
  note inv = assms(1)[unfolded storage_inv_def chain_ok_def index_ok_def]
  obtain r where r: "txByHash s (tb_hash t) = Some r" using inv assms(2,3) by blast
  then obtain x where x: "x \<in> set (st_chain s)" "block_ref x (tb_hash t) r" using inv by blast
  then have "tb_hash t \<in> tb_hash ` set (txs x)" by (auto simp: block_ref_def) (metis image_eqI nth_mem)
  moreover have "tb_hash ` set (txs x) \<inter> tb_hash ` set (txs b) = {}" if "x \<noteq> b"
    using pairwiseD[of _ "set (st_chain s)" x b] inv x(1) assms(2) that by blast
  ultimately have "x = b" using assms(3) by blast
  with x(2) r that show ?thesis by (auto simp: block_ref_def)
qed

section \<open>Properties\<close>

text \<open>A query by hash: a block of the chain, or else what the database has.\<close>

lemma getBlock_on_chain:
  assumes "storage_inv e c junk s" "b \<in> set (st_chain s)"
  shows "fst (getBlock e c junk (block_hash b) s) = Inr (Some b)"
proof -
  have "blockByHash s (block_hash b) = Some b" using assms unfolding storage_inv_def index_ok_def by blast
  then show ?thesis by (simp add: getBlock_def blockExistsInternal_def map_at_key_def)
qed

lemma getBlock_off_chain:
  assumes "storage_inv e c junk s" "h \<notin> block_hash ` set (st_chain s)"
  shows "fst (getBlock e c junk h s) = (if DB_has e (st_db s) h pfx_blocks
    then bind_r (Block_parse c junk (DB_get e (st_db s) h pfx_blocks)) (\<lambda>b. Inr (Some b)) else Inr None)"
proof -
  note inv = assms(1)[unfolded storage_inv_def index_ok_def cache_ok_def]
  have n: "blockByHash s h = None" using assms(2) inv by (metis image_eqI not_None_eq)
  show ?thesis
  proof (cases "cachedBlocks s h")
    case None
    with n show ?thesis
      by (simp add: getBlock_def blockExistsInternal_def block_from_db_def map_at_key_def map_insert_new_apply
        Let_def split: sum.split)
  next
    case (Some b)
    then have "DB_has e (st_db s) h pfx_blocks" "Block_parse c junk (DB_get e (st_db s) h pfx_blocks) = Inr b"
      using inv by blast+
    with n Some show ?thesis
      by (simp add: getBlock_def blockExistsInternal_def map_at_key_def)
  qed
qed

text \<open>
  The query by height is the query by the hash that the index has for the height, except that a
  block that is nowhere makes it throw.
\<close>

lemma getBlock_height_eq:
  assumes "engine_ok e"
  shows "fst (getBlock_height e c junk n s) = (case blockHashByHeight s n of None \<Rightarrow> Inr None
    | Some h \<Rightarrow> if blockExists e s h then fst (getBlock e c junk h s) else Inl (DynamicException ''Block''))"
proof (cases "blockHashByHeight s n")
  case (Some h)
  have "fst (block_from_db e c junk h s) = Inl (DynamicException ''Block'')" if "\<not> DB_has e (st_db s) h pfx_blocks"
  proof -
    have "DB_get e (st_db s) h pfx_blocks = []" using that assms by (simp add: db_simps)
    then show ?thesis by (simp add: block_from_db_def Block_parse_empty)
  qed
  then show ?thesis
    using Some by (simp add: getBlock_height_def blockExistsInternal_height_def blockExists_def blockExistsInternal_def
      getBlock_def map_at_key_def)
qed (simp add: getBlock_height_def blockExistsInternal_height_def)

lemma pop_push_height:
  assumes "storage_inv e c junk s" "st_chain s \<noteq> []" "fst (pushBack b (snd (popBack s))) = Inr ()"
    and "nHeight b = nHeight (last (st_chain s))"
  shows "blockHashByHeight (snd (pushBack b (snd (popBack s)))) (nHeight b) = blockHashByHeight s (nHeight b)"
proof -
  have "blockHashByHeight s (nHeight b) \<noteq> None"
    using assms(1,2,4) by (simp add: storage_inv_def index_ok_def)
  then show ?thesis
    using assms(2,3)
    by (auto simp: popBack_def chain_back_def pushBack_def index_block_def unindex_block_def map_insert_new_apply split: if_splits)
qed

text \<open>
  Claim C16. In every state of the storage that is reached by pushing new blocks at either end, by
  popping and by queries, the chain is linked by hash and height, and what is on it is found: a
  block by its hash, and a transaction by its hash, with the hash and height of its block and an
  index where it stands. A block that is not on the chain is read from the database, and is
  not found when it is not there either. A query by height is the query by the hash that the
  index of the heights has, and throws when that block is nowhere; so a block of the chain is found
  by its height when the entry of its height is its own. The entry is always there but never
  replaced: after a block is popped and another one pushed at its height, it is still the one
  from before.
\<close>
theorem storage_lookup_correct:
  assumes "engine_ok e" "storage_reachable e c junk s"
  shows "successively (\<lambda>a b. prevBlockHash b = block_hash a \<and> nHeight b = (nHeight a + 1) mod 2 ^ 64) (st_chain s)
    \<and> (\<forall>b\<in>set (st_chain s).
         fst (getBlock e c junk (block_hash b) s) = Inr (Some b)
         \<and> blockHashByHeight s (nHeight b) \<noteq> None
         \<and> (\<forall>t\<in>set (txs b). \<exists>i < length (txs b). tb_hash (txs b ! i) = tb_hash t
              \<and> fst (getTx e c (tb_hash t) s) = Inr (Some (txs b ! i, block_hash b, i, nHeight b))))
    \<and> (\<forall>h. h \<notin> block_hash ` set (st_chain s) \<longrightarrow> fst (getBlock e c junk h s) =
         (if DB_has e (st_db s) h pfx_blocks
          then bind_r (Block_parse c junk (DB_get e (st_db s) h pfx_blocks)) (\<lambda>b. Inr (Some b)) else Inr None))
    \<and> (\<forall>n. fst (getBlock_height e c junk n s) = (case blockHashByHeight s n of None \<Rightarrow> Inr None
         | Some h \<Rightarrow> if blockExists e s h then fst (getBlock e c junk h s) else Inl (DynamicException ''Block'')))
    \<and> (\<forall>b. st_chain s \<noteq> [] \<and> nHeight b = nHeight (last (st_chain s)) \<and> fst (pushBack b (snd (popBack s))) = Inr () \<longrightarrow>
         blockHashByHeight (snd (pushBack b (snd (popBack s)))) (nHeight b) = blockHashByHeight s (nHeight b))"
proof (intro conjI ballI allI impI)
  note inv = storage_reachable_inv[OF assms]
  note i = inv[unfolded storage_inv_def index_ok_def chain_ok_def]
  show "successively (\<lambda>a b. prevBlockHash b = block_hash a \<and> nHeight b = (nHeight a + 1) mod 2 ^ 64) (st_chain s)"
    using i by (simp add: follows_def)
  show "blockHashByHeight (snd (pushBack b (snd (popBack s)))) (nHeight b) = blockHashByHeight s (nHeight b)"
    if "st_chain s \<noteq> [] \<and> nHeight b = nHeight (last (st_chain s)) \<and> fst (pushBack b (snd (popBack s))) = Inr ()" for b
    using pop_push_height[OF inv] that by blast
  show "fst (getBlock_height e c junk n s) = (case blockHashByHeight s n of None \<Rightarrow> Inr None
      | Some h \<Rightarrow> if blockExists e s h then fst (getBlock e c junk h s) else Inl (DynamicException ''Block''))" for n
    by (rule getBlock_height_eq[OF assms(1)])
  fix b assume b: "b \<in> set (st_chain s)"
  then show "fst (getBlock e c junk (block_hash b) s) = Inr (Some b)" by (rule getBlock_on_chain[OF inv])
  have h: "blockByHash s (block_hash b) = Some b" and "blockHashByHeight s (nHeight b) \<noteq> None"
    using i b by auto
  then show "blockHashByHeight s (nHeight b) \<noteq> None" by simp
  fix t assume "t \<in> set (txs b)"
  then obtain i where i: "i < length (txs b)" "tb_hash (txs b ! i) = tb_hash t"
    "txByHash s (tb_hash t) = Some (block_hash b, i, nHeight b)"
    using chain_tx_lookup[OF inv b] by blast
  then have "fst (getTx e c (tb_hash t) s) = Inr (Some (txs b ! i, block_hash b, i, nHeight b))"
    using h by (simp add: getTx_def txExistsInternal_def tx_from_chain_def map_at_key_def)
  with i show "\<exists>i < length (txs b). tb_hash (txs b ! i) = tb_hash t
      \<and> fst (getTx e c (tb_hash t) s) = Inr (Some (txs b ! i, block_hash b, i, nHeight b))" by blast
next
  fix h assume "h \<notin> block_hash ` set (st_chain s)"
  then show "fst (getBlock e c junk h s) = (if DB_has e (st_db s) h pfx_blocks
      then bind_r (Block_parse c junk (DB_get e (st_db s) h pfx_blocks)) (\<lambda>b. Inr (Some b)) else Inr None)"
    by (rule getBlock_off_chain[OF storage_reachable_inv[OF assms]])
qed

definition empty_storage :: "'d \<Rightarrow> 'd storage" where
  "empty_storage d = \<lparr>st_db = d, st_chain = [], blockByHash = Map.empty, txByHash = Map.empty,
     blockHeightByHash = Map.empty, blockHashByHeight = Map.empty, cachedBlocks = Map.empty,
     cachedTxs = Map.empty\<rparr>"

definition next_block :: block where
  "next_block = sample_block\<lparr>prevBlockHash := replicate 32 7, nHeight := 2, txs := [], block_hash := replicate 32 8\<rparr>"

lemma sample_chain_reachable:
  "storage_reachable table_engine sample_crypto 0
     (snd (pushBack next_block (snd (pushBack sample_block (empty_storage empty_table)))))"
proof -
  have "fresh_block (empty_storage empty_table) sample_block"
    by (simp add: fresh_block_def empty_storage_def sample_block_def)
  moreover have "fresh_block (snd (pushBack sample_block (empty_storage empty_table))) next_block"
    by (simp add: fresh_block_def empty_storage_def sample_block_def next_block_def pushBack_def index_block_def
      map_insert_new_def)
  moreover have "storage_reachable table_engine sample_crypto 0 (empty_storage empty_table)"
    by (intro storage_reachable.start) (simp_all add: empty_storage_def)
  ultimately show ?thesis
    by (meson storage_reachable.step storage_step.push_back)
qed

theorem storage_lookup_correct_witness:
  "let s = snd (pushBack next_block (snd (pushBack sample_block (empty_storage empty_table)))) in
   fst (getBlock table_engine sample_crypto 0 (block_hash next_block) s) = Inr (Some next_block)
   \<and> fst (getBlock_height table_engine sample_crypto 0 1 s) = Inr (Some sample_block)
   \<and> fst (getBlock table_engine sample_crypto 0 [9] s) = Inr None"
proof -
  let ?s = "snd (pushBack next_block (snd (pushBack sample_block (empty_storage empty_table))))"
  note c = storage_lookup_correct[OF table_engine_ok sample_chain_reachable]
  have ch: "st_chain ?s = [sample_block, next_block]" "st_db ?s = empty_table"
    by (simp_all add: pushBack_def empty_storage_def next_block_def sample_block_def)
  have "nHeight sample_block = 1" "[9] \<noteq> block_hash sample_block" "[9] \<noteq> block_hash next_block"
    by (auto simp: sample_block_def next_block_def dest: arg_cong[of _ _ length])
  moreover have "\<not> DB_has table_engine empty_table [9] pfx_blocks"
    by (simp add: db_simps[OF table_engine_ok] contents_def empty_table.rep_eq)
  moreover have "blockHashByHeight ?s 1 = Some (block_hash sample_block)" "blockByHash ?s (block_hash sample_block) = Some sample_block"
    by (simp_all add: pushBack_def empty_storage_def next_block_def sample_block_def index_block_def map_insert_new_def)
  moreover from this(2) have "blockExists table_engine ?s (block_hash sample_block)"
    by (simp add: blockExists_def blockExistsInternal_def)
  ultimately show ?thesis using c unfolding ch by (simp add: Let_def ch)
qed


section \<open>Saving and loading\<close>





















end
