(* ===== verification/Chain_State.thy ===== *)
theory Chain_State
  imports Chain_Storage Evm_Host Rdpos
begin

text \<open>
  The state of the blockchain (\<^verbatim>\<open>src/src/core/state.cpp\<close>, \<^verbatim>\<open>state.h\<close>), which composes the EVM
  host, the storage, the consensus and the contracts: validating and processing transactions
  and blocks, the mempool, and the two calls that must not change the state. The calls of
  \<^verbatim>\<open>src/src/contract/contractmanager.cpp\<close> that it makes are modelled here too.
\<close>

section \<open>Definitions: the state and its environment\<close>

text \<open>\<^verbatim>\<open>enum TxInvalid\<close>; a check \<^verbatim>\<open>if (validate...)\<close> is true for the two invalid values.\<close>

datatype TxInvalid = NotInvalid | InvalidNonce | InvalidBalance

record sdk_event =
  se_logIndex :: nat
  se_txHash :: bytes
  se_txIndex :: nat
  se_blockHash :: bytes
  se_blockIndex :: nat
  se_address :: address
  se_data :: bytes
  se_topics :: "bytes list"

record ('c, 'd) chain_state =
  cs_host :: evm_host
  cs_mempool :: "(bytes \<times> txblock) list"
  cs_processingPayable :: bool
  cs_rdpos :: rdpos
  cs_storage :: "'d storage"
  cs_contracts :: 'c
  cs_globals :: "address \<times> bytes \<times> nat \<times> nat"

text \<open>
  What the state works with. The contracts are arbitrary code: \<open>ne_call\<close> runs a function of a
  contract on the native balances and gives the balances that the call logger then holds, or
  an exception; \<open>ne_end\<close> is the end of a call, committed or reverted, with its events.
  \<open>ne_sub_fault\<close> and \<open>ne_add_fault\<close> give the value that an in-place operation of the checked
  integers leaves in its operand when it throws, about which their documentation says nothing.
\<close>

record 'c node_env =
  ne_crypto :: crypto
  ne_vm :: evm
  ne_chainId :: nat
  ne_contains :: "'c \<Rightarrow> address \<Rightarrow> bool"
  ne_payable :: "'c \<Rightarrow> address \<Rightarrow> bytes \<Rightarrow> bool"
  ne_view :: "call_info \<Rightarrow> 'c \<Rightarrow> bytes res"
  ne_call :: "call_info \<Rightarrow> (address \<Rightarrow> nat) \<Rightarrow> ('c, (address \<times> nat) list) meth"
  ne_end :: "bool \<Rightarrow> 'c \<Rightarrow> 'c"
  ne_commitEvent :: "sdk_event \<Rightarrow> 'c \<Rightarrow> 'c"
  ne_sub_fault :: "nat \<Rightarrow> nat \<Rightarrow> nat"
  ne_add_fault :: "nat \<Rightarrow> nat \<Rightarrow> nat"

text \<open>\<^verbatim>\<open>ProtocolContractAddresses\<close>.\<close>

definition rdPoS_address :: address where
  "rdPoS_address = [0xb2, 0x3a, 0xa5, 0x2d, 0xbe, 0xda, 0x59, 0x27, 0x7a, 0xb8,
     0xa9, 0x62, 0xc6, 0x9f, 0x59, 0x71, 0xf2, 0x29, 0x04, 0xcf]"

definition ContractManager_address :: address where
  "ContractManager_address = [0x00, 0x01, 0xcb, 0x47, 0xea, 0x6d, 0x8b, 0x55, 0xfe, 0x44,
     0xfd, 0xd6, 0xb1, 0xbd, 0xb5, 0x79, 0xef, 0xb4, 0x3e, 0x61]"

definition mod_host :: "(evm_host \<Rightarrow> evm_host) \<Rightarrow> ('c, 'd) chain_state \<Rightarrow> ('c, 'd) chain_state" where
  "mod_host f s = s\<lparr>cs_host := f (cs_host s)\<rparr>"

text \<open>\<^verbatim>\<open>accounts[a].balance.second\<close>: reading it, and the operators \<^verbatim>\<open>+=\<close> and \<^verbatim>\<open>-=\<close> on it.\<close>

definition balance_of :: "('c, 'd) chain_state \<Rightarrow> address \<Rightarrow> nat" where
  "balance_of s a = snd (acc_balance (acc (cs_host s) a))"

definition add_balance :: "'c node_env \<Rightarrow> address \<Rightarrow> nat \<Rightarrow> (('c, 'd) chain_state, unit) meth" where
  "add_balance E a v s =
     (case u_add 256 (balance_of s a) v of
        Inr x \<Rightarrow> (Inr (), mod_host (setBalance a x) s)
      | Inl e \<Rightarrow> (Inl e, mod_host (setBalance a (ne_add_fault E (balance_of s a) v)) s))"

definition sub_balance :: "'c node_env \<Rightarrow> address \<Rightarrow> nat \<Rightarrow> (('c, 'd) chain_state, unit) meth" where
  "sub_balance E a v s =
     (case u_sub (balance_of s a) v of
        Inr x \<Rightarrow> (Inr (), mod_host (setBalance a x) s)
      | Inl e \<Rightarrow> (Inl e, mod_host (setBalance a (ne_sub_fault E (balance_of s a) v)) s))"

definition log_balance :: "address \<Rightarrow> (('c, 'd) chain_state, unit) meth" where
  "log_balance a = mod_m (mod_host (\<lambda>h. h\<lparr>accessedAccountsBalances := accessedAccountsBalances h @ [a]\<rparr>))"

definition log_nonce :: "address \<Rightarrow> (('c, 'd) chain_state, unit) meth" where
  "log_nonce a = mod_m (mod_host (\<lambda>h. h\<lparr>accessedAccountsNonces := accessedAccountsNonces h @ [a]\<rparr>))"

text \<open>\<^verbatim>\<open>try { body } catch (const std::exception&) { handler }\<close>.\<close>

definition try_catch :: "('s, 'a) meth \<Rightarrow> ('s, 'a) meth \<Rightarrow> ('s, 'a) meth" where
  "try_catch body handler s =
     (case body s of
        (Inl UndefinedBehaviour, s') \<Rightarrow> (Inl UndefinedBehaviour, s')
      | (Inl e, s') \<Rightarrow> handler s'
      | (Inr x, s') \<Rightarrow> (Inr x, s'))"

definition seq_m :: "('s, unit) meth \<Rightarrow> ('s, 'a) meth \<Rightarrow> ('s, 'a) meth" where
  "seq_m m k = bind_m m (\<lambda>_. k)"

text \<open>A method that looks at the object first.\<close>

definition ask_m :: "('s \<Rightarrow> ('s, 'a) meth) \<Rightarrow> ('s, 'a) meth" where
  "ask_m f = (\<lambda>s. f s s)"

definition when_m :: "bool \<Rightarrow> ('s, unit) meth \<Rightarrow> ('s, unit) meth" where
  "when_m b m = (if b then m else ret_m ())"

section \<open>Definitions: validating a transaction\<close>

definition in_mempool :: "('c, 'd) chain_state \<Rightarrow> bytes \<Rightarrow> bool" where
  "in_mempool s h = list_ex (\<lambda>(k, _). k = h) (cs_mempool s)"

definition tx_cost :: "txblock \<Rightarrow> nat res" where
  "tx_cost tx = bind_r (u_mul 256 (tb_gasLimit tx) (tb_maxFeePerGas tx)) (\<lambda>fee. u_add 256 (tb_value tx) fee)"

definition validateTransactionInternal :: "('c, 'd) chain_state \<Rightarrow> txblock \<Rightarrow> TxInvalid res" where
  "validateTransactionInternal s tx =
     (if in_mempool s (tb_hash tx) then Inr NotInvalid
      else case accounts (cs_host s) (tb_from tx) of
        None \<Rightarrow> Inr InvalidBalance
      | Some x \<Rightarrow>
          bind_r (tx_cost tx) (\<lambda>txWithFees.
          if txWithFees > snd (acc_balance x) then Inr InvalidBalance
          else if snd (acc_nonce x) \<noteq> tb_nonce tx then Inr InvalidNonce
          else Inr NotInvalid))"

section \<open>Definitions: calling a contract\<close>

definition processContractPayable ::
  "'c node_env \<Rightarrow> (address \<times> nat) list \<Rightarrow> (('c, 'd) chain_state, unit) meth" where
  "processContractPayable E payableMap s =
     (if \<not> cs_processingPayable s
      then (Inl (DynamicException ''Uh oh, contracts are going haywire!''), s)
      else (Inr (), mod_host (fold (\<lambda>(a, amount) h.
        setBalance a amount (h\<lparr>accessedAccountsBalances := accessedAccountsBalances h @ [ContractManager_address]\<rparr>))
        payableMap) s))"

definition end_call_m :: "'c node_env \<Rightarrow> bool \<Rightarrow> (('c, 'd) chain_state, unit) meth" where
  "end_call_m E ok = mod_m (\<lambda>s. s\<lparr>cs_contracts := ne_end E ok (cs_contracts s)\<rparr>)"

definition isContractCall :: "'c node_env \<Rightarrow> ('c, 'd) chain_state \<Rightarrow> txblock \<Rightarrow> bool" where
  "isContractCall E s tx = (tb_to tx = ContractManager_address \<or> tb_to tx = rdPoS_address \<or> ne_contains E (cs_contracts s) (tb_to tx))"

definition isPayable :: "'c node_env \<Rightarrow> ('c, 'd) chain_state \<Rightarrow> call_info \<Rightarrow> bool" where
  "isPayable E s ci = (ne_contains E (cs_contracts s) (ci_to ci) \<and> ne_payable E (cs_contracts s) (ci_to ci) (ci_functor ci))"

text \<open>\<^verbatim>\<open>ethCall\<close> of the called contract, with the revert and rethrow of its \<^verbatim>\<open>catch\<close>.\<close>

definition run_contract :: "'c node_env \<Rightarrow> call_info \<Rightarrow> (('c, 'd) chain_state, (address \<times> nat) list) meth" where
  "run_contract E ci s =
     (case ne_call E ci (get_balance (cs_host s)) (cs_contracts s) of
        (Inr bal, c) \<Rightarrow> (Inr bal, s\<lparr>cs_contracts := c\<rparr>)
      | (Inl UndefinedBehaviour, c) \<Rightarrow> (Inl UndefinedBehaviour, s\<lparr>cs_contracts := c\<rparr>)
      | (Inl e, c) \<Rightarrow> (Inl (DynamicException ''contract''), s\<lparr>cs_contracts := ne_end E False c\<rparr>))"

definition callContract :: "'c node_env \<Rightarrow> txblock \<Rightarrow> (('c, 'd) chain_state, unit) meth" where
  "callContract E tx =
     (let ci = txToCallInfo tx in
      if ci_to ci = ContractManager_address \<or> ci_to ci = rdPoS_address
      then bind_m (run_contract E ci) (\<lambda>_. end_call_m E True)
      else ask_m (\<lambda>s. if \<not> ne_contains E (cs_contracts s) (ci_to ci)
        then seq_m (end_call_m E False) (throw_m (DynamicException ''Contract does not exist''))
        else bind_m (run_contract E ci) (\<lambda>bal.
          seq_m (ask_m (\<lambda>s. when_m (ne_payable E (cs_contracts s) (ci_to ci) (ci_functor ci)) (processContractPayable E bal)))
            (end_call_m E True))))"

section \<open>Definitions: processing a transaction\<close>

text \<open>The block a transaction is processed in.\<close>

record block_info =
  bi_hash :: bytes
  bi_height :: nat
  bi_coinbase :: address
  bi_timestamp :: nat
  bi_gasLimit :: nat

definition execute_m :: "'c node_env \<Rightarrow> call_info \<Rightarrow> (('c, 'd) chain_state, evmc_result) meth" where
  "execute_m E ci s =
     (case execute (ne_crypto E) (ne_vm E) ci (cs_host s) of (r, h) \<Rightarrow> (r, s\<lparr>cs_host := h\<rparr>))"

definition sdk_events :: "block_info \<Rightarrow> txblock \<Rightarrow> nat \<Rightarrow> evm_event list \<Rightarrow> sdk_event list" where
  "sdk_events bi tx txIndex evs =
     map (\<lambda>(i, ev). \<lparr>se_logIndex = i, se_txHash = tb_hash tx, se_txIndex = txIndex, se_blockHash = bi_hash bi,
       se_blockIndex = bi_height bi, se_address = ev_creator ev, se_data = ev_data ev, se_topics = ev_topics ev\<rparr>)
       (enumerate 0 evs)"

definition commit_events :: "'c node_env \<Rightarrow> block_info \<Rightarrow> txblock \<Rightarrow> nat \<Rightarrow> (('c, 'd) chain_state, unit) meth" where
  "commit_events E bi tx txIndex =
     mod_m (\<lambda>s. s\<lparr>cs_contracts :=
       fold (ne_commitEvent E) (sdk_events bi tx txIndex (emittedEvents (cs_host s))) (cs_contracts s)\<rparr>)"

definition evm_try :: "'c node_env \<Rightarrow> block_info \<Rightarrow> txblock \<Rightarrow> nat \<Rightarrow> (('c, 'd) chain_state, unit) meth" where
  "evm_try E bi tx txIndex =
     seq_m (mod_m (mod_host (\<lambda>h. (setTxContext (txToCallInfo tx) (bi_height bi) (bi_coinbase bi)
       (bi_timestamp bi) (bi_gasLimit bi) (ne_chainId E) h)\<lparr>currentTxHash := tb_hash tx\<rparr>)))
     (bind_m (execute_m E (txToCallInfo tx)) (\<lambda>res.
      if res_gas_left res < 0
      then throw_m (DynamicException ''gas limit is lower than gas left'')
      else
        bind_m (lift_m (u_sub (tb_gasLimit tx) (nat (res_gas_left res)))) (\<lambda>gasUsed.
        bind_m (lift_m (u_mul 256 gasUsed (tb_maxFeePerGas tx))) (\<lambda>fee.
        seq_m (sub_balance E (tb_from tx) fee)
        (bind_m (get_m (\<lambda>s. shouldRevert (cs_host s))) (\<lambda>sr.
         if res_status res \<noteq> 0 \<or> sr then throw_m (DynamicException ''Error when executing EVM contract'')
         else seq_m (commit_events E bi tx txIndex)
           (mod_m (mod_host (\<lambda>h. commitCode (commit h))))))))))"

definition evm_catch :: "'c node_env \<Rightarrow> txblock \<Rightarrow> address \<Rightarrow> (('c, 'd) chain_state, unit) meth" where
  "evm_catch E tx realTo =
     seq_m (mod_m (mod_host (\<lambda>h. h\<lparr>shouldRevert := False\<rparr>)))
     (seq_m (add_balance E (tb_from tx) (tb_value tx))
     (seq_m (sub_balance E realTo (tb_value tx))
     (mod_m (mod_host (\<lambda>h. revertCode (revert h))))))"

definition evm_transaction :: "'c node_env \<Rightarrow> block_info \<Rightarrow> txblock \<Rightarrow> nat \<Rightarrow> (('c, 'd) chain_state, unit) meth" where
  "evm_transaction E bi tx txIndex =
     (let realTo = (if tb_to tx = zero_address
                    then deriveContractAddress (ne_crypto E) (tb_nonce tx) (tb_from tx) else tb_to tx) in
      seq_m (log_balance (tb_from tx))
      (seq_m (when_m (tb_value tx \<noteq> 0)
        (seq_m (add_balance E realTo (tb_value tx))
        (seq_m (sub_balance E (tb_from tx) (tb_value tx))
        (log_balance (tb_to tx)))))
      (try_catch (evm_try E bi tx txIndex) (evm_catch E tx realTo))))"

definition set_payable :: "bool \<Rightarrow> (('c, 'd) chain_state, unit) meth" where
  "set_payable b = mod_m (\<lambda>s. s\<lparr>cs_processingPayable := b\<rparr>)"

definition classic_try :: "'c node_env \<Rightarrow> txblock \<Rightarrow> (('c, 'd) chain_state, unit) meth" where
  "classic_try E tx =
     bind_m (lift_m (tx_cost tx)) (\<lambda>txValueWithFees.
     seq_m (sub_balance E (tb_from tx) txValueWithFees)
     (seq_m (add_balance E (tb_to tx) (tb_value tx))
     (seq_m (ask_m (\<lambda>s. when_m (isContractCall E s tx)
        (seq_m (when_m (isPayable E s (txToCallInfo tx)) (set_payable True))
        (seq_m (callContract E tx) (set_payable False)))))
     (seq_m (log_balance (tb_to tx))
     (mod_m (mod_host commit))))))"

definition classic_catch :: "'c node_env \<Rightarrow> txblock \<Rightarrow> (('c, 'd) chain_state, unit) meth" where
  "classic_catch E tx =
     seq_m (ask_m (\<lambda>s. when_m (cs_processingPayable s)
       (seq_m (add_balance E (tb_from tx) (tb_value tx))
       (seq_m (sub_balance E (tb_to tx) (tb_value tx))
       (set_payable False)))))
     (add_balance E (tb_from tx) (tb_value tx))"

definition bump_nonce :: "address \<Rightarrow> evm_host \<Rightarrow> evm_host" where
  "bump_nonce a = upd_acc a (\<lambda>x. x\<lparr>acc_nonce := (fst (acc_nonce x), (snd (acc_nonce x) + 1) mod 2 ^ 64)\<rparr>)"

definition processTransaction :: "'c node_env \<Rightarrow> block_info \<Rightarrow> txblock \<Rightarrow> nat \<Rightarrow> (('c, 'd) chain_state, unit) meth" where
  "processTransaction E bi tx txIndex =
     seq_m (mod_m (mod_host (upd_acc (tb_to tx) (\<lambda>x. x))))
     (seq_m (ask_m (\<lambda>s. if accounts (cs_host s) (tb_from tx) = None then throw_m UndefinedBehaviour else ret_m ()))
     (seq_m (log_balance (tb_from tx))
     (seq_m (log_nonce (tb_from tx))
     (seq_m (ask_m (\<lambda>s. if isEvmContract (cs_host s) (tb_to tx) \<or> tb_to tx = zero_address
               then evm_transaction E bi tx txIndex
               else try_catch (classic_try E tx) (classic_catch E tx)))
     (seq_m (mod_m (mod_host (bump_nonce (tb_from tx))))
     (seq_m (log_nonce (tb_from tx))
     (mod_m (mod_host (\<lambda>h. commitBalance (commitNonce h))))))))))"

section \<open>Definitions: the mempool\<close>

text \<open>The loop that puts back what is still valid; an exception leaves the rest out.\<close>

fun readd_txs :: "(bytes \<times> txblock) list \<Rightarrow> (('c, 'd) chain_state, unit) meth" where
  "readd_txs [] s = (Inr (), s)"
| "readd_txs ((h, tx) # ms) s =
     (case validateTransactionInternal s tx of
        Inl e \<Rightarrow> (Inl e, s)
      | Inr v \<Rightarrow> readd_txs ms
          (if v = NotInvalid \<and> \<not> in_mempool s h then s\<lparr>cs_mempool := cs_mempool s @ [(h, tx)]\<rparr> else s))"

definition refreshMempool :: "block \<Rightarrow> (('c, 'd) chain_state, unit) meth" where
  "refreshMempool b s =
     (let mempoolCopy = filter (\<lambda>(h, _). h \<notin> tb_hash ` set (txs b)) (cs_mempool s) in
      readd_txs mempoolCopy (s\<lparr>cs_mempool := []\<rparr>))"

definition addTx :: "txblock \<Rightarrow> (('c, 'd) chain_state, TxInvalid) meth" where
  "addTx tx s =
     (case validateTransactionInternal s tx of
        Inl e \<Rightarrow> (Inl e, s)
      | Inr NotInvalid \<Rightarrow> (Inr NotInvalid,
          if in_mempool s (tb_hash tx) then s else s\<lparr>cs_mempool := cs_mempool s @ [(tb_hash tx, tx)]\<rparr>)
      | Inr v \<Rightarrow> (Inr v, s))"

definition getTxFromMempool :: "('c, 'd) chain_state \<Rightarrow> bytes \<Rightarrow> txblock option" where
  "getTxFromMempool s h = map_of (cs_mempool s) h"

definition fillBlockWithTransactions :: "('c, 'd) chain_state \<Rightarrow> block \<Rightarrow> block" where
  "fillBlockWithTransactions s b = fold (\<lambda>(_, tx) b. snd (appendTx tx b)) (cs_mempool s) b"

definition state_addValidatorTx :: "txvalidator \<Rightarrow> (('c, 'd) chain_state, bool) meth" where
  "state_addValidatorTx tx s =
     (case latest (cs_storage s) of
        Inl e \<Rightarrow> (Inl e, s)
      | Inr l \<Rightarrow> (case addValidatorTx (nHeight l) tx (cs_rdpos s) of (r, rd) \<Rightarrow> (r, s\<lparr>cs_rdpos := rd\<rparr>)))"

section \<open>Definitions: blocks\<close>

fun all_valid :: "('c, 'd) chain_state \<Rightarrow> txblock list \<Rightarrow> bool res" where
  "all_valid s [] = Inr True"
| "all_valid s (tx # ts) =
     bind_r (validateTransactionInternal s tx) (\<lambda>v. if v \<noteq> NotInvalid then Inr False else all_valid s ts)"

definition validateNextBlock :: "'c node_env \<Rightarrow> ('c, 'd) chain_state \<Rightarrow> block \<Rightarrow> bool res" where
  "validateNextBlock E s b =
     bind_r (latest (cs_storage s)) (\<lambda>l.
     if nHeight b \<noteq> (nHeight l + 1) mod 2 ^ 64 then Inr False
     else if prevBlockHash b \<noteq> block_hash l then Inr False
     else if timestamp l > timestamp b then Inr False
     else bind_r (validateBlock (ne_crypto E) (cs_rdpos s) b) (\<lambda>ok.
       if \<not> ok then Inr False else all_valid s (txs b)))"

definition block_info_of :: "'c node_env \<Rightarrow> block \<Rightarrow> block_info" where
  "block_info_of E b = \<lparr>bi_hash = block_hash b, bi_height = nHeight b,
     bi_coinbase = toAddress (ne_crypto E) (validatorPubKey b), bi_timestamp = timestamp b,
     bi_gasLimit = 100000000\<rparr>"

fun process_txs :: "'c node_env \<Rightarrow> block_info \<Rightarrow> nat \<Rightarrow> txblock list \<Rightarrow> (('c, 'd) chain_state, unit) meth" where
  "process_txs E bi i [] s = (Inr (), s)"
| "process_txs E bi i (tx # ts) s = seq_m (processTransaction E bi tx i) (process_txs E bi (Suc i) ts) s"

definition processNextBlock :: "'c node_env \<Rightarrow> block \<Rightarrow> (('c, 'd) chain_state, unit) meth" where
  "processNextBlock E b s =
     (case validateNextBlock E s b of
        Inl e \<Rightarrow> (Inl e, s)
      | Inr False \<Rightarrow> (Inl (DynamicException ''Invalid block detected during processNextBlock sanity check''), s)
      | Inr True \<Rightarrow>
          seq_m (mod_m (\<lambda>s. s\<lparr>cs_globals := (toAddress (ne_crypto E) (validatorPubKey b), block_hash b, nHeight b, timestamp b)\<rparr>))
          (seq_m (mod_m (mod_host (\<lambda>h. h\<lparr>randomGen := blockRandomness b\<rparr>)))
          (seq_m (process_txs E (block_info_of E b) 0 (txs b))
          (seq_m (\<lambda>s. case processBlock (ne_crypto E) b (cs_rdpos s) of
                (Inl e, rd) \<Rightarrow> (Inl e, s\<lparr>cs_rdpos := rd\<rparr>) | (Inr _, rd) \<Rightarrow> (Inr (), s\<lparr>cs_rdpos := rd\<rparr>))
          (seq_m (refreshMempool b)
          (\<lambda>s. case pushBack b (cs_storage s) of (r, st) \<Rightarrow> (r, s\<lparr>cs_storage := st\<rparr>)))))) s)"

section \<open>Definitions: queries and calls that only look\<close>

definition getNativeBalance :: "('c, 'd) chain_state \<Rightarrow> address \<Rightarrow> nat" where
  "getNativeBalance s a = (case accounts (cs_host s) a of None \<Rightarrow> 0 | Some x \<Rightarrow> snd (acc_balance x))"

definition getNativeNonce :: "('c, 'd) chain_state \<Rightarrow> address \<Rightarrow> nat" where
  "getNativeNonce s a = (case accounts (cs_host s) a of None \<Rightarrow> 0 | Some x \<Rightarrow> snd (acc_nonce x))"

definition isContractAddress :: "'c node_env \<Rightarrow> ('c, 'd) chain_state \<Rightarrow> address \<Rightarrow> bool" where
  "isContractAddress E s a = (a = rdPoS_address \<or> a = ContractManager_address \<or> ne_contains E (cs_contracts s) a)"

definition reseed :: "block \<Rightarrow> (('c, 'd) chain_state, unit) meth" where
  "reseed l = mod_m (mod_host (\<lambda>h. h\<lparr>randomGen := blockRandomness l\<rparr>))"

text \<open>
  What \<^verbatim>\<open>ethCall\<close> and \<^verbatim>\<open>estimateGas\<close> do alike: move the value, run the machine with the gas limit
  cut to what fits, and revert everything. A contract creation with a value asks
  \<^verbatim>\<open>getNativeNonce\<close>, which locks the mutex that the thread already holds.
\<close>

definition max_gas :: nat where
  "max_gas = 2 ^ 63 - 1 - 10"

definition clip_gas :: "call_info \<Rightarrow> call_info" where
  "clip_gas ci = (if ci_gasLimit ci > max_gas then ci\<lparr>ci_gasLimit := max_gas\<rparr> else ci)"

definition move_value :: "'c node_env \<Rightarrow> call_info \<Rightarrow> (('c, 'd) chain_state, unit) meth" where
  "move_value E ci =
     (if ci_value ci = 0 then ret_m ()
      else if ci_to ci = zero_address then throw_m UndefinedBehaviour
      else seq_m (sub_balance E (ci_from ci) (ci_value ci))
        (seq_m (add_balance E (ci_to ci) (ci_value ci))
        (seq_m (log_balance (ci_from ci)) (log_balance (ci_to ci)))))"

definition dry_run :: "'c node_env \<Rightarrow> block \<Rightarrow> call_info \<Rightarrow> (('c, 'd) chain_state, evmc_result) meth" where
  "dry_run E l ci =
     seq_m (move_value E ci)
     (seq_m (mod_m (mod_host (setTxContext (clip_gas ci) (nHeight l)
       (toAddress (ne_crypto E) (validatorPubKey l)) (timestamp l) 100000000 (ne_chainId E))))
     (bind_m (execute_m E (clip_gas ci)) (\<lambda>res.
      seq_m (mod_m (mod_host (\<lambda>h. revertBalance (revertCode (revert h))))) (ret_m res))))"

definition with_latest :: "(block \<Rightarrow> (('c, 'd) chain_state, 'a) meth) \<Rightarrow> (('c, 'd) chain_state, 'a) meth" where
  "with_latest k s = (case latest (cs_storage s) of Inl e \<Rightarrow> (Inl e, s) | Inr l \<Rightarrow> k l s)"

definition state_ethCall :: "'c node_env \<Rightarrow> call_info \<Rightarrow> (('c, 'd) chain_state, bytes) meth" where
  "state_ethCall E ci s =
     (if isContractAddress E s (ci_to ci)
      then with_latest (\<lambda>l. seq_m (reseed l) (lift_m (ne_view E ci (cs_contracts s)))) s
      else if isEvmContract (cs_host s) (ci_to ci) \<or> ci_to ci = zero_address
      then with_latest (\<lambda>l. seq_m (reseed l) (bind_m (dry_run E l ci) (\<lambda>res.
        if res_status res \<noteq> 0 then throw_m (DynamicException ''Error when estimating gas'')
        else ret_m (res_output res)))) s
      else (Inr [], s))"

text \<open>\<^verbatim>\<open>ContractManager::validateCallContractWithTx\<close>: a call that always ends with a revert.\<close>

definition value_balances :: "call_info \<Rightarrow> (address \<Rightarrow> nat) \<Rightarrow> (address \<Rightarrow> nat) res" where
  "value_balances ci bal =
     (if ci_value ci = 0 then Inr bal
      else bind_r (u_sub (bal (ci_from ci)) (ci_value ci)) (\<lambda>x.
        let bal = bal(ci_from ci := x) in
        bind_r (u_add 256 (bal (ci_to ci)) (ci_value ci)) (\<lambda>y. Inr (bal(ci_to ci := y)))))"

definition validateCallContractWithTx :: "'c node_env \<Rightarrow> call_info \<Rightarrow> (('c, 'd) chain_state, bool) meth" where
  "validateCallContractWithTx E ci s =
     (case value_balances ci (get_balance (cs_host s)) of
        Inl e \<Rightarrow> (Inl (DynamicException ''call''), s\<lparr>cs_contracts := ne_end E False (cs_contracts s)\<rparr>)
      | Inr bal \<Rightarrow>
          if \<not> isContractAddress E s (ci_to ci)
          then (Inr False, s\<lparr>cs_contracts := ne_end E False (cs_contracts s)\<rparr>)
          else (case ne_call E ci bal (cs_contracts s) of
              (Inr _, c) \<Rightarrow> (Inr True, s\<lparr>cs_contracts := ne_end E False c\<rparr>)
            | (Inl UndefinedBehaviour, c) \<Rightarrow> (Inl UndefinedBehaviour, s\<lparr>cs_contracts := c\<rparr>)
            | (Inl e, c) \<Rightarrow> (Inl (DynamicException ''call''), s\<lparr>cs_contracts := ne_end E False c\<rparr>)))"

text \<open>The balance check of \<^verbatim>\<open>estimateGas\<close>; \<open>Inr False\<close> is the early \<^verbatim>\<open>return 0\<close>.\<close>

definition can_pay :: "('c, 'd) chain_state \<Rightarrow> call_info \<Rightarrow> bool res" where
  "can_pay s ci =
     (if nonzero_bytes (ci_from ci) \<and> ci_value ci \<noteq> 0
      then bind_r (if ci_gasLimit ci \<noteq> 0 \<and> ci_gasPrice ci \<noteq> 0 then u_mul 256 (ci_gasLimit ci) (ci_gasPrice ci) else Inr 0)
        (\<lambda>totalGas.
        case accounts (cs_host s) (ci_from ci) of
          None \<Rightarrow> Inr False
        | Some x \<Rightarrow> bind_r (u_add 256 (ci_value ci) totalGas) (\<lambda>t. Inr (t \<le> snd (acc_balance x))))
      else Inr True)"

definition estimateGas :: "'c node_env \<Rightarrow> call_info \<Rightarrow> (('c, 'd) chain_state, nat) meth" where
  "estimateGas E ci s =
     (case can_pay s ci of
        Inl e \<Rightarrow> (Inl e, s)
      | Inr False \<Rightarrow> (Inr 0, s)
      | Inr True \<Rightarrow>
          seq_m (when_m (isContractAddress E s (ci_to ci))
            (with_latest (\<lambda>l. seq_m (reseed l) (bind_m (validateCallContractWithTx E ci) (\<lambda>_. ret_m ())))))
          (\<lambda>s. if isEvmContract (cs_host s) (ci_to ci) \<or> ci_to ci = zero_address
            then with_latest (\<lambda>l. seq_m (reseed l) (bind_m (dry_run E l ci) (\<lambda>res.
              if res_gas_left res < 0 then throw_m (DynamicException ''gasLimit is lower than gas left'')
              else if res_status res \<noteq> 0 then throw_m (DynamicException ''Error when estimating gas'')
              else bind_m (lift_m (u_sub (ci_gasLimit (clip_gas ci)) (nat (res_gas_left res)))) (\<lambda>gasUsed.
                lift_m (u_add 256 gasUsed 21000))))) s
            else (Inr 21000, s)) s)"

section \<open>Definitions: other operations\<close>

definition addBalance_state :: "'c node_env \<Rightarrow> address \<Rightarrow> (('c, 'd) chain_state, unit) meth" where
  "addBalance_state E a s =
     (let amount = 1000000000000000000000;
          f = fst (acc_balance (acc (cs_host s) a)) in
      case u_add 256 f amount of
        Inl e \<Rightarrow> (Inl e, mod_host (upd_acc a (\<lambda>x. x\<lparr>acc_balance := (ne_add_fault E f amount, snd (acc_balance x))\<rparr>)) s)
      | Inr y \<Rightarrow> add_balance E a amount
          (mod_host (upd_acc a (\<lambda>x. x\<lparr>acc_balance := (y, snd (acc_balance x))\<rparr>)) s))"

definition getContractCode :: "address \<Rightarrow> (('c, 'd) chain_state, bytes) meth" where
  "getContractCode a s =
     (let s = mod_host (upd_acc a (\<lambda>x. x)) s in (Inr (snd (acc_code (acc (cs_host s) a))), s))"

section \<open>Lemmas: methods\<close>

lemma seq_m_simps [simp]:
  "seq_m (mod_m f) k s = k (f s)"
  "seq_m (ret_m u) k s = k s"
  "seq_m (throw_m e) k s = (Inl e, s)"
  by (simp_all add: seq_m_def bind_m_def)

lemma ask_m_apply [simp]: "ask_m f s = f s s"
  by (simp add: ask_m_def)

lemma seq_ask_m [simp]: "seq_m (ask_m f) k s = seq_m (f s) k s"
  by (simp add: seq_m_def bind_m_def)

lemma seq_m_Inr: "m s = (Inr u, s') \<Longrightarrow> seq_m m k s = k s'"
  by (simp add: seq_m_def bind_m_def)

lemma seq_m_Inl: "m s = (Inl e, s') \<Longrightarrow> seq_m m k s = (Inl e, s')"
  by (simp add: seq_m_def bind_m_def)

lemma seq_m_eq_Inr: "seq_m m k s = (Inr y, t) \<longleftrightarrow> (\<exists>u s'. m s = (Inr u, s') \<and> k s' = (Inr y, t))"
  by (simp add: seq_m_def bind_m_eq_Inr)

lemma seq_m_assoc: "seq_m (seq_m m k) l s = seq_m m (seq_m k l) s"
  by (simp add: seq_m_def bind_m_def split: prod.split sum.split)

lemma when_m_simps [simp]: "when_m True m = m" "when_m False m = ret_m ()"
  by (simp_all add: when_m_def)

lemma try_catch_Inr: "body s = (Inr x, s') \<Longrightarrow> try_catch body handler s = (Inr x, s')"
  by (simp add: try_catch_def)

lemma try_catch_Inl: "body s = (Inl e, s') \<Longrightarrow> e \<noteq> UndefinedBehaviour \<Longrightarrow> try_catch body handler s = handler s'"
  by (cases e) (simp_all add: try_catch_def)

lemma mod_host_fields [simp]:
  "cs_host (mod_host f s) = f (cs_host s)" "cs_mempool (mod_host f s) = cs_mempool s"
  "cs_rdpos (mod_host f s) = cs_rdpos s" "cs_storage (mod_host f s) = cs_storage s"
  "cs_contracts (mod_host f s) = cs_contracts s" "cs_globals (mod_host f s) = cs_globals s"
  "cs_processingPayable (mod_host f s) = cs_processingPayable s"
  by (simp_all add: mod_host_def)

lemma mod_host_mod_host [simp]: "mod_host g (mod_host f s) = mod_host (\<lambda>h. g (f h)) s"
  by (simp add: mod_host_def)

section \<open>Lemmas: balances and nonces\<close>

text \<open>Which operations of the host leave which cells alone.\<close>

named_theorems host_frame \<open>cells that an operation of the host does not change\<close>

lemma upd_acc_frame:
  "(\<And>x. acc_balance (f x) = acc_balance x) \<Longrightarrow> balance_cell (upd_acc a f h) = balance_cell h"
  "(\<And>x. acc_nonce (f x) = acc_nonce x) \<Longrightarrow> nonce_cell (upd_acc a f h) = nonce_cell h"
  "(\<And>x. acc_storage (f x) = acc_storage x) \<Longrightarrow> storage_cell (upd_acc a f h) = storage_cell h"
  "(\<And>x. acc_code (f x) = acc_code x) \<Longrightarrow> (\<And>x. acc_codeHash (f x) = acc_codeHash x) \<Longrightarrow>
    code_cell (upd_acc a f h) = code_cell h"
  by (auto simp: fun_eq_iff balance_cell_def nonce_cell_def storage_cell_def code_cell_def slot_def acc_upd_acc)

lemma field_frame [host_frame, simp]:
  "balance_cell (h\<lparr>accessedAccountsNonces := x1\<rparr>) = balance_cell h"
  "balance_cell (h\<lparr>accessedAccountsCode := x2\<rparr>) = balance_cell h"
  "balance_cell (h\<lparr>accessedStorages := x3\<rparr>) = balance_cell h"
  "balance_cell (h\<lparr>accessedTransients := x4\<rparr>) = balance_cell h"
  "balance_cell (h\<lparr>contractAddresses := x5\<rparr>) = balance_cell h"
  "balance_cell (h\<lparr>recentlyCreatedContracts := x6\<rparr>) = balance_cell h"
  "balance_cell (h\<lparr>currentTxHash := x7\<rparr>) = balance_cell h"
  "balance_cell (h\<lparr>currentTxContext := x8\<rparr>) = balance_cell h"
  "balance_cell (h\<lparr>emittedEvents := x9\<rparr>) = balance_cell h"
  "balance_cell (h\<lparr>shouldRevert := x10\<rparr>) = balance_cell h"
  "balance_cell (h\<lparr>randomGen := x11\<rparr>) = balance_cell h"
  "nonce_cell (h\<lparr>accessedAccountsBalances := x12\<rparr>) = nonce_cell h"
  "nonce_cell (h\<lparr>accessedAccountsCode := x2\<rparr>) = nonce_cell h"
  "nonce_cell (h\<lparr>accessedStorages := x3\<rparr>) = nonce_cell h"
  "nonce_cell (h\<lparr>accessedTransients := x4\<rparr>) = nonce_cell h"
  "nonce_cell (h\<lparr>contractAddresses := x5\<rparr>) = nonce_cell h"
  "nonce_cell (h\<lparr>recentlyCreatedContracts := x6\<rparr>) = nonce_cell h"
  "nonce_cell (h\<lparr>currentTxHash := x7\<rparr>) = nonce_cell h"
  "nonce_cell (h\<lparr>currentTxContext := x8\<rparr>) = nonce_cell h"
  "nonce_cell (h\<lparr>emittedEvents := x9\<rparr>) = nonce_cell h"
  "nonce_cell (h\<lparr>shouldRevert := x10\<rparr>) = nonce_cell h"
  "nonce_cell (h\<lparr>randomGen := x11\<rparr>) = nonce_cell h"
  by (simp_all add: balance_cell_def nonce_cell_def fun_eq_iff)

lemma other_field_frame [host_frame, simp]:
  "storage_cell (h\<lparr>accessedAccountsBalances := x12\<rparr>) = storage_cell h"
  "storage_cell (h\<lparr>accessedAccountsNonces := x1\<rparr>) = storage_cell h"
  "storage_cell (h\<lparr>accessedAccountsCode := x2\<rparr>) = storage_cell h"
  "storage_cell (h\<lparr>currentTxContext := x8\<rparr>) = storage_cell h"
  "storage_cell (h\<lparr>randomGen := x11\<rparr>) = storage_cell h"
  "code_cell (h\<lparr>accessedAccountsBalances := x12\<rparr>) = code_cell h"
  "code_cell (h\<lparr>accessedAccountsNonces := x1\<rparr>) = code_cell h"
  "code_cell (h\<lparr>accessedStorages := x3\<rparr>) = code_cell h"
  "code_cell (h\<lparr>accessedTransients := x4\<rparr>) = code_cell h"
  "code_cell (h\<lparr>contractAddresses := x5\<rparr>) = code_cell h"
  "code_cell (h\<lparr>currentTxHash := x7\<rparr>) = code_cell h"
  "code_cell (h\<lparr>currentTxContext := x8\<rparr>) = code_cell h"
  "code_cell (h\<lparr>emittedEvents := x9\<rparr>) = code_cell h"
  "code_cell (h\<lparr>shouldRevert := x10\<rparr>) = code_cell h"
  "code_cell (h\<lparr>randomGen := x11\<rparr>) = code_cell h"
  by (simp_all add: storage_cell_def code_cell_def fun_eq_iff)

lemma loop_frame [host_frame]:
  "balance_cell (commit_slot p h) = balance_cell h" "balance_cell (revert_slot p h) = balance_cell h"
  "balance_cell (clear_transient a h) = balance_cell h" "balance_cell (commit_code_of a h) = balance_cell h"
  "balance_cell (revert_code_of a h) = balance_cell h" "balance_cell (commit_nonce_of a h) = balance_cell h"
  "nonce_cell (commit_slot p h) = nonce_cell h" "nonce_cell (revert_slot p h) = nonce_cell h"
  "nonce_cell (clear_transient a h) = nonce_cell h" "nonce_cell (commit_code_of a h) = nonce_cell h"
  "nonce_cell (revert_code_of a h) = nonce_cell h" "nonce_cell (commit_balance_of a h) = nonce_cell h"
  "nonce_cell (revert_balance_of a h) = nonce_cell h"
  "storage_cell (commit_code_of a h) = storage_cell h" "storage_cell (revert_code_of a h) = storage_cell h"
  "storage_cell (commit_balance_of a h) = storage_cell h" "storage_cell (revert_balance_of a h) = storage_cell h"
  "storage_cell (commit_nonce_of a h) = storage_cell h"
  "code_cell (commit_slot p h) = code_cell h" "code_cell (revert_slot p h) = code_cell h"
  "code_cell (clear_transient a h) = code_cell h" "code_cell (commit_balance_of a h) = code_cell h"
  "code_cell (revert_balance_of a h) = code_cell h" "code_cell (commit_nonce_of a h) = code_cell h"
  by (cases p; simp add: upd_acc_frame commit_slot_def revert_slot_def clear_transient_def put_slot_def
      commit_code_of_def revert_code_of_def commit_balance_of_def revert_balance_of_def commit_nonce_of_def)+

lemma settle_frame [host_frame, simp]:
  "balance_cell (commit h) = balance_cell h" "balance_cell (revert h) = balance_cell h"
  "balance_cell (commitCode h) = balance_cell h" "balance_cell (revertCode h) = balance_cell h"
  "balance_cell (commitNonce h) = balance_cell h"
  "nonce_cell (commit h) = nonce_cell h" "nonce_cell (revert h) = nonce_cell h"
  "nonce_cell (commitCode h) = nonce_cell h" "nonce_cell (revertCode h) = nonce_cell h"
  "nonce_cell (commitBalance h) = nonce_cell h" "nonce_cell (revertBalance h) = nonce_cell h"
  "storage_cell (commitCode h) = storage_cell h" "storage_cell (revertCode h) = storage_cell h"
  "storage_cell (commitBalance h) = storage_cell h" "storage_cell (revertBalance h) = storage_cell h"
  "storage_cell (commitNonce h) = storage_cell h"
  "code_cell (commit h) = code_cell h" "code_cell (revert h) = code_cell h"
  "code_cell (commitBalance h) = code_cell h" "code_cell (revertBalance h) = code_cell h"
  "code_cell (commitNonce h) = code_cell h"
  by (simp_all add: commit_def revert_def commitCode_def revertCode_def commitNonce_def commitBalance_def
      revertBalance_def Let_def fold_field[of balance_cell] fold_field[of nonce_cell]
      fold_field[of storage_cell] fold_field[of code_cell] loop_frame)

lemma setBalance_cells [simp]:
  "balance_cell (setBalance a v h) b = (if b = a then (fst (balance_cell h a), v) else balance_cell h b)"
  "nonce_cell (setBalance a v h) = nonce_cell h" "storage_cell (setBalance a v h) = storage_cell h"
  "code_cell (setBalance a v h) = code_cell h"
  by (simp_all add: setBalance_def upd_acc_frame) (simp add: balance_cell_def acc_upd_acc)

lemma bump_nonce_cells [simp]:
  "nonce_cell (bump_nonce a h) b =
    (if b = a then (fst (nonce_cell h a), (snd (nonce_cell h a) + 1) mod 2 ^ 64) else nonce_cell h b)"
  "balance_cell (bump_nonce a h) = balance_cell h" "storage_cell (bump_nonce a h) = storage_cell h"
  "code_cell (bump_nonce a h) = code_cell h"
  by (simp_all add: bump_nonce_def upd_acc_frame) (simp add: nonce_cell_def acc_upd_acc)

lemma touch_cells [simp]:
  "balance_cell (upd_acc a (\<lambda>x. x) h) = balance_cell h" "nonce_cell (upd_acc a (\<lambda>x. x) h) = nonce_cell h"
  "storage_cell (upd_acc a (\<lambda>x. x) h) = storage_cell h" "code_cell (upd_acc a (\<lambda>x. x) h) = code_cell h"
  by (simp_all add: upd_acc_frame)

lemma setTxContext_cells [simp]:
  "balance_cell (setTxContext ci n cb ts gl ch h) = balance_cell h"
  "nonce_cell (setTxContext ci n cb ts gl ch h) = nonce_cell h"
  "storage_cell (setTxContext ci n cb ts gl ch h) = storage_cell h"
  "code_cell (setTxContext ci n cb ts gl ch h) = code_cell h"
  by (simp_all add: setTxContext_def)

lemma balance_of_cell: "balance_of s a = snd (balance_cell (cs_host s) a)"
  by (simp add: balance_of_def balance_cell_def)

lemma getNativeBalance_cell: "getNativeBalance s a = snd (balance_cell (cs_host s) a)"
  by (simp add: getNativeBalance_def balance_cell_def acc_def empty_account_def split: option.split)

lemma getNativeNonce_cell: "getNativeNonce s a = snd (nonce_cell (cs_host s) a)"
  by (simp add: getNativeNonce_def nonce_cell_def acc_def empty_account_def split: option.split)

lemma commitBalance_current [simp]: "snd (balance_cell (commitBalance h) a) = snd (balance_cell h a)"
  by (rule balance_log.commit_current)

lemma commitNonce_current [simp]: "snd (nonce_cell (commitNonce h) a) = snd (nonce_cell h a)"
  by (rule nonce_log.commit_current)

lemma sub_balance_ok: "v \<le> balance_of s a \<Longrightarrow>
    sub_balance E a v s = (Inr (), mod_host (setBalance a (balance_of s a - v)) s)"
  by (simp add: sub_balance_def u_sub_def)

lemma add_balance_ok: "balance_of s a + v < 2 ^ 256 \<Longrightarrow>
    add_balance E a v s = (Inr (), mod_host (setBalance a (balance_of s a + v)) s)"
  by (simp add: add_balance_def u_add_def)

lemma balance_of_mod_host: "balance_of (mod_host f s) a = snd (balance_cell (f (cs_host s)) a)"
  by (simp add: balance_of_cell)


section \<open>Lemmas: validation and classic transfers\<close>

lemma tx_cost_Inr: "tx_cost tx = Inr x \<longleftrightarrow>
    x = tb_value tx + tb_gasLimit tx * tb_maxFeePerGas tx \<and> x < 2 ^ 256"
  by (auto simp: tx_cost_def bind_r_eq_Inr)

lemma validate_valid_iff:
  assumes "\<not> in_mempool s (tb_hash tx)"
  shows "validateTransactionInternal s tx = Inr NotInvalid \<longleftrightarrow>
    accounts (cs_host s) (tb_from tx) \<noteq> None \<and> tb_nonce tx = getNativeNonce s (tb_from tx)
    \<and> tb_value tx + tb_gasLimit tx * tb_maxFeePerGas tx \<le> getNativeBalance s (tb_from tx)
    \<and> tb_value tx + tb_gasLimit tx * tb_maxFeePerGas tx < 2 ^ 256"
  using assms
  by (auto simp: validateTransactionInternal_def getNativeBalance_def getNativeNonce_def bind_r_eq_Inr tx_cost_Inr
      split: option.splits if_splits)

text \<open>A transaction to an address that is neither a contract nor the zero address.\<close>

definition plain_transfer :: "'c node_env \<Rightarrow> ('c, 'd) chain_state \<Rightarrow> txblock \<Rightarrow> bool" where
  "plain_transfer E s tx \<longleftrightarrow> \<not> isEvmContract (cs_host s) (tb_to tx) \<and> tb_to tx \<noteq> zero_address \<and> \<not> isContractCall E s tx"

lemma isEvmContract_acc: "isEvmContract h a \<longleftrightarrow> length (snd (acc_code (acc h a))) > 0"
  by (simp add: isEvmContract_def acc_def empty_account_def split: option.split)

lemma isEvmContract_touch [simp]: "isEvmContract (upd_acc b (\<lambda>x. x) h) a = isEvmContract h a"
  by (simp add: isEvmContract_acc acc_upd_acc)

lemma isEvmContract_fields [simp]:
  "isEvmContract (h\<lparr>accessedAccountsBalances := x1\<rparr>) a = isEvmContract h a"
  "isEvmContract (h\<lparr>accessedAccountsNonces := x2\<rparr>) a = isEvmContract h a"
  by (simp_all add: isEvmContract_acc)

lemma accounts_touch [simp]: "accounts (upd_acc b (\<lambda>x. x) h) a = None \<longleftrightarrow> a \<noteq> b \<and> accounts h a = None"
  by (simp add: upd_acc_def)

lemma isContractCall_mod_host [simp]: "isContractCall E (mod_host f s) tx = isContractCall E s tx"
  by (simp add: isContractCall_def)

lemma log_simps: "log_balance a s = (Inr (), mod_host (\<lambda>h. h\<lparr>accessedAccountsBalances := accessedAccountsBalances h @ [a]\<rparr>) s)"
  "log_nonce a s = (Inr (), mod_host (\<lambda>h. h\<lparr>accessedAccountsNonces := accessedAccountsNonces h @ [a]\<rparr>) s)"
  by (simp_all add: log_balance_def log_nonce_def)

text \<open>The head of \<^verbatim>\<open>processTransaction\<close>, up to the two kinds of transaction, and its tail.\<close>

definition tx_start :: "txblock \<Rightarrow> evm_host \<Rightarrow> evm_host" where
  "tx_start tx h = (let h = upd_acc (tb_to tx) (\<lambda>x. x) h in
     h\<lparr>accessedAccountsBalances := accessedAccountsBalances h @ [tb_from tx],
       accessedAccountsNonces := accessedAccountsNonces h @ [tb_from tx]\<rparr>)"

definition tx_finish :: "txblock \<Rightarrow> evm_host \<Rightarrow> evm_host" where
  "tx_finish tx h = (let h = bump_nonce (tb_from tx) h in
     commitBalance (commitNonce (h\<lparr>accessedAccountsNonces := accessedAccountsNonces h @ [tb_from tx]\<rparr>)))"

lemma processTransaction_eq:
  assumes "accounts (cs_host s) (tb_from tx) \<noteq> None"
  shows "processTransaction E bi tx i s =
    (let s = mod_host (tx_start tx) s in
     seq_m (if isEvmContract (cs_host s) (tb_to tx) \<or> tb_to tx = zero_address then evm_transaction E bi tx i
            else try_catch (classic_try E tx) (classic_catch E tx))
       (mod_m (mod_host (tx_finish tx))) s)"
proof -
  have st: "mod_host (\<lambda>h. (upd_acc (tb_to tx) (\<lambda>x. x) h)
      \<lparr>accessedAccountsBalances := accessedAccountsBalances h @ [tb_from tx],
       accessedAccountsNonces := accessedAccountsNonces h @ [tb_from tx]\<rparr>) s = mod_host (tx_start tx) s"
    by (simp add: mod_host_def tx_start_def Let_def)
  have fin: "(\<lambda>h. commitBalance (commitNonce ((bump_nonce (tb_from tx) h)
      \<lparr>accessedAccountsNonces := accessedAccountsNonces (bump_nonce (tb_from tx) h) @ [tb_from tx]\<rparr>))) = tx_finish tx"
    by (simp add: tx_finish_def Let_def fun_eq_iff)
  have tail: "seq_m (mod_m (mod_host (bump_nonce (tb_from tx)))) (seq_m (log_nonce (tb_from tx))
      (mod_m (mod_host (\<lambda>h. commitBalance (commitNonce h))))) = mod_m (mod_host (tx_finish tx))"
    by (rule ext) (simp add: seq_m_Inr log_simps fin)
  show ?thesis
    using assms unfolding processTransaction_def tail
    by (simp add: seq_m_Inr log_simps st Let_def)
qed

lemma tx_cells [simp]:
  "balance_cell (tx_start tx h) = balance_cell h" "nonce_cell (tx_start tx h) = nonce_cell h"
  "storage_cell (tx_start tx h) = storage_cell h" "code_cell (tx_start tx h) = code_cell h"
  "snd (balance_cell (tx_finish tx h) a) = snd (balance_cell h a)"
  "snd (nonce_cell (tx_finish tx h) a) =
     (if a = tb_from tx then (snd (nonce_cell h a) + 1) mod 2 ^ 64 else snd (nonce_cell h a))"
  "storage_cell (tx_finish tx h) = storage_cell h" "code_cell (tx_finish tx h) = code_cell h"
  by (simp_all add: tx_start_def tx_finish_def Let_def)

lemma isEvmContract_start [simp]: "isEvmContract (tx_start tx h) a = isEvmContract h a"
  by (simp add: tx_start_def Let_def)

text \<open>The transient storage and the other members of the host that a transfer does not touch.\<close>

definition host_rest :: "evm_host \<Rightarrow> (bytes \<Rightarrow> address option) \<times> bytes list \<times> address list \<times> evm_tx_context \<times> bool \<times> bytes" where
  "host_rest h = (contractAddresses h, recentlyCreatedContracts h, accessedAccountsCode h, currentTxContext h,
     shouldRevert h, randomGen h)"

lemma upd_acc_rest [simp]: "host_rest (upd_acc a f h) = host_rest h"
  by (simp add: host_rest_def upd_acc_def)

lemma host_rest_fields [simp]:
  "host_rest (h\<lparr>accessedAccountsBalances := x1\<rparr>) = host_rest h" "host_rest (h\<lparr>accessedAccountsNonces := x2\<rparr>) = host_rest h"
  by (simp_all add: host_rest_def)

lemma host_rest_ops [simp]:
  "host_rest (setBalance a v h) = host_rest h" "host_rest (bump_nonce a h) = host_rest h"
  "host_rest (commitBalance h) = host_rest h" "host_rest (commitNonce h) = host_rest h" "host_rest (commit h) = host_rest h"
proof -
  have f: "host_rest (h\<lparr>accessedStorages := x1, accessedTransients := x2, currentTxHash := x3, emittedEvents := x4\<rparr>) = host_rest h"
    for h x1 x2 x3 x4 by (simp add: host_rest_def)
  show "host_rest (commit h) = host_rest h"
    by (simp add: commit_def Let_def f fold_field[of host_rest] commit_slot_def clear_transient_def case_prod_unfold)
qed (simp_all add: setBalance_def bump_nonce_def commitBalance_def commitNonce_def fold_field[of host_rest]
    commit_balance_of_def commit_nonce_of_def)

lemma transient_upd_acc: "(\<And>x. acc_transient (f x) = acc_transient x) \<Longrightarrow> transient_of (upd_acc a f h) = transient_of h"
  by (auto simp: fun_eq_iff transient_of_def acc_upd_acc)

lemma transient_frame [simp]:
  "transient_of (setBalance a v h) = transient_of h" "transient_of (bump_nonce a h) = transient_of h"
  "transient_of (h\<lparr>accessedAccountsBalances := x1\<rparr>) = transient_of h" "transient_of (h\<lparr>accessedAccountsNonces := x2\<rparr>) = transient_of h"
  "transient_of (commitBalance h) = transient_of h" "transient_of (commitNonce h) = transient_of h"
proof -
  show 1: "transient_of (h\<lparr>accessedAccountsBalances := x1\<rparr>) = transient_of h" "transient_of (h\<lparr>accessedAccountsNonces := x2\<rparr>) = transient_of h"
    for h x1 x2 by (simp_all add: transient_of_def fun_eq_iff)
  show "transient_of (commitBalance h) = transient_of h" "transient_of (commitNonce h) = transient_of h"
    by (simp_all add: commitBalance_def commitNonce_def 1 fold_field[of transient_of] commit_balance_of_def
        commit_nonce_of_def transient_upd_acc)
qed (simp_all add: setBalance_def bump_nonce_def transient_upd_acc)

text \<open>The host after a transfer has been processed, before the end that all transactions share.\<close>

definition transfer_host :: "txblock \<Rightarrow> evm_host \<Rightarrow> evm_host" where
  "transfer_host tx h =
     (let h = setBalance (tb_from tx) (snd (balance_cell h (tb_from tx)) - (tb_value tx + tb_gasLimit tx * tb_maxFeePerGas tx)) h;
          h = setBalance (tb_to tx) (snd (balance_cell h (tb_to tx)) + tb_value tx) h
      in commit (h\<lparr>accessedAccountsBalances := accessedAccountsBalances h @ [tb_to tx]\<rparr>))"

lemma classic_try_plain:
  assumes "plain_transfer E s tx" "tb_value tx + tb_gasLimit tx * tb_maxFeePerGas tx < 2 ^ 256"
    and "tb_value tx + tb_gasLimit tx * tb_maxFeePerGas tx \<le> balance_of s (tb_from tx)"
    and "balance_of s (tb_to tx) + tb_value tx < 2 ^ 256"
  shows "classic_try E tx s = (Inr (), mod_host (transfer_host tx) s)"
proof -
  let ?cost = "tb_value tx + tb_gasLimit tx * tb_maxFeePerGas tx"
  let ?s1 = "mod_host (setBalance (tb_from tx) (balance_of s (tb_from tx) - ?cost)) s"
  have cost: "tx_cost tx = Inr ?cost" using assms(2) by (simp add: tx_cost_Inr)
  have "balance_of ?s1 (tb_to tx) + tb_value tx < 2 ^ 256"
    using assms(4) by (auto simp: balance_of_cell intro: le_less_trans[OF add_right_mono])
  from add_balance_ok[OF this, where E = E] have add: "add_balance E (tb_to tx) (tb_value tx) ?s1
      = (Inr (), mod_host (setBalance (tb_to tx) (balance_of ?s1 (tb_to tx) + tb_value tx)) ?s1)" .
  let ?s2 = "mod_host (setBalance (tb_to tx) (balance_of ?s1 (tb_to tx) + tb_value tx)) ?s1"
  have "\<not> isContractCall E ?s2 tx" using assms(1) by (simp add: plain_transfer_def)
  then have "classic_try E tx s = (Inr (), mod_host commit (snd (log_balance (tb_to tx) ?s2)))"
    using sub_balance_ok[OF assms(3), where E = E] add
    by (simp add: classic_try_def bind_m_def cost seq_m_Inr log_simps)
  moreover have "mod_host commit (snd (log_balance (tb_to tx) ?s2)) = mod_host (transfer_host tx) s"
    by (simp add: mod_host_def transfer_host_def Let_def balance_of_cell log_simps)
  ultimately show ?thesis by simp
qed

text \<open>The cells of the host at the end of a transfer.\<close>

definition transferred :: "txblock \<Rightarrow> evm_host \<Rightarrow> evm_host" where
  "transferred tx h = tx_finish tx (transfer_host tx (tx_start tx h))"

lemma transferred_cells:
  "snd (balance_cell (transferred tx h) a) = snd (balance_cell h a)
     - (if a = tb_from tx then tb_value tx + tb_gasLimit tx * tb_maxFeePerGas tx else 0) + (if a = tb_to tx then tb_value tx else 0)"
  "snd (nonce_cell (transferred tx h) a) =
     (if a = tb_from tx then (snd (nonce_cell h a) + 1) mod 2 ^ 64 else snd (nonce_cell h a))"
  "code_cell (transferred tx h) = code_cell h" "host_rest (transferred tx h) = host_rest h"
  by (simp_all add: transferred_def tx_start_def tx_finish_def transfer_host_def Let_def)

lemma touched_commit [simp]:
  "accessedAccountsBalances (commit h) = accessedAccountsBalances h" "accessedAccountsNonces (commit h) = accessedAccountsNonces h"
  by (simp_all add: commit_def Let_def fold_field[of accessedAccountsBalances] fold_field[of accessedAccountsNonces]
      commit_slot_def clear_transient_def case_prod_unfold)

lemma touched_ops [simp]:
  "accessedAccountsBalances (setBalance a v h) = accessedAccountsBalances h" "accessedAccountsNonces (setBalance a v h) = accessedAccountsNonces h"
  "accessedStorages (setBalance a v h) = accessedStorages h" "accessedTransients (setBalance a v h) = accessedTransients h"
  "accessedAccountsBalances (bump_nonce a h) = accessedAccountsBalances h" "accessedAccountsNonces (bump_nonce a h) = accessedAccountsNonces h"
  "accessedAccountsBalances (commitNonce h) = accessedAccountsBalances h"
  by (simp_all add: setBalance_def bump_nonce_def commitNonce_def fold_field[of accessedAccountsBalances] commit_nonce_of_def)

lemma transferred_journals:
  "balance_cell (transferred tx h) a = (if a \<in> {tb_from tx, tb_to tx} \<union> set (accessedAccountsBalances h)
     then (snd (balance_cell (transferred tx h) a), snd (balance_cell (transferred tx h) a)) else balance_cell h a)"
  "nonce_cell (transferred tx h) a = (if a \<in> {tb_from tx} \<union> set (accessedAccountsNonces h)
     then (snd (nonce_cell (transferred tx h) a), snd (nonce_cell (transferred tx h) a)) else nonce_cell h a)"
  "storage_cell (transferred tx h) p = (if p \<in> set (accessedStorages h)
     then (snd (storage_cell h p), snd (storage_cell h p)) else storage_cell h p)"
  "transient_of (transferred tx h) a = (if a \<in> set (accessedTransients h) then Map.empty else transient_of h a)"
  by (auto simp: transferred_def tx_start_def tx_finish_def transfer_host_def Let_def balance_log.commit_cell nonce_log.commit_cell
      storage_log.commit_cell settle_transient transient_upd_acc)

section \<open>Properties: transactions\<close>

text \<open>
  Claim C7. A transaction that is not in the mempool is valid exactly when its sender has an account,
  its nonce is the account's and the account can pay the value and the whole gas. Otherwise it
  is reported invalid, or the validation throws, which happens exactly when the account exists
  and the cost does not fit 256 bits. An account that has exactly the cost can pay; the comment in
  the source asks for less than the balance. A transaction that is in the mempool is always
  reported valid. \<^verbatim>\<open>addTx\<close> returns what the validation returns, adds exactly the valid transactions
  that are new to the mempool, under their hashes, and changes nothing else of the state.
\<close>
theorem validateTransaction_correct:
  "(in_mempool s (tb_hash tx) \<longrightarrow> validateTransactionInternal s tx = Inr NotInvalid)
   \<and> (\<not> in_mempool s (tb_hash tx) \<longrightarrow>
        (validateTransactionInternal s tx = Inr NotInvalid \<longleftrightarrow>
           accounts (cs_host s) (tb_from tx) \<noteq> None \<and> tb_nonce tx = getNativeNonce s (tb_from tx)
           \<and> tb_value tx + tb_gasLimit tx * tb_maxFeePerGas tx \<le> getNativeBalance s (tb_from tx)
           \<and> tb_value tx + tb_gasLimit tx * tb_maxFeePerGas tx < 2 ^ 256)
        \<and> ((\<exists>e. validateTransactionInternal s tx = Inl e) \<longleftrightarrow>
             accounts (cs_host s) (tb_from tx) \<noteq> None
             \<and> 2 ^ 256 \<le> tb_value tx + tb_gasLimit tx * tb_maxFeePerGas tx))
   \<and> snd (addTx tx s) = s\<lparr>cs_mempool := cs_mempool s @
        (if validateTransactionInternal s tx = Inr NotInvalid \<and> \<not> in_mempool s (tb_hash tx) then [(tb_hash tx, tx)] else [])\<rparr>
   \<and> fst (addTx tx s) = validateTransactionInternal s tx"
proof -
  have c: "(\<exists>e. tx_cost tx = Inl e) \<longleftrightarrow> 2 ^ 256 \<le> tb_value tx + tb_gasLimit tx * tb_maxFeePerGas tx"
    using tx_cost_Inr[of tx] by (cases "tx_cost tx") (auto simp: not_less[symmetric] simp del: not_less)
  have "\<not> in_mempool s (tb_hash tx) \<Longrightarrow> (\<exists>e. validateTransactionInternal s tx = Inl e) \<longleftrightarrow>
      accounts (cs_host s) (tb_from tx) \<noteq> None \<and> (\<exists>e. tx_cost tx = Inl e)"
    by (cases "tx_cost tx") (auto simp: validateTransactionInternal_def split: option.split)
  then show ?thesis
    using validate_valid_iff[of s tx]
    by (auto simp: c addTx_def validateTransactionInternal_def split: sum.split TxInvalid.split)
qed

text \<open>
  Claim C2. A valid transfer between ordinary accounts does what it says and nothing else. It returns;
  the sender pays the value and the whole gas limit at the maximum fee, the receiver gets the
  value, and the nonce of the sender goes up by one; every other balance and nonce and every
  current value of the EVM storage is as before, and so are all code, the mempool, the contracts,
  the consensus, the chain and the rest of the state. The branch also commits the EVM
  journal: a slot, a balance or a nonce that was touched before keeps its current value as its
  committed one, what was not touched keeps both, the transient storage of the touched
  accounts is dropped. A journal with nothing pending is left as it is.
\<close>
theorem classic_transfer_correct:
  assumes "validateTransactionInternal s tx = Inr NotInvalid" "\<not> in_mempool s (tb_hash tx)"
    and "plain_transfer E s tx" "getNativeBalance s (tb_to tx) + tb_value tx < 2 ^ 256"
  shows "\<exists>s'. processTransaction E bi tx i s = (Inr (), s')
    \<and> (\<forall>a. getNativeBalance s' a = getNativeBalance s a
         - (if a = tb_from tx then tb_value tx + tb_gasLimit tx * tb_maxFeePerGas tx else 0)
         + (if a = tb_to tx then tb_value tx else 0))
    \<and> (\<forall>a. getNativeNonce s' a =
         (if a = tb_from tx then (getNativeNonce s a + 1) mod 2 ^ 64 else getNativeNonce s a))
    \<and> (\<forall>a k. get_storage (cs_host s') a k = get_storage (cs_host s) a k)
    \<and> s' = s\<lparr>cs_host := cs_host s'\<rparr> \<and> code_cell (cs_host s') = code_cell (cs_host s)
    \<and> host_rest (cs_host s') = host_rest (cs_host s)
    \<and> (\<forall>a. fst (balance_cell (cs_host s') a) = (if a \<in> {tb_from tx, tb_to tx} \<union> set (accessedAccountsBalances (cs_host s))
         then getNativeBalance s' a else fst (balance_cell (cs_host s) a)))
    \<and> (\<forall>a. fst (nonce_cell (cs_host s') a) = (if a \<in> {tb_from tx} \<union> set (accessedAccountsNonces (cs_host s))
         then getNativeNonce s' a else fst (nonce_cell (cs_host s) a)))
    \<and> (\<forall>p. storage_cell (cs_host s') p = (if p \<in> set (accessedStorages (cs_host s))
         then (snd (storage_cell (cs_host s) p), snd (storage_cell (cs_host s) p)) else storage_cell (cs_host s) p))
    \<and> (\<forall>a. transient_of (cs_host s') a =
         (if a \<in> set (accessedTransients (cs_host s)) then Map.empty else transient_of (cs_host s) a))"
proof -
  note v = assms(1)[unfolded validate_valid_iff[OF assms(2)] getNativeBalance_cell]
  let ?s1 = "mod_host (tx_start tx) s" and ?s' = "s\<lparr>cs_host := transferred tx (cs_host s)\<rparr>"
  have "plain_transfer E ?s1 tx" using assms(3) by (simp add: plain_transfer_def)
  with v assms(4) have "classic_try E tx ?s1 = (Inr (), mod_host (transfer_host tx) ?s1)"
    by (intro classic_try_plain) (simp_all add: balance_of_mod_host getNativeBalance_cell)
  then have "try_catch (classic_try E tx) (classic_catch E tx) ?s1 = (Inr (), mod_host (transfer_host tx) ?s1)"
    by (rule try_catch_Inr[where body = "classic_try E tx"])
  from seq_m_Inr[where m = "try_catch (classic_try E tx) (classic_catch E tx)"
      and k = "mod_m (mod_host (tx_finish tx))", OF this]
  have p: "processTransaction E bi tx i s = (Inr (), ?s')"
    using v assms(3) by (simp add: processTransaction_eq Let_def plain_transfer_def mod_host_def transferred_def)
  have "storage_cell (transferred tx (cs_host s)) q = (if q \<in> set (accessedStorages (cs_host s))
      then (snd (storage_cell (cs_host s) q), snd (storage_cell (cs_host s) q)) else storage_cell (cs_host s) q)" for q
    by (rule transferred_journals(3))
  moreover have "fst (balance_cell (transferred tx (cs_host s)) a) = (if a \<in> {tb_from tx, tb_to tx} \<union> set (accessedAccountsBalances (cs_host s))
      then snd (balance_cell (transferred tx (cs_host s)) a) else fst (balance_cell (cs_host s) a))"
    "fst (nonce_cell (transferred tx (cs_host s)) a) = (if a \<in> {tb_from tx} \<union> set (accessedAccountsNonces (cs_host s))
      then snd (nonce_cell (transferred tx (cs_host s)) a) else fst (nonce_cell (cs_host s) a))" for a
    using transferred_journals(1,2)[of tx "cs_host s" a] by (metis fst_conv)+
  ultimately show ?thesis
    using p transferred_cells(3,4)[of tx "cs_host s"] transferred_journals(4)[of tx "cs_host s"]
    by (intro exI[of _ ?s'])
      (simp add: getNativeBalance_cell getNativeNonce_cell get_storage_cell transferred_cells(1,2))
qed


section \<open>Lemmas: what processing transactions does not touch\<close>

definition keeps :: "(('c, 'd) chain_state, 'a) meth \<Rightarrow> bool" where
  "keeps m \<longleftrightarrow> (\<forall>s. cs_mempool (snd (m s)) = cs_mempool s \<and> cs_rdpos (snd (m s)) = cs_rdpos s
     \<and> cs_storage (snd (m s)) = cs_storage s)"

named_theorems keeps_intros \<open>methods that keep mempool, consensus and storage\<close>

lemma keeps_combinators [keeps_intros]:
  "keeps (ret_m x)" "keeps (throw_m e)" "keeps (lift_m r)" "keeps (get_m p)" "keeps (mod_m (mod_host g))"
  "keeps m \<Longrightarrow> (\<And>x. keeps (k x)) \<Longrightarrow> keeps (bind_m m k)"
  "keeps m1 \<Longrightarrow> keeps m2 \<Longrightarrow> keeps (seq_m m1 m2)"
  "keeps m1 \<Longrightarrow> keeps m2 \<Longrightarrow> keeps (try_catch m1 m2)"
  "keeps m1 \<Longrightarrow> keeps (when_m b m1)"
  "keeps m1 \<Longrightarrow> keeps m2 \<Longrightarrow> keeps (if b then m1 else m2)"
  "(\<And>s. keeps (f s)) \<Longrightarrow> keeps (ask_m f)"
  by (auto simp: keeps_def ask_m_def seq_m_def bind_m_def try_catch_def when_m_def split: prod.splits sum.splits cpp_error.splits)
    (metis snd_conv)+

lemma keeps_balances [keeps_intros]:
  "keeps (add_balance E a v)" "keeps (sub_balance E a v)" "keeps (log_balance a)" "keeps (log_nonce a)"
  "keeps (set_payable b)" "keeps (end_call_m E ok)" "keeps (processContractPayable E ps)"
  "keeps (run_contract E ci)" "keeps (execute_m E ci)" "keeps (commit_events E bi tx i)"
  by (auto simp: keeps_def add_balance_def sub_balance_def log_balance_def log_nonce_def set_payable_def
    end_call_m_def processContractPayable_def run_contract_def execute_m_def commit_events_def
    split: sum.split prod.split cpp_error.split)

lemma keeps_callContract [keeps_intros]: "keeps (callContract E tx)"
  unfolding callContract_def Let_def by (intro keeps_intros)

lemma keeps_processTransaction: "keeps (processTransaction E bi tx i)"
  unfolding processTransaction_def evm_transaction_def evm_try_def evm_catch_def classic_try_def classic_catch_def Let_def
  by (intro keeps_intros)

lemma keeps_process_txs: "keeps (process_txs E bi i ts)"
proof (induction ts arbitrary: i)
  case Nil
  then show ?case by (simp add: keeps_def)
next
  case (Cons tx ts)
  have "process_txs E bi i (tx # ts) = seq_m (processTransaction E bi tx i) (process_txs E bi (Suc i) ts)"
    by (rule ext) simp
  then show ?case using Cons keeps_processTransaction keeps_combinators(7) by metis
qed

section \<open>Lemmas: the mempool\<close>

definition mempool_wf :: "('c, 'd) chain_state \<Rightarrow> bool" where
  "mempool_wf s \<longleftrightarrow> distinct (map fst (cs_mempool s)) \<and> (\<forall>(h, tx)\<in>set (cs_mempool s). h = tb_hash tx)"

lemma in_mempool_iff: "in_mempool s h \<longleftrightarrow> h \<in> fst ` set (cs_mempool s)"
  by (force simp: in_mempool_def list_ex_iff)

text \<open>Valid against the accounts alone, whatever the mempool holds.\<close>

definition funded :: "('c, 'd) chain_state \<Rightarrow> txblock \<Rightarrow> bool" where
  "funded s tx \<longleftrightarrow> accounts (cs_host s) (tb_from tx) \<noteq> None \<and> tb_nonce tx = getNativeNonce s (tb_from tx)
     \<and> tb_value tx + tb_gasLimit tx * tb_maxFeePerGas tx \<le> getNativeBalance s (tb_from tx)"

lemma funded_host: "cs_host s' = cs_host s \<Longrightarrow> funded s' tx = funded s tx"
  by (simp add: funded_def getNativeNonce_def getNativeBalance_def)

lemma funded_mempool [simp]: "funded (s\<lparr>cs_mempool := m\<rparr>) tx = funded s tx"
  by (rule funded_host) simp

lemma validate_funded:
  "validateTransactionInternal s tx = Inr NotInvalid \<Longrightarrow> \<not> in_mempool s (tb_hash tx) \<Longrightarrow> funded s tx"
  by (simp add: validate_valid_iff funded_def)

lemma addTx_wf: "mempool_wf s \<Longrightarrow> mempool_wf (snd (addTx tx s))"
  by (auto simp: addTx_def mempool_wf_def in_mempool_iff split: sum.split TxInvalid.split)

lemma readd_txs_correct:
  assumes "readd_txs ms s = (Inr (), s')" "mempool_wf s" "distinct (map fst ms)"
    "\<forall>(h, tx)\<in>set ms. h = tb_hash tx" "fst ` set ms \<inter> fst ` set (cs_mempool s) = {}"
    "\<forall>(h, tx)\<in>set (cs_mempool s). funded s tx"
  shows "mempool_wf s' \<and> s' = s\<lparr>cs_mempool := cs_mempool s'\<rparr>
    \<and> set (cs_mempool s') \<subseteq> set (cs_mempool s) \<union> set ms \<and> (\<forall>(h, tx)\<in>set (cs_mempool s'). funded s' tx)"
  using assms
proof (induction ms s rule: readd_txs.induct)
  case (2 h tx ms s)
  from 2(2) obtain v where v: "validateTransactionInternal s tx = Inr v" by (auto split: sum.splits)
  let ?s = "if v = NotInvalid \<and> \<not> in_mempool s h then s\<lparr>cs_mempool := cs_mempool s @ [(h, tx)]\<rparr> else s"
  have r: "readd_txs ms ?s = (Inr (), s')" using 2(2) v by simp
  have hash: "h = tb_hash tx" "h \<notin> fst ` set (cs_mempool s)" using 2(5,6) by auto
  have wf: "mempool_wf ?s" using 2(3) hash by (auto simp: mempool_wf_def)
  have fd: "\<forall>(h, tx)\<in>set (cs_mempool ?s). funded ?s tx"
    using 2(7) validate_funded[of s tx] v hash by (auto simp: in_mempool_iff)
  have dis: "fst ` set ms \<inter> fst ` set (cs_mempool ?s) = {}" using 2(4,6) by auto
  note ih = 2(1)[OF v r wf _ _ dis fd]
  have "mempool_wf s' \<and> s' = ?s\<lparr>cs_mempool := cs_mempool s'\<rparr>
      \<and> set (cs_mempool s') \<subseteq> set (cs_mempool ?s) \<union> set ms \<and> (\<forall>(h, tx)\<in>set (cs_mempool s'). funded s' tx)"
    using ih 2(4,5) by simp
  then show ?case by (auto split: if_splits)
qed (auto simp: mempool_wf_def)

lemma refreshMempool_correct:
  assumes "refreshMempool b s = (Inr (), s')" "mempool_wf s"
  shows "mempool_wf s' \<and> s' = s\<lparr>cs_mempool := cs_mempool s'\<rparr>
    \<and> set (cs_mempool s') \<subseteq> {(h, tx) \<in> set (cs_mempool s). h \<notin> tb_hash ` set (txs b)}
    \<and> (\<forall>(h, tx)\<in>set (cs_mempool s'). funded s' tx)"
proof -
  let ?ms = "filter (\<lambda>(h, _). h \<notin> tb_hash ` set (txs b)) (cs_mempool s)"
  have r: "readd_txs ?ms (s\<lparr>cs_mempool := []\<rparr>) = (Inr (), s')"
    using assms(1) by (simp add: refreshMempool_def Let_def)
  have d: "distinct (map fst ?ms)" using assms(2) by (auto simp: mempool_wf_def distinct_map_filter)
  have k: "\<forall>(h, tx)\<in>set ?ms. h = tb_hash tx" using assms(2) by (auto simp: mempool_wf_def)
  show ?thesis
    using readd_txs_correct[OF r _ d k] by (auto simp: mempool_wf_def)
qed

section \<open>Properties: blocks\<close>

lemma all_valid_iff:
  "all_valid s ts = Inr True \<longleftrightarrow> (\<forall>tx\<in>set ts. validateTransactionInternal s tx = Inr NotInvalid)"
  by (induction ts) (auto simp: bind_r_eq_Inr split: if_splits)

lemma pushBack_chain: "pushBack b st = (Inr u, st') \<Longrightarrow> st_chain st' = st_chain st @ [b]"
  by (auto simp: pushBack_def split: if_splits)

lemma validateBlock_txs [simp]: "validateBlock c r (b\<lparr>txs := ts\<rparr>) = validateBlock c r b"
  by (simp add: validateBlock_def cong: if_cong)

text \<open>
  Claim C8. A block is accepted as the next one exactly when it follows the latest block in height and
  hash, is not older, satisfies the consensus rules, and each of its transactions is valid in
  the current state. Each one is checked against the state before the block, not after the
  transactions in front of it; so a block that repeats all its transactions is accepted just
  as well, although the copies cannot be paid for or have an old nonce.
\<close>
theorem validateNextBlock_correct:
  assumes "latest (cs_storage s) = Inr l"
  shows "(validateNextBlock E s b = Inr True \<longleftrightarrow>
      nHeight b = (nHeight l + 1) mod 2 ^ 64 \<and> prevBlockHash b = block_hash l \<and> timestamp l \<le> timestamp b
      \<and> validateBlock (ne_crypto E) (cs_rdpos s) b = Inr True
      \<and> (\<forall>tx\<in>set (txs b). validateTransactionInternal s tx = Inr NotInvalid))
    \<and> (validateNextBlock E s (b\<lparr>txs := txs b @ txs b\<rparr>) = Inr True \<longleftrightarrow> validateNextBlock E s b = Inr True)"
  using assms by (auto simp: validateNextBlock_def bind_r_eq_Inr all_valid_iff)

text \<open>
  Claim C1. Processing a block. A block that is not accepted is refused with an exception and leaves the
  state as it was. When processing returns, the block has been accepted and is the latest one,
  the consensus has moved to its randomness with an empty validator mempool and a random list
  that is a permutation of the validators, and the mempool holds only transactions that were
  there before, are not in the block, and are valid against the accounts as they are now.
\<close>
theorem processNextBlock_correct:
  assumes "mempool_wf s"
  shows "(validateNextBlock E s b \<noteq> Inr True \<longrightarrow> (\<exists>e. processNextBlock E b s = (Inl e, s)))
    \<and> (\<forall>s'. processNextBlock E b s = (Inr (), s') \<longrightarrow>
         validateNextBlock E s b = Inr True
         \<and> st_chain (cs_storage s') = st_chain (cs_storage s) @ [b]
         \<and> rd_mempool (cs_rdpos s') = [] \<and> rd_bestRandomSeed (cs_rdpos s') = blockRandomness b
         \<and> mset (rd_randomList (cs_rdpos s')) = mset (rd_validators (cs_rdpos s))
         \<and> mempool_wf s'
         \<and> (\<forall>(h, tx)\<in>set (cs_mempool s'). (h, tx) \<in> set (cs_mempool s) \<and> h \<notin> tb_hash ` set (txs b)
              \<and> accounts (cs_host s') (tb_from tx) \<noteq> None \<and> tb_nonce tx = getNativeNonce s' (tb_from tx)
              \<and> tb_value tx + tb_gasLimit tx * tb_maxFeePerGas tx \<le> getNativeBalance s' (tb_from tx)))"
proof (intro conjI impI allI)
  show "\<exists>e. processNextBlock E b s = (Inl e, s)" if "validateNextBlock E s b \<noteq> Inr True"
    using that by (auto simp: processNextBlock_def split: sum.split bool.split)
next
  fix s' assume p: "processNextBlock E b s = (Inr (), s')"
  then have v: "validateNextBlock E s b = Inr True"
    by (auto simp: processNextBlock_def split: sum.splits bool.splits)
  let ?s0 = "mod_host (\<lambda>h. h\<lparr>randomGen := blockRandomness b\<rparr>)
    (s\<lparr>cs_globals := (toAddress (ne_crypto E) (validatorPubKey b), block_hash b, nHeight b, timestamp b)\<rparr>)"
  let ?consensus = "\<lambda>s. case processBlock (ne_crypto E) b (cs_rdpos s) of
      (Inl e, rd) \<Rightarrow> (Inl e, s\<lparr>cs_rdpos := rd\<rparr>) | (Inr _, rd) \<Rightarrow> (Inr (), s\<lparr>cs_rdpos := rd\<rparr>)"
  let ?store = "\<lambda>s. case pushBack b (cs_storage s) of (r, st) \<Rightarrow> (r, s\<lparr>cs_storage := st\<rparr>)"
  have "seq_m (process_txs E (block_info_of E b) 0 (txs b)) (seq_m ?consensus (seq_m (refreshMempool b) ?store)) ?s0
      = (Inr (), s')"
    using p v by (simp add: processNextBlock_def)
  then obtain s1 s1' s2 where s1: "process_txs E (block_info_of E b) 0 (txs b) ?s0 = (Inr (), s1)"
    and cons: "?consensus s1 = (Inr (), s1')" and s2': "refreshMempool b s1' = (Inr (), s2)"
    and sto: "?store s2 = (Inr (), s')"
    unfolding seq_m_eq_Inr by auto
  obtain seed rd where rd: "processBlock (ne_crypto E) b (cs_rdpos s1) = (Inr seed, rd)" and "s1' = s1\<lparr>cs_rdpos := rd\<rparr>"
    using cons by (auto split: prod.splits sum.splits)
  with s2' have s2: "refreshMempool b (s1\<lparr>cs_rdpos := rd\<rparr>) = (Inr (), s2)" by simp
  obtain st0 where st0: "pushBack b (cs_storage s2) = (Inr (), st0)" "s' = s2\<lparr>cs_storage := st0\<rparr>"
    using sto by (auto split: prod.splits)
  have st: "pushBack b (cs_storage s2) = (Inr (), cs_storage s')" and s': "s' = s2\<lparr>cs_storage := cs_storage s'\<rparr>"
    using st0 by simp_all
  have k: "cs_mempool s1 = cs_mempool s" "cs_rdpos s1 = cs_rdpos s" "cs_storage s1 = cs_storage s"
    using keeps_process_txs[of E "block_info_of E b" 0 "txs b", unfolded keeps_def, rule_format, of ?s0] s1 by simp_all
  have wf: "mempool_wf (s1\<lparr>cs_rdpos := rd\<rparr>)" using assms k by (simp add: mempool_wf_def)
  note r = refreshMempool_correct[OF s2 wf]
  then have r2: "cs_rdpos s2 = rd" "cs_storage s2 = cs_storage s"
    using k by (metis (no_types, lifting) chain_state.ext_inject chain_state.surjective chain_state.update_convs)+
  have c: "cs_rdpos s' = rd" "cs_mempool s' = cs_mempool s2" "cs_host s' = cs_host s2"
    using r2 by (subst s', simp)+
  show "validateNextBlock E s b = Inr True" by (rule v)
  show "st_chain (cs_storage s') = st_chain (cs_storage s) @ [b]"
    using pushBack_chain[OF st] r2 by simp
  have rds: "rd_mempool rd = []" "rd_bestRandomSeed rd = blockRandomness b"
    "mset (rd_randomList rd) = mset (rd_validators (cs_rdpos s1))"
    using rd gen.shuffle_mset by (auto simp: processBlock_def Let_def split: if_splits sum.splits)
  then show "rd_mempool (cs_rdpos s') = []" "rd_bestRandomSeed (cs_rdpos s') = blockRandomness b"
    "mset (rd_randomList (cs_rdpos s')) = mset (rd_validators (cs_rdpos s))"
    using k c by simp_all
  show "mempool_wf s'" using r c by (simp add: mempool_wf_def)
  show "\<forall>(h, tx)\<in>set (cs_mempool s'). (h, tx) \<in> set (cs_mempool s) \<and> h \<notin> tb_hash ` set (txs b)
      \<and> accounts (cs_host s') (tb_from tx) \<noteq> None \<and> tb_nonce tx = getNativeNonce s' (tb_from tx)
      \<and> tb_value tx + tb_gasLimit tx * tb_maxFeePerGas tx \<le> getNativeBalance s' (tb_from tx)"
    using r k c by (auto simp: funded_def getNativeBalance_def getNativeNonce_def)
qed



section \<open>Lemmas: a contract call that throws\<close>

lemma callContract_throws:
  assumes "isContractCall E s tx" "e \<noteq> UndefinedBehaviour"
    and "ne_call E (txToCallInfo tx) (get_balance (cs_host s)) (cs_contracts s) = (Inl e, c)"
  shows "callContract E tx s = (Inl (DynamicException ''contract''), s\<lparr>cs_contracts := ne_end E False c\<rparr>)"
proof -
  have "run_contract E (txToCallInfo tx) s = (Inl (DynamicException ''contract''), s\<lparr>cs_contracts := ne_end E False c\<rparr>)"
    using assms(2,3) by (cases e) (simp_all add: run_contract_def)
  moreover have "ci_to (txToCallInfo tx) = tb_to tx" by (simp add: txToCallInfo_def)
  ultimately show ?thesis
    using assms(1) by (auto simp: callContract_def Let_def bind_m_def isContractCall_def)
qed

text \<open>The balances when the contract starts, and when the handler is done.\<close>

definition charged :: "('c, 'd) chain_state \<Rightarrow> txblock \<Rightarrow> address \<Rightarrow> nat" where
  "charged s tx a = getNativeBalance s a
     - (if a = tb_from tx then tb_value tx + tb_gasLimit tx * tb_maxFeePerGas tx else 0)
     + (if a = tb_to tx then tb_value tx else 0)"

definition refunded :: "bool \<Rightarrow> ('c, 'd) chain_state \<Rightarrow> txblock \<Rightarrow> address \<Rightarrow> nat" where
  "refunded payable s tx a = charged s tx a
     + (if a = tb_from tx then tb_value tx + (if payable then tb_value tx else 0) else 0)
     - (if payable \<and> a = tb_to tx then tb_value tx else 0)"

lemma classic_try_throws:
  assumes "isContractCall E s tx" "e \<noteq> UndefinedBehaviour" "\<not> cs_processingPayable s"
    and "ne_call E (txToCallInfo tx) (charged s tx) (cs_contracts s) = (Inl e, c)"
    and "tb_value tx + tb_gasLimit tx * tb_maxFeePerGas tx < 2 ^ 256"
    and "tb_value tx + tb_gasLimit tx * tb_maxFeePerGas tx \<le> getNativeBalance s (tb_from tx)"
    and "getNativeBalance s (tb_to tx) + tb_value tx < 2 ^ 256"
  shows "\<exists>h'. classic_try E tx s = (Inl (DynamicException ''contract''), s\<lparr>cs_host := h',
      cs_processingPayable := isPayable E s (txToCallInfo tx), cs_contracts := ne_end E False c\<rparr>)
    \<and> (\<forall>a. snd (balance_cell h' a) = charged s tx a)
    \<and> nonce_cell h' = nonce_cell (cs_host s)"
proof -
  let ?cost = "tb_value tx + tb_gasLimit tx * tb_maxFeePerGas tx"
  let ?h1 = "setBalance (tb_from tx) (snd (balance_cell (cs_host s) (tb_from tx)) - ?cost) (cs_host s)"
  let ?h2 = "setBalance (tb_to tx) (snd (balance_cell ?h1 (tb_to tx)) + tb_value tx) ?h1"
  let ?s2 = "s\<lparr>cs_host := ?h2, cs_processingPayable := isPayable E s (txToCallInfo tx)\<rparr>"
  have cost: "tx_cost tx = Inr ?cost" using assms(5) by (simp add: tx_cost_Inr)
  have sub: "sub_balance E (tb_from tx) ?cost s = (Inr (), s\<lparr>cs_host := ?h1\<rparr>)"
    using assms(6) sub_balance_ok[of ?cost s "tb_from tx" E] by (simp add: balance_of_cell getNativeBalance_cell mod_host_def)
  have add: "add_balance E (tb_to tx) (tb_value tx) (s\<lparr>cs_host := ?h1\<rparr>) = (Inr (), s\<lparr>cs_host := ?h2\<rparr>)"
    using assms(7) add_balance_ok[of "s\<lparr>cs_host := ?h1\<rparr>" "tb_to tx" "tb_value tx" E]
    by (auto simp: balance_of_cell getNativeBalance_cell mod_host_def)
  have bal: "snd (balance_cell ?h2 a) = charged s tx a" for a
    by (simp add: charged_def getNativeBalance_cell)
  then have "get_balance (cs_host ?s2) = charged s tx" by (simp add: fun_eq_iff get_balance_cell)
  then have call: "callContract E tx ?s2 = (Inl (DynamicException ''contract''), ?s2\<lparr>cs_contracts := ne_end E False c\<rparr>)"
    using assms(1,2,4) by (intro callContract_throws) (auto simp: isContractCall_def)
  have pay: "seq_m (when_m (isPayable E (s\<lparr>cs_host := ?h2\<rparr>) (txToCallInfo tx)) (set_payable True)) k (s\<lparr>cs_host := ?h2\<rparr>) = k ?s2" for k
  proof -
    have "s\<lparr>cs_host := h, cs_processingPayable := False\<rparr> = s\<lparr>cs_host := h\<rparr>" for h using assms(3) by (cases s) simp
    moreover have "isPayable E (s\<lparr>cs_host := h\<rparr>) ci = isPayable E s ci" for h ci by (simp add: isPayable_def)
    ultimately show ?thesis
      by (cases "isPayable E s (txToCallInfo tx)") (simp_all add: set_payable_def del: setBalance_cells)
  qed
  have cc: "isContractCall E (s\<lparr>cs_host := h\<rparr>) tx" for h using assms(1) by (simp add: isContractCall_def)
  have "classic_try E tx s = (Inl (DynamicException ''contract''), ?s2\<lparr>cs_contracts := ne_end E False c\<rparr>)"
    unfolding classic_try_def bind_m_def lift_m_def cost prod.case sum.case
    by (subst seq_m_Inr[where m = "sub_balance E (tb_from tx) ?cost" and s = s, OF sub],
        subst seq_m_Inr[where m = "add_balance E (tb_to tx) (tb_value tx)" and s = "s\<lparr>cs_host := ?h1\<rparr>", OF add])
      (simp only: seq_ask_m cc when_m_simps seq_m_assoc pay seq_m_Inl[where m = "callContract E tx", OF call])
  then show ?thesis using bal by (intro exI[of _ ?h2]) simp
qed

lemma classic_catch_refunds:
  assumes "\<forall>a. snd (balance_cell h a) = charged s tx a" "tb_from tx \<noteq> tb_to tx"
    and "getNativeBalance s (tb_from tx) + tb_value tx < 2 ^ 256"
    and "tb_value tx + tb_gasLimit tx * tb_maxFeePerGas tx \<le> getNativeBalance s (tb_from tx)"
  shows "\<exists>h'. classic_catch E tx (s\<lparr>cs_host := h, cs_processingPayable := p, cs_contracts := c\<rparr>)
      = (Inr (), s\<lparr>cs_host := h', cs_processingPayable := False, cs_contracts := c\<rparr>)
    \<and> (\<forall>a. snd (balance_cell h' a) = refunded p s tx a) \<and> nonce_cell h' = nonce_cell h"
proof -
  let ?v = "tb_value tx"
  let ?h1 = "setBalance (tb_from tx) (snd (balance_cell h (tb_from tx)) + ?v) h"
  let ?h2 = "setBalance (tb_to tx) (snd (balance_cell ?h1 (tb_to tx)) - ?v) ?h1"
  let ?h3 = "setBalance (tb_from tx) (snd (balance_cell ?h2 (tb_from tx)) + ?v) ?h2"
  let ?st = "\<lambda>h. s\<lparr>cs_host := h, cs_processingPayable := p, cs_contracts := c\<rparr>"
  have le: "charged s tx (tb_from tx) + ?v + ?v < 2 ^ 256" "?v \<le> charged s tx (tb_to tx)"
    using assms(2-4) by (simp_all add: charged_def)
  have add: "add_balance E (tb_from tx) ?v (s\<lparr>cs_host := g, cs_processingPayable := q, cs_contracts := c\<rparr>)
      = (Inr (), s\<lparr>cs_host := setBalance (tb_from tx) (snd (balance_cell g (tb_from tx)) + ?v) g,
          cs_processingPayable := q, cs_contracts := c\<rparr>)"
    if "snd (balance_cell g (tb_from tx)) + ?v < 2 ^ 256" for g q
    using that add_balance_ok[of "s\<lparr>cs_host := g, cs_processingPayable := q, cs_contracts := c\<rparr>" "tb_from tx" ?v E]
    by (simp add: balance_of_cell mod_host_def)
  have sub: "sub_balance E (tb_to tx) ?v (?st ?h1) = (Inr (), ?st ?h2)"
    using assms(1,2) le sub_balance_ok[of ?v "?st ?h1" "tb_to tx" E] by (simp add: balance_of_cell mod_host_def)
  have sw: "(?st g)\<lparr>cs_processingPayable := False\<rparr> = s\<lparr>cs_host := g, cs_processingPayable := False, cs_contracts := c\<rparr>" for g
    by (cases s) simp
  have a1: "add_balance E (tb_from tx) ?v (?st h) = (Inr (), ?st ?h1)" by (rule add) (use le assms(1) in simp)
  have a3: "add_balance E (tb_from tx) ?v (s\<lparr>cs_host := ?h2, cs_processingPayable := False, cs_contracts := c\<rparr>)
      = (Inr (), s\<lparr>cs_host := ?h3, cs_processingPayable := False, cs_contracts := c\<rparr>)"
    by (rule add) (use le assms(1,2) in simp)
  show ?thesis
  proof (cases p)
    case True
    have "classic_catch E tx (?st h) = (Inr (), s\<lparr>cs_host := ?h3, cs_processingPayable := False, cs_contracts := c\<rparr>)"
    proof -
      have "classic_catch E tx (?st h) = seq_m (add_balance E (tb_from tx) ?v) (seq_m (seq_m (sub_balance E (tb_to tx) ?v)
          (set_payable False)) (add_balance E (tb_from tx) ?v)) (?st h)"
        using True by (simp add: classic_catch_def seq_m_assoc)
      also have "\<dots> = seq_m (seq_m (sub_balance E (tb_to tx) ?v) (set_payable False)) (add_balance E (tb_from tx) ?v) (?st ?h1)"
        by (rule seq_m_Inr[where m = "add_balance E (tb_from tx) ?v"]) (rule a1)
      also have "\<dots> = seq_m (set_payable False) (add_balance E (tb_from tx) ?v) (?st ?h2)"
        unfolding seq_m_assoc by (rule seq_m_Inr[where m = "sub_balance E (tb_to tx) ?v"]) (rule sub)
      also have "\<dots> = add_balance E (tb_from tx) ?v (s\<lparr>cs_host := ?h2, cs_processingPayable := False, cs_contracts := c\<rparr>)"
        by (simp only: set_payable_def seq_m_simps sw)
      also have "\<dots> = (Inr (), s\<lparr>cs_host := ?h3, cs_processingPayable := False, cs_contracts := c\<rparr>)"
        by (rule a3)
      finally show ?thesis .
    qed
    then show ?thesis
      using True assms(1,2) by (intro exI[of _ ?h3]) (auto simp: refunded_def)
  next
    case False
    from a1 False have "classic_catch E tx (?st h) = (Inr (), s\<lparr>cs_host := ?h1, cs_processingPayable := False, cs_contracts := c\<rparr>)"
      by (simp add: classic_catch_def)
    then show ?thesis
      using False assms(1,2) by (intro exI[of _ ?h1]) (auto simp: refunded_def)
  qed
qed

section \<open>Properties: a failing call\<close>

text \<open>
  Claim C40. A contract call that throws is paid for, but the value is not put back right: when the
  function is not payable the sender gets the value back and the contract keeps it as well,
  and when it is payable the sender gets it back twice. The balances of the two together and
  the gas make up what they were before and the value once more.
\<close>
theorem classic_failed_call_creates_value:
  assumes "validateTransactionInternal s tx = Inr NotInvalid" "\<not> in_mempool s (tb_hash tx)"
    and "isContractCall E s tx" "\<not> isEvmContract (cs_host s) (tb_to tx)" "tb_to tx \<noteq> zero_address"
    and "\<not> cs_processingPayable s" "tb_from tx \<noteq> tb_to tx"
    and "ne_call E (txToCallInfo tx) (charged s tx) (cs_contracts s) = (Inl e, c)" "e \<noteq> UndefinedBehaviour"
    and "getNativeBalance s (tb_from tx) + tb_value tx < 2 ^ 256" "getNativeBalance s (tb_to tx) + tb_value tx < 2 ^ 256"
  shows "\<exists>s'. processTransaction E bi tx i s = (Inr (), s')
    \<and> getNativeBalance s' (tb_from tx) = getNativeBalance s (tb_from tx) - tb_gasLimit tx * tb_maxFeePerGas tx
        + (if isPayable E s (txToCallInfo tx) then tb_value tx else 0)
    \<and> getNativeBalance s' (tb_to tx) = getNativeBalance s (tb_to tx)
        + (if isPayable E s (txToCallInfo tx) then 0 else tb_value tx)
    \<and> getNativeBalance s' (tb_from tx) + getNativeBalance s' (tb_to tx) + tb_gasLimit tx * tb_maxFeePerGas tx
        = getNativeBalance s (tb_from tx) + getNativeBalance s (tb_to tx) + tb_value tx
    \<and> (\<forall>a. a \<noteq> tb_from tx \<longrightarrow> a \<noteq> tb_to tx \<longrightarrow> getNativeBalance s' a = getNativeBalance s a)
    \<and> getNativeNonce s' (tb_from tx) = (getNativeNonce s (tb_from tx) + 1) mod 2 ^ 64
    \<and> cs_contracts s' = ne_end E False c"
proof -
  note v = assms(1)[unfolded validate_valid_iff[OF assms(2)]]
  let ?s1 = "mod_host (tx_start tx) s" and ?p = "isPayable E s (txToCallInfo tx)"
  have st: "isPayable E ?s1 (txToCallInfo tx) = ?p" "charged ?s1 tx = charged s tx"
    "refunded q ?s1 tx = refunded q s tx" "getNativeBalance ?s1 a = getNativeBalance s a" for q a
    by (simp_all add: isPayable_def charged_def refunded_def getNativeBalance_cell fun_eq_iff)
  obtain h1 where tr: "classic_try E tx ?s1 = (Inl (DynamicException ''contract''), ?s1\<lparr>cs_host := h1,
      cs_processingPayable := ?p, cs_contracts := ne_end E False c\<rparr>)"
    and h1: "\<forall>a. snd (balance_cell h1 a) = charged s tx a" "nonce_cell h1 = nonce_cell (cs_host ?s1)"
    using classic_try_throws[of E ?s1 tx e c] assms(3,6,8,9,11) v by (auto simp: st)
  obtain h2 where ca: "classic_catch E tx (?s1\<lparr>cs_host := h1, cs_processingPayable := ?p, cs_contracts := ne_end E False c\<rparr>)
      = (Inr (), ?s1\<lparr>cs_host := h2, cs_processingPayable := False, cs_contracts := ne_end E False c\<rparr>)"
    and h2: "\<forall>a. snd (balance_cell h2 a) = refunded ?p s tx a" "nonce_cell h2 = nonce_cell h1"
    using classic_catch_refunds[where h = h1 and s = ?s1 and tx = tx and E = E and p = ?p and c = "ne_end E False c"] h1 assms(7,10) v by (auto simp: st)
  let ?s2 = "?s1\<lparr>cs_host := h2, cs_processingPayable := False, cs_contracts := ne_end E False c\<rparr>"
  have "try_catch (classic_try E tx) (classic_catch E tx) ?s1 = (Inr (), ?s2)"
    using try_catch_Inl[where body = "classic_try E tx" and handler = "classic_catch E tx", OF tr] ca by simp
  from seq_m_Inr[where m = "try_catch (classic_try E tx) (classic_catch E tx)"
      and k = "mod_m (mod_host (tx_finish tx))", OF this]
  have "processTransaction E bi tx i s = (Inr (), mod_host (tx_finish tx) ?s2)"
    using v assms(4,5) by (simp add: processTransaction_eq Let_def)
  then show ?thesis
    using h1(2) h2 v assms(7)
    by (intro exI[of _ "mod_host (tx_finish tx) ?s2"])
      (auto simp: getNativeBalance_cell getNativeNonce_cell refunded_def charged_def)
qed



section \<open>Witnesses\<close>

text \<open>
  A node with one contract, whose functions throw and of which one is payable, and a machine
  that fails without calling the host; and a state with one account and a chain of one block.
\<close>

definition sample_env :: "unit node_env" where
  "sample_env = \<lparr>ne_crypto = sample_crypto,
     ne_vm = (\<lambda>msg code h. (\<lparr>res_status = 1, res_gas_left = 1000, res_output = []\<rparr>, h)), ne_chainId = 8080,
     ne_contains = (\<lambda>_ a. a = replicate 20 5), ne_payable = (\<lambda>_ _ f. f = replicate 4 5), ne_view = (\<lambda>_ _. Inr []),
     ne_call = (\<lambda>_ _ c. (Inl (DynamicException ''revert''), c)), ne_end = (\<lambda>_ c. c), ne_commitEvent = (\<lambda>_ c. c),
     ne_sub_fault = (\<lambda>x _. x), ne_add_fault = (\<lambda>x _. x)\<rparr>"

definition sample_state :: "(unit, table) chain_state" where
  "sample_state = \<lparr>cs_host = sample_host\<lparr>accounts := [replicate 20 7 \<mapsto>
       empty_account\<lparr>acc_nonce := (3, 3), acc_balance := (100000, 100000)\<rparr>]\<rparr>,
     cs_mempool = [], cs_processingPayable = False, cs_rdpos = sample_rdpos\<lparr>rd_minValidators := 0\<rparr>,
     cs_storage = snd (pushBack sample_block (empty_storage empty_table)), cs_contracts = (),
     cs_globals = (zero_address, zero_hash, 0, 0)\<rparr>"

lemma sample_state_account:
  "getNativeBalance sample_state a = (if a = replicate 20 7 then 100000 else 0)"
  "getNativeNonce sample_state a = (if a = replicate 20 7 then 3 else 0)"
  "accounts (cs_host sample_state) (replicate 20 7) \<noteq> None"
  "\<not> in_mempool sample_state h" "\<not> cs_processingPayable sample_state" "\<not> isEvmContract (cs_host sample_state) a"
  by (simp_all add: sample_state_def getNativeBalance_def getNativeNonce_def sample_host_def in_mempool_def
    isEvmContract_def empty_account_def)

lemma sample_tx_fields:
  "tb_from sample_tx = replicate 20 7" "tb_to sample_tx = replicate 20 9" "tb_value sample_tx = 1000"
  "tb_gasLimit sample_tx = 21000" "tb_maxFeePerGas sample_tx = 1" "tb_nonce sample_tx = 3" "tb_data sample_tx = replicate 60 5"
  by (simp_all add: sample_tx_def)

lemma not_protocol_address:
  "n < 20 \<Longrightarrow> replicate 20 x ! n \<noteq> rdPoS_address ! n \<Longrightarrow> replicate 20 x \<noteq> rdPoS_address"
  "n < 20 \<Longrightarrow> replicate 20 x ! n \<noteq> ContractManager_address ! n \<Longrightarrow> replicate 20 x \<noteq> ContractManager_address"
  "n < 20 \<Longrightarrow> replicate 20 x ! n \<noteq> zero_address ! n \<Longrightarrow> replicate 20 x \<noteq> zero_address"
  by metis+

lemma sample_addresses:
  "replicate 20 9 \<noteq> rdPoS_address" "replicate 20 9 \<noteq> ContractManager_address" "replicate 20 9 \<noteq> zero_address"
  "replicate 20 5 \<noteq> zero_address" "replicate 20 7 \<noteq> (replicate 20 5 :: address)" "replicate 20 9 \<noteq> (replicate 20 5 :: address)"
  "replicate 20 7 \<noteq> (replicate 20 9 :: address)"
  by (rule not_protocol_address[of 0]; simp add: rdPoS_address_def ContractManager_address_def zero_address_def)+
    (simp_all add: replicate_eq_replicate)

theorem validateTransaction_correct_witness:
  "validateTransactionInternal sample_state sample_tx = Inr NotInvalid
   \<and> cs_mempool (snd (addTx sample_tx sample_state)) = [(tb_hash sample_tx, sample_tx)]"
proof -
  have "validateTransactionInternal sample_state sample_tx = Inr NotInvalid"
    using validateTransaction_correct[of sample_state sample_tx] sample_state_account(3)
    by (simp add: sample_state_account sample_tx_fields)
  then show ?thesis
    using validateTransaction_correct[of sample_state sample_tx]
    by (simp add: sample_state_account(4)) (simp add: sample_state_def)
qed

theorem classic_transfer_correct_witness:
  "\<exists>s'. processTransaction sample_env (block_info_of sample_env sample_block) sample_tx 0 sample_state = (Inr (), s')
     \<and> getNativeBalance s' (replicate 20 7) = 78000 \<and> getNativeBalance s' (replicate 20 9) = 1000
     \<and> getNativeNonce s' (replicate 20 7) = 4"
proof -
  have v: "validateTransactionInternal sample_state sample_tx = Inr NotInvalid"
    using validate_valid_iff[of sample_state sample_tx] sample_state_account(3)
    by (simp add: sample_state_account sample_tx_fields)
  have "plain_transfer sample_env sample_state sample_tx"
    using sample_addresses by (simp add: plain_transfer_def sample_state_account sample_tx_fields isContractCall_def sample_env_def)
  from classic_transfer_correct[OF v sample_state_account(4) this, of "block_info_of sample_env sample_block" 0]
  show ?thesis using sample_addresses by (auto simp: sample_state_account sample_tx_fields)
qed

theorem validateNextBlock_correct_witness:
  "validateNextBlock sample_env sample_state next_block = Inr True
   \<and> validateNextBlock sample_env sample_state (next_block\<lparr>nHeight := 3\<rparr>) \<noteq> Inr True"
proof -
  have l: "latest (cs_storage sample_state) = Inr sample_block"
    by (simp add: sample_state_def latest_def chain_back_def pushBack_def empty_storage_def)
  have "validateBlock sample_crypto (sample_rdpos\<lparr>rd_minValidators := 0\<rparr>) next_block = Inr True"
    by (subst validateBlock_eq) (simp_all add: sample_rdpos_def next_block_def sample_block_def block_consensus_def sample_facts)
  then show ?thesis
    using validateNextBlock_correct[OF l, of sample_env next_block] validateNextBlock_correct[OF l, of sample_env "next_block\<lparr>nHeight := 3\<rparr>"]
    by (simp add: sample_env_def sample_state_def next_block_def sample_block_def)
qed

theorem processNextBlock_correct_witness:
  "\<exists>s'. processNextBlock sample_env next_block sample_state = (Inr (), s')
     \<and> st_chain (cs_storage s') = [sample_block, next_block] \<and> cs_mempool s' = []
   \<and> (\<exists>e. processNextBlock sample_env (next_block\<lparr>nHeight := 3\<rparr>) sample_state = (Inl e, sample_state))"
proof -
  let ?r = "sample_rdpos\<lparr>rd_minValidators := 0\<rparr>"
  have l: "latest (cs_storage sample_state) = Inr sample_block" and ch: "st_chain (cs_storage sample_state) = [sample_block]"
    by (simp_all add: sample_state_def latest_def chain_back_def pushBack_def empty_storage_def)
  have vb: "validateBlock sample_crypto ?r next_block = Inr True"
    by (subst validateBlock_eq) (simp_all add: sample_rdpos_def next_block_def sample_block_def block_consensus_def sample_facts)
  have "hash_ok sample_crypto" by (rule sample_block_ok(1))
  then obtain seed rl where sh: "shuffle sample_crypto (blockRandomness next_block) (rd_validators ?r) = Inr (seed, rl)"
    using shuffle_loop_total[where c = sample_crypto and i = 0 and seed = "blockRandomness next_block" and v = "rd_validators ?r"] by (auto simp: shuffle_def next_block_def sample_block_def)
  have v: "validateNextBlock sample_env sample_state next_block = Inr True"
    unfolding validateNextBlock_def l using vb
    by (simp add: sample_env_def sample_state_def next_block_def sample_block_def)
  have pb: "processBlock sample_crypto next_block ?r = (Inr (blockRandomness next_block),
      ?r\<lparr>rd_mempool := [], rd_randomList := rl, rd_bestRandomSeed := blockRandomness next_block, rd_seed := seed\<rparr>)"
    using sh by (simp add: processBlock_def Let_def next_block_def sample_block_def)
  obtain st1 where push: "pushBack next_block (cs_storage sample_state) = (Inr (), st1)"
    by (simp add: pushBack_def sample_state_def empty_storage_def chain_back_def next_block_def sample_block_def)
  obtain s' where p: "processNextBlock sample_env next_block sample_state = (Inr (), s')" "cs_mempool s' = []"
  proof -
    have ts: "txs next_block = []" by (simp add: next_block_def)
    have pt: "process_txs sample_env bi 0 [] = ret_m ()" for bi by (rule ext) simp
    show ?thesis
      using that pb push unfolding processNextBlock_def v ts pt
      by (simp add: seq_m_def bind_m_def sample_env_def sample_state_def mod_host_def refreshMempool_def)
  qed
  have wf: "mempool_wf sample_state" by (simp add: mempool_wf_def sample_state_def)
  have "validateNextBlock sample_env sample_state (next_block\<lparr>nHeight := 3\<rparr>) \<noteq> Inr True"
    unfolding validateNextBlock_def l by (simp add: sample_block_def)
  then show ?thesis
    using p ch processNextBlock_correct[OF wf, of sample_env next_block]
      processNextBlock_correct[OF wf, of sample_env "next_block\<lparr>nHeight := 3\<rparr>"] by auto
qed

theorem classic_failed_call_creates_value_witness:
  "\<exists>s'. processTransaction sample_env (block_info_of sample_env sample_block) (sample_tx\<lparr>tb_to := replicate 20 5\<rparr>) 0 sample_state
       = (Inr (), s')
     \<and> getNativeBalance s' (replicate 20 7) = 80000 \<and> getNativeBalance s' (replicate 20 5) = 0"
proof -
  let ?tx = "sample_tx\<lparr>tb_to := replicate 20 5\<rparr>"
  have f: "tb_from ?tx = replicate 20 7" "tb_to ?tx = replicate 20 5" "tb_value ?tx = 1000"
    "tb_gasLimit ?tx = 21000" "tb_maxFeePerGas ?tx = 1" "tb_nonce ?tx = 3" by (simp_all add: sample_tx_fields)
  have v: "validateTransactionInternal sample_state ?tx = Inr NotInvalid"
    using validate_valid_iff[of sample_state ?tx] sample_state_account(3)
    by (simp add: sample_state_account sample_tx_fields)
  have "ne_call sample_env (txToCallInfo ?tx) (charged sample_state ?tx) (cs_contracts sample_state)
      = (Inl (DynamicException ''revert''), ())" by (simp add: sample_env_def)
  moreover have "isContractCall sample_env sample_state ?tx" by (simp add: isContractCall_def sample_env_def)
  moreover have "isPayable sample_env sample_state (txToCallInfo ?tx)"
    by (simp add: isPayable_def sample_env_def txToCallInfo_def sample_tx_fields)
  ultimately show ?thesis
    using classic_failed_call_creates_value[OF v sample_state_account(4), of sample_env "DynamicException ''revert''" "()"
        "block_info_of sample_env sample_block" 0] sample_addresses
    by (auto simp: sample_state_account f)
qed

end
