(* ===== verification/State_Evm.thy ===== *)
theory State_Evm
  imports Chain_State
begin

text \<open>
  EVM transactions and calls of the state (\<^verbatim>\<open>src/src/core/state.cpp\<close>): what a failing transaction
  leaves behind, and that \<^verbatim>\<open>ethCall\<close> and \<^verbatim>\<open>estimateGas\<close> only look. The definitions are those of
  \<open>Chain_State\<close>; this theory has the lemmas on running the machine over the host.
\<close>

section \<open>Lemmas: running the machine\<close>

text \<open>
  What EVMC documents of a machine: it changes the host only by calling the host interface.
\<close>

definition vm_ok :: "evm \<Rightarrow> bool" where
  "vm_ok vm \<longleftrightarrow> (\<forall>msg code h. host_call\<^sup>*\<^sup>* h (snd (vm msg code h)))"

definition same_accounts :: "evm_host \<Rightarrow> evm_host \<Rightarrow> bool" where
  "same_accounts h h' \<longleftrightarrow> balance_cell h' = balance_cell h \<and> nonce_cell h' = nonce_cell h
     \<and> accessedAccountsBalances h' = accessedAccountsBalances h"

definition code_tracked :: "evm_host \<Rightarrow> evm_host \<Rightarrow> bool" where
  "code_tracked h h' \<longleftrightarrow> set (accessedAccountsCode h) \<subseteq> set (accessedAccountsCode h')
     \<and> (\<forall>a. fst (code_cell h' a) = fst (code_cell h a))
     \<and> (\<forall>a. a \<notin> set (accessedAccountsCode h') \<longrightarrow> code_cell h' a = code_cell h a)"

lemma same_accounts_trans: "same_accounts h h' \<Longrightarrow> same_accounts h' h'' \<Longrightarrow> same_accounts h h''"
  by (simp add: same_accounts_def)

lemma code_tracked_trans: "code_tracked h h' \<Longrightarrow> code_tracked h' h'' \<Longrightarrow> code_tracked h h''"
  unfolding code_tracked_def by (metis subsetD subset_trans)

lemma set_storage_frame:
  "balance_cell (snd (set_storage a k v h)) = balance_cell h" "nonce_cell (snd (set_storage a k v h)) = nonce_cell h"
  "code_cell (snd (set_storage a k v h)) = code_cell h"
  "accessedAccountsBalances (snd (set_storage a k v h)) = accessedAccountsBalances h"
  "accessedAccountsCode (snd (set_storage a k v h)) = accessedAccountsCode h"
  by (simp_all add: set_storage_def Let_def put_slot_def upd_acc_frame split: prod.split)

lemma host_call_frame: "host_call h h' \<Longrightarrow> same_accounts h h' \<and> code_tracked h h'"
  by (induction rule: host_call.induct)
    (auto simp: same_accounts_def code_tracked_def set_storage_frame set_transient_storage_def upd_acc_frame
      emit_log_def selfdestruct_def)

lemma host_calls_frame: "host_call\<^sup>*\<^sup>* h h' \<Longrightarrow> same_accounts h h' \<and> code_tracked h h'"
proof (induction rule: rtranclp_induct)
  case base
  then show ?case by (simp add: same_accounts_def code_tracked_def)
next
  case (step y z)
  then show ?case using host_call_frame same_accounts_trans code_tracked_trans by blast
qed

lemma in_tx_calls_from: "host_call\<^sup>*\<^sup>* h' h'' \<Longrightarrow> in_tx h h' \<Longrightarrow> in_tx h h''"
  by (induction rule: rtranclp_induct) (auto intro: in_tx_step)

text \<open>Operations that the journal of the storage does not see.\<close>

definition journal_of :: "evm_host \<Rightarrow> (address \<times> bytes \<Rightarrow> bytes \<times> bytes) \<times> (address \<times> bytes) list
    \<times> (address \<Rightarrow> bytes \<Rightarrow> bytes option) \<times> address list" where
  "journal_of h = (storage_cell h, accessedStorages h, transient_of h, accessedTransients h)"

lemma in_tx_journal: "journal_of h'' = journal_of h' \<Longrightarrow> in_tx h h'' = in_tx h h'"
  by (simp add: journal_of_def in_tx_def)

lemma transient_of_upd: "(\<And>x. acc_transient (f x) = acc_transient x) \<Longrightarrow> transient_of (upd_acc a f h) = transient_of h"
  by (auto simp: transient_of_def acc_upd_acc fun_eq_iff)

lemma transient_fields [simp]:
  "transient_of (h\<lparr>accessedAccountsBalances := x1\<rparr>) = transient_of h"
  "transient_of (h\<lparr>accessedAccountsNonces := x2\<rparr>) = transient_of h"
  "transient_of (h\<lparr>accessedAccountsCode := x3\<rparr>) = transient_of h"
  "transient_of (h\<lparr>contractAddresses := x4\<rparr>) = transient_of h"
  "transient_of (h\<lparr>recentlyCreatedContracts := x5\<rparr>) = transient_of h"
  "transient_of (h\<lparr>currentTxHash := x6\<rparr>) = transient_of h"
  "transient_of (h\<lparr>currentTxContext := x7\<rparr>) = transient_of h"
  "transient_of (h\<lparr>shouldRevert := x8\<rparr>) = transient_of h"
  by (simp_all add: transient_of_def fun_eq_iff)

lemma journal_frame [simp]:
  "journal_of (setBalance a v h) = journal_of h"
  "journal_of (upd_acc a (\<lambda>x. x) h) = journal_of h"
  "journal_of (setTxContext ci n cb ts gl ch h) = journal_of h"
  "journal_of (h\<lparr>currentTxHash := x\<rparr>) = journal_of h"
  "journal_of (h\<lparr>shouldRevert := sr\<rparr>) = journal_of h"
  "journal_of (h\<lparr>randomGen := seed\<rparr>) = journal_of h"
  "journal_of (h\<lparr>accessedAccountsBalances := l\<rparr>) = journal_of h"
  "journal_of (tx_start tx h) = journal_of h"
  by (simp_all add: journal_of_def setBalance_def upd_acc_frame transient_of_upd setTxContext_def
    tx_start_def Let_def calls_transient)

lemma execute_frame:
  assumes "vm_ok vm" "execute c vm ci h = (r, h')" "in_tx h0 h"
  shows "same_accounts h h' \<and> code_tracked h h' \<and> in_tx h0 h'"
proof (cases "ci_to ci = zero_address")
  case True
  let ?h1 = "upd_acc (ci_from ci) (\<lambda>x. x) h"
  let ?ca = "deriveContractAddress c (snd (acc_nonce (acc ?h1 (ci_from ci)))) (ci_from ci)"
  have h1: "same_accounts h ?h1" "code_tracked h ?h1" "in_tx h0 ?h1"
    using assms(3) in_tx_journal[of ?h1 h h0] by (simp_all add: same_accounts_def code_tracked_def)
  show ?thesis
  proof (cases "ci_gasLimit ci \<ge> 2 ^ 64")
    case True
    then show ?thesis using assms(2) h1 \<open>ci_to ci = zero_address\<close>
      by (simp add: execute_def createContract_def Let_def)
  next
    case False
    define msg where "msg = \<lparr>m_create = True, m_gas = to_int64 (ci_gasLimit ci), m_recipient = ?ca,
      m_sender = ci_from ci, m_input = [], m_value = ci_value ci\<rparr>"
    obtain res h2 where run': "vm msg (ci_fullData ci) ?h1 = (res, h2)"
      by (cases "vm msg (ci_fullData ci) ?h1") simp
    have "host_call\<^sup>*\<^sup>* ?h1 h2" using assms(1) run' unfolding vm_ok_def by (metis snd_conv)
    then have h2: "same_accounts h h2" "code_tracked h h2" "in_tx h0 h2"
      using h1 host_calls_frame same_accounts_trans code_tracked_trans in_tx_calls_from by blast+
    show ?thesis
    proof (cases "res_status res = 0")
      case False
      then show ?thesis using assms(2) h2 run' \<open>ci_to ci = zero_address\<close> \<open>\<not> ci_gasLimit ci \<ge> 2 ^ 64\<close>
        by (simp add: execute_def createContract_def Let_def msg_def)
    next
      case True
      let ?h3 = "upd_acc ?ca (\<lambda>x. x\<lparr>acc_codeHash := (fst (acc_codeHash x), keccak c (res_output res)),
                    acc_code := (fst (acc_code x), res_output res)\<rparr>) h2"
      let ?h4 = "?h3\<lparr>recentlyCreatedContracts := recentlyCreatedContracts h2 @ [currentTxHash h2],
                    contractAddresses := (contractAddresses h2)(currentTxHash h2 \<mapsto> ?ca),
                    accessedAccountsCode := accessedAccountsCode h2 @ [?ca]\<rparr>"
      have h': "h' = ?h4"
        using assms(2) run' True \<open>ci_to ci = zero_address\<close> \<open>\<not> ci_gasLimit ci \<ge> 2 ^ 64\<close>
        by (simp add: execute_def createContract_def Let_def msg_def)
      have "same_accounts h2 ?h4" by (simp add: same_accounts_def upd_acc_frame)
      moreover have "code_tracked h2 ?h4"
        by (auto simp: code_tracked_def code_cell_def acc_upd_acc)
      moreover have "journal_of ?h4 = journal_of h2"
        by (simp add: journal_of_def upd_acc_frame transient_of_upd)
      ultimately show ?thesis
        unfolding h' using h2 same_accounts_trans code_tracked_trans in_tx_journal by blast
    qed
  qed
next
  case False
  let ?h1 = "upd_acc (ci_to ci) (\<lambda>x. x) h"
  have h1: "same_accounts h ?h1" "code_tracked h ?h1" "in_tx h0 ?h1"
    using assms(3) in_tx_journal[of ?h1 h h0] by (simp_all add: same_accounts_def code_tracked_def)
  have "h' = h \<or> host_call\<^sup>*\<^sup>* ?h1 h'"
    using assms(1,2) False by (auto simp: execute_def Let_def vm_ok_def split: if_splits prod.splits) (metis snd_conv)
  then show ?thesis
    using h1 assms(3) host_calls_frame same_accounts_trans code_tracked_trans in_tx_calls_from
    by (metis (no_types, lifting) code_tracked_def order_refl same_accounts_def)
qed

text \<open>The observable state of the accounts.\<close>

definition same_view :: "('c, 'd) chain_state \<Rightarrow> ('c, 'd) chain_state \<Rightarrow> bool" where
  "same_view s s' \<longleftrightarrow> (\<forall>a. getNativeNonce s' a = getNativeNonce s a)
     \<and> (\<forall>a k. get_storage (cs_host s') a k = get_storage (cs_host s) a k)
     \<and> (\<forall>a. snd (code_cell (cs_host s') a) = snd (code_cell (cs_host s) a))
     \<and> cs_mempool s' = cs_mempool s \<and> cs_rdpos s' = cs_rdpos s \<and> cs_storage s' = cs_storage s"

text \<open>Between transactions storage and code are settled and the lists are empty.\<close>

definition host_quiet :: "evm_host \<Rightarrow> bool" where
  "host_quiet h \<longleftrightarrow> host_settled h \<and> (\<forall>a. fst (code_cell h a) = snd (code_cell h a))
     \<and> accessedAccountsCode h = [] \<and> accessedAccountsBalances h = []"

lemma revertBalance_current:
  "snd (balance_cell (revertBalance h) a) =
    (if a \<in> set (accessedAccountsBalances h) then fst (balance_cell h a) else snd (balance_cell h a))"
  by (simp add: balance_log.revert_cell)

lemma settle_logs_balances [simp]:
  "accessedAccountsBalances (revert h) = accessedAccountsBalances h"
  "accessedAccountsBalances (revertCode h) = accessedAccountsBalances h"
  "accessedAccountsCode (revert h) = accessedAccountsCode h"
proof -
  have "accessedAccountsBalances (fold revert_slot ps g) = accessedAccountsBalances g"
    "accessedAccountsBalances (fold clear_transient qs g) = accessedAccountsBalances g"
    "accessedAccountsBalances (fold revert_code_of rs g) = accessedAccountsBalances g"
    "accessedAccountsCode (fold revert_slot ps g) = accessedAccountsCode g"
    "accessedAccountsCode (fold clear_transient qs g) = accessedAccountsCode g" for ps qs rs g
    by (rule fold_field; auto simp: revert_slot_def clear_transient_def revert_code_of_def split: prod.split)+
  then show "accessedAccountsBalances (revert h) = accessedAccountsBalances h"
    "accessedAccountsBalances (revertCode h) = accessedAccountsBalances h"
    "accessedAccountsCode (revert h) = accessedAccountsCode h"
    by (simp_all add: revert_def revertCode_def Let_def)
qed

text \<open>Reverting everything after a run from a quiet host.\<close>

lemma revert_all:
  assumes "host_quiet h0" "in_tx h0 h" "code_tracked h0 h"
  shows "storage_cell (revertCode (revert h)) = storage_cell h0" "code_cell (revertCode (revert h)) = code_cell h0"
    "host_settled (revert h)"
proof -
  show "storage_cell (revertCode (revert h)) = storage_cell h0" "host_settled (revert h)"
    using revert_settled[of h0 h] assms by (simp_all add: host_quiet_def)
  show "code_cell (revertCode (revert h)) = code_cell h0"
    using assms by (intro ext code_log.revert_restores) (auto simp: host_quiet_def code_tracked_def)
qed

lemma setBalance_fields [simp]:
  "accessedAccountsBalances (setBalance a v h) = accessedAccountsBalances h"
  "accessedAccountsCode (setBalance a v h) = accessedAccountsCode h"
  "accessedAccountsNonces (setBalance a v h) = accessedAccountsNonces h"
  by (simp_all add: setBalance_def)

text \<open>A value that can be moved: the sender has it, the sum fits, and no contract is created with it.\<close>

definition value_movable :: "('c, 'd) chain_state \<Rightarrow> call_info \<Rightarrow> bool" where
  "value_movable s ci \<longleftrightarrow> (ci_value ci \<noteq> 0 \<longrightarrow> ci_to ci \<noteq> zero_address
     \<and> ci_value ci \<le> getNativeBalance s (ci_from ci) \<and> getNativeBalance s (ci_to ci) + ci_value ci < 2 ^ 256)"

text \<open>The host once the value has been moved, and what a move does that does not succeed.\<close>

definition moved_host :: "call_info \<Rightarrow> evm_host \<Rightarrow> evm_host \<Rightarrow> bool" where
  "moved_host ci h0 h1 \<longleftrightarrow> nonce_cell h1 = nonce_cell h0 \<and> code_cell h1 = code_cell h0
     \<and> journal_of h1 = journal_of h0 \<and> accessedAccountsCode h1 = accessedAccountsCode h0
     \<and> (\<forall>a. fst (balance_cell h1 a) = fst (balance_cell h0 a))
     \<and> (\<forall>a. a \<notin> set (accessedAccountsBalances h1) \<longrightarrow> balance_cell h1 a = balance_cell h0 a)
     \<and> set (accessedAccountsBalances h1) = (if ci_value ci \<noteq> 0 then {ci_from ci, ci_to ci} else {})"

lemma same_view_setBalance:
  "same_view s (mod_host (setBalance a v) s)" "same_view s (mod_host (\<lambda>h. setBalance b w (setBalance a v h)) s)"
  by (simp_all add: same_view_def getNativeNonce_cell get_storage_cell)

lemma move_value_short:
  assumes "ci_to ci \<noteq> zero_address" "getNativeBalance s (ci_from ci) < ci_value ci"
  shows "move_value E ci s = (Inl BoostError,
    mod_host (setBalance (ci_from ci) (ne_sub_fault E (getNativeBalance s (ci_from ci)) (ci_value ci))) s)"
proof -
  have "balance_of s = getNativeBalance s" by (simp add: fun_eq_iff balance_of_cell getNativeBalance_cell)
  then have "sub_balance E (ci_from ci) (ci_value ci) s = (Inl BoostError,
      mod_host (setBalance (ci_from ci) (ne_sub_fault E (getNativeBalance s (ci_from ci)) (ci_value ci))) s)"
    using assms(2) by (simp add: sub_balance_def u_sub_def)
  then show ?thesis using assms by (simp add: move_value_def seq_m_Inl)
qed

lemma move_value_cases:
  assumes "host_quiet (cs_host s)"
  obtains (moved) h1 where "move_value E ci s = (Inr (), s\<lparr>cs_host := h1\<rparr>)" "moved_host ci (cs_host s) h1"
  | (failed) e s1 where "\<not> value_movable s ci" "move_value E ci s = (Inl e, s1)" "same_view s s1"
proof (cases "ci_value ci = 0 \<or> ci_to ci = zero_address")
  case True
  then show thesis
  proof (cases "ci_value ci = 0")
    case True
    then show thesis using assms by (intro moved[of "cs_host s"]) (simp_all add: move_value_def host_quiet_def moved_host_def)
  next
    case False
    then show thesis using True
      by (intro failed[of UndefinedBehaviour s]) (simp_all add: move_value_def value_movable_def same_view_def)
  qed
next
  case nz: False
  have bal: "balance_of s = getNativeBalance s" by (simp add: fun_eq_iff balance_of_cell getNativeBalance_cell)
  let ?b = "getNativeBalance s (ci_from ci)" and ?v = "ci_value ci"
  let ?s1 = "mod_host (setBalance (ci_from ci) (?b - ?v)) s"
  show thesis
  proof (cases "?v \<le> ?b")
    case False
    then show thesis
      using nz move_value_short[of ci s E] same_view_setBalance(1) by (intro failed) (simp_all add: value_movable_def)
  next
    case True
    have sub: "sub_balance E (ci_from ci) ?v s = (Inr (), ?s1)"
      using True sub_balance_ok[of ?v s "ci_from ci" E] by (simp add: bal)
    show thesis
    proof (cases "balance_of ?s1 (ci_to ci) + ?v < 2 ^ 256")
      case fits: True
      have "add_balance E (ci_to ci) ?v ?s1 = (Inr (), mod_host (setBalance (ci_to ci) (balance_of ?s1 (ci_to ci) + ?v)) ?s1)"
        by (rule add_balance_ok[OF fits])
      then have "\<exists>h1. move_value E ci s = (Inr (), s\<lparr>cs_host := h1\<rparr>) \<and> moved_host ci (cs_host s) h1"
        using nz assms sub
        by (simp add: move_value_def seq_m_Inr log_simps moved_host_def)
          (intro exI conjI, simp add: mod_host_def, auto simp: host_quiet_def)
      then show thesis using moved by blast
    next
      case False
      let ?f = "ne_add_fault E (balance_of ?s1 (ci_to ci)) ?v"
      have "add_balance E (ci_to ci) ?v ?s1 = (Inl BoostError, mod_host (setBalance (ci_to ci) ?f) ?s1)"
        using False by (simp add: add_balance_def u_add_def)
      then have m: "move_value E ci s = (Inl BoostError, mod_host (setBalance (ci_to ci) ?f) ?s1)"
        using nz sub by (simp add: move_value_def seq_m_Inr seq_m_Inl)
      have "balance_of ?s1 (ci_to ci) \<le> getNativeBalance s (ci_to ci)"
        by (simp add: balance_of_cell getNativeBalance_cell)
      then have "\<not> value_movable s ci" using nz False by (simp add: value_movable_def)
      then show thesis using m same_view_setBalance(2) by (intro failed) simp_all
    qed
  qed
qed

lemma dry_run_moved:
  assumes "vm_ok (ne_vm E)" "host_quiet (cs_host s)" "move_value E ci s = (Inr (), s\<lparr>cs_host := h1\<rparr>)" "moved_host ci (cs_host s) h1"
  shows "same_view s (snd (dry_run E l ci s))
    \<and> (\<forall>a. getNativeBalance (snd (dry_run E l ci s)) a =
         (if ci_value ci \<noteq> 0 \<and> a \<in> {ci_from ci, ci_to ci} then fst (balance_cell (cs_host s) a) else getNativeBalance s a))"
proof -
  let ?h0 = "cs_host s"
  note mv = assms(3)
  have h1: "nonce_cell h1 = nonce_cell ?h0"
    "code_cell h1 = code_cell ?h0" "journal_of h1 = journal_of ?h0" "accessedAccountsCode h1 = accessedAccountsCode ?h0"
    "\<forall>a. fst (balance_cell h1 a) = fst (balance_cell ?h0 a)"
    "\<forall>a. a \<notin> set (accessedAccountsBalances h1) \<longrightarrow> balance_cell h1 a = balance_cell ?h0 a"
    "set (accessedAccountsBalances h1) = (if ci_value ci \<noteq> 0 then {ci_from ci, ci_to ci} else {})"
    using assms(4) unfolding moved_host_def by blast+
  let ?h2 = "setTxContext (clip_gas ci) (nHeight l) (toAddress (ne_crypto E) (validatorPubKey l)) (timestamp l)
      100000000 (ne_chainId E) h1"
  obtain r h3 where ex: "execute (ne_crypto E) (ne_vm E) (clip_gas ci) ?h2 = (r, h3)" by fastforce
  have gas: "ci_gasLimit (clip_gas ci) < 2 ^ 63" by (simp add: clip_gas_def max_gas_def)
  then obtain res where r: "r = Inr res"
    using ex by (auto simp: execute_def createContract_def Let_def split: if_splits prod.splits)
  have "in_tx ?h0 ?h2" using h1(3) in_tx_journal[of ?h2 ?h0 ?h0] in_tx_refl by simp
  from execute_frame[OF assms(1) ex this] have f: "same_accounts ?h2 h3" "code_tracked ?h2 h3" "in_tx ?h0 h3" by auto
  moreover have "code_tracked ?h0 ?h2" using h1(2,4) by (simp add: code_tracked_def setTxContext_def)
  ultimately have ct: "code_tracked ?h0 h3" using code_tracked_trans by blast
  note rv = revert_all[OF assms(2) f(3) ct]
  let ?h4 = "revertBalance (revertCode (revert h3))"
  have run: "dry_run E l ci s = (Inr res, s\<lparr>cs_host := ?h4\<rparr>)"
    using mv ex r by (simp add: dry_run_def seq_m_Inr bind_m_def execute_m_def mod_host_def)
  have "same_view s (s\<lparr>cs_host := ?h4\<rparr>)"
    using rv f(1) h1(1) by (simp add: same_view_def getNativeNonce_cell get_storage_cell same_accounts_def)
  moreover have "snd (balance_cell ?h4 a) =
      (if ci_value ci \<noteq> 0 \<and> a \<in> {ci_from ci, ci_to ci} then fst (balance_cell ?h0 a) else snd (balance_cell ?h0 a))" for a
    using f(1) h1(5-7) by (auto simp: revertBalance_current same_accounts_def setTxContext_def)
  ultimately show ?thesis by (simp add: run getNativeBalance_cell)
qed

text \<open>Whether the value can be moved or not.\<close>

lemma dry_run_view:
  assumes "vm_ok (ne_vm E)" "host_quiet (cs_host s)"
  shows "same_view s (snd (dry_run E l ci s))"
proof (cases rule: move_value_cases[OF assms(2), of E ci, case_names moved failed])
  case (moved h1)
  then show ?thesis using dry_run_moved[OF assms] by blast
next
  case (failed e s1)
  then show ?thesis by (simp add: dry_run_def seq_m_Inl)
qed

lemma dry_run_balances:
  assumes "vm_ok (ne_vm E)" "host_quiet (cs_host s)" "value_movable s ci"
  shows "getNativeBalance (snd (dry_run E l ci s)) a =
    (if ci_value ci \<noteq> 0 \<and> a \<in> {ci_from ci, ci_to ci} then fst (balance_cell (cs_host s) a) else getNativeBalance s a)"
proof (cases rule: move_value_cases[OF assms(2), of E ci, case_names moved failed])
  case (moved h1)
  then show ?thesis using dry_run_moved[OF assms(1,2)] by blast
qed (use assms(3) in blast)

lemma dry_run_short:
  assumes "ci_to ci \<noteq> zero_address" "getNativeBalance s (ci_from ci) < ci_value ci"
  shows "dry_run E l ci s = (Inl BoostError,
    mod_host (setBalance (ci_from ci) (ne_sub_fault E (getNativeBalance s (ci_from ci)) (ci_value ci))) s)"
  using move_value_short[OF assms] by (simp add: dry_run_def seq_m_Inl)

lemma reseed_frame:
  "same_view s (snd (reseed l s))" "host_quiet (cs_host s) \<Longrightarrow> host_quiet (cs_host (snd (reseed l s)))"
  "getNativeBalance (snd (reseed l s)) a = getNativeBalance s a"
  "balance_cell (cs_host (snd (reseed l s))) = balance_cell (cs_host s)"
  by (simp_all add: reseed_def same_view_def host_quiet_def host_settled_def getNativeBalance_cell getNativeNonce_cell
      get_storage_cell calls_transient)

lemma reseed_lift:
  "same_view s (snd (seq_m (reseed l) (lift_m r) s))"
  "getNativeBalance (snd (seq_m (reseed l) (lift_m r) s)) a = getNativeBalance s a"
  using reseed_frame[where s = s and l = l] by (simp_all add: reseed_def)

lemma validateCall_fields [simp]:
  "cs_host (snd (validateCallContractWithTx E ci t)) = cs_host t"
  "cs_mempool (snd (validateCallContractWithTx E ci t)) = cs_mempool t"
  "cs_rdpos (snd (validateCallContractWithTx E ci t)) = cs_rdpos t"
  "cs_storage (snd (validateCallContractWithTx E ci t)) = cs_storage t"
  by (auto simp: validateCallContractWithTx_def split: sum.split prod.split cpp_error.split)

lemma ethCall_cases:
  obtains "snd (state_ethCall E ci s) = s"
  | l where "snd (state_ethCall E ci s) = snd (seq_m (reseed l) (lift_m (ne_view E ci (cs_contracts s))) s)"
  | l where "snd (state_ethCall E ci s) = snd (seq_m (reseed l) (bind_m (dry_run E l ci) (\<lambda>res.
        if res_status res \<noteq> 0 then throw_m (DynamicException ''Error when estimating gas'')
        else ret_m (res_output res))) s)"
proof (cases "latest (cs_storage s)")
  case (Inl e)
  then show thesis using that(1) by (simp add: state_ethCall_def with_latest_def)
next
  case (Inr l)
  consider "isContractAddress E s (ci_to ci)"
    | "\<not> isContractAddress E s (ci_to ci)" "isEvmContract (cs_host s) (ci_to ci) \<or> ci_to ci = zero_address"
    | "\<not> isContractAddress E s (ci_to ci)" "\<not> (isEvmContract (cs_host s) (ci_to ci) \<or> ci_to ci = zero_address)" by blast
  then show thesis
  proof cases
    case 1
    show thesis by (rule that(2)[of l]) (simp add: state_ethCall_def with_latest_def 1 Inr)
  next
    case 2
    then show thesis by (intro that(3)[of l]) (simp only: state_ethCall_def with_latest_def Inr sum.case if_False if_True)
  next
    case 3
    then show thesis by (intro that(1)) (simp add: state_ethCall_def)
  qed
qed

lemma same_view_trans: "same_view s s' \<Longrightarrow> same_view s' s'' \<Longrightarrow> same_view s s''"
  by (simp add: same_view_def)

text \<open>
  The part that runs the machine in \<^verbatim>\<open>ethCall\<close> and \<^verbatim>\<open>estimateGas\<close>, with any continuation that
  leaves the state alone.
\<close>

lemma dry_run_seq:
  assumes "\<And>res t. snd (k res t) = t"
  shows "snd (seq_m (reseed l) (bind_m (dry_run E l ci) k) s) = snd (dry_run E l ci (snd (reseed l s)))"
  using assms by (simp add: reseed_def bind_m_apply split: sum.split)

lemma reseed_movable: "value_movable (snd (reseed l s)) ci = value_movable s ci"
  by (simp add: value_movable_def reseed_frame)

lemma dry_run_reseed:
  assumes "vm_ok (ne_vm E)" "host_quiet (cs_host s)" "\<And>res t. snd (k res t) = t"
  shows "same_view s (snd (seq_m (reseed l) (bind_m (dry_run E l ci) k) s))"
    "value_movable s ci \<Longrightarrow> getNativeBalance (snd (seq_m (reseed l) (bind_m (dry_run E l ci) k) s)) a =
       (if ci_value ci \<noteq> 0 \<and> a \<in> {ci_from ci, ci_to ci} then fst (balance_cell (cs_host s) a) else getNativeBalance s a)"
  using dry_run_view[OF assms(1), of "snd (reseed l s)" l ci] dry_run_balances[OF assms(1), of "snd (reseed l s)" ci l a]
    assms(2) same_view_trans[OF reseed_frame(1)] reseed_frame(2)[OF assms(2)]
  by (simp_all add: dry_run_seq[of k, OF assms(3)] reseed_movable reseed_frame(3,4))

text \<open>
  Claim C9. The two calls that only look, \<^verbatim>\<open>ethCall\<close> and \<^verbatim>\<open>estimateGas\<close>, leave nonces, storage, code, mempool,
  consensus and chain as they are, whether they return or throw and whatever value the call
  names, from a state with nothing pending and for a machine that works through the host
  interface. When the value can be moved, the balances are also as they were, except that the two
  parties of a call with a value to an EVM contract get back their committed balance: that is the
  balance they had exactly when it was committed. When the sender does not have the value,
  \<^verbatim>\<open>ethCall\<close> to an EVM contract throws and leaves in the sender's account whatever the failed
  subtraction left there.
\<close>
theorem calls_only_look:
  assumes "vm_ok (ne_vm E)" "host_quiet (cs_host s)"
  shows "same_view s (snd (state_ethCall E ci s)) \<and> same_view s (snd (estimateGas E ci s))
    \<and> (value_movable s ci \<longrightarrow>
        (\<forall>a. (\<forall>b\<in>{ci_from ci, ci_to ci}. fst (balance_cell (cs_host s) b) = snd (balance_cell (cs_host s) b)) \<longrightarrow>
           getNativeBalance (snd (state_ethCall E ci s)) a = getNativeBalance s a
           \<and> getNativeBalance (snd (estimateGas E ci s)) a = getNativeBalance s a)
        \<and> (ci_value ci \<noteq> 0 \<and> isEvmContract (cs_host s) (ci_to ci) \<and> \<not> isContractAddress E s (ci_to ci)
             \<and> st_chain (cs_storage s) \<noteq> [] \<longrightarrow>
             getNativeBalance (snd (state_ethCall E ci s)) (ci_to ci) = fst (balance_cell (cs_host s) (ci_to ci))))
    \<and> (getNativeBalance s (ci_from ci) < ci_value ci \<and> isEvmContract (cs_host s) (ci_to ci)
         \<and> \<not> isContractAddress E s (ci_to ci) \<and> ci_to ci \<noteq> zero_address \<and> st_chain (cs_storage s) \<noteq> [] \<longrightarrow>
         (\<exists>e. fst (state_ethCall E ci s) = Inl e)
         \<and> getNativeBalance (snd (state_ethCall E ci s)) (ci_from ci)
             = ne_sub_fault E (getNativeBalance s (ci_from ci)) (ci_value ci))"
proof -
  note dry = dry_run_reseed[OF assms]
  let ?bal = "\<lambda>s' a. getNativeBalance s' a = getNativeBalance s a \<or>
    (a \<in> {ci_from ci, ci_to ci} \<and> getNativeBalance s' a = fst (balance_cell (cs_host s) a))"
  have same: "same_view s s" by (simp add: same_view_def)
  let ?k = "\<lambda>res. if res_status res \<noteq> 0 then throw_m (DynamicException ''Error when estimating gas'') else ret_m (res_output res)"
  have k: "snd (?k res t) = t" for res t by simp
  have eth: "same_view s (snd (state_ethCall E ci s)) \<and> (value_movable s ci \<longrightarrow> ?bal (snd (state_ethCall E ci s)) a)" for a
  proof (cases rule: ethCall_cases[of E ci s])
    case 1
    then show ?thesis using same by simp
  next
    case (2 l)
    then show ?thesis using reseed_lift by metis
  next
    case (3 l)
    then show ?thesis using dry(1)[where k = ?k, OF k, of l ci] dry(2)[where k = ?k, OF k, of ci l a] by auto
  qed
  have call: "state_ethCall E ci s = seq_m (reseed (last (st_chain (cs_storage s)))) (bind_m (dry_run E (last (st_chain (cs_storage s))) ci) ?k) s"
    if "isEvmContract (cs_host s) (ci_to ci)" "\<not> isContractAddress E s (ci_to ci)" "st_chain (cs_storage s) \<noteq> []"
    using that by (simp add: state_ethCall_def with_latest_def latest_def chain_back_def)
  have stale: "getNativeBalance (snd (state_ethCall E ci s)) (ci_to ci) = fst (balance_cell (cs_host s) (ci_to ci))"
    if "value_movable s ci" "ci_value ci \<noteq> 0" "isEvmContract (cs_host s) (ci_to ci)" "\<not> isContractAddress E s (ci_to ci)"
      "st_chain (cs_storage s) \<noteq> []"
    using dry(2)[where k = ?k, OF k that(1)] that(2) call[OF that(3-5)] by simp
  have short: "(\<exists>e. fst (state_ethCall E ci s) = Inl e) \<and> getNativeBalance (snd (state_ethCall E ci s)) (ci_from ci)
      = ne_sub_fault E (getNativeBalance s (ci_from ci)) (ci_value ci)"
    if "getNativeBalance s (ci_from ci) < ci_value ci" "isEvmContract (cs_host s) (ci_to ci)"
      "\<not> isContractAddress E s (ci_to ci)" "ci_to ci \<noteq> zero_address" "st_chain (cs_storage s) \<noteq> []"
  proof -
    let ?l = "last (st_chain (cs_storage s))"
    let ?s = "snd (reseed ?l s)"
    have "getNativeBalance ?s (ci_from ci) < ci_value ci" using that(1) by (simp add: reseed_frame(3))
    note d = dry_run_short[OF that(4) this, of E ?l]
    have "state_ethCall E ci s = bind_m (dry_run E ?l ci) ?k ?s" unfolding call[OF that(2,3,5)] by (simp add: reseed_def)
    also have "\<dots> = (Inl BoostError, snd (dry_run E ?l ci ?s))" by (simp add: bind_m_apply d)
    finally show ?thesis by (simp add: d getNativeBalance_cell reseed_frame(4))
  qed
  let ?g = "\<lambda>res. if res_gas_left res < 0 then throw_m (DynamicException ''gasLimit is lower than gas left'')
      else if res_status res \<noteq> 0 then throw_m (DynamicException ''Error when estimating gas'')
      else bind_m (lift_m (u_sub (ci_gasLimit (clip_gas ci)) (nat (res_gas_left res)))) (\<lambda>gasUsed. lift_m (u_add 256 gasUsed 21000))"
  have g: "snd (?g res t) = t" for res t by (simp add: bind_m_apply split: sum.split)
  have est: "same_view s (snd (estimateGas E ci s)) \<and> (value_movable s ci \<longrightarrow> ?bal (snd (estimateGas E ci s)) a)" for a
  proof -
    let ?first = "when_m (isContractAddress E s (ci_to ci))
            (with_latest (\<lambda>l. seq_m (reseed l) (bind_m (validateCallContractWithTx E ci) (\<lambda>_. ret_m ()))))"
    let ?second = "\<lambda>s. if isEvmContract (cs_host s) (ci_to ci) \<or> ci_to ci = zero_address
            then with_latest (\<lambda>l. seq_m (reseed l) (bind_m (dry_run E l ci) ?g)) s else (Inr 21000, s)"
    obtain r s1 where s1: "?first s = (r, s1)" by fastforce
    have f1: "same_view s s1" "host_quiet (cs_host s1)" "balance_cell (cs_host s1) = balance_cell (cs_host s)"
    proof -
      have "cs_host s1 = cs_host s \<or> (\<exists>l. cs_host s1 = cs_host (snd (reseed l s)))"
        "cs_mempool s1 = cs_mempool s" "cs_rdpos s1 = cs_rdpos s" "cs_storage s1 = cs_storage s"
        using s1 by (auto simp: when_m_def with_latest_def reseed_def bind_m_apply split: if_splits sum.splits)
      then show "same_view s s1" "host_quiet (cs_host s1)" "balance_cell (cs_host s1) = balance_cell (cs_host s)"
        using reseed_frame[where s = s] assms(2) by (auto simp: same_view_def getNativeNonce_def)
    qed
    then have b1: "getNativeBalance s1 a = getNativeBalance s a" for a by (simp add: getNativeBalance_cell)
    then have mv: "value_movable s1 ci = value_movable s ci" by (simp add: value_movable_def)
    have two: "same_view s1 (snd (?second s1)) \<and> (value_movable s ci \<longrightarrow> getNativeBalance (snd (?second s1)) a = getNativeBalance s1 a \<or>
        (a \<in> {ci_from ci, ci_to ci} \<and> getNativeBalance (snd (?second s1)) a = fst (balance_cell (cs_host s1) a)))"
      using dry_run_reseed(1)[where k = ?g and s = s1 and ci = ci, OF assms(1) f1(2) g]
        dry_run_reseed(2)[where k = ?g and s = s1 and ci = ci and a = a, OF assms(1) f1(2) g]
      by (auto simp: with_latest_def b1 mv same_view_def split: sum.split)
    have "estimateGas E ci s = (case can_pay s ci of Inl e \<Rightarrow> (Inl e, s) | Inr False \<Rightarrow> (Inr 0, s)
        | Inr True \<Rightarrow> seq_m ?first ?second s)"
      by (simp add: estimateGas_def)
    moreover have "snd (seq_m ?first ?second s) = s1 \<or> snd (seq_m ?first ?second s) = snd (?second s1)"
      using s1 by (cases r) (simp_all add: seq_m_def bind_m_def)
    ultimately have "snd (estimateGas E ci s) \<in> {s, s1, snd (?second s1)}"
      by (auto split: sum.split bool.split)
    then show ?thesis
      using two f1 b1 same same_view_trans[OF f1(1)] by auto
  qed
  have settled: "getNativeBalance s' a = getNativeBalance s a"
    if "\<forall>b\<in>{ci_from ci, ci_to ci}. fst (balance_cell (cs_host s) b) = snd (balance_cell (cs_host s) b)" "?bal s' a" for s' a
    using that by (auto simp: getNativeBalance_cell)
  show ?thesis
  proof (intro conjI impI allI)
    show "same_view s (snd (state_ethCall E ci s))" "same_view s (snd (estimateGas E ci s))" using eth est by blast+
  next
    fix a assume "value_movable s ci"
      "\<forall>b\<in>{ci_from ci, ci_to ci}. fst (balance_cell (cs_host s) b) = snd (balance_cell (cs_host s) b)"
    then show "getNativeBalance (snd (state_ethCall E ci s)) a = getNativeBalance s a"
      "getNativeBalance (snd (estimateGas E ci s)) a = getNativeBalance s a"
      using settled eth[of a] est[of a] by blast+
  qed (use stale short in blast)+
qed

section \<open>Lemmas: a failing EVM transaction\<close>

definition real_to :: "'c node_env \<Rightarrow> txblock \<Rightarrow> address" where
  "real_to E tx = (if tb_to tx = zero_address
     then deriveContractAddress (ne_crypto E) (tb_nonce tx) (tb_from tx) else tb_to tx)"

text \<open>The host when the value has been moved, and when the machine starts.\<close>

definition evm_moved :: "'c node_env \<Rightarrow> txblock \<Rightarrow> evm_host \<Rightarrow> evm_host" where
  "evm_moved E tx h =
     (let logb = (\<lambda>a h. h\<lparr>accessedAccountsBalances := accessedAccountsBalances h @ [a]\<rparr>);
          bal = (\<lambda>h a. snd (balance_cell h a));
          h = logb (tb_from tx) (tx_start tx h) in
      if tb_value tx = 0 then h
      else
        let h = setBalance (real_to E tx) (bal h (real_to E tx) + tb_value tx) h;
            h = setBalance (tb_from tx) (bal h (tb_from tx) - tb_value tx) h
        in logb (tb_to tx) h)"

definition evm_entry :: "'c node_env \<Rightarrow> block_info \<Rightarrow> txblock \<Rightarrow> evm_host \<Rightarrow> evm_host" where
  "evm_entry E bi tx h = (setTxContext (txToCallInfo tx) (bi_height bi) (bi_coinbase bi) (bi_timestamp bi)
     (bi_gasLimit bi) (ne_chainId E) (evm_moved E tx h))\<lparr>currentTxHash := tb_hash tx\<rparr>"

lemma evm_moved_balance:
  "snd (balance_cell (evm_moved E tx h) a) = snd (balance_cell h a)
     + (if a = real_to E tx then tb_value tx else 0) - (if a = tb_from tx then tb_value tx else 0)"
  by (simp add: evm_moved_def Let_def)

lemma evm_moved_frame [simp]:
  "nonce_cell (evm_moved E tx h) = nonce_cell h" "code_cell (evm_moved E tx h) = code_cell h"
  "journal_of (evm_moved E tx h) = journal_of h"
  "accessedAccountsCode (evm_moved E tx h) = accessedAccountsCode h"
  by (simp_all add: evm_moved_def Let_def) (simp add: tx_start_def Let_def)

lemma evm_entry_frame [simp]:
  "balance_cell (evm_entry E bi tx h) = balance_cell (evm_moved E tx h)"
  "nonce_cell (evm_entry E bi tx h) = nonce_cell h" "code_cell (evm_entry E bi tx h) = code_cell h"
  "journal_of (evm_entry E bi tx h) = journal_of h"
  "accessedAccountsCode (evm_entry E bi tx h) = accessedAccountsCode h"
  by (simp_all add: evm_entry_def) (simp add: setTxContext_def)

lemma mod_host_const: "mod_host f s = s\<lparr>cs_host := f (cs_host s)\<rparr>"
  by (simp add: mod_host_def)

lemma evm_transaction_moved:
  assumes "tb_value tx \<le> balance_of s (tb_from tx)" "balance_of s (real_to E tx) + tb_value tx < 2 ^ 256"
  shows "evm_transaction E bi tx i (mod_host (tx_start tx) s) =
    try_catch (evm_try E bi tx i) (evm_catch E tx (real_to E tx)) (s\<lparr>cs_host := evm_moved E tx (cs_host s)\<rparr>)"
proof (cases "tb_value tx = 0")
  case True
  then show ?thesis
    by (simp add: evm_transaction_def real_to_def Let_def seq_m_Inr log_simps evm_moved_def mod_host_def)
next
  case False
  let ?h1 = "(tx_start tx (cs_host s))\<lparr>accessedAccountsBalances := accessedAccountsBalances (tx_start tx (cs_host s)) @ [tb_from tx]\<rparr>"
  let ?h2 = "setBalance (real_to E tx) (snd (balance_cell ?h1 (real_to E tx)) + tb_value tx) ?h1"
  let ?h3 = "setBalance (tb_from tx) (snd (balance_cell ?h2 (tb_from tx)) - tb_value tx) ?h2"
  have add: "add_balance E (real_to E tx) (tb_value tx) (s\<lparr>cs_host := ?h1\<rparr>) = (Inr (), s\<lparr>cs_host := ?h2\<rparr>)"
    using assms(2) add_balance_ok[of "s\<lparr>cs_host := ?h1\<rparr>" "real_to E tx" "tb_value tx" E]
    by (simp add: balance_of_cell mod_host_const)
  have sub: "sub_balance E (tb_from tx) (tb_value tx) (s\<lparr>cs_host := ?h2\<rparr>) = (Inr (), s\<lparr>cs_host := ?h3\<rparr>)"
    using assms(1) sub_balance_ok[of "tb_value tx" "s\<lparr>cs_host := ?h2\<rparr>" "tb_from tx" E]
    by (simp add: balance_of_cell mod_host_const)
  have m: "evm_moved E tx (cs_host s) = ?h3\<lparr>accessedAccountsBalances := accessedAccountsBalances ?h3 @ [tb_to tx]\<rparr>"
    using False by (simp add: evm_moved_def Let_def)
  have "seq_m (add_balance E (real_to E tx) (tb_value tx)) (seq_m (sub_balance E (tb_from tx) (tb_value tx))
      (log_balance (tb_to tx))) (s\<lparr>cs_host := ?h1\<rparr>) = (Inr (), s\<lparr>cs_host := evm_moved E tx (cs_host s)\<rparr>)"
  proof -
    have l: "log_balance (tb_to tx) (s\<lparr>cs_host := ?h3\<rparr>) = (Inr (), s\<lparr>cs_host := evm_moved E tx (cs_host s)\<rparr>)"
      unfolding m by (simp add: log_simps mod_host_const)
    have "seq_m (sub_balance E (tb_from tx) (tb_value tx)) (log_balance (tb_to tx)) (s\<lparr>cs_host := ?h2\<rparr>)
        = (Inr (), s\<lparr>cs_host := evm_moved E tx (cs_host s)\<rparr>)"
      by (subst seq_m_Inr[where m = "sub_balance E (tb_from tx) (tb_value tx)" and s = "s\<lparr>cs_host := ?h2\<rparr>", OF sub]) (rule l)
    then show ?thesis
      by (subst seq_m_Inr[where m = "add_balance E (real_to E tx) (tb_value tx)" and s = "s\<lparr>cs_host := ?h1\<rparr>", OF add])
  qed
  then have w: "when_m (tb_value tx \<noteq> 0) (seq_m (add_balance E (real_to E tx) (tb_value tx)) (seq_m (sub_balance E (tb_from tx) (tb_value tx))
      (log_balance (tb_to tx)))) (s\<lparr>cs_host := ?h1\<rparr>) = (Inr (), s\<lparr>cs_host := evm_moved E tx (cs_host s)\<rparr>)"
    using False by simp
  have l: "log_balance (tb_from tx) (mod_host (tx_start tx) s) = (Inr (), s\<lparr>cs_host := ?h1\<rparr>)"
    by (simp add: log_simps mod_host_const)
  show ?thesis
    unfolding evm_transaction_def Let_def real_to_def[symmetric] seq_m_def[of "log_balance (tb_from tx)"]
      seq_m_def[of "when_m (tb_value tx \<noteq> 0) _"] bind_m_def l prod.case sum.case w by simp
qed

lemma fee_bound: "v + g * f \<le> b \<Longrightarrow> u \<le> g \<Longrightarrow> v + u * f \<le> (b :: nat)"
  using mult_le_mono1[of u g f] by linarith

lemma evm_try_fails:
  assumes "execute (ne_crypto E) (ne_vm E) (txToCallInfo tx) (evm_entry E bi tx h) = (Inr res, h2)"
    and "res_status res \<noteq> 0 \<or> shouldRevert h2" "0 \<le> res_gas_left res" "nat (res_gas_left res) \<le> tb_gasLimit tx"
    and "(tb_gasLimit tx - nat (res_gas_left res)) * tb_maxFeePerGas tx \<le> snd (balance_cell h2 (tb_from tx))"
    and "snd (balance_cell h2 (tb_from tx)) < 2 ^ 256"
  shows "\<exists>e. e \<noteq> UndefinedBehaviour \<and> evm_try E bi tx i (s\<lparr>cs_host := evm_moved E tx h\<rparr>) =
    (Inl e, s\<lparr>cs_host := setBalance (tb_from tx) (snd (balance_cell h2 (tb_from tx))
       - (tb_gasLimit tx - nat (res_gas_left res)) * tb_maxFeePerGas tx) h2\<rparr>)"
proof -
  let ?fee = "(tb_gasLimit tx - nat (res_gas_left res)) * tb_maxFeePerGas tx"
  have "?fee < 2 ^ 256" using assms(5,6) by (rule le_less_trans)
  then have g: "u_sub (tb_gasLimit tx) (nat (res_gas_left res)) = Inr (tb_gasLimit tx - nat (res_gas_left res))"
    "u_mul 256 (tb_gasLimit tx - nat (res_gas_left res)) (tb_maxFeePerGas tx) = Inr ?fee"
    using assms(4) by (simp_all add: u_sub_def u_mul_def)
  have sub: "sub_balance E (tb_from tx) ?fee (s\<lparr>cs_host := h2\<rparr>) = (Inr (), s\<lparr>cs_host :=
      setBalance (tb_from tx) (snd (balance_cell h2 (tb_from tx)) - ?fee) h2\<rparr>)"
    using assms(5) sub_balance_ok[of ?fee "s\<lparr>cs_host := h2\<rparr>" "tb_from tx" E]
    by (simp add: balance_of_cell mod_host_const)
  have start: "mod_host (\<lambda>h. (setTxContext (txToCallInfo tx) (bi_height bi) (bi_coinbase bi) (bi_timestamp bi)
      (bi_gasLimit bi) (ne_chainId E) h)\<lparr>currentTxHash := tb_hash tx\<rparr>) (s\<lparr>cs_host := evm_moved E tx h\<rparr>)
      = s\<lparr>cs_host := evm_entry E bi tx h\<rparr>"
    by (simp add: mod_host_const evm_entry_def)
  have sr: "shouldRevert (setBalance a v h2) = shouldRevert h2" for a v by (simp add: setBalance_def)
  show ?thesis
    using assms(1-3) by (intro exI[of _ "DynamicException ''Error when executing EVM contract''"])
      (simp add: evm_try_def start bind_m_def execute_m_def g seq_m_Inr sub sr)
qed

lemma evm_catch_returns:
  assumes "snd (balance_cell h (tb_from tx)) + tb_value tx < 2 ^ 256"
    and "tb_value tx \<le> snd (balance_cell h rt) + (if rt = tb_from tx then tb_value tx else 0)"
  shows "\<exists>h'. evm_catch E tx rt (s\<lparr>cs_host := h\<rparr>) = (Inr (), s\<lparr>cs_host := revertCode (revert h')\<rparr>)
    \<and> (\<forall>a. snd (balance_cell h' a) = snd (balance_cell h a) + (if a = tb_from tx then tb_value tx else 0)
         - (if a = rt then tb_value tx else 0))
    \<and> nonce_cell h' = nonce_cell h \<and> code_cell h' = code_cell h \<and> journal_of h' = journal_of h
    \<and> accessedAccountsCode h' = accessedAccountsCode h"
proof -
  let ?s0 = "s\<lparr>cs_host := h\<lparr>shouldRevert := False\<rparr>\<rparr>"
  let ?h1 = "setBalance (tb_from tx) (snd (balance_cell h (tb_from tx)) + tb_value tx) (h\<lparr>shouldRevert := False\<rparr>)"
  have add: "add_balance E (tb_from tx) (tb_value tx) ?s0 = (Inr (), s\<lparr>cs_host := ?h1\<rparr>)"
    using assms(1) add_balance_ok[of ?s0 "tb_from tx" "tb_value tx" E] by (simp add: balance_of_cell mod_host_const)
  let ?h2 = "setBalance rt (snd (balance_cell ?h1 rt) - tb_value tx) ?h1"
  have sub: "sub_balance E rt (tb_value tx) (s\<lparr>cs_host := ?h1\<rparr>) = (Inr (), s\<lparr>cs_host := ?h2\<rparr>)"
    using assms(2) sub_balance_ok[of "tb_value tx" "s\<lparr>cs_host := ?h1\<rparr>" rt E]
    by (auto simp: balance_of_cell mod_host_const)
  have "evm_catch E tx rt (s\<lparr>cs_host := h\<rparr>) = (Inr (), s\<lparr>cs_host := revertCode (revert ?h2)\<rparr>)"
    by (simp add: evm_catch_def mod_host_const seq_m_Inr add sub)
  then show ?thesis by (intro exI[of _ ?h2]) simp
qed

section \<open>Properties: EVM transactions\<close>

text \<open>
  Claim C3. A failing EVM transaction costs its gas and nothing else. When the machine reports a failure
  or the host asks for a revert, processing the transaction still returns; the sender has
  paid for the gas used and its nonce has gone up by one, and every other balance and nonce,
  all storage and all code are as before, also when the transaction was to create a contract.
\<close>
theorem evm_failed_transaction_reverts:
  assumes "vm_ok (ne_vm E)" "host_quiet (cs_host s)" "accounts (cs_host s) (tb_from tx) \<noteq> None"
    and "isEvmContract (cs_host s) (tb_to tx) \<or> tb_to tx = zero_address"
    and "tb_value tx + tb_gasLimit tx * tb_maxFeePerGas tx \<le> getNativeBalance s (tb_from tx)"
    and "getNativeBalance s (tb_from tx) < 2 ^ 256" "getNativeBalance s (real_to E tx) + tb_value tx < 2 ^ 256"
    and "execute (ne_crypto E) (ne_vm E) (txToCallInfo tx) (evm_entry E bi tx (cs_host s)) = (Inr res, h2)"
    and "res_status res \<noteq> 0 \<or> shouldRevert h2" "0 \<le> res_gas_left res" "nat (res_gas_left res) \<le> tb_gasLimit tx"
  shows "\<exists>s'. processTransaction E bi tx i s = (Inr (), s')
    \<and> (\<forall>a. getNativeBalance s' a = getNativeBalance s a - (if a = tb_from tx
          then (tb_gasLimit tx - nat (res_gas_left res)) * tb_maxFeePerGas tx else 0))
    \<and> (\<forall>a. getNativeNonce s' a =
         (if a = tb_from tx then (getNativeNonce s a + 1) mod 2 ^ 64 else getNativeNonce s a))
    \<and> (\<forall>a k. get_storage (cs_host s') a k = get_storage (cs_host s) a k)
    \<and> code_cell (cs_host s') = code_cell (cs_host s) \<and> cs_contracts s' = cs_contracts s"
proof -
  let ?h = "cs_host s" and ?rt = "real_to E tx" and ?v = "tb_value tx"
    and ?fee = "(tb_gasLimit tx - nat (res_gas_left res)) * tb_maxFeePerGas tx"
  let ?b = "\<lambda>a. getNativeBalance s a"
  have fee: "?v + ?fee \<le> ?b (tb_from tx)" using fee_bound[OF assms(5), of "tb_gasLimit tx - nat (res_gas_left res)"] by simp
  have "in_tx ?h (evm_entry E bi tx ?h)" using in_tx_journal[of "evm_entry E bi tx ?h" ?h ?h] in_tx_refl by simp
  from execute_frame[OF assms(1,8) this]
  have f: "same_accounts (evm_entry E bi tx ?h) h2" "code_tracked (evm_entry E bi tx ?h) h2" "in_tx ?h h2" by auto
  then have bal: "snd (balance_cell h2 a) = ?b a + (if a = ?rt then ?v else 0) - (if a = tb_from tx then ?v else 0)" for a
    by (simp add: same_accounts_def evm_moved_balance getNativeBalance_cell)
  let ?h3 = "setBalance (tb_from tx) (snd (balance_cell h2 (tb_from tx)) - ?fee) h2"
  have lim: "?fee \<le> snd (balance_cell h2 (tb_from tx))" "snd (balance_cell h2 (tb_from tx)) < 2 ^ 256"
    using fee assms(6,7) by (auto simp: bal)
  obtain e where tr: "e \<noteq> UndefinedBehaviour"
    "evm_try E bi tx i (s\<lparr>cs_host := evm_moved E tx ?h\<rparr>) = (Inl e, s\<lparr>cs_host := ?h3\<rparr>)"
    using evm_try_fails[OF assms(8-11) lim] by blast
  have c1: "snd (balance_cell ?h3 (tb_from tx)) + ?v < 2 ^ 256"
    using fee assms(6,7) by (auto simp: bal)
  have c2: "?v \<le> snd (balance_cell ?h3 ?rt) + (if ?rt = tb_from tx then ?v else 0)" by (simp add: bal)
  obtain h4 where ca: "evm_catch E tx ?rt (s\<lparr>cs_host := ?h3\<rparr>) = (Inr (), s\<lparr>cs_host := revertCode (revert h4)\<rparr>)"
    and h4: "\<forall>a. snd (balance_cell h4 a) = snd (balance_cell ?h3 a) + (if a = tb_from tx then ?v else 0) - (if a = ?rt then ?v else 0)"
    "nonce_cell h4 = nonce_cell ?h3" "code_cell h4 = code_cell ?h3" "journal_of h4 = journal_of ?h3"
    "accessedAccountsCode h4 = accessedAccountsCode ?h3"
    using evm_catch_returns[OF c1 c2] by blast
  have "evm_transaction E bi tx i (mod_host (tx_start tx) s) = (Inr (), s\<lparr>cs_host := revertCode (revert h4)\<rparr>)"
    using evm_transaction_moved[of tx s E bi i] assms(5,7) ca
      try_catch_Inl[where body = "evm_try E bi tx i", OF tr(2,1)]
    by (simp add: balance_of_cell getNativeBalance_cell)
  from seq_m_Inr[where m = "evm_transaction E bi tx i" and k = "mod_m (mod_host (tx_finish tx))", OF this]
  have p: "processTransaction E bi tx i s = (Inr (), s\<lparr>cs_host := tx_finish tx (revertCode (revert h4))\<rparr>)"
    using assms(3,4) by (simp add: processTransaction_eq Let_def mod_host_const)
  have i4: "in_tx ?h h4" using f(3) h4(4) in_tx_journal[of h4 h2 ?h] by simp
  have "code_tracked ?h h4"
    using f(2) h4(3,5) by (simp add: code_tracked_def)
  note rv = revert_all[OF assms(2) i4 this]
  have "snd (balance_cell h4 a) = ?b a - (if a = tb_from tx then ?fee else 0)" for a
    using h4(1) fee by (auto simp: bal)
  then show ?thesis
    using p rv h4(2) f(1)
    by (intro exI[of _ "s\<lparr>cs_host := tx_finish tx (revertCode (revert h4))\<rparr>"])
      (simp add: getNativeBalance_cell getNativeNonce_cell get_storage_cell same_accounts_def)
qed


section \<open>Witnesses\<close>

definition evm_state :: "(unit, table) chain_state" where
  "evm_state = sample_state\<lparr>cs_host := sample_host\<lparr>accounts := [replicate 20 7 \<mapsto>
       empty_account\<lparr>acc_nonce := (3, 3), acc_balance := (100000, 100000)\<rparr>,
       replicate 20 9 \<mapsto> empty_account\<lparr>acc_code := ([0], [0])\<rparr>]\<rparr>\<rparr>"

lemma evm_state_facts:
  "getNativeBalance evm_state a = (if a = replicate 20 7 then 100000 else 0)"
  "accounts (cs_host evm_state) (replicate 20 7) \<noteq> None" "isEvmContract (cs_host evm_state) (replicate 20 9)"
  "fst (balance_cell (cs_host evm_state) a) = snd (balance_cell (cs_host evm_state) a)"
  using sample_addresses
  by (auto simp: evm_state_def getNativeBalance_def isEvmContract_def empty_account_def balance_cell_def acc_def sample_host_def)

lemma evm_state_quiet: "host_quiet (cs_host evm_state)"
  by (simp add: host_quiet_def evm_state_def host_settled_def sample_host_def storage_cell_def code_cell_def
    transient_of_def slot_def acc_def empty_account_def fun_eq_iff)

lemma sample_vm_ok: "vm_ok (ne_vm sample_env)"
  by (simp add: vm_ok_def sample_env_def)

theorem calls_only_look_witness:
  "same_view evm_state (snd (state_ethCall sample_env (txToCallInfo sample_tx) evm_state))
   \<and> getNativeBalance (snd (estimateGas sample_env (txToCallInfo sample_tx) evm_state)) (replicate 20 7) = 100000"
proof -
  let ?ci = "txToCallInfo sample_tx"
  have f: "ci_from ?ci = replicate 20 7" "ci_to ?ci = replicate 20 9" "ci_value ?ci = 1000"
    by (simp_all add: txToCallInfo_def sample_tx_fields)
  have "value_movable evm_state ?ci"
    using sample_addresses by (simp add: value_movable_def f evm_state_facts)
  then show ?thesis
    using calls_only_look[OF sample_vm_ok evm_state_quiet, of ?ci] evm_state_facts(1,4) by simp
qed

theorem evm_failed_transaction_reverts_witness:
  "\<exists>s'. processTransaction sample_env (block_info_of sample_env sample_block) sample_tx 0 evm_state = (Inr (), s')
     \<and> getNativeBalance s' (replicate 20 7) = 80000 \<and> getNativeBalance s' (replicate 20 9) = 0"
proof -
  let ?ci = "txToCallInfo sample_tx" and ?bi = "block_info_of sample_env sample_block"
  let ?res = "\<lparr>res_status = 1, res_gas_left = 1000, res_output = []\<rparr>"
  have rt: "real_to sample_env sample_tx = replicate 20 9"
    using sample_addresses by (simp add: real_to_def sample_tx_fields)
  obtain h2 where ex: "execute (ne_crypto sample_env) (ne_vm sample_env) ?ci
      (evm_entry sample_env ?bi sample_tx (cs_host evm_state)) = (Inr ?res, h2)"
  proof -
    have ci: "ci_to ?ci \<noteq> zero_address" "ci_gasLimit ?ci = 21000"
      using sample_addresses by (simp_all add: txToCallInfo_def sample_tx_fields)
    have vm: "ne_vm sample_env msg code h = (?res, h)" for msg code h by (simp add: sample_env_def)
    show ?thesis using that ci by (simp add: execute_def vm Let_def)
  qed
  have ev: "isEvmContract (cs_host evm_state) (tb_to sample_tx) \<or> tb_to sample_tx = zero_address"
    by (simp add: evm_state_facts sample_tx_fields)
  have ac: "accounts (cs_host evm_state) (tb_from sample_tx) \<noteq> None"
    using evm_state_facts(2) by (simp add: sample_tx_fields)
  show ?thesis
    using evm_failed_transaction_reverts[OF sample_vm_ok evm_state_quiet ac ev _ _ _ ex, of 0] sample_addresses rt
    by (auto simp: evm_state_facts sample_tx_fields)
qed

end
