(* ===== verification/P2p_Encoding.thy ===== *)
theory P2p_Encoding
  imports Block_Codec
begin

text \<open>
  The messages of the peer-to-peer protocol (\<^verbatim>\<open>src/src/net/p2p/encoding.cpp\<close>, \<^verbatim>\<open>encoding.h\<close>): their
  header, the requests, the answers and the broadcasts, each with its encoder and its decoder.
  A message is its raw bytes. Random identifiers and the time are arguments of the encoders.
\<close>

section \<open>Definitions: types and prefixes\<close>

datatype NodeType = NORMAL_NODE | DISCOVERY_NODE

text \<open>
  The enumerators of \<^verbatim>\<open>RequestType\<close> are 0 to 2, so the value 3 fits the type without being one
  of them; it is \<open>UnnamedType\<close>. Those of \<^verbatim>\<open>CommandType\<close> are 0 to 7 and fill the type.
\<close>

datatype RequestType = Requesting | Answering | Broadcasting | UnnamedType

datatype CommandType = Ping | Info | RequestNodes | RequestValidatorTxs | BroadcastValidatorTx
  | BroadcastTx | BroadcastBlock | RequestTxs

definition typePrefixes :: "bytes list" where
  "typePrefixes = [[0x00], [0x01], [0x02]]"

definition commandPrefixes :: "bytes list" where
  "commandPrefixes = [[0x00, 0x00], [0x00, 0x01], [0x00, 0x02], [0x00, 0x03], [0x00, 0x04], [0x00, 0x05],
     [0x00, 0x06], [0x00, 0x07]]"

definition commandTypes :: "CommandType list" where
  "commandTypes = [Ping, Info, RequestNodes, RequestValidatorTxs, BroadcastValidatorTx, BroadcastTx, BroadcastBlock, RequestTxs]"

fun command_index :: "CommandType \<Rightarrow> nat" where
  "command_index Ping = 0"
| "command_index Info = 1"
| "command_index RequestNodes = 2"
| "command_index RequestValidatorTxs = 3"
| "command_index BroadcastValidatorTx = 4"
| "command_index BroadcastTx = 5"
| "command_index BroadcastBlock = 6"
| "command_index RequestTxs = 7"

definition getCommandType :: "bytes \<Rightarrow> CommandType res" where
  "getCommandType message =
     (if length message \<noteq> 2 then Inl (DynamicException ''Invalid Command Type size.'')
      else bind_r (bytesToUint16 message) (\<lambda>commandType.
        if commandType > length commandPrefixes then Inl (DynamicException ''Invalid command type.'')
        else if commandType < length commandTypes then Inr (commandTypes ! commandType)
        else Inl UndefinedBehaviour))"

definition getCommandPrefix :: "CommandType \<Rightarrow> bytes" where
  "getCommandPrefix commType = commandPrefixes ! command_index commType"

definition getRequestType :: "bytes \<Rightarrow> RequestType res" where
  "getRequestType message =
     (if length message \<noteq> 1 then Inl (DynamicException ''Invalid Request Type size. '')
      else bind_r (bytesToUint8 message) (\<lambda>requestType.
        if requestType > length typePrefixes then Inl (DynamicException ''Invalid request type.'')
        else Inr ([Requesting, Answering, Broadcasting, UnnamedType] ! requestType)))"

fun getRequestTypePrefix :: "RequestType \<Rightarrow> bytes res" where
  "getRequestTypePrefix Requesting = Inr (typePrefixes ! 0)"
| "getRequestTypePrefix Answering = Inr (typePrefixes ! 1)"
| "getRequestTypePrefix Broadcasting = Inr (typePrefixes ! 2)"
| "getRequestTypePrefix UnnamedType = Inl UndefinedBehaviour"

section \<open>Definitions: messages\<close>

text \<open>\<^verbatim>\<open>Message(Bytes&&)\<close>, and the accessors, which do not check the size.\<close>

definition Message_make :: "bytes \<Rightarrow> bytes res" where
  "Message_make raw = (if length raw < 11 then Inl (DynamicException ''Invalid message size.'') else Inr raw)"

definition msg_type :: "bytes \<Rightarrow> RequestType res" where
  "msg_type m = bind_r (subspan m 0 1) getRequestType"

definition msg_id :: "bytes \<Rightarrow> bytes res" where
  "msg_id m = subspan m 1 8"

definition msg_command :: "bytes \<Rightarrow> CommandType res" where
  "msg_command m = bind_r (subspan m 9 2) getCommandType"

definition msg_body :: "bytes \<Rightarrow> bytes res" where
  "msg_body m = (if 11 \<le> length m then Inr (drop 11 m) else Inl UndefinedBehaviour)"

text \<open>What every encoder does: prefix of the type, identifier, prefix of the command, payload.\<close>

definition build_message :: "RequestType \<Rightarrow> bytes \<Rightarrow> CommandType \<Rightarrow> bytes \<Rightarrow> bytes res" where
  "build_message t rid cmd payload =
     bind_r (getRequestTypePrefix t) (\<lambda>p. Message_make (p @ rid @ getCommandPrefix cmd @ payload))"

section \<open>Definitions: requests\<close>

record node_info =
  nodeVersion :: nat
  currentTimestamp :: nat
  latestBlockHeight :: nat
  latestBlockHash :: bytes

definition info_payload :: "nat \<Rightarrow> nat \<Rightarrow> block \<Rightarrow> bytes" where
  "info_payload version epoch l =
     uint64ToBytes version @ uint64ToBytes epoch @ uint64ToBytes (nHeight l) @ block_hash l"

definition RequestEncoder_ping :: "bytes \<Rightarrow> bytes res" where
  "RequestEncoder_ping rid = build_message Requesting rid Ping []"

definition RequestEncoder_info :: "bytes \<Rightarrow> nat \<Rightarrow> nat \<Rightarrow> block \<Rightarrow> bytes res" where
  "RequestEncoder_info rid version epoch l = build_message Requesting rid Info (info_payload version epoch l)"

definition RequestEncoder_requestNodes :: "bytes \<Rightarrow> bytes res" where
  "RequestEncoder_requestNodes rid = build_message Requesting rid RequestNodes []"

definition RequestEncoder_requestValidatorTxs :: "bytes \<Rightarrow> bytes res" where
  "RequestEncoder_requestValidatorTxs rid = build_message Requesting rid RequestValidatorTxs []"

definition RequestEncoder_requestTxs :: "bytes \<Rightarrow> bytes res" where
  "RequestEncoder_requestTxs rid = build_message Requesting rid RequestTxs []"

text \<open>A request with no payload: the size, then the command.\<close>

definition bare_request :: "CommandType \<Rightarrow> bytes \<Rightarrow> bool res" where
  "bare_request cmd m = (if length m \<noteq> 11 then Inr False else bind_r (msg_command m) (\<lambda>c. Inr (c = cmd)))"

definition RequestDecoder_ping :: "bytes \<Rightarrow> bool res" where
  "RequestDecoder_ping = bare_request Ping"

definition RequestDecoder_requestNodes :: "bytes \<Rightarrow> bool res" where
  "RequestDecoder_requestNodes = bare_request RequestNodes"

definition RequestDecoder_requestValidatorTxs :: "bytes \<Rightarrow> bool res" where
  "RequestDecoder_requestValidatorTxs = bare_request RequestValidatorTxs"

definition RequestDecoder_requestTxs :: "bytes \<Rightarrow> bool res" where
  "RequestDecoder_requestTxs = bare_request RequestTxs"

definition u64_at :: "bytes \<Rightarrow> nat \<Rightarrow> nat res" where
  "u64_at bs index = bind_r (subspan bs index 8) bytesToUint64"

definition read_info :: "bytes \<Rightarrow> node_info res" where
  "read_info m =
     bind_r (msg_body m) (\<lambda>d.
     bind_r (u64_at d 0) (\<lambda>version.
     bind_r (u64_at d 8) (\<lambda>epoch.
     bind_r (u64_at d 16) (\<lambda>height.
     bind_r (subspan d 24 32) (\<lambda>h.
     Inr \<lparr>nodeVersion = version, currentTimestamp = epoch, latestBlockHeight = height, latestBlockHash = h\<rparr>)))))"

definition RequestDecoder_info :: "bytes \<Rightarrow> node_info res" where
  "RequestDecoder_info m =
     (if length m \<noteq> 67 then Inl (DynamicException ''Invalid Info message size.'')
      else bind_r (msg_command m) (\<lambda>c.
        if c \<noteq> Info then Inl (DynamicException ''Invalid Info message command.'') else read_info m))"

section \<open>Definitions: answers\<close>

text \<open>
  An address of the network library: four bytes, or sixteen and a scope identifier, which is
  not part of its bytes.
\<close>

datatype ip_address = V4 bytes | V6 bytes nat

type_synonym node_id = "ip_address \<times> nat"

fun is_v4 :: "ip_address \<Rightarrow> bool" where
  "is_v4 (V4 _) = True"
| "is_v4 (V6 _ _) = False"

fun ip_bytes :: "ip_address \<Rightarrow> bytes" where
  "ip_bytes (V4 bs) = bs"
| "ip_bytes (V6 bs _) = bs"

fun node_type_value :: "NodeType \<Rightarrow> nat" where
  "node_type_value NORMAL_NODE = 0"
| "node_type_value DISCOVERY_NODE = 1"

text \<open>\<^verbatim>\<open>NodeType(n)\<close>: the enumerators fill the values 0 and 1, any other value is undefined.\<close>

definition NodeType_of :: "nat \<Rightarrow> NodeType res" where
  "NodeType_of n = (if n = 0 then Inr NORMAL_NODE else if n = 1 then Inr DISCOVERY_NODE else Inl UndefinedBehaviour)"

definition encode_node :: "node_id \<times> NodeType \<Rightarrow> bytes" where
  "encode_node = (\<lambda>((address, port), nodeType).
     uint8ToBytes (node_type_value nodeType) @ uint8ToBytes (if is_v4 address then 0 else 1)
     @ ip_bytes address @ uint16ToBytes port)"

definition AnswerEncoder_ping :: "bytes \<Rightarrow> bytes res" where
  "AnswerEncoder_ping request = bind_r (msg_id request) (\<lambda>i. build_message Answering i Ping [])"

definition AnswerEncoder_info :: "bytes \<Rightarrow> nat \<Rightarrow> nat \<Rightarrow> block \<Rightarrow> bytes res" where
  "AnswerEncoder_info request version epoch l =
     bind_r (msg_id request) (\<lambda>i. build_message Answering i Info (info_payload version epoch l))"

definition AnswerEncoder_requestNodes :: "bytes \<Rightarrow> (node_id \<times> NodeType) list \<Rightarrow> bytes res" where
  "AnswerEncoder_requestNodes request nodes =
     bind_r (msg_id request) (\<lambda>i. build_message Answering i RequestNodes (concat (map encode_node nodes)))"

definition AnswerEncoder_requestValidatorTxs :: "bytes \<Rightarrow> (bytes \<times> txvalidator) list \<Rightarrow> bytes res" where
  "AnswerEncoder_requestValidatorTxs request mp =
     bind_r (msg_id request) (\<lambda>i. build_message Answering i RequestValidatorTxs
       (concat (map (\<lambda>(_, tx). framed (TxValidator_rlpSerialize True tx)) mp)))"

definition AnswerEncoder_requestTxs :: "bytes \<Rightarrow> (bytes \<times> txblock) list \<Rightarrow> bytes res" where
  "AnswerEncoder_requestTxs request mp =
     bind_r (msg_id request) (\<lambda>i. build_message Answering i RequestTxs
       (concat (map (\<lambda>(_, tx). framed (TxBlock_rlpSerialize True tx)) mp)))"

text \<open>The checks of the answers' decoders.\<close>

definition expect_answer :: "CommandType \<Rightarrow> bytes \<Rightarrow> unit res" where
  "expect_answer cmd m =
     bind_r (msg_type m) (\<lambda>t.
     if t \<noteq> Answering then Inl (DynamicException ''Invalid message type.'')
     else bind_r (msg_command m) (\<lambda>c.
       if c \<noteq> cmd then Inl (DynamicException ''Invalid command.'') else Inr ()))"

definition AnswerDecoder_ping :: "bytes \<Rightarrow> bool res" where
  "AnswerDecoder_ping m =
     (if length m \<noteq> 11 then Inr False
      else bind_r (msg_type m) (\<lambda>t. if t \<noteq> Answering then Inr False
        else bind_r (msg_command m) (\<lambda>c. Inr (c = Ping))))"

definition AnswerDecoder_info :: "bytes \<Rightarrow> node_info res" where
  "AnswerDecoder_info m = bind_r (expect_answer Info m) (\<lambda>_. read_info m)"

text \<open>The address at an index, with its number of bytes.\<close>

definition read_ip :: "bytes \<Rightarrow> nat \<Rightarrow> nat \<Rightarrow> (ip_address \<times> nat) res" where
  "read_ip data index ipVersion =
     (if ipVersion = 0 then bind_r (subspan data index 4) (\<lambda>b. Inr (V4 b, 4))
      else if ipVersion = 1 then bind_r (subspan data index 16) (\<lambda>b. Inr (V6 b 0, 16))
      else Inl (DynamicException ''Invalid ip version.''))"

definition insert_node :: "node_id \<Rightarrow> NodeType \<Rightarrow> (node_id \<times> NodeType) list \<Rightarrow> (node_id \<times> NodeType) list" where
  "insert_node k v nodes = (if k \<in> fst ` set nodes then nodes else nodes @ [(k, v)])"

function read_nodes :: "bytes \<Rightarrow> nat \<Rightarrow> (node_id \<times> NodeType) list \<Rightarrow> (node_id \<times> NodeType) list res" where
  "read_nodes data index nodes =
     (if index < length data
      then if length data < 8 then Inl (DynamicException ''Invalid data size.'')
        else
          bind_r (bind_r (subspan data index 1) bytesToUint8) (\<lambda>ty.
          bind_r (NodeType_of ty) (\<lambda>nodeType.
          bind_r (bind_r (subspan data (index + 1) 1) bytesToUint8) (\<lambda>ipVersion.
          bind_r (read_ip data (index + 2) ipVersion) (\<lambda>(address, n).
          bind_r (bind_r (subspan data (index + 2 + n) 2) bytesToUint16) (\<lambda>port.
          read_nodes data (index + 4 + n) (insert_node (address, port) nodeType nodes))))))
      else Inr nodes)"
  by pat_completeness auto
termination
  by (relation "measure (\<lambda>(data, index, nodes). length data - index)") auto

declare read_nodes.simps [simp del]

definition AnswerDecoder_requestNodes :: "bytes \<Rightarrow> (node_id \<times> NodeType) list res" where
  "AnswerDecoder_requestNodes m =
     bind_r (expect_answer RequestNodes m) (\<lambda>_. bind_r (msg_body m) (\<lambda>data. read_nodes data 0 []))"

text \<open>The two loops over framed transactions, which differ in the constructor they call.\<close>

function read_txs :: "(bytes \<Rightarrow> 'a res) \<Rightarrow> bytes \<Rightarrow> nat \<Rightarrow> 'a list res" where
  "read_txs parse data index =
     (if index < length data
      then if length data < 4 then Inl (DynamicException ''Invalid data size.'')
        else
          bind_r (u32_at data index) (\<lambda>txSize.
          if length data < txSize then Inl (DynamicException ''Invalid data size.'')
          else
            bind_r (subspan data (index + 4) txSize) (\<lambda>txData.
            bind_r (parse txData) (\<lambda>tx.
            bind_r (read_txs parse data (index + 4 + txSize)) (\<lambda>ts. Inr (tx # ts)))))
      else Inr [])"
  by pat_completeness auto
termination
  by (relation "measure (\<lambda>(parse, data, index). length data - index)") auto

declare read_txs.simps [simp del]

definition AnswerDecoder_requestValidatorTxs :: "crypto \<Rightarrow> nat \<Rightarrow> bytes \<Rightarrow> txvalidator list res" where
  "AnswerDecoder_requestValidatorTxs c junk m =
     bind_r (expect_answer RequestValidatorTxs m) (\<lambda>_.
     bind_r (msg_body m) (\<lambda>data. read_txs (TxValidator_parse c junk) data 0))"

definition AnswerDecoder_requestTxs :: "crypto \<Rightarrow> bytes \<Rightarrow> txblock list res" where
  "AnswerDecoder_requestTxs c m =
     bind_r (expect_answer RequestTxs m) (\<lambda>_. bind_r (msg_body m) (\<lambda>data. read_txs (TxBlock_parse c) data 0))"

section \<open>Definitions: broadcasts\<close>

definition FNVHash :: "bytes \<Rightarrow> 64 word" where
  "FNVHash s = fold (\<lambda>b result. (16777619 * result) XOR ucast b) s 2166136261"

definition broadcast_message :: "CommandType \<Rightarrow> bytes \<Rightarrow> bytes res" where
  "broadcast_message cmd payload =
     build_message Broadcasting (uint64ToBytes (unat (FNVHash payload))) cmd payload"

definition BroadcastEncoder_broadcastValidatorTx :: "txvalidator \<Rightarrow> bytes res" where
  "BroadcastEncoder_broadcastValidatorTx tx = broadcast_message BroadcastValidatorTx (TxValidator_rlpSerialize True tx)"

definition BroadcastEncoder_broadcastTx :: "txblock \<Rightarrow> bytes res" where
  "BroadcastEncoder_broadcastTx tx = broadcast_message BroadcastTx (TxBlock_rlpSerialize True tx)"

definition BroadcastEncoder_broadcastBlock :: "block \<Rightarrow> bytes res" where
  "BroadcastEncoder_broadcastBlock b = broadcast_message BroadcastBlock (serializeBlock b)"

definition open_broadcast :: "CommandType \<Rightarrow> bytes \<Rightarrow> bytes res" where
  "open_broadcast cmd m =
     bind_r (msg_type m) (\<lambda>t.
     if t \<noteq> Broadcasting then Inl (DynamicException ''Invalid message type.'')
     else bind_r (msg_id m) (\<lambda>i.
       bind_r (bytesToUint64 i) (\<lambda>n.
       bind_r (msg_body m) (\<lambda>payload.
       if n \<noteq> unat (FNVHash payload) then Inl (DynamicException ''Invalid message id.'')
       else bind_r (msg_command m) (\<lambda>c.
         if c \<noteq> cmd then Inl (DynamicException ''Invalid command.'') else Inr payload)))))"

definition BroadcastDecoder_broadcastValidatorTx :: "crypto \<Rightarrow> nat \<Rightarrow> bytes \<Rightarrow> txvalidator res" where
  "BroadcastDecoder_broadcastValidatorTx c junk m =
     bind_r (open_broadcast BroadcastValidatorTx m) (TxValidator_parse c junk)"

definition BroadcastDecoder_broadcastTx :: "crypto \<Rightarrow> bytes \<Rightarrow> txblock res" where
  "BroadcastDecoder_broadcastTx c m = bind_r (open_broadcast BroadcastTx m) (TxBlock_parse c)"

definition BroadcastDecoder_broadcastBlock :: "crypto \<Rightarrow> nat \<Rightarrow> bytes \<Rightarrow> block res" where
  "BroadcastDecoder_broadcastBlock c junk m = bind_r (open_broadcast BroadcastBlock m) (Block_parse c junk)"

section \<open>Lemmas: the header\<close>

lemma bytesToUint16_eq: "bytesToUint16 b = (if length b = 2 then Inr (be_val b) else Inl invalid_size)"
  by (simp add: bytesToUint16_def bswap_le_load)

lemma bytesToUint8_eq: "bytesToUint8 b = (if length b = 1 then Inr (be_val b) else Inl invalid_size)"
  by (cases b) (auto simp: bytesToUint8_def)

lemma uint16_parts: "length (uint16ToBytes n) = 2" "n < 65536 \<Longrightarrow> be_val (uint16ToBytes n) = n"
  by (simp_all add: uint16ToBytes_def be_val_rev_le_image)

lemma uint8_parts: "length (uint8ToBytes n) = 1" "n < 256 \<Longrightarrow> be_val (uint8ToBytes n) = n"
proof -
  show "length (uint8ToBytes n) = 1" by (simp add: uint8ToBytes_def)
  have "rev (le_image 1 n) = le_image 1 n" using length_le_image[of 1 n] by (cases "le_image 1 n") auto
  then show "be_val (uint8ToBytes n) = n" if "n < 256"
    using be_val_rev_le_image[of 1 n] that by (simp add: uint8ToBytes_def)
qed

lemma command_index_less: "command_index c < 8"
  by (cases c) simp_all

lemma command_prefix: "length (getCommandPrefix c) = 2" "be_val (getCommandPrefix c) = command_index c"
  by (cases c; simp add: getCommandPrefix_def commandPrefixes_def be_val_Cons)+

lemma commandTypes_index: "commandTypes ! command_index c = c"
  by (cases c) (simp_all add: commandTypes_def)

lemma index_commandTypes: "n < 8 \<Longrightarrow> command_index (commandTypes ! n) = n"
proof -
  assume "n < 8"
  then consider "n = 0" | "n = 1" | "n = 2" | "n = 3" | "n = 4" | "n = 5" | "n = 6" | "n = 7" by linarith
  then show ?thesis by cases (simp_all add: commandTypes_def)
qed

lemma command_sizes: "length commandPrefixes = 8" "length commandTypes = 8"
  by (simp_all add: commandPrefixes_def commandTypes_def)

lemma getCommandType_iff: "getCommandType b = Inr c \<longleftrightarrow> b = getCommandPrefix c"
proof
  assume "getCommandType b = Inr c"
  then have l: "length b = 2" and n: "be_val b < 8" "c = commandTypes ! be_val b"
    by (auto simp: getCommandType_def bytesToUint16_eq command_sizes split: if_splits)
  then have "be_val b = be_val (getCommandPrefix c)" by (simp add: command_prefix index_commandTypes)
  then show "b = getCommandPrefix c" using l by (intro be_val_inj) (simp_all add: command_prefix)
qed (simp add: getCommandType_def bytesToUint16_eq command_prefix command_sizes command_index_less commandTypes_index
    order_less_imp_not_less)

text \<open>The prefixes of the three request types.\<close>

lemma type_prefix:
  "getRequestTypePrefix t = Inr p \<Longrightarrow> length p = 1"
  by (cases t) (auto simp: typePrefixes_def)

lemma type_prefix_ex: "t \<noteq> UnnamedType \<Longrightarrow> \<exists>p. getRequestTypePrefix t = Inr p"
  by (cases t) simp_all

lemma getRequestType_iff: "t \<noteq> UnnamedType \<Longrightarrow> getRequestType b = Inr t \<longleftrightarrow> getRequestTypePrefix t = Inr b"
proof
  assume t: "t \<noteq> UnnamedType" and g: "getRequestType b = Inr t"
  then obtain x where b: "b = [x]" by (cases b) (auto simp: getRequestType_def split: if_splits)
  then have x: "unat x \<le> 3" and n: "t = [Requesting, Answering, Broadcasting, UnnamedType] ! unat x"
    using g by (simp_all add: getRequestType_def bytesToUint8_def typePrefixes_def split: if_splits)
  have x4: "x = word_of_nat (unat x)" by simp
  consider "unat x = 0" | "unat x = 1" | "unat x = 2" | "unat x = 3" using x by linarith
  then show "getRequestTypePrefix t = Inr b"
    using t n b x4 by cases (simp_all add: typePrefixes_def)
next
  assume "t \<noteq> UnnamedType" "getRequestTypePrefix t = Inr b"
  then show "getRequestType b = Inr t"
    by (cases t) (auto simp: typePrefixes_def getRequestType_def bytesToUint8_def)
qed

text \<open>A message built from its parts has these parts, and is determined by them.\<close>

lemma build_message_parts:
  assumes "t \<noteq> UnnamedType" "length rid = 8"
  shows "\<exists>m. build_message t rid cmd pl = Inr m \<and> length m = 11 + length pl \<and> msg_type m = Inr t
    \<and> msg_id m = Inr rid \<and> msg_command m = Inr cmd \<and> msg_body m = Inr pl"
proof -
  obtain p where p: "getRequestTypePrefix t = Inr p" using type_prefix_ex[OF assms(1)] by blast
  note lp = type_prefix[OF p]
  let ?m = "p @ rid @ getCommandPrefix cmd @ pl"
  have "length ?m = 11 + length pl" using lp assms(2) by (simp add: command_prefix)
  moreover have "msg_type ?m = Inr t"
    using subspan_mid[of "[]" 0 p 1 "rid @ getCommandPrefix cmd @ pl"] lp p getRequestType_iff[OF assms(1)]
    by (simp add: msg_type_def)
  moreover have "msg_id ?m = Inr rid"
    using subspan_mid[of p 1 rid 8 "getCommandPrefix cmd @ pl"] lp assms(2) by (simp add: msg_id_def)
  moreover have "msg_command ?m = Inr cmd"
    using subspan_mid[of "p @ rid" 9 "getCommandPrefix cmd" 2 pl] lp assms(2)
    by (simp add: msg_command_def command_prefix getCommandType_iff)
  moreover have "msg_body ?m = Inr pl"
    using lp assms(2) command_prefix(1)[of cmd] by (simp add: msg_body_def)
  ultimately show ?thesis
    by (intro exI[of _ ?m]) (simp add: build_message_def p Message_make_def)
qed

lemma build_message_unique:
  assumes "t \<noteq> UnnamedType" "msg_type m = Inr t" "msg_id m = Inr rid" "msg_command m = Inr cmd" "msg_body m = Inr pl"
  shows "build_message t rid cmd pl = Inr m"
proof -
  have l: "11 \<le> length m" and pl: "pl = drop 11 m" using assms(5) by (simp_all add: msg_body_def split: if_splits)
  then have r: "rid = take 8 (drop 1 m)" using assms(3) by (simp add: msg_id_def subspan_def)
  have p: "getRequestTypePrefix t = Inr (take 1 m)"
    using assms(1,2) l by (simp add: msg_type_def subspan_def getRequestType_iff)
  have c: "getCommandPrefix cmd = take 2 (drop 9 m)"
    using assms(4) l by (simp add: msg_command_def subspan_def getCommandType_iff)
  have "take 1 m @ take 8 (drop 1 m) @ take 2 (drop 9 m) @ drop 11 m = m"
    using append_take_drop_id[of 1 m] append_take_drop_id[of 8 "drop 1 m"] append_take_drop_id[of 2 "drop 9 m"]
    by simp
  then show ?thesis using l unfolding build_message_def p r c pl by (simp add: Message_make_def)
qed

section \<open>Lemmas: lists of nodes and of transactions\<close>

definition node_ok :: "node_id \<times> NodeType \<Rightarrow> bool" where
  "node_ok = (\<lambda>((address, port), nodeType). port < 65536
     \<and> (case address of V4 b \<Rightarrow> length b = 4 | V6 b scope \<Rightarrow> length b = 16 \<and> scope = 0))"

definition collect_nodes :: "(node_id \<times> NodeType) list \<Rightarrow> (node_id \<times> NodeType) list \<Rightarrow> (node_id \<times> NodeType) list" where
  "collect_nodes xs nodes = fold (\<lambda>(k, v). insert_node k v) xs nodes"

lemma u8_at: "length pre = i \<Longrightarrow> n < 256 \<Longrightarrow>
    bind_r (subspan (pre @ uint8ToBytes n @ post) i 1) bytesToUint8 = Inr n"
  by (simp add: subspan_mid uint8_parts bytesToUint8_eq)

lemma u16_at: "length pre = i \<Longrightarrow> n < 65536 \<Longrightarrow>
    bind_r (subspan (pre @ uint16ToBytes n @ post) i 2) bytesToUint16 = Inr n"
  by (simp add: subspan_mid uint16_parts bytesToUint16_eq)

lemma u64_at_image: "length pre = i \<Longrightarrow> n < 2 ^ 64 \<Longrightarrow> u64_at (pre @ uint64ToBytes n @ post) i = Inr n"
  by (simp add: u64_at_def subspan_mid bytesToUint64_eq be_val_uint64ToBytes)

lemma NodeType_value: "NodeType_of (node_type_value t) = Inr t" "node_type_value t < 256"
  by (cases t; simp add: NodeType_of_def)+

lemma length_encode_node: "node_ok x \<Longrightarrow> length (encode_node x) \<ge> 8"
  by (cases x) (auto simp: node_ok_def encode_node_def uint8_parts uint16_parts split: ip_address.splits)

lemma read_nodes_step:
  assumes "node_ok x"
  shows "read_nodes (pre @ encode_node x @ post) (length pre) nodes =
    read_nodes (pre @ encode_node x @ post) (length (pre @ encode_node x)) (insert_node (fst x) (snd x) nodes)"
proof -
  obtain address port nt where x: "x = ((address, port), nt)" by (metis surj_pair)
  let ?t = "uint8ToBytes (node_type_value nt)" and ?v = "uint8ToBytes (if is_v4 address then 0 else 1)"
  let ?b = "ip_bytes address" and ?p = "uint16ToBytes port"
  have enc: "encode_node x = ?t @ ?v @ ?b @ ?p" by (simp add: x encode_node_def)
  have port: "port < 65536" using assms by (simp add: x node_ok_def)
  let ?data = "pre @ encode_node x @ post"
  have r: "read_ip ?data (length pre + 2) (if is_v4 address then 0 else 1) = Inr (address, length ?b)"
    using assms[unfolded x node_ok_def] subspan_mid[of "pre @ ?t @ ?v" "length pre + 2" ?b "length ?b" "?p @ post"]
    unfolding enc by (cases address) (simp_all add: read_ip_def uint8_parts)
  have c1: "bind_r (subspan ?data (length pre) 1) bytesToUint8 = Inr (node_type_value nt)"
    using u8_at[of pre "length pre" "node_type_value nt" "?v @ ?b @ ?p @ post"] by (simp add: enc NodeType_value)
  have c2: "bind_r (subspan ?data (length pre + 1) 1) bytesToUint8 = Inr (if is_v4 address then 0 else 1)"
    using u8_at[of "pre @ ?t" "length pre + 1" "if is_v4 address then 0 else 1" "?b @ ?p @ post"] by (simp add: enc uint8_parts)
  have c3: "bind_r (subspan ?data (length pre + 2 + length ?b) 2) bytesToUint16 = Inr port"
    using u16_at[of "pre @ ?t @ ?v @ ?b" "length pre + 2 + length ?b" port post] port by (simp add: enc uint8_parts)
  have c4: "length pre + 4 + length ?b = length (pre @ encode_node x)"
    by (simp add: enc uint8_parts uint16_parts)
  have nx: "length pre < length ?data" "\<not> length ?data < 8" using length_encode_node[OF assms] by auto
  have k: "fst x = (address, port)" "snd x = nt" by (simp_all add: x)
  show ?thesis
    by (subst read_nodes.simps)
      (simp only: nx if_True if_False bind_r_Inr NodeType_value r c1 c2 c3 c4 k prod.case)
qed

lemma read_nodes_encoded:
  assumes "\<forall>x\<in>set xs. node_ok x"
  shows "read_nodes (pre @ concat (map encode_node xs)) (length pre) nodes = Inr (collect_nodes xs nodes)"
  using assms
proof (induction xs arbitrary: pre nodes)
  case Nil
  then show ?case by (simp add: read_nodes.simps collect_nodes_def)
next
  case (Cons x xs)
  then show ?case
    using read_nodes_step[of x pre "concat (map encode_node xs)" nodes]
      Cons.IH[of "pre @ encode_node x" "insert_node (fst x) (snd x) nodes"]
    by (simp add: collect_nodes_def case_prod_beta)
qed

lemma subspan_eq_Inr: "subspan bs i n = Inr x \<longleftrightarrow> i + n \<le> length bs \<and> x = take n (drop i bs)"
  by (auto simp: subspan_def)

lemma uint8_be_val: "length b = 1 \<Longrightarrow> uint8ToBytes (be_val b) = b"
  using be_val_less[of b] by (intro be_val_inj) (simp_all add: uint8_parts)

lemma uint16_be_val: "length b = 2 \<Longrightarrow> uint16ToBytes (be_val b) = b"
  using be_val_less[of b] by (intro be_val_inj) (simp_all add: uint16_parts)

lemma NodeType_of_eq: "NodeType_of n = Inr t \<longleftrightarrow> n = node_type_value t"
  by (cases t) (auto simp: NodeType_of_def)

lemma read_ip_eq: "read_ip data i v = Inr (a, n) \<Longrightarrow>
    v = (if is_v4 a then 0 else 1) \<and> i + n \<le> length data \<and> ip_bytes a = take n (drop i data) \<and> length (ip_bytes a) = n
    \<and> (case a of V4 b \<Rightarrow> length b = 4 | V6 b scope \<Rightarrow> length b = 16 \<and> scope = 0)"
  by (auto simp: read_ip_def bind_r_eq_Inr subspan_eq_Inr split: if_splits)

lemma take_pieces:
  "take (a + b) xs = take a xs @ take b (drop a xs)" by (rule take_add)

text \<open>What is decoded is the encoding of a list of nodes.\<close>

lemma read_nodes_sound:
  "read_nodes data i nodes = Inr ns \<Longrightarrow> i \<le> length data \<Longrightarrow>
    \<exists>xs. (\<forall>x\<in>set xs. node_ok x) \<and> drop i data = concat (map encode_node xs) \<and> ns = collect_nodes xs nodes"
proof (induction data i nodes rule: read_nodes.induct)
  case (1 data i nodes)
  show ?case
  proof (cases "i < length data")
    case False
    then show ?thesis using "1.prems" by (intro exI[of _ "[]"]) (simp add: read_nodes.simps collect_nodes_def)
  next
    case True
    from "1.prems"(1) True have big: "\<not> length data < 8"
      by (subst (asm) read_nodes.simps) (simp split: if_splits)
    with "1.prems"(1) True obtain ty nt v a n port where
      ty: "bind_r (subspan data i 1) bytesToUint8 = Inr ty" "NodeType_of ty = Inr nt"
      and v: "bind_r (subspan data (i + 1) 1) bytesToUint8 = Inr v" and a: "read_ip data (i + 2) v = Inr (a, n)"
      and port: "bind_r (subspan data (i + 2 + n) 2) bytesToUint16 = Inr port"
      and rest: "read_nodes data (i + 4 + n) (insert_node (a, port) nt nodes) = Inr ns"
      by (subst (asm) read_nodes.simps) (auto simp: bind_r_eq_Inr)
    have t: "take 1 (drop i data) = uint8ToBytes (node_type_value nt)"
      using ty uint8_be_val[of "take 1 (drop i data)"]
      by (auto simp: bind_r_eq_Inr subspan_eq_Inr bytesToUint8_eq NodeType_of_eq)
    have v': "take 1 (drop (i + 1) data) = uint8ToBytes (if is_v4 a then 0 else 1)"
      using v read_ip_eq[OF a] uint8_be_val[of "take 1 (drop (i + 1) data)"]
      by (auto simp: bind_r_eq_Inr subspan_eq_Inr bytesToUint8_eq)
    have p: "take 2 (drop (i + 2 + n) data) = uint16ToBytes port" "port < 65536" "i + 4 + n \<le> length data"
      using port be_val_less[of "take 2 (drop (i + 2 + n) data)"] uint16_be_val[of "take 2 (drop (i + 2 + n) data)"]
      by (auto simp: bind_r_eq_Inr subspan_eq_Inr bytesToUint16_eq uint16_be_val)
    have ok: "node_ok ((a, port), nt)" using p read_ip_eq[OF a] by (simp add: node_ok_def)
    have "take (1 + (1 + (n + 2))) (drop i data) = encode_node ((a, port), nt)"
      using t v' p(1) read_ip_eq[OF a] unfolding take_pieces drop_drop
      by (simp add: encode_node_def add.commute add.left_commute)
    moreover have four: "1 + (1 + (n + 2)) + i = i + 4 + n" by simp
    ultimately have "drop i data = encode_node ((a, port), nt) @ drop (i + 4 + n) data"
      by (metis append_take_drop_id drop_drop four)
    moreover obtain xs where "\<forall>x\<in>set xs. node_ok x" "drop (i + 4 + n) data = concat (map encode_node xs)"
      "ns = collect_nodes xs (insert_node (a, port) nt nodes)"
      using "1.IH"[OF True big rest p(3)] by auto
    ultimately show ?thesis
      using ok by (intro exI[of _ "((a, port), nt) # xs"]) (simp add: collect_nodes_def)
  qed
qed

lemma collect_nodes_distinct: "distinct (map fst (nodes @ xs)) \<Longrightarrow> collect_nodes xs nodes = nodes @ xs"
proof (induction xs arbitrary: nodes)
  case (Cons x xs)
  then show ?case by (cases x) (auto simp: collect_nodes_def insert_node_def)
qed (simp add: collect_nodes_def)

lemma read_txs_framed:
  assumes "\<forall>t\<in>set ts. length (f t) < 2 ^ 32 \<and> parse (f t) = Inr t"
  shows "read_txs parse (pre @ concat (map (\<lambda>t. framed (f t)) ts)) (length pre) = Inr ts"
  using assms
proof (induction ts arbitrary: pre)
  case Nil
  then show ?case by (simp add: read_txs.simps)
next
  case (Cons t ts)
  let ?data = "pre @ framed (f t) @ concat (map (\<lambda>t. framed (f t)) ts)"
  have l: "length (f t) < 2 ^ 32" "parse (f t) = Inr t" using Cons.prems by simp_all
  have u: "u32_at ?data (length pre) = Inr (length (f t))" by (rule u32_at_framed[OF l(1)])
  have "subspan ?data (length pre + 4) (length (f t)) = Inr (f t)"
    using subspan_mid[of "pre @ uint32ToBytes (length (f t))" "length pre + 4" "f t" "length (f t)"]
    by (simp add: framed_def)
  moreover have "read_txs parse ?data (length pre + 4 + length (f t)) = Inr ts"
    using Cons.IH[of "pre @ framed (f t)"] Cons.prems by (simp add: add.commute add.left_commute)
  ultimately show ?case
    using u l by (subst read_txs.simps) simp
qed

section \<open>Properties\<close>

lemma bare_request_built:
  "length rid = 8 \<Longrightarrow> bind_r (build_message Requesting rid cmd []) (bare_request cmd) = Inr True"
  using build_message_parts[of Requesting rid cmd "[]"] by (auto simp: bare_request_def)

lemma read_info_payload:
  assumes "msg_body m = Inr (info_payload v t l)" "v < 2 ^ 64" "t < 2 ^ 64" "nHeight l < 2 ^ 64" "length (block_hash l) = 32"
  shows "read_info m = Inr \<lparr>nodeVersion = v, currentTimestamp = t, latestBlockHeight = nHeight l, latestBlockHash = block_hash l\<rparr>"
proof -
  let ?d = "info_payload v t l"
  have "u64_at ?d 0 = Inr v" "u64_at ?d 8 = Inr t" "u64_at ?d 16 = Inr (nHeight l)"
    using u64_at_image[of "[]" 0 v "uint64ToBytes t @ uint64ToBytes (nHeight l) @ block_hash l"]
      u64_at_image[of "uint64ToBytes v" 8 t "uint64ToBytes (nHeight l) @ block_hash l"]
      u64_at_image[of "uint64ToBytes v @ uint64ToBytes t" 16 "nHeight l" "block_hash l"] assms
    by (simp_all add: info_payload_def)
  moreover have "subspan ?d 24 32 = Inr (block_hash l)"
    using subspan_mid[of "uint64ToBytes v @ uint64ToBytes t @ uint64ToBytes (nHeight l)" 24 "block_hash l" 32 "[]"] assms(5)
    by (simp add: info_payload_def)
  ultimately show ?thesis using assms(1) by (simp add: read_info_def)
qed

lemma length_info_payload: "length (block_hash l) = 32 \<Longrightarrow> length (info_payload v t l) = 56"
  by (simp add: info_payload_def)

lemma framed_values:
  "concat (map (\<lambda>(_, tx). framed (g tx)) xs) = concat (map (\<lambda>t. framed (g t)) (map snd xs))"
  by (induction xs) auto

text \<open>An answer carries the identifier of its request and is what its decoder expects.\<close>

lemma answer_built:
  assumes "length rid = 8"
  shows "\<exists>m. bind_r (build_message Requesting rid cmd q) (\<lambda>r. bind_r (msg_id r) (\<lambda>i. build_message Answering i cmd pl)) = Inr m
    \<and> expect_answer cmd m = Inr () \<and> msg_id m = Inr rid \<and> msg_body m = Inr pl \<and> length m = 11 + length pl
    \<and> msg_type m = Inr Answering \<and> msg_command m = Inr cmd"
  using build_message_parts[of Requesting rid cmd q] build_message_parts[of Answering rid cmd pl] assms
  by (auto simp: expect_answer_def)

text \<open>
  Claim C13. Every request is recognised by its decoder, and every answer that is built for a request is
  read back as what was sent: the state of the node, the nodes with their addresses, ports and
  types, and the transactions of the two mempools in their order. The nodes are well formed and
  distinct, and the transactions survive their own serialization and parsing.
\<close>
theorem p2p_messages_roundtrip:
  assumes "length rid = 8" "v < 2 ^ 64" "t < 2 ^ 64" "nHeight l < 2 ^ 64" "length (block_hash l) = 32"
    and "\<forall>x\<in>set nodes. node_ok x" "distinct (map fst nodes)"
    and "\<forall>(h, tx)\<in>set vtxs. length (TxValidator_rlpSerialize True tx) < 2 ^ 32
           \<and> TxValidator_parse c junk (TxValidator_rlpSerialize True tx) = Inr tx"
    and "\<forall>(h, tx)\<in>set btxs. length (TxBlock_rlpSerialize True tx) < 2 ^ 32
           \<and> TxBlock_parse c (TxBlock_rlpSerialize True tx) = Inr tx"
  shows "bind_r (RequestEncoder_ping rid) RequestDecoder_ping = Inr True
    \<and> bind_r (RequestEncoder_requestNodes rid) RequestDecoder_requestNodes = Inr True
    \<and> bind_r (RequestEncoder_requestValidatorTxs rid) RequestDecoder_requestValidatorTxs = Inr True
    \<and> bind_r (RequestEncoder_requestTxs rid) RequestDecoder_requestTxs = Inr True
    \<and> bind_r (RequestEncoder_info rid v t l) RequestDecoder_info =
        Inr \<lparr>nodeVersion = v, currentTimestamp = t, latestBlockHeight = nHeight l, latestBlockHash = block_hash l\<rparr>
    \<and> bind_r (bind_r (RequestEncoder_ping rid) AnswerEncoder_ping) AnswerDecoder_ping = Inr True
    \<and> bind_r (bind_r (RequestEncoder_info rid v t l) (\<lambda>q. AnswerEncoder_info q v t l)) AnswerDecoder_info =
        Inr \<lparr>nodeVersion = v, currentTimestamp = t, latestBlockHeight = nHeight l, latestBlockHash = block_hash l\<rparr>
    \<and> bind_r (bind_r (RequestEncoder_requestNodes rid) (\<lambda>q. AnswerEncoder_requestNodes q nodes)) AnswerDecoder_requestNodes
        = Inr nodes
    \<and> bind_r (bind_r (RequestEncoder_requestValidatorTxs rid) (\<lambda>q. AnswerEncoder_requestValidatorTxs q vtxs))
        (AnswerDecoder_requestValidatorTxs c junk) = Inr (map snd vtxs)
    \<and> bind_r (bind_r (RequestEncoder_requestTxs rid) (\<lambda>q. AnswerEncoder_requestTxs q btxs)) (AnswerDecoder_requestTxs c)
        = Inr (map snd btxs)"
proof (intro conjI)
  note defs = RequestEncoder_ping_def RequestEncoder_info_def RequestEncoder_requestNodes_def
    RequestEncoder_requestValidatorTxs_def RequestEncoder_requestTxs_def RequestDecoder_ping_def
    RequestDecoder_requestNodes_def RequestDecoder_requestValidatorTxs_def RequestDecoder_requestTxs_def
    AnswerEncoder_ping_def[abs_def] AnswerEncoder_info_def AnswerEncoder_requestNodes_def
    AnswerEncoder_requestValidatorTxs_def AnswerEncoder_requestTxs_def
  note info = read_info_payload[OF _ assms(2-5)] and len = length_info_payload[OF assms(5)]
  show "bind_r (RequestEncoder_ping rid) RequestDecoder_ping = Inr True"
    "bind_r (RequestEncoder_requestNodes rid) RequestDecoder_requestNodes = Inr True"
    "bind_r (RequestEncoder_requestValidatorTxs rid) RequestDecoder_requestValidatorTxs = Inr True"
    "bind_r (RequestEncoder_requestTxs rid) RequestDecoder_requestTxs = Inr True"
    unfolding defs by (rule bare_request_built[OF assms(1)])+
  show "bind_r (RequestEncoder_info rid v t l) RequestDecoder_info =
      Inr \<lparr>nodeVersion = v, currentTimestamp = t, latestBlockHeight = nHeight l, latestBlockHash = block_hash l\<rparr>"
    using build_message_parts[of Requesting rid Info "info_payload v t l"] assms(1) info len
    by (auto simp: defs RequestDecoder_info_def)
  show "bind_r (bind_r (RequestEncoder_ping rid) AnswerEncoder_ping) AnswerDecoder_ping = Inr True"
    using answer_built[OF assms(1), of Ping "[]" "[]"] by (auto simp: defs AnswerDecoder_ping_def)
  show "bind_r (bind_r (RequestEncoder_info rid v t l) (\<lambda>q. AnswerEncoder_info q v t l)) AnswerDecoder_info =
      Inr \<lparr>nodeVersion = v, currentTimestamp = t, latestBlockHeight = nHeight l, latestBlockHash = block_hash l\<rparr>"
    using answer_built[OF assms(1), of Info "info_payload v t l" "info_payload v t l"] info
    by (auto simp: defs AnswerDecoder_info_def)
  show "bind_r (bind_r (RequestEncoder_requestNodes rid) (\<lambda>q. AnswerEncoder_requestNodes q nodes)) AnswerDecoder_requestNodes
      = Inr nodes"
    using answer_built[OF assms(1), of RequestNodes "[]" "concat (map encode_node nodes)"]
      read_nodes_encoded[OF assms(6), of "[]" "[]"] collect_nodes_distinct[of "[]" nodes] assms(7)
    by (auto simp: defs AnswerDecoder_requestNodes_def)
  have ok: "\<forall>t\<in>set (map snd vtxs). length (TxValidator_rlpSerialize True t) < 2 ^ 32 \<and> TxValidator_parse c junk (TxValidator_rlpSerialize True t) = Inr t" using assms(8) by auto
  have read_vtxs: "read_txs (TxValidator_parse c junk) (concat (map (\<lambda>t. framed (TxValidator_rlpSerialize True t)) (map snd vtxs))) 0 = Inr (map snd vtxs)"
    using read_txs_framed[OF ok, of "[]"] by (simp only: append_Nil list.size)
  show "bind_r (bind_r (RequestEncoder_requestValidatorTxs rid) (\<lambda>q. AnswerEncoder_requestValidatorTxs q vtxs))
      (AnswerDecoder_requestValidatorTxs c junk) = Inr (map snd vtxs)"
    using answer_built[OF assms(1), of RequestValidatorTxs "[]"
        "concat (map (\<lambda>(_, tx). framed (TxValidator_rlpSerialize True tx)) vtxs)"]
      read_vtxs
    unfolding defs framed_values by (auto simp: AnswerDecoder_requestValidatorTxs_def simp del: map_map)
  have ok: "\<forall>t\<in>set (map snd btxs). length (TxBlock_rlpSerialize True t) < 2 ^ 32 \<and> TxBlock_parse c (TxBlock_rlpSerialize True t) = Inr t" using assms(9) by auto
  have read_btxs: "read_txs (TxBlock_parse c) (concat (map (\<lambda>t. framed (TxBlock_rlpSerialize True t)) (map snd btxs))) 0 = Inr (map snd btxs)"
    using read_txs_framed[OF ok, of "[]"] by (simp only: append_Nil list.size)
  show "bind_r (bind_r (RequestEncoder_requestTxs rid) (\<lambda>q. AnswerEncoder_requestTxs q btxs)) (AnswerDecoder_requestTxs c)
      = Inr (map snd btxs)"
    using answer_built[OF assms(1), of RequestTxs "[]" "concat (map (\<lambda>(_, tx). framed (TxBlock_rlpSerialize True tx)) btxs)"]
      read_btxs
    unfolding defs framed_values by (auto simp: AnswerDecoder_requestTxs_def simp del: map_map)
qed

theorem p2p_messages_roundtrip_witness:
  "bind_r (bind_r (RequestEncoder_requestNodes (replicate 8 1))
      (\<lambda>q. AnswerEncoder_requestNodes q [((V4 [127, 0, 0, 1], 8080), NORMAL_NODE), ((V6 (replicate 16 2) 0, 9090), DISCOVERY_NODE)]))
      AnswerDecoder_requestNodes
    = Inr [((V4 [127, 0, 0, 1], 8080), NORMAL_NODE), ((V6 (replicate 16 2) 0, 9090), DISCOVERY_NODE)]"
proof -
  let ?nodes = "[((V4 [127, 0, 0, 1], 8080), NORMAL_NODE), ((V6 (replicate 16 2) 0, 9090), DISCOVERY_NODE)]"
  have "\<forall>x\<in>set ?nodes. node_ok x" "distinct (map fst ?nodes)" by (simp_all add: node_ok_def)
  then show ?thesis
    using p2p_messages_roundtrip[of "replicate 8 1" 1 1 sample_block ?nodes "[]" sample_crypto 0 "[]"]
    by (simp add: sample_block_def)
qed

text \<open>
  A message that is accepted as the answer to a request for nodes is the encoding of a list of
  well-formed nodes and nothing else, and the result is that list without repeated addresses:
  a node that is named twice keeps its first type.
\<close>
theorem p2p_nodes_answer_iff:
  "AnswerDecoder_requestNodes m = Inr ns \<longleftrightarrow>
    (\<exists>rid xs. length rid = 8 \<and> list_all node_ok xs
       \<and> build_message Answering rid RequestNodes (concat (map encode_node xs)) = Inr m
       \<and> ns = collect_nodes xs [])"
proof
  assume "AnswerDecoder_requestNodes m = Inr ns"
  then obtain d where e: "expect_answer RequestNodes m = Inr ()" "msg_body m = Inr d" "read_nodes d 0 [] = Inr ns"
    by (auto simp: AnswerDecoder_requestNodes_def bind_r_eq_Inr)
  then have tc: "msg_type m = Inr Answering" "msg_command m = Inr RequestNodes"
    by (auto simp: expect_answer_def bind_r_eq_Inr split: if_splits)
  have "11 \<le> length m" using e(2) by (simp add: msg_body_def split: if_splits)
  then obtain rid where rid: "msg_id m = Inr rid" "length rid = 8" by (simp add: msg_id_def subspan_def)
  obtain xs where "\<forall>x\<in>set xs. node_ok x" "d = concat (map encode_node xs)" "ns = collect_nodes xs []"
    using read_nodes_sound[OF e(3)] by auto
  then show "\<exists>rid xs. length rid = 8 \<and> list_all node_ok xs
       \<and> build_message Answering rid RequestNodes (concat (map encode_node xs)) = Inr m \<and> ns = collect_nodes xs []"
    using build_message_unique[OF _ tc(1) rid(1) tc(2) e(2)] rid(2) by (auto simp: list_all_iff)
next
  assume "\<exists>rid xs. length rid = 8 \<and> list_all node_ok xs
       \<and> build_message Answering rid RequestNodes (concat (map encode_node xs)) = Inr m \<and> ns = collect_nodes xs []"
  then obtain rid xs where r: "length rid = 8" "\<forall>x\<in>set xs. node_ok x"
    "build_message Answering rid RequestNodes (concat (map encode_node xs)) = Inr m" "ns = collect_nodes xs []"
    by (auto simp: list_all_iff)
  then show "AnswerDecoder_requestNodes m = Inr ns"
    using build_message_parts[of Answering rid RequestNodes "concat (map encode_node xs)"] read_nodes_encoded[OF r(2), of "[]" "[]"]
    by (auto simp: AnswerDecoder_requestNodes_def expect_answer_def)
qed

lemma open_broadcast_iff: "open_broadcast cmd m = Inr pl \<longleftrightarrow> broadcast_message cmd pl = Inr m"
proof
  assume "open_broadcast cmd m = Inr pl"
  then obtain i n where o: "msg_type m = Inr Broadcasting" "msg_id m = Inr i" "bytesToUint64 i = Inr n"
    "msg_body m = Inr pl" "n = unat (FNVHash pl)" "msg_command m = Inr cmd"
    by (auto simp: open_broadcast_def bind_r_eq_Inr split: if_splits)
  have "i = uint64ToBytes (unat (FNVHash pl))"
    using o(3,5) be_val_less[of i] by (intro be_val_inj) (auto simp: bytesToUint64_eq be_val_uint64ToBytes split: if_splits)
  then show "broadcast_message cmd pl = Inr m"
    using build_message_unique[OF _ o(1,2,6,4)] by (simp add: broadcast_message_def)
next
  assume b: "broadcast_message cmd pl = Inr m"
  have "unat (FNVHash pl) < 2 ^ 64" using unsigned_less[of "FNVHash pl", where ?'a = nat] by simp
  then have "bytesToUint64 (uint64ToBytes (unat (FNVHash pl))) = Inr (unat (FNVHash pl))"
    by (intro uint64_roundtrip) simp
  then show "open_broadcast cmd m = Inr pl"
    using b build_message_parts[of Broadcasting "uint64ToBytes (unat (FNVHash pl))" cmd pl]
    by (auto simp: broadcast_message_def open_broadcast_def)
qed

text \<open>
  A broadcast is accepted exactly when it is the message that a node makes of some payload,
  with the hash of this payload as its identifier, and the payload is accepted by the parser
  of its kind. So two different accepted messages have different payloads or different
  commands, and a transaction or block that survives its own encoding survives the broadcast.
\<close>
theorem p2p_broadcast_iff:
  "(BroadcastDecoder_broadcastTx c m = Inr tx \<longleftrightarrow>
      (\<exists>pl. broadcast_message BroadcastTx pl = Inr m \<and> TxBlock_parse c pl = Inr tx))
   \<and> (BroadcastDecoder_broadcastValidatorTx c junk m = Inr vtx \<longleftrightarrow>
      (\<exists>pl. broadcast_message BroadcastValidatorTx pl = Inr m \<and> TxValidator_parse c junk pl = Inr vtx))
   \<and> (BroadcastDecoder_broadcastBlock c junk m = Inr b \<longleftrightarrow>
      (\<exists>pl. broadcast_message BroadcastBlock pl = Inr m \<and> Block_parse c junk pl = Inr b))
   \<and> (bind_r (BroadcastEncoder_broadcastTx tx) (BroadcastDecoder_broadcastTx c) = TxBlock_parse c (TxBlock_rlpSerialize True tx))
   \<and> (bind_r (BroadcastEncoder_broadcastValidatorTx vtx) (BroadcastDecoder_broadcastValidatorTx c junk)
        = TxValidator_parse c junk (TxValidator_rlpSerialize True vtx))
   \<and> (bind_r (BroadcastEncoder_broadcastBlock b) (BroadcastDecoder_broadcastBlock c junk) = Block_parse c junk (serializeBlock b))"
proof -
  have ex: "\<exists>m. broadcast_message cmd pl = Inr m" for cmd pl
    using build_message_parts[of Broadcasting "uint64ToBytes (unat (FNVHash pl))" cmd pl] by (auto simp: broadcast_message_def)
  have rt: "bind_r (broadcast_message cmd pl) (\<lambda>m. bind_r (open_broadcast cmd m) f) = f pl" for cmd pl f
  proof -
    obtain m where m: "broadcast_message cmd pl = Inr m" using ex by blast
    then have "open_broadcast cmd m = Inr pl" by (simp add: open_broadcast_iff)
    with m show ?thesis by simp
  qed
  show ?thesis
    by (simp add: BroadcastDecoder_broadcastTx_def[abs_def] BroadcastDecoder_broadcastValidatorTx_def[abs_def] BroadcastDecoder_broadcastBlock_def[abs_def]
        BroadcastEncoder_broadcastTx_def BroadcastEncoder_broadcastValidatorTx_def BroadcastEncoder_broadcastBlock_def
        bind_r_eq_Inr open_broadcast_iff rt)
qed

end
