(* ===== verification/P2p_Session.thy ===== *)
theory P2p_Session
  imports P2p_Encoding "HOL-Library.Sublist"
begin

text \<open>
  A session of the peer-to-peer protocol (\<^verbatim>\<open>src/src/net/p2p/session.cpp\<close>): the handshake, the loop
  that reads framed messages from the socket, and the queue that writes them. Every handler of
  the class is a function on the state of the session; the completions of the asynchronous
  operations, in any order, are the rules of the relation \<open>session_run\<close>.
\<close>

section \<open>Definitions: the state of a session\<close>

text \<open>Which asynchronous operation is under way on the writing side and on the reading side.\<close>

datatype write_phase = NoWrite | HeaderPosted | WritingHeader | WritingMessage | WriteStopped

datatype read_phase = NotRunning | Connecting | SendingHandshake | ReadingHandshake | ReadingHeader
  | ReadingMessage nat | ReadStopped

record session =
  ss_outbound :: bool
  ss_address :: ip_address
  ss_type :: NodeType
  ss_serverPort :: nat
  ss_nodeId :: "node_id option"
  ss_outboundMessage :: "bytes option"
  ss_outboundMessages :: "bytes list"
  ss_outboundHandshake :: bytes
  ss_outboundHeader :: bytes
  ss_doneHandshake :: bool
  ss_write :: write_phase
  ss_read :: read_phase
  ss_closing :: bool
  ss_unregistered :: bool
  ss_out :: bytes
  ss_in :: bytes
  ss_delivered :: "bytes list"

text \<open>
  The last three are the socket: the bytes that have been written to it, those that have
  arrived and are not read yet, and the messages given to \<^verbatim>\<open>asyncHandleMessage\<close>.
\<close>

definition new_session :: "bool \<Rightarrow> ip_address \<Rightarrow> session" where
  "new_session outbound address = \<lparr>ss_outbound = outbound, ss_address = address, ss_type = NORMAL_NODE,
     ss_serverPort = 0, ss_nodeId = None, ss_outboundMessage = None, ss_outboundMessages = [],
     ss_outboundHandshake = [], ss_outboundHeader = [], ss_doneHandshake = False, ss_write = NoWrite,
     ss_read = NotRunning, ss_closing = False, ss_unregistered = False, ss_out = [], ss_in = [], ss_delivered = []\<rparr>"

definition close_session :: "session \<Rightarrow> session" where
  "close_session s = s\<lparr>ss_closing := True\<rparr>"

text \<open>An error that is not the cancellation by \<^verbatim>\<open>close\<close> unregisters and closes the session.\<close>

definition handle_error :: "bool \<Rightarrow> session \<Rightarrow> session" where
  "handle_error canceled s =
     (if canceled then s
      else close_session (if ss_doneHandshake s then s\<lparr>ss_unregistered := True\<rparr> else s))"

section \<open>Definitions: the handshake\<close>

definition write_handshake :: "NodeType \<Rightarrow> nat \<Rightarrow> session \<Rightarrow> session" where
  "write_handshake nodeType serverPort s =
     s\<lparr>ss_outboundHandshake := (if nodeType = NORMAL_NODE then 0x00 else 0x01) # uint16ToBytes serverPort,
       ss_read := SendingHandshake\<rparr>"

definition run_session :: "NodeType \<Rightarrow> nat \<Rightarrow> session \<Rightarrow> session" where
  "run_session nodeType serverPort s =
     (if ss_outbound s then s\<lparr>ss_read := Connecting\<rparr> else write_handshake nodeType serverPort s)"

definition read_handshake :: "session \<Rightarrow> session" where
  "read_handshake s = s\<lparr>ss_read := ReadingHandshake\<rparr>"

definition do_read_header :: "session \<Rightarrow> session" where
  "do_read_header s = s\<lparr>ss_read := ReadingHeader\<rparr>"

text \<open>\<open>registered\<close> is what \<^verbatim>\<open>registerSession\<close> of the manager returns.\<close>

definition finish_handshake :: "bool \<Rightarrow> bytes \<Rightarrow> session \<Rightarrow> session" where
  "finish_handshake registered h s =
     (case bytesToUint16 (drop 1 h) of
        Inl _ \<Rightarrow> s
      | Inr port \<Rightarrow>
          let s = s\<lparr>ss_type := (if h ! 0 = 0 then NORMAL_NODE else DISCOVERY_NODE), ss_serverPort := port,
                ss_doneHandshake := True, ss_nodeId := Some (ss_address s, port)\<rparr> in
          if registered then do_read_header s else close_session (s\<lparr>ss_read := ReadStopped\<rparr>))"

section \<open>Definitions: reading\<close>

definition on_read_header :: "nat \<Rightarrow> bytes \<Rightarrow> session \<Rightarrow> session" where
  "on_read_header maxMessageSize h s =
     (case bytesToUint64 h of
        Inl _ \<Rightarrow> s
      | Inr messageSize \<Rightarrow>
          if messageSize > maxMessageSize then close_session (s\<lparr>ss_read := ReadStopped\<rparr>)
          else s\<lparr>ss_read := ReadingMessage messageSize\<rparr>)"

definition on_read_message :: "bytes \<Rightarrow> session \<Rightarrow> session" where
  "on_read_message m s = do_read_header (s\<lparr>ss_delivered := ss_delivered s @ [m]\<rparr>)"

section \<open>Definitions: writing\<close>

definition do_write_header :: "session \<Rightarrow> session" where
  "do_write_header s =
     (case ss_outboundMessage s of
        None \<Rightarrow> s\<lparr>ss_write := NoWrite\<rparr>
      | Some m \<Rightarrow> s\<lparr>ss_outboundHeader := uint64ToBytes (length m), ss_write := WritingHeader\<rparr>)"

definition do_write_message :: "session \<Rightarrow> session" where
  "do_write_message s = s\<lparr>ss_write := WritingMessage\<rparr>"

definition on_write_header :: "session \<Rightarrow> session" where
  "on_write_header s = do_write_message s"

definition on_write_message :: "session \<Rightarrow> session" where
  "on_write_message s =
     (case ss_outboundMessages s of
        [] \<Rightarrow> s\<lparr>ss_outboundMessage := None, ss_write := NoWrite\<rparr>
      | m # ms \<Rightarrow> do_write_header (s\<lparr>ss_outboundMessage := Some m, ss_outboundMessages := ms\<rparr>))"

definition write_session :: "bytes \<Rightarrow> session \<Rightarrow> session" where
  "write_session m s =
     (if ss_outboundMessage s = None then s\<lparr>ss_outboundMessage := Some m, ss_write := HeaderPosted\<rparr>
      else s\<lparr>ss_outboundMessages := ss_outboundMessages s @ [m]\<rparr>)"

section \<open>Definitions: executions\<close>

text \<open>
  \<open>session_run ws rs s\<close>: the session can be in the state \<open>s\<close> when the manager has asked it to
  write the messages \<open>ws\<close> and the bytes \<open>rs\<close> have arrived. The manager only knows a session
  after its handshake. An asynchronous read or write completes with all its bytes or with an
  error, in which case a part of the buffer may have been written.
\<close>

inductive session_run :: "nat \<Rightarrow> NodeType \<Rightarrow> nat \<Rightarrow> bytes list \<Rightarrow> bytes \<Rightarrow> session \<Rightarrow> bool"
  for maxSize nodeType port where
  start: "session_run maxSize nodeType port [] [] (run_session nodeType port (new_session outbound address))"
| connected: "session_run maxSize nodeType port ws rs s \<Longrightarrow> ss_read s = Connecting \<Longrightarrow>
    session_run maxSize nodeType port ws rs (write_handshake nodeType port s)"
| handshake_sent: "session_run maxSize nodeType port ws rs s \<Longrightarrow> ss_read s = SendingHandshake \<Longrightarrow>
    session_run maxSize nodeType port ws rs (read_handshake (s\<lparr>ss_out := ss_out s @ ss_outboundHandshake s\<rparr>))"
| handshake_read: "session_run maxSize nodeType port ws rs s \<Longrightarrow> ss_read s = ReadingHandshake \<Longrightarrow> 3 \<le> length (ss_in s) \<Longrightarrow>
    session_run maxSize nodeType port ws rs (finish_handshake registered (take 3 (ss_in s)) (s\<lparr>ss_in := drop 3 (ss_in s)\<rparr>))"
| arrive: "session_run maxSize nodeType port ws rs s \<Longrightarrow>
    session_run maxSize nodeType port ws (rs @ bs) (s\<lparr>ss_in := ss_in s @ bs\<rparr>)"
| header_read: "session_run maxSize nodeType port ws rs s \<Longrightarrow> ss_read s = ReadingHeader \<Longrightarrow> 8 \<le> length (ss_in s) \<Longrightarrow>
    session_run maxSize nodeType port ws rs (on_read_header maxSize (take 8 (ss_in s)) (s\<lparr>ss_in := drop 8 (ss_in s)\<rparr>))"
| message_read: "session_run maxSize nodeType port ws rs s \<Longrightarrow> ss_read s = ReadingMessage n \<Longrightarrow> n \<le> length (ss_in s) \<Longrightarrow>
    session_run maxSize nodeType port ws rs (on_read_message (take n (ss_in s)) (s\<lparr>ss_in := drop n (ss_in s)\<rparr>))"
| read_failed: "session_run maxSize nodeType port ws rs s \<Longrightarrow> ss_read s \<noteq> SendingHandshake \<Longrightarrow>
    session_run maxSize nodeType port ws rs (handle_error canceled (s\<lparr>ss_read := ReadStopped\<rparr>))"
| handshake_failed: "session_run maxSize nodeType port ws rs s \<Longrightarrow> ss_read s = SendingHandshake \<Longrightarrow>
    session_run maxSize nodeType port ws rs (handle_error canceled
      (s\<lparr>ss_read := ReadStopped, ss_out := ss_out s @ take k (ss_outboundHandshake s)\<rparr>))"
| written: "session_run maxSize nodeType port ws rs s \<Longrightarrow> ss_doneHandshake s \<Longrightarrow>
    session_run maxSize nodeType port (ws @ [m]) rs (write_session m s)"
| posted: "session_run maxSize nodeType port ws rs s \<Longrightarrow> ss_write s = HeaderPosted \<Longrightarrow>
    session_run maxSize nodeType port ws rs (do_write_header s)"
| header_written: "session_run maxSize nodeType port ws rs s \<Longrightarrow> ss_write s = WritingHeader \<Longrightarrow>
    session_run maxSize nodeType port ws rs (on_write_header (s\<lparr>ss_out := ss_out s @ ss_outboundHeader s\<rparr>))"
| message_written: "session_run maxSize nodeType port ws rs s \<Longrightarrow> ss_write s = WritingMessage \<Longrightarrow> ss_outboundMessage s = Some m \<Longrightarrow>
    session_run maxSize nodeType port ws rs (on_write_message (s\<lparr>ss_out := ss_out s @ m\<rparr>))"
| header_failed: "session_run maxSize nodeType port ws rs s \<Longrightarrow> ss_write s = WritingHeader \<Longrightarrow>
    session_run maxSize nodeType port ws rs (handle_error canceled
      (s\<lparr>ss_write := WriteStopped, ss_out := ss_out s @ take k (ss_outboundHeader s)\<rparr>))"
| message_failed: "session_run maxSize nodeType port ws rs s \<Longrightarrow> ss_write s = WritingMessage \<Longrightarrow> ss_outboundMessage s = Some m \<Longrightarrow>
    session_run maxSize nodeType port ws rs (handle_error canceled
      (s\<lparr>ss_write := WriteStopped, ss_out := ss_out s @ take k m\<rparr>))"
| close: "session_run maxSize nodeType port ws rs s \<Longrightarrow> session_run maxSize nodeType port ws rs (close_session s)"

section \<open>Lemmas: the writing side\<close>

definition wire_frame :: "bytes \<Rightarrow> bytes" where
  "wire_frame m = uint64ToBytes (length m) @ m"

abbreviation wire_frames :: "bytes list \<Rightarrow> bytes" where
  "wire_frames ms \<equiv> concat (map wire_frame ms)"

definition handshake_bytes :: "NodeType \<Rightarrow> nat \<Rightarrow> bytes" where
  "handshake_bytes nodeType port = (if nodeType = NORMAL_NODE then 0x00 else 0x01) # uint16ToBytes port"

text \<open>What is still to be written: the rest of the current message and the queue.\<close>

definition pending :: "session \<Rightarrow> bytes" where
  "pending s = (case ss_outboundMessage s of None \<Rightarrow> [] | Some m \<Rightarrow> if ss_write s = WritingMessage then m else wire_frame m)
     @ wire_frames (ss_outboundMessages s)"

definition before_handshake :: "session \<Rightarrow> bool" where
  "before_handshake s \<longleftrightarrow> ss_read s \<in> {NotRunning, Connecting, SendingHandshake, ReadingHandshake}"

definition out_early :: "NodeType \<Rightarrow> nat \<Rightarrow> bytes list \<Rightarrow> session \<Rightarrow> bool" where
  "out_early nodeType port ws s \<longleftrightarrow>
     ws = [] \<and> ss_outboundMessage s = None \<and> ss_outboundMessages s = [] \<and> ss_write s = NoWrite
     \<and> prefix (ss_out s) (handshake_bytes nodeType port)
     \<and> (ss_read s = Connecting \<longrightarrow> ss_out s = [])
     \<and> (ss_read s = SendingHandshake \<longrightarrow> ss_out s = [] \<and> ss_outboundHandshake s = handshake_bytes nodeType port)
     \<and> (ss_read s = ReadingHandshake \<longrightarrow> ss_out s = handshake_bytes nodeType port)
     \<and> (before_handshake s \<or> ss_read s = ReadStopped)"

definition out_late :: "NodeType \<Rightarrow> nat \<Rightarrow> bytes list \<Rightarrow> session \<Rightarrow> bool" where
  "out_late nodeType port ws s \<longleftrightarrow>
     \<not> before_handshake s \<and> (ss_write s = NoWrite \<longleftrightarrow> ss_outboundMessage s = None)
     \<and> (ss_outboundMessage s = None \<longrightarrow> ss_outboundMessages s = [])
     \<and> (\<forall>m. ss_write s = WritingHeader \<longrightarrow> ss_outboundMessage s = Some m \<longrightarrow> ss_outboundHeader s = uint64ToBytes (length m))
     \<and> (ss_write s \<noteq> WriteStopped \<longrightarrow> ss_out s @ pending s = handshake_bytes nodeType port @ wire_frames ws)
     \<and> prefix (ss_out s) (handshake_bytes nodeType port @ wire_frames ws)"

definition out_inv :: "NodeType \<Rightarrow> nat \<Rightarrow> bytes list \<Rightarrow> session \<Rightarrow> bool" where
  "out_inv nodeType port ws s \<longleftrightarrow>
     (if ss_doneHandshake s then out_late nodeType port ws s else out_early nodeType port ws s)"

lemmas session_defs = close_session_def handle_error_def write_handshake_def run_session_def read_handshake_def
  do_read_header_def on_read_header_def on_read_message_def do_write_header_def do_write_message_def on_write_header_def
  on_write_message_def write_session_def new_session_def

lemma pending_frame [simp]:
  "pending (s\<lparr>ss_in := x1\<rparr>) = pending s" "pending (s\<lparr>ss_read := x2\<rparr>) = pending s"
  "pending (s\<lparr>ss_closing := x3\<rparr>) = pending s" "pending (s\<lparr>ss_unregistered := x4\<rparr>) = pending s"
  "pending (s\<lparr>ss_delivered := x5\<rparr>) = pending s" "pending (s\<lparr>ss_type := x6\<rparr>) = pending s"
  "pending (s\<lparr>ss_serverPort := x7\<rparr>) = pending s" "pending (s\<lparr>ss_doneHandshake := x8\<rparr>) = pending s"
  "pending (s\<lparr>ss_nodeId := x9\<rparr>) = pending s"
  by (simp_all add: pending_def split: option.split)

lemma take_frame_prefix: "prefix (xs @ take k ys) (xs @ ys @ zs)"
  by (simp add: take_is_prefix prefix_prefix)

lemma finish_handshake_eq:
  assumes "length h = 3"
  shows "\<exists>port. bytesToUint16 (drop 1 h) = Inr port \<and> finish_handshake registered h s =
    (let s = s\<lparr>ss_type := (if h ! 0 = 0 then NORMAL_NODE else DISCOVERY_NODE), ss_serverPort := port,
           ss_doneHandshake := True, ss_nodeId := Some (ss_address s, port)\<rparr> in
     if registered then do_read_header s else close_session (s\<lparr>ss_read := ReadStopped\<rparr>))"
  using assms by (simp add: finish_handshake_def bytesToUint16_eq)

lemma out_inv_write:
  assumes "out_late nodeType port ws s"
  shows "out_late nodeType port (ws @ [m]) (write_session m s)"
proof -
  have pre: "prefix (ss_out s) ((handshake_bytes nodeType port @ wire_frames ws) @ wire_frame m)"
    by (rule prefix_prefix) (use assms in \<open>simp add: out_late_def\<close>)
  show ?thesis
  proof (cases "ss_outboundMessage s")
    case None
    then show ?thesis
      using assms pre by (auto simp: out_late_def write_session_def before_handshake_def pending_def)
  next
    case (Some x)
    have "pending (write_session m s) = pending s @ wire_frame m" using Some by (simp add: write_session_def pending_def)
    moreover have "ss_out s @ pending s @ wire_frame m = handshake_bytes nodeType port @ wire_frames ws @ wire_frame m"
      if "ss_write s \<noteq> WriteStopped" using assms that by (simp add: out_late_def flip: append_assoc)
    ultimately show ?thesis
      using Some assms pre by (auto simp: out_late_def write_session_def before_handshake_def)
  qed
qed

lemma out_inv_message:
  assumes "out_late nodeType port ws s" "ss_write s = WritingMessage" "ss_outboundMessage s = Some m"
  shows "out_late nodeType port ws (on_write_message (s\<lparr>ss_out := ss_out s @ m\<rparr>))"
proof -
  have eq: "ss_out s @ m @ wire_frames (ss_outboundMessages s) = handshake_bytes nodeType port @ wire_frames ws"
    using assms by (simp add: out_late_def pending_def)
  have pre: "prefix (ss_out s @ m) (handshake_bytes nodeType port @ wire_frames ws)"
    unfolding eq[symmetric] by simp
  show ?thesis
  proof (cases "ss_outboundMessages s")
    case Nil
    then show ?thesis using assms eq pre by (simp add: out_late_def session_defs before_handshake_def pending_def)
  next
    case (Cons x xs)
    then show ?thesis using assms eq pre by (simp add: out_late_def session_defs before_handshake_def pending_def)
  qed
qed

lemma out_inv_header:
  assumes "out_late nodeType port ws s" "ss_write s = WritingHeader"
  shows "out_late nodeType port ws (on_write_header (s\<lparr>ss_out := ss_out s @ ss_outboundHeader s\<rparr>))"
    "out_late nodeType port ws (handle_error canceled (s\<lparr>ss_write := WriteStopped, ss_out := ss_out s @ take k (ss_outboundHeader s)\<rparr>))"
proof -
  obtain m where m: "ss_outboundMessage s = Some m" "ss_outboundHeader s = uint64ToBytes (length m)"
    using assms by (cases "ss_outboundMessage s") (auto simp: out_late_def)
  have eq: "ss_out s @ uint64ToBytes (length m) @ m @ wire_frames (ss_outboundMessages s)
      = handshake_bytes nodeType port @ wire_frames ws"
    using assms m by (simp add: out_late_def pending_def wire_frame_def)
  have pre: "prefix (ss_out s @ uint64ToBytes (length m)) (handshake_bytes nodeType port @ wire_frames ws)"
    "prefix (ss_out s @ take k (uint64ToBytes (length m))) (handshake_bytes nodeType port @ wire_frames ws)"
    unfolding eq[symmetric] using take_frame_prefix by simp_all
  show "out_late nodeType port ws (on_write_header (s\<lparr>ss_out := ss_out s @ ss_outboundHeader s\<rparr>))"
    using assms m eq pre by (simp add: out_late_def session_defs before_handshake_def pending_def)
  show "out_late nodeType port ws (handle_error canceled (s\<lparr>ss_write := WriteStopped, ss_out := ss_out s @ take k (ss_outboundHeader s)\<rparr>))"
    using assms m pre by (simp add: out_late_def session_defs before_handshake_def)
qed

lemma out_inv_message_failed:
  assumes "out_late nodeType port ws s" "ss_write s = WritingMessage" "ss_outboundMessage s = Some m"
  shows "out_late nodeType port ws (handle_error canceled (s\<lparr>ss_write := WriteStopped, ss_out := ss_out s @ take k m\<rparr>))"
proof -
  have eq: "ss_out s @ m @ wire_frames (ss_outboundMessages s) = handshake_bytes nodeType port @ wire_frames ws"
    using assms by (simp add: out_late_def pending_def)
  have "prefix (ss_out s @ take k m) (handshake_bytes nodeType port @ wire_frames ws)"
    unfolding eq[symmetric] by (rule take_frame_prefix)
  then show ?thesis using assms by (simp add: out_late_def session_defs before_handshake_def)
qed

lemma out_inv_posted:
  "out_late nodeType port ws s \<Longrightarrow> ss_write s = HeaderPosted \<Longrightarrow> out_late nodeType port ws (do_write_header s)"
  by (cases "ss_outboundMessage s") (auto simp: out_late_def session_defs before_handshake_def pending_def)

lemma out_inv_finish:
  assumes "out_early nodeType port ws s" "ss_read s = ReadingHandshake" "length h = 3"
  shows "out_inv nodeType port ws (finish_handshake registered h (s\<lparr>ss_in := bs\<rparr>))"
proof -
  obtain q where q: "finish_handshake registered h (s\<lparr>ss_in := bs\<rparr>) =
    (let s = s\<lparr>ss_in := bs, ss_type := (if h ! 0 = 0 then NORMAL_NODE else DISCOVERY_NODE), ss_serverPort := q,
           ss_doneHandshake := True, ss_nodeId := Some (ss_address s, q)\<rparr> in
     if registered then do_read_header s else close_session (s\<lparr>ss_read := ReadStopped\<rparr>))"
    using finish_handshake_eq[OF assms(3), of registered "s\<lparr>ss_in := bs\<rparr>"] by auto
  show ?thesis
    using assms unfolding q Let_def
    by (cases registered)
      (simp_all add: out_inv_def out_early_def out_late_def do_read_header_def close_session_def before_handshake_def pending_def)
qed

lemma out_early_quiet: "out_early nodeType port ws s \<Longrightarrow> ss_write s = NoWrite"
  by (simp add: out_early_def)

lemma session_run_out: "session_run maxSize nodeType port ws rs s \<Longrightarrow> out_inv nodeType port ws s"
proof (induction rule: session_run.induct)
  case (start outbound address)
  then show ?case by (auto simp: out_inv_def out_early_def session_defs before_handshake_def handshake_bytes_def)
next
  case (connected ws rs s)
  then show ?case by (auto simp: out_inv_def out_early_def out_late_def session_defs before_handshake_def handshake_bytes_def split: if_splits)
next
  case (handshake_sent ws rs s)
  then show ?case by (auto simp: out_inv_def out_early_def out_late_def session_defs before_handshake_def split: if_splits)
next
  case (handshake_read ws rs s registered)
  then have "out_early nodeType port ws s" by (auto simp: out_inv_def out_late_def before_handshake_def split: if_splits)
  then show ?case using handshake_read(2,3) by (intro out_inv_finish) simp_all
next
  case (arrive ws rs s bs)
  then show ?case by (simp add: out_inv_def out_early_def out_late_def before_handshake_def split: if_splits)
next
  case (header_read ws rs s)
  then show ?case
    by (auto simp: out_inv_def out_early_def out_late_def session_defs before_handshake_def bytesToUint64_eq split: if_splits)
next
  case (message_read ws rs s n)
  then show ?case by (auto simp: out_inv_def out_early_def out_late_def session_defs before_handshake_def split: if_splits)
next
  case (read_failed ws rs s canceled)
  then show ?case by (auto simp: out_inv_def out_early_def out_late_def session_defs before_handshake_def split: if_splits)
next
  case (handshake_failed ws rs s canceled k)
  then show ?case
    by (auto simp: out_inv_def out_early_def out_late_def session_defs before_handshake_def take_is_prefix split: if_splits)
next
  case (written ws rs s m)
  then show ?case using out_inv_write[of nodeType port ws s m] by (simp add: out_inv_def write_session_def)
next
  case (posted ws rs s)
  then show ?case using out_inv_posted out_early_quiet
    by (fastforce simp: out_inv_def do_write_header_def split: option.splits if_splits)
next
  case (header_written ws rs s)
  then have l: "out_late nodeType port ws s" "ss_doneHandshake s" using out_early_quiet by (fastforce simp: out_inv_def split: if_splits)+
  then show ?case using out_inv_header(1)[OF l(1)] header_written(2) by (simp add: out_inv_def session_defs)
next
  case (message_written ws rs s m)
  then have l: "out_late nodeType port ws s" "ss_doneHandshake s" using out_early_quiet by (fastforce simp: out_inv_def split: if_splits)+
  then show ?case using out_inv_message[OF l(1)] message_written(2,3) by (simp add: out_inv_def on_write_message_def do_write_header_def split: list.split)
next
  case (header_failed ws rs s canceled k)
  then have l: "out_late nodeType port ws s" "ss_doneHandshake s" using out_early_quiet by (fastforce simp: out_inv_def split: if_splits)+
  then show ?case using out_inv_header(2)[OF l(1), of canceled k] header_failed(2) by (simp add: out_inv_def handle_error_def close_session_def)
next
  case (message_failed ws rs s m canceled k)
  then have l: "out_late nodeType port ws s" "ss_doneHandshake s" using out_early_quiet by (fastforce simp: out_inv_def split: if_splits)+
  then show ?case using out_inv_message_failed[OF l(1), of m canceled k] message_failed(2,3) by (simp add: out_inv_def handle_error_def close_session_def)
next
  case (close ws rs s)
  then show ?case by (simp add: out_inv_def out_early_def out_late_def session_defs before_handshake_def split: if_splits)
qed

section \<open>Lemmas: the reading side\<close>

text \<open>What has been read of a message that is not delivered yet.\<close>

definition partial_read :: "session \<Rightarrow> bytes" where
  "partial_read s = (case ss_read s of ReadingMessage n \<Rightarrow> uint64ToBytes n | _ \<Rightarrow> [])"

definition in_early :: "bytes \<Rightarrow> session \<Rightarrow> bool" where
  "in_early rs s \<longleftrightarrow> ss_delivered s = [] \<and> (before_handshake s \<or> ss_read s = ReadStopped) \<and> rs = ss_in s"

definition in_late :: "nat \<Rightarrow> bytes \<Rightarrow> session \<Rightarrow> bool" where
  "in_late maxSize rs s \<longleftrightarrow>
     \<not> before_handshake s \<and> 3 \<le> length rs
     \<and> ss_type s = (if rs ! 0 = 0 then NORMAL_NODE else DISCOVERY_NODE)
     \<and> bytesToUint16 (take 2 (drop 1 rs)) = Inr (ss_serverPort s)
     \<and> ss_nodeId s = Some (ss_address s, ss_serverPort s)
     \<and> (\<forall>m\<in>set (ss_delivered s). length m \<le> maxSize)
     \<and> (\<forall>n. ss_read s = ReadingMessage n \<longrightarrow> n \<le> maxSize)
     \<and> (ss_read s \<noteq> ReadStopped \<longrightarrow> drop 3 rs = wire_frames (ss_delivered s) @ partial_read s @ ss_in s)
     \<and> prefix (wire_frames (ss_delivered s)) (drop 3 rs)"

definition in_inv :: "nat \<Rightarrow> bytes \<Rightarrow> session \<Rightarrow> bool" where
  "in_inv maxSize rs s \<longleftrightarrow> (if ss_doneHandshake s then in_late maxSize rs s else in_early rs s)"

lemma in_inv_finish:
  assumes "in_early rs s" "ss_read s = ReadingHandshake" "3 \<le> length (ss_in s)"
  shows "in_inv maxSize rs (finish_handshake registered (take 3 (ss_in s)) (s\<lparr>ss_in := drop 3 (ss_in s)\<rparr>))"
proof -
  have rs: "rs = ss_in s" "ss_delivered s = []" using assms(1) by (simp_all add: in_early_def)
  obtain q where p: "bytesToUint16 (drop 1 (take 3 (ss_in s))) = Inr q" and q: "finish_handshake registered (take 3 (ss_in s)) (s\<lparr>ss_in := drop 3 (ss_in s)\<rparr>) =
    (let s = s\<lparr>ss_in := drop 3 (ss_in s), ss_type := (if take 3 (ss_in s) ! 0 = 0 then NORMAL_NODE else DISCOVERY_NODE), ss_serverPort := q,
           ss_doneHandshake := True, ss_nodeId := Some (ss_address s, q)\<rparr> in
     if registered then do_read_header s else close_session (s\<lparr>ss_read := ReadStopped\<rparr>))"
    using finish_handshake_eq[of "take 3 (ss_in s)" registered "s\<lparr>ss_in := drop 3 (ss_in s)\<rparr>"] assms(3) by auto
  have "drop 1 (take 3 (ss_in s)) = take 2 (drop 1 (ss_in s))" by (simp add: drop_take)
  with p have "bytesToUint16 (take 2 (drop 1 rs)) = Inr q" by (simp add: rs)
  then show ?thesis
    using assms rs unfolding q Let_def
    by (cases registered)
      (simp_all add: in_inv_def in_late_def do_read_header_def close_session_def before_handshake_def partial_read_def)
qed

lemma in_inv_header:
  assumes "in_late maxSize rs s" "ss_read s = ReadingHeader" "8 \<le> length (ss_in s)"
  shows "in_late maxSize rs (on_read_header maxSize (take 8 (ss_in s)) (s\<lparr>ss_in := drop 8 (ss_in s)\<rparr>))"
proof -
  let ?h = "take 8 (ss_in s)"
  have h: "bytesToUint64 ?h = Inr (be_val ?h)" "uint64ToBytes (be_val ?h) = ?h"
    using assms(3) be_val_less[of ?h] by (simp_all add: bytesToUint64_eq) (intro be_val_inj; simp add: be_val_uint64ToBytes)
  have "drop 3 rs = wire_frames (ss_delivered s) @ ?h @ drop 8 (ss_in s)"
    using assms by (simp add: in_late_def partial_read_def)
  with h show ?thesis
    using assms by (auto simp: in_late_def on_read_header_def close_session_def before_handshake_def partial_read_def)
qed

lemma in_inv_message:
  assumes "in_late maxSize rs s" "ss_read s = ReadingMessage n" "n \<le> length (ss_in s)"
  shows "in_late maxSize rs (on_read_message (take n (ss_in s)) (s\<lparr>ss_in := drop n (ss_in s)\<rparr>))"
proof -
  have "drop 3 rs = wire_frames (ss_delivered s) @ uint64ToBytes n @ take n (ss_in s) @ drop n (ss_in s)" "n \<le> maxSize"
    using assms by (simp_all add: in_late_def partial_read_def)
  then show ?thesis
    using assms by (auto simp: in_late_def on_read_message_def do_read_header_def before_handshake_def partial_read_def
        wire_frame_def min_def take_is_prefix)
qed

lemma in_inv_arrive: "in_inv maxSize rs s \<Longrightarrow> in_inv maxSize (rs @ bs) (s\<lparr>ss_in := ss_in s @ bs\<rparr>)"
proof (cases "ss_doneHandshake s")
  case True
  assume "in_inv maxSize rs s"
  then have l: "in_late maxSize rs s" using True by (simp add: in_inv_def)
  then have "take 2 (drop 1 (rs @ bs)) = take 2 (drop 1 rs)" "(rs @ bs) ! 0 = rs ! 0"
    by (auto simp: in_late_def nth_append)
  then show ?thesis
    using l True by (auto simp: in_inv_def in_late_def before_handshake_def partial_read_def intro: prefix_prefix)
next
  case False
  assume "in_inv maxSize rs s"
  then show ?thesis using False by (simp add: in_inv_def in_early_def before_handshake_def)
qed

text \<open>The writing side and the end of a session leave the reading side alone.\<close>

lemma in_inv_frame:
  assumes "in_inv maxSize rs s" "ss_in t = ss_in s" "ss_delivered t = ss_delivered s" "ss_doneHandshake t = ss_doneHandshake s"
    "ss_type t = ss_type s" "ss_serverPort t = ss_serverPort s" "ss_nodeId t = ss_nodeId s" "ss_address t = ss_address s"
    "ss_read t = ss_read s \<or> ss_read t = ReadStopped \<or> before_handshake s \<and> before_handshake t"
  shows "in_inv maxSize rs t"
proof (cases "ss_doneHandshake s")
  case False
  then show ?thesis using assms by (auto simp: in_inv_def in_early_def before_handshake_def)
next
  case True
  then have l: "in_late maxSize rs s" using assms(1) by (simp add: in_inv_def)
  then have "\<not> before_handshake s" by (simp add: in_late_def)
  then consider "ss_read t = ss_read s" | "ss_read t = ReadStopped" using assms(9) by blast
  then show ?thesis
    using l True assms(2-8) by cases (simp_all add: in_inv_def in_late_def before_handshake_def partial_read_def)
qed

lemma session_run_in: "session_run maxSize nodeType port ws rs s \<Longrightarrow> in_inv maxSize rs s"
proof (induction rule: session_run.induct)
  case (start outbound address)
  then show ?case by (simp add: in_inv_def in_early_def session_defs before_handshake_def)
next
  case (handshake_read ws rs s registered)
  then have "in_early rs s" by (auto simp: in_inv_def in_late_def before_handshake_def split: if_splits)
  then show ?case using handshake_read(2,3) by (rule in_inv_finish)
next
  case (arrive ws rs s bs)
  then show ?case by (intro in_inv_arrive)
next
  case (header_read ws rs s)
  then have l: "in_late maxSize rs s" "ss_doneHandshake s" by (auto simp: in_inv_def in_early_def before_handshake_def split: if_splits)
  then show ?case using in_inv_header[OF l(1) header_read(2,3)]
    by (simp add: in_inv_def on_read_header_def bytesToUint64_eq close_session_def split: if_splits)
next
  case (message_read ws rs s n)
  then have l: "in_late maxSize rs s" "ss_doneHandshake s" by (auto simp: in_inv_def in_early_def before_handshake_def split: if_splits)
  then show ?case using in_inv_message[OF l(1) message_read(2,3)] by (simp add: in_inv_def on_read_message_def do_read_header_def)
qed (erule in_inv_frame; simp add: session_defs before_handshake_def split: option.split list.split)+

section \<open>Lemmas: frames\<close>

lemma wire_frame_prefix:
  assumes "prefix (wire_frame d @ x) (wire_frame m @ y)" "length d < 2 ^ 64" "length m < 2 ^ 64"
  shows "d = m \<and> prefix x y"
proof -
  obtain z where z: "uint64ToBytes (length m) @ m @ y = uint64ToBytes (length d) @ d @ x @ z"
    using assms(1) by (auto simp: prefix_def wire_frame_def)
  then have e: "uint64ToBytes (length m) = uint64ToBytes (length d)" "m @ y = d @ x @ z"
    by (metis append_eq_append_conv length_uint64ToBytes)+
  have "bytesToUint64 (uint64ToBytes (length m)) = Inr (length m)" "bytesToUint64 (uint64ToBytes (length d)) = Inr (length d)"
    using assms(2,3) by (intro uint64_roundtrip; simp)+
  with e(1) have "length m = length d" by (metis sum.inject(2))
  then have "m = d" "y = x @ z" using e(2) append_eq_append_conv[of m d y "x @ z"] by blast+
  then show ?thesis by (simp add: prefix_def)
qed

lemma wire_frame_nonempty: "wire_frame d \<noteq> []"
  unfolding wire_frame_def by (metis append_is_Nil_conv length_uint64ToBytes list.size(3) zero_neq_numeral)

lemma wire_frames_prefix:
  assumes "prefix (wire_frames ds) (wire_frames ms)" "\<forall>d\<in>set ds. length d < 2 ^ 64" "\<forall>m\<in>set ms. length m < 2 ^ 64"
  shows "prefix ds ms"
  using assms
proof (induction ds arbitrary: ms)
  case (Cons d ds)
  then obtain m ms' where ms: "ms = m # ms'"
    using wire_frame_nonempty[of d] by (cases ms) auto
  then have "d = m \<and> prefix (wire_frames ds) (wire_frames ms')"
    using Cons.prems wire_frame_prefix[of d "wire_frames ds" m "wire_frames ms'"] by simp
  then show ?case using Cons.IH[of ms'] Cons.prems ms by simp
qed simp

lemma handshake_parts:
  "length (handshake_bytes nodeType port) = 3"
  "(if handshake_bytes nodeType port ! 0 = 0 then NORMAL_NODE else DISCOVERY_NODE) = nodeType"
  "port < 65536 \<Longrightarrow> bytesToUint16 (drop 1 (handshake_bytes nodeType port)) = Inr port"
  by (cases nodeType; simp add: handshake_bytes_def uint16_parts bytesToUint16_eq)+

section \<open>Properties\<close>

text \<open>
  Claim C12. Two sessions that are connected. Whatever the order in which reads and writes complete, and
  whatever fails, what one side has written is a part of its handshake and of the framed
  messages in the order in which the manager gave them; the messages the other side delivers
  are the first of these, whole and in order. When nothing is left to write and everything
  that was written has been read, all of them have been delivered. After the handshake each
  side knows the type and the server port of the other.
\<close>
theorem p2p_session_stream:
  assumes "session_run maxSize nodeType port ws rs s" "session_run maxSize nodeType' port' ws' rs' r"
    and "prefix rs' (ss_out s)" "maxSize < 2 ^ 64" "\<forall>m\<in>set ws. length m < 2 ^ 64" "port < 65536"
  shows "prefix (ss_out s) (handshake_bytes nodeType port @ wire_frames ws)
    \<and> prefix (ss_delivered r) ws
    \<and> (ss_doneHandshake r \<longrightarrow> ss_type r = nodeType \<and> ss_nodeId r = Some (ss_address r, port))
    \<and> (ss_doneHandshake s \<and> ss_write s = NoWrite \<and> rs' = ss_out s \<and> ss_read r = ReadingHeader \<and> ss_in r = []
         \<longrightarrow> ss_delivered r = ws)"
proof -
  let ?h = "handshake_bytes nodeType port"
  have o: "out_inv nodeType port ws s" by (rule session_run_out[OF assms(1)])
  then have p: "prefix (ss_out s) (?h @ wire_frames ws)"
    by (auto simp: out_inv_def out_early_def out_late_def split: if_splits)
  then obtain z where z: "?h @ wire_frames ws = rs' @ z"
    using assms(3) prefix_order.trans by (auto simp: prefix_def)
  have i: "in_inv maxSize rs' r" by (rule session_run_in[OF assms(2)])
  have late: "take 3 rs' = ?h" "prefix (drop 3 rs') (wire_frames ws)" "prefix (wire_frames (ss_delivered r)) (drop 3 rs')"
    if "in_late maxSize rs' r"
  proof -
    have l: "3 \<le> length rs'" and pre: "prefix (wire_frames (ss_delivered r)) (drop 3 rs')" using that by (simp_all add: in_late_def)
    have "take 3 (?h @ wire_frames ws) = take 3 rs'" "drop 3 (?h @ wire_frames ws) = drop 3 rs' @ z" using z l by simp_all
    then show "take 3 rs' = ?h" "prefix (drop 3 rs') (wire_frames ws)" "prefix (wire_frames (ss_delivered r)) (drop 3 rs')"
      using handshake_parts(1)[of nodeType port] pre by simp_all
  qed
  have sizes: "\<forall>m\<in>set (ss_delivered r). length m < 2 ^ 64" if "in_late maxSize rs' r"
    using that assms(4) by (auto simp: in_late_def)
  have d: "prefix (ss_delivered r) ws"
  proof (cases "ss_doneHandshake r")
    case True
    then have l: "in_late maxSize rs' r" using i by (simp add: in_inv_def)
    show ?thesis
      using wire_frames_prefix[OF prefix_order.trans[OF late(3)[OF l] late(2)[OF l]] sizes[OF l] assms(5)] .
  next
    case False
    then show ?thesis using i by (simp add: in_inv_def in_early_def)
  qed
  have k: "ss_type r = nodeType \<and> ss_nodeId r = Some (ss_address r, port)" if "ss_doneHandshake r"
  proof -
    have l: "in_late maxSize rs' r" using i that by (simp add: in_inv_def)
    have t: "take 3 rs' = ?h" by (rule late(1)[OF l])
    then have "rs' ! 0 = ?h ! 0" "take 2 (drop 1 rs') = drop 1 ?h" by (simp_all flip: t add: drop_take)
    then show ?thesis using l handshake_parts(2)[of nodeType port] handshake_parts(3)[OF assms(6), of nodeType] by (simp add: in_late_def)
  qed
  have f: "ss_delivered r = ws"
    if "ss_doneHandshake s" "ss_write s = NoWrite" "rs' = ss_out s" "ss_read r = ReadingHeader" "ss_in r = []"
  proof -
    have l: "in_late maxSize rs' r" using i that(4) by (auto simp: in_inv_def in_early_def before_handshake_def split: if_splits)
    have "ss_out s = ?h @ wire_frames ws" using o that(1,2) by (auto simp: out_inv_def out_late_def pending_def)
    then have "wire_frames ws = wire_frames (ss_delivered r)"
      using l that(3-5) handshake_parts(1)[of nodeType port] by (simp add: in_late_def partial_read_def)
    then have "prefix ws (ss_delivered r)" using wire_frames_prefix[of ws "ss_delivered r"] assms(5) sizes[OF l] by simp
    with d show ?thesis by (rule prefix_order.antisym)
  qed
  show ?thesis using p d k f by blast
qed

text \<open>For the witness, a session up to its handshake with a node at the port 8080.\<close>

definition sample_session :: session where
  "sample_session = (run_session NORMAL_NODE 8080 (new_session False (V4 [127, 0, 0, 1])))
     \<lparr>ss_read := ReadingHeader, ss_doneHandshake := True, ss_type := NORMAL_NODE, ss_serverPort := 8080,
      ss_nodeId := Some (V4 [127, 0, 0, 1], 8080), ss_out := handshake_bytes NORMAL_NODE 8080\<rparr>"

lemma sample_session_run: "session_run 100 NORMAL_NODE 8080 [] (handshake_bytes NORMAL_NODE 8080) sample_session"
proof -
  let ?h = "handshake_bytes NORMAL_NODE 8080" and ?run = "session_run 100 NORMAL_NODE 8080"
  define s0 where "s0 = run_session NORMAL_NODE 8080 (new_session False (V4 [127, 0, 0, 1]))"
  define s1 where "s1 = read_handshake (s0\<lparr>ss_out := ss_out s0 @ ss_outboundHandshake s0\<rparr>)"
  define s2 where "s2 = s1\<lparr>ss_in := ss_in s1 @ ?h\<rparr>"
  have f0: "ss_read s0 = SendingHandshake" "ss_outboundHandshake s0 = ?h" "ss_out s0 = []" "ss_in s0 = []" "ss_address s0 = V4 [127, 0, 0, 1]"
    by (simp_all add: s0_def session_defs handshake_bytes_def)
  have r0: "?run [] [] s0" unfolding s0_def by (rule session_run.start)
  have r1: "?run [] [] s1" unfolding s1_def by (rule session_run.handshake_sent[OF r0]) (simp add: f0)
  have r2: "?run [] ?h s2" using session_run.arrive[OF r1, of ?h] by (simp add: s2_def)
  have f2: "ss_read s2 = ReadingHandshake" "ss_in s2 = ?h" by (simp_all add: s2_def s1_def read_handshake_def f0)
  have r3: "?run [] ?h (finish_handshake True ?h (s2\<lparr>ss_in := []\<rparr>))"
    using session_run.handshake_read[OF r2 f2(1), of True] handshake_parts(1)[of NORMAL_NODE 8080] by (simp add: f2)
  have p: "bytesToUint16 (drop 1 ?h) = Inr 8080" by (rule handshake_parts(3)) simp
  have "finish_handshake True ?h (s2\<lparr>ss_in := []\<rparr>) = sample_session"
    using handshake_parts(2)[of NORMAL_NODE 8080] f0 p
    by (simp add: finish_handshake_def Let_def do_read_header_def s2_def s1_def read_handshake_def sample_session_def
        flip: s0_def)
  with r3 show ?thesis by simp
qed

theorem p2p_session_stream_witness:
  "\<exists>s rs r. session_run 100 NORMAL_NODE 8080 [[1, 2, 3]] rs s \<and> session_run 100 NORMAL_NODE 8080 [] (ss_out s) r
     \<and> ss_delivered r = [[1, 2, 3]]"
proof -
  let ?h = "handshake_bytes NORMAL_NODE 8080" and ?run = "session_run 100 NORMAL_NODE 8080" and ?m = "[1, 2, 3] :: bytes"
  have f: "ss_outboundMessage sample_session = None" "ss_outboundMessages sample_session = []" "ss_doneHandshake sample_session"
    "ss_out sample_session = ?h" "ss_read sample_session = ReadingHeader" "ss_in sample_session = []" "ss_delivered sample_session = []"
    by (simp_all add: sample_session_def session_defs)
  define s1 where "s1 = write_session ?m sample_session"
  define s2 where "s2 = do_write_header s1"
  define s3 where "s3 = on_write_header (s2\<lparr>ss_out := ss_out s2 @ ss_outboundHeader s2\<rparr>)"
  define s4 where "s4 = on_write_message (s3\<lparr>ss_out := ss_out s3 @ ?m\<rparr>)"
  have "?run [?m] ?h s1" using session_run.written[OF sample_session_run f(3), of ?m] by (simp add: s1_def)
  then have "?run [?m] ?h s2" unfolding s2_def by (rule session_run.posted) (simp add: s1_def session_defs f)
  then have "?run [?m] ?h s3" unfolding s3_def by (rule session_run.header_written) (simp add: s2_def s1_def session_defs f)
  then have run_s: "?run [?m] ?h s4" unfolding s4_def
    by (rule session_run.message_written) (simp_all add: s3_def s2_def s1_def session_defs f)
  have s4: "ss_out s4 = ?h @ uint64ToBytes 3 @ ?m" "ss_write s4 = NoWrite" "ss_doneHandshake s4"
    by (simp_all add: s4_def s3_def s2_def s1_def session_defs f numeral_3_eq_3)
  define r1 where "r1 = sample_session\<lparr>ss_in := uint64ToBytes 3 @ ?m\<rparr>"
  define r2 where "r2 = on_read_header 100 (take 8 (ss_in r1)) (r1\<lparr>ss_in := drop 8 (ss_in r1)\<rparr>)"
  define r3 where "r3 = on_read_message (take 3 (ss_in r2)) (r2\<lparr>ss_in := drop 3 (ss_in r2)\<rparr>)"
  have three: "bytesToUint64 (uint64ToBytes 3) = Inr 3" by (rule uint64_roundtrip) simp
  have "?run [] (ss_out s4) r1" using session_run.arrive[OF sample_session_run, of "uint64ToBytes 3 @ ?m"] by (simp add: r1_def s4 f)
  then have "?run [] (ss_out s4) r2" unfolding r2_def by (rule session_run.header_read) (simp_all add: r1_def f)
  then have run_r: "?run [] (ss_out s4) r3" unfolding r3_def
    by (rule session_run.message_read) (simp_all add: r2_def r1_def on_read_header_def three)
  have "ss_read r3 = ReadingHeader" "ss_in r3 = []"
    by (simp_all add: r3_def r2_def r1_def on_read_message_def do_read_header_def on_read_header_def three)
  then have "ss_delivered r3 = [?m]"
    using p2p_session_stream[OF run_s run_r] s4(2,3) by simp
  with run_s run_r show ?thesis by blast
qed

end
