(* ===== verification/P2p_Manager.thy ===== *)
theory P2p_Manager
  imports P2p_Encoding State_Evm
begin

text \<open>
  The connection manager of a node (\<^verbatim>\<open>src/src/net/p2p/managerbase.cpp\<close>, \<^verbatim>\<open>managernormal.cpp\<close>): its
  sessions, the requests it waits for, the broadcasts it has seen, and the handlers of
  incoming messages, which call the state of the chain. What a handler does to a session is
  recorded in a log: the messages written to it, in order, and its closing.
\<close>

section \<open>Definitions: the manager\<close>

record p2p_request =
  rq_command :: CommandType
  rq_id :: bytes
  rq_nodeId :: node_id
  rq_message :: bytes
  rq_answer :: "bytes option"

datatype p2p_effect = Wrote node_id bytes | Closed node_id

record ('c, 'd) manager =
  mg_started :: bool
  mg_sessions :: "(node_id \<times> NodeType) list"
  mg_requests :: "bytes \<Rightarrow> p2p_request option"
  mg_broadcasted :: "nat \<Rightarrow> nat"
  mg_chain :: "('c, 'd) chain_state"
  mg_log :: "p2p_effect list"

text \<open>The database engine, the memory an uninitialised chain id shows, the version and the clock.\<close>

record 'd p2p_env =
  pe_db :: "'d rocksdb"
  pe_junk :: nat
  pe_version :: nat
  pe_epoch :: nat

definition chain_m :: "(('c, 'd) chain_state, 'a) meth \<Rightarrow> (('c, 'd) manager, 'a) meth" where
  "chain_m f g = (case f (mg_chain g) of (r, s) \<Rightarrow> (r, g\<lparr>mg_chain := s\<rparr>))"

definition session_write :: "node_id \<Rightarrow> bytes \<Rightarrow> ('c, 'd) manager \<Rightarrow> ('c, 'd) manager" where
  "session_write n m g = g\<lparr>mg_log := mg_log g @ [Wrote n m]\<rparr>"

section \<open>Definitions: sessions\<close>

definition registerSession :: "node_id \<Rightarrow> NodeType \<Rightarrow> (('c, 'd) manager, bool) meth" where
  "registerSession n t g =
     (if \<not> mg_started g then (Inr False, g)
      else if n \<in> fst ` set (mg_sessions g) then (Inr False, g)
      else (Inr True, g\<lparr>mg_sessions := mg_sessions g @ [(n, t)]\<rparr>))"

definition unregisterSession :: "node_id \<Rightarrow> (('c, 'd) manager, bool) meth" where
  "unregisterSession n g =
     (if \<not> mg_started g then (Inr False, g)
      else if n \<notin> fst ` set (mg_sessions g) then (Inr False, g)
      else (Inr True, g\<lparr>mg_sessions := filter (\<lambda>(k, _). k \<noteq> n) (mg_sessions g)\<rparr>))"

definition disconnectSession :: "node_id \<Rightarrow> (('c, 'd) manager, bool) meth" where
  "disconnectSession n g =
     (if \<not> mg_started g then (Inr False, g)
      else if n \<notin> fst ` set (mg_sessions g) then (Inr False, g)
      else (Inr True, g\<lparr>mg_sessions := filter (\<lambda>(k, _). k \<noteq> n) (mg_sessions g), mg_log := mg_log g @ [Closed n]\<rparr>))"

definition manager_start :: "('c, 'd) manager \<Rightarrow> ('c, 'd) manager" where
  "manager_start g = (if mg_started g then g else g\<lparr>mg_started := True\<rparr>)"

definition manager_stop :: "('c, 'd) manager \<Rightarrow> ('c, 'd) manager" where
  "manager_stop g =
     (if \<not> mg_started g then g
      else g\<lparr>mg_started := False, mg_sessions := [], mg_log := mg_log g @ map (\<lambda>(n, _). Closed n) (mg_sessions g)\<rparr>)"

definition getSessionsIDs :: "('c, 'd) manager \<Rightarrow> node_id list" where
  "getSessionsIDs g = map fst (mg_sessions g)"

definition getSessionsIDs_of :: "NodeType \<Rightarrow> ('c, 'd) manager \<Rightarrow> node_id list" where
  "getSessionsIDs_of t g = map fst (filter (\<lambda>(_, u). u = t) (mg_sessions g))"

section \<open>Definitions: sending\<close>

text \<open>The result is the identifier of the request, or \<open>None\<close> for the null pointer.\<close>

definition sendRequestTo :: "node_id \<Rightarrow> bytes \<Rightarrow> (('c, 'd) manager, bytes option) meth" where
  "sendRequestTo n m g =
     (if \<not> mg_started g then (Inr None, g)
      else case map_of (mg_sessions g) n of
        None \<Rightarrow> (Inr None, g)
      | Some t \<Rightarrow>
          bind_m (lift_m (if t = DISCOVERY_NODE then bind_r (msg_command m) (\<lambda>c. Inr (c = Info \<or> c = RequestValidatorTxs)) else Inr False))
          (\<lambda>refused. if refused then ret_m None
            else bind_m (lift_m (msg_id m)) (\<lambda>i.
              bind_m (lift_m (msg_command m)) (\<lambda>c.
              seq_m (mod_m (\<lambda>g. session_write n m (g\<lparr>mg_requests := (mg_requests g)(i \<mapsto>
                \<lparr>rq_command = c, rq_id = i, rq_nodeId = n, rq_message = m, rq_answer = None\<rparr>)\<rparr>)))
              (ret_m (Some i))))) g)"

definition answerSession :: "node_id \<Rightarrow> bytes \<Rightarrow> (('c, 'd) manager, unit) meth" where
  "answerSession n m g =
     (if \<not> mg_started g \<or> n \<notin> fst ` set (mg_sessions g) then (Inr (), g) else (Inr (), session_write n m g))"

definition broadcastMessage :: "bytes \<Rightarrow> (('c, 'd) manager, unit) meth" where
  "broadcastMessage m g =
     (if \<not> mg_started g then (Inr (), g)
      else bind_m (lift_m (bind_r (msg_id m) bytesToUint64)) (\<lambda>i.
        \<lambda>g. if mg_broadcasted g i > 0 then (Inr (), g)
          else (Inr (), fold (\<lambda>(n, t) g. if t = NORMAL_NODE then session_write n m g else g) (mg_sessions g)
            (g\<lparr>mg_broadcasted := (mg_broadcasted g)(i := mg_broadcasted g i + 1)\<rparr>))) g)"

definition broadcastTxValidator :: "txvalidator \<Rightarrow> (('c, 'd) manager, unit) meth" where
  "broadcastTxValidator tx = bind_m (lift_m (BroadcastEncoder_broadcastValidatorTx tx)) broadcastMessage"

definition broadcastTxBlock :: "txblock \<Rightarrow> (('c, 'd) manager, unit) meth" where
  "broadcastTxBlock tx = bind_m (lift_m (BroadcastEncoder_broadcastTx tx)) broadcastMessage"

definition broadcastBlock :: "block \<Rightarrow> (('c, 'd) manager, unit) meth" where
  "broadcastBlock b = bind_m (lift_m (BroadcastEncoder_broadcastBlock b)) broadcastMessage"

section \<open>Definitions: requests from other nodes\<close>

definition drop_peer :: "node_id \<Rightarrow> (('c, 'd) manager, unit) meth" where
  "drop_peer n = bind_m (disconnectSession n) (\<lambda>_. ret_m ())"

definition handlePingRequest :: "node_id \<Rightarrow> bytes \<Rightarrow> (('c, 'd) manager, unit) meth" where
  "handlePingRequest n m =
     bind_m (lift_m (RequestDecoder_ping m)) (\<lambda>ok.
     if \<not> ok then drop_peer n else bind_m (lift_m (AnswerEncoder_ping m)) (answerSession n))"

definition handleInfoRequest :: "'d p2p_env \<Rightarrow> node_id \<Rightarrow> bytes \<Rightarrow> (('c, 'd) manager, unit) meth" where
  "handleInfoRequest P n m =
     bind_m (lift_m (RequestDecoder_info m)) (\<lambda>_.
     ask_m (\<lambda>g. bind_m (lift_m (latest (cs_storage (mg_chain g)))) (\<lambda>l.
       bind_m (lift_m (AnswerEncoder_info m (pe_version P) (pe_epoch P) l)) (answerSession n))))"

definition handleRequestNodesRequest :: "node_id \<Rightarrow> bytes \<Rightarrow> (('c, 'd) manager, unit) meth" where
  "handleRequestNodesRequest n m =
     bind_m (lift_m (RequestDecoder_requestNodes m)) (\<lambda>ok.
     if \<not> ok then drop_peer n
     else ask_m (\<lambda>g. bind_m (lift_m (AnswerEncoder_requestNodes m (mg_sessions g))) (answerSession n)))"

definition handleTxValidatorRequest :: "node_id \<Rightarrow> bytes \<Rightarrow> (('c, 'd) manager, unit) meth" where
  "handleTxValidatorRequest n m =
     bind_m (lift_m (RequestDecoder_requestValidatorTxs m)) (\<lambda>ok.
     if \<not> ok then drop_peer n
     else ask_m (\<lambda>g. bind_m (lift_m (AnswerEncoder_requestValidatorTxs m (rd_mempool (cs_rdpos (mg_chain g))))) (answerSession n)))"

definition handleTxRequest :: "node_id \<Rightarrow> bytes \<Rightarrow> (('c, 'd) manager, unit) meth" where
  "handleTxRequest n m =
     bind_m (lift_m (RequestDecoder_requestTxs m)) (\<lambda>ok.
     if \<not> ok then drop_peer n
     else ask_m (\<lambda>g. bind_m (lift_m (AnswerEncoder_requestTxs m (cs_mempool (mg_chain g)))) (answerSession n)))"

definition handleRequest :: "'d p2p_env \<Rightarrow> node_id \<Rightarrow> bytes \<Rightarrow> (('c, 'd) manager, unit) meth" where
  "handleRequest P n m =
     bind_m (lift_m (msg_command m)) (\<lambda>c. case c of
       Ping \<Rightarrow> handlePingRequest n m
     | Info \<Rightarrow> handleInfoRequest P n m
     | RequestNodes \<Rightarrow> handleRequestNodesRequest n m
     | RequestValidatorTxs \<Rightarrow> handleTxValidatorRequest n m
     | RequestTxs \<Rightarrow> handleTxRequest n m
     | _ \<Rightarrow> drop_peer n)"

section \<open>Definitions: answers from other nodes\<close>

text \<open>
  \<^verbatim>\<open>Request::setAnswer\<close>: a promise takes one value, a second \<^verbatim>\<open>set_value\<close> throws \<^verbatim>\<open>std::future_error\<close>.
  Requests stay in the map after their answer.
\<close>

definition setAnswer :: "bytes \<Rightarrow> p2p_request \<Rightarrow> bytes \<Rightarrow> (('c, 'd) manager, unit) meth" where
  "setAnswer i r m =
     (if rq_answer r \<noteq> None then throw_m (DynamicException ''Promise already satisfied'')
      else mod_m (\<lambda>g. g\<lparr>mg_requests := (mg_requests g)(i \<mapsto> r\<lparr>rq_answer := Some m\<rparr>)\<rparr>))"

definition accept_answer :: "node_id \<Rightarrow> bytes \<Rightarrow> (('c, 'd) manager, unit) meth" where
  "accept_answer n m =
     bind_m (lift_m (msg_id m)) (\<lambda>i.
     ask_m (\<lambda>g. case mg_requests g i of None \<Rightarrow> drop_peer n | Some r \<Rightarrow> setAnswer i r m))"

definition handlePingAnswer :: "node_id \<Rightarrow> bytes \<Rightarrow> (('c, 'd) manager, unit) meth" where
  "handlePingAnswer = accept_answer"

definition handleInfoAnswer :: "node_id \<Rightarrow> bytes \<Rightarrow> (('c, 'd) manager, unit) meth" where
  "handleInfoAnswer = accept_answer"

definition handleRequestNodesAnswer :: "node_id \<Rightarrow> bytes \<Rightarrow> (('c, 'd) manager, unit) meth" where
  "handleRequestNodesAnswer = accept_answer"

definition handleTxValidatorAnswer :: "node_id \<Rightarrow> bytes \<Rightarrow> (('c, 'd) manager, unit) meth" where
  "handleTxValidatorAnswer = accept_answer"

definition handleTxAnswer :: "node_id \<Rightarrow> bytes \<Rightarrow> (('c, 'd) manager, unit) meth" where
  "handleTxAnswer = accept_answer"

definition handleAnswer :: "node_id \<Rightarrow> bytes \<Rightarrow> (('c, 'd) manager, unit) meth" where
  "handleAnswer n m =
     bind_m (lift_m (msg_command m)) (\<lambda>c. case c of
       Ping \<Rightarrow> handlePingAnswer n m
     | Info \<Rightarrow> handleInfoAnswer n m
     | RequestNodes \<Rightarrow> handleRequestNodesAnswer n m
     | RequestValidatorTxs \<Rightarrow> handleTxValidatorAnswer n m
     | RequestTxs \<Rightarrow> handleTxAnswer n m
     | _ \<Rightarrow> drop_peer n)"

section \<open>Definitions: broadcasts from other nodes\<close>

definition handleTxValidatorBroadcast ::
  "'c node_env \<Rightarrow> 'd p2p_env \<Rightarrow> node_id \<Rightarrow> bytes \<Rightarrow> (('c, 'd) manager, unit) meth" where
  "handleTxValidatorBroadcast E P n m =
     try_catch
       (bind_m (lift_m (BroadcastDecoder_broadcastValidatorTx (ne_crypto E) (pe_junk P) m)) (\<lambda>tx.
        bind_m (chain_m (state_addValidatorTx tx)) (\<lambda>ok. when_m ok (broadcastMessage m))))
       (drop_peer n)"

definition handleTxBroadcast :: "'c node_env \<Rightarrow> node_id \<Rightarrow> bytes \<Rightarrow> (('c, 'd) manager, unit) meth" where
  "handleTxBroadcast E n m =
     try_catch
       (bind_m (lift_m (BroadcastDecoder_broadcastTx (ne_crypto E) m)) (\<lambda>tx.
        bind_m (chain_m (addTx tx)) (\<lambda>v. when_m (v = NotInvalid) (broadcastMessage m))))
       (drop_peer n)"

text \<open>
  The body of the \<^verbatim>\<open>try\<close> gives whether the message is to be sent on. For a block that exists the
  flag may be set, but the \<^verbatim>\<open>return\<close> that follows leaves the function.
\<close>

definition block_broadcast_try :: "'c node_env \<Rightarrow> 'd p2p_env \<Rightarrow> bytes \<Rightarrow> (('c, 'd) manager, bool) meth" where
  "block_broadcast_try E P m =
     bind_m (lift_m (BroadcastDecoder_broadcastBlock (ne_crypto E) (pe_junk P) m)) (\<lambda>b.
     ask_m (\<lambda>g.
       if blockExists (pe_db P) (cs_storage (mg_chain g)) (block_hash b)
       then bind_m (lift_m (latest (cs_storage (mg_chain g)))) (\<lambda>_. ret_m False)
       else bind_m (lift_m (validateNextBlock E (mg_chain g) b)) (\<lambda>valid.
         if valid then bind_m (chain_m (processNextBlock E b)) (\<lambda>_. ret_m True) else ret_m False)))"

definition handleBlockBroadcast ::
  "'c node_env \<Rightarrow> 'd p2p_env \<Rightarrow> node_id \<Rightarrow> bytes \<Rightarrow> (('c, 'd) manager, unit) meth" where
  "handleBlockBroadcast E P n m =
     bind_m (try_catch (block_broadcast_try E P m) (bind_m (drop_peer n) (\<lambda>_. ret_m False)))
       (\<lambda>rebroadcast. when_m rebroadcast (broadcastMessage m))"

definition handleBroadcast ::
  "'c node_env \<Rightarrow> 'd p2p_env \<Rightarrow> node_id \<Rightarrow> bytes \<Rightarrow> (('c, 'd) manager, unit) meth" where
  "handleBroadcast E P n m g =
     (if \<not> mg_started g then (Inr (), g)
      else bind_m (lift_m (bind_r (msg_id m) bytesToUint64)) (\<lambda>i. ask_m (\<lambda>g.
        if mg_broadcasted g i > 0
        then mod_m (\<lambda>g. if mg_broadcasted g i = 1 then g\<lparr>mg_broadcasted := (mg_broadcasted g)(i := 2)\<rparr> else g)
        else bind_m (lift_m (msg_command m)) (\<lambda>c. case c of
            BroadcastValidatorTx \<Rightarrow> handleTxValidatorBroadcast E P n m
          | BroadcastTx \<Rightarrow> handleTxBroadcast E n m
          | BroadcastBlock \<Rightarrow> handleBlockBroadcast E P n m
          | _ \<Rightarrow> drop_peer n))) g)"

definition handleMessage ::
  "'c node_env \<Rightarrow> 'd p2p_env \<Rightarrow> node_id \<Rightarrow> bytes \<Rightarrow> (('c, 'd) manager, unit) meth" where
  "handleMessage E P n m g =
     (if \<not> mg_started g then (Inr (), g)
      else bind_m (lift_m (msg_type m)) (\<lambda>t. case t of
          Requesting \<Rightarrow> handleRequest P n m
        | Answering \<Rightarrow> handleAnswer n m
        | Broadcasting \<Rightarrow> handleBroadcast E P n m
        | UnnamedType \<Rightarrow> drop_peer n) g)"

section \<open>Definitions: requests to other nodes\<close>

definition requestNodes_send :: "node_id \<Rightarrow> bytes \<Rightarrow> (('c, 'd) manager, bytes option) meth" where
  "requestNodes_send n rid = bind_m (lift_m (RequestEncoder_requestNodes rid)) (sendRequestTo n)"

definition requestValidatorTxs_send :: "node_id \<Rightarrow> bytes \<Rightarrow> (('c, 'd) manager, bytes option) meth" where
  "requestValidatorTxs_send n rid = bind_m (lift_m (RequestEncoder_requestValidatorTxs rid)) (sendRequestTo n)"

definition requestTxs_send :: "node_id \<Rightarrow> bytes \<Rightarrow> (('c, 'd) manager, bytes option) meth" where
  "requestTxs_send n rid = bind_m (lift_m (RequestEncoder_requestTxs rid)) (sendRequestTo n)"

definition requestNodeInfo_send :: "'d p2p_env \<Rightarrow> node_id \<Rightarrow> bytes \<Rightarrow> (('c, 'd) manager, bytes option) meth" where
  "requestNodeInfo_send P n rid =
     ask_m (\<lambda>g. bind_m (lift_m (latest (cs_storage (mg_chain g)))) (\<lambda>l.
       bind_m (lift_m (RequestEncoder_info rid (pe_version P) (pe_epoch P) l)) (sendRequestTo n)))"

definition ping_send :: "node_id \<Rightarrow> bytes \<Rightarrow> (('c, 'd) manager, bytes option) meth" where
  "ping_send n rid =
     bind_m (lift_m (RequestEncoder_ping rid)) (\<lambda>m.
     bind_m (sendRequestTo n m) (\<lambda>r. if r = None then throw_m (DynamicException ''Failed to send ping to '') else ret_m r))"

text \<open>After the wait: no answer within the time, or an answer, which may not decode.\<close>

definition finish_request :: "(bytes \<Rightarrow> 'a res) \<Rightarrow> 'a \<Rightarrow> bytes option \<Rightarrow> 'a res" where
  "finish_request decode nothing answer =
     (case answer of
        None \<Rightarrow> Inr nothing
      | Some m \<Rightarrow> (case decode m of Inl UndefinedBehaviour \<Rightarrow> Inl UndefinedBehaviour | Inl _ \<Rightarrow> Inr nothing | Inr x \<Rightarrow> Inr x))"

definition requestNodes_finish :: "bytes option \<Rightarrow> (node_id \<times> NodeType) list res" where
  "requestNodes_finish = finish_request AnswerDecoder_requestNodes []"

definition requestValidatorTxs_finish :: "crypto \<Rightarrow> nat \<Rightarrow> bytes option \<Rightarrow> txvalidator list res" where
  "requestValidatorTxs_finish c junk = finish_request (AnswerDecoder_requestValidatorTxs c junk) []"

definition requestTxs_finish :: "crypto \<Rightarrow> bytes option \<Rightarrow> txblock list res" where
  "requestTxs_finish c = finish_request (AnswerDecoder_requestTxs c) []"

definition requestNodeInfo_finish :: "bytes option \<Rightarrow> node_info res" where
  "requestNodeInfo_finish = finish_request AnswerDecoder_info
     \<lparr>nodeVersion = 0, currentTimestamp = 0, latestBlockHeight = 0, latestBlockHash = replicate 32 0\<rparr>"

section \<open>Lemmas: the invariant of the sessions and broadcasts\<close>

definition bcast_of :: "nat \<Rightarrow> bytes \<Rightarrow> bool" where
  "bcast_of i m \<longleftrightarrow> msg_type m = Inr Broadcasting \<and> bind_r (msg_id m) bytesToUint64 = Inr i"

fun wrote_bcast :: "node_id \<Rightarrow> nat \<Rightarrow> p2p_effect \<Rightarrow> bool" where
  "wrote_bcast n i (Wrote k m) = (k = n \<and> bcast_of i m)"
| "wrote_bcast n i (Closed k) = False"

definition times_sent :: "node_id \<Rightarrow> nat \<Rightarrow> p2p_effect list \<Rightarrow> nat" where
  "times_sent n i es = length (filter (wrote_bcast n i) es)"

text \<open>Each node is connected once, and has been sent a broadcast only if it is marked, and once.\<close>

definition mgr_ok :: "('c, 'd) manager \<Rightarrow> bool" where
  "mgr_ok g \<longleftrightarrow> distinct (map fst (mg_sessions g))
     \<and> (\<forall>n i. times_sent n i (mg_log g) \<le> (if mg_broadcasted g i > 0 then 1 else 0))"

definition mgr_keeps :: "(('c, 'd) manager, 'a) meth \<Rightarrow> bool" where
  "mgr_keeps f \<longleftrightarrow> (\<forall>g. mgr_ok g \<longrightarrow> mgr_ok (snd (f g)))"

named_theorems mgr_intros \<open>methods that keep the invariant of the manager\<close>

lemma mgr_okD: "mgr_ok g \<Longrightarrow> times_sent n i (mg_log g) \<le> (if mg_broadcasted g i > 0 then 1 else 0)"
  unfolding mgr_ok_def by blast

lemma mgr_keepsD: "mgr_keeps f \<Longrightarrow> mgr_ok g \<Longrightarrow> mgr_ok (snd (f g))"
  by (simp add: mgr_keeps_def)

lemma mgr_basic [mgr_intros]:
  "mgr_keeps (ret_m x)" "mgr_keeps (throw_m e)" "mgr_keeps (lift_m r)" "mgr_keeps (chain_m c)"
  by (simp_all add: mgr_keeps_def chain_m_def mgr_ok_def split: prod.split)

lemma mgr_bind [mgr_intros]: "mgr_keeps m \<Longrightarrow> (\<And>x. mgr_keeps (k x)) \<Longrightarrow> mgr_keeps (bind_m m k)"
  by (simp add: mgr_keeps_def bind_m_apply split: sum.split)

lemma try_catch_state: "snd (try_catch m1 m2 s) = snd (m1 s) \<or> snd (try_catch m1 m2 s) = snd (m2 (snd (m1 s)))"
  by (simp add: try_catch_def split: prod.split sum.split cpp_error.split)

lemma mgr_try [mgr_intros]: "mgr_keeps m1 \<Longrightarrow> mgr_keeps m2 \<Longrightarrow> mgr_keeps (try_catch m1 m2)"
  by (metis mgr_keeps_def try_catch_state)

lemma mgr_when [mgr_intros]: "mgr_keeps m \<Longrightarrow> mgr_keeps (when_m b m)"
  by (cases b) (simp_all add: mgr_keeps_def)

lemma mgr_branches [mgr_intros]:
  "mgr_keeps m1 \<Longrightarrow> mgr_keeps m2 \<Longrightarrow> mgr_keeps (if b then m1 else m2)"
  "(\<And>g. mgr_keeps (h g)) \<Longrightarrow> mgr_keeps (ask_m h)"
  by (simp_all add: mgr_keeps_def)

lemma mgr_lift_bind: "(\<And>x. r = Inr x \<Longrightarrow> mgr_keeps (k x)) \<Longrightarrow> mgr_keeps (bind_m (lift_m r) k)"
  by (cases r) (simp_all add: mgr_keeps_def bind_m_def)

lemma times_sent_append [simp]:
  "times_sent n i [] = 0" "times_sent n i (es @ es') = times_sent n i es + times_sent n i es'"
  "times_sent n i [e] = (if wrote_bcast n i e then 1 else 0)"
  by (simp_all add: times_sent_def)

lemma times_sent_closed [simp]: "times_sent n i (map (\<lambda>(k, _). Closed k) xs) = 0"
  by (auto simp: times_sent_def filter_empty_conv)

lemma mgr_sessions [mgr_intros]:
  "mgr_keeps (registerSession n t)" "mgr_keeps (unregisterSession n)" "mgr_keeps (disconnectSession n)"
  by (auto simp: mgr_keeps_def registerSession_def unregisterSession_def disconnectSession_def mgr_ok_def
    distinct_map_filter)

lemma mgr_drop_peer [mgr_intros]: "mgr_keeps (drop_peer n)"
  unfolding drop_peer_def by (intro mgr_intros)

lemma mgr_start_stop: "mgr_ok g \<Longrightarrow> mgr_ok (manager_start g)" "mgr_ok g \<Longrightarrow> mgr_ok (manager_stop g)"
  by (auto simp: mgr_ok_def manager_start_def manager_stop_def)

text \<open>Messages that are not broadcasts do not count.\<close>

lemma other_type: "msg_type m = Inr t \<Longrightarrow> t \<noteq> Broadcasting \<Longrightarrow> \<not> bcast_of i m"
  by (auto simp: bcast_of_def)

lemma mgr_answer: "msg_type a = Inr Answering \<Longrightarrow> mgr_keeps (answerSession n a)"
  by (auto simp: mgr_keeps_def answerSession_def session_write_def mgr_ok_def other_type)

lemma mgr_request: "msg_type q = Inr Requesting \<Longrightarrow> mgr_keeps (sendRequestTo n q)"
  by (auto simp: mgr_keeps_def sendRequestTo_def session_write_def mgr_ok_def other_type bind_m_apply
    bind_r_def seq_m_def split: option.split sum.split)

lemma msg_id_length: "msg_id m = Inr i \<Longrightarrow> length i = 8"
  by (auto simp: msg_id_def subspan_eq_Inr)

lemma answer_type: "bind_r (msg_id q) (\<lambda>i. build_message Answering i cmd pl) = Inr a \<Longrightarrow> msg_type a = Inr Answering"
  using build_message_parts[of Answering _ cmd pl] msg_id_length by (fastforce simp: bind_r_eq_Inr)

lemma request_type: "length rid = 8 \<Longrightarrow> build_message Requesting rid cmd pl = Inr q \<Longrightarrow> msg_type q = Inr Requesting"
  using build_message_parts[of Requesting rid cmd pl] by auto

lemmas answer_defs = AnswerEncoder_ping_def AnswerEncoder_info_def AnswerEncoder_requestNodes_def
  AnswerEncoder_requestValidatorTxs_def AnswerEncoder_requestTxs_def
lemmas request_defs = RequestEncoder_ping_def RequestEncoder_info_def RequestEncoder_requestNodes_def
  RequestEncoder_requestValidatorTxs_def RequestEncoder_requestTxs_def

lemma mgr_answers [mgr_intros]:
  "mgr_keeps (bind_m (lift_m (AnswerEncoder_ping q)) (answerSession n))"
  "mgr_keeps (bind_m (lift_m (AnswerEncoder_info q v t l)) (answerSession n))"
  "mgr_keeps (bind_m (lift_m (AnswerEncoder_requestNodes q ns)) (answerSession n))"
  "mgr_keeps (bind_m (lift_m (AnswerEncoder_requestValidatorTxs q vs)) (answerSession n))"
  "mgr_keeps (bind_m (lift_m (AnswerEncoder_requestTxs q ts)) (answerSession n))"
  unfolding answer_defs by (auto intro!: mgr_lift_bind mgr_answer elim!: answer_type)

lemma mgr_requests [mgr_intros]:
  "length rid = 8 \<Longrightarrow> mgr_keeps (requestNodes_send n rid)"
  "length rid = 8 \<Longrightarrow> mgr_keeps (requestValidatorTxs_send n rid)"
  "length rid = 8 \<Longrightarrow> mgr_keeps (requestTxs_send n rid)"
  "length rid = 8 \<Longrightarrow> mgr_keeps (requestNodeInfo_send P n rid)"
  "length rid = 8 \<Longrightarrow> mgr_keeps (ping_send n rid)"
  unfolding requestNodes_send_def requestValidatorTxs_send_def requestTxs_send_def requestNodeInfo_send_def
    ping_send_def request_defs
  by (auto intro!: mgr_branches mgr_lift_bind mgr_basic(1,2) mgr_bind mgr_request request_type)

text \<open>A broadcast reaches every node of the normal kind once.\<close>

lemma relay_fold:
  "fold (\<lambda>(n, t) g. if t = NORMAL_NODE then session_write n m g else g) xs g
    = g\<lparr>mg_log := mg_log g @ map (\<lambda>(n, _). Wrote n m) (filter (\<lambda>(_, t). t = NORMAL_NODE) xs)\<rparr>"
  by (induction xs arbitrary: g) (auto simp: session_write_def)

lemma times_sent_relay:
  "times_sent n i (map (\<lambda>(k, _). Wrote k m) xs) = (if bcast_of i m then length (filter (\<lambda>k. k = n) (map fst xs)) else 0)"
proof (cases "bcast_of i m")
  case True
  then show ?thesis by (induction xs) (auto simp: times_sent_def)
qed (auto simp: times_sent_def filter_empty_conv)

lemma filter_eq_distinct: "distinct xs \<Longrightarrow> length (filter (\<lambda>k. k = n) xs) \<le> 1"
  by (induction xs) (auto simp: filter_empty_conv)

lemma mgr_broadcast [mgr_intros]: "mgr_keeps (broadcastMessage m :: (('c, 'd) manager, unit) meth)"
proof -
  have "mgr_ok (snd (broadcastMessage m g))" if ok: "mgr_ok g" for g :: "('c, 'd) manager"
  proof (cases "mg_started g \<and> (\<exists>i. bind_r (msg_id m) bytesToUint64 = Inr i \<and> mg_broadcasted g i = 0)")
    case True
    then obtain i where i: "mg_started g" "bind_r (msg_id m) bytesToUint64 = Inr i" "mg_broadcasted g i = 0" by blast
    let ?xs = "filter (\<lambda>(_, t). t = NORMAL_NODE) (mg_sessions g)"
    have "distinct (map fst ?xs)" using ok by (auto simp: mgr_ok_def distinct_map_filter)
    then have one: "length (filter (\<lambda>k. k = n) (map fst ?xs)) \<le> 1" for n by (rule filter_eq_distinct)
    have old: "times_sent n i (mg_log g) = 0" for n using mgr_okD[OF ok, of n i] i(3) by simp
    let ?new = "map (\<lambda>(n, _). Wrote n m) ?xs"
    have st: "snd (broadcastMessage m g) = g\<lparr>mg_broadcasted := (mg_broadcasted g)(i := 1), mg_log := mg_log g @ ?new\<rparr>"
      using i by (simp add: broadcastMessage_def bind_m_apply relay_fold)
    have "times_sent n k (mg_log g @ ?new) \<le> (if ((mg_broadcasted g)(i := 1)) k > 0 then 1 else 0)" for n k
    proof (cases "k = i")
      case True
      then show ?thesis using one[of n] by (simp add: old times_sent_relay del: map_map)
    next
      case False
      then have "\<not> bcast_of k m" using i(2) by (simp add: bcast_of_def)
      then show ?thesis using False mgr_okD[OF ok, of n k] by (simp add: times_sent_relay)
    qed
    then show ?thesis using ok unfolding st mgr_ok_def by simp
  next
    case False
    then show ?thesis using ok by (auto simp: broadcastMessage_def bind_m_apply split: sum.split)
  qed
  then show ?thesis by (simp add: mgr_keeps_def)
qed

lemma mgr_own_broadcasts [mgr_intros]:
  "mgr_keeps (broadcastTxValidator vtx)" "mgr_keeps (broadcastTxBlock tx)" "mgr_keeps (broadcastBlock b)"
  unfolding broadcastTxValidator_def broadcastTxBlock_def broadcastBlock_def by (intro mgr_intros)+

lemma mgr_setAnswer [mgr_intros]: "mgr_keeps (setAnswer i r m)"
  by (simp add: mgr_keeps_def setAnswer_def mgr_ok_def)

lemma mgr_mark_seen: "mgr_ok g \<Longrightarrow> mg_broadcasted g i = 1 \<Longrightarrow> mgr_ok (g\<lparr>mg_broadcasted := (mg_broadcasted g)(i := 2)\<rparr>)"
proof -
  assume ok: "mgr_ok g" and i: "mg_broadcasted g i = 1"
  have "times_sent n k (mg_log g) \<le> (if ((mg_broadcasted g)(i := 2)) k > 0 then 1 else 0)" for n k
    using mgr_okD[OF ok, of n k] i by (cases "k = i") simp_all
  then show ?thesis using ok unfolding mgr_ok_def by simp
qed

lemma mgr_mark: "mgr_keeps (mod_m (\<lambda>g. if mg_broadcasted g i = 1 then g\<lparr>mg_broadcasted := (mg_broadcasted g)(i := 2)\<rparr> else g))"
  by (simp add: mgr_keeps_def mgr_mark_seen del: One_nat_def)

lemma mgr_option_case: "mgr_keeps a \<Longrightarrow> (\<And>x. mgr_keeps (b x)) \<Longrightarrow> mgr_keeps (case v of None \<Rightarrow> a | Some x \<Rightarrow> b x)"
  by (cases v) simp_all

lemma mgr_accept_answer [mgr_intros]: "mgr_keeps (accept_answer n m)"
  unfolding accept_answer_def by (intro mgr_intros mgr_option_case)

lemmas handler_defs = handlePingRequest_def handleInfoRequest_def handleRequestNodesRequest_def
  handleTxValidatorRequest_def handleTxRequest_def handlePingAnswer_def handleInfoAnswer_def
  handleRequestNodesAnswer_def handleTxValidatorAnswer_def handleTxAnswer_def
  handleTxValidatorBroadcast_def handleTxBroadcast_def block_broadcast_try_def handleBlockBroadcast_def

lemma mgr_handlers [mgr_intros]:
  "mgr_keeps (handlePingRequest n m)" "mgr_keeps (handleInfoRequest P n m)" "mgr_keeps (handleRequestNodesRequest n m)"
  "mgr_keeps (handleTxValidatorRequest n m)" "mgr_keeps (handleTxRequest n m)"
  "mgr_keeps (handlePingAnswer n m)" "mgr_keeps (handleInfoAnswer n m)" "mgr_keeps (handleRequestNodesAnswer n m)"
  "mgr_keeps (handleTxValidatorAnswer n m)" "mgr_keeps (handleTxAnswer n m)"
  "mgr_keeps (handleTxValidatorBroadcast E P n m)" "mgr_keeps (handleTxBroadcast E n m)"
  "mgr_keeps (handleBlockBroadcast E P n m)"
  unfolding handler_defs by (rule mgr_answers mgr_intros)+

lemma mgr_dispatch [mgr_intros]: "mgr_keeps (handleRequest P n m)" "mgr_keeps (handleAnswer n m)"
  unfolding handleRequest_def handleAnswer_def
  by (intro mgr_bind mgr_basic; (split CommandType.split; simp add: mgr_handlers mgr_drop_peer))+

lemma mgr_started: "mgr_keeps f \<Longrightarrow> mgr_keeps (\<lambda>g. if \<not> mg_started g then (Inr (), g) else f g)"
  by (simp add: mgr_keeps_def)

lemma mgr_handleBroadcast [mgr_intros]: "mgr_keeps (handleBroadcast E P n m)"
  unfolding handleBroadcast_def[abs_def]
  by (intro mgr_started mgr_bind mgr_basic mgr_branches mgr_mark; split CommandType.split; simp add: mgr_handlers mgr_drop_peer)

lemma mgr_handleMessage [mgr_intros]: "mgr_keeps (handleMessage E P n m)"
  unfolding handleMessage_def[abs_def]
  by (intro mgr_started mgr_bind mgr_basic; split RequestType.split; simp add: mgr_dispatch mgr_handleBroadcast mgr_drop_peer)

section \<open>Properties: the manager\<close>

definition fresh_manager :: "('c, 'd) chain_state \<Rightarrow> ('c, 'd) manager" where
  "fresh_manager s = \<lparr>mg_started = False, mg_sessions = [], mg_requests = (\<lambda>_. None), mg_broadcasted = (\<lambda>_. 0),
     mg_chain = s, mg_log = []\<rparr>"

text \<open>
  What can happen to the manager, in any order: sessions come and go, it is started and
  stopped, it sends requests and its own broadcasts, it handles messages, which may throw,
  and the rest of the node moves the state of the chain.
\<close>

inductive manager_run :: "'c node_env \<Rightarrow> 'd p2p_env \<Rightarrow> ('c, 'd) manager \<Rightarrow> bool" for E P where
  fresh: "manager_run E P (fresh_manager s)"
| started: "manager_run E P g \<Longrightarrow> manager_run E P (manager_start g)"
| stopped: "manager_run E P g \<Longrightarrow> manager_run E P (manager_stop g)"
| registered: "manager_run E P g \<Longrightarrow> manager_run E P (snd (registerSession n t g))"
| unregistered: "manager_run E P g \<Longrightarrow> manager_run E P (snd (unregisterSession n g))"
| disconnected: "manager_run E P g \<Longrightarrow> manager_run E P (snd (disconnectSession n g))"
| handled: "manager_run E P g \<Longrightarrow> manager_run E P (snd (handleMessage E P n m g))"
| sent_tx: "manager_run E P g \<Longrightarrow> manager_run E P (snd (broadcastTxBlock tx g))"
| sent_vtx: "manager_run E P g \<Longrightarrow> manager_run E P (snd (broadcastTxValidator vtx g))"
| sent_block: "manager_run E P g \<Longrightarrow> manager_run E P (snd (broadcastBlock b g))"
| asked_nodes: "manager_run E P g \<Longrightarrow> length rid = 8 \<Longrightarrow> manager_run E P (snd (requestNodes_send n rid g))"
| asked_vtxs: "manager_run E P g \<Longrightarrow> length rid = 8 \<Longrightarrow> manager_run E P (snd (requestValidatorTxs_send n rid g))"
| asked_txs: "manager_run E P g \<Longrightarrow> length rid = 8 \<Longrightarrow> manager_run E P (snd (requestTxs_send n rid g))"
| asked_info: "manager_run E P g \<Longrightarrow> length rid = 8 \<Longrightarrow> manager_run E P (snd (requestNodeInfo_send P n rid g))"
| pinged: "manager_run E P g \<Longrightarrow> length rid = 8 \<Longrightarrow> manager_run E P (snd (ping_send n rid g))"
| chain: "manager_run E P g \<Longrightarrow> manager_run E P (g\<lparr>mg_chain := s\<rparr>)"

lemma run_mgr_ok: "manager_run E P g \<Longrightarrow> mgr_ok g"
proof (induction rule: manager_run.induct)
  case (fresh s)
  then show ?case by (simp add: mgr_ok_def fresh_manager_def)
next
  case (chain g s)
  then show ?case by (simp add: mgr_ok_def)
qed (auto intro: mgr_start_stop mgr_keepsD mgr_intros)

text \<open>
  Claim C11. In every history of the manager a node is connected at most once, and no node is
  ever sent two broadcasts with the same identifier, whatever messages its peers send,
  however often they connect again, and whether the broadcast is the manager's own or one it
  passes on.
\<close>
theorem p2p_broadcast_once:
  assumes "manager_run E P g"
  shows "distinct (getSessionsIDs g) \<and> times_sent n i (mg_log g) \<le> 1"
  using run_mgr_ok[OF assms] mgr_okD[OF run_mgr_ok[OF assms], of n i]
  by (simp add: mgr_ok_def getSessionsIDs_def split: if_splits)


section \<open>Lemmas: what messages do to the chain\<close>

definition chain_of :: "('c, 'd) manager \<Rightarrow> block list" where
  "chain_of g = st_chain (cs_storage (mg_chain g))"

definition chain_still :: "(('c, 'd) manager, 'a) meth \<Rightarrow> bool" where
  "chain_still f \<longleftrightarrow> (\<forall>g. chain_of (snd (f g)) = chain_of g)"

named_theorems still_intros \<open>methods that leave the chain as it is\<close>

lemma chain_stillD: "chain_still f \<Longrightarrow> chain_of (snd (f g)) = chain_of g"
  by (simp add: chain_still_def)

lemma chain_of_updates [simp]:
  "chain_of (g\<lparr>mg_sessions := a\<rparr>) = chain_of g" "chain_of (g\<lparr>mg_log := l\<rparr>) = chain_of g"
  "chain_of (g\<lparr>mg_requests := r\<rparr>) = chain_of g" "chain_of (g\<lparr>mg_broadcasted := w\<rparr>) = chain_of g"
  by (simp_all add: chain_of_def)

lemma still_basic [still_intros]:
  "chain_still (ret_m x)" "chain_still (throw_m e)" "chain_still (lift_m r)"
  by (simp_all add: chain_still_def)

lemma still_bind [still_intros]: "chain_still m \<Longrightarrow> (\<And>x. chain_still (k x)) \<Longrightarrow> chain_still (bind_m m k)"
  by (simp add: chain_still_def bind_m_apply split: sum.split)

lemma still_try [still_intros]: "chain_still m1 \<Longrightarrow> chain_still m2 \<Longrightarrow> chain_still (try_catch m1 m2)"
  by (metis chain_still_def try_catch_state)

lemma still_when [still_intros]: "chain_still m \<Longrightarrow> chain_still (when_m b m)"
  by (cases b) (simp_all add: chain_still_def)

lemma still_branches [still_intros]:
  "chain_still m1 \<Longrightarrow> chain_still m2 \<Longrightarrow> chain_still (if b then m1 else m2)"
  "(\<And>g. chain_still (h g)) \<Longrightarrow> chain_still (ask_m h)"
  by (simp_all add: chain_still_def)

lemma still_sessions [still_intros]:
  "chain_still (disconnectSession n)" "chain_still (answerSession n m)" "chain_still (setAnswer i r m)"
  by (simp_all add: chain_still_def disconnectSession_def answerSession_def setAnswer_def session_write_def)

lemma still_drop_peer [still_intros]: "chain_still (drop_peer n)"
  unfolding drop_peer_def by (intro still_intros)

lemma still_broadcast [still_intros]: "chain_still (broadcastMessage m)"
  by (simp add: chain_still_def broadcastMessage_def bind_m_apply relay_fold split: sum.split)

lemma still_mempools [still_intros]:
  "chain_still (chain_m (state_addValidatorTx vtx))" "chain_still (chain_m (addTx tx))"
  by (simp_all add: chain_still_def chain_m_def chain_of_def state_addValidatorTx_def addTx_def
    split: prod.split sum.split TxInvalid.split)

lemma still_accept_answer [still_intros]: "chain_still (accept_answer n m)"
proof -
  have "chain_still (case r of None \<Rightarrow> drop_peer n | Some r \<Rightarrow> setAnswer i r m)" for r i
    by (cases r) (simp_all add: still_drop_peer still_sessions)
  then show ?thesis unfolding accept_answer_def by (intro still_bind still_basic still_branches)
qed

lemma still_handlers [still_intros]:
  "chain_still (handlePingRequest n m)" "chain_still (handleInfoRequest P n m)" "chain_still (handleRequestNodesRequest n m)"
  "chain_still (handleTxValidatorRequest n m)" "chain_still (handleTxRequest n m)"
  "chain_still (handlePingAnswer n m)" "chain_still (handleInfoAnswer n m)" "chain_still (handleRequestNodesAnswer n m)"
  "chain_still (handleTxValidatorAnswer n m)" "chain_still (handleTxAnswer n m)"
  "chain_still (handleTxValidatorBroadcast E P n m)" "chain_still (handleTxBroadcast E n m)"
  unfolding handler_defs by (intro still_intros)+

lemma still_dispatch [still_intros]: "chain_still (handleRequest P n m)" "chain_still (handleAnswer n m)"
  unfolding handleRequest_def handleAnswer_def
  by (intro still_bind still_basic; (split CommandType.split; simp add: still_handlers still_drop_peer))+

text \<open>Processing a block adds it to the chain or leaves the chain as it is.\<close>

lemma readd_storage: "cs_storage (snd (readd_txs ms s)) = cs_storage s"
  by (induction ms s rule: readd_txs.induct) (auto split: sum.split)

lemma processNextBlock_storage:
  fixes s :: "('c, 'd) chain_state"
  shows "st_chain (cs_storage (snd (processNextBlock E b s))) = st_chain (cs_storage s)
   \<or> (validateNextBlock E s b = Inr True \<and> st_chain (cs_storage (snd (processNextBlock E b s))) = st_chain (cs_storage s) @ [b])"
proof -
  have r: "cs_storage (snd (refreshMempool b t)) = cs_storage t" for t :: "('c, 'd) chain_state"
    by (simp add: refreshMempool_def Let_def readd_storage)
  have t: "cs_storage (snd (process_txs E (block_info_of E b) 0 (txs b) t)) = cs_storage t" for t :: "('c, 'd) chain_state"
    by (simp add: keeps_process_txs[unfolded keeps_def])
  show ?thesis
    using t r by (auto simp: processNextBlock_def seq_m_def bind_m_apply pushBack_def split: sum.splits bool.splits prod.splits)
qed

lemma block_broadcast_cases:
  fixes g :: "('c, 'd) manager"
  shows "chain_of (snd (block_broadcast_try E P m g)) = chain_of g
   \<or> (\<exists>b. BroadcastDecoder_broadcastBlock (ne_crypto E) (pe_junk P) m = Inr b \<and> validateNextBlock E (mg_chain g) b = Inr True
       \<and> chain_of (snd (block_broadcast_try E P m g)) = chain_of g @ [b])"
proof (cases "BroadcastDecoder_broadcastBlock (ne_crypto E) (pe_junk P) m")
  case (Inr b)
  have "snd (block_broadcast_try E P m g) = g
      \<or> snd (block_broadcast_try E P m g) = g\<lparr>mg_chain := snd (processNextBlock E b (mg_chain g))\<rparr>"
    by (auto simp: block_broadcast_try_def Inr bind_m_apply chain_m_def split: sum.split prod.split)
  then show ?thesis using processNextBlock_storage[of E b "mg_chain g"] Inr by (auto simp: chain_of_def)
qed (simp add: block_broadcast_try_def bind_m_apply)

lemma chain_of_bind: "(\<And>x. chain_still (k x)) \<Longrightarrow> chain_of (snd (bind_m m k g)) = chain_of (snd (m g))"
  by (simp add: chain_still_def bind_m_apply split: sum.split)

lemma chain_of_try: "chain_still m2 \<Longrightarrow> chain_of (snd (try_catch m1 m2 g)) = chain_of (snd (m1 g))"
  by (metis chain_still_def try_catch_state)

lemma handleBlockBroadcast_chain:
  "chain_of (snd (handleBlockBroadcast E P n m g)) = chain_of (snd (block_broadcast_try E P m g))"
  unfolding handleBlockBroadcast_def by (subst chain_of_bind chain_of_try, intro still_intros)+ (rule refl)

lemma still_lift_bind: "(\<And>x. r = Inr x \<Longrightarrow> chain_still (k x)) \<Longrightarrow> chain_still (bind_m (lift_m r) k)"
  by (cases r) (simp_all add: chain_still_def bind_m_apply)

lemma still_other_broadcasts:
  assumes "msg_command m \<noteq> Inr BroadcastBlock"
  shows "chain_still (handleBroadcast E P n m)"
proof -
  have c: "chain_still (bind_m (lift_m (msg_command m)) (\<lambda>c. case c of
            BroadcastValidatorTx \<Rightarrow> handleTxValidatorBroadcast E P n m
          | BroadcastTx \<Rightarrow> handleTxBroadcast E n m
          | BroadcastBlock \<Rightarrow> handleBlockBroadcast E P n m
          | _ \<Rightarrow> drop_peer n))"
    using assms by (intro still_lift_bind) (simp add: still_handlers still_drop_peer split: CommandType.split)
  have k: "chain_still (mod_m (\<lambda>g. if mg_broadcasted g i = 1 then g\<lparr>mg_broadcasted := (mg_broadcasted g)(i := 2)\<rparr> else g))" for i
    by (simp add: chain_still_def)
  show ?thesis
    unfolding handleBroadcast_def[abs_def]
    using chain_stillD[OF c] chain_stillD[OF k] by (auto simp: chain_still_def bind_m_apply split: sum.splits)
qed

lemma still_requests_answers:
  assumes "msg_type m \<noteq> Inr Broadcasting"
  shows "chain_still (handleMessage E P n m)"
proof -
  have "chain_still (bind_m (lift_m (msg_type m)) (\<lambda>t. case t of
          Requesting \<Rightarrow> handleRequest P n m
        | Answering \<Rightarrow> handleAnswer n m
        | Broadcasting \<Rightarrow> handleBroadcast E P n m
        | UnnamedType \<Rightarrow> drop_peer n))"
    using assms by (intro still_lift_bind) (simp add: still_dispatch still_drop_peer split: RequestType.split)
  then show ?thesis unfolding handleMessage_def[abs_def] by (simp add: chain_still_def)
qed

lemma handleMessage_broadcast:
  "mg_started g \<Longrightarrow> msg_type m = Inr Broadcasting \<Longrightarrow> handleMessage E P n m g = handleBroadcast E P n m g"
  by (simp add: handleMessage_def bind_m_apply)

lemma handleBroadcast_new:
  "mg_started g \<Longrightarrow> bind_r (msg_id m) bytesToUint64 = Inr i \<Longrightarrow> mg_broadcasted g i = 0 \<Longrightarrow>
    msg_command m = Inr BroadcastBlock \<Longrightarrow> handleBroadcast E P n m g = handleBlockBroadcast E P n m g"
  by (simp add: handleBroadcast_def bind_m_apply)

lemma handleBroadcast_block_cases:
  assumes "msg_command m = Inr BroadcastBlock"
  shows "chain_of (snd (handleBroadcast E P n m g)) = chain_of g
    \<or> snd (handleBroadcast E P n m g) = snd (handleBlockBroadcast E P n m g)"
  by (simp add: handleBroadcast_def assms bind_m_apply split: sum.split)

lemma broadcast_parts:
  assumes "BroadcastDecoder_broadcastBlock c junk m = Inr b"
  shows "msg_type m = Inr Broadcasting" "msg_command m = Inr BroadcastBlock"
  using assms by (auto simp: BroadcastDecoder_broadcastBlock_def open_broadcast_def bind_r_eq_Inr split: if_splits)

lemma broadcastMessage_new:
  "mg_started g \<Longrightarrow> bind_r (msg_id m) bytesToUint64 = Inr i \<Longrightarrow> mg_broadcasted g i = 0 \<Longrightarrow>
    broadcastMessage m g = (Inr (), g\<lparr>mg_broadcasted := (mg_broadcasted g)(i := 1),
      mg_log := mg_log g @ map (\<lambda>k. Wrote k m) (getSessionsIDs_of NORMAL_NODE g)\<rparr>)"
  by (simp add: broadcastMessage_def bind_m_apply relay_fold[unfolded case_prod_unfold] getSessionsIDs_of_def comp_def case_prod_unfold)

text \<open>
  Claim C10. Blocks from the network. Whatever message a peer sends, the chain stays as it is
  or grows by exactly one block, which is the one in the message and was accepted as the next
  one. A broadcast, not seen before, of a new block that can be processed is processed, marked
  as seen and written to every connected node of the normal kind. A broadcast of a block that
  does not parse disconnects the peer and changes nothing else.
\<close>
theorem p2p_block_gossip:
  fixes g :: "('c, 'd) manager"
  shows "(chain_of (snd (handleMessage E P n m g)) = chain_of g
     \<or> (\<exists>b. BroadcastDecoder_broadcastBlock (ne_crypto E) (pe_junk P) m = Inr b
          \<and> validateNextBlock E (mg_chain g) b = Inr True
          \<and> chain_of (snd (handleMessage E P n m g)) = chain_of g @ [b]))
    \<and> (\<forall>b i s'. mg_started g \<and> BroadcastDecoder_broadcastBlock (ne_crypto E) (pe_junk P) m = Inr b
         \<and> bind_r (msg_id m) bytesToUint64 = Inr i \<and> mg_broadcasted g i = 0
         \<and> \<not> blockExists (pe_db P) (cs_storage (mg_chain g)) (block_hash b)
         \<and> processNextBlock E b (mg_chain g) = (Inr (), s') \<longrightarrow>
         handleMessage E P n m g = (Inr (), g\<lparr>mg_broadcasted := (mg_broadcasted g)(i := 1), mg_chain := s',
           mg_log := mg_log g @ map (\<lambda>k. Wrote k m) (getSessionsIDs_of NORMAL_NODE g)\<rparr>))
    \<and> (\<forall>e i. mg_started g \<and> msg_type m = Inr Broadcasting \<and> msg_command m = Inr BroadcastBlock
         \<and> bind_r (msg_id m) bytesToUint64 = Inr i \<and> mg_broadcasted g i = 0
         \<and> BroadcastDecoder_broadcastBlock (ne_crypto E) (pe_junk P) m = Inl e \<and> e \<noteq> UndefinedBehaviour \<longrightarrow>
         handleMessage E P n m g = (Inr (), snd (disconnectSession n g)))"
proof (intro conjI allI impI)
  consider "\<not> mg_started g" | "msg_type m \<noteq> Inr Broadcasting" | "mg_started g" "msg_type m = Inr Broadcasting" by blast
  then show "chain_of (snd (handleMessage E P n m g)) = chain_of g
     \<or> (\<exists>b. BroadcastDecoder_broadcastBlock (ne_crypto E) (pe_junk P) m = Inr b
          \<and> validateNextBlock E (mg_chain g) b = Inr True
          \<and> chain_of (snd (handleMessage E P n m g)) = chain_of g @ [b])"
  proof cases
    case 3
    show ?thesis
      using handleBroadcast_block_cases[of m E P n g] chain_stillD[OF still_other_broadcasts, of m E P n g]
        handleBlockBroadcast_chain[of E P n m g] block_broadcast_cases[of E P m g]
      unfolding handleMessage_broadcast[OF 3] by metis
  qed (simp_all add: handleMessage_def chain_stillD[OF still_requests_answers, unfolded handleMessage_def])
next
  fix b i s'
  assume a: "mg_started g \<and> BroadcastDecoder_broadcastBlock (ne_crypto E) (pe_junk P) m = Inr b
         \<and> bind_r (msg_id m) bytesToUint64 = Inr i \<and> mg_broadcasted g i = 0
         \<and> \<not> blockExists (pe_db P) (cs_storage (mg_chain g)) (block_hash b)
         \<and> processNextBlock E b (mg_chain g) = (Inr (), s')"
  then have v: "validateNextBlock E (mg_chain g) b = Inr True"
    by (auto simp: processNextBlock_def split: sum.splits bool.splits)
  have "block_broadcast_try E P m g = (Inr True, g\<lparr>mg_chain := s'\<rparr>)"
    using a v by (simp add: block_broadcast_try_def bind_m_apply chain_m_def)
  then have "handleBlockBroadcast E P n m g = broadcastMessage m (g\<lparr>mg_chain := s'\<rparr>)"
    by (simp add: handleBlockBroadcast_def bind_m_apply try_catch_Inr)
  moreover have "handleMessage E P n m g = handleBlockBroadcast E P n m g"
    using a broadcast_parts[of "ne_crypto E" "pe_junk P" m b] by (simp add: handleMessage_broadcast handleBroadcast_new)
  ultimately show "handleMessage E P n m g = (Inr (), g\<lparr>mg_broadcasted := (mg_broadcasted g)(i := 1), mg_chain := s',
      mg_log := mg_log g @ map (\<lambda>k. Wrote k m) (getSessionsIDs_of NORMAL_NODE g)\<rparr>)"
    using a broadcastMessage_new[of "g\<lparr>mg_chain := s'\<rparr>" m i] by (simp add: getSessionsIDs_of_def)
next
  fix e i
  assume a: "mg_started g \<and> msg_type m = Inr Broadcasting \<and> msg_command m = Inr BroadcastBlock
         \<and> bind_r (msg_id m) bytesToUint64 = Inr i \<and> mg_broadcasted g i = 0
         \<and> BroadcastDecoder_broadcastBlock (ne_crypto E) (pe_junk P) m = Inl e \<and> e \<noteq> UndefinedBehaviour"
  have "fst (disconnectSession n g) \<noteq> Inl z" for z by (simp add: disconnectSession_def)
  then obtain u where d: "fst (disconnectSession n g) = Inr u" by (cases "fst (disconnectSession n g)") auto
  have "block_broadcast_try E P m g = (Inl e, g)"
    using a by (simp add: block_broadcast_try_def bind_m_apply)
  then have "handleBlockBroadcast E P n m g = (Inr (), snd (disconnectSession n g))"
    using a d by (simp add: handleBlockBroadcast_def bind_m_apply try_catch_Inl drop_peer_def)
  then show "handleMessage E P n m g = (Inr (), snd (disconnectSession n g))"
    using a by (simp add: handleMessage_broadcast handleBroadcast_new)
qed

section \<open>Properties: messages that throw\<close>

lemma drop_peer_returns: "fst (drop_peer n g) = Inr ()"
  by (simp add: drop_peer_def disconnectSession_def bind_m_apply)

lemma broadcastMessage_returns: "length m \<ge> 9 \<Longrightarrow> fst (broadcastMessage m g) = Inr ()"
  by (simp add: broadcastMessage_def bind_m_apply msg_id_def subspan_def bytesToUint64_eq bind_r_def)

lemma try_catch_safe: "(\<And>s. fst (h s) \<noteq> Inl e) \<Longrightarrow> fst (try_catch f h g) = Inl e \<Longrightarrow> e = UndefinedBehaviour"
  by (auto simp: try_catch_def split: prod.splits sum.splits cpp_error.splits)

lemma block_broadcast_safe:
  fixes g :: "('c, 'd) manager"
  assumes "length m \<ge> 9" "fst (handleBlockBroadcast E P n m g) = Inl e"
  shows "e = UndefinedBehaviour"
proof -
  let ?h = "bind_m (drop_peer n) (\<lambda>_. ret_m False)"
  have "fst (when_m x (broadcastMessage m) s) = Inr ()" for x and s :: "('c, 'd) manager"
    using assms(1) by (cases x) (simp_all add: broadcastMessage_returns)
  then have "fst (try_catch (block_broadcast_try E P m) ?h g) = Inl e"
    using assms(2) by (auto simp: handleBlockBroadcast_def bind_m_apply split: sum.splits)
  then show ?thesis by (rule try_catch_safe[rotated]) (simp add: bind_m_apply drop_peer_returns)
qed

lemma handleBroadcast_safe:
  assumes "length m \<ge> 9" "msg_command m = Inr c" "fst (handleBroadcast E P n m g) = Inl e"
  shows "e = UndefinedBehaviour"
proof -
  have i: "bind_r (msg_id m) bytesToUint64 = Inr (be_val (take 8 (drop 1 m)))" (is "_ = Inr ?i")
    using assms(1) by (simp add: msg_id_def subspan_def bytesToUint64_eq)
  have d: "fst (drop_peer n s) \<noteq> Inl z" for s :: "('a, 'b) manager" and z by (simp add: drop_peer_returns)
  have "fst ((case c of BroadcastValidatorTx \<Rightarrow> handleTxValidatorBroadcast E P n m
      | BroadcastTx \<Rightarrow> handleTxBroadcast E n m | BroadcastBlock \<Rightarrow> handleBlockBroadcast E P n m
      | _ \<Rightarrow> drop_peer n) g) = Inl e"
    using assms(2,3) i by (auto simp: handleBroadcast_def bind_m_apply split: if_splits)
  then show ?thesis
    using block_broadcast_safe[OF assms(1), of E P n g e] try_catch_safe[OF d]
    by (cases c) (auto simp: drop_peer_returns handleTxValidatorBroadcast_def handleTxBroadcast_def)
qed

text \<open>
  Messages and exceptions. Nothing that a broadcast with a known command holds makes
  the handler throw: every exception is caught. But four kinds of message from a connected
  peer leave the handler with an error, which nothing above it catches, as it runs as a task
  of a thread pool: an empty message is read out of range, a type byte above 3 throws, a
  request for information of another size than 67 throws, and so does an answer to a request
  that has been answered before.
\<close>
theorem p2p_message_errors:
  assumes "mg_started g"
  shows "(length m \<ge> 9 \<and> msg_type m = Inr Broadcasting \<and> msg_command m = Inr c \<and> fst (handleMessage E P n m g) = Inl e
      \<longrightarrow> e = UndefinedBehaviour)
    \<and> handleMessage E P n [] g = (Inl UndefinedBehaviour, g)
    \<and> (unat b > 3 \<longrightarrow> handleMessage E P n (b # bs) g = (Inl (DynamicException ''Invalid request type.''), g))
    \<and> (msg_type m = Inr Requesting \<and> msg_command m = Inr Info \<and> length m \<noteq> 67
      \<longrightarrow> handleMessage E P n m g = (Inl (DynamicException ''Invalid Info message size.''), g))
    \<and> (msg_type m = Inr Answering \<and> msg_command m = Inr c \<and> c \<in> {Ping, Info, RequestNodes, RequestValidatorTxs, RequestTxs}
        \<and> msg_id m = Inr i \<and> mg_requests g i = Some r \<and> rq_answer r \<noteq> None
      \<longrightarrow> handleMessage E P n m g = (Inl (DynamicException ''Promise already satisfied''), g))"
proof (intro conjI impI)
  show "e = UndefinedBehaviour" if "length m \<ge> 9 \<and> msg_type m = Inr Broadcasting \<and> msg_command m = Inr c
      \<and> fst (handleMessage E P n m g) = Inl e"
    using that handleBroadcast_safe[of m c E P n g e] handleMessage_broadcast[OF assms, of m E P n] by auto
  show "handleMessage E P n [] g = (Inl UndefinedBehaviour, g)"
    using assms by (simp add: handleMessage_def bind_m_apply msg_type_def subspan_def)
  show "handleMessage E P n (b # bs) g = (Inl (DynamicException ''Invalid request type.''), g)" if "unat b > 3"
    using that assms by (simp add: handleMessage_def bind_m_apply msg_type_def subspan_def getRequestType_def bytesToUint8_def
      typePrefixes_def)
  show "handleMessage E P n m g = (Inl (DynamicException ''Invalid Info message size.''), g)"
    if "msg_type m = Inr Requesting \<and> msg_command m = Inr Info \<and> length m \<noteq> 67"
    using that assms by (simp add: handleMessage_def handleRequest_def handleInfoRequest_def RequestDecoder_info_def bind_m_apply)
  show "handleMessage E P n m g = (Inl (DynamicException ''Promise already satisfied''), g)"
    if "msg_type m = Inr Answering \<and> msg_command m = Inr c \<and> c \<in> {Ping, Info, RequestNodes, RequestValidatorTxs, RequestTxs}
        \<and> msg_id m = Inr i \<and> mg_requests g i = Some r \<and> rq_answer r \<noteq> None"
    using that assms by (auto simp: handleMessage_def handleAnswer_def handlePingAnswer_def handleInfoAnswer_def
      handleRequestNodesAnswer_def handleTxValidatorAnswer_def handleTxAnswer_def accept_answer_def setAnswer_def bind_m_apply)
qed


section \<open>Witnesses\<close>

text \<open>A node with one peer of each kind, whose latest block is the one that a new block names.\<close>

definition peer_a :: node_id where
  "peer_a = (V4 [10, 0, 0, 1], 8080)"

definition peer_b :: node_id where
  "peer_b = (V4 [10, 0, 0, 2], 8081)"

definition gossip_block :: block where
  "gossip_block = sample_block\<lparr>txs := [], txMerkleRoot := replicate 32 0\<rparr>"

definition gossip_chain :: "(unit, table) chain_state" where
  "gossip_chain = sample_state\<lparr>cs_storage := snd (pushBack
     (sample_block\<lparr>txs := [], nHeight := 0, block_hash := replicate 32 3\<rparr>) (empty_storage empty_table))\<rparr>"

definition gossip_env :: "table p2p_env" where
  "gossip_env = \<lparr>pe_db = table_engine, pe_junk = 0, pe_version = 1, pe_epoch = 2\<rparr>"

definition gossip_node :: "(unit, table) manager" where
  "gossip_node = snd (registerSession peer_b DISCOVERY_NODE (snd (registerSession peer_a NORMAL_NODE
     (manager_start (fresh_manager gossip_chain)))))"

lemma gossip_node_eq:
  "gossip_node = (fresh_manager gossip_chain)\<lparr>mg_started := True, mg_sessions := [(peer_a, NORMAL_NODE), (peer_b, DISCOVERY_NODE)]\<rparr>"
  by (simp add: gossip_node_def registerSession_def manager_start_def fresh_manager_def peer_a_def peer_b_def)

lemma gossip_block_finalized:
  "finalize sample_crypto [] 9 (Block_make (replicate 32 3) 0 1) = Inr (True, gossip_block)"
proof -
  have "layers_from h [] = [[]]" for h by (subst layers_from.simps) simp
  then have "txRoot sample_crypto [] = replicate 32 0" "txValidatorRoot sample_crypto [] = replicate 32 0"
    by (simp_all add: txRoot_def txValidatorRoot_def Merkle_make_def getRoot_def)
  then show ?thesis
    by (simp add: finalize_def Block_make_def sample_facts parseTxSeedList_def Let_def sample_block_def gossip_block_def)
qed

lemma gossip_block_parses: "Block_parse sample_crypto 0 (serializeBlock gossip_block) = Inr gossip_block"
proof -
  have "block_sig_ok sample_crypto gossip_block"
    using sample_block_ok(3) by (simp add: block_sig_ok_def gossip_block_def)
  moreover have "txs_wire_ok sample_crypto 0 gossip_block" "217 + length (block_frames gossip_block) < 2 ^ 64"
    by (simp_all add: txs_wire_ok_def gossip_block_def sample_block_def block_frames_def)
  ultimately show ?thesis
    using Block_parse_serialize[OF sample_crypto_ok(1) sample_block_ok(1) gossip_block_finalized, of 0]
    by (simp add: Block_make_def)
qed

lemma gossip_storage:
  "latest (cs_storage gossip_chain) = Inr (sample_block\<lparr>txs := [], nHeight := 0, block_hash := replicate 32 3\<rparr>)"
  "st_chain (cs_storage gossip_chain) = [sample_block\<lparr>txs := [], nHeight := 0, block_hash := replicate 32 3\<rparr>]"
  "cs_mempool gossip_chain = []" "cs_rdpos gossip_chain = sample_rdpos\<lparr>rd_minValidators := 0\<rparr>"
  by (simp_all add: gossip_chain_def latest_def chain_back_def pushBack_def empty_storage_def sample_state_def)

lemma gossip_block_new: "\<not> blockExists table_engine (cs_storage gossip_chain) (block_hash gossip_block)"
  by (simp add: blockExists_def blockExistsInternal_def gossip_chain_def pushBack_def empty_storage_def index_block_def
    gossip_block_def sample_block_def db_simps[OF table_engine_ok] contents_def empty_table.rep_eq
    map_insert_new_def)

lemma gossip_block_processed:
  "\<exists>s'. processNextBlock sample_env gossip_block gossip_chain = (Inr (), s')"
proof -
  let ?r = "sample_rdpos\<lparr>rd_minValidators := 0\<rparr>"
  have vb: "validateBlock sample_crypto ?r gossip_block = Inr True"
    by (subst validateBlock_eq) (simp_all add: sample_rdpos_def gossip_block_def sample_block_def block_consensus_def sample_facts)
  obtain seed rl where sh: "shuffle sample_crypto (blockRandomness gossip_block) (rd_validators ?r) = Inr (seed, rl)"
    using shuffle_loop_total[where c = sample_crypto and i = 0 and seed = "blockRandomness gossip_block" and v = "rd_validators ?r"]
      sample_block_ok(1) by (auto simp: shuffle_def gossip_block_def sample_block_def)
  have v: "validateNextBlock sample_env gossip_chain gossip_block = Inr True"
    unfolding validateNextBlock_def gossip_storage using vb
    by (simp add: sample_env_def gossip_block_def sample_block_def)
  have pb: "processBlock sample_crypto gossip_block ?r = (Inr (blockRandomness gossip_block),
      ?r\<lparr>rd_mempool := [], rd_randomList := rl, rd_bestRandomSeed := blockRandomness gossip_block, rd_seed := seed\<rparr>)"
    using sh by (simp add: processBlock_def Let_def gossip_block_def sample_block_def)
  obtain st1 where push: "pushBack gossip_block (cs_storage gossip_chain) = (Inr (), st1)"
    by (simp add: pushBack_def gossip_storage gossip_block_def sample_block_def)
  have ts: "txs gossip_block = []" by (simp add: gossip_block_def)
  have pt: "process_txs sample_env bi 0 [] = ret_m ()" for bi by (rule ext) simp
  show ?thesis
    using pb push unfolding processNextBlock_def v ts pt
    by (simp add: seq_m_def bind_m_def sample_env_def mod_host_def refreshMempool_def gossip_storage)
qed

lemma broadcast_parts_ex:
  "\<exists>m. broadcast_message cmd pl = Inr m \<and> msg_type m = Inr Broadcasting \<and> msg_command m = Inr cmd \<and> msg_body m = Inr pl
    \<and> bind_r (msg_id m) bytesToUint64 = Inr (unat (FNVHash pl)) \<and> open_broadcast cmd m = Inr pl"
proof -
  obtain m where m: "broadcast_message cmd pl = Inr m" "msg_type m = Inr Broadcasting" "msg_command m = Inr cmd"
      "msg_body m = Inr pl" "msg_id m = Inr (uint64ToBytes (unat (FNVHash pl)))"
    using build_message_parts[of Broadcasting "uint64ToBytes (unat (FNVHash pl))" cmd pl] by (auto simp: broadcast_message_def)
  moreover have "unat (FNVHash pl) < 2 ^ 64" using unsigned_less[of "FNVHash pl"] by simp
  then have "bytesToUint64 (uint64ToBytes (unat (FNVHash pl))) = Inr (unat (FNVHash pl))"
    by (simp add: bytesToUint64_eq be_val_uint64ToBytes)
  ultimately show ?thesis by (intro exI[of _ m]) (simp add: open_broadcast_def)
qed

theorem p2p_broadcast_once_witness:
  "distinct (getSessionsIDs gossip_node) \<and> getSessionsIDs gossip_node = [peer_a, peer_b]
   \<and> times_sent peer_a 5 (mg_log (snd (broadcastBlock gossip_block (snd (broadcastBlock gossip_block gossip_node))))) \<le> 1"
proof -
  have r: "manager_run sample_env gossip_env gossip_node"
    unfolding gossip_node_def by (intro manager_run.intros)
  then have "manager_run sample_env gossip_env (snd (broadcastBlock gossip_block (snd (broadcastBlock gossip_block gossip_node))))"
    by (intro manager_run.sent_block)
  from p2p_broadcast_once[OF this, of peer_a 5] p2p_broadcast_once[OF r] show ?thesis
    by (simp add: gossip_node_eq getSessionsIDs_def)
qed

theorem p2p_block_gossip_witness:
  "\<exists>m g. BroadcastEncoder_broadcastBlock gossip_block = Inr m
     \<and> handleMessage sample_env gossip_env peer_b m gossip_node = (Inr (), g) \<and> mg_log g = [Wrote peer_a m]"
proof -
  obtain m where m: "BroadcastEncoder_broadcastBlock gossip_block = Inr m"
    "bind_r (msg_id m) bytesToUint64 = Inr (unat (FNVHash (serializeBlock gossip_block)))"
    "open_broadcast BroadcastBlock m = Inr (serializeBlock gossip_block)"
    using broadcast_parts_ex[of BroadcastBlock "serializeBlock gossip_block"] by (auto simp: BroadcastEncoder_broadcastBlock_def)
  have d: "BroadcastDecoder_broadcastBlock (ne_crypto sample_env) (pe_junk gossip_env) m = Inr gossip_block"
    using m(3) gossip_block_parses by (simp add: BroadcastDecoder_broadcastBlock_def sample_env_def gossip_env_def)
  obtain s' where s': "processNextBlock sample_env gossip_block gossip_chain = (Inr (), s')"
    using gossip_block_processed by blast
  show ?thesis
    using p2p_block_gossip[of sample_env gossip_env peer_b m gossip_node] m d s' gossip_block_new
    by (auto simp: gossip_node_eq fresh_manager_def getSessionsIDs_of_def gossip_env_def)
qed

theorem p2p_message_errors_witness:
  "handleMessage sample_env gossip_env peer_a [] gossip_node = (Inl UndefinedBehaviour, gossip_node)
   \<and> handleMessage sample_env gossip_env peer_a [4] gossip_node = (Inl (DynamicException ''Invalid request type.''), gossip_node)"
proof -
  have "mg_started gossip_node" by (simp add: gossip_node_eq)
  from p2p_message_errors[OF this, of "[]" Ping sample_env gossip_env peer_a UndefinedBehaviour 4 "[]"]
  show ?thesis by simp
qed

end
