(* ===== verification/Events.thy ===== *)
theory Events
  imports Database Hex_Codec "HOL-Library.Multiset" "HOL-Library.Countable"
begin

text \<open>
  Contract events (\<^verbatim>\<open>src/src/contract/event.h\<close>, \<^verbatim>\<open>event.cpp\<close>): an event and its JSON form, and the
  manager that collects events during a call, keeps them in memory, saves them to the
  database and answers queries. The JSON library is a parameter.
\<close>

section \<open>Definitions: JSON\<close>

text \<open>
  The values of the library and what the code uses of it on them: natural numbers, negative
  numbers and floating-point numbers are separate, as they are there.
\<close>

datatype json = JNull | JBool bool | JNum nat | JInt int | JFloat rat | JStr string | JArr "json list"
  | JObj "(string \<times> json) list"

record json_lib =
  js_dump :: "json \<Rightarrow> string res"
  js_parse :: "string \<Rightarrow> json res"

definition json_type_error :: cpp_error where
  "json_type_error = DynamicException ''type_error''"

text \<open>\<^verbatim>\<open>obj[key]\<close>: a key that is not there is created with the value null, also on a null value.\<close>

fun json_at :: "json \<Rightarrow> string \<Rightarrow> json res" where
  "json_at (JObj fs) k = Inr (case map_of fs k of None \<Rightarrow> JNull | Some v \<Rightarrow> v)"
| "json_at JNull k = Inr JNull"
| "json_at _ k = Inl json_type_error"

fun get_string :: "json \<Rightarrow> string res" where
  "get_string (JStr s) = Inr s"
| "get_string _ = Inl json_type_error"

text \<open>A conversion from a floating-point number truncates; a value that does not fit is undefined.\<close>

definition float_cast :: "nat \<Rightarrow> rat \<Rightarrow> nat res" where
  "float_cast n q = (if - 1 < q \<and> q < 2 ^ n then Inr (nat \<lfloor>q\<rfloor>) else Inl UndefinedBehaviour)"

fun get_uint64 :: "json \<Rightarrow> nat res" where
  "get_uint64 (JNum n) = Inr n"
| "get_uint64 (JInt i) = Inr (nat (i mod 2 ^ 64))"
| "get_uint64 (JFloat q) = float_cast 64 q"
| "get_uint64 _ = Inl json_type_error"

fun get_bool :: "json \<Rightarrow> bool res" where
  "get_bool (JBool b) = Inr b"
| "get_bool _ = Inl json_type_error"

fun get_byte :: "json \<Rightarrow> byte res" where
  "get_byte (JNum n) = Inr (word_of_nat n)"
| "get_byte (JInt i) = Inr (word_of_int i)"
| "get_byte (JFloat q) = bind_r (float_cast 8 q) (\<lambda>n. Inr (word_of_nat n))"
| "get_byte (JBool b) = Inr (if b then 1 else 0)"
| "get_byte _ = Inl json_type_error"

fun map_r :: "('a \<Rightarrow> 'b res) \<Rightarrow> 'a list \<Rightarrow> 'b list res" where
  "map_r f [] = Inr []"
| "map_r f (x # xs) = bind_r (f x) (\<lambda>y. bind_r (map_r f xs) (\<lambda>ys. Inr (y # ys)))"

fun get_bytes :: "json \<Rightarrow> bytes res" where
  "get_bytes (JArr xs) = map_r get_byte xs"
| "get_bytes _ = Inl json_type_error"

text \<open>The values a range loop visits.\<close>

fun json_items :: "json \<Rightarrow> json list" where
  "json_items (JArr xs) = xs"
| "json_items (JObj fs) = map snd fs"
| "json_items JNull = []"
| "json_items j = [j]"

section \<open>Definitions: events\<close>

record Event =
  en_name :: string
  en_logIndex :: nat
  en_txHash :: bytes
  en_txIndex :: nat
  en_blockHash :: bytes
  en_blockIndex :: nat
  en_address :: address
  en_data :: bytes
  en_topics :: "bytes list"
  en_anonymous :: bool

text \<open>
  The constructor a contract uses, on what the ABI encoder makes of the parameters: the
  signature, the topics of the indexed ones and the data of the others. The members that
  \<^verbatim>\<open>setStateData\<close> sets later keep what the memory holds.
\<close>

fun add_topics :: "bytes list \<Rightarrow> bytes list \<Rightarrow> bytes list" where
  "add_topics ts [] = ts"
| "add_topics ts (x # xs) = (if length ts \<ge> 4 then ts else add_topics (ts @ [x]) xs)"

definition Event_make :: "Event \<Rightarrow> string \<Rightarrow> address \<Rightarrow> bytes \<Rightarrow> bytes list \<Rightarrow> bytes \<Rightarrow> bool \<Rightarrow> Event" where
  "Event_make memory name address signature topics data anonymous =
     memory\<lparr>en_name := name, en_address := address, en_anonymous := anonymous, en_data := data,
       en_topics := add_topics (if anonymous then [] else [signature]) topics\<rparr>"

definition setStateData :: "nat \<Rightarrow> bytes \<Rightarrow> nat \<Rightarrow> bytes \<Rightarrow> nat \<Rightarrow> Event \<Rightarrow> Event" where
  "setStateData logIndex txHash txIndex blockHash blockIndex e =
     e\<lparr>en_logIndex := logIndex, en_txHash := txHash, en_txIndex := txIndex, en_blockHash := blockHash,
       en_blockIndex := blockIndex\<rparr>"

definition getSelector :: "Event \<Rightarrow> bytes res" where
  "getSelector e =
     (if \<not> en_anonymous e then (case en_topics e of [] \<Rightarrow> Inl UndefinedBehaviour | t # _ \<Rightarrow> Inr t) else Inr (replicate 32 0))"

definition hex_json :: "bytes \<Rightarrow> json res" where
  "hex_json b = bind_r (Hex_fromBytes b True) (\<lambda>h. Inr (JStr (hex_str h)))"

definition Event_json :: "Event \<Rightarrow> json res" where
  "Event_json e =
     bind_r (map_r hex_json (en_topics e)) (\<lambda>topicArr.
     bind_r (hex_json (en_txHash e)) (\<lambda>txHash.
     bind_r (hex_json (en_blockHash e)) (\<lambda>blockHash.
     bind_r (hex_json (en_address e)) (\<lambda>address.
     Inr (JObj [(''name'', JStr (en_name e)), (''logIndex'', JNum (en_logIndex e)), (''txHash'', txHash),
       (''txIndex'', JNum (en_txIndex e)), (''blockHash'', blockHash), (''blockIndex'', JNum (en_blockIndex e)),
       (''address'', address), (''data'', JArr (map (\<lambda>b. JNum (unat b)) (en_data e))), (''topics'', JArr topicArr),
       (''anonymous'', JBool (en_anonymous e))])))))"

definition Event_serialize :: "json_lib \<Rightarrow> Event \<Rightarrow> string res" where
  "Event_serialize J e = bind_r (Event_json e) (js_dump J)"

definition Event_serializeForRPC :: "json_lib \<Rightarrow> Event \<Rightarrow> string res" where
  "Event_serializeForRPC J e =
     bind_r (map_r hex_json (en_topics e)) (\<lambda>topicStr.
     bind_r (hex_json (en_address e)) (\<lambda>address.
     bind_r (hex_json (en_blockHash e)) (\<lambda>blockHash.
     bind_r (hex_json (uint64ToBytes (en_blockIndex e))) (\<lambda>blockNumber.
     bind_r (hex_json (en_data e)) (\<lambda>data.
     bind_r (hex_json (uint64ToBytes (en_logIndex e))) (\<lambda>logIndex.
     bind_r (hex_json (en_txHash e)) (\<lambda>txHash.
     bind_r (hex_json (uint64ToBytes (en_txIndex e))) (\<lambda>txIndex.
     js_dump J (JObj [(''address'', address), (''blockHash'', blockHash), (''blockNumber'', blockNumber), (''data'', data),
       (''logIndex'', logIndex), (''removed'', JBool False), (''topics'', JArr topicStr), (''transactionHash'', txHash),
       (''transactionIndex'', txIndex)])))))))))"

text \<open>\<^verbatim>\<open>std::string::substr\<close> and \<^verbatim>\<open>Address(string_view, false)\<close>.\<close>

definition substr_from :: "nat \<Rightarrow> string \<Rightarrow> string res" where
  "substr_from n s = (if n > length s then Inl OutOfRange else Inr (drop n s))"

definition Address_of_hex :: "string \<Rightarrow> address res" where
  "Address_of_hex s = bind_r (Address_isValid s False) (\<lambda>ok. if \<not> ok then Inl InvalidArgument else Hex_toBytes s)"

definition hash_field :: "json \<Rightarrow> bytes res" where
  "hash_field j = bind_r (get_string j) (\<lambda>s. bind_r (substr_from 2 s) (\<lambda>t. bind_r (Hex_toBytes t) Hash_of))"

definition Event_of_json :: "json \<Rightarrow> Event res" where
  "Event_of_json obj =
     bind_r (bind_r (json_at obj ''name'') get_string) (\<lambda>name.
     bind_r (bind_r (json_at obj ''logIndex'') get_uint64) (\<lambda>logIndex.
     bind_r (bind_r (json_at obj ''txHash'') hash_field) (\<lambda>txHash.
     bind_r (bind_r (json_at obj ''txIndex'') get_uint64) (\<lambda>txIndex.
     bind_r (bind_r (json_at obj ''blockHash'') hash_field) (\<lambda>blockHash.
     bind_r (bind_r (json_at obj ''blockIndex'') get_uint64) (\<lambda>blockIndex.
     bind_r (bind_r (bind_r (json_at obj ''address'') get_string) Address_of_hex) (\<lambda>address.
     bind_r (bind_r (json_at obj ''data'') get_bytes) (\<lambda>data.
     bind_r (bind_r (json_at obj ''topics'') (\<lambda>ts.
       map_r (\<lambda>t. bind_r (get_string t) (\<lambda>s. bind_r (Hex_toBytes s) Hash_of)) (json_items ts))) (\<lambda>topics.
     bind_r (bind_r (json_at obj ''anonymous'') get_bool) (\<lambda>anonymous.
     Inr \<lparr>en_name = name, en_logIndex = logIndex, en_txHash = txHash, en_txIndex = txIndex, en_blockHash = blockHash,
       en_blockIndex = blockIndex, en_address = address, en_data = data, en_topics = topics, en_anonymous = anonymous\<rparr>))))))))))"

definition Event_parse :: "json_lib \<Rightarrow> string \<Rightarrow> Event res" where
  "Event_parse J s = bind_r (js_parse J s) Event_of_json"

section \<open>Definitions: the manager\<close>

text \<open>
  A multi-index container is the list of its elements in the order of insertion; each index
  is this list sorted by its key, equal keys staying in that order.
\<close>

record 'd event_manager =
  em_events :: "Event list"
  em_tempEvents :: "Event list"
  em_db :: 'd

definition pfx_events :: bytes where "pfx_events = [0, 8]"

definition by_block :: "Event list \<Rightarrow> Event list" where
  "by_block es = sort_key en_blockIndex es"

definition by_address :: "Event list \<Rightarrow> Event list" where
  "by_address es = sort_key en_address es"

definition by_txHash :: "Event list \<Rightarrow> Event list" where
  "by_txHash es = sort_key en_txHash es"

definition EventManager_make :: "'d rocksdb \<Rightarrow> json_lib \<Rightarrow> 'd \<Rightarrow> 'd event_manager res" where
  "EventManager_make db J d =
     bind_r (map_r (\<lambda>(_, v). Event_parse J (bytesToString v)) (DB_getBatch db d pfx_events [])) (\<lambda>es.
     Inr \<lparr>em_events = es, em_tempEvents = [], em_db = d\<rparr>)"

definition event_key :: "Event \<Rightarrow> bytes" where
  "event_key e = uint64ToBytes (en_blockIndex e) @ uint64ToBytes (en_txIndex e) @ uint64ToBytes (en_logIndex e) @ en_address e"

text \<open>The destructor, which ignores whether the batch was written.\<close>

definition EventManager_save :: "'d rocksdb \<Rightarrow> json_lib \<Rightarrow> 'd event_manager \<Rightarrow> 'd res" where
  "EventManager_save db J m =
     bind_r (map_r (\<lambda>e. bind_r (Event_serialize J e) (\<lambda>s. Inr (event_key e, stringToBytes s))) (by_block (em_events m))) (\<lambda>ps.
     Inr (snd (DB_putBatch db (fold (\<lambda>(k, v). batch_push_back k v pfx_events) ps empty_batch) (em_db m))))"

definition registerEvent :: "Event \<Rightarrow> 'd event_manager \<Rightarrow> 'd event_manager" where
  "registerEvent e m = m\<lparr>em_tempEvents := em_tempEvents m @ [e]\<rparr>"

definition commitEvent :: "Event \<Rightarrow> 'd event_manager \<Rightarrow> 'd event_manager" where
  "commitEvent e m = m\<lparr>em_events := em_events m @ [e]\<rparr>"

fun commit_loop :: "nat \<Rightarrow> bytes \<Rightarrow> nat \<Rightarrow> bytes \<Rightarrow> nat \<Rightarrow> Event list \<Rightarrow> Event list \<Rightarrow> Event list" where
  "commit_loop logIndex txHash txIndex blockHash height [] events = events"
| "commit_loop logIndex txHash txIndex blockHash height (e # es) events =
     commit_loop ((logIndex + 1) mod 2 ^ 64) txHash txIndex blockHash height es
       (events @ [setStateData logIndex txHash txIndex blockHash height e])"

definition commitEvents :: "bytes \<Rightarrow> nat \<Rightarrow> bytes \<Rightarrow> nat \<Rightarrow> 'd event_manager \<Rightarrow> 'd event_manager" where
  "commitEvents txHash txIndex blockHash height m =
     m\<lparr>em_events := commit_loop 0 txHash txIndex blockHash height (by_block (em_tempEvents m)) (em_events m),
       em_tempEvents := []\<rparr>"

definition revertEvents :: "'d event_manager \<Rightarrow> 'd event_manager" where
  "revertEvents m = m\<lparr>em_tempEvents := []\<rparr>"

section \<open>Definitions: queries\<close>

definition matchTopics :: "Event \<Rightarrow> bytes list \<Rightarrow> bool" where
  "matchTopics e topics =
     (if topics = [] then True
      else if length (en_topics e) < length topics then False
      else list_all (\<lambda>i. topics ! i = en_topics e ! i) [0..<length topics])"

definition filterFromMemory :: "nat \<Rightarrow> nat \<Rightarrow> address \<Rightarrow> 'd event_manager \<Rightarrow> Event list" where
  "filterFromMemory fromBlock toBlock address m =
     (if address \<noteq> zero_address
      then filter (\<lambda>e. en_blockIndex e \<ge> fromBlock) (takeWhile (\<lambda>e. en_blockIndex e \<le> toBlock)
        (dropWhile (\<lambda>e. en_address e < address) (by_address (em_events m))))
      else filter (\<lambda>e. en_blockIndex e \<ge> fromBlock \<and> en_blockIndex e \<le> toBlock) (by_block (em_events m)))"

fun select_keys :: "nat \<Rightarrow> nat \<Rightarrow> address \<Rightarrow> bytes list \<Rightarrow> bytes list res" where
  "select_keys fromBlock toBlock address [] = Inr []"
| "select_keys fromBlock toBlock address (key # keys) =
     bind_r (bind_r (create_view_span key 0 8) bytesToUint64) (\<lambda>nHeight.
     bind_r (create_view_span key 24 20) (\<lambda>addr.
     bind_r (select_keys fromBlock toBlock address keys) (\<lambda>ks.
     Inr (if (fromBlock \<le> nHeight \<and> nHeight \<le> toBlock) \<and> (address = zero_address \<or> address = addr)
          then key # ks else ks))))"

fun load_matching :: "json_lib \<Rightarrow> nat \<Rightarrow> bytes list \<Rightarrow> (bytes \<times> bytes) list \<Rightarrow> Event list \<Rightarrow> Event list res" where
  "load_matching J cap topics [] ret = Inr ret"
| "load_matching J cap topics ((_, v) # items) ret =
     (if length ret \<ge> cap then Inr ret
      else bind_r (Event_parse J (bytesToString v)) (\<lambda>e.
        load_matching J cap topics items (if matchTopics e topics then ret @ [e] else ret)))"

definition filterFromDB ::
  "'d rocksdb \<Rightarrow> json_lib \<Rightarrow> nat \<Rightarrow> nat \<Rightarrow> nat \<Rightarrow> address \<Rightarrow> bytes list \<Rightarrow> 'd event_manager \<Rightarrow> Event list res" where
  "filterFromDB db J logCap fromBlock toBlock address topics m =
     bind_r (select_keys fromBlock toBlock address
       (DB_getKeys db (em_db m) pfx_events (uint64ToBytes fromBlock) (uint64ToBytes toBlock))) (\<lambda>dbKeys.
     load_matching J logCap topics (DB_getBatch db (em_db m) pfx_events dbKeys) [])"

definition getEvents ::
  "'d rocksdb \<Rightarrow> json_lib \<Rightarrow> nat \<Rightarrow> nat \<Rightarrow> nat \<Rightarrow> nat \<Rightarrow> address \<Rightarrow> bytes list \<Rightarrow> 'd event_manager \<Rightarrow> Event list res" where
  "getEvents db J blockCap logCap fromBlock toBlock address topics m =
     (if max fromBlock toBlock - min fromBlock toBlock > blockCap then Inl OutOfRange
      else
        let ret = take logCap (filter (\<lambda>e. matchTopics e topics) (filterFromMemory fromBlock toBlock address m)) in
        if length ret \<ge> logCap then Inr ret
        else bind_r (filterFromDB db J logCap fromBlock toBlock address topics m) (\<lambda>es.
          Inr (ret @ take (logCap - length ret) es)))"

fun load_capped :: "json_lib \<Rightarrow> nat \<Rightarrow> (bytes \<times> bytes) list \<Rightarrow> Event list \<Rightarrow> Event list res" where
  "load_capped J cap [] ret = Inr ret"
| "load_capped J cap ((_, v) # items) ret =
     (if length ret \<ge> cap then Inr ret
      else bind_r (Event_parse J (bytesToString v)) (\<lambda>e. load_capped J cap items (ret @ [e])))"

definition getEvents_tx ::
  "'d rocksdb \<Rightarrow> json_lib \<Rightarrow> nat \<Rightarrow> bytes \<Rightarrow> nat \<Rightarrow> nat \<Rightarrow> 'd event_manager \<Rightarrow> Event list res" where
  "getEvents_tx db J logCap txHash blockIndex txIndex m =
     load_capped J logCap (DB_getBatch db (em_db m) (pfx_events @ uint64ToBytes blockIndex @ uint64ToBytes txIndex) [])
       (take logCap (filter (\<lambda>e. en_blockIndex e = blockIndex \<and> en_txIndex e = txIndex)
         (filter (\<lambda>e. en_txHash e = txHash) (by_txHash (em_events m)))))"


section \<open>Lemmas: the JSON form\<close>

definition ascii :: "string \<Rightarrow> bool" where
  "ascii s \<longleftrightarrow> (\<forall>c\<in>set s. of_char c < (128 :: nat))"

text \<open>Values with ASCII strings, 64-bit numbers, floating-point numbers that are small natural numbers,
  and objects without repeated keys.\<close>

inductive json_plain :: "json \<Rightarrow> bool" where
  "json_plain JNull"
| "json_plain (JBool b)"
| "n < 2 ^ 64 \<Longrightarrow> json_plain (JNum n)"
| "ascii s \<Longrightarrow> json_plain (JStr s)"
| "(\<And>x. x \<in> set xs \<Longrightarrow> json_plain x) \<Longrightarrow> json_plain (JArr xs)"
| "(\<And>k v. (k, v) \<in> set fs \<Longrightarrow> ascii k \<and> json_plain v) \<Longrightarrow> distinct (map fst fs) \<Longrightarrow> json_plain (JObj fs)"
| "- (2 ^ 63) \<le> i \<Longrightarrow> i < 0 \<Longrightarrow> json_plain (JInt i)"
| "n < 2 ^ 53 \<Longrightarrow> json_plain (JFloat (of_nat n))"

text \<open>What the library promises: such a value can be written, and reading gives it back.\<close>

definition json_ok :: "json_lib \<Rightarrow> bool" where
  "json_ok J \<longleftrightarrow> (\<forall>j. json_plain j \<longrightarrow> (\<exists>s. js_dump J j = Inr s \<and> js_parse J s = Inr j))"

definition event_ok :: "Event \<Rightarrow> bool" where
  "event_ok e \<longleftrightarrow> ascii (en_name e) \<and> en_logIndex e < 2 ^ 64 \<and> en_txIndex e < 2 ^ 64 \<and> en_blockIndex e < 2 ^ 64
     \<and> length (en_txHash e) = 32 \<and> length (en_blockHash e) = 32 \<and> length (en_address e) = 20
     \<and> (\<forall>t\<in>set (en_topics e). length t = 32)"

lemma hex_json_eq: "hex_json b = Inr (JStr (''0x'' @ digits_of b))"
  by (simp add: hex_json_def Hex_fromBytes_eq)

lemma map_r_total: "(\<And>x. x \<in> set xs \<Longrightarrow> f x = Inr (g x)) \<Longrightarrow> map_r f xs = Inr (map g xs)"
  by (induction xs) simp_all

lemma map_r_map: "map_r f (map g xs) = map_r (\<lambda>x. f (g x)) xs"
  by (induction xs) simp_all

lemma toBytes_digits:
  "Hex_toBytes (''0x'' @ digits_of b) = Inr b" "1 \<le> length b \<Longrightarrow> Hex_toBytes (digits_of b) = Inr b"
  using Hex_toBytes_digits[of "digits_of b" True] Hex_toBytes_digits[of "digits_of b" False] by simp_all

lemma hash_field_digits: "length b = 32 \<Longrightarrow> hash_field (JStr (''0x'' @ digits_of b)) = Inr b"
  using toBytes_digits(2)[of b] by (simp add: hash_field_def substr_from_def Hash_of_def)

lemma address_digits: "length b = 20 \<Longrightarrow> Address_of_hex (''0x'' @ digits_of b) = Inr b"
  using toBytes_digits(1)[of b] digits_of_facts(2)[of b]
  by (simp add: Address_of_hex_def Address_isValid_def prefix_0x_def view_at_def only_hex_from_def list_all_iff subset_iff
    del: digits_of_facts(2))

lemma byte_list: "map_r get_byte (map (\<lambda>b. JNum (unat b)) bs) = Inr bs"
  by (induction bs) simp_all

lemma topic_list:
  "\<forall>t\<in>set ts. length t = 32 \<Longrightarrow>
    map_r (\<lambda>t. bind_r (get_string t) (\<lambda>s. bind_r (Hex_toBytes s) Hash_of)) (map (\<lambda>t. JStr (''0x'' @ digits_of t)) ts) = Inr ts"
  using toBytes_digits(1) by (induction ts) (simp_all add: Hash_of_def)

lemma ascii_digits: "ascii (''0x'' @ digits_of b)"
proof -
  have "c \<in> set hex_filter \<Longrightarrow> of_char c < (128 :: nat)" for c by (auto simp: hex_filter_def)
  then have "\<forall>c\<in>set (digits_of b). of_char c < (128 :: nat)" using digits_of_facts(2)[of b] by (meson subsetD)
  then show ?thesis by (simp add: ascii_def)
qed

lemma event_json_roundtrip:
  assumes "event_ok e"
  shows "\<exists>j. Event_json e = Inr j \<and> json_plain j \<and> Event_of_json j = Inr e"
proof -
  let ?h = "\<lambda>b. JStr (''0x'' @ digits_of b)"
  let ?j = "JObj [(''name'', JStr (en_name e)), (''logIndex'', JNum (en_logIndex e)), (''txHash'', ?h (en_txHash e)),
       (''txIndex'', JNum (en_txIndex e)), (''blockHash'', ?h (en_blockHash e)), (''blockIndex'', JNum (en_blockIndex e)),
       (''address'', ?h (en_address e)), (''data'', JArr (map (\<lambda>b. JNum (unat b)) (en_data e))),
       (''topics'', JArr (map ?h (en_topics e))), (''anonymous'', JBool (en_anonymous e))]"
  have "Event_json e = Inr ?j"
    using map_r_total[of "en_topics e" hex_json ?h] by (simp add: Event_json_def hex_json_eq)
  moreover have "Event_of_json ?j = Inr e"
    using assms by (simp add: Event_of_json_def event_ok_def hash_field_digits[simplified] address_digits[simplified]
      byte_list topic_list[simplified])
  moreover have "json_plain ?j"
  proof -
    have "json_plain (JArr (map (\<lambda>b. JNum (unat b)) (en_data e)))"
    proof (rule json_plain.intros(5))
      fix x assume "x \<in> set (map (\<lambda>b. JNum (unat b)) (en_data e))"
      then obtain b :: byte where "x = JNum (unat b)" by auto
      moreover have "unat b < 2 ^ 64" by (rule less_trans[OF unat_byte_less]) simp
      ultimately show "json_plain x" by (auto intro: json_plain.intros)
    qed
    moreover have h: "json_plain (?h b)" for b using ascii_digits by (rule json_plain.intros)
    moreover have "json_plain (JArr (map ?h (en_topics e)))"
      by (rule json_plain.intros(5)) (use h in \<open>auto simp only: set_map image_iff\<close>)
    moreover have "json_plain (JStr (en_name e))" "json_plain (JNum (en_logIndex e))" "json_plain (JNum (en_txIndex e))"
      "json_plain (JNum (en_blockIndex e))" "json_plain (JBool (en_anonymous e))"
      using assms by (auto intro: json_plain.intros simp: event_ok_def)
    ultimately show ?thesis by (intro json_plain.intros(6)) (auto simp: ascii_def)
  qed
  ultimately show ?thesis by blast
qed

lemma event_roundtrip:
  assumes "json_ok J" "event_ok e"
  shows "\<exists>s. Event_serialize J e = Inr s \<and> Event_parse J s = Inr e"
  using event_json_roundtrip[OF assms(2)] assms(1) unfolding json_ok_def Event_serialize_def Event_parse_def
  by fastforce

section \<open>Lemmas: the manager and the database\<close>

text \<open>The text of an event, and the entry that is saved for it.\<close>

definition event_text :: "json_lib \<Rightarrow> Event \<Rightarrow> string" where
  "event_text J e = (case Event_serialize J e of Inr s \<Rightarrow> s | Inl _ \<Rightarrow> [])"

definition event_entry :: "json_lib \<Rightarrow> Event \<Rightarrow> bytes \<times> bytes" where
  "event_entry J e = (event_key e, stringToBytes (event_text J e))"

definition read_entry :: "json_lib \<Rightarrow> bytes \<times> bytes \<Rightarrow> Event" where
  "read_entry J x = (case Event_parse J (bytesToString (snd x)) of Inr e \<Rightarrow> e | Inl _ \<Rightarrow> undefined)"

lemma event_text_facts:
  assumes "json_ok J" "event_ok e"
  shows "Event_serialize J e = Inr (event_text J e)" "Event_parse J (event_text J e) = Inr e"
    "Event_parse J (bytesToString (snd (event_entry J e))) = Inr e" "read_entry J (event_entry J e) = e"
  using event_roundtrip[OF assms] by (auto simp: event_text_def event_entry_def read_entry_def bytesToString_inverse)

lemma push_all:
  "bt_puts (fold (\<lambda>(k, v). batch_push_back k v pfx) ps b) = bt_puts b @ map (\<lambda>(k, v). (pfx @ k, v)) ps"
  "bt_dels (fold (\<lambda>(k, v). batch_push_back k v pfx) ps b) = bt_dels b"
  by (induction ps arbitrary: b) (auto simp: batch_push_back_def)

lemma map_of_prefixed: "map_of (map (\<lambda>(k, v). (pfx @ k, v)) ps) (pfx @ k) = map_of ps k"
  by (induction ps) auto

definition writes_ok :: "'d rocksdb \<Rightarrow> bool" where
  "writes_ok db \<longleftrightarrow> (\<forall>ops d. fst (rk_write db ops d))"

lemma save_contents:
  assumes "engine_ok db" "writes_ok db" "json_ok J" "\<forall>e\<in>set (em_events m). event_ok e" "distinct (map event_key (em_events m))"
  shows "\<exists>d'. EventManager_save db J m = Inr d'
    \<and> (\<forall>k. contents db d' (pfx_events @ k) =
        (case map_of (map (event_entry J) (em_events m)) k of Some v \<Rightarrow> Some v | None \<Rightarrow> contents db (em_db m) (pfx_events @ k)))"
proof -
  let ?es = "by_block (em_events m)" and ?ps = "map (event_entry J) (by_block (em_events m))"
  have mr: "map_r (\<lambda>e. bind_r (Event_serialize J e) (\<lambda>s. Inr (event_key e, stringToBytes s))) ?es = Inr ?ps"
    using assms(3,4) by (intro map_r_total) (simp add: event_text_facts(1) event_entry_def by_block_def)
  let ?b = "fold (\<lambda>(k, v). batch_push_back k v pfx_events) ?ps empty_batch"
  obtain ok d' where w: "DB_putBatch db ?b (em_db m) = (ok, d')" by fastforce
  then have "ok" using assms(2) by (auto simp: writes_ok_def DB_putBatch_def) (metis fst_conv)
  then have c: "contents db d' = contents db (em_db m) ++ map_of (rev (map (\<lambda>(k, v). (pfx_events @ k, v)) ?ps))"
    using DB_putBatch_contents[OF assms(1), of ?b "em_db m" d'] w by (simp add: push_all empty_batch_def)
  have keys: "map fst ?ps = map event_key ?es" by (simp add: event_entry_def comp_def)
  have "mset (map event_key ?es) = mset (map event_key (em_events m))" by (simp add: by_block_def)
  then have d: "distinct (map fst ?ps)" using assms(5) unfolding keys by (metis mset_eq_imp_distinct_iff)
  have "map_of (rev (map (\<lambda>(k, v). (pfx_events @ k, v)) ?ps)) (pfx_events @ k) = map_of (map (event_entry J) (em_events m)) k" for k
  proof -
    have "distinct (map fst (map (event_entry J) (em_events m)))" using assms(5) by (simp add: event_entry_def comp_def)
    then have "map_of (map (event_entry J) (em_events m)) = map_of (rev ?ps)"
      using d by (intro map_of_inject_set[THEN iffD2]) (simp_all add: rev_map[symmetric] by_block_def)
    then show ?thesis unfolding rev_map[of "\<lambda>(k, v). (pfx_events @ k, v)"] map_of_prefixed by simp
  qed
  then show ?thesis using mr w c by (auto simp: EventManager_save_def map_add_def split: option.split)
qed

lemma batch_entries:
  assumes "engine_ok db" "distinct (map event_key es)"
    "\<forall>k. contents db d (pfx @ k) = map_of (map (\<lambda>e. (f e, stringToBytes (event_text J e))) es) k" "inj_on f (set es)"
  shows "mset (DB_getBatch db d pfx []) = mset (map (\<lambda>e. (f e, stringToBytes (event_text J e))) es)"
proof -
  let ?l = "map (\<lambda>e. (f e, stringToBytes (event_text J e))) es"
  have de: "distinct es" using assms(2) by (simp add: distinct_map)
  have dk: "distinct (map fst ?l)" using assms(4) de by (simp add: comp_def distinct_map)
  have "set (DB_getBatch db d pfx []) = set ?l"
    using set_DB_getBatch[OF assms(1), of d pfx] map_of_eq_Some_iff[OF dk] unfolding assms(3)[rule_format] by auto
  moreover have "distinct (DB_getBatch db d pfx [])"
    using DB_getBatch_sorted[OF assms(1), of d pfx] by (simp add: strict_sorted_iff distinct_map)
  moreover have "distinct ?l" using dk distinct_map[of fst ?l] by blast
  ultimately show ?thesis using set_eq_iff_mset_eq_distinct by blast
qed

lemma inj_on_key: "distinct (map event_key es) \<Longrightarrow> inj_on event_key (set es)"
  by (simp add: distinct_map)

lemma load_saved:
  assumes "engine_ok db" "json_ok J" "\<forall>e\<in>set es. event_ok e" "distinct (map event_key es)"
    "\<forall>k. contents db d (pfx_events @ k) = map_of (map (event_entry J) es) k"
  shows "\<exists>es'. EventManager_make db J d = Inr \<lparr>em_events = es', em_tempEvents = [], em_db = d\<rparr> \<and> mset es' = mset es"
proof -
  let ?L = "DB_getBatch db d pfx_events []"
  have L: "mset ?L = mset (map (event_entry J) es)"
    using batch_entries[of db es d pfx_events event_key J] assms inj_on_key[OF assms(4)] by (simp add: event_entry_def[abs_def])
  then have sL: "set ?L = event_entry J ` set es" by (metis list.set_map set_mset_mset)
  have "map_r (\<lambda>(_, v). Event_parse J (bytesToString v)) ?L = Inr (map (read_entry J) ?L)"
    using sL assms(2,3) event_text_facts(3,4)[of J] by (intro map_r_total) (auto simp: case_prod_unfold)
  moreover have "mset (map (read_entry J) ?L) = mset es"
  proof -
    have "mset (map (read_entry J) ?L) = image_mset (read_entry J) (mset (map (event_entry J) es))" by (simp add: L)
    also have "\<dots> = mset (map (\<lambda>e. read_entry J (event_entry J e)) es)" by (simp add: comp_def multiset.map_comp)
    also have "\<dots> = mset es" using assms(2,3) by (simp add: event_text_facts(4) cong: map_cong)
    finally show ?thesis .
  qed
  ultimately show ?thesis by (simp add: EventManager_make_def)
qed

lemma load_capped_all:
  "length ret + length items \<le> cap \<Longrightarrow> (\<And>x. x \<in> set items \<Longrightarrow> Event_parse J (bytesToString (snd x)) = Inr (read_entry J x)) \<Longrightarrow>
    load_capped J cap items ret = Inr (ret @ map (read_entry J) items)"
proof (induction items arbitrary: ret)
  case (Cons x items)
  have "Event_parse J (bytesToString (snd x)) = Inr (read_entry J x)" by (rule Cons.prems(2)) simp
  then show ?case using Cons by (cases x) simp
qed simp

text \<open>The entries of one transaction: those whose key starts with its block and index.\<close>

lemma tx_contents:
  assumes "\<forall>k. contents db d (pfx_events @ k) = map_of (map (event_entry J) es) k" "distinct (map event_key es)"
    "\<forall>e\<in>set es. event_ok e" "blockIndex < 2 ^ 64" "txIndex < 2 ^ 64"
  shows "contents db d ((pfx_events @ uint64ToBytes blockIndex @ uint64ToBytes txIndex) @ k) =
    map_of (map (\<lambda>e. (drop 16 (event_key e), stringToBytes (event_text J e)))
      (filter (\<lambda>e. en_blockIndex e = blockIndex \<and> en_txIndex e = txIndex) es)) k"
proof -
  let ?p = "uint64ToBytes blockIndex @ uint64ToBytes txIndex"
  have "event_key e = ?p @ k \<longleftrightarrow> en_blockIndex e = blockIndex \<and> en_txIndex e = txIndex \<and> drop 16 (event_key e) = k"
    if "e \<in> set es" for e
    using that assms(3-5) uint64ToBytes_inj by (fastforce simp: event_key_def event_ok_def)
  then have "map_of (map (event_entry J) es) (?p @ k) =
      map_of (map (\<lambda>e. (drop 16 (event_key e), stringToBytes (event_text J e)))
        (filter (\<lambda>e. en_blockIndex e = blockIndex \<and> en_txIndex e = txIndex) es)) k"
  proof (induction es)
    case (Cons a es)
    have a: "event_key a = ?p @ k \<longleftrightarrow> en_blockIndex a = blockIndex \<and> en_txIndex a = txIndex \<and> drop 16 (event_key a) = k"
      by (rule Cons.prems) simp
    have ih: "map_of (map (event_entry J) es) (?p @ k) =
      map_of (map (\<lambda>e. (drop 16 (event_key e), stringToBytes (event_text J e)))
        (filter (\<lambda>e. en_blockIndex e = blockIndex \<and> en_txIndex e = txIndex) es)) k"
      by (rule Cons.IH, rule Cons.prems) simp
    show ?case
    proof (cases "event_key a = ?p @ k")
      case True
      then show ?thesis using a by (simp add: event_entry_def)
    next
      case False
      then have "map_of (map (event_entry J) (a # es)) (?p @ k) = map_of (map (event_entry J) es) (?p @ k)"
        by (simp add: event_entry_def)
      then show ?thesis using ih a False by (auto simp del: append_assoc)
    qed
  qed simp
  then show ?thesis using assms(1)[rule_format, of "?p @ k"] by simp
qed

lemma tx_entries:
  assumes "engine_ok db" "json_ok J" "\<forall>e\<in>set es. event_ok e" "distinct (map event_key es)"
    "\<forall>k. contents db d (pfx_events @ k) = map_of (map (event_entry J) es) k" "blockIndex < 2 ^ 64" "txIndex < 2 ^ 64"
  shows "mset (DB_getBatch db d (pfx_events @ uint64ToBytes blockIndex @ uint64ToBytes txIndex) []) =
    mset (map (\<lambda>e. (drop 16 (event_key e), stringToBytes (event_text J e)))
      (filter (\<lambda>e. en_blockIndex e = blockIndex \<and> en_txIndex e = txIndex) es))" (is "_ = mset (map _ ?F)")
proof (rule batch_entries[OF assms(1)])
  show "distinct (map event_key ?F)" using assms(4) by (simp add: distinct_map_filter)
  show "\<forall>k. contents db d ((pfx_events @ uint64ToBytes blockIndex @ uint64ToBytes txIndex) @ k) =
      map_of (map (\<lambda>e. (drop 16 (event_key e), stringToBytes (event_text J e))) ?F) k"
    using tx_contents[OF assms(5,4,3,6,7)] by blast
  have "event_key e = (uint64ToBytes blockIndex @ uint64ToBytes txIndex) @ drop 16 (event_key e)" if "e \<in> set ?F" for e
    using that by (simp add: event_key_def)
  then show "inj_on (\<lambda>e. drop 16 (event_key e)) (set ?F)"
    using inj_on_key[OF assms(4)] unfolding inj_on_def by (metis (no_types, lifting) filter_is_subset subsetD)
qed

lemma receipt_doubled:
  assumes "engine_ok db" "json_ok J" "\<forall>e\<in>set es. event_ok e" "distinct (map event_key es)"
    "\<forall>k. contents db d (pfx_events @ k) = map_of (map (event_entry J) es) k" "mset es' = mset es"
    "length es + length es \<le> logCap"
    "\<forall>e\<in>set es. en_blockIndex e = blockIndex \<and> en_txIndex e = txIndex \<longrightarrow> en_txHash e = txHash"
    "blockIndex < 2 ^ 64" "txIndex < 2 ^ 64"
  shows "\<exists>r. getEvents_tx db J logCap txHash blockIndex txIndex \<lparr>em_events = es', em_tempEvents = [], em_db = d\<rparr> = Inr r
    \<and> (\<forall>e\<in>set es. count (mset r) e = (if en_blockIndex e = blockIndex \<and> en_txIndex e = txIndex then 2 else 0))"
proof -
  let ?Q = "\<lambda>e. en_blockIndex e = blockIndex \<and> en_txIndex e = txIndex"
  let ?F = "filter ?Q es" and ?L = "DB_getBatch db d (pfx_events @ uint64ToBytes blockIndex @ uint64ToBytes txIndex) []"
  let ?f = "\<lambda>e. (drop 16 (event_key e), stringToBytes (event_text J e))"
  let ?mem = "filter ?Q (filter (\<lambda>e. en_txHash e = txHash) (by_txHash es'))"
  have L: "mset ?L = mset (map ?f ?F)" using tx_entries[OF assms(1-5,9,10)] .
  have sL: "set ?L = ?f ` set ?F" using arg_cong[OF L, of set_mset] by (simp only: set_mset_mset set_map)
  have rf: "Event_parse J (bytesToString (snd (?f e))) = Inr e" "read_entry J (?f e) = e" if "e \<in> set es" for e
    using event_text_facts(3,4)[OF assms(2), of e] assms(3) that by (simp_all add: event_entry_def read_entry_def)
  have mem: "mset ?mem = mset ?F"
  proof -
    have "mset ?mem = filter_mset ?Q (filter_mset (\<lambda>e. en_txHash e = txHash) (mset es))"
      by (simp only: mset_filter by_txHash_def mset_sort assms(6))
    also have "\<dots> = filter_mset ?Q (mset es)"
      using assms(8) by (auto simp: filter_filter_mset intro!: filter_mset_cong)
    finally show ?thesis by simp
  qed
  have lens: "length ?mem = length ?F" "length ?L = length ?F"
    using arg_cong[OF mem, of size] arg_cong[OF L, of size] by (simp_all only: size_mset length_map)
  have "length ?F \<le> length es" by (rule length_filter_le)
  then have cap: "length ?mem + length ?L \<le> logCap" using lens assms(7) by linarith
  have "load_capped J logCap ?L ?mem = Inr (?mem @ map (read_entry J) ?L)"
    using cap sL rf by (intro load_capped_all) auto
  moreover have "mset (map (read_entry J) ?L) = mset ?F"
  proof -
    have "mset (map (read_entry J) ?L) = image_mset (read_entry J) (mset (map ?f ?F))" by (simp add: L)
    also have "\<dots> = mset (map (\<lambda>e. read_entry J (?f e)) ?F)" by (simp add: comp_def multiset.map_comp)
    also have "map (\<lambda>e. read_entry J (?f e)) ?F = ?F" using rf(2) by (intro map_idI) auto
    finally show ?thesis .
  qed
  ultimately have "mset (?mem @ map (read_entry J) ?L) = mset ?F + mset ?F"
    and g: "getEvents_tx db J logCap txHash blockIndex txIndex \<lparr>em_events = es', em_tempEvents = [], em_db = d\<rparr>
      = Inr (?mem @ map (read_entry J) ?L)"
    using mem cap by (simp_all add: getEvents_tx_def del: mset_filter filter_filter)
  moreover have "count (mset ?F) e = (if ?Q e then 1 else 0)" if "e \<in> set es" for e
  proof -
    have "distinct es" using assms(4) by (simp only: distinct_map)
    then have "count (mset es) e = 1" using that by (simp only: distinct_count_atmost_1 if_True)
    then show ?thesis by simp
  qed
  ultimately show ?thesis by (intro exI[of _ "?mem @ map (read_entry J) ?L"]) simp
qed

section \<open>Properties\<close>

text \<open>
  Claim C25. Saving the events of a manager and loading them from the database gives the same events,
  whatever the order, when each event has its own key and the database holds no other events
  than those. Loading leaves the entries in the database; from then on the events of a
  transaction are found in memory and in the database, and a receipt lists each of them twice.
\<close>
theorem event_save_load:
  assumes "engine_ok db" "writes_ok db" "json_ok J"
    and "\<forall>e\<in>set (em_events m). event_ok e" "distinct (map event_key (em_events m))"
    and "\<forall>k. contents db (em_db m) (pfx_events @ k) \<noteq> None \<longrightarrow> k \<in> event_key ` set (em_events m)"
    and "length (em_events m) + length (em_events m) \<le> logCap"
    and "\<forall>e\<in>set (em_events m). en_blockIndex e = blockIndex \<and> en_txIndex e = txIndex \<longrightarrow> en_txHash e = txHash"
    and "blockIndex < 2 ^ 64" "txIndex < 2 ^ 64"
  shows "\<exists>d' m' es. EventManager_save db J m = Inr d' \<and> EventManager_make db J d' = Inr m'
    \<and> mset (em_events m') = mset (em_events m) \<and> em_db m' = d'
    \<and> getEvents_tx db J logCap txHash blockIndex txIndex m' = Inr es
    \<and> (\<forall>e\<in>set (em_events m). count (mset es) e = (if en_blockIndex e = blockIndex \<and> en_txIndex e = txIndex then 2 else 0))"
proof -
  obtain d' where d': "EventManager_save db J m = Inr d'"
    and c: "\<And>k. contents db d' (pfx_events @ k) = (case map_of (map (event_entry J) (em_events m)) k of
        Some v \<Rightarrow> Some v | None \<Rightarrow> contents db (em_db m) (pfx_events @ k))"
    using save_contents[OF assms(1-5)] by blast
  have "contents db d' (pfx_events @ k) = map_of (map (event_entry J) (em_events m)) k" for k
  proof (cases "map_of (map (event_entry J) (em_events m)) k")
    case None
    then have "k \<notin> event_key ` set (em_events m)"
      by (simp add: map_of_eq_None_iff event_entry_def image_image)
    then show ?thesis using c[of k] None assms(6) by auto
  qed (simp add: c)
  then have cc: "\<forall>k. contents db d' (pfx_events @ k) = map_of (map (event_entry J) (em_events m)) k" by blast
  obtain es' where m': "EventManager_make db J d' = Inr \<lparr>em_events = es', em_tempEvents = [], em_db = d'\<rparr>"
    and ms: "mset es' = mset (em_events m)"
    using load_saved[OF assms(1,3,4,5) cc] by blast
  from receipt_doubled[OF assms(1,3,4,5) cc ms assms(7-10)]
  show ?thesis using d' m' ms by force
qed

text \<open>Sorted lists, cut at the first element above a bound.\<close>

lemma dropWhile_sorted_key:
  "sorted (map f es) \<Longrightarrow> dropWhile (\<lambda>e. f e < a) es = filter (\<lambda>e. a \<le> f e) es" for f :: "'b \<Rightarrow> 'a :: linorder"
proof (induction es)
  case (Cons x es)
  then have "filter (\<lambda>e. a \<le> f e) es = es" if "a \<le> f x"
    using that by (intro filter_True) auto
  with Cons show ?case by (auto simp: not_less)
qed simp

lemma matchTopics_prefix: "matchTopics e topics \<longleftrightarrow> prefix topics (en_topics e)"
proof
  assume m: "matchTopics e topics"
  then have l: "length topics \<le> length (en_topics e)" by (auto simp: matchTopics_def split: if_splits)
  have "take (length topics) (en_topics e) = topics"
    using m l by (intro nth_equalityI) (auto simp: matchTopics_def list_all_iff split: if_splits)
  then show "prefix topics (en_topics e)" using take_is_prefix[of "length topics" "en_topics e"] by simp
next
  assume "prefix topics (en_topics e)"
  then obtain zs where "en_topics e = topics @ zs" by (auto simp: prefix_def)
  then show "matchTopics e topics" by (simp add: matchTopics_def list_all_iff nth_append)
qed

lemma load_matching_all:
  "(\<And>x. x \<in> set items \<Longrightarrow> Event_parse J (bytesToString (snd x)) = Inr (read_entry J x)) \<Longrightarrow>
    load_matching J cap topics items ret =
      Inr (ret @ take (cap - length ret) (filter (\<lambda>e. matchTopics e topics) (map (read_entry J) items)))"
proof (induction items arbitrary: ret)
  case (Cons x items)
  have x: "Event_parse J (bytesToString (snd x)) = Inr (read_entry J x)" by (rule Cons.prems) simp
  show ?case
  proof (cases "length ret \<ge> cap")
    case False
    then obtain n where "cap - length ret = Suc n" "cap - Suc (length ret) = n" using not_le by (metis Suc_diff_Suc)
    then show ?thesis using False x Cons by (cases x) simp
  qed (cases x, simp)
qed simp

subsection \<open>The keys of a range of blocks\<close>

lemma be_val_le: "length xs = length ys \<Longrightarrow> xs \<le> ys \<longleftrightarrow> be_val xs \<le> be_val ys"
proof (induction xs ys rule: list_induct2)
  case (Cons x xs y ys)
  let ?n = "256 ^ length ys :: nat"
  have lt: "be_val xs < ?n" "be_val ys < ?n" using be_val_less[of xs] be_val_less[of ys] Cons.hyps by simp_all
  have less: "unat u * ?n + p < unat v * ?n + q" if "unat u < unat v" "p < ?n" for u v :: byte and p q
  proof -
    have "(unat u + 1) * ?n \<le> unat v * ?n" using that(1) by (intro mult_le_mono1) simp
    then show ?thesis using that(2) by simp
  qed
  have "unat x * ?n + be_val xs \<le> unat y * ?n + be_val ys \<longleftrightarrow> unat x < unat y \<or> unat x = unat y \<and> be_val xs \<le> be_val ys"
    using less[OF _ lt(1), of x y "be_val ys"] less[OF _ lt(2), of y x "be_val xs"]
    by (cases "unat x" "unat y" rule: linorder_cases) auto
  then show ?case using Cons by (simp add: be_val_Cons word_less_nat_alt word_unat_eq_iff)
qed simp

lemma append_less: "length xs = length ys \<Longrightarrow> xs < ys \<Longrightarrow> xs @ zs < ys" for xs ys :: bytes
  by (induction xs ys rule: list_induct2) auto

text \<open>A key starts with the height of the block, so the bound of a range is below the keys of its last block.\<close>

definition key_block :: "bytes \<Rightarrow> nat" where
  "key_block k = be_val (take 8 k)"

definition key_address :: "bytes \<Rightarrow> address" where
  "key_address k = take 20 (drop 24 k)"

lemma key_range:
  assumes "length k = 44" "lo < 2 ^ 64" "hi < 2 ^ 64"
  shows "uint64ToBytes lo \<le> k \<and> k \<le> uint64ToBytes hi \<longleftrightarrow> lo \<le> key_block k \<and> key_block k < hi"
proof -
  let ?a = "take 8 k" and ?b = "drop 8 k"
  have k: "k = ?a @ ?b" "length ?a = 8" "?b \<noteq> []" using assms(1) by auto
  have v: "be_val (uint64ToBytes lo) = lo" "be_val (uint64ToBytes hi) = hi" using assms(2,3) by (simp_all add: be_val_uint64ToBytes)
  have le: "?a \<le> k" by (rule prefix_le) (simp add: take_is_prefix)
  have cmp: "p \<le> ?a \<longleftrightarrow> be_val p \<le> key_block k" "?a \<le> p \<longleftrightarrow> key_block k \<le> be_val p" if "length p = 8" for p
    using be_val_le[of p ?a] be_val_le[of ?a p] that k(2) by (simp_all add: key_block_def)
  have below: "k < p \<longleftrightarrow> ?a < p" if "length p = 8" for p
    using append_less[of ?a p ?b] that k(2) le by (metis append_take_drop_id le_less_trans)
  have "uint64ToBytes lo \<le> k \<longleftrightarrow> lo \<le> key_block k"
    using below[of "uint64ToBytes lo"] cmp[of "uint64ToBytes lo"] v by (auto simp: not_less[symmetric])
  moreover have "k \<le> uint64ToBytes hi \<longleftrightarrow> key_block k < hi"
  proof -
    have "k \<noteq> uint64ToBytes hi" using assms(1) by (metis length_uint64ToBytes numeral_eq_iff semiring_norm(87,88))
    then have "k \<le> uint64ToBytes hi \<longleftrightarrow> k < uint64ToBytes hi" by auto
    also have "\<dots> \<longleftrightarrow> \<not> uint64ToBytes hi \<le> ?a" using below[of "uint64ToBytes hi"] by (simp add: not_le)
    finally show ?thesis using cmp[of "uint64ToBytes hi"] v by (simp add: not_le)
  qed
  ultimately show ?thesis by blast
qed

lemma select_keys_eq:
  "\<forall>k\<in>set ks. length k = 44 \<Longrightarrow> select_keys lo hi a ks =
    Inr (filter (\<lambda>k. lo \<le> key_block k \<and> key_block k \<le> hi \<and> (a = zero_address \<or> a = key_address k)) ks)"
  by (induction ks) (auto simp: create_view_span_def bytesToUint64_eq key_block_def key_address_def)

text \<open>The stored events that the query means, up to the last block.\<close>

definition db_hits :: "nat \<Rightarrow> nat \<Rightarrow> address \<Rightarrow> (bytes \<times> bytes) list \<Rightarrow> (bytes \<times> bytes) list" where
  "db_hits lo hi a = filter (\<lambda>(k, _). lo \<le> key_block k \<and> key_block k < hi \<and> (a = zero_address \<or> a = key_address k))"

lemma getBatch_keys:
  assumes "distinct keys" "keys \<noteq> []"
  shows "DB_getBatch e d pfx keys = filter (\<lambda>(k, _). k \<in> set keys) (DB_getBatch e d pfx [])"
proof -
  have one: "concat (map (\<lambda>key. if k = key then [x] else []) keys) = (if k \<in> set keys then [x] else [])" for k and x :: "bytes \<times> bytes"
    using assms(1) by (induction keys) auto
  have "concat (map (\<lambda>(k, v). concat (map (\<lambda>key. if k = key then [(k, v)] else []) keys)) es) =
      filter (\<lambda>(k, _). k \<in> set keys) es" for es :: "(bytes \<times> bytes) list"
  proof (induction es)
    case (Cons x es)
    then show ?case by (cases x) (simp add: one)
  qed simp
  then show ?thesis using assms(2) by (simp add: DB_getBatch_def Let_def)
qed

lemma filterFromDB_batch:
  assumes "engine_ok db" "\<forall>k. contents db (em_db m) (pfx_events @ k) \<noteq> None \<longrightarrow> length k = 44"
    and "lo < 2 ^ 64" "hi < 2 ^ 64"
  shows "filterFromDB db J logCap lo hi a topics m =
    (let es = DB_getBatch db (em_db m) pfx_events []; hits = db_hits lo hi a es
     in load_matching J logCap topics (if hits = [] then es else hits) [])"
proof -
  let ?L = "DB_getBatch db (em_db m) pfx_events []"
  let ?c = "\<lambda>k. lo \<le> key_block k \<and> key_block k < hi \<and> (a = zero_address \<or> a = key_address k)"
  have len: "length k = 44" if "k \<in> set (map fst ?L)" for k
    using that assms(2) set_DB_getBatch[OF assms(1), of "em_db m" pfx_events] by auto
  let ?K = "DB_getKeys db (em_db m) pfx_events (uint64ToBytes lo) (uint64ToBytes hi)"
  have K: "?K = filter (\<lambda>k. lo \<le> key_block k \<and> key_block k < hi) (map fst ?L)"
    unfolding DB_getKeys_eq[OF assms(1)] by (rule filter_cong[OF refl]) (rule key_range[OF len assms(3,4)])
  have sel: "select_keys lo hi a ?K = Inr (filter ?c (map fst ?L))"
    using select_keys_eq[of ?K lo hi a] len by (auto simp: K conj_ac intro!: filter_cong)
  have hits: "db_hits lo hi a ?L = filter (\<lambda>x. ?c (fst x)) ?L" by (simp add: db_hits_def split_def)
  have "distinct (map fst ?L)" using DB_getBatch_sorted[OF assms(1), of "em_db m" pfx_events] by (simp add: strict_sorted_iff)
  then have dist: "distinct (filter ?c (map fst ?L))" by simp
  have empty: "filter ?c (map fst ?L) = [] \<longleftrightarrow> db_hits lo hi a ?L = []" by (simp add: hits filter_map comp_def)
  have "DB_getBatch db (em_db m) pfx_events (filter ?c (map fst ?L)) = (if db_hits lo hi a ?L = [] then ?L else db_hits lo hi a ?L)"
  proof (cases "db_hits lo hi a ?L = []")
    case False
    have "DB_getBatch db (em_db m) pfx_events (filter ?c (map fst ?L)) = filter (\<lambda>(k, _). k \<in> set (filter ?c (map fst ?L))) ?L"
      by (rule getBatch_keys[OF dist]) (use False empty in blast)
    also have "\<dots> = db_hits lo hi a ?L" unfolding hits by (rule filter_cong[OF refl]) (auto simp: split_def)
    finally show ?thesis using False by simp
  next
    case True
    then have "filter ?c (map fst ?L) = []" using empty by blast
    then show ?thesis using True by (simp only: simp_thms if_True)
  qed
  then show ?thesis by (simp add: filterFromDB_def sel Let_def)
qed

text \<open>
  Claim C26. What queries for events return. The topics of a query are matched as a prefix of
  the topics of an event. A query of the events in memory for one address goes through the events
  in the order of their addresses from that address on, does not stop at the next address, and
  stops for good at the first event of a later block than \<open>toBlock\<close>: without such an event it
  returns the events of every address from this one on, and such an event hides all behind it.
  A query of the database returns the events of the address in the blocks from \<open>fromBlock\<close> to
  the one before \<open>toBlock\<close>, because the upper bound excludes the longer keys of that block; when there
  is none, as always in a query of one block, the empty list of keys makes the database return the
  events of all blocks and all addresses. Both are cut at the cap after matching the topics.
\<close>
theorem event_queries_overreach:
  assumes "engine_ok db" "\<forall>k. contents db (em_db m) (pfx_events @ k) \<noteq> None \<longrightarrow> length k = 44"
    and "\<forall>k v. contents db (em_db m) (pfx_events @ k) = Some v \<longrightarrow> (\<exists>e. Event_parse J (bytesToString v) = Inr e)"
    and "address \<noteq> zero_address" "fromBlock < 2 ^ 64" "toBlock < 2 ^ 64"
  shows "(matchTopics e topics \<longleftrightarrow> prefix topics (en_topics e))
    \<and> ((\<forall>e\<in>set (em_events m). address \<le> en_address e \<longrightarrow> en_blockIndex e \<le> toBlock) \<longrightarrow>
        set (filterFromMemory fromBlock toBlock address m) =
        {e \<in> set (em_events m). address \<le> en_address e \<and> fromBlock \<le> en_blockIndex e})
    \<and> (\<forall>xs e ys. filter (\<lambda>e. address \<le> en_address e) (by_address (em_events m)) = xs @ e # ys
          \<and> (\<forall>x\<in>set xs. en_blockIndex x \<le> toBlock) \<and> toBlock < en_blockIndex e \<longrightarrow>
        filterFromMemory fromBlock toBlock address m = filter (\<lambda>x. fromBlock \<le> en_blockIndex x) xs)
    \<and> (let es = DB_getBatch db (em_db m) pfx_events []; hits = db_hits fromBlock toBlock address es
       in filterFromDB db J logCap fromBlock toBlock address topics m =
            Inr (take logCap (filter (\<lambda>e. matchTopics e topics) (map (read_entry J) (if hits = [] then es else hits)))))
    \<and> db_hits fromBlock fromBlock address es = []"
proof (intro conjI)
  show "matchTopics e topics \<longleftrightarrow> prefix topics (en_topics e)" by (rule matchTopics_prefix)
  have "dropWhile (\<lambda>e. en_address e < address) (by_address (em_events m))
      = filter (\<lambda>e. address \<le> en_address e) (by_address (em_events m))"
    by (rule dropWhile_sorted_key) (simp add: by_address_def)
  then have mem: "filterFromMemory fromBlock toBlock address m = filter (\<lambda>e. fromBlock \<le> en_blockIndex e)
      (takeWhile (\<lambda>e. en_blockIndex e \<le> toBlock) (filter (\<lambda>e. address \<le> en_address e) (by_address (em_events m))))"
    using assms(4) by (simp only: filterFromMemory_def if_True not_False_eq_True)
  show "(\<forall>e\<in>set (em_events m). address \<le> en_address e \<longrightarrow> en_blockIndex e \<le> toBlock) \<longrightarrow>
      set (filterFromMemory fromBlock toBlock address m) =
      {e \<in> set (em_events m). address \<le> en_address e \<and> fromBlock \<le> en_blockIndex e}"
    unfolding mem by (auto simp: by_address_def takeWhile_eq_all_conv[THEN iffD2])
  show "\<forall>xs e ys. filter (\<lambda>e. address \<le> en_address e) (by_address (em_events m)) = xs @ e # ys
      \<and> (\<forall>x\<in>set xs. en_blockIndex x \<le> toBlock) \<and> toBlock < en_blockIndex e \<longrightarrow>
      filterFromMemory fromBlock toBlock address m = filter (\<lambda>x. fromBlock \<le> en_blockIndex x) xs"
    unfolding mem by (auto simp: takeWhile_tail)
  let ?L = "DB_getBatch db (em_db m) pfx_events []"
  have p: "Event_parse J (bytesToString (snd x)) = Inr (read_entry J x)" if "x \<in> set ?L" for x
  proof -
    have "contents db (em_db m) (pfx_events @ fst x) = Some (snd x)"
      using that unfolding set_DB_getBatch[OF assms(1)] by auto
    then show ?thesis using assms(3) by (fastforce simp: read_entry_def)
  qed
  have sub: "set (db_hits fromBlock toBlock address ?L) \<subseteq> set ?L" by (auto simp: db_hits_def)
  let ?H = "if db_hits fromBlock toBlock address ?L = [] then ?L else db_hits fromBlock toBlock address ?L"
  have "Event_parse J (bytesToString (snd x)) = Inr (read_entry J x)" if "x \<in> set ?H" for x
    using that sub by (intro p) (auto split: if_splits)
  from load_matching_all[OF this, where cap = logCap and topics = topics and ret = "[]"]
  show "let es = ?L; hits = db_hits fromBlock toBlock address es
     in filterFromDB db J logCap fromBlock toBlock address topics m =
          Inr (take logCap (filter (\<lambda>e. matchTopics e topics) (map (read_entry J) (if hits = [] then es else hits))))"
    unfolding filterFromDB_batch[OF assms(1,2,5,6)] Let_def by simp
  show "db_hits fromBlock fromBlock address es = []" by (auto simp: db_hits_def filter_empty_conv)
qed

section \<open>Witnesses\<close>

text \<open>A JSON library that numbers the values and writes the number in unary.\<close>

instance json :: countable
  by countable_datatype

definition unary_json :: json_lib where
  "unary_json = \<lparr>js_dump = (\<lambda>j. Inr (replicate (to_nat j) (CHR ''1''))), js_parse = (\<lambda>s. Inr (from_nat (length s)))\<rparr>"

lemma unary_json_ok: "json_ok unary_json"
  by (simp add: json_ok_def unary_json_def)

definition sample_event :: Event where
  "sample_event = \<lparr>en_name = ''Transfer'', en_logIndex = 0, en_txHash = replicate 32 1, en_txIndex = 0,
     en_blockHash = replicate 32 2, en_blockIndex = 3, en_address = replicate 20 5, en_data = [1, 2],
     en_topics = [replicate 32 9], en_anonymous = False\<rparr>"

lemma sample_event_ok: "event_ok sample_event" "event_ok (sample_event\<lparr>en_address := replicate 20 6\<rparr>)"
  by (simp_all add: event_ok_def sample_event_def ascii_def)

theorem event_save_load_witness:
  "\<exists>d' m' es. EventManager_save table_engine unary_json \<lparr>em_events = [sample_event], em_tempEvents = [], em_db = empty_table\<rparr> = Inr d'
     \<and> EventManager_make table_engine unary_json d' = Inr m' \<and> mset (em_events m') = {#sample_event#}
     \<and> getEvents_tx table_engine unary_json 10 (replicate 32 1) 3 0 m' = Inr es \<and> count (mset es) sample_event = 2"
proof -
  let ?m = "\<lparr>em_events = [sample_event], em_tempEvents = [], em_db = empty_table\<rparr>"
  have f: "en_blockIndex sample_event = 3" "en_txIndex sample_event = 0" "en_txHash sample_event = replicate 32 1"
    by (simp_all add: sample_event_def)
  have "writes_ok table_engine" by (simp add: writes_ok_def)
  moreover have "\<forall>k. contents table_engine (em_db ?m) (pfx_events @ k) \<noteq> None \<longrightarrow> k \<in> event_key ` set (em_events ?m)"
    by (simp add: contents_def empty_table.rep_eq)
  ultimately show ?thesis
    using event_save_load[OF table_engine_ok _ unary_json_ok, of ?m 10 3 0 "replicate 32 1"] sample_event_ok(1) f by auto
qed

theorem event_queries_overreach_witness:
  "let e = sample_event; e' = sample_event\<lparr>en_address := replicate 20 6\<rparr>;
       d = table_write [Put (pfx_events @ event_key e) (stringToBytes (event_text unary_json e))] empty_table;
       m = \<lparr>em_events = [e'], em_tempEvents = [], em_db = d\<rparr> in
   e' \<in> set (filterFromMemory 0 9 (replicate 20 5) m)
   \<and> filterFromDB table_engine unary_json 10 7 9 (replicate 20 4) [] m = Inr [e]"
proof -
  let ?e = sample_event and ?e' = "sample_event\<lparr>en_address := replicate 20 6\<rparr>"
  let ?v = "stringToBytes (event_text unary_json ?e)"
  let ?d = "table_write [Put (pfx_events @ event_key ?e) ?v] empty_table"
  let ?m = "\<lparr>em_events = [?e'], em_tempEvents = [], em_db = ?d\<rparr>"
  have parse: "Event_parse unary_json (bytesToString ?v) = Inr ?e"
    using event_text_facts(2)[OF unary_json_ok sample_event_ok(1)] by (simp add: bytesToString_inverse)
  have en: "entries_of ?d = [(pfx_events @ event_key ?e, ?v)]" by (simp add: table_write.rep_eq empty_table.rep_eq)
  have len: "length (event_key ?e) = 44" by (simp add: event_key_def sample_event_def)
  have c: "contents table_engine ?d (pfx_events @ k) = (if k = event_key ?e then Some ?v else None)" for k
    by (simp add: contents_def en)
  have "replicate 20 5 \<noteq> zero_address" "replicate 20 4 \<noteq> zero_address"
    by (simp_all add: zero_address_def replicate_eq_replicate)
  moreover have "replicate 20 5 \<le> (replicate 20 6 :: address)"
  proof -
    have "replicate 20 x = x # replicate 19 x" for x :: byte using replicate_Suc[of 19 x] by simp
    then show ?thesis by simp
  qed
  moreover have "DB_getBatch table_engine ?d pfx_events [] = [(event_key ?e, ?v)]"
    by (simp add: DB_getBatch_def seek_def strip_def starts_with_def pfx_events_def en[unfolded pfx_events_def, simplified])
  moreover have b: "en_blockIndex ?e' = 3" "en_address ?e' = replicate 20 6" by (simp_all add: sample_event_def)
  moreover have "matchTopics ?e []" by (simp add: matchTopics_def)
  moreover have "key_block (event_key ?e) = 3" by (simp add: key_block_def event_key_def b[simplified] be_val_uint64ToBytes)
  moreover have "read_entry unary_json (event_key ?e, ?v) = ?e" using parse by (simp add: read_entry_def)
  ultimately show ?thesis
    using event_queries_overreach[OF table_engine_ok, where m = ?m and J = unary_json and address = "replicate 20 5"
          and fromBlock = 0 and toBlock = 9 and logCap = 10 and topics = "[]"]
      event_queries_overreach[OF table_engine_ok, where m = ?m and J = unary_json and address = "replicate 20 4"
          and fromBlock = 7 and toBlock = 9 and logCap = 10 and topics = "[]"] c len parse
    by (simp add: Let_def db_hits_def)
qed

end
