(* ===== verification/Abi_Codec.thy ===== *)
theory Abi_Codec
  imports Tx_Rlp Safe_Int Events
begin

text \<open>
  The Solidity ABI of \<^verbatim>\<open>src/src/contract/abi.h\<close> and \<^verbatim>\<open>abi.cpp\<close>: the names of types, the
  selectors of functions and events, the encoder of call data, the encoder of event topics
  and event data, and the decoder. The C++ templates are specialised by type; here the type
  is a value, an element of \<open>abi_type\<close>, and a template is a recursive function of it.
\<close>

section \<open>Types and values\<close>

text \<open>
  \<open>TUint n\<close> and \<open>TInt n\<close> are \<^verbatim>\<open>uintN_t\<close> and \<^verbatim>\<open>intN_t\<close>, \<open>TVec t\<close> is \<^verbatim>\<open>std::vector<T>\<close> and
  \<open>TTuple ts\<close> is \<^verbatim>\<open>std::tuple<Ts...>\<close>. An enumeration is encoded as its \<^verbatim>\<open>uint8_t\<close> value and
  is not a type of its own here.
\<close>

datatype abi_type =
    TUint nat | TInt nat | TAddress | TBool | THash | TBytes | TString
  | TVec abi_type | TTuple "abi_type list"

datatype abi_val =
    VUint nat | VInt int | VAddress bytes | VBool bool | VHash bytes | VBytes bytes | VString string
  | VVec "abi_val list" | VTuple "abi_val list"

text \<open>The value is one of the C++ type; a size is a \<^verbatim>\<open>size_t\<close>.\<close>

primrec has_type :: "abi_type \<Rightarrow> abi_val \<Rightarrow> bool" where
  "has_type (TUint n) v = (case v of VUint k \<Rightarrow> k < 2 ^ n | _ \<Rightarrow> False)"
| "has_type (TInt n) v = (case v of VInt k \<Rightarrow> int_ok n k | _ \<Rightarrow> False)"
| "has_type TAddress v = (case v of VAddress a \<Rightarrow> length a = 20 | _ \<Rightarrow> False)"
| "has_type TBool v = (case v of VBool b \<Rightarrow> True | _ \<Rightarrow> False)"
| "has_type THash v = (case v of VHash h \<Rightarrow> length h = 32 | _ \<Rightarrow> False)"
| "has_type TBytes v = (case v of VBytes b \<Rightarrow> length b < 2 ^ 64 | _ \<Rightarrow> False)"
| "has_type TString v = (case v of VString s \<Rightarrow> length s < 2 ^ 64 | _ \<Rightarrow> False)"
| "has_type (TVec t) v = (case v of VVec vs \<Rightarrow> length vs < 2 ^ 64 \<and> list_all (has_type t) vs | _ \<Rightarrow> False)"
| "has_type (TTuple ts) v =
     (case v of VTuple vs \<Rightarrow> list_all2 (\<lambda>p x. p x) (map has_type ts) vs | _ \<Rightarrow> False)"

text \<open>
  The types the templates take: the widths of \<^verbatim>\<open>utils.h\<close>, no vector of \<^verbatim>\<open>uint8_t\<close> (that is
  \<^verbatim>\<open>Bytes\<close>) and no empty tuple (the sum over its types does not compile).
\<close>

definition width_ok :: "nat \<Rightarrow> bool" where
  "width_ok n \<longleftrightarrow> 8 \<le> n \<and> n \<le> 256 \<and> n mod 8 = 0"

fun type_ok :: "abi_type \<Rightarrow> bool" where
  "type_ok (TUint n) = width_ok n"
| "type_ok (TInt n) = width_ok n"
| "type_ok (TVec t) = (t \<noteq> TUint 8 \<and> type_ok t)"
| "type_ok (TTuple ts) = (ts \<noteq> [] \<and> list_all type_ok ts)"
| "type_ok t = True"

section \<open>Layout\<close>

text \<open>\<^verbatim>\<open>isDynamic\<close>, with \<^verbatim>\<open>isTupleOfDynamicTypes\<close> for the tuples.\<close>

primrec isDynamic :: "abi_type \<Rightarrow> bool" where
  "isDynamic (TUint n) = False"
| "isDynamic (TInt n) = False"
| "isDynamic TAddress = False"
| "isDynamic TBool = False"
| "isDynamic THash = False"
| "isDynamic TBytes = True"
| "isDynamic TString = True"
| "isDynamic (TVec t) = True"
| "isDynamic (TTuple ts) = list_ex id (map isDynamic ts)"

definition calculateOffsetForType :: "abi_type \<Rightarrow> nat" where
  "calculateOffsetForType t =
     (if isDynamic t then 32 else case t of TTuple ts \<Rightarrow> 32 * length ts | _ \<Rightarrow> 32)"

definition calculateTotalOffset :: "abi_type list \<Rightarrow> nat" where
  "calculateTotalOffset ts = sum_list (map calculateOffsetForType ts) mod 2 ^ 64"

section \<open>Names of types and selectors\<close>

text \<open>\<^verbatim>\<open>std::to_string\<close> of a width.\<close>

fun dec_digits :: "nat \<Rightarrow> string" where
  "dec_digits n = (if n < 10 then [char_of (48 + n)] else dec_digits (n div 10) @ [char_of (48 + n mod 10)])"

declare dec_digits.simps [simp del]

text \<open>The fold that appends each name and a comma, then drops the last comma.\<close>

definition comma_list :: "string list \<Rightarrow> string" where
  "comma_list names =
     (let result = foldl (\<lambda>r n. r @ (n @ '','')) '''' names
      in if result \<noteq> '''' then butlast result else result)"

primrec TypeName :: "abi_type \<Rightarrow> string" where
  "TypeName (TUint n) = ''uint'' @ dec_digits n"
| "TypeName (TInt n) = ''int'' @ dec_digits n"
| "TypeName TAddress = ''address''"
| "TypeName TBool = ''bool''"
| "TypeName THash = ''bytes32''"
| "TypeName TBytes = ''bytes''"
| "TypeName TString = ''string''"
| "TypeName (TVec t) = TypeName t @ ''[]''"
| "TypeName (TTuple ts) = ''('' @ comma_list (map TypeName ts) @ '')''"

definition listArgumentTypes :: "abi_type list \<Rightarrow> string" where
  "listArgumentTypes ts = comma_list (map TypeName ts)"

definition listArgumentTypesV :: "abi_type list \<Rightarrow> string list" where
  "listArgumentTypesV ts = map TypeName ts"

definition listEventTypesV :: "(abi_type \<times> bool) list \<Rightarrow> (string \<times> bool) list" where
  "listEventTypesV ps = map (\<lambda>(t, indexed). (TypeName t, indexed)) ps"

definition fullSig :: "string \<Rightarrow> abi_type list \<Rightarrow> string" where
  "fullSig name ts = name @ ''('' @ listArgumentTypes ts @ '')''"

definition FunctorEncoder_encode :: "crypto \<Rightarrow> string \<Rightarrow> abi_type list \<Rightarrow> bytes" where
  "FunctorEncoder_encode c funcSig ts = take 4 (keccak c (stringToBytes (fullSig funcSig ts)))"

definition EventEncoder_encodeSignature :: "crypto \<Rightarrow> string \<Rightarrow> abi_type list \<Rightarrow> bytes" where
  "EventEncoder_encodeSignature c funcSig ts = keccak c (stringToBytes (fullSig funcSig ts))"

section \<open>Encoder\<close>

definition encodeUint :: "crypto \<Rightarrow> nat \<Rightarrow> bytes" where
  "encodeUint c num = copy_tail 32 0 (export_bits c num) (replicate 32 0)"

text \<open>
  The first 32 bytes of an \<^verbatim>\<open>int256_t\<close> in memory: four 64-bit limbs, the least significant
  first. Only the limbs the magnitude needs (at least one) are written; the bytes of the
  others are whatever the stack held, the argument \<open>junk\<close>.
\<close>

definition used_bytes :: "nat \<Rightarrow> nat" where
  "used_bytes m = 8 * max 1 ((bytesRequired m + 7) div 8)"

definition int_memory :: "bytes \<Rightarrow> nat \<Rightarrow> bytes" where
  "int_memory junk m = le_image (used_bytes m) m @ drop (used_bytes m) junk"

text \<open>
  \<^verbatim>\<open>encodeInt\<close>. A negative number: the complement of the bytes of the negated value as they
  lie in memory, then the loop that adds one.
\<close>

definition encodeInt :: "crypto \<Rightarrow> bytes \<Rightarrow> int \<Rightarrow> bytes" where
  "encodeInt c junk num =
     (if num < 0
      then add_one_loop 31 (map (\<lambda>p. NOT (int_memory junk (nat (- num)) ! (31 - p))) [0..<32])
      else copy_tail 32 0 (export_bits c (nat num)) (replicate 32 0))"

text \<open>
  The loop \<^verbatim>\<open>do { pad += 32; } while (pad < size)\<close>. The counter is an \<^verbatim>\<open>int\<close>: from \<open>2 ^ 31 - 32\<close>
  bytes on it overflows, which is undefined and outside this definition.
\<close>

function pad_loop :: "nat \<Rightarrow> nat \<Rightarrow> nat" where
  "pad_loop pad sz = (if pad + 32 < sz then pad_loop (pad + 32) sz else pad + 32)"
  by pat_completeness auto
termination
  by (relation "measure (\<lambda>(pad, sz). sz - pad)") auto

declare pad_loop.simps [simp del]

definition word32 :: "nat \<Rightarrow> bytes" where
  "word32 n = padLeftBytes (uintToBytes n) 32 0"

definition encode_bytes :: "bytes \<Rightarrow> bytes" where
  "encode_bytes bs = word32 (length bs) @ padRightBytes bs (pad_loop 0 (length bs)) 0"

text \<open>
  The lambda \<^verbatim>\<open>encodeItem\<close> over the items of a tuple or of an argument list, each with its
  \<^verbatim>\<open>isDynamic\<close> and its own encoding: \<open>off\<close> is \<^verbatim>\<open>nextOffset\<close>, \<open>res\<close> the head part and \<open>dyn\<close> the
  tail part.
\<close>

fun encodeItems :: "nat \<Rightarrow> bytes \<Rightarrow> bytes \<Rightarrow> (bool \<times> bytes) list \<Rightarrow> bytes" where
  "encodeItems off res dyn [] = res @ dyn"
| "encodeItems off res dyn ((d, packed) # items) =
     (if d then encodeItems ((off + length packed) mod 2 ^ 64) (res @ word32 off) (dyn @ packed) items
      else encodeItems off (res @ packed) dyn items)"

text \<open>The loop over a vector of dynamic elements.\<close>

fun encodeElems :: "crypto \<Rightarrow> nat \<Rightarrow> bytes \<Rightarrow> bytes \<Rightarrow> bytes list \<Rightarrow> bytes \<times> bytes" where
  "encodeElems c off offs data [] = (offs, data)"
| "encodeElems c off offs data (p # ps) =
     encodeElems c ((off + length p) mod 2 ^ 64) (offs @ uint256ToBytes (export_bits c) off) (data @ p) ps"

text \<open>
  \<^verbatim>\<open>Encoder::TypeEncoder<T>::encode\<close>. The type fixes the constructor of the value; the other
  cases of the value do not exist in the program.
\<close>

primrec TypeEncoder :: "crypto \<Rightarrow> bytes \<Rightarrow> abi_type \<Rightarrow> abi_val \<Rightarrow> bytes" where
  "TypeEncoder c junk (TUint n) v = (case v of VUint k \<Rightarrow> encodeUint c k | _ \<Rightarrow> [])"
| "TypeEncoder c junk (TInt n) v = (case v of VInt k \<Rightarrow> encodeInt c junk k | _ \<Rightarrow> [])"
| "TypeEncoder c junk TAddress v = (case v of VAddress a \<Rightarrow> padLeftBytes a 32 0 | _ \<Rightarrow> [])"
| "TypeEncoder c junk TBool v =
     (case v of VBool b \<Rightarrow> padLeftBytes (if b then [1] else [0]) 32 0 | _ \<Rightarrow> [])"
| "TypeEncoder c junk THash v = (case v of VHash h \<Rightarrow> h | _ \<Rightarrow> [])"
| "TypeEncoder c junk TBytes v = (case v of VBytes b \<Rightarrow> encode_bytes b | _ \<Rightarrow> [])"
| "TypeEncoder c junk TString v = (case v of VString s \<Rightarrow> encode_bytes (stringToBytes s) | _ \<Rightarrow> [])"
| "TypeEncoder c junk (TVec t) v =
     (case v of
        VVec vs \<Rightarrow>
          if isDynamic t
          then let (offs, data) = encodeElems c (32 * length vs mod 2 ^ 64) [] [] (map (TypeEncoder c junk t) vs)
               in word32 (length vs) @ offs @ data
          else word32 (length vs) @ concat (map (TypeEncoder c junk t) vs)
      | _ \<Rightarrow> [])"
| "TypeEncoder c junk (TTuple ts) v =
     (case v of
        VTuple vs \<Rightarrow>
          encodeItems (calculateTotalOffset ts) [] []
            (zip (map isDynamic ts) (map2 (\<lambda>enc x. enc x) (map (TypeEncoder c junk) ts) vs))
      | _ \<Rightarrow> [])"

definition encodeData :: "crypto \<Rightarrow> bytes \<Rightarrow> abi_type list \<Rightarrow> abi_val list \<Rightarrow> bytes" where
  "encodeData c junk ts vs =
     encodeItems (calculateTotalOffset ts) [] []
       (map2 (\<lambda>t v. (isDynamic t, TypeEncoder c junk t v)) ts vs)"

section \<open>Event encoder\<close>

text \<open>
  \<^verbatim>\<open>EventEncoder::TypeEncoder\<close>: no lengths and no offsets, only the padded parts one after the
  other. There is no specialisation for \<^verbatim>\<open>Hash\<close>, which falls to the general template.
\<close>

definition event_bytes :: "bytes \<Rightarrow> bytes" where
  "event_bytes bs = padRightBytes bs (pad_loop 0 (length bs)) 0"

primrec EventTypeEncoder :: "crypto \<Rightarrow> bytes \<Rightarrow> abi_type \<Rightarrow> abi_val \<Rightarrow> bytes" where
  "EventTypeEncoder c junk (TUint n) v = (case v of VUint k \<Rightarrow> encodeUint c k | _ \<Rightarrow> [])"
| "EventTypeEncoder c junk (TInt n) v = (case v of VInt k \<Rightarrow> encodeInt c junk k | _ \<Rightarrow> [])"
| "EventTypeEncoder c junk TAddress v = TypeEncoder c junk TAddress v"
| "EventTypeEncoder c junk TBool v = TypeEncoder c junk TBool v"
| "EventTypeEncoder c junk THash v = []"
| "EventTypeEncoder c junk TBytes v = (case v of VBytes b \<Rightarrow> event_bytes b | _ \<Rightarrow> [])"
| "EventTypeEncoder c junk TString v = (case v of VString s \<Rightarrow> event_bytes (stringToBytes s) | _ \<Rightarrow> [])"
| "EventTypeEncoder c junk (TVec t) v =
     (case v of VVec vs \<Rightarrow> foldl (\<lambda>r x. r @ EventTypeEncoder c junk t x) [] vs | _ \<Rightarrow> [])"
| "EventTypeEncoder c junk (TTuple ts) v =
     (case v of VTuple vs \<Rightarrow> concat (map2 (\<lambda>enc x. enc x) (map (EventTypeEncoder c junk) ts) vs) | _ \<Rightarrow> [])"

definition encodeTopicSignature :: "crypto \<Rightarrow> bytes \<Rightarrow> abi_type \<Rightarrow> abi_val \<Rightarrow> bytes res" where
  "encodeTopicSignature c junk t v =
     (case (t, v) of
        (TString, VString s) \<Rightarrow> Inr (keccak c (stringToBytes s))
      | (TBytes, VBytes b) \<Rightarrow> Inr (keccak c b)
      | _ \<Rightarrow>
          let result = EventTypeEncoder c junk t v in
          case t of
            TTuple ts \<Rightarrow> Inr (keccak c result)
          | TVec t' \<Rightarrow> Inr (keccak c result)
          | _ \<Rightarrow> Hash_of result)"

text \<open>A parameter of an event: \<^verbatim>\<open>EventParam<T, Index>\<close>.\<close>

record EventParam =
  ep_type :: abi_type
  ep_value :: abi_val
  ep_isIndexed :: bool

text \<open>\<^verbatim>\<open>encodeEventData\<close>: the offset starts from all the types, the indexed ones too.\<close>

definition encodeEventData :: "crypto \<Rightarrow> bytes \<Rightarrow> EventParam list \<Rightarrow> bytes" where
  "encodeEventData c junk params =
     encodeItems (calculateTotalOffset (map ep_type params)) [] []
       (map (\<lambda>p. (isDynamic (ep_type p), TypeEncoder c junk (ep_type p) (ep_value p)))
         (filter (\<lambda>p. \<not> ep_isIndexed p) params))"

text \<open>
  The constructor of \<^verbatim>\<open>Event\<close> on its parameters: the signature of all types, a topic for each
  indexed parameter in order, and the data of the others.
\<close>

definition Event_of_params ::
  "crypto \<Rightarrow> bytes \<Rightarrow> Event \<Rightarrow> string \<Rightarrow> address \<Rightarrow> EventParam list \<Rightarrow> bool \<Rightarrow> Event res" where
  "Event_of_params c junk memory name address params anonymous =
     bind_r (map_r (\<lambda>p. encodeTopicSignature c junk (ep_type p) (ep_value p)) (filter ep_isIndexed params)) (\<lambda>topics.
     Inr (Event_make memory name address (EventEncoder_encodeSignature c name (map ep_type params)) topics
       (encodeEventData c junk params) anonymous))"

section \<open>Decoder\<close>

text \<open>
  A decoder takes the view and the index, and returns the value and the next index. The
  index is a \<^verbatim>\<open>uint64_t\<close>, so the sum of the size check may wrap; what lies outside the view
  after a check that passed is undefined.
\<close>

type_synonym decoder = "bytes \<Rightarrow> nat \<Rightarrow> (abi_val \<times> nat) res"

definition need :: "bytes \<Rightarrow> nat \<Rightarrow> unit res" where
  "need bs n = throw_if (n mod 2 ^ 64 > length bs) LengthError"

definition advance :: "nat \<Rightarrow> nat" where
  "advance i = (i + 32) mod 2 ^ 64"

definition decodeUint :: "crypto \<Rightarrow> bytes \<Rightarrow> nat \<Rightarrow> (nat \<times> nat) res" where
  "decodeUint c bs i =
     bind_r (need bs (i + 32)) (\<lambda>_.
     bind_r (subspan bs i 32) (\<lambda>w.
     bind_r (bytesToUint256 (import_bits c) w) (\<lambda>r. Inr (r, advance i))))"

definition decodeInt :: "crypto \<Rightarrow> bytes \<Rightarrow> nat \<Rightarrow> (int \<times> nat) res" where
  "decodeInt c bs i =
     bind_r (need bs (i + 32)) (\<lambda>_.
     bind_r (subspan bs i 32) (\<lambda>w.
     bind_r (bytesToInt256 (import_bits c) w) (\<lambda>r. Inr (r, advance i))))"

text \<open>The word at the index as a \<^verbatim>\<open>uint64_t\<close>: the higher 24 bytes are shifted out.\<close>

definition read_u64 :: "bytes \<Rightarrow> nat \<Rightarrow> nat res" where
  "read_u64 bs i =
     bind_r (need bs (i + 32)) (\<lambda>_.
     bind_r (subspan bs i 32) (\<lambda>w. Inr (fromBigEndian_native 64 w)))"

text \<open>The offset, the length and the data of \<^verbatim>\<open>Bytes\<close> or \<^verbatim>\<open>std::string\<close>.\<close>

definition decode_bytes :: "bytes \<Rightarrow> nat \<Rightarrow> (bytes \<times> nat) res" where
  "decode_bytes bs i =
     bind_r (read_u64 bs i) (\<lambda>bytesStart.
     bind_r (read_u64 bs bytesStart) (\<lambda>bytesLength.
     bind_r (need bs (bytesStart + 32 + bytesLength)) (\<lambda>_.
     bind_r (subspan bs (bytesStart + 32) bytesLength) (\<lambda>tmp. Inr (tmp, advance i)))))"

text \<open>\<^verbatim>\<open>decodeTuple\<close>, one decoder after the other on the same view and index.\<close>

fun decodeTuple :: "decoder list \<Rightarrow> bytes \<Rightarrow> nat \<Rightarrow> (abi_val list \<times> nat) res" where
  "decodeTuple [] bs i = Inr ([], i)"
| "decodeTuple (d # ds) bs i =
     bind_r (d bs i) (\<lambda>(v, i'). bind_r (decodeTuple ds bs i') (\<lambda>(vs, i''). Inr (v # vs, i'')))"

text \<open>The loop over the elements of a vector.\<close>

fun decodeElems :: "decoder \<Rightarrow> nat \<Rightarrow> bytes \<Rightarrow> nat \<Rightarrow> abi_val list res" where
  "decodeElems d n view i =
     (if n = 0 then Inr []
      else bind_r (d view i) (\<lambda>(v, i'). bind_r (decodeElems d (n - 1) view i') (\<lambda>vs. Inr (v # vs))))"

declare decodeElems.simps [simp del]

primrec TypeDecoder :: "crypto \<Rightarrow> abi_type \<Rightarrow> decoder" where
  "TypeDecoder c (TUint n) = (\<lambda>bs i.
     bind_r (decodeUint c bs i) (\<lambda>(k, i'). bind_r (u_cast n k) (\<lambda>k'. Inr (VUint k', i'))))"
| "TypeDecoder c (TInt n) = (\<lambda>bs i.
     bind_r (decodeInt c bs i) (\<lambda>(k, i'). if int_ok n k then Inr (VInt k, i') else Inl BoostError))"
| "TypeDecoder c TAddress = (\<lambda>bs i.
     bind_r (need bs (i + 32)) (\<lambda>_.
     bind_r (subspan bs ((i + 12) mod 2 ^ 64) 20) (\<lambda>a. Inr (VAddress a, advance i))))"
| "TypeDecoder c TBool = (\<lambda>bs i.
     bind_r (need bs (i + 32)) (\<lambda>_.
     bind_r (byte_at bs ((i + 31) mod 2 ^ 64)) (\<lambda>b. Inr (VBool (b = 1), advance i))))"
| "TypeDecoder c THash = (\<lambda>bs i.
     bind_r (need bs (i + 32)) (\<lambda>_.
     bind_r (subspan bs i 32) (\<lambda>w. bind_r (Hash_of w) (\<lambda>h. Inr (VHash h, advance i)))))"
| "TypeDecoder c TBytes = (\<lambda>bs i. bind_r (decode_bytes bs i) (\<lambda>(b, i'). Inr (VBytes b, i')))"
| "TypeDecoder c TString = (\<lambda>bs i.
     bind_r (decode_bytes bs i) (\<lambda>(b, i'). Inr (VString (bytesToString b), i')))"
| "TypeDecoder c (TVec t) = (\<lambda>bs i.
     bind_r (read_u64 bs i) (\<lambda>arrayStart.
     bind_r (read_u64 bs arrayStart) (\<lambda>arrayLength.
     bind_r (need bs (arrayStart + 32)) (\<lambda>_.
     bind_r (subspan bs (arrayStart + 32) (length bs - (arrayStart + 32))) (\<lambda>view.
     bind_r (decodeElems (TypeDecoder c t) arrayLength view 0) (\<lambda>vs. Inr (VVec vs, advance i)))))))"
| "TypeDecoder c (TTuple ts) = (\<lambda>bs i.
     if list_ex isDynamic ts
     then bind_r (read_u64 bs i) (\<lambda>offset.
          bind_r (subspan bs offset (length bs - offset)) (\<lambda>view.
          bind_r (decodeTuple (map (TypeDecoder c) ts) view 0) (\<lambda>(vs, _). Inr (VTuple vs, advance i))))
     else bind_r (need bs (i + 32 * length ts)) (\<lambda>_.
          bind_r (decodeTuple (map (TypeDecoder c) ts) bs i) (\<lambda>(vs, i'). Inr (VTuple vs, i'))))"

fun decodeTupleHelper :: "crypto \<Rightarrow> abi_type list \<Rightarrow> bytes \<Rightarrow> nat \<Rightarrow> abi_val list res" where
  "decodeTupleHelper c [] bs i = Inr []"
| "decodeTupleHelper c (t # ts) bs i =
     bind_r (TypeDecoder c t bs i) (\<lambda>(v, i'). bind_r (decodeTupleHelper c ts bs i') (\<lambda>vs. Inr (v # vs)))"

definition decodeData :: "crypto \<Rightarrow> abi_type list \<Rightarrow> bytes \<Rightarrow> nat \<Rightarrow> abi_val list res" where
  "decodeData c ts bs index = (if ts = [] then Inr [] else decodeTupleHelper c ts bs index)"

definition decodeDataAsTuple :: "crypto \<Rightarrow> abi_type list \<Rightarrow> bytes \<Rightarrow> abi_val list res" where
  "decodeDataAsTuple c ts bs = (if ts = [] then Inl InvalidArgument else decodeData c ts bs 0)"


section \<open>Lemmas: words and paddings\<close>

lemma length_word32: "n < 2 ^ 256 \<Longrightarrow> length (word32 n) = 32"
  using bytesRequired_le[of n 32] by (simp add: word32_def padLeftBytes_def)

lemma be_val_word32 [simp]: "be_val (word32 n) = n"
  by (simp add: word32_def padLeftBytes_def be_val_append)

lemma word32_uint256:
  assumes "bits_ok c" "n < 2 ^ 256"
  shows "uint256ToBytes (export_bits c) n = word32 n"
  using boost_bits.uint256_length[OF assms(1)[unfolded bits_ok_def] assms(2)]
    boost_bits.be_val_uint256[OF assms(1)[unfolded bits_ok_def] assms(2)] length_word32[OF assms(2)]
  by (intro be_val_inj) simp_all

lemma encodeUint_word32: "bits_ok c \<Longrightarrow> n < 2 ^ 256 \<Longrightarrow> encodeUint c n = word32 n"
  using word32_uint256[of c n] by (simp add: encodeUint_def uint256ToBytes_def wideToBytes_def)

lemma pad_loop_ge: "n \<le> pad_loop p n"
  by (induction p n rule: pad_loop.induct) (subst pad_loop.simps, simp)

lemma encode_bytes_eq: "encode_bytes bs = word32 (length bs) @ bs @ replicate (pad_loop 0 (length bs) - length bs) 0"
  using pad_loop_ge[of "length bs" 0] by (simp add: encode_bytes_def padRightBytes_def)

subsection \<open>Signed words\<close>

text \<open>The junk in the limbs that are not used does not show.\<close>

definition junk_clear :: "bytes \<Rightarrow> nat \<Rightarrow> bool" where
  "junk_clear junk m \<longleftrightarrow> drop (used_bytes m) junk = replicate (32 - used_bytes m) 0"

lemma used_bytes_bounds:
  assumes "m < 2 ^ 256"
  shows "used_bytes m \<le> 32" "bytesRequired m \<le> used_bytes m"
proof -
  have "bytesRequired m \<le> 32" using bytesRequired_le[of m 32] assms by simp
  then show "used_bytes m \<le> 32" by (simp add: used_bytes_def)
  show "bytesRequired m \<le> used_bytes m" by (simp add: used_bytes_def)
qed

lemma int_memory_val:
  assumes "m < 2 ^ 256" "length junk = 32"
  shows "length (int_memory junk m) = 32"
    and "be_val (rev (int_memory junk m)) = be_val (rev (drop (used_bytes m) junk)) * 256 ^ used_bytes m + m"
proof -
  have "m < 256 ^ bytesRequired m" by (rule bytesRequired_bound)
  also have "(256 :: nat) ^ bytesRequired m \<le> 256 ^ used_bytes m"
    using used_bytes_bounds[OF assms(1)] by (intro power_increasing) simp_all
  finally have m: "m < 256 ^ used_bytes m" .
  show "length (int_memory junk m) = 32"
    using used_bytes_bounds(1)[OF assms(1)] assms(2) by (simp add: int_memory_def)
  show "be_val (rev (int_memory junk m)) = be_val (rev (drop (used_bytes m) junk)) * 256 ^ used_bytes m + m"
    using m by (simp add: int_memory_def be_val_append be_val_rev_le_image)
qed

lemma not_memory_eq: "length xs = 32 \<Longrightarrow> map (\<lambda>p. NOT (xs ! (31 - p))) [0..<32] = map NOT (rev xs)" for xs :: bytes
  by (rule nth_equalityI) (simp_all add: rev_nth)

lemma encodeInt_neg:
  assumes "num < 0" "- (2 ^ 256) < num" "length junk = 32"
  defines "m \<equiv> nat (- num)"
  shows "length (encodeInt c junk num) = 32"
    and "be_val (encodeInt c junk num) + be_val (rev (int_memory junk m)) = 2 ^ 256"
proof -
  have m: "0 < m" "m < 2 ^ 256" using assms(1,2) by (simp_all add: m_def)
  let ?mem = "int_memory junk m"
  note mem = int_memory_val[OF m(2) assms(3)]
  have "be_val (map NOT (rev ?mem)) + be_val (rev ?mem) + 1 = 2 ^ 256"
    using be_val_map_not[of "rev ?mem"] mem(1) by simp
  moreover have "0 < be_val (rev ?mem)" using m(1) mem(2) by simp
  ultimately have lt: "be_val (map NOT (rev ?mem)) + 1 < 256 ^ Suc 31"
    and sum: "be_val (map NOT (rev ?mem)) + be_val (rev ?mem) + 1 = 2 ^ 256" by simp_all
  have "length (map NOT (rev ?mem)) = Suc 31" using mem(1) by simp
  from add_one_loop_eq[OF this lt, of "[]"] obtain zs where zs:
    "add_one_loop 31 (map NOT (rev ?mem)) = zs" "length zs = 32"
    "be_val zs = be_val (map NOT (rev ?mem)) + 1" by auto
  have "encodeInt c junk num = zs"
    using assms(1) zs(1) by (simp only: encodeInt_def if_True not_memory_eq[OF mem(1)] flip: m_def)
  then show "length (encodeInt c junk num) = 32" "be_val (encodeInt c junk num) + be_val (rev ?mem) = 2 ^ 256"
    using zs sum by simp_all
qed

lemma junk_clear_iff:
  assumes "length junk = 32" "m < 2 ^ 256"
  shows "junk_clear junk m \<longleftrightarrow> be_val (rev (drop (used_bytes m) junk)) = 0"
  using assms by (simp add: junk_clear_def be_val_eq_0_iff rev_swap)

lemma nat_mod_neg:
  assumes "k < 0" "- (2 ^ 256) < (k :: int)"
  shows "nat (k mod 2 ^ 256) + nat (- k) = 2 ^ 256"
proof -
  have "k mod 2 ^ 256 = (k + 2 ^ 256) mod 2 ^ 256" by simp
  also have "\<dots> = k + 2 ^ 256" using assms by (intro mod_pos_pos_trivial) simp_all
  finally show ?thesis using assms by (simp add: nat_add_distrib[symmetric] nat_eq_iff)
qed

lemma nat_mod_less: "nat ((k :: int) mod 2 ^ 256) < 2 ^ 256"
  by (simp add: nat_less_iff)

lemma encodeInt_neg_iff:
  assumes "num < 0" "- (2 ^ 256) < num" "length junk = 32"
  shows "encodeInt c junk num = word32 (nat (num mod 2 ^ 256)) \<longleftrightarrow> junk_clear junk (nat (- num))"
proof -
  let ?m = "nat (- num)" and ?e = "encodeInt c junk num" and ?w = "word32 (nat (num mod 2 ^ 256))"
  have m: "?m < 2 ^ 256" using assms(2) by simp
  note enc = encodeInt_neg[OF assms]
  have "?e = ?w \<longleftrightarrow> be_val ?e = be_val ?w"
    using be_val_inj[of ?e ?w] enc(1) length_word32[OF nat_mod_less] by auto
  also have "\<dots> \<longleftrightarrow> be_val (rev (int_memory junk ?m)) = ?m"
    using enc(2)[of c] nat_mod_neg[OF assms(1,2)] unfolding be_val_word32 by linarith
  also have "\<dots> \<longleftrightarrow> junk_clear junk ?m"
    using int_memory_val(2)[OF m assms(3)] by (simp add: junk_clear_iff[OF assms(3) m])
  finally show ?thesis .
qed

lemma encodeInt_nonneg: "bits_ok c \<Longrightarrow> 0 \<le> num \<Longrightarrow> num < 2 ^ 256 \<Longrightarrow> encodeInt c junk num = word32 (nat num)"
  using encodeUint_word32[of c "nat num"] by (simp add: encodeInt_def encodeUint_def nat_less_iff)

lemma length_encodeInt:
  assumes "bits_ok c" "\<bar>num\<bar> < 2 ^ 256" "length junk = 32"
  shows "length (encodeInt c junk num) = 32"
proof (cases "num < 0")
  case True
  then show ?thesis using assms by (intro encodeInt_neg(1)) simp_all
next
  case False
  then show ?thesis using assms by (simp add: encodeInt_nonneg length_word32 nat_less_iff)
qed

text \<open>The numbers that survive the decoder of signed words.\<close>

definition int_survives :: "bytes \<Rightarrow> int \<Rightarrow> bool" where
  "int_survives junk k \<longleftrightarrow> - (2 ^ 255) \<le> k \<and> k < 2 ^ 255 \<and>
     (k < 0 \<longrightarrow> k mod 256 \<noteq> 0 \<and> junk_clear junk (nat (- k)))"

lemma top_bit_clear:
  assumes "length b = 32" "be_val b < 2 ^ 255"
  shows "b ! 0 AND 128 = 0"
proof -
  from assms(1) obtain x xs where b: "b = x # xs" and xs: "length xs = 31" by (cases b) auto
  have "unat x * 256 ^ 31 < 128 * 256 ^ 31" using assms(2) xs by (simp add: b be_val_Cons)
  then have "\<not> 128 \<le> unat x" by simp
  then show ?thesis using byte_top_bit[of x] by (auto simp: b)
qed

lemma int_word_roundtrip:
  assumes "bits_ok c" "length junk = 32" "int_survives junk k"
  shows "bytesToInt256 (import_bits c) (encodeInt c junk k) = Inr k"
proof (cases "k < 0")
  case False
  have im: "import_bits c bs = be_val bs" for bs
    using assms(1) by (simp add: bits_ok_def boost_bits.import_val)
  have k: "0 \<le> k" "k < 2 ^ 255" using False assms(3) by (auto simp: int_survives_def)
  then have lt: "nat k < 2 ^ 255" "nat k < 2 ^ 256" by (simp_all add: nat_less_iff)
  have e: "encodeInt c junk k = word32 (nat k)" using k encodeInt_nonneg[OF assms(1)] by simp
  have "word32 (nat k) ! 0 AND 128 = 0"
    using lt by (intro top_bit_clear) (simp_all add: length_word32)
  then show ?thesis using k(1) lt by (simp add: e bytesToInt256_def length_word32 im)
next
  case True
  let ?w = "encodeInt c junk k"
  have k: "- (2 ^ 255) \<le> k" "k mod 256 \<noteq> 0" "junk_clear junk (nat (- k))"
    using True assms(3) by (auto simp: int_survives_def)
  then have gt: "- (2 ^ 256) < k" by simp
  have w: "?w = word32 (nat (k mod 2 ^ 256))" using encodeInt_neg_iff[OF True gt assms(2)] k(3) by blast
  have len: "length ?w = 32" by (rule encodeInt_neg(1)[OF True gt assms(2)])
  have sum: "be_val ?w + nat (- k) = 2 ^ 256" using nat_mod_neg[OF True gt] by (simp add: w)
  then have "int (be_val ?w + nat (- k)) = 2 ^ 256" by simp
  then have v: "int (be_val ?w) = k + 2 ^ 256" using True by simp
  have "nat (- k) \<le> 2 ^ 255" using k(1) by simp
  then have ge: "2 ^ 255 \<le> be_val ?w" using sum by simp
  have ne: "?w \<noteq> []" using len by auto
  have "int (be_val ?w mod 256) = (k + 256 * 2 ^ 248) mod 256" using v by (simp add: zmod_int)
  also have "\<dots> = k mod 256" by (rule mod_mult_self2)
  finally have "?w ! 31 \<noteq> 0" using k(2) be_val_mod_256[OF ne] last_conv_nth[OF ne] len by auto
  then show ?thesis
    using boost_bits.bytesToInt256_neg_iff[OF assms(1)[unfolded bits_ok_def] len ge] v by simp
qed

section \<open>Lemmas: heads and tails\<close>

text \<open>The bytes \<open>x\<close> lie at position \<open>i\<close> of the view.\<close>

definition holds_at :: "bytes \<Rightarrow> nat \<Rightarrow> bytes \<Rightarrow> bool" where
  "holds_at bs i x \<longleftrightarrow> i + length x \<le> length bs \<and> take (length x) (drop i bs) = x"

lemma holds_at_subspan: "holds_at bs i x \<Longrightarrow> subspan bs i (length x) = Inr x"
  by (simp add: holds_at_def subspan_def)

lemma holds_at_bound: "holds_at bs i x \<Longrightarrow> i + length x \<le> length bs"
  by (simp add: holds_at_def)

lemma holds_at_append: "holds_at bs i (x @ y) \<longleftrightarrow> holds_at bs i x \<and> holds_at bs (i + length x) y"
  by (auto simp: holds_at_def take_add drop_drop add.commute append_eq_append_conv)

lemma holds_at_self: "holds_at bs 0 bs"
  by (simp add: holds_at_def)

lemma holds_at_Nil [simp]: "holds_at bs 0 []"
  by (simp add: holds_at_def)

lemma holds_at_drop: "off \<le> length bs \<Longrightarrow> holds_at (drop off bs) i x \<longleftrightarrow> holds_at bs (off + i) x"
  by (auto simp: holds_at_def add.commute)

lemma holds_at_nth: "holds_at bs i x \<Longrightarrow> j < length x \<Longrightarrow> bs ! (i + j) = x ! j"
  unfolding holds_at_def by (metis add_leD1 nth_drop nth_take)

text \<open>The two parts \<^verbatim>\<open>encodeItem\<close> builds.\<close>

fun heads :: "nat \<Rightarrow> (bool \<times> bytes) list \<Rightarrow> bytes" where
  "heads off [] = []"
| "heads off ((d, p) # items) =
     (if d then word32 off @ heads ((off + length p) mod 2 ^ 64) items else p @ heads off items)"

fun tails :: "(bool \<times> bytes) list \<Rightarrow> bytes" where
  "tails [] = []"
| "tails ((d, p) # items) = (if d then p else []) @ tails items"

lemma encodeItems_eq: "encodeItems off res dyn items = res @ heads off items @ dyn @ tails items"
  by (induction off res dyn items rule: encodeItems.induct) simp_all

lemma encodeElems_eq:
  assumes "bits_ok c"
  shows "off < 2 ^ 64 \<Longrightarrow> encodeElems c off offs data ps =
    (offs @ heads off (map (Pair True) ps), data @ tails (map (Pair True) ps))"
  using assms by (induction ps arbitrary: off offs data) (simp_all add: word32_uint256)

lemma length_heads:
  "off < 2 ^ 64 \<Longrightarrow> length (heads off items) = sum_list (map (\<lambda>(d, p). if d then 32 else length p) items)"
  by (induction off items rule: heads.induct) (auto simp: length_word32)

lemma heads_static: "heads off (map (Pair False) ps) = concat ps" "tails (map (Pair False) ps) = []"
  by (induction ps) simp_all

text \<open>The items of a list of typed values.\<close>

abbreviation items_of :: "crypto \<Rightarrow> bytes \<Rightarrow> abi_type list \<Rightarrow> abi_val list \<Rightarrow> (bool \<times> bytes) list" where
  "items_of c junk \<equiv> map2 (\<lambda>t v. (isDynamic t, TypeEncoder c junk t v))"

lemma zip_items: "zip (map isDynamic ts) (map2 (\<lambda>enc x. enc x) (map (TypeEncoder c junk) ts) vs) = items_of c junk ts vs"
  by (induction ts vs rule: list_induct2') simp_all

lemma isDynamic_tuple: "isDynamic (TTuple ts) \<longleftrightarrow> list_ex isDynamic ts"
  by (simp add: list_ex_iff)

lemma has_type_tuple: "has_type (TTuple ts) v \<longleftrightarrow> (\<exists>vs. v = VTuple vs \<and> list_all2 has_type ts vs)"
  by (auto simp: list.rel_map(1) split: abi_val.splits)

lemma TypeEncoder_tuple:
  "TypeEncoder c junk (TTuple ts) (VTuple vs) =
   heads (calculateTotalOffset ts) (items_of c junk ts vs) @ tails (items_of c junk ts vs)"
  by (simp only: TypeEncoder.simps abi_val.case zip_items encodeItems_eq append_Nil)

lemma encodeData_eq:
  "encodeData c junk ts vs = heads (calculateTotalOffset ts) (items_of c junk ts vs) @ tails (items_of c junk ts vs)"
  by (simp add: encodeData_def encodeItems_eq)

text \<open>
  The true size of the head of a type, and the types for which the encoder computes it: in a
  sequence with a dynamic member, \<^verbatim>\<open>calculateOffsetForType\<close> has to give the size of every head.
\<close>

primrec static_size :: "abi_type \<Rightarrow> nat" where
  "static_size (TUint n) = 32"
| "static_size (TInt n) = 32"
| "static_size TAddress = 32"
| "static_size TBool = 32"
| "static_size THash = 32"
| "static_size TBytes = 32"
| "static_size TString = 32"
| "static_size (TVec t) = 32"
| "static_size (TTuple ts) = sum_list (map static_size ts)"

definition head_size :: "abi_type \<Rightarrow> nat" where
  "head_size t = (if isDynamic t then 32 else static_size t)"

definition seq_ok :: "abi_type list \<Rightarrow> bool" where
  "seq_ok ts \<longleftrightarrow> \<not> list_ex isDynamic ts \<or> list_all (\<lambda>t. calculateOffsetForType t = head_size t) ts"

fun layout_ok :: "abi_type \<Rightarrow> bool" where
  "layout_ok (TVec t) = layout_ok t"
| "layout_ok (TTuple ts) = (seq_ok ts \<and> list_all layout_ok ts)"
| "layout_ok t = True"

fun ints_ok :: "bytes \<Rightarrow> abi_val \<Rightarrow> bool" where
  "ints_ok junk (VInt k) = int_survives junk k"
| "ints_ok junk (VVec vs) = list_all (ints_ok junk) vs"
| "ints_ok junk (VTuple vs) = list_all (ints_ok junk) vs"
| "ints_ok junk v = True"

lemma int_ok_bound:
  assumes "width_ok n" "int_ok n k"
  shows "\<bar>k\<bar> < 2 ^ 256"
proof -
  have le: "n - 1 \<le> 255" "n \<le> 256" using assms(1) by (auto simp: width_ok_def)
  have n: "(2 :: int) ^ (n - 1) \<le> 2 ^ 255" "(2 :: int) ^ n \<le> 2 ^ 256"
    by (rule power_increasing[OF le(1)], simp) (rule power_increasing[OF le(2)], simp)
  show ?thesis
  proof (cases "native_size n")
    case True
    then have "\<bar>k\<bar> \<le> 2 ^ (n - 1)" using assms(2) by (auto simp: int_ok_def int_min_def int_max_def)
    also note n(1)
    finally show ?thesis by (rule le_less_trans) simp
  next
    case False
    then have "\<bar>k\<bar> < 2 ^ n" using assms(2) by (auto simp: int_ok_def int_min_def int_max_def)
    then show ?thesis using n(2) by (rule less_le_trans)
  qed
qed

lemma width_bound: "width_ok n \<Longrightarrow> k < 2 ^ n \<Longrightarrow> k < (2 :: nat) ^ 256"
  by (erule less_le_trans) (simp only: width_ok_def power_increasing one_le_numeral)

lemma static_size_pos: "type_ok t \<Longrightarrow> 32 \<le> static_size t"
proof (induction t)
  case (TTuple ts)
  then obtain x xs where "ts = x # xs" by (cases ts) auto
  with TTuple show ?case by (simp add: trans_le_add1)
qed simp_all

lemma length_static_tuple:
  assumes "list_all2 (\<lambda>t v. length (TypeEncoder c junk t v) = static_size t) ts vs" "\<not> list_ex isDynamic ts"
  shows "length (heads off (items_of c junk ts vs)) = sum_list (map static_size ts)"
    and "tails (items_of c junk ts vs) = []"
  using assms by (induction ts vs rule: list_all2_induct) simp_all

lemma length_static:
  assumes "bits_ok c" "length junk = 32"
  shows "\<not> isDynamic t \<Longrightarrow> has_type t v \<Longrightarrow> type_ok t \<Longrightarrow> length (TypeEncoder c junk t v) = static_size t"
proof (induction t arbitrary: v)
  case (TUint n)
  then show ?case
    using assms(1) width_bound[of n] by (auto simp: encodeUint_word32 length_word32 split: abi_val.splits)
next
  case (TInt n)
  then show ?case
    using assms int_ok_bound[of n] by (auto simp: length_encodeInt split: abi_val.splits)
next
  case (TTuple ts)
  then obtain vs where v: "v = VTuple vs" and all: "list_all2 has_type ts vs" by (auto simp only: has_type_tuple)
  have st: "\<not> list_ex isDynamic ts" using TTuple.prems(1) by (simp only: isDynamic_tuple not_False_eq_True)
  have "list_all2 (\<lambda>t v. length (TypeEncoder c junk t v) = static_size t) ts vs"
    using all
  proof (rule list.rel_mono_strong)
    fix t v assume "t \<in> set ts" "has_type t v"
    then show "length (TypeEncoder c junk t v) = static_size t"
      using TTuple.IH[of t v] TTuple.prems(3) st by (auto simp: list_ex_iff list_all_iff)
  qed
  from length_static_tuple[OF this st] show ?case by (simp only: v TypeEncoder_tuple) simp
qed (auto simp: padLeftBytes_def split: abi_val.splits)

section \<open>Lemmas: the decoder on what the encoder writes\<close>

lemma need_ok: "n \<le> length bs \<Longrightarrow> length bs < 2 ^ 64 \<Longrightarrow> need bs n = Inr ()"
  by (simp add: need_def)

lemma advance_ok: "i + 32 \<le> length bs \<Longrightarrow> length bs < 2 ^ 64 \<Longrightarrow> advance i = i + 32"
  for bs :: bytes
  by (simp add: advance_def)

lemma read_u64_word:
  assumes "holds_at bs i (word32 n)" "n < 2 ^ 64" "length bs < 2 ^ 64"
  shows "read_u64 bs i = Inr n"
proof -
  have len: "length (word32 n) = 32" using assms(2) by (simp add: length_word32)
  have "i + 32 \<le> length bs" using holds_at_bound[OF assms(1)] len by simp
  moreover have "subspan bs i 32 = Inr (word32 n)" using holds_at_subspan[OF assms(1)] len by simp
  ultimately show ?thesis
    using assms(2,3) need_ok[of "i + 32" bs] by (simp add: read_u64_def fromBigEndian_native_mod)
qed

lemma subspan_rest: "off \<le> length bs \<Longrightarrow> subspan bs off (length bs - off) = Inr (drop off bs)"
  by (simp add: subspan_def)

text \<open>
  The encoding of a value is in place: its word at the index of the head, and behind the
  offset of that word if the type is dynamic.
\<close>

definition placed :: "crypto \<Rightarrow> bytes \<Rightarrow> bytes \<Rightarrow> nat \<Rightarrow> nat \<Rightarrow> abi_type \<Rightarrow> abi_val \<Rightarrow> bool" where
  "placed c junk bs i off t v \<longleftrightarrow>
     (if isDynamic t then holds_at bs i (word32 off) \<and> holds_at bs off (TypeEncoder c junk t v)
      else holds_at bs i (TypeEncoder c junk t v))"

definition head_len :: "crypto \<Rightarrow> bytes \<Rightarrow> abi_type \<Rightarrow> abi_val \<Rightarrow> nat" where
  "head_len c junk t v = (if isDynamic t then 32 else length (TypeEncoder c junk t v))"

definition decodes :: "crypto \<Rightarrow> bytes \<Rightarrow> abi_type \<Rightarrow> abi_val \<Rightarrow> bool" where
  "decodes c junk t v \<longleftrightarrow> (\<forall>bs i off. length bs < 2 ^ 64 \<longrightarrow> placed c junk bs i off t v \<longrightarrow>
     TypeDecoder c t bs i = Inr (v, i + head_len c junk t v))"

lemma decodeTuple_items:
  assumes "list_all2 (decodes c junk) ts vs" "length bs < 2 ^ 64"
    "holds_at bs i (heads off (items_of c junk ts vs))" "holds_at bs off (tails (items_of c junk ts vs))"
  shows "decodeTuple (map (TypeDecoder c) ts) bs i =
    Inr (vs, i + length (heads off (items_of c junk ts vs)))"
  using assms
proof (induction ts vs arbitrary: i off rule: list_all2_induct)
  case (Cons t ts v vs)
  let ?p = "TypeEncoder c junk t v" and ?rest = "items_of c junk ts vs"
  note dec = Cons.hyps(1)[unfolded decodes_def, rule_format, OF Cons.prems(1)]
  show ?case
  proof (cases "isDynamic t")
    case True
    have at: "holds_at bs i (word32 off)" "holds_at bs (i + 32) (heads ((off + length ?p) mod 2 ^ 64) ?rest)"
      "holds_at bs off ?p" "holds_at bs (off + length ?p) (tails ?rest)"
      and off: "off < 2 ^ 64" "off + length ?p < 2 ^ 64"
      using Cons.prems True holds_at_bound[OF Cons.prems(3)]
      by (auto simp: holds_at_append length_word32)
    have "TypeDecoder c t bs i = Inr (v, i + 32)"
      using dec[of i off] at(1,3) True by (simp add: placed_def head_len_def)
    moreover have "holds_at bs (i + 32) (heads (off + length ?p) ?rest)" using at(2) off(2) by simp
    ultimately show ?thesis
      using Cons.IH[OF Cons.prems(1) _ at(4), of "i + 32"] True off
      by (simp add: length_word32)
  next
    case False
    have at: "holds_at bs i ?p" "holds_at bs (i + length ?p) (heads off ?rest)" "holds_at bs off (tails ?rest)"
      using Cons.prems False by (auto simp: holds_at_append)
    then show ?thesis
      using dec[of i off] False Cons.IH[OF Cons.prems(1) at(2,3)] by (simp add: placed_def head_len_def)
  qed
qed simp

lemma decodeElems_replicate:
  "decodeElems d n bs i = bind_r (decodeTuple (replicate n d) bs i) (\<lambda>(vs, _). Inr vs)"
proof (induction n arbitrary: i)
  case 0
  show ?case by (simp add: decodeElems.simps)
next
  case (Suc n)
  show ?case by (subst decodeElems.simps) (simp add: Suc bind_r_assoc split_def)
qed

text \<open>The values the round trip is about.\<close>

definition abi_ok :: "bytes \<Rightarrow> abi_type \<Rightarrow> abi_val \<Rightarrow> bool" where
  "abi_ok junk t v \<longleftrightarrow> has_type t v \<and> type_ok t \<and> layout_ok t \<and> ints_ok junk v"

lemma static_word:
  assumes "\<not> isDynamic t" "length (TypeEncoder c junk t v) = 32"
    "\<And>bs i. holds_at bs i (TypeEncoder c junk t v) \<Longrightarrow> i + 32 \<le> length bs \<Longrightarrow> length bs < 2 ^ 64 \<Longrightarrow>
      subspan bs i 32 = Inr (TypeEncoder c junk t v) \<Longrightarrow> need bs (i + 32) = Inr () \<Longrightarrow>
      TypeDecoder c t bs i = Inr (v, advance i)"
  shows "decodes c junk t v"
  unfolding decodes_def
proof (intro allI impI)
  fix bs i off assume len: "length bs < 2 ^ 64" and pl: "placed c junk bs i off t v"
  have at: "holds_at bs i (TypeEncoder c junk t v)" using pl assms(1) by (simp add: placed_def)
  have le: "i + 32 \<le> length bs" using holds_at_bound[OF at] assms(2) by simp
  have "subspan bs i 32 = Inr (TypeEncoder c junk t v)" using holds_at_subspan[OF at] assms(2) by simp
  then show "TypeDecoder c t bs i = Inr (v, i + head_len c junk t v)"
    using assms(3)[OF at le len _ need_ok[OF le len]] advance_ok[OF le len] assms(1,2) by (simp add: head_len_def)
qed

lemma dynamic_word:
  assumes "isDynamic t"
    "\<And>bs i off. read_u64 bs i = Inr off \<Longrightarrow> holds_at bs off (TypeEncoder c junk t v) \<Longrightarrow> length bs < 2 ^ 64 \<Longrightarrow>
      TypeDecoder c t bs i = Inr (v, advance i)"
  shows "decodes c junk t v"
  unfolding decodes_def
proof (intro allI impI)
  fix bs i off assume len: "length bs < 2 ^ 64" and pl: "placed c junk bs i off t v"
  have at: "holds_at bs i (word32 off)" "holds_at bs off (TypeEncoder c junk t v)"
    using pl assms(1) by (simp_all add: placed_def)
  have off: "off < 2 ^ 64" using holds_at_bound[OF at(2)] len by simp
  have le: "i + 32 \<le> length bs" using holds_at_bound[OF at(1)] off by (simp add: length_word32)
  show "TypeDecoder c t bs i = Inr (v, i + head_len c junk t v)"
    using assms(2)[OF read_u64_word[OF at(1) off len] at(2) len] advance_ok[OF le len] assms(1)
    by (simp add: head_len_def)
qed

lemma decode_bytes_at:
  assumes "read_u64 bs i = Inr off" "holds_at bs off (encode_bytes x)" "length bs < 2 ^ 64"
  shows "decode_bytes bs i = Inr (x, advance i)"
proof -
  have x: "length x < 2 ^ 64" using holds_at_bound[OF assms(2)] assms(3) by (simp add: encode_bytes_eq)
  have at: "holds_at bs off (word32 (length x))" "holds_at bs (off + 32) x"
    using assms(2) x by (simp_all add: encode_bytes_eq holds_at_append length_word32)
  have "need bs (off + 32 + length x) = Inr ()" using holds_at_bound[OF at(2)] assms(3) by (intro need_ok) simp_all
  then show ?thesis
    using assms(1) read_u64_word[OF at(1) x assms(3)] holds_at_subspan[OF at(2)]
    by (simp add: decode_bytes_def)
qed

lemma decodes_uint: "bits_ok c \<Longrightarrow> width_ok n \<Longrightarrow> k < 2 ^ n \<Longrightarrow> decodes c junk (TUint n) (VUint k)"
  using width_bound[of n k]
  by (intro static_word)
    (simp_all add: encodeUint_word32 length_word32 decodeUint_def bytesToUint256_def bytesToWide_def u_cast_def
      bits_ok_def boost_bits.import_val)

lemma decodes_int:
  "bits_ok c \<Longrightarrow> length junk = 32 \<Longrightarrow> width_ok n \<Longrightarrow> int_ok n k \<Longrightarrow> int_survives junk k \<Longrightarrow>
   decodes c junk (TInt n) (VInt k)"
  using int_ok_bound[of n k]
  by (intro static_word) (simp_all add: length_encodeInt decodeInt_def int_word_roundtrip)

lemma decodes_address: "length a = 20 \<Longrightarrow> decodes c junk TAddress (VAddress a)"
proof (rule static_word)
  fix bs i assume a: "length a = 20" and at: "holds_at bs i (TypeEncoder c junk TAddress (VAddress a))"
    and bs: "i + 32 \<le> length bs" "length bs < 2 ^ 64" "need bs (i + 32) = Inr ()"
  have "holds_at bs (i + 12) a" using at a by (simp add: padLeftBytes_def holds_at_append)
  from holds_at_subspan[OF this] show "TypeDecoder c TAddress bs i = Inr (VAddress a, advance i)"
    using a bs by simp
qed (simp_all add: padLeftBytes_def)

lemma decodes_bool: "decodes c junk TBool (VBool b)"
proof (rule static_word)
  fix bs i assume at: "holds_at bs i (TypeEncoder c junk TBool (VBool b))"
    and bs: "i + 32 \<le> length bs" "length bs < 2 ^ 64" "need bs (i + 32) = Inr ()"
  have "bs ! (i + 31) = (if b then 1 else 0)"
    using holds_at_nth[OF at, of 31] by (simp add: padLeftBytes_def nth_append)
  then show "TypeDecoder c TBool bs i = Inr (VBool b, advance i)" using bs by (simp add: byte_at_def)
qed (simp_all add: padLeftBytes_def)

lemma decodes_hash: "length h = 32 \<Longrightarrow> decodes c junk THash (VHash h)"
  by (intro static_word) (simp_all add: Hash_of_def)

lemma decodes_bytes: "decodes c junk TBytes (VBytes b)"
  by (intro dynamic_word) (simp_all add: decode_bytes_at)

lemma decodes_string: "decodes c junk TString (VString s)"
  by (intro dynamic_word) (simp_all add: decode_bytes_at bytesToString_inverse)

text \<open>A vector is the sequence of its elements, placed behind its length.\<close>

lemma TypeEncoder_vec:
  assumes "bits_ok c"
  shows "TypeEncoder c junk (TVec t) (VVec vs) =
    (let items = items_of c junk (replicate (length vs) t) vs in
     word32 (length vs) @ heads (32 * length vs mod 2 ^ 64) items @ tails items)"
proof -
  have "items_of c junk (replicate (length vs) t) vs = map (Pair (isDynamic t)) (map (TypeEncoder c junk t) vs)"
    by (induction vs) simp_all
  then show ?thesis
    using encodeElems_eq[OF assms, of "32 * length vs mod 2 ^ 64" "[]" "[]" "map (TypeEncoder c junk t) vs"]
      heads_static(1)[of "32 * length vs mod 2 ^ 64" "map (TypeEncoder c junk t) vs"]
      heads_static(2)[of "map (TypeEncoder c junk t) vs"]
    by (cases "isDynamic t") (simp_all add: Let_def comp_def)
qed

lemma replicate_heads_length:
  assumes "isDynamic t" "off < 2 ^ 64"
  shows "length (heads off (items_of c junk (replicate (length vs) t) vs)) = 32 * length vs"
proof -
  have "map (\<lambda>(d, p). if d then 32 else length p) (items_of c junk (replicate (length vs) t) vs) =
    replicate (length vs) 32"
    using assms(1) by (induction vs) simp_all
  then show ?thesis by (simp add: length_heads[OF assms(2)] sum_list_replicate)
qed

lemma decodes_vec:
  assumes "bits_ok c" "length vs < 2 ^ 64" "\<And>v. v \<in> set vs \<Longrightarrow> decodes c junk t v"
  shows "decodes c junk (TVec t) (VVec vs)"
proof (rule dynamic_word)
  fix bs i off assume rd: "read_u64 bs i = Inr off" and len: "length bs < 2 ^ 64"
    and at: "holds_at bs off (TypeEncoder c junk (TVec t) (VVec vs))"
  let ?n = "length vs" and ?items = "items_of c junk (replicate (length vs) t) vs"
  let ?o = "32 * ?n mod 2 ^ 64" and ?view = "drop (off + 32) bs"
  have at': "holds_at bs off (word32 ?n)" "holds_at bs (off + 32) (heads ?o ?items)"
    "holds_at bs (off + 32 + length (heads ?o ?items)) (tails ?items)"
    using at assms(2) by (simp_all add: TypeEncoder_vec[OF assms(1)] Let_def holds_at_append length_word32
        del: TypeEncoder.simps)
  have le: "off + 32 \<le> length bs" using holds_at_bound[OF at'(2)] by simp
  have view: "holds_at ?view 0 (heads ?o ?items)" "holds_at ?view (length (heads ?o ?items)) (tails ?items)"
    using at'(2,3) le by (simp_all add: holds_at_drop)
  have all: "list_all2 (decodes c junk) (replicate ?n t) vs"
    using assms(3) by (simp add: list_all2_conv_all_nth)
  obtain st where st: "heads ?o ?items = heads st ?items" "holds_at ?view st (tails ?items)"
  proof (cases "isDynamic t")
    case True
    then have eq: "length (heads ?o ?items) = 32 * ?n" by (simp add: replicate_heads_length)
    then have "32 * ?n < 2 ^ 64" using holds_at_bound[OF at'(2)] len by simp
    then show ?thesis using view(2) eq that[of ?o] by simp
  next
    case False
    then have "?items = map (Pair False) (map (TypeEncoder c junk t) vs)" by (induction vs) simp_all
    then show ?thesis using that[of 0] by (simp only: heads_static holds_at_Nil)
  qed
  have "length ?view < 2 ^ 64" using len by simp
  from decodeTuple_items[OF all this view(1)[unfolded st(1)] st(2)]
  have "decodeElems (TypeDecoder c t) ?n ?view 0 = Inr vs" by (simp add: decodeElems_replicate)
  then show "TypeDecoder c (TVec t) bs i = Inr (VVec vs, advance i)"
    using rd read_u64_word[OF at'(1) assms(2) len] need_ok[OF le len] subspan_rest[OF le] by simp
qed simp

text \<open>The encoding of a sequence: the offsets are right when the sizes of the heads are.\<close>

definition good :: "crypto \<Rightarrow> bytes \<Rightarrow> abi_type \<Rightarrow> abi_val \<Rightarrow> bool" where
  "good c junk t v \<longleftrightarrow> decodes c junk t v \<and>
     (\<not> isDynamic t \<longrightarrow> length (TypeEncoder c junk t v) = static_size t)"

lemma head_sum:
  assumes "list_all2 (good c junk) ts vs" "list_all (\<lambda>t. calculateOffsetForType t = head_size t) ts"
  shows "sum_list (map (\<lambda>(d, p). if d then 32 else length p) (items_of c junk ts vs)) =
    sum_list (map calculateOffsetForType ts)"
  using assms by (induction ts vs rule: list_all2_induct) (auto simp: good_def head_size_def)

lemma static_items:
  assumes "length ts = length vs" "\<not> list_ex isDynamic ts"
  shows "heads off (items_of c junk ts vs) = heads 0 (items_of c junk ts vs)" "tails (items_of c junk ts vs) = []"
  using assms by (induction ts vs rule: list_induct2) simp_all

lemma calculateTotalOffset_less: "calculateTotalOffset ts < 2 ^ 64"
  by (simp add: calculateTotalOffset_def)

lemma decodeTuple_seq:
  assumes good: "list_all2 (good c junk) ts vs" and seq: "seq_ok ts" and len: "length bs < 2 ^ 64"
    and at: "holds_at bs 0 (encodeData c junk ts vs)"
  shows "\<exists>i'. decodeTuple (map (TypeDecoder c) ts) bs 0 = Inr (vs, i')"
proof -
  let ?T = "calculateTotalOffset ts" and ?items = "items_of c junk ts vs"
  have dec: "list_all2 (decodes c junk) ts vs" using good by (rule list_all2_mono) (simp add: good_def)
  have hd: "holds_at bs 0 (heads ?T ?items)" and tl: "holds_at bs (length (heads ?T ?items)) (tails ?items)"
    using at by (simp_all add: encodeData_eq holds_at_append)
  show ?thesis
  proof (cases "list_ex isDynamic ts")
    case False
    note st = static_items[OF list_all2_lengthD[OF good] False]
    have "holds_at bs 0 (heads 0 ?items)" using hd by (simp only: st(1)[of ?T])
    then show ?thesis using decodeTuple_items[OF dec len, of 0 0] by (simp add: st(2))
  next
    case True
    then have "list_all (\<lambda>t. calculateOffsetForType t = head_size t) ts" using seq by (simp add: seq_ok_def)
    then have eq: "length (heads ?T ?items) = sum_list (map calculateOffsetForType ts)"
      using head_sum[OF good] by (simp only: length_heads[OF calculateTotalOffset_less])
    have "sum_list (map calculateOffsetForType ts) < 2 ^ 64" using holds_at_bound[OF hd] len eq by simp
    then have "length (heads ?T ?items) = ?T" using eq by (simp add: calculateTotalOffset_def)
    then show ?thesis using decodeTuple_items[OF dec len hd] tl by simp
  qed
qed

lemma static_need:
  assumes "list_all2 (good c junk) ts vs" "\<not> list_ex isDynamic ts" "list_all type_ok ts"
  shows "32 * length ts \<le> length (heads off (items_of c junk ts vs))"
  using assms
proof (induction ts vs rule: list_all2_induct)
  case (Cons t ts v vs)
  then show ?case using static_size_pos[of t] by (simp add: good_def)
qed simp

lemma good_tuple:
  assumes good: "list_all2 (good c junk) ts vs" and seq: "seq_ok ts" and ok: "list_all type_ok ts"
  shows "decodes c junk (TTuple ts) (VTuple vs)"
proof (cases "list_ex isDynamic ts")
  case True
  show ?thesis
  proof (rule dynamic_word)
    fix bs i off assume rd: "read_u64 bs i = Inr off" and len: "length bs < 2 ^ 64"
      and at: "holds_at bs off (TypeEncoder c junk (TTuple ts) (VTuple vs))"
    have le: "off \<le> length bs" using holds_at_bound[OF at] by simp
    have "holds_at (drop off bs) 0 (encodeData c junk ts vs)"
      using at le by (simp add: holds_at_drop TypeEncoder_tuple encodeData_eq del: TypeEncoder.simps)
    moreover have "length (drop off bs) < 2 ^ 64" using len by simp
    ultimately obtain i' where "decodeTuple (map (TypeDecoder c) ts) (drop off bs) 0 = Inr (vs, i')"
      using decodeTuple_seq[OF good seq] by blast
    then show "TypeDecoder c (TTuple ts) bs i = Inr (VTuple vs, advance i)"
      using True rd subspan_rest[OF le] by simp
  qed (simp only: isDynamic_tuple True)
next
  case False
  have st: "\<not> isDynamic (TTuple ts)" using False by (simp only: isDynamic_tuple not_False_eq_True)
  have dec: "list_all2 (decodes c junk) ts vs" using good by (rule list_all2_mono) (simp add: good_def)
  let ?h = "heads (calculateTotalOffset ts) (items_of c junk ts vs)"
  note items = static_items[OF list_all2_lengthD[OF good] False]
  show ?thesis unfolding decodes_def
  proof (intro allI impI)
    fix bs i off assume len: "length bs < 2 ^ 64" and pl: "placed c junk bs i off (TTuple ts) (VTuple vs)"
    have at: "holds_at bs i ?h" using pl st by (simp add: placed_def TypeEncoder_tuple items(2) del: TypeEncoder.simps isDynamic.simps)
    then have "decodeTuple (map (TypeDecoder c) ts) bs i = Inr (vs, i + length ?h)"
      using decodeTuple_items[OF dec len, of i 0] by (simp only: items(1)[of "calculateTotalOffset ts"] items(2) holds_at_Nil)
    moreover have "need bs (i + 32 * length ts) = Inr ()"
      using holds_at_bound[OF at] static_need[OF good False ok, of "calculateTotalOffset ts"] len by (intro need_ok) simp_all
    ultimately show "TypeDecoder c (TTuple ts) bs i = Inr (VTuple vs, i + head_len c junk (TTuple ts) (VTuple vs))"
      using False st by (simp add: head_len_def TypeEncoder_tuple items(2) del: TypeEncoder.simps isDynamic.simps)
  qed
qed

lemma good_of_decodes:
  "bits_ok c \<Longrightarrow> length junk = 32 \<Longrightarrow> abi_ok junk t v \<Longrightarrow> decodes c junk t v \<Longrightarrow> good c junk t v"
  using length_static[of c junk t v] unfolding good_def abi_ok_def by blast

lemma abi_ok_decodes:
  assumes "bits_ok c" "length junk = 32"
  shows "abi_ok junk t v \<Longrightarrow> decodes c junk t v"
proof (induction t arbitrary: v)
  case (TVec t)
  then obtain vs where v: "v = VVec vs" "length vs < 2 ^ 64" "list_all (has_type t) vs"
    by (auto simp: abi_ok_def split: abi_val.splits)
  then have "decodes c junk t x" if "x \<in> set vs" for x
    using TVec that by (auto simp: abi_ok_def list_all_iff)
  then show ?case using decodes_vec[OF assms(1) v(2)] by (simp add: v(1))
next
  case (TTuple ts)
  then obtain vs where v: "v = VTuple vs" and all: "list_all2 has_type ts vs" by (auto simp only: abi_ok_def has_type_tuple)
  have "list_all2 (good c junk) ts vs"
    using all
  proof (rule list.rel_mono_strong)
    fix t x assume "t \<in> set ts" "x \<in> set vs" "has_type t x"
    then have "abi_ok junk t x" using TTuple.prems by (auto simp: abi_ok_def v list_all_iff)
    then show "good c junk t x" using TTuple.IH[OF \<open>t \<in> set ts\<close>] by (intro good_of_decodes[OF assms])
  qed
  then show ?case using TTuple.prems v by (auto intro: good_tuple simp: abi_ok_def)
qed (use assms in
  \<open>auto simp: abi_ok_def decodes_uint decodes_int decodes_address decodes_bool decodes_hash decodes_bytes
    decodes_string split: abi_val.splits\<close>)

lemma abi_ok_good: "bits_ok c \<Longrightarrow> length junk = 32 \<Longrightarrow> abi_ok junk t v \<Longrightarrow> good c junk t v"
  by (simp add: good_of_decodes abi_ok_decodes)

lemma decodeTupleHelper_eq:
  "decodeTupleHelper c ts bs i = bind_r (decodeTuple (map (TypeDecoder c) ts) bs i) (\<lambda>(vs, _). Inr vs)"
  by (induction ts arbitrary: i) (simp_all add: bind_r_assoc split_def)

lemma decodeData_encodeData:
  assumes "bits_ok c" "length junk = 32" "seq_ok ts" "list_all2 (abi_ok junk) ts vs"
    "length bs < 2 ^ 64" "holds_at bs 0 (encodeData c junk ts vs)"
  shows "decodeData c ts bs 0 = Inr vs"
proof -
  have "list_all2 (good c junk) ts vs"
    using assms(4) by (rule list_all2_mono) (rule abi_ok_good[OF assms(1,2)])
  from decodeTuple_seq[OF this assms(3,5,6)] show ?thesis
    using assms(4) by (auto simp: decodeData_def decodeTupleHelper_eq)
qed

subsection \<open>What the words of static types say\<close>

lemma subspan_length: "subspan bs i n = Inr x \<Longrightarrow> length x = n"
  by (auto simp: subspan_def split: if_splits)

lemma safe_subspan: "i + n \<le> length bs \<Longrightarrow> subspan bs i n = Inr (take n (drop i bs))"
  by (simp add: subspan_def)

text \<open>
  The number that a word says to \<^verbatim>\<open>bytesToInt256\<close>: its two's complement value, minus the powers
  256 to \<open>256 ^ z\<close> that the loop subtracts too much from a negative number that ends in
  \<open>z\<close> zero bytes.
\<close>

definition trailing_zeros :: "bytes \<Rightarrow> nat" where
  "trailing_zeros w = length (takeWhile (\<lambda>b. b = 0) (rev w))"

definition word_int :: "bytes \<Rightarrow> int" where
  "word_int w = (if be_val w < 2 ^ 255 then int (be_val w)
     else int (be_val w) - 2 ^ 256 - int (\<Sum>j<trailing_zeros w. 256 ^ Suc j))"

fun slices :: "nat list \<Rightarrow> 'a list \<Rightarrow> 'a list list" where
  "slices [] xs = []"
| "slices (n # ns) xs = take n xs # slices ns (drop n xs)"

text \<open>The value that the bytes of a static type say, if they are in its range.\<close>

primrec static_value :: "abi_type \<Rightarrow> bytes \<Rightarrow> abi_val option" where
  "static_value (TUint n) = (\<lambda>w. if be_val w < 2 ^ n then Some (VUint (be_val w)) else None)"
| "static_value (TInt n) = (\<lambda>w. if int_ok n (word_int w) then Some (VInt (word_int w)) else None)"
| "static_value TAddress = (\<lambda>w. Some (VAddress (drop 12 w)))"
| "static_value TBool = (\<lambda>w. Some (VBool (last w = 1)))"
| "static_value THash = (\<lambda>w. Some (VHash w))"
| "static_value TBytes = (\<lambda>w. None)"
| "static_value TString = (\<lambda>w. None)"
| "static_value (TVec t) = (\<lambda>w. None)"
| "static_value (TTuple ts) = (\<lambda>w. map_option VTuple
     (those (map2 (\<lambda>f x. f x) (map static_value ts) (slices (map static_size ts) w))))"

definition static_values :: "abi_type list \<Rightarrow> bytes \<Rightarrow> abi_val list option" where
  "static_values ts w = those (map2 static_value ts (slices (map static_size ts) w))"

lemma static_values_simps [simp]:
  "static_values [] w = Some []"
  "static_values (t # ts) w = (case static_value t (take (static_size t) w) of None \<Rightarrow> None
     | Some v \<Rightarrow> map_option ((#) v) (static_values ts (drop (static_size t) w)))"
  by (simp_all add: static_values_def split: option.split)

lemma static_value_tuple: "static_value (TTuple ts) w = map_option VTuple (static_values ts w)"
  by (simp add: static_values_def zip_map1 split_def comp_def)

lemma slices_take: "sum_list ns \<le> n \<Longrightarrow> slices ns (take n xs) = slices ns xs"
proof (induction ns arbitrary: n xs)
  case (Cons m ns)
  then have "take m (take n xs) = take m xs" "slices ns (take (n - m) (drop m xs)) = slices ns (drop m xs)" by simp_all
  then show ?case by (simp add: drop_take)
qed simp

lemma static_values_take: "sum_list (map static_size ts) \<le> n \<Longrightarrow> static_values ts (take n w) = static_values ts w"
  by (simp add: static_values_def slices_take)

lemma trailing_zeros_snoc:
  "trailing_zeros (xs @ [x]) = (if x = 0 then Suc (trailing_zeros xs) else 0)"
  by (simp add: trailing_zeros_def)

lemma borrow_loop_zeros:
  assumes "length b = 32" "b ! 0 \<noteq> 0"
  shows "i \<le> 31 \<Longrightarrow> (\<Sum>j<Suc (trailing_zeros (take (Suc i) b)). 256 ^ (31 - i + j)) \<le> a \<Longrightarrow>
    borrow_loop b i a = Inr (a - (\<Sum>j<Suc (trailing_zeros (take (Suc i) b)). 256 ^ (31 - i + j)))"
proof (induction i arbitrary: a)
  case 0
  have "trailing_zeros (take (Suc 0) b) = 0" using assms by (cases b) (simp_all add: trailing_zeros_def)
  then show ?case using 0 assms(2) by (subst borrow_loop.simps) (simp add: u_sub_def)
next
  case (Suc i)
  let ?z = "trailing_zeros (take (Suc i) b)"
  have tk: "take (Suc (Suc i)) b = take (Suc i) b @ [b ! Suc i]"
    using Suc.prems(1) assms(1) by (intro take_Suc_conv_app_nth) simp
  show ?case
  proof (cases "b ! Suc i = 0")
    case True
    have e: "31 - i + j = 31 - Suc i + Suc j" for j using Suc.prems(1) by simp
    have sum: "(\<Sum>j<Suc (Suc ?z). (256 :: nat) ^ (31 - Suc i + j)) =
        256 ^ (31 - Suc i) + (\<Sum>j<Suc ?z. 256 ^ (31 - i + j))"
      unfolding e by (subst sum.lessThan_Suc_shift) simp
    have z: "trailing_zeros (take (Suc (Suc i)) b) = Suc ?z" unfolding tk trailing_zeros_snoc using True by simp
    let ?a = "a - 256 ^ (31 - Suc i)"
    have "256 ^ (31 - Suc i) + (\<Sum>j<Suc ?z. 256 ^ (31 - i + j)) \<le> a" using Suc.prems(2) unfolding z sum .
    then have le: "256 ^ (31 - Suc i) \<le> a" "(\<Sum>j<Suc ?z. 256 ^ (31 - i + j)) \<le> ?a" by linarith+
    have "borrow_loop b (Suc i) a = borrow_loop b i ?a"
      by (subst borrow_loop.simps) (use True le(1) in \<open>simp add: u_sub_def\<close>)
    also have "\<dots> = Inr (?a - (\<Sum>j<Suc ?z. 256 ^ (31 - i + j)))"
      using Suc.IH[OF _ le(2)] Suc.prems(1) by simp
    finally show ?thesis unfolding z sum by (simp only: diff_diff_left)
  next
    case False
    have z: "trailing_zeros (take (Suc (Suc i)) b) = 0" unfolding tk trailing_zeros_snoc using False by simp
    show ?thesis
      unfolding z by (subst borrow_loop.simps) (use False Suc.prems(2)[unfolded z] in \<open>simp add: u_sub_def\<close>)
  qed
qed

lemma powers_below: "z \<le> 32 \<Longrightarrow> (\<Sum>j<z. (256 :: nat) ^ j) \<le> 2 ^ 255"
proof -
  assume "z \<le> 32"
  then have "(256 :: nat) ^ z \<le> 256 ^ 32" by (intro power_increasing) simp_all
  moreover have "(\<Sum>j<z. (256 :: nat) ^ j) * 255 + 1 = 256 ^ z" by (induction z) simp_all
  ultimately show ?thesis by simp
qed

lemma bytesToInt256_word:
  assumes "bits_ok c" "length w = 32"
  shows "bytesToInt256 (import_bits c) w = Inr (word_int w)"
proof (cases "be_val w < 2 ^ 255")
  case True
  then show ?thesis
    using top_bit_clear[OF assms(2)] assms by (simp add: bytesToInt256_def word_int_def bits_ok_def boost_bits.import_val)
next
  case False
  let ?z = "trailing_zeros w"
  have ge: "2 ^ 255 \<le> be_val w" using False by simp
  have top: "w ! 0 AND 128 \<noteq> 0" by (rule be_val_top_bit[OF assms(2) ge])
  then have ne: "w ! 0 \<noteq> 0" by auto
  have "w ! 0 \<in> set (rev w)" using assms(2) by simp
  then have "dropWhile (\<lambda>b. b = 0) (rev w) \<noteq> []" unfolding dropWhile_eq_Nil_conv using ne by blast
  moreover have "?z + length (dropWhile (\<lambda>b. b = 0) (rev w)) = length (rev w)"
    unfolding trailing_zeros_def length_append[symmetric] takeWhile_dropWhile_id ..
  ultimately have "0 < length (dropWhile (\<lambda>b. b = 0) (rev w))" "?z + length (dropWhile (\<lambda>b. b = 0) (rev w)) = 32"
    using assms(2) by simp_all
  then have z: "Suc ?z \<le> 32" by linarith
  have le: "(\<Sum>j<Suc ?z. 256 ^ j) \<le> be_val w" using powers_below[OF z] ge by (rule order_trans)
  have "borrow_loop w 31 (be_val w) = Inr (be_val w - (\<Sum>j<Suc ?z. 256 ^ j))"
    using borrow_loop_zeros[OF assms(2) ne, of 31 "be_val w"] le assms(2) by simp
  moreover have "be_val w < 2 ^ 256" using be_val_less[of w] assms(2) by simp
  moreover have "(\<Sum>j<Suc ?z. (256 :: nat) ^ j) = 1 + (\<Sum>j<?z. 256 ^ Suc j)" by (subst sum.lessThan_Suc_shift) simp
  ultimately show ?thesis
    using assms top False le by (simp add: bytesToInt256_def bits_ok_def boost_bits.import_val word_int_def of_nat_diff
        del: sum.lessThan_Suc)
qed

text \<open>A decoder of a static type reads just its words, whatever comes before and after.\<close>

definition exact_decoder :: "crypto \<Rightarrow> abi_type \<Rightarrow> bool" where
  "exact_decoder c t \<longleftrightarrow> (\<forall>bs i. length bs < 2 ^ 64 - 32 \<longrightarrow> i \<le> length bs \<longrightarrow>
     (if i + static_size t \<le> length bs
      then TypeDecoder c t bs i = (case static_value t (take (static_size t) (drop i bs)) of None \<Rightarrow> Inl BoostError
             | Some v \<Rightarrow> Inr (v, i + static_size t))
      else TypeDecoder c t bs i \<in> {Inl LengthError, Inl BoostError}))"

lemma need_cases:
  assumes "length bs < 2 ^ 64 - 32" "i \<le> length bs"
  obtains "need bs (i + 32) = Inl LengthError" "\<not> i + 32 \<le> length bs"
  | "need bs (i + 32) = Inr ()" "i + 32 \<le> length bs" "advance i = i + 32"
proof (cases "i + 32 \<le> length bs")
  case True
  then show ?thesis using assms that(2) by (simp add: need_def advance_def)
next
  case False
  have "(i + 32) mod 2 ^ 64 = i + 32" using assms by (intro mod_less) simp
  then show ?thesis using False that(1) by (simp add: need_def throw_if_def)
qed

lemma exact_word:
  assumes "static_size t = 32"
    "\<And>(bs :: bytes) i. need bs (i + 32) = Inl LengthError \<Longrightarrow> TypeDecoder c t bs i = Inl LengthError"
    "\<And>(bs :: bytes) i. length bs < 2 ^ 64 - 32 \<Longrightarrow> need bs (i + 32) = Inr () \<Longrightarrow> i + 32 \<le> length bs \<Longrightarrow>
      TypeDecoder c t bs i = (case static_value t (take 32 (drop i bs)) of None \<Rightarrow> Inl BoostError
        | Some v \<Rightarrow> Inr (v, advance i))"
  shows "exact_decoder c t"
  unfolding exact_decoder_def
proof (intro allI impI)
  fix bs :: bytes and i assume bs: "length bs < 2 ^ 64 - 32" "i \<le> length bs"
  then show "if i + static_size t \<le> length bs
      then TypeDecoder c t bs i = (case static_value t (take (static_size t) (drop i bs)) of None \<Rightarrow> Inl BoostError
             | Some v \<Rightarrow> Inr (v, i + static_size t))
      else TypeDecoder c t bs i \<in> {Inl LengthError, Inl BoostError}"
    unfolding assms(1)
    by (rule need_cases) (use assms(2)[of bs i] assms(3)[OF bs(1), of i] in \<open>auto split: option.split\<close>)
qed

lemma decodeTuple_exact:
  assumes "\<And>t. t \<in> set ts \<Longrightarrow> exact_decoder c t" "length bs < 2 ^ 64 - 32"
  shows "i \<le> length bs \<Longrightarrow>
    (if i + sum_list (map static_size ts) \<le> length bs
     then decodeTuple (map (TypeDecoder c) ts) bs i = (case static_values ts (drop i bs) of None \<Rightarrow> Inl BoostError
            | Some vs \<Rightarrow> Inr (vs, i + sum_list (map static_size ts)))
     else decodeTuple (map (TypeDecoder c) ts) bs i \<in> {Inl LengthError, Inl BoostError})"
  using assms(1)
proof (induction ts arbitrary: i)
  case (Cons t ts)
  have "exact_decoder c t" using Cons.prems(2) by simp
  then have d: "if i + static_size t \<le> length bs
      then TypeDecoder c t bs i = (case static_value t (take (static_size t) (drop i bs)) of None \<Rightarrow> Inl BoostError
             | Some v \<Rightarrow> Inr (v, i + static_size t))
      else TypeDecoder c t bs i \<in> {Inl LengthError, Inl BoostError}"
    using assms(2) Cons.prems(1) unfolding exact_decoder_def by blast
  show ?case
  proof (cases "i + static_size t \<le> length bs")
    case True
    note ih = Cons.IH[OF True Cons.prems(2)]
    show ?thesis
    proof (cases "static_value t (take (static_size t) (drop i bs))")
      case (Some v)
      then have "TypeDecoder c t bs i = Inr (v, i + static_size t)" using d True by simp
      then show ?thesis
        using ih Some by (auto simp: add.assoc add.commute[of i] split: option.splits if_splits)
    qed (use d True in simp)
  qed (use d in auto)
qed simp

lemma TypeDecoder_exact:
  assumes "bits_ok c"
  shows "\<not> isDynamic t \<Longrightarrow> type_ok t \<Longrightarrow> exact_decoder c t"
proof (induction t)
  case (TUint n)
  show ?case
    using assms by (intro exact_word) (simp_all add: decodeUint_def bytesToUint256_def bytesToWide_def u_cast_def
        safe_subspan bits_ok_def boost_bits.import_val)
next
  case (TInt n)
  show ?case
    using assms by (intro exact_word) (simp_all add: decodeInt_def safe_subspan bytesToInt256_word)
next
  case (TTuple ts)
  have st: "\<not> list_ex isDynamic ts" using TTuple.prems(1) by (simp only: isDynamic_tuple not_False_eq_True)
  have ok: "list_all type_ok ts" using TTuple.prems(2) by simp
  have all: "exact_decoder c t" if "t \<in> set ts" for t
    using that TTuple.IH st ok by (auto simp: list_ex_iff list_all_iff)
  have "sum_list (map (\<lambda>_. 32) ts) \<le> sum_list (map static_size ts)"
    using ok static_size_pos by (intro sum_list_mono) (auto simp: list_all_iff)
  then have len: "32 * length ts \<le> static_size (TTuple ts)" by (simp add: sum_list_triv)
  show ?case
    unfolding exact_decoder_def
  proof (intro allI impI)
    fix bs :: bytes and i assume bs: "length bs < 2 ^ 64 - 32" "i \<le> length bs"
    note ex = decodeTuple_exact[of ts, OF all bs]
    have td: "TypeDecoder c (TTuple ts) bs i = bind_r (need bs (i + 32 * length ts)) (\<lambda>_.
        bind_r (decodeTuple (map (TypeDecoder c) ts) bs i) (\<lambda>(vs, i'). Inr (VTuple vs, i')))"
      using st by simp
    have "(i + 32 * length ts) mod 2 ^ 64 \<le> i + 32 * length ts" by (rule mod_less_eq_dividend)
    then have need: "need bs (i + 32 * length ts) = Inl LengthError \<and> \<not> i + static_size (TTuple ts) \<le> length bs
        \<or> need bs (i + 32 * length ts) = Inr ()"
      using len by (auto simp: need_def throw_if_def simp del: static_size.simps)
    then show "if i + static_size (TTuple ts) \<le> length bs
      then TypeDecoder c (TTuple ts) bs i = (case static_value (TTuple ts) (take (static_size (TTuple ts)) (drop i bs)) of
             None \<Rightarrow> Inl BoostError | Some v \<Rightarrow> Inr (v, i + static_size (TTuple ts)))
      else TypeDecoder c (TTuple ts) bs i \<in> {Inl LengthError, Inl BoostError}"
    proof (cases "i + static_size (TTuple ts) \<le> length bs")
      case True
      then have "need bs (i + 32 * length ts) = Inr ()" using need by blast
      then show ?thesis
        using True ex unfolding static_value_tuple td
        by (cases "static_values ts (drop i bs)") (simp_all add: static_values_take)
    next
      case False
      then show ?thesis using need ex unfolding td by auto
    qed
  qed
next
  case TAddress
  show ?case
    by (rule exact_word) (simp_all add: safe_subspan drop_take add.commute)
next
  case TBool
  show ?case
  proof (rule exact_word)
    fix bs :: bytes and i assume "length bs < 2 ^ 64 - 32" "need bs (i + 32) = Inr ()" "i + 32 \<le> length bs"
    moreover from this have "last (take 32 (drop i bs)) = bs ! (i + 31)" by (simp add: last_conv_nth)
    ultimately show "TypeDecoder c TBool bs i = (case static_value TBool (take 32 (drop i bs)) of None \<Rightarrow> Inl BoostError
        | Some v \<Rightarrow> Inr (v, advance i))" by (simp add: byte_at_def)
  qed simp_all
next
  case THash
  show ?case by (rule exact_word) (simp_all add: safe_subspan Hash_of_def)
qed simp_all

subsection \<open>Offsets\<close>

text \<open>The computed size of a static tuple is right just when each member fills one word.\<close>

lemma sum_list_32:
  "(\<And>x. x \<in> set xs \<Longrightarrow> (32 :: nat) \<le> f x) \<Longrightarrow> 32 * length xs = sum_list (map f xs) \<longleftrightarrow> (\<forall>x \<in> set xs. f x = 32)"
proof (induction xs)
  case (Cons x xs)
  have "sum_list (map (\<lambda>_. 32) xs) \<le> sum_list (map f xs)" using Cons.prems by (intro sum_list_mono) simp
  then have "32 * length xs \<le> sum_list (map f xs)" by (simp add: sum_list_triv)
  moreover have "32 \<le> f x" using Cons.prems by simp
  moreover have "32 * length xs = sum_list (map f xs) \<longleftrightarrow> (\<forall>x \<in> set xs. f x = 32)" using Cons by simp
  ultimately show ?case by auto
qed simp

lemma static_offset_iff:
  assumes "list_all type_ok ts" "\<not> list_ex isDynamic ts"
  shows "calculateOffsetForType (TTuple ts) = head_size (TTuple ts) \<longleftrightarrow> (\<forall>t \<in> set ts. static_size t = 32)"
  using assms sum_list_32[of ts static_size] static_size_pos
  by (simp add: calculateOffsetForType_def head_size_def isDynamic_tuple list_all_iff del: isDynamic.simps)

text \<open>An offset that points outside the data.\<close>

lemma read_u64_outside:
  assumes "length bs < 2 ^ 64 - 32" "off < 2 ^ 64" "length bs < off + 32" "31 \<le> length bs"
  shows "read_u64 bs off = Inl (if off + 32 < 2 ^ 64 then LengthError else UndefinedBehaviour)"
proof (cases "off + 32 < 2 ^ 64")
  case True
  then have "(off + 32) mod 2 ^ 64 = off + 32" by (rule mod_less)
  then show ?thesis using assms(3) True by (simp add: read_u64_def need_def throw_if_def)
next
  case False
  have "(off + 32) mod 2 ^ 64 = off + 32 - 2 ^ 64" using False assms(2) by (simp add: mod_if)
  also have "\<dots> \<le> length bs" using assms(2,4) by simp
  finally show ?thesis using False assms(3) by (simp add: read_u64_def need_def subspan_def)
qed

subsection \<open>Event data\<close>

lemma encodeEventData_eq:
  "encodeEventData c junk ps =
   heads (calculateTotalOffset (map ep_type ps))
     (items_of c junk (map ep_type (filter (Not \<circ> ep_isIndexed) ps)) (map ep_value (filter (Not \<circ> ep_isIndexed) ps))) @
   tails (items_of c junk (map ep_type (filter (Not \<circ> ep_isIndexed) ps)) (map ep_value (filter (Not \<circ> ep_isIndexed) ps)))"
  by (simp add: encodeEventData_def encodeItems_eq zip_map_map zip_same_conv_map comp_def)

text \<open>The data of the parameters that are not indexed, when nothing shifts the offsets.\<close>

lemma encodeEventData_encodeData:
  assumes "list_all (Not \<circ> ep_isIndexed) ps \<or> \<not> list_ex isDynamic (map ep_type (filter (Not \<circ> ep_isIndexed) ps))"
  shows "encodeEventData c junk ps =
    encodeData c junk (map ep_type (filter (Not \<circ> ep_isIndexed) ps)) (map ep_value (filter (Not \<circ> ep_isIndexed) ps))"
  using assms
proof
  assume "list_all (Not \<circ> ep_isIndexed) ps"
  then have "filter (Not \<circ> ep_isIndexed) ps = ps" by (simp add: filter_id_conv list_all_iff)
  then show ?thesis by (simp add: encodeEventData_eq encodeData_eq)
next
  let ?ps = "filter (Not \<circ> ep_isIndexed) ps"
  assume "\<not> list_ex isDynamic (map ep_type ?ps)"
  note st = static_items(1)[OF _ this, of "map ep_value ?ps" _ c junk, simplified length_map, OF refl]
  show ?thesis
    unfolding encodeEventData_eq encodeData_eq
    by (rule arg_cong2[OF trans[OF st st[symmetric]] refl, where f = append])
qed

section \<open>Properties\<close>

text \<open>
  Claim C22. For arguments of the supported types whose heads the encoder measures right, whose
  negative numbers survive the signed words, and whose encoding stays below the range of the
  padding counter, the decoder gives back what the encoder was given: whatever nesting of
  vectors, tuples, strings and numbers the call has.
\<close>
theorem abi_roundtrip:
  assumes "bits_ok c" "length junk = 32" "seq_ok ts" "list_all2 (abi_ok junk) ts vs"
    "length (encodeData c junk ts vs) < 2 ^ 31 - 32"
  shows "decodeData c ts (encodeData c junk ts vs) 0 = Inr vs"
  using assms(5) by (intro decodeData_encodeData[OF assms(1-4) _ holds_at_self]) simp

definition sample_types :: "abi_type list" where
  "sample_types = [TTuple [TString, TVec (TUint 16)], TInt 64, TTuple [TAddress, TBool]]"

definition sample_values :: "abi_val list" where
  "sample_values = [VTuple [VString ''hi'', VVec [VUint 5, VUint 65535]], VInt (- 3),
     VTuple [VAddress (replicate 20 9), VBool True]]"

lemma bytesRequired_Suc0 [simp]: "bytesRequired (Suc 0) = 1" "bytesRequired 3 = 1" "bytesRequired 2 = 1"
  by (simp_all add: bytesRequired.simps)

lemma pad_loop_small: "n \<le> 32 \<Longrightarrow> pad_loop 0 n = 32"
  by (simp add: pad_loop.simps)

lemma sample_abi_ok: "seq_ok sample_types" "list_all2 (abi_ok (replicate 32 0)) sample_types sample_values"
  by (simp_all add: sample_types_def sample_values_def abi_ok_def seq_ok_def head_size_def calculateOffsetForType_def
      width_ok_def int_ok_def int_min_def int_max_def native_size_def int_survives_def junk_clear_def used_bytes_def)

theorem abi_roundtrip_witness:
  "length (encodeData sample_crypto (replicate 32 0) sample_types sample_values) < 2 ^ 31 - 32 \<and>
   decodeData sample_crypto sample_types
     (encodeData sample_crypto (replicate 32 0) sample_types sample_values) 0 = Inr sample_values"
proof -
  have small: "length (encodeData sample_crypto (replicate 32 0) sample_types sample_values) < 2 ^ 31 - 32"
    using length_encodeInt[OF sample_crypto_ok(1), of "- 3" "replicate 32 0"]
    by (simp add: encodeData_eq sample_types_def sample_values_def encodeItems_eq length_word32 encode_bytes_eq
        pad_loop_small stringToBytes_def padLeftBytes_def encodeUint_word32[OF sample_crypto_ok(1)]
        calculateTotalOffset_def calculateOffsetForType_def)
  then show ?thesis
    using abi_roundtrip[OF sample_crypto_ok(1) _ sample_abi_ok small] by simp
qed

text \<open>
  Claim C23. Decoding arguments of static types, tuples of them included, against what the
  words of the data say. When the data has all their words, the decoder returns the values of
  these words in order, each read whole as a number, as the last 20 bytes, as the last byte
  being 1 or as it is; if a number is not in the range of its width it throws the range error.
  When the data is too short it throws, and never reads outside. A negative number is the
  two's complement value of its word only if the word does not end in a zero byte.
\<close>
theorem abi_static_decode_exact:
  assumes "bits_ok c" "\<not> list_ex isDynamic ts" "list_all type_ok ts" "length bs < 2 ^ 64 - 32"
  shows "if sum_list (map static_size ts) \<le> length bs
    then decodeData c ts bs 0 = (case static_values ts bs of None \<Rightarrow> Inl BoostError | Some vs \<Rightarrow> Inr vs)
    else decodeData c ts bs 0 \<in> {Inl LengthError, Inl BoostError}"
proof -
  have "exact_decoder c t" if "t \<in> set ts" for t
    using that assms TypeDecoder_exact by (auto simp: list_ex_iff list_all_iff)
  from decodeTuple_exact[OF this assms(4), of ts 0] show ?thesis
    by (auto simp: decodeData_def decodeTupleHelper_eq split: option.splits)
qed

definition sample_words :: bytes where
  "sample_words = replicate 31 0 @ [200] @ replicate 12 9 @ replicate 20 7 @ replicate 30 255 @ [1, 0]"

theorem abi_static_decode_exact_witness:
  "decodeData sample_crypto [TUint 8, TTuple [TAddress, TInt 32]] sample_words 0 =
     Inr [VUint 200, VTuple [VAddress (replicate 20 7), VInt (- 65536)]]"
proof -
  have "trailing_zeros (replicate 30 255 @ [1, 0]) = 1" by (simp add: trailing_zeros_def)
  moreover have "be_val (replicate 30 255 @ [1, 0]) = 2 ^ 256 - 256 ^ 2 + 256"
    using be_val_replicate_255[of 30] by (simp add: be_val_append be_val_Cons)
  ultimately have "word_int (replicate 30 255 @ [1, 0]) = - 65536" by (simp add: word_int_def)
  moreover have "be_val (replicate 31 0 @ [200]) = 200" by (simp add: be_val_append)
  moreover have "int_ok 32 (- 65536)" by (simp add: int_ok_def int_min_def int_max_def native_size_def)
  ultimately have "static_values [TUint 8, TTuple [TAddress, TInt 32]] sample_words =
      Some [VUint 200, VTuple [VAddress (replicate 20 7), VInt (- 65536)]]"
    by (simp add: sample_words_def)
  then show ?thesis
    using abi_static_decode_exact[OF sample_crypto_ok(1), of "[TUint 8, TTuple [TAddress, TInt 32]]" sample_words]
    by (simp add: sample_words_def width_ok_def)
qed

lemma decodeTuple_append:
  "decodeTuple (ds @ es) bs i = bind_r (decodeTuple ds bs i) (\<lambda>(vs, j).
     bind_r (decodeTuple es bs j) (\<lambda>(ws, k). Inr (vs @ ws, k)))"
proof (induction ds arbitrary: i)
  case Nil
  show ?case by (cases "decodeTuple es bs i") auto
qed (simp add: bind_r_assoc split_def)

text \<open>
  Claim C24. The offset of a dynamic argument is read from the data, here for an argument at any
  position, after others that were decoded. When the length word that it points to is not all inside
  the data, the decoder of \<^verbatim>\<open>Bytes\<close>, a string or a vector throws the length error, except that
  the sum of the size check wraps for an offset in the last 32 values of the 64 bits: the check
  passes, and the decoder reads outside the data. The offset of a dynamic tuple is not checked at
  all: one past the end of the data is always undefined behaviour.
\<close>
theorem abi_offset_outside:
  assumes "decodeTuple (map (TypeDecoder c) pre) bs 0 = Inr (vs, i)" "i + 32 \<le> length bs" "length bs < 2 ^ 64 - 32"
    and "off = fromBigEndian_native 64 (take 32 (drop i bs))"
  shows "(length bs < off + 32 \<and> t \<in> {TBytes, TString, TVec t'} \<longrightarrow>
      decodeData c (pre @ t # post) bs 0 = Inl (if off + 32 < 2 ^ 64 then LengthError else UndefinedBehaviour))
    \<and> (length bs < off \<and> list_ex isDynamic ts \<longrightarrow> decodeData c (pre @ TTuple ts # post) bs 0 = Inl UndefinedBehaviour)"
proof -
  have r: "read_u64 bs i = Inr off"
    using assms(2-4) need_ok[of "i + 32" bs] by (simp add: read_u64_def subspan_def)
  have off: "off < 2 ^ 64" using assms(4) by (simp add: fromBigEndian_native_mod)
  have at: "TypeDecoder c t bs i = Inl e \<Longrightarrow> decodeData c (pre @ t # post) bs 0 = Inl e" for t e
    using assms(1) by (simp add: decodeData_def decodeTupleHelper_eq decodeTuple_append)
  have "TypeDecoder c t bs i = Inl (if off + 32 < 2 ^ 64 then LengthError else UndefinedBehaviour)"
    if "length bs < off + 32" "t \<in> {TBytes, TString, TVec t'}"
    using that(2) r read_u64_outside[OF assms(3) off that(1)] assms(2) by (auto simp: decode_bytes_def)
  moreover have "TypeDecoder c (TTuple ts) bs i = Inl UndefinedBehaviour" if "length bs < off" "list_ex isDynamic ts"
    using that r by (simp add: subspan_def)
  ultimately show ?thesis using at by blast
qed

theorem abi_offset_outside_witness:
  "decodeData sample_crypto [TBool, TBytes, THash] (replicate 64 255) 0 = Inl UndefinedBehaviour
   \<and> decodeData sample_crypto [TBool, TTuple [TUint 8, TString], THash] (replicate 64 255) 0 = Inl UndefinedBehaviour"
proof -
  have "fromBigEndian_native 64 (replicate 32 255) = 2 ^ 64 - 1"
    using be_val_replicate_255[of 32] by (simp add: fromBigEndian_native_mod)
  moreover have "decodeTuple (map (TypeDecoder sample_crypto) [TBool]) (replicate 64 255) 0 = Inr ([VBool False], 32)"
    by (simp add: need_def advance_def byte_at_def)
  ultimately show ?thesis
    using abi_offset_outside[of sample_crypto "[TBool]" "replicate 64 255" "[VBool False]" 32 "2 ^ 64 - 1" TBytes TBytes
        "[THash]" "[TUint 8, TString]"] by simp
qed

text \<open>
  A negative number is encoded as its two's complement word just when the limbs of
  the number that hold no digits happen to be zero in memory: the encoder complements the
  32 bytes of the object, and the number library writes only the limbs it uses.
\<close>
theorem encodeInt_twos_complement_iff:
  assumes "num < 0" "- (2 ^ 256) < num" "length junk = 32"
  shows "encodeInt c junk num = word32 (nat (num mod 2 ^ 256)) \<longleftrightarrow>
    (\<forall>i < 32. used_bytes (nat (- num)) \<le> i \<longrightarrow> junk ! i = 0)"
proof -
  let ?u = "used_bytes (nat (- num))"
  have "junk_clear junk (nat (- num)) \<longleftrightarrow> (\<forall>j < 32 - ?u. junk ! (?u + j) = 0)"
    using assms(3) by (simp add: junk_clear_def list_eq_iff_nth_eq)
  also have "\<dots> \<longleftrightarrow> (\<forall>i < 32. ?u \<le> i \<longrightarrow> junk ! i = 0)"
    by (metis add_diff_inverse_nat less_diff_conv add.commute le_add1 not_less)
  finally show ?thesis using encodeInt_neg_iff[OF assms] by simp
qed

theorem encodeInt_twos_complement_iff_witness:
  "encodeInt sample_crypto (replicate 32 0) (- 1) = word32 (2 ^ 256 - 1) \<and>
   encodeInt sample_crypto (replicate 32 1) (- 1) \<noteq> word32 (2 ^ 256 - 1)"
proof -
  have m: "nat (- 1 mod 2 ^ 256) = 2 ^ 256 - 1" and u: "used_bytes (Suc 0) = 8" by (simp_all add: used_bytes_def)
  have "\<not> (\<forall>i < 32. used_bytes 1 \<le> i \<longrightarrow> replicate 32 (1 :: byte) ! i = 0)"
    by (auto simp: u intro!: exI[of _ 8])
  then show ?thesis
    using encodeInt_twos_complement_iff[of "- 1" "replicate 32 0" sample_crypto, unfolded m]
      encodeInt_twos_complement_iff[of "- 1" "replicate 32 1" sample_crypto, unfolded m] by simp
qed

text \<open>
  The data of an event: when no parameter is indexed, or those that are not indexed
  are all static, the data decodes to the values that are not indexed.
\<close>
theorem event_data_roundtrip:
  defines "plain \<equiv> filter (Not \<circ> ep_isIndexed)"
  assumes "bits_ok c" "length junk = 32"
    "list_all (Not \<circ> ep_isIndexed) ps \<or> \<not> list_ex isDynamic (map ep_type (plain ps))"
    "seq_ok (map ep_type (plain ps))" "list_all (\<lambda>p. abi_ok junk (ep_type p) (ep_value p)) (plain ps)"
    "length (encodeEventData c junk ps) < 2 ^ 31 - 32"
  shows "decodeData c (map ep_type (plain ps)) (encodeEventData c junk ps) 0 = Inr (map ep_value (plain ps))"
proof -
  have eq: "encodeEventData c junk ps = encodeData c junk (map ep_type (plain ps)) (map ep_value (plain ps))"
    using assms(4) unfolding plain_def by (rule encodeEventData_encodeData)
  have "list_all2 (abi_ok junk) (map ep_type (plain ps)) (map ep_value (plain ps))"
    using assms(6) by (simp add: list_all2_conv_all_nth list_all_length)
  from decodeData_encodeData[OF assms(2,3,5) this _ holds_at_self] show ?thesis
    using assms(7) unfolding eq by simp
qed

theorem event_data_roundtrip_witness:
  "decodeData sample_crypto [TBool]
     (encodeEventData sample_crypto (replicate 32 0) [\<lparr>ep_type = TAddress, ep_value = VAddress (replicate 20 9),
        ep_isIndexed = True\<rparr>, \<lparr>ep_type = TBool, ep_value = VBool True, ep_isIndexed = False\<rparr>]) 0 = Inr [VBool True]"
  using event_data_roundtrip[OF sample_crypto_ok(1), of "replicate 32 0"
    "[\<lparr>ep_type = TAddress, ep_value = VAddress (replicate 20 9), ep_isIndexed = True\<rparr>,
      \<lparr>ep_type = TBool, ep_value = VBool True, ep_isIndexed = False\<rparr>]"]
  by (simp add: seq_ok_def abi_ok_def encodeEventData_def padLeftBytes_def)

text \<open>
  With an indexed parameter beside a dynamic one the offset is too large, because it
  counts a word for the indexed parameter that the data does not have: a string of 1 to 24
  characters after an indexed number reads back as the empty string.
\<close>
theorem event_indexed_shifts_offset:
  assumes "s \<noteq> ''''" "length s \<le> 24"
  shows "decodeData c [TString] (encodeEventData c junk
      [\<lparr>ep_type = TUint 256, ep_value = VUint k, ep_isIndexed = True\<rparr>,
       \<lparr>ep_type = TString, ep_value = VString s, ep_isIndexed = False\<rparr>]) 0 = Inr [VString '''']"
proof -
  let ?b = "stringToBytes s" and ?last = "stringToBytes s @ replicate (32 - length s) 0"
  let ?data = "word32 64 @ word32 (length s) @ ?last"
  have len: "length ?b = length s" by (simp add: stringToBytes_def)
  have data: "encodeEventData c junk [\<lparr>ep_type = TUint 256, ep_value = VUint k, ep_isIndexed = True\<rparr>,
       \<lparr>ep_type = TString, ep_value = VString s, ep_isIndexed = False\<rparr>] = ?data"
    using assms len by (simp add: encodeEventData_def encode_bytes_eq pad_loop_small calculateTotalOffset_def
        calculateOffsetForType_def)
  have total: "length ?data = 96" using assms(2) len by (simp add: length_word32)
  have "holds_at ?data 0 (word32 64)" by (simp add: holds_at_def)
  then have start: "read_u64 ?data 0 = Inr 64" using total by (intro read_u64_word) simp_all
  have split: "32 - length s = (24 - length s) + 8" using assms(2) by simp
  have "be_val ?last = be_val (?b @ replicate (24 - length s) 0) * 256 ^ 8"
    unfolding split replicate_add append_assoc[symmetric] be_val_append by simp
  then have "fromBigEndian_native 64 ?last = 0" by (simp add: fromBigEndian_native_mod)
  moreover have "subspan ?data 64 32 = Inr ?last" using assms(2) len by (simp add: subspan_def length_word32)
  ultimately have "read_u64 ?data 64 = Inr 0" using total need_ok[of 96 ?data] by (simp add: read_u64_def)
  then have "decode_bytes ?data 0 = Inr ([], advance 0)"
    using start total need_ok[of 96 ?data] by (simp add: decode_bytes_def subspan_def)
  then show ?thesis unfolding data by (simp add: decodeData_def bytesToString_def)
qed

theorem event_indexed_shifts_offset_witness:
  "decodeData sample_crypto [TString] (encodeEventData sample_crypto []
      [\<lparr>ep_type = TUint 256, ep_value = VUint 7, ep_isIndexed = True\<rparr>,
       \<lparr>ep_type = TString, ep_value = VString ''hello'', ep_isIndexed = False\<rparr>]) 0 = Inr [VString ''''] \<and>
   VString ''hello'' \<noteq> VString ''''"
  using event_indexed_shifts_offset[of "''hello''" sample_crypto "[]" 7] by simp

text \<open>
  The size the encoder assumes for a static tuple is the size of its encoding just
  when every member fills one word: with a static tuple of two or more members inside, the
  offsets of the dynamic arguments beside it are too small.
\<close>
theorem static_tuple_offset_iff:
  assumes "bits_ok c" "length junk = 32" "type_ok (TTuple ts)" "\<not> isDynamic (TTuple ts)" "has_type (TTuple ts) v"
  shows "calculateOffsetForType (TTuple ts) = length (TypeEncoder c junk (TTuple ts) v) \<longleftrightarrow>
    (\<forall>t \<in> set ts. static_size t = 32)"
  using static_offset_iff[of ts] assms(3,4) length_static[OF assms(1,2,4,5,3)]
  by (simp add: isDynamic_tuple head_size_def del: isDynamic.simps TypeEncoder.simps static_size.simps)

theorem static_tuple_offset_iff_witness:
  "calculateOffsetForType (TTuple [TTuple [TBool, TBool], TBool]) \<noteq>
   length (TypeEncoder sample_crypto (replicate 32 0) (TTuple [TTuple [TBool, TBool], TBool])
     (VTuple [VTuple [VBool True, VBool False], VBool True]))"
  using static_tuple_offset_iff[OF sample_crypto_ok(1), of "replicate 32 0" "[TTuple [TBool, TBool], TBool]"
    "VTuple [VTuple [VBool True, VBool False], VBool True]"]
  by (simp del: TypeEncoder.simps)

end
