(* ===== verification/Rpc_Decoding.thy ===== *)
theory Rpc_Decoding
  imports Events Chain_Storage
begin

text \<open>
  The decoding of JSON-RPC requests (\<^verbatim>\<open>src/src/net/http/jsonrpc/decoding.cpp\<close>, \<^verbatim>\<open>methods.h\<close>): the
  methods, the check of a request and one decoder per method, which turns the parameters of
  the request into the arguments of the node. \<open>W\<close> is the text that \<^verbatim>\<open>what()\<close> gives for an
  exception.
\<close>

section \<open>Definitions: requests\<close>

text \<open>
  \<^verbatim>\<open>operator[]\<close> on a constant object requires that the key is there. The other accessors check
  the type of the value, the key and the index.
\<close>

fun json_const_at :: "json \<Rightarrow> string \<Rightarrow> json res" where
  "json_const_at (JObj fs) k = (case map_of fs k of None \<Rightarrow> Inl UndefinedBehaviour | Some v \<Rightarrow> Inr v)"
| "json_const_at _ k = Inl json_type_error"

fun json_contains :: "json \<Rightarrow> string \<Rightarrow> bool" where
  "json_contains (JObj fs) k = (map_of fs k \<noteq> None)"
| "json_contains _ k = False"

definition json_out_of_range :: cpp_error where
  "json_out_of_range = DynamicException ''out_of_range''"

fun json_index :: "json \<Rightarrow> nat \<Rightarrow> json res" where
  "json_index (JArr xs) i = (if i < length xs then Inr (xs ! i) else Inl json_out_of_range)"
| "json_index _ i = Inl json_type_error"

fun json_size :: "json \<Rightarrow> nat" where
  "json_size (JArr xs) = length xs"
| "json_size (JObj fs) = length fs"
| "json_size JNull = 0"
| "json_size _ = 1"

fun is_array :: "json \<Rightarrow> bool" where
  "is_array (JArr _) = True"
| "is_array _ = False"

fun is_object :: "json \<Rightarrow> bool" where
  "is_object (JObj _) = True"
| "is_object _ = False"

fun is_null :: "json \<Rightarrow> bool" where
  "is_null JNull = True"
| "is_null _ = False"

text \<open>\<^verbatim>\<open>try { ... } catch (std::exception& e) { throw DynamicException(text + e.what()); }\<close>\<close>

definition rethrow :: "(cpp_error \<Rightarrow> string) \<Rightarrow> string \<Rightarrow> 'a res \<Rightarrow> 'a res" where
  "rethrow W t r =
     (case r of
        Inr x \<Rightarrow> Inr x
      | Inl e \<Rightarrow> Inl (if e = UndefinedBehaviour then UndefinedBehaviour else DynamicException (t @ W e)))"

definition params :: "json \<Rightarrow> json res" where
  "params request = json_const_at request ''params''"

definition param_string :: "json \<Rightarrow> nat \<Rightarrow> string res" where
  "param_string request i = bind_r (params request) (\<lambda>p. bind_r (json_index p i) get_string)"

text \<open>\<^verbatim>\<open>enum Methods\<close>, without the constants that have no entry in the table and no case of their own, and
  the table.\<close>

datatype Methods =
    M_invalid
  | M_web3_clientVersion
  | M_web3_sha3
  | M_net_version
  | M_net_listening
  | M_net_peerCount
  | M_eth_protocolVersion
  | M_eth_getBlockByHash
  | M_eth_getBlockByNumber
  | M_eth_getBlockTransactionCountByHash
  | M_eth_getBlockTransactionCountByNumber
  | M_eth_chainId
  | M_eth_syncing
  | M_eth_coinbase
  | M_eth_blockNumber
  | M_eth_call
  | M_eth_estimateGas
  | M_eth_gasPrice
  | M_eth_getLogs
  | M_eth_getBalance
  | M_eth_getTransactionCount
  | M_eth_getCode
  | M_eth_sendTransaction
  | M_eth_sendRawTransaction
  | M_eth_getTransactionByHash
  | M_eth_getTransactionByBlockHashAndIndex
  | M_eth_getTransactionByBlockNumberAndIndex
  | M_eth_getTransactionReceipt

definition methodsLookupTable :: "(string \<times> Methods) list" where
  "methodsLookupTable = [
     (''web3_clientVersion'', M_web3_clientVersion),
     (''web3_sha3'', M_web3_sha3),
     (''net_version'', M_net_version),
     (''net_listening'', M_net_listening),
     (''net_peerCount'', M_net_peerCount),
     (''eth_protocolVersion'', M_eth_protocolVersion),
     (''eth_getBlockByHash'', M_eth_getBlockByHash),
     (''eth_getBlockByNumber'', M_eth_getBlockByNumber),
     (''eth_getBlockTransactionCountByHash'', M_eth_getBlockTransactionCountByHash),
     (''eth_getBlockTransactionCountByNumber'', M_eth_getBlockTransactionCountByNumber),
     (''eth_chainId'', M_eth_chainId),
     (''eth_syncing'', M_eth_syncing),
     (''eth_coinbase'', M_eth_coinbase),
     (''eth_blockNumber'', M_eth_blockNumber),
     (''eth_call'', M_eth_call),
     (''eth_estimateGas'', M_eth_estimateGas),
     (''eth_gasPrice'', M_eth_gasPrice),
     (''eth_getLogs'', M_eth_getLogs),
     (''eth_getBalance'', M_eth_getBalance),
     (''eth_getTransactionCount'', M_eth_getTransactionCount),
     (''eth_getCode'', M_eth_getCode),
     (''eth_sendTransaction'', M_eth_sendTransaction),
     (''eth_sendRawTransaction'', M_eth_sendRawTransaction),
     (''eth_getTransactionByHash'', M_eth_getTransactionByHash),
     (''eth_getTransactionByBlockHashAndIndex'', M_eth_getTransactionByBlockHashAndIndex),
     (''eth_getTransactionByBlockNumberAndIndex'', M_eth_getTransactionByBlockNumberAndIndex),
     (''eth_getTransactionReceipt'', M_eth_getTransactionReceipt)]"

definition checkJsonRPCSpec :: "(cpp_error \<Rightarrow> string) \<Rightarrow> json \<Rightarrow> bool res" where
  "checkJsonRPCSpec W request = rethrow W ''Error while checking json RPC spec: ''
     (if \<not> json_contains request ''jsonrpc'' then Inr False
      else bind_r (bind_r (json_const_at request ''jsonrpc'') get_string) (\<lambda>v.
        if v \<noteq> ''2.0'' then Inr False
        else if \<not> json_contains request ''method'' then Inr False
        else if json_contains request ''params''
        then bind_r (params request) (\<lambda>p. Inr (is_object p \<or> is_array p))
        else Inr True))"

definition getMethod :: "(cpp_error \<Rightarrow> string) \<Rightarrow> json \<Rightarrow> Methods res" where
  "getMethod W request = rethrow W ''Error while checking json RPC spec: ''
     (bind_r (bind_r (json_const_at request ''method'') get_string) (\<lambda>m.
      Inr (case map_of methodsLookupTable m of None \<Rightarrow> M_invalid | Some x \<Rightarrow> x)))"

section \<open>Definitions: the filters\<close>

text \<open>
  The regular expressions. The character class of an address contains the comma, and so does
  that of a hash in the methods that ask for transactions.
\<close>

definition after_0x :: "(string \<Rightarrow> bool) \<Rightarrow> string \<Rightarrow> bool" where
  "after_0x f s = (take 2 s = ''0x'' \<and> f (drop 2 s))"

definition nonzero_digits :: string where
  "nonzero_digits = ''123456789abcdef''"

definition numFilter :: "string \<Rightarrow> bool" where
  "numFilter = after_0x (\<lambda>s. case s of [] \<Rightarrow> False
     | c # t \<Rightarrow> (c \<in> set nonzero_digits \<and> list_all (\<lambda>x. x \<in> set hex_digits) t) \<or> (c = CHR ''0'' \<and> t = []))"

definition hashFilter :: "string \<Rightarrow> bool" where
  "hashFilter = after_0x (\<lambda>s. length s = 64 \<and> list_all (\<lambda>x. x \<in> set hex_digits) s)"

definition loose_class :: string where
  "loose_class = ''0123456789,abcdef,ABCDEF''"

definition txHashFilter :: "string \<Rightarrow> bool" where
  "txHashFilter = after_0x (\<lambda>s. length s = 64 \<and> list_all (\<lambda>x. x \<in> set loose_class) s)"

definition addFilter :: "string \<Rightarrow> bool" where
  "addFilter = after_0x (\<lambda>s. length s = 40 \<and> list_all (\<lambda>x. x \<in> set loose_class) s)"

text \<open>The conversions that follow a filter.\<close>

definition filtered :: "(string \<Rightarrow> bool) \<Rightarrow> string \<Rightarrow> (string \<Rightarrow> 'a res) \<Rightarrow> string \<Rightarrow> 'a res" where
  "filtered f t k s = bind_r (throw_if (\<not> f s) (DynamicException t)) (\<lambda>_. k s)"

definition Address_of :: "bytes \<Rightarrow> address res" where
  "Address_of b = (if length b \<noteq> 20 then Inl InvalidArgument else Inr b)"

definition hex_hash :: "string \<Rightarrow> bytes res" where
  "hex_hash s = bind_r (Hex_toBytes s) Hash_of"

definition hex_address :: "string \<Rightarrow> address res" where
  "hex_address s = bind_r (Hex_toBytes s) Address_of"

definition hex_uint :: "crypto \<Rightarrow> string \<Rightarrow> nat res" where
  "hex_uint c s = bind_r (Hex_of_view s False) (Hex_getUint (import_bits c))"

definition hex_uint64 :: "crypto \<Rightarrow> string \<Rightarrow> nat res" where
  "hex_uint64 c s = bind_r (hex_uint c s) (u_cast 64)"

section \<open>Definitions: methods without parameters\<close>

definition no_params :: "string \<Rightarrow> json \<Rightarrow> unit res" where
  "no_params t request = bind_r (params request) (\<lambda>p. throw_if (json_size p \<noteq> 0) (DynamicException t))"

definition dec_web3_clientVersion :: "(cpp_error \<Rightarrow> string) \<Rightarrow> json \<Rightarrow> unit res" where
  "dec_web3_clientVersion W request = rethrow W ''Error while decoding web3_clientVersion: ''
     (no_params ''web3_clientVersion does not need params'' request)"

definition dec_net_version :: "(cpp_error \<Rightarrow> string) \<Rightarrow> json \<Rightarrow> unit res" where
  "dec_net_version W request = rethrow W ''Error while decoding net_version: ''
     (no_params ''net_version does not need params'' request)"

definition dec_net_listening :: "(cpp_error \<Rightarrow> string) \<Rightarrow> json \<Rightarrow> unit res" where
  "dec_net_listening W request = rethrow W ''Error while decoding net_listening: ''
     (no_params ''net_listening does not need params'' request)"

definition dec_net_peerCount :: "(cpp_error \<Rightarrow> string) \<Rightarrow> json \<Rightarrow> unit res" where
  "dec_net_peerCount W request = rethrow W ''Error while decoding net_peerCount: ''
     (no_params ''net_peerCount does not need params'' request)"

definition dec_eth_protocolVersion :: "(cpp_error \<Rightarrow> string) \<Rightarrow> json \<Rightarrow> unit res" where
  "dec_eth_protocolVersion W request = rethrow W ''Error while decoding eth_protocolVersion: ''
     (no_params ''eth_protocolVersion does not need params'' request)"

definition dec_eth_chainId :: "(cpp_error \<Rightarrow> string) \<Rightarrow> json \<Rightarrow> unit res" where
  "dec_eth_chainId W request = rethrow W ''Error while decoding eth_chainId: ''
     (no_params ''eth_chainId does not need params'' request)"

definition dec_eth_syncing :: "(cpp_error \<Rightarrow> string) \<Rightarrow> json \<Rightarrow> unit res" where
  "dec_eth_syncing W request = rethrow W ''Error while decoding eth_syncing: ''
     (no_params ''eth_syncing does not need params'' request)"

definition dec_eth_coinbase :: "(cpp_error \<Rightarrow> string) \<Rightarrow> json \<Rightarrow> unit res" where
  "dec_eth_coinbase W request = rethrow W ''Error while decoding eth_coinbase: ''
     (no_params ''eth_coinbase does not need params'' request)"

definition dec_eth_blockNumber :: "(cpp_error \<Rightarrow> string) \<Rightarrow> json \<Rightarrow> unit res" where
  "dec_eth_blockNumber W request = rethrow W ''Error while decoding eth_blockNumber: ''
     (no_params ''eth_blockNumber does not need params'' request)"

definition dec_eth_gasPrice :: "(cpp_error \<Rightarrow> string) \<Rightarrow> json \<Rightarrow> unit res" where
  "dec_eth_gasPrice W request = rethrow W ''Error while decoding eth_gasPrice: ''
     (no_params ''eth_gasPrice does not need params'' request)"

section \<open>Definitions: blocks\<close>

definition dec_web3_sha3 :: "(cpp_error \<Rightarrow> string) \<Rightarrow> json \<Rightarrow> bytes res" where
  "dec_web3_sha3 W request = rethrow W ''Error while decoding web3_sha3: ''
     (bind_r (params request) (\<lambda>p.
      bind_r (throw_if (json_size p \<noteq> 1) (DynamicException ''web3_sha3 needs 1 param'')) (\<lambda>_.
      bind_r (param_string request 0) (filtered (\<lambda>s. Hex_isValid s True) ''Invalid hex string'' Hex_toBytes))))"

definition include_txs :: "json \<Rightarrow> bool res" where
  "include_txs request = bind_r (params request) (\<lambda>p.
     if json_size p = 2 then bind_r (json_index p 1) get_bool else Inr False)"

definition dec_eth_getBlockByHash :: "(cpp_error \<Rightarrow> string) \<Rightarrow> json \<Rightarrow> (bytes \<times> bool) res" where
  "dec_eth_getBlockByHash W request = rethrow W ''Error while decoding eth_getBlockByHash: ''
     (bind_r (include_txs request) (\<lambda>includeTxs.
      bind_r (param_string request 0) (\<lambda>blockHash.
      bind_r (filtered hashFilter ''Invalid block hash hex'' hex_hash blockHash) (\<lambda>h. Inr (h, includeTxs)))))"

text \<open>The number of a block, or one of its names.\<close>

definition block_tag :: "crypto \<Rightarrow> string \<Rightarrow> 'd storage \<Rightarrow> string \<Rightarrow> nat res" where
  "block_tag c t storage blockNum =
     (if blockNum = ''latest'' then bind_r (latest storage) (\<lambda>b. Inr (nHeight b))
      else if blockNum = ''earliest'' then Inr 0
      else if blockNum = ''pending'' then Inl (DynamicException ''Pending block is not supported'')
      else filtered numFilter t (hex_uint64 c) blockNum)"

definition dec_eth_getBlockByNumber :: "(cpp_error \<Rightarrow> string) \<Rightarrow> crypto \<Rightarrow> 'd storage \<Rightarrow> json \<Rightarrow> (nat \<times> bool) res" where
  "dec_eth_getBlockByNumber W c storage request = rethrow W ''Error while decoding eth_getBlockByNumber: ''
     (bind_r (include_txs request) (\<lambda>includeTxs.
      bind_r (param_string request 0) (\<lambda>blockNum.
      bind_r (block_tag c ''Invalid block hash hex'' storage blockNum) (\<lambda>n. Inr (n, includeTxs)))))"

definition dec_eth_getBlockTransactionCountByHash :: "(cpp_error \<Rightarrow> string) \<Rightarrow> json \<Rightarrow> bytes res" where
  "dec_eth_getBlockTransactionCountByHash W request =
     rethrow W ''Error while decoding eth_getBlockTransactionCountByHash: ''
     (bind_r (param_string request 0) (filtered hashFilter ''Invalid block hash hex'' hex_hash))"

definition dec_eth_getBlockTransactionCountByNumber ::
  "(cpp_error \<Rightarrow> string) \<Rightarrow> crypto \<Rightarrow> 'd storage \<Rightarrow> json \<Rightarrow> nat res" where
  "dec_eth_getBlockTransactionCountByNumber W c storage request =
     rethrow W ''Error while decoding eth_getBlockTransactionCountByNumber: ''
     (bind_r (param_string request 0) (block_tag c ''Invalid block hash hex'' storage))"

section \<open>Definitions: calls\<close>

definition check_block_param :: "string \<Rightarrow> unit res" where
  "check_block_param block =
     throw_if (block \<noteq> ''latest'' \<and> \<not> numFilter block) (DynamicException ''Invalid block number'')"

definition call_object :: "json \<Rightarrow> json res" where
  "call_object request = bind_r (params request) (\<lambda>p.
     if is_array p
     then bind_r (json_index p 0) (\<lambda>txObj.
       bind_r (if json_size p > 1 then bind_r (param_string request 1) check_block_param else Inr ()) (\<lambda>_. Inr txObj))
     else if is_object p then Inr p
     else Inl (DynamicException ''Invalid params''))"

text \<open>An optional member: \<^verbatim>\<open>if (txObj.contains(key) && !txObj[key].is_null()) { ... }\<close>.\<close>

definition optional :: "json \<Rightarrow> string \<Rightarrow> 'a \<Rightarrow> (string \<Rightarrow> 'a res) \<Rightarrow> 'a res" where
  "optional txObj key absent k =
     (if json_contains txObj key
      then bind_r (json_at txObj key) (\<lambda>v. if \<not> is_null v then bind_r (get_string v) k else Inr absent)
      else Inr absent)"

definition call_data :: "string \<Rightarrow> (bytes \<times> bytes \<times> bytes) res" where
  "call_data = filtered (\<lambda>s. Hex_isValid s True) ''Invalid data hex'' (\<lambda>s.
     bind_r (Hex_toBytes s) (\<lambda>fullData.
     Inr (if length fullData \<ge> 4 then take 4 fullData else replicate 4 0,
          if length fullData > 4 then drop 4 fullData else [], fullData)))"

text \<open>
  The rest of the object once the receiver is known; the default gas is the same in both
  methods. A member that is not assigned keeps its zero value.
\<close>

definition call_rest :: "crypto \<Rightarrow> json \<Rightarrow> address \<Rightarrow> address \<Rightarrow> call_info res" where
  "call_rest c txObj sender to =
     bind_r (optional txObj ''gas'' 10000000 (filtered numFilter ''Invalid gas hex'' (hex_uint64 c))) (\<lambda>gas.
     bind_r (optional txObj ''gasPrice'' 0 (filtered numFilter ''Invalid gasPrice hex'' (hex_uint c))) (\<lambda>gasPrice.
     bind_r (optional txObj ''value'' 0 (filtered numFilter ''Invalid value hex'' (hex_uint c))) (\<lambda>value.
     bind_r (optional txObj ''data'' (replicate 4 0, [], []) call_data) (\<lambda>(functor, data, fullData).
     Inr \<lparr>ci_from = sender, ci_to = to, ci_gasLimit = gas, ci_gasPrice = gasPrice, ci_value = value,
       ci_functor = functor, ci_data = data, ci_fullData = fullData\<rparr>))))"

definition call_sender :: "json \<Rightarrow> address res" where
  "call_sender txObj = optional txObj ''from'' zero_address (filtered addFilter ''Invalid from address hex'' hex_address)"

definition dec_eth_call :: "(cpp_error \<Rightarrow> string) \<Rightarrow> crypto \<Rightarrow> json \<Rightarrow> call_info res" where
  "dec_eth_call W c request = rethrow W ''Error while decoding eth_call: ''
     (bind_r (call_object request) (\<lambda>txObj.
      bind_r (call_sender txObj) (\<lambda>sender.
      bind_r (bind_r (json_at txObj ''to'') get_string) (\<lambda>toAdd.
      bind_r (filtered addFilter ''Invalid to address hex'' hex_address toAdd) (call_rest c txObj sender)))))"

definition dec_eth_estimateGas :: "(cpp_error \<Rightarrow> string) \<Rightarrow> crypto \<Rightarrow> json \<Rightarrow> call_info res" where
  "dec_eth_estimateGas W c request = rethrow W ''Error while decoding eth_estimateGas: ''
     (bind_r (call_object request) (\<lambda>txObj.
      bind_r (call_sender txObj) (\<lambda>sender.
      bind_r (optional txObj ''to'' zero_address (filtered addFilter ''Invalid to address hex'' hex_address))
        (call_rest c txObj sender))))"

section \<open>Definitions: logs\<close>

text \<open>A block that the storage does not know is a null pointer, which the decoder follows.\<close>

definition logs_block_hash :: "string \<Rightarrow> bytes res" where
  "logs_block_hash = filtered hashFilter ''Invalid block hash hex'' hex_hash"

definition logs_range :: "'d rocksdb \<Rightarrow> crypto \<Rightarrow> nat \<Rightarrow> nat \<Rightarrow> json \<Rightarrow> ('d storage, nat \<times> nat) meth" where
  "logs_range e c junk height logsObject =
     (if json_contains logsObject ''blockHash''
      then bind_m (lift_m (bind_r (bind_r (json_at logsObject ''blockHash'') get_string) logs_block_hash)) (\<lambda>h.
        bind_m (getBlock e c junk h) (\<lambda>block.
        case block of None \<Rightarrow> throw_m UndefinedBehaviour | Some b \<Rightarrow> ret_m (nHeight b, nHeight b)))
      else
        let range = (\<lambda>storage key.
          if json_contains logsObject key
          then bind_r (bind_r (json_at logsObject key) get_string) (block_tag c ''Invalid fromBlock hex'' storage)
          else Inr height) in
        (\<lambda>storage. lift_m (bind_r (range storage ''fromBlock'') (\<lambda>fromBlock.
          bind_r (range storage ''toBlock'') (\<lambda>toBlock. Inr (fromBlock, toBlock)))) storage))"

definition logs_address :: "json \<Rightarrow> address res" where
  "logs_address logsObject =
     (if json_contains logsObject ''address''
      then bind_r (bind_r (json_at logsObject ''address'') get_string) (filtered addFilter ''Invalid address hex'' hex_address)
      else Inr zero_address)"

definition logs_topics :: "json \<Rightarrow> bytes list res" where
  "logs_topics logsObject =
     (if json_contains logsObject ''topics''
      then bind_r (json_at logsObject ''topics'') (\<lambda>ts.
        if \<not> is_array ts then Inl (DynamicException ''topics is not an array'')
        else bind_r (map_r get_string (json_items ts)) (map_r (filtered hashFilter ''Invalid topic hex'' hex_hash)))
      else Inr [])"

definition dec_eth_getLogs ::
  "(cpp_error \<Rightarrow> string) \<Rightarrow> 'd rocksdb \<Rightarrow> crypto \<Rightarrow> nat \<Rightarrow> nat \<Rightarrow> json \<Rightarrow>
   ('d storage, nat \<times> nat \<times> address \<times> bytes list) meth" where
  "dec_eth_getLogs W e c junk height request storage =
     (case bind_m (lift_m (bind_r (params request) (\<lambda>p. json_index p 0))) (\<lambda>logsObject.
        bind_m (logs_range e c junk height logsObject) (\<lambda>(fromBlock, toBlock).
        bind_m (lift_m (logs_address logsObject)) (\<lambda>address.
        bind_m (lift_m (logs_topics logsObject)) (\<lambda>topics.
        ret_m (fromBlock, toBlock, address, topics))))) storage of
      (r, storage) \<Rightarrow> (rethrow W ''Error while decoding eth_getLogs: '' r, storage))"

section \<open>Definitions: accounts and transactions\<close>

definition address_and_block :: "json \<Rightarrow> address res" where
  "address_and_block request =
     bind_r (param_string request 0) (\<lambda>address.
     bind_r (param_string request 1) (\<lambda>block.
     bind_r (check_block_param block) (\<lambda>_. filtered addFilter ''Invalid address hex'' hex_address address)))"

definition dec_eth_getBalance :: "(cpp_error \<Rightarrow> string) \<Rightarrow> json \<Rightarrow> address res" where
  "dec_eth_getBalance W request = rethrow W ''Error while decoding eth_getBalance: '' (address_and_block request)"

definition dec_eth_getTransactionCount :: "(cpp_error \<Rightarrow> string) \<Rightarrow> json \<Rightarrow> address res" where
  "dec_eth_getTransactionCount W request =
     rethrow W ''Error while decoding eth_getTransactionCount: '' (address_and_block request)"

definition dec_eth_getCode :: "(cpp_error \<Rightarrow> string) \<Rightarrow> json \<Rightarrow> address res" where
  "dec_eth_getCode W request = rethrow W ''Error while decoding eth_getCode: '' (address_and_block request)"

definition dec_eth_sendRawTransaction :: "(cpp_error \<Rightarrow> string) \<Rightarrow> crypto \<Rightarrow> json \<Rightarrow> txblock res" where
  "dec_eth_sendRawTransaction W c request = rethrow W ''Error while decoding eth_sendRawTransaction: ''
     (bind_r (param_string request 0) (filtered (\<lambda>s. Hex_isValid s True) ''Invalid transaction hex''
        (\<lambda>s. bind_r (Hex_toBytes s) (TxBlock_parse c))))"

definition dec_eth_getTransactionByHash :: "(cpp_error \<Rightarrow> string) \<Rightarrow> json \<Rightarrow> bytes res" where
  "dec_eth_getTransactionByHash W request = rethrow W ''Error while decoding eth_getTransactionByHash: ''
     (bind_r (param_string request 0) (filtered txHashFilter ''Invalid hash hex'' hex_hash))"

definition dec_eth_getTransactionByBlockHashAndIndex ::
  "(cpp_error \<Rightarrow> string) \<Rightarrow> crypto \<Rightarrow> json \<Rightarrow> (bytes \<times> nat) res" where
  "dec_eth_getTransactionByBlockHashAndIndex W c request =
     rethrow W ''Error while decoding eth_getTransactionByBlockHashAndIndex: ''
     (bind_r (param_string request 0) (\<lambda>blockHash.
      bind_r (param_string request 1) (\<lambda>index.
      bind_r (throw_if (\<not> txHashFilter blockHash) (DynamicException ''Invalid blockHash hex'')) (\<lambda>_.
      bind_r (throw_if (\<not> numFilter index) (DynamicException ''Invalid index hex'')) (\<lambda>_.
      bind_r (hex_hash blockHash) (\<lambda>h. bind_r (hex_uint64 c index) (\<lambda>i. Inr (h, i))))))))"

definition dec_eth_getTransactionByBlockNumberAndIndex ::
  "(cpp_error \<Rightarrow> string) \<Rightarrow> crypto \<Rightarrow> 'd storage \<Rightarrow> json \<Rightarrow> (nat \<times> nat) res" where
  "dec_eth_getTransactionByBlockNumberAndIndex W c storage request =
     rethrow W ''Error while decoding eth_getTransactionByBlockNumberAndIndex: ''
     (bind_r (param_string request 0) (\<lambda>blockNum.
      bind_r (param_string request 1) (\<lambda>index.
      bind_r (throw_if (\<not> numFilter index) (DynamicException ''Invalid index hex'')) (\<lambda>_.
      if blockNum = ''latest''
      then bind_r (latest storage) (\<lambda>b. bind_r (hex_uint64 c index) (\<lambda>i. Inr (nHeight b, i)))
      else bind_r (throw_if (\<not> numFilter blockNum) (DynamicException ''Invalid blockNumber hex'')) (\<lambda>_.
        bind_r (hex_uint64 c blockNum) (\<lambda>n. bind_r (hex_uint64 c index) (\<lambda>i. Inr (n, i))))))))"

definition dec_eth_getTransactionReceipt :: "(cpp_error \<Rightarrow> string) \<Rightarrow> json \<Rightarrow> bytes res" where
  "dec_eth_getTransactionReceipt W request = rethrow W ''Error while decoding eth_getTransactionReceipt: ''
     (bind_r (param_string request 0) (\<lambda>txHash. filtered txHashFilter (''Invalid Hex: '' @ txHash) hex_hash txHash))"

section \<open>Lemmas: exceptions and missing parameters\<close>

lemma rethrow_simps [simp]:
  "rethrow W t r = Inr x \<longleftrightarrow> r = Inr x"
  "rethrow W t r = Inl UndefinedBehaviour \<longleftrightarrow> r = Inl UndefinedBehaviour"
  "rethrow W t (Inr x) = Inr x" "rethrow W t (Inl UndefinedBehaviour) = Inl UndefinedBehaviour"
  by (auto simp: rethrow_def split: sum.splits)

lemma params_missing:
  assumes "is_object request" "\<not> json_contains request ''params''"
  shows "params request = Inl UndefinedBehaviour"
  using assms by (cases request) (auto simp: params_def)

lemma params_missing_fails:
  assumes "params request = Inl UndefinedBehaviour"
  shows "param_string request i = Inl UndefinedBehaviour" "no_params t request = Inl UndefinedBehaviour"
    "include_txs request = Inl UndefinedBehaviour" "call_object request = Inl UndefinedBehaviour"
    "address_and_block request = Inl UndefinedBehaviour"
  using assms by (simp_all add: param_string_def no_params_def include_txs_def call_object_def address_and_block_def)

lemmas decoder_defs =
  dec_web3_clientVersion_def dec_web3_sha3_def dec_net_version_def dec_net_listening_def dec_net_peerCount_def
  dec_eth_protocolVersion_def dec_eth_getBlockByHash_def dec_eth_getBlockByNumber_def
  dec_eth_getBlockTransactionCountByHash_def dec_eth_getBlockTransactionCountByNumber_def dec_eth_chainId_def
  dec_eth_syncing_def dec_eth_coinbase_def dec_eth_blockNumber_def dec_eth_call_def dec_eth_estimateGas_def
  dec_eth_gasPrice_def dec_eth_getLogs_def dec_eth_getBalance_def dec_eth_getTransactionCount_def dec_eth_getCode_def
  dec_eth_sendRawTransaction_def dec_eth_getTransactionByHash_def dec_eth_getTransactionByBlockHashAndIndex_def
  dec_eth_getTransactionByBlockNumberAndIndex_def dec_eth_getTransactionReceipt_def

text \<open>Every decoder reads the parameters first.\<close>

lemma decoders_missing:
  assumes "params request = Inl UndefinedBehaviour"
  shows "dec_web3_clientVersion W request = Inl UndefinedBehaviour" "dec_web3_sha3 W request = Inl UndefinedBehaviour"
    "dec_net_version W request = Inl UndefinedBehaviour" "dec_net_listening W request = Inl UndefinedBehaviour"
    "dec_net_peerCount W request = Inl UndefinedBehaviour" "dec_eth_protocolVersion W request = Inl UndefinedBehaviour"
    "dec_eth_getBlockByHash W request = Inl UndefinedBehaviour"
    "dec_eth_getBlockByNumber W c st request = Inl UndefinedBehaviour"
    "dec_eth_getBlockTransactionCountByHash W request = Inl UndefinedBehaviour"
    "dec_eth_getBlockTransactionCountByNumber W c st request = Inl UndefinedBehaviour"
    "dec_eth_chainId W request = Inl UndefinedBehaviour" "dec_eth_syncing W request = Inl UndefinedBehaviour"
    "dec_eth_coinbase W request = Inl UndefinedBehaviour" "dec_eth_blockNumber W request = Inl UndefinedBehaviour"
    "dec_eth_call W c request = Inl UndefinedBehaviour" "dec_eth_estimateGas W c request = Inl UndefinedBehaviour"
    "dec_eth_gasPrice W request = Inl UndefinedBehaviour"
    "dec_eth_getLogs W e c junk height request st = (Inl UndefinedBehaviour, st)"
    "dec_eth_getBalance W request = Inl UndefinedBehaviour" "dec_eth_getTransactionCount W request = Inl UndefinedBehaviour"
    "dec_eth_getCode W request = Inl UndefinedBehaviour" "dec_eth_sendRawTransaction W c request = Inl UndefinedBehaviour"
    "dec_eth_getTransactionByHash W request = Inl UndefinedBehaviour"
    "dec_eth_getTransactionByBlockHashAndIndex W c request = Inl UndefinedBehaviour"
    "dec_eth_getTransactionByBlockNumberAndIndex W c st request = Inl UndefinedBehaviour"
    "dec_eth_getTransactionReceipt W request = Inl UndefinedBehaviour"
  by (simp_all add: decoder_defs params_missing_fails[OF assms] assms bind_m_apply)

section \<open>Lemmas: the filters\<close>

lemma after_0x_iff: "after_0x f s \<longleftrightarrow> (\<exists>d. s = ''0x'' @ d \<and> f d)"
proof
  assume a: "after_0x f s"
  then have "s = ''0x'' @ drop 2 s" by (metis after_0x_def append_take_drop_id)
  then show "\<exists>d. s = ''0x'' @ d \<and> f d" using a by (auto simp: after_0x_def)
qed (auto simp: after_0x_def)

lemma digit_classes:
  "c \<in> set nonzero_digits \<longleftrightarrow> c \<in> set hex_digits \<and> c \<noteq> CHR ''0''" "set hex_digits \<subseteq> set hex_filter"
  "set hex_digits \<subseteq> set loose_class" "CHR ''0'' \<in> set hex_digits"
  by (auto simp: nonzero_digits_def hex_digits_def hex_filter_def loose_class_def)

lemma numFilter_iff:
  "numFilter (''0x'' @ d) \<longleftrightarrow> d \<noteq> [] \<and> set d \<subseteq> set hex_digits \<and> (hd d = CHR ''0'' \<longrightarrow> tl d = [])"
  using digit_classes(4) by (cases d) (auto simp: numFilter_def after_0x_def list_all_iff digit_classes(1))

lemma digits_of_lower: "set (digits_of b) \<subseteq> set hex_digits"
proof -
  have "length hex_digits = 16" by (simp add: hex_digits_def)
  moreover have "unat (y AND 15) < 16" for y :: byte
    using word_and_le1[of y 15] by (simp add: word_le_nat_alt)
  ultimately have "hex_digits ! unat (y AND 15) \<in> set hex_digits" for y :: byte by (metis nth_mem)
  then show ?thesis by (auto simp: digits_of_def hex_pair_def)
qed

lemma filters_accept:
  "length b = 32 \<Longrightarrow> hashFilter (''0x'' @ digits_of b)" "length b = 32 \<Longrightarrow> txHashFilter (''0x'' @ digits_of b)"
  "length b = 20 \<Longrightarrow> addFilter (''0x'' @ digits_of b)" "Hex_isValid (''0x'' @ digits_of b) True"
  using digits_of_lower[of b] digit_classes(2,3)
  by (auto simp: hashFilter_def txHashFilter_def addFilter_def after_0x_def list_all_iff Hex_isValid_def has_0x_def only_hex_from_def)

text \<open>The number after a prefix; one zero alone is read as a prefix that goes on after the end.\<close>

lemma hex_uint_digits:
  assumes "set d \<subseteq> set hex_digits" "d \<noteq> []" "hd d \<noteq> CHR ''0''" "length d \<le> 64" "boost_bits ex (import_bits c)"
  shows "hex_uint c (''0x'' @ d) = Inr (hex_val d)"
proof -
  have f: "set d \<subseteq> set hex_filter" using assms(1) digit_classes(2) by blast
  have "Hex_of_view (''0x'' @ d) False = Inr \<lparr>hex_str = d, hex_strict = False\<rparr>"
    using f by (auto simp: Hex_of_view_def prefix_0x_def str_at_def Hex_isValid_def only_hex_from_def list_all_iff)
  moreover have "Hex_toBytes d = Inr (hex_body d)"
    using f assms(2,3) by (cases d) (auto simp: Hex_toBytes_def prefix_0x_def view_at_def only_hex_from_def list_all_iff)
  ultimately show ?thesis
    using hex_body_val[OF f] assms(4) boost_bits.import_val[OF assms(5)] by (simp add: hex_uint_def Hex_getUint_def)
qed

lemma hex_uint_zero: "hex_uint c ''0x0'' = Inl UndefinedBehaviour"
  by (simp add: hex_uint_def Hex_of_view_def prefix_0x_def str_at_def Hex_isValid_def only_hex_from_def hex_filter_def
    Hex_getUint_def Hex_toBytes_def view_at_def)

end
