(* ===== verification/Rpc_Server.thy ===== *)
theory Rpc_Server
  imports Rpc_Decoding P2p_Manager "HOL-Library.AList"
begin

text \<open>
  The answers to JSON-RPC requests (\<^verbatim>\<open>src/src/net/http/jsonrpc/encoding.cpp\<close>) and the function
  that the HTTP session calls for the body of a request (\<^verbatim>\<open>src/src/net/http/httpparser.cpp\<close>). The
  state is that of the manager, which holds the chain. The library for JSON, the options and
  the texts of exceptions are parameters.
\<close>

section \<open>Definitions: the environment\<close>

text \<open>
  \<open>rv_events\<close> is the event manager inside the contract manager; the chain id of the options is
  that of the node.
\<close>

record ('c, 'd) rpc_env =
  rv_node :: "'c node_env"
  rv_p2p :: "'d p2p_env"
  rv_json :: json_lib
  rv_what :: "cpp_error \<Rightarrow> string"
  rv_events :: "'c \<Rightarrow> 'd event_manager"
  rv_web3ClientVersion :: string
  rv_SDKVersion :: string
  rv_coinbase :: address
  rv_eventBlockCap :: nat
  rv_eventLogCap :: nat

definition rv_crypto :: "('c, 'd) rpc_env \<Rightarrow> crypto" where
  "rv_crypto V = ne_crypto (rv_node V)"

definition storage_m :: "('d storage, 'a) meth \<Rightarrow> (('c, 'd) manager, 'a) meth" where
  "storage_m f g = (case f (cs_storage (mg_chain g)) of
     (r, st) \<Rightarrow> (r, g\<lparr>mg_chain := (mg_chain g)\<lparr>cs_storage := st\<rparr>\<rparr>))"

definition the_storage :: "('c, 'd) manager \<Rightarrow> 'd storage" where
  "the_storage g = cs_storage (mg_chain g)"

text \<open>\<^verbatim>\<open>getBlock\<close> and the queries for transactions with the engine and the cryptography of the node.\<close>

definition rpc_getBlock :: "('c, 'd) rpc_env \<Rightarrow> bytes \<Rightarrow> (('c, 'd) manager, block option) meth" where
  "rpc_getBlock V h = storage_m (getBlock (pe_db (rv_p2p V)) (rv_crypto V) (pe_junk (rv_p2p V)) h)"

definition rpc_getBlock_height :: "('c, 'd) rpc_env \<Rightarrow> nat \<Rightarrow> (('c, 'd) manager, block option) meth" where
  "rpc_getBlock_height V n = storage_m (getBlock_height (pe_db (rv_p2p V)) (rv_crypto V) (pe_junk (rv_p2p V)) n)"

section \<open>Definitions: values\<close>

text \<open>\<^verbatim>\<open>Hex::fromBytes(bytes, true).forRPC()\<close>, applied to numbers and, in some places, to data.\<close>

definition rpc_bytes :: "bytes \<Rightarrow> json res" where
  "rpc_bytes b = bind_r (bind_r (Hex_fromBytes b True) Hex_forRPC) (\<lambda>s. Inr (JStr s))"

definition rpc_num :: "nat \<Rightarrow> json res" where
  "rpc_num n = rpc_bytes (uintToBytes n)"

text \<open>The members of an object, computed in order.\<close>

fun members :: "(string \<times> json res) list \<Rightarrow> (string \<times> json) list res" where
  "members [] = Inr []"
| "members ((k, v) # ms) = bind_r v (\<lambda>j. bind_r (members ms) (\<lambda>js. Inr ((k, j) # js)))"

definition object :: "(string \<times> json res) list \<Rightarrow> json res" where
  "object ms = bind_r (members ms) (\<lambda>js. Inr (JObj js))"

text \<open>
  The frame of an answer: some methods write the version as a string, others as the number
  \<^verbatim>\<open>2.0\<close>.
\<close>

definition answer :: "json \<Rightarrow> json" where
  "answer result = JObj [(''jsonrpc'', JStr ''2.0''), (''result'', result)]"

definition answer_float :: "json \<Rightarrow> json" where
  "answer_float result = JObj [(''jsonrpc'', JFloat 2), (''result'', result)]"

definition error_member :: "int \<Rightarrow> string \<Rightarrow> string \<times> json" where
  "error_member code message = (''error'', JObj [(''code'', JInt code), (''message'', JStr message)])"

text \<open>\<^verbatim>\<open>try { ... } catch (std::exception& e) { ... }\<close> around the making of an answer.\<close>

definition catch_json :: "('s, json) meth \<Rightarrow> (cpp_error \<Rightarrow> json) \<Rightarrow> ('s, json) meth" where
  "catch_json body handler s =
     (case body s of
        (Inr j, s') \<Rightarrow> (Inr j, s')
      | (Inl e, s') \<Rightarrow> (if e = UndefinedBehaviour then Inl UndefinedBehaviour else Inr (handler e), s'))"

definition internal_error :: "('c, 'd) rpc_env \<Rightarrow> int \<Rightarrow> cpp_error \<Rightarrow> string \<times> json" where
  "internal_error V code e = error_member code (''Internal error: '' @ rv_what V e)"

section \<open>Definitions: blocks\<close>

definition tx_json :: "txblock \<Rightarrow> json res" where
  "tx_json tx = object [
     (''type'', Inr (JStr ''0x0'')),
     (''nonce'', rpc_num (tb_nonce tx)),
     (''to'', hex_json (tb_to tx)),
     (''gas'', rpc_num (tb_gasLimit tx)),
     (''value'', rpc_num (tb_value tx)),
     (''input'', rpc_bytes (tb_data tx)),
     (''gasPrice'', rpc_num (tb_maxFeePerGas tx)),
     (''chainId'', rpc_num (tb_chainId tx)),
     (''v'', rpc_num (tb_v tx)),
     (''r'', rpc_num (tb_r tx)),
     (''s'', rpc_num (tb_s tx))]"

definition block_json :: "crypto \<Rightarrow> block \<Rightarrow> bool \<Rightarrow> json res" where
  "block_json c block includeTransactions = object [
     (''hash'', hex_json (block_hash block)),
     (''parentHash'', hex_json (prevBlockHash block)),
     (''sha3Uncles'', hex_json zero_hash),
     (''miner'', hex_json (toAddress c (validatorPubKey block))),
     (''stateRoot'', hex_json zero_hash),
     (''transactionsRoot'', hex_json (txMerkleRoot block)),
     (''receiptsRoot'', hex_json zero_hash),
     (''logsBloom'', hex_json zero_hash),
     (''difficulty'', Inr (JStr ''0x1'')),
     (''number'', rpc_num (nHeight block)),
     (''gasLimit'', rpc_num (2 ^ 64 - 1)),
     (''gasUsed'', rpc_num 1000000000),
     (''timestamp'', rpc_num (timestamp block)),
     (''extraData'', Inr (JStr (''0x'' @ replicate 64 (CHR ''0'')))),
     (''mixHash'', hex_json zero_hash),
     (''nonce'', Inr (JStr ''0x0000000000000000'')),
     (''totalDifficulty'', Inr (JStr ''0x1'')),
     (''baseFeePerGas'', Inr (JStr ''0x9502f900'')),
     (''withdrawRoot'', hex_json zero_hash),
     (''size'', rpc_num (length (serializeBlock block))),
     (''transactions'', bind_r (map_r (\<lambda>tx. if \<not> includeTransactions then hex_json (tb_hash tx) else tx_json tx) (txs block))
        (\<lambda>ts. Inr (JArr ts))),
     (''withdrawls'', Inr (JArr [])),
     (''uncles'', Inr (JArr []))]"

definition getBlockJson :: "('c, 'd) rpc_env \<Rightarrow> block option \<Rightarrow> bool \<Rightarrow> ('s, json) meth" where
  "getBlockJson V block includeTransactions = catch_json
     (lift_m (case block of
        None \<Rightarrow> Inr (answer_float JNull)
      | Some b \<Rightarrow> bind_r (block_json (rv_crypto V) b includeTransactions) (\<lambda>j. Inr (answer_float j))))
     (\<lambda>e. JObj [(''jsonrpc'', JFloat 2), internal_error V (- 32603) e])"

definition enc_eth_getBlockByHash :: "('c, 'd) rpc_env \<Rightarrow> bytes \<times> bool \<Rightarrow> (('c, 'd) manager, json) meth" where
  "enc_eth_getBlockByHash V blockInfo =
     bind_m (rpc_getBlock V (fst blockInfo)) (\<lambda>block. getBlockJson V block (snd blockInfo))"

definition enc_eth_getBlockByNumber :: "('c, 'd) rpc_env \<Rightarrow> nat \<times> bool \<Rightarrow> (('c, 'd) manager, json) meth" where
  "enc_eth_getBlockByNumber V blockInfo =
     bind_m (rpc_getBlock_height V (fst blockInfo)) (\<lambda>block. getBlockJson V block (snd blockInfo))"

text \<open>The null pointer of a block that is not found is followed after the answer is set to null.\<close>

definition tx_count :: "block option \<Rightarrow> ('s, json) meth" where
  "tx_count block =
     (case block of
        None \<Rightarrow> throw_m UndefinedBehaviour
      | Some b \<Rightarrow> lift_m (bind_r (rpc_num (length (txs b))) (\<lambda>n. Inr (answer n))))"

definition enc_eth_getBlockTransactionCountByHash :: "('c, 'd) rpc_env \<Rightarrow> bytes \<Rightarrow> (('c, 'd) manager, json) meth" where
  "enc_eth_getBlockTransactionCountByHash V blockHash = bind_m (rpc_getBlock V blockHash) tx_count"

definition enc_eth_getBlockTransactionCountByNumber :: "('c, 'd) rpc_env \<Rightarrow> nat \<Rightarrow> (('c, 'd) manager, json) meth" where
  "enc_eth_getBlockTransactionCountByNumber V blockNumber = bind_m (rpc_getBlock_height V blockNumber) tx_count"

section \<open>Definitions: the node\<close>

definition enc_web3_clientVersion :: "('c, 'd) rpc_env \<Rightarrow> json res" where
  "enc_web3_clientVersion V = Inr (answer (JStr (rv_web3ClientVersion V)))"

definition enc_web3_sha3 :: "('c, 'd) rpc_env \<Rightarrow> bytes \<Rightarrow> json res" where
  "enc_web3_sha3 V data = bind_r (hex_json (keccak (rv_crypto V) data)) (\<lambda>h. Inr (answer h))"

definition enc_net_version :: "('c, 'd) rpc_env \<Rightarrow> json res" where
  "enc_net_version V = bind_r (rpc_num (ne_chainId (rv_node V))) (\<lambda>n. Inr (answer_float n))"

definition enc_net_listening :: "json res" where
  "enc_net_listening = Inr (answer_float (JBool True))"

definition getPeerCount :: "('c, 'd) manager \<Rightarrow> nat" where
  "getPeerCount g = length (mg_sessions g)"

definition enc_net_peerCount :: "('c, 'd) manager \<Rightarrow> json res" where
  "enc_net_peerCount g = bind_r (rpc_num (getPeerCount g)) (\<lambda>n. Inr (answer_float n))"

definition enc_eth_protocolVersion :: "('c, 'd) rpc_env \<Rightarrow> json res" where
  "enc_eth_protocolVersion V = Inr (answer_float (JStr (rv_SDKVersion V)))"

definition enc_eth_chainId :: "('c, 'd) rpc_env \<Rightarrow> json res" where
  "enc_eth_chainId V = bind_r (rpc_num (ne_chainId (rv_node V))) (\<lambda>n. Inr (answer n))"

definition enc_eth_syncing :: "json res" where
  "enc_eth_syncing = Inr (answer (JBool False))"

definition enc_eth_coinbase :: "('c, 'd) rpc_env \<Rightarrow> json res" where
  "enc_eth_coinbase V = bind_r (hex_json (rv_coinbase V)) (\<lambda>h. Inr (answer h))"

definition enc_eth_blockNumber :: "('c, 'd) manager \<Rightarrow> json res" where
  "enc_eth_blockNumber g =
     bind_r (latest (the_storage g)) (\<lambda>latestBlock. bind_r (rpc_num (nHeight latestBlock)) (\<lambda>n. Inr (answer n)))"

definition enc_eth_gasPrice :: "json res" where
  "enc_eth_gasPrice = Inr (answer (JStr ''0x9502f900''))"

section \<open>Definitions: calls, logs and accounts\<close>

definition call_error :: "('c, 'd) rpc_env \<Rightarrow> cpp_error \<Rightarrow> json" where
  "call_error V e = JObj [(''jsonrpc'', JStr ''2.0''), internal_error V (- 32000) e]"

definition enc_eth_call :: "('c, 'd) rpc_env \<Rightarrow> call_info \<Rightarrow> (('c, 'd) manager, json) meth" where
  "enc_eth_call V callInfo = catch_json
     (bind_m (chain_m (state_ethCall (rv_node V) callInfo)) (\<lambda>output.
      lift_m (bind_r (hex_json output) (\<lambda>h. Inr (answer h))))) (call_error V)"

definition enc_eth_estimateGas :: "('c, 'd) rpc_env \<Rightarrow> call_info \<Rightarrow> (('c, 'd) manager, json) meth" where
  "enc_eth_estimateGas V callInfo = catch_json
     (bind_m (chain_m (estimateGas (rv_node V) callInfo)) (\<lambda>gas.
      if gas = 0 then throw_m (DynamicException ''Insufficient balance for tx.value() + gas'')
      else lift_m (bind_r (rpc_num gas) (\<lambda>n. Inr (answer n))))) (call_error V)"

text \<open>
  Each event is appended as the text that \<^verbatim>\<open>serializeForRPC\<close> returns. The member with the result
  exists once there is an event, also when an exception follows.
\<close>

fun push_events :: "json_lib \<Rightarrow> Event list \<Rightarrow> json list \<Rightarrow> json list \<times> unit res" where
  "push_events J [] pushed = (pushed, Inr ())"
| "push_events J (e # es) pushed =
     (case Event_serializeForRPC J e of Inl err \<Rightarrow> (pushed, Inl err) | Inr s \<Rightarrow> push_events J es (pushed @ [JStr s]))"

definition result_if_any :: "json list \<Rightarrow> (string \<times> json) list" where
  "result_if_any pushed = (if pushed = [] then [] else [(''result'', JArr pushed)])"

definition state_getEvents ::
  "('c, 'd) rpc_env \<Rightarrow> nat \<Rightarrow> nat \<Rightarrow> address \<Rightarrow> bytes list \<Rightarrow> ('c, 'd) manager \<Rightarrow> Event list res" where
  "state_getEvents V fromBlock toBlock address topics g =
     getEvents (pe_db (rv_p2p V)) (rv_json V) (rv_eventBlockCap V) (rv_eventLogCap V) fromBlock toBlock address topics
       (rv_events V (cs_contracts (mg_chain g)))"

definition state_getEvents_tx :: "('c, 'd) rpc_env \<Rightarrow> bytes \<Rightarrow> nat \<Rightarrow> nat \<Rightarrow> ('c, 'd) manager \<Rightarrow> Event list res" where
  "state_getEvents_tx V txHash blockIndex txIndex g =
     getEvents_tx (pe_db (rv_p2p V)) (rv_json V) (rv_eventLogCap V) txHash blockIndex txIndex
       (rv_events V (cs_contracts (mg_chain g)))"

definition enc_eth_getLogs ::
  "('c, 'd) rpc_env \<Rightarrow> nat \<times> nat \<times> address \<times> bytes list \<Rightarrow> ('c, 'd) manager \<Rightarrow> json res" where
  "enc_eth_getLogs V info g =
     (let (fromBlock, toBlock, address, topics) = info;
          (pushed, r) = (case state_getEvents V fromBlock toBlock address topics g of
             Inl e \<Rightarrow> ([], Inl e) | Inr events \<Rightarrow> push_events (rv_json V) events []);
          ret = (''jsonrpc'', JStr ''2.0'') # result_if_any pushed in
      case r of
        Inr _ \<Rightarrow> Inr (JObj ret)
      | Inl e \<Rightarrow> if e = UndefinedBehaviour then Inl e else Inr (JObj (ret @ [internal_error V (- 32000) e])))"

definition enc_eth_getBalance :: "address \<Rightarrow> ('c, 'd) manager \<Rightarrow> json res" where
  "enc_eth_getBalance address g = bind_r (rpc_num (getNativeBalance (mg_chain g) address)) (\<lambda>n. Inr (answer n))"

definition enc_eth_getTransactionCount :: "address \<Rightarrow> ('c, 'd) manager \<Rightarrow> json res" where
  "enc_eth_getTransactionCount address g = bind_r (rpc_num (getNativeNonce (mg_chain g) address)) (\<lambda>n. Inr (answer n))"

definition enc_eth_getCode :: "address \<Rightarrow> (('c, 'd) manager, json) meth" where
  "enc_eth_getCode address = bind_m (chain_m (getContractCode address)) (\<lambda>code.
     lift_m (bind_r (rpc_bytes code) (\<lambda>h. Inr (answer h))))"

section \<open>Definitions: transactions\<close>

definition invalid_tx_error :: "TxInvalid \<Rightarrow> json" where
  "invalid_tx_error v = JObj [(''jsonrpc'', JStr ''2.0''), (''error'', JObj ((''code'', JInt (- 32000)) #
     (case v of InvalidNonce \<Rightarrow> [(''message'', JStr ''Invalid nonce'')]
      | InvalidBalance \<Rightarrow> [(''message'', JStr ''Invalid balance'')]
      | NotInvalid \<Rightarrow> [])))]"

definition enc_eth_sendRawTransaction :: "txblock \<Rightarrow> (('c, 'd) manager, json) meth" where
  "enc_eth_sendRawTransaction tx =
     bind_m (lift_m (Hex_fromBytes (TxBlock_rlpSerialize True tx) False)) (\<lambda>_.
     bind_m (chain_m (addTx tx)) (\<lambda>v.
     if v = NotInvalid
     then bind_m (lift_m (hex_json (tb_hash tx))) (\<lambda>h. bind_m (broadcastTxBlock tx) (\<lambda>_. ret_m (answer h)))
     else ret_m (invalid_tx_error v)))"

text \<open>A transaction of the mempool has no block; what the others have in common comes after.\<close>

definition mempool_tx_json :: "txblock \<Rightarrow> json res" where
  "mempool_tx_json tx = object [
     (''blockHash'', Inr JNull),
     (''blockIndex'', Inr JNull),
     (''from'', hex_json (tb_from tx)),
     (''gas'', rpc_num (tb_gasLimit tx)),
     (''gasPrice'', rpc_num (tb_maxFeePerGas tx)),
     (''hash'', hex_json (tb_hash tx)),
     (''input'', rpc_bytes (tb_data tx)),
     (''nonce'', rpc_num (tb_nonce tx)),
     (''to'', hex_json (tb_to tx)),
     (''transactionIndex'', Inr JNull),
     (''value'', rpc_num (tb_value tx)),
     (''v'', rpc_num (tb_v tx)),
     (''r'', rpc_num (tb_r tx)),
     (''s'', rpc_num (tb_s tx))]"

definition chain_tx_json :: "tx_ref \<Rightarrow> json res" where
  "chain_tx_json ref = (case ref of (tx, blockHash, blockIndex, blockHeight) \<Rightarrow> object [
     (''blockHash'', hex_json blockHash),
     (''blockNumber'', rpc_num blockHeight),
     (''from'', hex_json (tb_from tx)),
     (''gas'', rpc_num (tb_gasLimit tx)),
     (''gasPrice'', rpc_num (tb_maxFeePerGas tx)),
     (''hash'', hex_json (tb_hash tx)),
     (''input'', rpc_bytes (tb_data tx)),
     (''nonce'', rpc_num (tb_nonce tx)),
     (''to'', hex_json (tb_to tx)),
     (''transactionIndex'', rpc_num blockIndex),
     (''value'', rpc_num (tb_value tx)),
     (''v'', rpc_num (tb_v tx)),
     (''r'', rpc_num (tb_r tx)),
     (''s'', rpc_num (tb_s tx))])"

definition answer_tx :: "tx_ref option \<Rightarrow> json res" where
  "answer_tx ref =
     (case ref of None \<Rightarrow> Inr (answer JNull) | Some x \<Rightarrow> bind_r (chain_tx_json x) (\<lambda>j. Inr (answer j)))"

definition enc_eth_getTransactionByHash :: "('c, 'd) rpc_env \<Rightarrow> bytes \<Rightarrow> (('c, 'd) manager, json) meth" where
  "enc_eth_getTransactionByHash V txHash = ask_m (\<lambda>g.
     case getTxFromMempool (mg_chain g) txHash of
       Some tx \<Rightarrow> lift_m (bind_r (mempool_tx_json tx) (\<lambda>j. Inr (answer j)))
     | None \<Rightarrow> bind_m (storage_m (getTx (pe_db (rv_p2p V)) (rv_crypto V) txHash)) (\<lambda>ref. lift_m (answer_tx ref)))"

definition enc_eth_getTransactionByBlockHashAndIndex ::
  "('c, 'd) rpc_env \<Rightarrow> bytes \<times> nat \<Rightarrow> (('c, 'd) manager, json) meth" where
  "enc_eth_getTransactionByBlockHashAndIndex V requestInfo =
     bind_m (storage_m (getTxByBlockHashAndIndex (pe_db (rv_p2p V)) (rv_crypto V) (fst requestInfo) (snd requestInfo)))
       (\<lambda>ref. lift_m (answer_tx ref))"

definition enc_eth_getTransactionByBlockNumberAndIndex ::
  "('c, 'd) rpc_env \<Rightarrow> nat \<times> nat \<Rightarrow> (('c, 'd) manager, json) meth" where
  "enc_eth_getTransactionByBlockNumberAndIndex V requestInfo =
     bind_m (storage_m (getTxByBlockNumberAndIndex (pe_db (rv_p2p V)) (rv_crypto V) (fst requestInfo) (snd requestInfo)))
       (\<lambda>ref. lift_m (answer_tx ref))"

text \<open>\<^verbatim>\<open>State::getEvmContractAddress\<close> uses \<^verbatim>\<open>operator[]\<close>, which inserts the zero address.\<close>

definition getEvmContractAddress :: "bytes \<Rightarrow> (('c, 'd) chain_state, address) meth" where
  "getEvmContractAddress txHash s =
     (case contractAddresses (cs_host s) txHash of
        Some a \<Rightarrow> (Inr a, s)
      | None \<Rightarrow> (Inr zero_address,
          mod_host (\<lambda>h. h\<lparr>contractAddresses := (contractAddresses h)(txHash \<mapsto> zero_address)\<rparr>) s))"

definition receipt_json :: "('c, 'd) rpc_env \<Rightarrow> bytes \<Rightarrow> tx_ref \<Rightarrow> (('c, 'd) manager, json) meth" where
  "receipt_json V txHash ref = (case ref of (tx, blockHash, txIndex, blockHeight) \<Rightarrow>
     bind_m (chain_m (getEvmContractAddress (tb_hash tx))) (\<lambda>contract.
     ask_m (\<lambda>g. lift_m (
       bind_r (state_getEvents_tx V txHash blockHeight txIndex g) (\<lambda>events.
       bind_r (map_r (Event_serializeForRPC (rv_json V)) events) (\<lambda>logs.
       object [
         (''transactionHash'', hex_json (tb_hash tx)),
         (''transactionIndex'', rpc_num txIndex),
         (''blockHash'', hex_json blockHash),
         (''blockNumber'', rpc_num blockHeight),
         (''from'', hex_json (tb_from tx)),
         (''to'', hex_json (tb_to tx)),
         (''cumulativeGasUsed'', rpc_num (tb_gasLimit tx)),
         (''effectiveGasUsed'', rpc_num (tb_gasLimit tx)),
         (''effectiveGasPrice'', rpc_num (tb_maxFeePerGas tx)),
         (''gasUsed'', rpc_num (tb_gasLimit tx)),
         (''contractAddress'', if nonzero_bytes contract then hex_json contract else Inr JNull),
         (''logs'', Inr (JArr (map JStr logs))),
         (''logsBloom'', hex_json zero_hash),
         (''type'', Inr (JStr ''0x00'')),
         (''root'', hex_json zero_hash),
         (''status'', Inr (JStr ''0x1''))]))))))"

definition enc_eth_getTransactionReceipt :: "('c, 'd) rpc_env \<Rightarrow> bytes \<Rightarrow> (('c, 'd) manager, json) meth" where
  "enc_eth_getTransactionReceipt V txHash =
     bind_m (storage_m (getTx (pe_db (rv_p2p V)) (rv_crypto V) txHash)) (\<lambda>ref.
     case ref of
       None \<Rightarrow> ret_m (answer JNull)
     | Some x \<Rightarrow> bind_m (receipt_json V txHash x) (\<lambda>j. ret_m (answer j)))"

section \<open>Definitions: a request\<close>

text \<open>The answer without \<^verbatim>\<open>jsonrpc\<close> for a method that is not found.\<close>

definition method_not_found :: json where
  "method_not_found = JObj [error_member (- 32601) ''Method not found'']"

definition look :: "('s \<Rightarrow> 'a res) \<Rightarrow> ('s, 'a) meth" where
  "look f = (\<lambda>g. (f g, g))"

definition dispatch :: "('c, 'd) rpc_env \<Rightarrow> Methods \<Rightarrow> json \<Rightarrow> (('c, 'd) manager, json) meth" where
  "dispatch V m request = (let W = rv_what V; c = rv_crypto V in
     case m of
       M_invalid \<Rightarrow> ret_m method_not_found
     | M_web3_clientVersion \<Rightarrow> bind_m (lift_m (dec_web3_clientVersion W request)) (\<lambda>_. lift_m (enc_web3_clientVersion V))
     | M_web3_sha3 \<Rightarrow> bind_m (lift_m (dec_web3_sha3 W request)) (\<lambda>x. lift_m (enc_web3_sha3 V x))
     | M_net_version \<Rightarrow> bind_m (lift_m (dec_net_version W request)) (\<lambda>_. lift_m (enc_net_version V))
     | M_net_listening \<Rightarrow> bind_m (lift_m (dec_net_listening W request)) (\<lambda>_. lift_m enc_net_listening)
     | M_net_peerCount \<Rightarrow> bind_m (lift_m (dec_net_peerCount W request)) (\<lambda>_. look enc_net_peerCount)
     | M_eth_protocolVersion \<Rightarrow> bind_m (lift_m (dec_eth_protocolVersion W request)) (\<lambda>_. lift_m (enc_eth_protocolVersion V))
     | M_eth_getBlockByHash \<Rightarrow> bind_m (lift_m (dec_eth_getBlockByHash W request)) (enc_eth_getBlockByHash V)
     | M_eth_getBlockByNumber \<Rightarrow>
         bind_m (look (\<lambda>g. dec_eth_getBlockByNumber W c (the_storage g) request)) (enc_eth_getBlockByNumber V)
     | M_eth_getBlockTransactionCountByHash \<Rightarrow>
         bind_m (lift_m (dec_eth_getBlockTransactionCountByHash W request)) (enc_eth_getBlockTransactionCountByHash V)
     | M_eth_getBlockTransactionCountByNumber \<Rightarrow>
         bind_m (look (\<lambda>g. dec_eth_getBlockTransactionCountByNumber W c (the_storage g) request))
           (enc_eth_getBlockTransactionCountByNumber V)
     | M_eth_chainId \<Rightarrow> bind_m (lift_m (dec_eth_chainId W request)) (\<lambda>_. lift_m (enc_eth_chainId V))
     | M_eth_syncing \<Rightarrow> bind_m (lift_m (dec_eth_syncing W request)) (\<lambda>_. lift_m enc_eth_syncing)
     | M_eth_coinbase \<Rightarrow> bind_m (lift_m (dec_eth_coinbase W request)) (\<lambda>_. lift_m (enc_eth_coinbase V))
     | M_eth_blockNumber \<Rightarrow> bind_m (lift_m (dec_eth_blockNumber W request)) (\<lambda>_. look enc_eth_blockNumber)
     | M_eth_call \<Rightarrow> bind_m (lift_m (dec_eth_call W c request)) (enc_eth_call V)
     | M_eth_estimateGas \<Rightarrow> bind_m (lift_m (dec_eth_estimateGas W c request)) (enc_eth_estimateGas V)
     | M_eth_gasPrice \<Rightarrow> bind_m (lift_m (dec_eth_gasPrice W request)) (\<lambda>_. lift_m enc_eth_gasPrice)
     | M_eth_getLogs \<Rightarrow>
         bind_m (ask_m (\<lambda>g. storage_m (dec_eth_getLogs W (pe_db (rv_p2p V)) c (pe_junk (rv_p2p V))
           (fst (snd (snd (cs_globals (mg_chain g))))) request))) (\<lambda>info. look (enc_eth_getLogs V info))
     | M_eth_getBalance \<Rightarrow> bind_m (lift_m (dec_eth_getBalance W request)) (\<lambda>a. look (enc_eth_getBalance a))
     | M_eth_getTransactionCount \<Rightarrow>
         bind_m (lift_m (dec_eth_getTransactionCount W request)) (\<lambda>a. look (enc_eth_getTransactionCount a))
     | M_eth_getCode \<Rightarrow> bind_m (lift_m (dec_eth_getCode W request)) enc_eth_getCode
     | M_eth_sendTransaction \<Rightarrow> ret_m method_not_found
     | M_eth_sendRawTransaction \<Rightarrow> bind_m (lift_m (dec_eth_sendRawTransaction W c request)) enc_eth_sendRawTransaction
     | M_eth_getTransactionByHash \<Rightarrow>
         bind_m (lift_m (dec_eth_getTransactionByHash W request)) (enc_eth_getTransactionByHash V)
     | M_eth_getTransactionByBlockHashAndIndex \<Rightarrow>
         bind_m (lift_m (dec_eth_getTransactionByBlockHashAndIndex W c request)) (enc_eth_getTransactionByBlockHashAndIndex V)
     | M_eth_getTransactionByBlockNumberAndIndex \<Rightarrow>
         bind_m (look (\<lambda>g. dec_eth_getTransactionByBlockNumberAndIndex W c (the_storage g) request))
           (enc_eth_getTransactionByBlockNumberAndIndex V)
     | M_eth_getTransactionReceipt \<Rightarrow>
         bind_m (lift_m (dec_eth_getTransactionReceipt W request)) (enc_eth_getTransactionReceipt V))"

text \<open>\<^verbatim>\<open>ret["id"] = ...\<close> from \<^verbatim>\<open>request["id"]\<close>.\<close>

fun json_put :: "json \<Rightarrow> string \<Rightarrow> json \<Rightarrow> json res" where
  "json_put (JObj fs) k v = Inr (JObj (AList.update k v fs))"
| "json_put JNull k v = Inr (JObj [(k, v)])"
| "json_put _ k v = Inl json_type_error"

fun answer_id :: "json \<Rightarrow> json res" where
  "answer_id (JStr s) = Inr (JStr s)"
| "answer_id (JNum n) = bind_r (get_uint64 (JNum n)) (\<lambda>n. Inr (JNum n))"
| "answer_id (JInt i) = bind_r (get_uint64 (JInt i)) (\<lambda>n. Inr (JNum n))"
| "answer_id (JFloat q) = bind_r (get_uint64 (JFloat q)) (\<lambda>n. Inr (JNum n))"
| "answer_id JNull = Inr JNull"
| "answer_id _ = Inl (DynamicException ''Invalid id type'')"

definition set_id :: "json \<Rightarrow> json \<Rightarrow> json res" where
  "set_id request ret = bind_r (bind_r (json_at request ''id'') answer_id) (\<lambda>v. json_put ret ''id'' v)"

text \<open>The body of the \<^verbatim>\<open>try\<close> block: the early return gives a text, the end of the block a value.\<close>

definition invalid_request :: json where
  "invalid_request = JObj [error_member (- 32600) ''Invalid request - does not conform to JSON-RPC 2.0 spec'']"

definition rpc_body :: "('c, 'd) rpc_env \<Rightarrow> string \<Rightarrow> (('c, 'd) manager, string + json) meth" where
  "rpc_body V body =
     bind_m (lift_m (js_parse (rv_json V) body)) (\<lambda>request.
     bind_m (lift_m (checkJsonRPCSpec (rv_what V) request)) (\<lambda>ok.
     if \<not> ok then bind_m (lift_m (js_dump (rv_json V) invalid_request)) (\<lambda>s. ret_m (Inl s))
     else bind_m (lift_m (getMethod (rv_what V) request)) (\<lambda>m.
       bind_m (dispatch V m request) (\<lambda>ret.
       bind_m (lift_m (set_id request ret)) (\<lambda>ret. ret_m (Inr ret))))))"

definition rpc_error :: "('c, 'd) rpc_env \<Rightarrow> cpp_error \<Rightarrow> json" where
  "rpc_error V e = JObj [(''id'', JNum 0), (''jsonrpc'', JFloat 2), internal_error V (- 32603) e]"

definition parseJsonRpcRequest :: "('c, 'd) rpc_env \<Rightarrow> string \<Rightarrow> (('c, 'd) manager, string) meth" where
  "parseJsonRpcRequest V body g =
     (case rpc_body V body g of
        (Inr (Inl s), g') \<Rightarrow> (Inr s, g')
      | (Inr (Inr ret), g') \<Rightarrow> (js_dump (rv_json V) ret, g')
      | (Inl e, g') \<Rightarrow> (if e = UndefinedBehaviour then Inl e else js_dump (rv_json V) (rpc_error V e), g'))"

section \<open>Lemmas: what a request leaves alone\<close>

text \<open>
  A relation between the states before and after: an operation respects it when it holds for
  every start. The rules are those of the combinators, for any such relation that is reflexive
  and transitive.
\<close>

definition leaves :: "('s \<Rightarrow> 's \<Rightarrow> bool) \<Rightarrow> ('s, 'a) meth \<Rightarrow> bool" where
  "leaves R m \<longleftrightarrow> (\<forall>s. R s (snd (m s)))"

lemma leavesD: "leaves R m \<Longrightarrow> R s (snd (m s))"
  by (simp add: leaves_def)

locale frame_relation =
  fixes R :: "'s \<Rightarrow> 's \<Rightarrow> bool"
  assumes refl: "R s s" and trans: "R s t \<Longrightarrow> R t u \<Longrightarrow> R s u"
begin

lemma pure:
  "leaves R (ret_m x)" "leaves R (throw_m e)" "leaves R (lift_m r)" "leaves R (look f)"
  by (simp_all add: leaves_def refl look_def)

lemma bind:
  assumes "leaves R m" "\<And>x. leaves R (k x)"
  shows "leaves R (bind_m m k)"
  unfolding leaves_def
proof
  fix s
  show "R s (snd (bind_m m k s))"
    using leavesD[OF assms(1), of s] leavesD[OF assms(2), where s = "snd (m s)"] trans
    by (cases "m s") (auto simp: bind_m_apply split: sum.split)
qed

lemma seq: "leaves R m \<Longrightarrow> leaves R k \<Longrightarrow> leaves R (seq_m m k)"
  unfolding seq_m_def by (rule bind)

lemma ask: "(\<And>s. leaves R (f s)) \<Longrightarrow> leaves R (ask_m f)"
  by (simp add: leaves_def)

lemma whenever: "leaves R m \<Longrightarrow> leaves R (when_m b m)"
  by (cases b) (simp_all add: pure)

lemma branches:
  "leaves R m \<Longrightarrow> leaves R m' \<Longrightarrow> leaves R (if b then m else m')"
  "leaves R n \<Longrightarrow> (\<And>x. leaves R (f x)) \<Longrightarrow> leaves R (case o' of None \<Rightarrow> n | Some x \<Rightarrow> f x)"
  "(\<And>a b. leaves R (h a b)) \<Longrightarrow> leaves R (case p of (a, b) \<Rightarrow> h a b)"
  "(\<And>x. leaves R (l x)) \<Longrightarrow> (\<And>y. leaves R (r y)) \<Longrightarrow> leaves R (case u of Inl x \<Rightarrow> l x | Inr y \<Rightarrow> r y)"
  by (simp_all split: option.split prod.split sum.split)

lemma catch: "leaves R m \<Longrightarrow> leaves R (catch_json m handler)"
  unfolding leaves_def catch_json_def
proof
  fix s assume a: "\<forall>s. R s (snd (m s))"
  obtain r s' where "m s = (r, s')" by fastforce
  then show "R s (snd (case m s of (Inr j, s') \<Rightarrow> (Inr j, s')
      | (Inl e, s') \<Rightarrow> (if e = UndefinedBehaviour then Inl UndefinedBehaviour else Inr (handler e), s')))"
    using a[rule_format, of s] by (cases r) simp_all
qed

lemmas rules = pure bind seq ask whenever branches catch

end

text \<open>Only the host and the contracts change; only the caches of the storage change.\<close>

definition host_only :: "('c, 'd) chain_state \<Rightarrow> ('c, 'd) chain_state \<Rightarrow> bool" where
  "host_only s s' \<longleftrightarrow> cs_mempool s' = cs_mempool s \<and> cs_rdpos s' = cs_rdpos s \<and> cs_storage s' = cs_storage s
     \<and> cs_globals s' = cs_globals s"

interpretation host_frame: frame_relation host_only
  by unfold_locales (simp_all add: host_only_def)

definition caches_only :: "'d storage \<Rightarrow> 'd storage \<Rightarrow> bool" where
  "caches_only s s' \<longleftrightarrow> st_db s' = st_db s \<and> st_chain s' = st_chain s \<and> blockByHash s' = blockByHash s
     \<and> txByHash s' = txByHash s \<and> blockHeightByHash s' = blockHeightByHash s \<and> blockHashByHeight s' = blockHashByHeight s"

interpretation cache_frame: frame_relation caches_only
  by unfold_locales (simp_all add: caches_only_def)

lemma host_only_latest: "(\<And>l. leaves host_only (k l)) \<Longrightarrow> leaves host_only (with_latest k)"
  by (auto simp: leaves_def with_latest_def host_only_def split: sum.split)

lemma host_only_host: "leaves host_only (mod_m (mod_host f))"
  by (simp add: leaves_def host_only_def)

lemma host_only_dry_run: "leaves host_only (dry_run E l ci)"
proof -
  have "leaves host_only (sub_balance E a v)" "leaves host_only (add_balance E a v)" for a v
    by (auto simp: leaves_def host_only_def sub_balance_def add_balance_def mod_host_def Let_def split: sum.split)
  moreover have "leaves host_only (execute_m E ci)" for ci
    by (auto simp: leaves_def host_only_def execute_m_def split: prod.split)
  ultimately show ?thesis
    unfolding dry_run_def move_value_def log_balance_def by (intro host_frame.rules host_only_host)
qed

lemma host_only_ethCall:
  fixes E :: "'c node_env"
  shows "leaves host_only (state_ethCall E ci :: (('c, 'd) chain_state, bytes) meth)"
proof -
  have "state_ethCall E ci = ask_m (\<lambda>s :: ('c, 'd) chain_state. if isContractAddress E s (ci_to ci)
      then with_latest (\<lambda>l. seq_m (reseed l) (lift_m (ne_view E ci (cs_contracts s))))
      else if isEvmContract (cs_host s) (ci_to ci) \<or> ci_to ci = zero_address
      then with_latest (\<lambda>l. seq_m (reseed l) (bind_m (dry_run E l ci) (\<lambda>res.
        if res_status res \<noteq> 0 then throw_m (DynamicException ''Error when estimating gas'') else ret_m (res_output res))))
      else ret_m [])"
    by (simp add: fun_eq_iff state_ethCall_def)
  then show ?thesis
    unfolding reseed_def by (simp only:) (intro host_frame.rules host_only_latest host_only_host host_only_dry_run)
qed

lemma host_only_estimateGas:
  fixes E :: "'c node_env"
  shows "leaves host_only (estimateGas E ci :: (('c, 'd) chain_state, nat) meth)"
proof -
  have v: "leaves host_only (validateCallContractWithTx E ci :: (('c, 'd) chain_state, bool) meth)"
    by (auto simp: leaves_def host_only_def validateCallContractWithTx_def split: prod.split sum.split cpp_error.split)
  have "estimateGas E ci = ask_m (\<lambda>s :: ('c, 'd) chain_state. case can_pay s ci of
        Inl e \<Rightarrow> throw_m e
      | Inr ok \<Rightarrow> if \<not> ok then ret_m 0 else
      seq_m (when_m (isContractAddress E s (ci_to ci))
        (with_latest (\<lambda>l. seq_m (reseed l) (bind_m (validateCallContractWithTx E ci) (\<lambda>_. ret_m ())))))
      (ask_m (\<lambda>s. if isEvmContract (cs_host s) (ci_to ci) \<or> ci_to ci = zero_address
        then with_latest (\<lambda>l. seq_m (reseed l) (bind_m (dry_run E l ci) (\<lambda>res.
          if res_gas_left res < 0 then throw_m (DynamicException ''gasLimit is lower than gas left'')
          else if res_status res \<noteq> 0 then throw_m (DynamicException ''Error when estimating gas'')
          else bind_m (lift_m (u_sub (ci_gasLimit (clip_gas ci)) (nat (res_gas_left res)))) (\<lambda>gasUsed.
            lift_m (u_add 256 gasUsed 21000)))))
        else ret_m 21000)))"
    by (simp add: fun_eq_iff estimateGas_def ask_m_def if_distribR split: sum.split bool.split cong: if_cong)
  then show ?thesis
    unfolding reseed_def by (simp only:) (intro host_frame.rules host_only_latest host_only_host host_only_dry_run v)
qed

lemma caches_queries:
  "leaves caches_only (getBlock e c junk h)" "leaves caches_only (getBlock_height e c junk n)"
  "leaves caches_only (getTx e c h)" "leaves caches_only (getTxByBlockHashAndIndex e c h i)"
  "leaves caches_only (getTxByBlockNumberAndIndex e c n i)"
proof -
  have b: "caches_only s (snd (block_from_db e c junk h s))" for h s
    by (auto simp: caches_only_def block_from_db_def Let_def split: sum.split)
  have t: "caches_only s (snd (tx_from_db e c h s))" "caches_only s (snd (tx_at_db e c h i s))" for h i s
    by (auto simp: caches_only_def tx_from_db_def tx_at_db_def Let_def split: sum.split)
  show "leaves caches_only (getBlock e c junk h)" "leaves caches_only (getBlock_height e c junk n)"
    "leaves caches_only (getTx e c h)" "leaves caches_only (getTxByBlockHashAndIndex e c h i)"
    "leaves caches_only (getTxByBlockNumberAndIndex e c n i)"
    using b t cache_frame.refl
    by (auto simp: leaves_def getBlock_def getBlock_height_def getTx_def getTxByBlockHashAndIndex_def
      getTxByBlockNumberAndIndex_def split: StorageStatus.split sum.split option.split)
qed

lemma caches_getLogs: "leaves caches_only (dec_eth_getLogs W e c junk height request)"
proof -
  let ?m = "bind_m (lift_m (bind_r (params request) (\<lambda>p. json_index p 0))) (\<lambda>logsObject.
        bind_m (logs_range e c junk height logsObject) (\<lambda>(fromBlock, toBlock).
        bind_m (lift_m (logs_address logsObject)) (\<lambda>address.
        bind_m (lift_m (logs_topics logsObject)) (\<lambda>topics.
        ret_m (fromBlock, toBlock, address, topics)))))"
  have "leaves caches_only (logs_range e c junk height logsObject)" for logsObject
  proof (cases "json_contains logsObject ''blockHash''")
    case True
    then show ?thesis unfolding logs_range_def by (simp only: if_True) (intro cache_frame.rules caches_queries)
  next
    case False
    then show ?thesis by (simp add: logs_range_def leaves_def Let_def cache_frame.refl)
  qed
  then have "leaves caches_only ?m" by (intro cache_frame.rules)
  from leavesD[OF this] show ?thesis
    unfolding leaves_def dec_eth_getLogs_def by (simp add: case_prod_unfold)
qed

text \<open>
  The chain, the consensus and the connections; the mempool and what is sent to peers; the
  accounts.
\<close>

definition node_kept :: "('c, 'd) manager \<Rightarrow> ('c, 'd) manager \<Rightarrow> bool" where
  "node_kept g g' \<longleftrightarrow> caches_only (the_storage g) (the_storage g') \<and> cs_rdpos (mg_chain g') = cs_rdpos (mg_chain g)
     \<and> cs_globals (mg_chain g') = cs_globals (mg_chain g) \<and> mg_started g' = mg_started g
     \<and> mg_sessions g' = mg_sessions g \<and> mg_requests g' = mg_requests g"

definition pool_kept :: "('c, 'd) manager \<Rightarrow> ('c, 'd) manager \<Rightarrow> bool" where
  "pool_kept g g' \<longleftrightarrow> cs_mempool (mg_chain g') = cs_mempool (mg_chain g) \<and> mg_log g' = mg_log g
     \<and> mg_broadcasted g' = mg_broadcasted g"

definition accounts_kept :: "('c, 'd) manager \<Rightarrow> ('c, 'd) manager \<Rightarrow> bool" where
  "accounts_kept g g' \<longleftrightarrow> (let h = cs_host (mg_chain g); h' = cs_host (mg_chain g') in
     balance_cell h' = balance_cell h \<and> nonce_cell h' = nonce_cell h \<and> storage_cell h' = storage_cell h
     \<and> code_cell h' = code_cell h)"

interpretation node_frame: frame_relation node_kept
  by unfold_locales (auto simp: node_kept_def intro: cache_frame.refl cache_frame.trans)

interpretation pool_frame: frame_relation pool_kept
  by unfold_locales (simp_all add: pool_kept_def)

interpretation accounts_frame: frame_relation accounts_kept
  by unfold_locales (simp_all add: accounts_kept_def Let_def)

lemma state_of_lifted:
  "snd (storage_m f g) = g\<lparr>mg_chain := (mg_chain g)\<lparr>cs_storage := snd (f (cs_storage (mg_chain g)))\<rparr>\<rparr>"
  "snd (chain_m m g) = g\<lparr>mg_chain := snd (m (mg_chain g))\<rparr>"
  by (simp_all add: storage_m_def chain_m_def case_prod_unfold)

lemma storage_m_kept:
  "leaves caches_only f \<Longrightarrow> leaves node_kept (storage_m f)" "leaves pool_kept (storage_m f)" "leaves accounts_kept (storage_m f)"
  by (simp_all add: leaves_def state_of_lifted node_kept_def pool_kept_def accounts_kept_def the_storage_def)

lemma chain_m_kept:
  "leaves host_only m \<Longrightarrow> leaves node_kept (chain_m m)" "leaves host_only m \<Longrightarrow> leaves pool_kept (chain_m m)"
  by (simp_all add: leaves_def state_of_lifted node_kept_def pool_kept_def the_storage_def host_only_def cache_frame.refl)

lemma chain_m_lookups:
  "leaves host_only (getContractCode a)" "leaves host_only (getEvmContractAddress h)"
  "leaves accounts_kept (chain_m (getContractCode a))" "leaves accounts_kept (chain_m (getEvmContractAddress h))"
  by (auto simp: leaves_def host_only_def accounts_kept_def chain_m_def getContractCode_def getEvmContractAddress_def
    upd_acc_frame Let_def split: option.split)

lemma send_kept:
  "leaves node_kept (chain_m (addTx tx))" "leaves accounts_kept (chain_m (addTx tx))"
  "leaves node_kept (broadcastTxBlock tx)" "leaves accounts_kept (broadcastTxBlock tx)"
proof -
  show "leaves node_kept (chain_m (addTx tx))" "leaves accounts_kept (chain_m (addTx tx))"
    by (auto simp: leaves_def state_of_lifted node_kept_def accounts_kept_def the_storage_def addTx_def cache_frame.refl
      split: sum.split TxInvalid.split)
  have "leaves node_kept (broadcastMessage m)" "leaves accounts_kept (broadcastMessage m)" for m
    by (auto simp: leaves_def node_kept_def accounts_kept_def the_storage_def broadcastMessage_def bind_m_apply
      relay_fold cache_frame.refl split: sum.split)
  then show "leaves node_kept (broadcastTxBlock tx)" "leaves accounts_kept (broadcastTxBlock tx)"
    unfolding broadcastTxBlock_def by (auto intro: node_frame.rules accounts_frame.rules)
qed

lemmas encoder_defs =
  enc_eth_getBlockByHash_def enc_eth_getBlockByNumber_def enc_eth_getBlockTransactionCountByHash_def
  enc_eth_getBlockTransactionCountByNumber_def enc_eth_call_def enc_eth_estimateGas_def enc_eth_getCode_def
  enc_eth_sendRawTransaction_def enc_eth_getTransactionByHash_def enc_eth_getTransactionByBlockHashAndIndex_def
  enc_eth_getTransactionByBlockNumberAndIndex_def enc_eth_getTransactionReceipt_def receipt_json_def
  getBlockJson_def tx_count_def rpc_getBlock_def rpc_getBlock_height_def

lemma dispatch_node: "leaves node_kept (dispatch V m request)"
  by (cases m) (simp only: dispatch_def Let_def Methods.case encoder_defs, intro node_frame.rules storage_m_kept chain_m_kept
    chain_m_lookups host_only_ethCall host_only_estimateGas caches_queries caches_getLogs send_kept)+

lemma dispatch_pool: "m \<noteq> M_eth_sendRawTransaction \<Longrightarrow> leaves pool_kept (dispatch V m request)"
  by (cases m) (erule (1) notE | simp only: dispatch_def Let_def Methods.case encoder_defs simp_thms, intro pool_frame.rules storage_m_kept chain_m_kept
    chain_m_lookups host_only_ethCall host_only_estimateGas caches_queries caches_getLogs)+

lemma dispatch_accounts:
  "m \<noteq> M_eth_call \<Longrightarrow> m \<noteq> M_eth_estimateGas \<Longrightarrow> leaves accounts_kept (dispatch V m request)"
  by (cases m) (erule (1) notE | simp only: dispatch_def Let_def Methods.case encoder_defs simp_thms, intro accounts_frame.rules storage_m_kept
    chain_m_lookups send_kept)+

text \<open>The method that the body of a request names, when it is a request at all.\<close>

definition asks :: "('c, 'd) rpc_env \<Rightarrow> string \<Rightarrow> Methods \<Rightarrow> bool" where
  "asks V body m \<longleftrightarrow> (\<exists>request. js_parse (rv_json V) body = Inr request \<and> getMethod (rv_what V) request = Inr m)"

lemma parse_state: "snd (parseJsonRpcRequest V body g) = snd (rpc_body V body g)"
  by (auto simp: parseJsonRpcRequest_def split: prod.split sum.split)

lemma rpc_body_cases:
  obtains "snd (rpc_body V body g) = g"
  | m request where "js_parse (rv_json V) body = Inr request" "getMethod (rv_what V) request = Inr m"
      "snd (rpc_body V body g) = snd (dispatch V m request g)"
proof (cases "js_parse (rv_json V) body")
  case (Inl e)
  then show ?thesis using that(1) by (simp add: rpc_body_def bind_m_apply)
next
  case p: (Inr request)
  show ?thesis
  proof (cases "checkJsonRPCSpec (rv_what V) request = Inr True \<and> (\<exists>m. getMethod (rv_what V) request = Inr m)")
    case True
    then obtain m where "getMethod (rv_what V) request = Inr m" by blast
    with True p show ?thesis
      by (intro that(2)[of request m]) (auto simp: rpc_body_def bind_m_apply split: prod.split sum.split)
  next
    case False
    then show ?thesis
      using p by (intro that(1), cases "checkJsonRPCSpec (rv_what V) request"; cases "getMethod (rv_what V) request")
        (auto simp: rpc_body_def bind_m_apply split: sum.split)
  qed
qed


section \<open>Lemmas: numbers and data in an answer\<close>

lemma forRPC_strict:
  "Hex_forRPC \<lparr>hex_str = ''0x'' @ ds, hex_strict = True\<rparr> = Inr (if ds = [] then ''0x0'' else ''0x'' @ dropWhile (\<lambda>c. c = CHR ''0'') ds)"
  by (simp add: Hex_forRPC_def str_at_def forRPC_loop_eq)

lemma rpc_bytes_eq:
  "rpc_bytes b = Inr (JStr (if b = [] then ''0x0'' else ''0x'' @ dropWhile (\<lambda>c. c = CHR ''0'') (digits_of b)))"
proof -
  have "digits_of b = [] \<longleftrightarrow> b = []" using digits_of_facts(1)[of b] by (metis length_0_conv mult_eq_0_iff zero_neq_numeral)
  then show ?thesis using forRPC_strict[of "digits_of b"] by (simp add: rpc_bytes_def Hex_fromBytes_eq)
qed

lemma digits_val: "hex_val (digits_of b) = be_val b"
  using hex_body_val(1)[of "digits_of b"] by simp

lemma significant_digits:
  fixes b :: bytes
  defines "d \<equiv> dropWhile (\<lambda>c. c = CHR ''0'') (digits_of b)"
  shows "set d \<subseteq> set hex_digits" "hex_val d = be_val b" "length d \<le> 2 * length b" "d \<noteq> [] \<Longrightarrow> hd d \<noteq> CHR ''0''"
    "be_val b \<noteq> 0 \<Longrightarrow> d \<noteq> []"
proof -
  show "set d \<subseteq> set hex_digits" using digits_of_lower[of b] set_dropWhileD by (fastforce simp: d_def)
  show v: "hex_val d = be_val b" unfolding d_def hex_val_dropWhile by (rule digits_val)
  show "length d \<le> 2 * length b" using length_dropWhile_le[of _ "digits_of b"] by (simp add: d_def)
  show "d \<noteq> [] \<Longrightarrow> hd d \<noteq> CHR ''0''" using hd_dropWhile[of "\<lambda>c. c = CHR ''0''" "digits_of b"] by (simp add: d_def)
  show "be_val b \<noteq> 0 \<Longrightarrow> d \<noteq> []" using v by auto
qed

lemma rpc_num_decodes:
  assumes "bits_ok c" "n < 2 ^ 256"
  shows "\<exists>s. rpc_num n = Inr (JStr s) \<and> numFilter s \<and> hex_uint c s = (if n = 0 then Inl UndefinedBehaviour else Inr n)"
proof (cases "n = 0")
  case True
  have "numFilter ''0x0''" using numFilter_iff[of "''0''"] digit_classes(4) by simp
  then show ?thesis using True hex_uint_zero by (simp add: rpc_num_def rpc_bytes_eq)
next
  case False
  let ?d = "dropWhile (\<lambda>c. c = CHR ''0'') (digits_of (uintToBytes n))"
  note sig = significant_digits[of "uintToBytes n"]
  have ne: "uintToBytes n \<noteq> []" using False uintToBytes_facts(1)[of n] by (metis be_val_Nil)
  have "length (uintToBytes n) \<le> 32" using bytesRequired_256[OF assms(2)] by simp
  then have "hex_uint c (''0x'' @ ?d) = Inr n"
    using hex_uint_digits[of ?d "export_bits c" c] sig False assms(1) unfolding bits_ok_def by force
  moreover have "numFilter (''0x'' @ ?d)" unfolding numFilter_iff using sig(1,4,5) False by simp
  ultimately show ?thesis using False ne by (simp add: rpc_num_def rpc_bytes_eq)
qed

text \<open>Bytes shown without leading zeros come back exactly when the first byte is not zero.\<close>

lemma pair_leading:
  fixes x :: byte
  shows "x = 0 \<Longrightarrow> hex_pair x = ''00''" "x \<noteq> 0 \<Longrightarrow> length (dropWhile (\<lambda>c. c = CHR ''0'') (hex_pair x @ t)) \<ge> 1 + length t"
proof -
  show "x = 0 \<Longrightarrow> hex_pair x = ''00''" by (simp add: hex_pair_def hex_digits_def)
  assume x: "x \<noteq> 0"
  have "hex_val (hex_pair x) = unat x" using digits_val[of "[x]"] by (simp add: digits_of_def)
  then have "hex_pair x \<noteq> ''00''" using x by (auto simp: hex_val_def Hex_toInt_def unat_eq_zero)
  then show "length (dropWhile (\<lambda>c. c = CHR ''0'') (hex_pair x @ t)) \<ge> 1 + length t"
    by (auto simp: hex_pair_def)
qed

lemma rpc_bytes_decodes_iff:
  "\<exists>s. rpc_bytes b = Inr (JStr s) \<and> (Hex_toBytes s = Inr b \<longleftrightarrow> b \<noteq> [] \<and> hd b \<noteq> 0)"
proof (cases b)
  case Nil
  have "Hex_toBytes ''0x0'' = Inr [0]"
    by (simp add: Hex_toBytes_def prefix_0x_def view_at_def only_hex_from_def hex_filter_def hex_body_def Hex_toInt_def)
  then show ?thesis using Nil by (simp add: rpc_bytes_eq)
next
  case (Cons x t)
  let ?d = "dropWhile (\<lambda>c. c = CHR ''0'') (digits_of b)"
  note sig = significant_digits[of b]
  have f: "set ?d \<subseteq> set hex_filter" using sig(1) digit_classes(2) by blast
  have dec: "Hex_toBytes (''0x'' @ ?d) = Inr (hex_body ?d)" using Hex_toBytes_digits[OF f, of True] by simp
  have len: "length (hex_body ?d) = (length ?d + 1) div 2" by (rule hex_body_val(2)[OF f])
  have "hex_body ?d = b \<longleftrightarrow> x \<noteq> 0"
  proof (cases "x = 0")
    case True
    then have "?d = dropWhile (\<lambda>c. c = CHR ''0'') (digits_of t)" using Cons pair_leading(1) by (simp add: digits_of_def)
    then have "length ?d \<le> 2 * length t" using significant_digits(3)[of t] by simp
    then have "length (hex_body ?d) < length b" using Cons len by simp
    then show ?thesis using True by auto
  next
    case False
    have "length (digits_of t) = 2 * length t" by simp
    then have "length ?d \<ge> 1 + 2 * length t"
      using pair_leading(2)[OF False, of "digits_of t"] Cons by (simp add: digits_of_def)
    then have "length (hex_body ?d) = length b" using len sig(3) Cons by simp
    moreover have "be_val (hex_body ?d) = be_val b" using hex_body_val(1)[OF f] sig(2) by simp
    ultimately show ?thesis using be_val_inj False by blast
  qed
  then show ?thesis using Cons dec by (simp add: rpc_bytes_eq)
qed

section \<open>Properties\<close>

text \<open>
  Claim C18. The server only looks. Whatever the body of a request is, and whether it is answered or
  fails, the blocks and the indices of the storage, the database, the consensus and the
  connections stay as they are. The mempool changes and peers are sent something only for
  \<^verbatim>\<open>eth_sendRawTransaction\<close>; balances, nonces, storage and code of accounts change, even inside the
  journal of the host, only for the two methods that run a call.
\<close>
theorem rpc_only_looks:
  assumes "parseJsonRpcRequest V body g = (r, g')"
  shows "node_kept g g' \<and> (\<not> asks V body M_eth_sendRawTransaction \<longrightarrow> pool_kept g g')
    \<and> (\<not> asks V body M_eth_call \<and> \<not> asks V body M_eth_estimateGas \<longrightarrow> accounts_kept g g')"
proof (cases rule: rpc_body_cases[of V body g])
  case 1
  then show ?thesis
    using assms parse_state[of V body g] by (simp add: node_frame.refl pool_frame.refl accounts_frame.refl)
next
  case (2 m request)
  then have a: "asks V body m" by (auto simp: asks_def)
  have g': "g' = snd (dispatch V m request g)" using 2(3) assms parse_state[of V body g] by simp
  show ?thesis
    unfolding g' using a leavesD[OF dispatch_node, of g V m request] leavesD[OF dispatch_pool, of m g V request]
      leavesD[OF dispatch_accounts, of m g V request] by metis
qed

text \<open>
  Claim C19. Requests that end in undefined behaviour. A request without parameters conforms to the
  specification and is accepted, but every decoder of an implemented method then reads a
  member that is not there. The number of transactions of a block that the node does not have,
  asked by its hash, is read through a null pointer. An empty raw transaction is read at its first byte.
\<close>
theorem rpc_undefined_requests:
  assumes "js_parse (rv_json V) body = Inr request" "checkJsonRPCSpec (rv_what V) request = Inr True"
    and "getMethod (rv_what V) request = Inr m"
    and "\<not> json_contains request ''params'' \<and> m \<notin> {M_invalid, M_eth_sendTransaction}
      \<or> m = M_eth_getBlockTransactionCountByHash \<and> params request = Inr (JArr [JStr (''0x'' @ digits_of h)]) \<and> length h = 32
          \<and> \<not> blockExists (pe_db (rv_p2p V)) (the_storage g) h
      \<or> m = M_eth_sendRawTransaction \<and> params request = Inr (JArr [JStr ''0x''])"
  shows "fst (parseJsonRpcRequest V body g) = Inl UndefinedBehaviour"
proof -
  have d: "fst (dispatch V m request g) = Inl UndefinedBehaviour"
    using assms(4)
  proof (elim disjE conjE)
    assume n: "\<not> json_contains request ''params''" "m \<notin> {M_invalid, M_eth_sendTransaction}"
    have "is_object request" using assms(2) by (cases request) (auto simp: checkJsonRPCSpec_def)
    note missing = decoders_missing[OF params_missing[OF this n(1)]]
    show ?thesis
      using n(2) by (cases m) (simp_all add: dispatch_def Let_def bind_m_apply look_def storage_m_def missing)
  next
    assume h: "m = M_eth_getBlockTransactionCountByHash" "params request = Inr (JArr [JStr (''0x'' @ digits_of h)])" "length h = 32"
      "\<not> blockExists (pe_db (rv_p2p V)) (the_storage g) h"
    have "dec_eth_getBlockTransactionCountByHash (rv_what V) request = Inr h"
      using h(2,3) toBytes_digits(1)[of h] filters_accept(1)[of h]
      by (simp add: dec_eth_getBlockTransactionCountByHash_def param_string_def filtered_def hex_hash_def Hash_of_def)
    moreover have "getBlock (pe_db (rv_p2p V)) (rv_crypto V) (pe_junk (rv_p2p V)) h (the_storage g) = (Inr None, the_storage g)"
      using h(4) by (simp add: getBlock_def blockExists_def split: StorageStatus.split)
    ultimately show ?thesis
      by (simp add: h(1) dispatch_def Let_def enc_eth_getBlockTransactionCountByHash_def rpc_getBlock_def storage_m_def
        the_storage_def bind_m_apply tx_count_def)
  next
    assume "m = M_eth_sendRawTransaction" "params request = Inr (JArr [JStr ''0x''])"
    then show ?thesis
      by (simp add: dispatch_def Let_def dec_eth_sendRawTransaction_def param_string_def filtered_def Hex_isValid_def has_0x_def
        only_hex_from_def Hex_toBytes_def prefix_0x_def view_at_def hex_body_def TxBlock_parse_def byte_at_def bind_m_apply)
  qed
  then show ?thesis
    using assms(1-3) by (cases "dispatch V m request g") (simp add: parseJsonRpcRequest_def rpc_body_def bind_m_apply)
qed

text \<open>The numbers of a transaction in an answer, by their keys.\<close>

definition tx_numbers :: "txblock \<Rightarrow> nat \<Rightarrow> nat \<Rightarrow> (string \<times> nat) list" where
  "tx_numbers tx i height = [(''blockNumber'', height), (''gas'', tb_gasLimit tx), (''gasPrice'', tb_maxFeePerGas tx),
     (''nonce'', tb_nonce tx), (''transactionIndex'', i), (''value'', tb_value tx), (''v'', tb_v tx), (''r'', tb_r tx),
     (''s'', tb_s tx)]"

text \<open>
  Claim C21. A transaction in an answer, whose numbers are all below 2^256. Its hash, its parties
  and the hash of its block are hexadecimal texts that decode to them. Each of its nine numbers is a
  text that the filter of requests accepts; the decoder of requests reads a number other than
  zero back, and reads past the end of the text of zero, which is undefined behaviour. The input
  decodes to the data exactly when the data is not empty and does not start with a zero byte,
  because its leading zeros are removed as those of a number.
\<close>
theorem rpc_tx_answer:
  assumes "bits_ok c" "\<forall>(k, n)\<in>set (tx_numbers tx i height). n < 2 ^ 256"
  shows "\<exists>fs. chain_tx_json (tx, blockHash, i, height) = Inr (JObj fs)
    \<and> (\<forall>(k, b)\<in>{(''hash'', tb_hash tx), (''from'', tb_from tx), (''to'', tb_to tx), (''blockHash'', blockHash)}.
         \<exists>s. map_of fs k = Some (JStr s) \<and> Hex_toBytes s = Inr b)
    \<and> (\<forall>(k, n)\<in>set (tx_numbers tx i height).
         \<exists>s. map_of fs k = Some (JStr s) \<and> numFilter s \<and> hex_uint c s = (if n = 0 then Inl UndefinedBehaviour else Inr n))
    \<and> (\<exists>s. map_of fs ''input'' = Some (JStr s) \<and> (Hex_toBytes s = Inr (tb_data tx) \<longleftrightarrow> tb_data tx \<noteq> [] \<and> hd (tb_data tx) \<noteq> 0))"
proof -
  obtain f where f: "\<And>n. n < 2 ^ 256 \<Longrightarrow> rpc_num n = Inr (JStr (f n)) \<and> numFilter (f n)
      \<and> hex_uint c (f n) = (if n = 0 then Inl UndefinedBehaviour else Inr n)"
    using rpc_num_decodes[OF assms(1)] by metis
  obtain d where d: "rpc_bytes (tb_data tx) = Inr (JStr d)"
      "Hex_toBytes d = Inr (tb_data tx) \<longleftrightarrow> tb_data tx \<noteq> [] \<and> hd (tb_data tx) \<noteq> 0"
    using rpc_bytes_decodes_iff by blast
  note ns = assms(2)[unfolded tx_numbers_def, simplified]
  show ?thesis
    using ns d(2) toBytes_digits(1)
    by (simp add: chain_tx_json_def tx_numbers_def object_def hex_json_eq f d(1))
qed

text \<open>
  Claim C20. \<^verbatim>\<open>eth_sendRawTransaction\<close> on the text of a transaction that the node reads back from its own
  serialization. A transaction that the state accepts is answered with its hash, is in the
  mempool, and the message that every connected node of the normal kind gets decodes to the same
  transaction. One that the state rejects is answered with the reason and leaves the node as it
  was.
\<close>
theorem rpc_send_raw:
  fixes g :: "('c, 'd) manager"
  assumes "params request = Inr (JArr (JStr (''0x'' @ digits_of (TxBlock_rlpSerialize True tx)) # ps))"
    and "TxBlock_parse (rv_crypto V) (TxBlock_rlpSerialize True tx) = Inr tx"
  shows "(validateTransactionInternal (mg_chain g) tx = Inr NotInvalid \<and> mg_started g
        \<and> mg_broadcasted g (unat (FNVHash (TxBlock_rlpSerialize True tx))) = 0 \<longrightarrow>
      (\<exists>g' m. dispatch V M_eth_sendRawTransaction request g = (Inr (answer (JStr (''0x'' @ digits_of (tb_hash tx)))), g')
        \<and> in_mempool (mg_chain g') (tb_hash tx) \<and> BroadcastDecoder_broadcastTx (rv_crypto V) m = Inr tx
        \<and> mg_log g' = mg_log g @ map (\<lambda>k. Wrote k m) (getSessionsIDs_of NORMAL_NODE g)))
    \<and> (validateTransactionInternal (mg_chain g) tx = Inr v \<and> v \<noteq> NotInvalid \<longrightarrow>
      dispatch V M_eth_sendRawTransaction request g = (Inr (invalid_tx_error v), g))"
proof -
  let ?b = "TxBlock_rlpSerialize True tx"
  have "dec_eth_sendRawTransaction (rv_what V) (rv_crypto V) request = Inr tx"
    using assms toBytes_digits(1)[of ?b] filters_accept(4)[of ?b]
    by (simp add: dec_eth_sendRawTransaction_def param_string_def filtered_def)
  then have d: "dispatch V M_eth_sendRawTransaction request g = enc_eth_sendRawTransaction tx g"
    by (simp add: dispatch_def Let_def bind_m_apply)
  obtain m where m: "broadcast_message BroadcastTx ?b = Inr m" "open_broadcast BroadcastTx m = Inr ?b"
      "bind_r (msg_id m) bytesToUint64 = Inr (unat (FNVHash ?b))"
    using broadcast_parts_ex by blast
  have dec: "BroadcastDecoder_broadcastTx (rv_crypto V) m = Inr tx"
    using m(2) assms(2) by (simp add: BroadcastDecoder_broadcastTx_def)
  have "\<exists>g' m. enc_eth_sendRawTransaction tx g = (Inr (answer (JStr (''0x'' @ digits_of (tb_hash tx)))), g')
      \<and> in_mempool (mg_chain g') (tb_hash tx) \<and> BroadcastDecoder_broadcastTx (rv_crypto V) m = Inr tx
      \<and> mg_log g' = mg_log g @ map (\<lambda>k. Wrote k m) (getSessionsIDs_of NORMAL_NODE g)"
    if v: "validateTransactionInternal (mg_chain g) tx = Inr NotInvalid" "mg_started g" "mg_broadcasted g (unat (FNVHash ?b)) = 0"
  proof -
    obtain s where a: "addTx tx (mg_chain g) = (Inr NotInvalid, s)" "in_mempool s (tb_hash tx)"
      using v(1) by (auto simp: addTx_def in_mempool_def)
    let ?g = "g\<lparr>mg_chain := s, mg_broadcasted := (mg_broadcasted g)(unat (FNVHash ?b) := 1),
        mg_log := mg_log g @ map (\<lambda>k. Wrote k m) (getSessionsIDs_of NORMAL_NODE g)\<rparr>"
    have "broadcastMessage m (g\<lparr>mg_chain := s\<rparr>) = (Inr (), ?g)"
      using broadcastMessage_new[of "g\<lparr>mg_chain := s\<rparr>" m "unat (FNVHash ?b)"] v(2,3) m(3) by (simp add: getSessionsIDs_of_def)
    then show ?thesis
      using a m(1) dec by (intro exI[of _ ?g] exI[of _ m]) (simp add: enc_eth_sendRawTransaction_def bind_m_apply
        Hex_fromBytes_eq chain_m_def hex_json_eq broadcastTxBlock_def BroadcastEncoder_broadcastTx_def)
  qed
  moreover have "enc_eth_sendRawTransaction tx g = (Inr (invalid_tx_error v), g)"
    if "validateTransactionInternal (mg_chain g) tx = Inr v" "v \<noteq> NotInvalid"
    using that by (cases v) (simp_all add: enc_eth_sendRawTransaction_def bind_m_apply Hex_fromBytes_eq chain_m_def addTx_def)
  ultimately show ?thesis unfolding d by blast
qed

section \<open>Witnesses\<close>

definition sample_rpc :: "(unit, table) rpc_env" where
  "sample_rpc = \<lparr>rv_node = sample_env, rv_p2p = gossip_env, rv_json = unary_json, rv_what = (\<lambda>_. ''error''),
     rv_events = (\<lambda>_. \<lparr>em_events = [], em_tempEvents = [], em_db = empty_table\<rparr>), rv_web3ClientVersion = ''node'',
     rv_SDKVersion = ''1.2.3'', rv_coinbase = zero_address, rv_eventBlockCap = 2000, rv_eventLogCap = 10000\<rparr>"

definition sample_request :: "string \<Rightarrow> json list \<Rightarrow> json" where
  "sample_request m ps = JObj [(''jsonrpc'', JStr ''2.0''), (''method'', JStr m), (''params'', JArr ps)]"

definition request_text :: "json \<Rightarrow> string" where
  "request_text j = replicate (to_nat j) (CHR ''1'')"

lemma sample_rpc_simps [simp]:
  "js_parse (rv_json sample_rpc) (request_text j) = Inr j" "rv_crypto sample_rpc = sample_crypto"
  "rv_p2p sample_rpc = gossip_env"
  by (simp_all add: sample_rpc_def unary_json_def request_text_def rv_crypto_def sample_env_def)

lemma sample_request_facts:
  "params (sample_request m ps) = Inr (JArr ps)" "checkJsonRPCSpec W (sample_request m ps) = Inr True"
  "getMethod W (sample_request m ps) = Inr (case map_of methodsLookupTable m of None \<Rightarrow> M_invalid | Some x \<Rightarrow> x)"
  by (simp_all add: sample_request_def params_def checkJsonRPCSpec_def getMethod_def)

theorem rpc_only_looks_witness:
  "\<exists>r g'. parseJsonRpcRequest sample_rpc (request_text (sample_request ''eth_blockNumber'' [])) gossip_node = (r, g')
     \<and> node_kept gossip_node g' \<and> pool_kept gossip_node g' \<and> accounts_kept gossip_node g'"
proof -
  let ?b = "request_text (sample_request ''eth_blockNumber'' [])"
  obtain r g' where p: "parseJsonRpcRequest sample_rpc ?b gossip_node = (r, g')" by fastforce
  have "asks sample_rpc ?b m \<longleftrightarrow> m = M_eth_blockNumber" for m
    by (auto simp: asks_def sample_request_facts methodsLookupTable_def)
  then show ?thesis using rpc_only_looks[OF p] p by auto
qed

theorem rpc_undefined_requests_witness:
  "fst (parseJsonRpcRequest sample_rpc (request_text (sample_request ''eth_sendRawTransaction'' [JStr ''0x''])) gossip_node)
     = Inl UndefinedBehaviour
   \<and> fst (parseJsonRpcRequest sample_rpc (request_text (JObj [(''jsonrpc'', JStr ''2.0''), (''method'', JStr ''eth_chainId'')]))
       gossip_node) = Inl UndefinedBehaviour"
proof -
  have "getMethod W (sample_request ''eth_sendRawTransaction'' ps) = Inr M_eth_sendRawTransaction" for W ps
    by (simp add: sample_request_facts methodsLookupTable_def)
  moreover have "getMethod W (JObj [(''jsonrpc'', JStr ''2.0''), (''method'', JStr ''eth_chainId'')]) = Inr M_eth_chainId"
    "checkJsonRPCSpec W (JObj [(''jsonrpc'', JStr ''2.0''), (''method'', JStr ''eth_chainId'')]) = Inr True" for W
    by (simp_all add: getMethod_def checkJsonRPCSpec_def methodsLookupTable_def)
  ultimately show ?thesis
    using rpc_undefined_requests[of sample_rpc _ "sample_request ''eth_sendRawTransaction'' [JStr ''0x'']" M_eth_sendRawTransaction]
      rpc_undefined_requests[of sample_rpc _ "JObj [(''jsonrpc'', JStr ''2.0''), (''method'', JStr ''eth_chainId'')]" M_eth_chainId]
    by (simp add: sample_request_facts)
qed

theorem rpc_tx_answer_witness:
  "\<exists>fs s t. chain_tx_json (sample_tx\<lparr>tb_data := [0, 5]\<rparr>, zero_hash, 0, 1) = Inr (JObj fs)
     \<and> map_of fs ''input'' = Some (JStr s) \<and> Hex_toBytes s \<noteq> Inr [0, 5]
     \<and> map_of fs ''blockNumber'' = Some (JStr t) \<and> hex_uint sample_crypto t = Inr 1"
proof -
  have "\<forall>(k, n)\<in>set (tx_numbers (sample_tx\<lparr>tb_data := [0, 5]\<rparr>) 0 1). n < 2 ^ 256"
    by (simp add: tx_numbers_def sample_tx_def)
  from rpc_tx_answer[OF sample_crypto_ok(1) this, of zero_hash] show ?thesis
    by (auto simp: tx_numbers_def sample_tx_fields)
qed

theorem rpc_send_raw_witness:
  "\<exists>g' m. dispatch sample_rpc M_eth_sendRawTransaction (sample_request ''eth_sendRawTransaction''
       [JStr (''0x'' @ digits_of (TxBlock_rlpSerialize True (sample_tx\<lparr>tb_r := 2, tb_s := 2, tb_hash := replicate 32 7\<rparr>)))])
       gossip_node = (Inr (answer (JStr (''0x'' @ digits_of (replicate 32 7)))), g')
     \<and> in_mempool (mg_chain g') (replicate 32 7) \<and> mg_log g' = [Wrote peer_a m]"
proof -
  let ?tx = "sample_tx\<lparr>tb_r := 2, tb_s := 2, tb_hash := replicate 32 7\<rparr>"
  have p: "TxBlock_parse (rv_crypto sample_rpc) (TxBlock_rlpSerialize True ?tx) = Inr ?tx"
    unfolding sample_rpc_simps(2)
    by (rule TxBlock_parse_signed[OF sample_crypto_ok(1) sample_tx_signed sample_tx_size(1) sample_crypto_ok(3)])
      (simp_all add: sample_tx_size(2), simp_all add: sample_tx_def)
  have "validateTransactionInternal gossip_chain ?tx = Inr NotInvalid"
    by (subst validate_valid_iff) (simp_all add: gossip_chain_def sample_state_def in_mempool_def getNativeNonce_def
      getNativeBalance_def sample_host_def sample_tx_fields empty_account_def)
  then show ?thesis
    using rpc_send_raw[where V = sample_rpc and g = gossip_node and tx = ?tx, OF _ p, of "sample_request ''eth_sendRawTransaction''
       [JStr (''0x'' @ digits_of (TxBlock_rlpSerialize True ?tx))]" "[]"]
    by (simp add: sample_request_facts gossip_node_eq fresh_manager_def getSessionsIDs_of_def) blast
qed

end
