(* ===== verification/Spec2Isabelle.thy ===== *)
theory Spec2Isabelle
  imports Byte_Codec Hex_Codec Merkle_Tree Safe_Base Safe_Uint Safe_Int Safe_Map Safe_Vector Safe_Array Safe_String ERC20_Token
    ERC721_Token Dex Ecdsa Tx_Rlp Randomness Block_Codec Rdpos Evm_Host
    Database Chain_Storage Chain_State State_Evm P2p_Encoding P2p_Session P2p_Manager Events Abi_Codec
    Rpc_Decoding Rpc_Server
begin

text \<open>
  A verification of the OrbiterSDK node, the C++ program under \<^verbatim>\<open>src/src\<close>: a blockchain node with a
  randomised proof of stake consensus, an Ethereum virtual machine, contracts written in C++
  and a peer-to-peer network.

  \<^bold>\<open>The program.\<close> A node receives messages from its peers (\<^verbatim>\<open>net/p2p\<close>): a session frames them on a
  socket, the manager dispatches them. A transaction goes to the mempool of the state, a
  validator transaction to the consensus, a block is validated and processed. The state
  (\<^verbatim>\<open>core/state.cpp\<close>) keeps the accounts inside the host of the virtual machine
  (\<^verbatim>\<open>core/evmhost.hpp\<close>), runs a transaction either on that machine or on a C++ contract through
  the contract manager, asks the consensus (\<^verbatim>\<open>core/rdpos.cpp\<close>) about every block, and hands the
  block to the storage (\<^verbatim>\<open>core/storage.cpp\<close>), which writes to the database (\<^verbatim>\<open>utils/db.cpp\<close>). C++
  contracts (\<^verbatim>\<open>contract/templates\<close>) keep their data in safe variables
  (\<^verbatim>\<open>contract/variables\<close>), which a call commits or reverts. Below all of it are the codecs of
  \<^verbatim>\<open>utils\<close>.

  \<^bold>\<open>The theories and the sources they translate.\<close>

  \<^item> \<open>Prelude\<close>: exceptions as the type \<open>cpp_error\<close>, \<open>'a res\<close> for code that may throw, \<open>('s, 'a) meth\<close>
    for methods, whose changes to the object survive an exception, and the checked integers
    of \<^verbatim>\<open>utils/utils.h\<close>. Reads out of range, wrong casts and the like are the error
    \<open>UndefinedBehaviour\<close>, which no handler catches.
  \<^item> \<open>Byte_Codec\<close> (\<^verbatim>\<open>utils/utils.cpp\<close>), \<open>Hex_Codec\<close> (\<^verbatim>\<open>utils/hex.cpp\<close>), \<open>Merkle_Tree\<close>
    (\<^verbatim>\<open>utils/merkle.cpp\<close>), \<open>Ecdsa\<close> (\<^verbatim>\<open>utils/ecdsa.cpp\<close>), \<open>Randomness\<close> (\<^verbatim>\<open>utils/randomgen.h\<close>).
  \<^item> \<open>Tx_Rlp\<close> (\<^verbatim>\<open>utils/tx.cpp\<close>): both transaction types, their RLP parser and serializer and their
    construction. \<open>Block_Codec\<close> (\<^verbatim>\<open>utils/block.cpp\<close>): blocks, the parser with its parallel
    branch, \<open>finalize\<close>.
  \<^item> \<open>Safe_Base\<close>, \<open>Safe_Uint\<close>, \<open>Safe_Int\<close>, \<open>Safe_Map\<close>, \<open>Safe_Vector\<close>, \<open>Safe_Array\<close> (also the tuple),
    \<open>Safe_String\<close> (\<^verbatim>\<open>contract/variables\<close>): a safe variable is a record of the committed value, the
    temporary one and the registration.
  \<^item> \<open>ERC20_Token\<close>, \<open>ERC721_Token\<close>, \<open>Dex\<close> (\<^verbatim>\<open>contract/templates\<close>): the contracts, each operation a
    method on the record of the contract.
  \<^item> \<open>Rdpos\<close> (\<^verbatim>\<open>core/rdpos.cpp\<close>): validators, random list, validation of blocks and of validator
    transactions, the worker that makes them.
  \<^item> \<open>Evm_Host\<close> (\<^verbatim>\<open>core/evmhost.hpp\<close>): accounts, storage and logs of the host with commit and
    revert, the host interface and \<open>execute\<close>.
  \<^item> \<open>Database\<close> (\<^verbatim>\<open>utils/db.cpp\<close>), \<open>Chain_Storage\<close> (\<^verbatim>\<open>core/storage.cpp\<close>), \<open>Chain_State\<close> and
    \<open>State_Evm\<close> (\<^verbatim>\<open>core/state.cpp\<close>, the call paths of \<^verbatim>\<open>contract/contractmanager.cpp\<close>), \<open>Events\<close>
    (\<^verbatim>\<open>contract/event.cpp\<close>). \<open>Abi_Codec\<close> (\<^verbatim>\<open>contract/abi.h\<close>): the types of the ABI as a datatype, and
    the encoder, the event encoder and the decoder as recursive functions of the type.
  \<^item> \<open>P2p_Encoding\<close>, \<open>P2p_Session\<close>, \<open>P2p_Manager\<close> (\<^verbatim>\<open>net/p2p\<close>): messages, sessions as a state
    machine, and the manager with every handler of a normal node.
  \<^item> \<open>Rpc_Decoding\<close>, \<open>Rpc_Server\<close> (\<^verbatim>\<open>net/http/jsonrpc\<close>, \<^verbatim>\<open>net/http/httpparser.cpp\<close>): one decoder and one
    encoder per method, and the function that answers the body of a request on the state of
    the manager.

  \<^bold>\<open>What is proved.\<close>

  \<^item> Chain: when a block is accepted and what processing it does; the effect of a transfer, of a
    failing contract call and of a failing machine transaction; what calls and estimates leave
    alone, and the balances that they can change; that the storage finds the blocks and transactions
    of the chain and what its index of heights holds; that after saving and loading every block is found
    and the last 501 are in memory; that the database is a map.
  \<^item> Consensus: the rules for blocks as one equivalence, the invariant of every reachable state,
    and that what a validator makes is accepted by the others.
  \<^item> Network: requests and answers round trip, broadcasts are accepted exactly when a node made
    them, the byte stream of a session in every interleaving of completions and failures, no
    node is sent a broadcast twice, what a message can do to the chain, and which messages
    leave the handler with an error.
  \<^item> JSON-RPC: a request leaves the chain, the consensus and the connections alone; only a raw transaction
    changes the mempool and reaches the peers, unchanged, and only the two call methods touch
    accounts; which fields of an answer decode to what they show; and which well-formed
    requests end in undefined behaviour.
  \<^item> Codecs: exact conditions for the round trips of integers, transactions and blocks, and
    the equality of the parallel with the sequential parser.
  \<^item> ABI: the round trip of every nesting of types with the exact conditions on tuples and
    negative numbers, the exact result of decoding static types from any data, and the offsets with which
    the decoder leaves the data. Events: saving and loading, and the exact answers of queries.
  \<^item> Contracts: supply and ownership invariants, the exact effect of transfers, the constant
    product of the exchange, atomicity of calls on safe variables, exactness of the checked
    arithmetic; vectors, arrays and strings simulate plain ones with transactions over any
    sequence of operations; where each operation of a map agrees with a plain map and where not.

  \<^bold>\<open>Interfaces.\<close> The locale \<open>boost_bits\<close> states what the codecs need of the import and export of
  big integers; \<open>safe_cell\<close> and \<open>safe_cell_unreg\<close> the contract between a call and its safe
  variables; \<open>simulation\<close> that of an operation of a container and its plain counterpart, for
  vectors, arrays and strings; \<open>frame_relation\<close> what operations of the node leave alone, for five
  relations; \<open>journal\<close> that of the logs of the host, interpreted for its four logs; \<open>shuffler\<close>
  that of the random generator. Each is interpreted on the definitions of the model.

  \<^bold>\<open>Code that is not in the repository\<close> is a parameter: the elliptic curve, the hash function and
  the big integer import and export are the record \<open>crypto\<close> with the hypotheses \<open>bits_ok\<close> and
  \<open>hash_ok\<close>; the database engine is \<open>rocksdb\<close> with \<open>engine_ok\<close>; the virtual machine is a
  function with \<open>vm_ok\<close>, which says that it changes the host only through the host
  interface; C++ contracts that a transaction calls are fields of \<open>node_env\<close>; the JSON library is \<open>json_lib\<close> with
  \<open>json_ok\<close>, and the options and the texts of exceptions are fields of \<open>rpc_env\<close>. Witnesses
  instantiate all of them.

  \<^bold>\<open>Bounds and loops.\<close> Machine integers are natural numbers with their modulus written out, or
  words where the code works on bits. Every loop of the model is a total function with its
  measure; there is no fuel. Files and blocks are below \<open>2 ^ 64\<close> bytes where a length is
  written in eight of them.

  \<^bold>\<open>Not modelled.\<close> Threads and locks, except for the completions of a session and the steps of the
  manager, which may come in any order; sockets, the HTTP server around the requests, the discovery
  worker and the syncer of \<^verbatim>\<open>core/blockchain.cpp\<close>; the
  router of the exchange; the shifts of the safe integers;
  the precompiled contracts and nested calls of the host; the creation of C++ contracts;
  logging, options and vendored libraries. The order of an unordered map is the order of
  insertion, which no theorem uses.
\<close>

end
